(* ===== verification/Prelude.thy ===== *)
theory Prelude
  imports Main "HOL-Library.Word"
begin

text \<open>
  Shared vocabulary of the development: the machine-integer types of the C++ sources, the
  big-endian byte order used by every wire format of the program, and the generic lemmas
  on lists and words that the component theories share.
\<close>

section \<open>Types\<close>

type_synonym byte = "8 word"
type_synonym u16 = "16 word"
type_synonym u32 = "32 word"
type_synonym bytes = "byte list"

named_theorems wire \<open>round trips of the wire formats\<close>

unbundle bit_operations_syntax

section \<open>Big-endian integers\<close>

text \<open>
  The shift-and-mask idiom that \<^verbatim>\<open>ProtocolUtil.cpp\<close>, \<^verbatim>\<open>PacketStreamFilter.cpp\<close> and
  \<^verbatim>\<open>IClipboard.cpp\<close> all use: the most significant byte first.
\<close>

definition be16 :: "u16 \<Rightarrow> bytes" where
  "be16 v = [ucast (drop_bit 8 v AND 0xff), ucast (v AND 0xff)]"

definition be32 :: "u32 \<Rightarrow> bytes" where
  "be32 v = [ucast (drop_bit 24 v AND 0xff), ucast (drop_bit 16 v AND 0xff),
             ucast (drop_bit 8 v AND 0xff), ucast (v AND 0xff)]"

definition un_be16 :: "byte \<Rightarrow> byte \<Rightarrow> u16" where
  "un_be16 a b = push_bit 8 (ucast a) OR ucast b"

definition un_be32 :: "byte \<Rightarrow> byte \<Rightarrow> byte \<Rightarrow> byte \<Rightarrow> u32" where
  "un_be32 a b c d =
     push_bit 24 (ucast a) OR push_bit 16 (ucast b) OR push_bit 8 (ucast c) OR ucast d"

lemma length_be16 [simp]: "length (be16 v) = 2"
  by (simp add: be16_def)

lemma length_be32 [simp]: "length (be32 v) = 4"
  by (simp add: be32_def)

lemma be32_not_Nil [simp]: "be32 v \<noteq> []"
  by (simp add: be32_def)

lemma bit_and_255: "bit (w AND 255 :: 'a::len word) n \<longleftrightarrow> bit w n \<and> n < 8"
proof -
  have "(255 :: 'a word) = mask 8"
    by (simp add: mask_eq_exp_minus_1)
  then have "bit (w AND 255) n \<longleftrightarrow> bit w n \<and> possible_bit TYPE('a word) n \<and> n < 8"
    by (simp only: bit_and_iff bit_mask_iff)
  then show ?thesis
    by (auto dest: bit_imp_possible_bit)
qed

lemmas byte_bit_simps =
  bit_and_255 bit_unsigned_iff bit_drop_bit_eq bit_push_bit_iff bit_or_iff

lemma un_be16_be16 [wire]: "be16 v = [a, b] \<Longrightarrow> un_be16 a b = v"
  by (rule bit_word_eqI) (auto simp: be16_def un_be16_def byte_bit_simps)

lemma un_be32_be32 [wire]: "be32 v = [a, b, c, d] \<Longrightarrow> un_be32 a b c d = v"
proof (rule bit_word_eqI)
  fix n
  assume eq: "be32 v = [a, b, c, d]" and n: "n < LENGTH(32)"
  consider "n < 8" | "8 \<le> n" "n < 16" | "16 \<le> n" "n < 24" | "24 \<le> n"
    by linarith
  then show "bit (un_be32 a b c d) n = bit v n"
    using eq n by cases (auto simp: be32_def un_be32_def byte_bit_simps)
qed

lemma be32_un_be32 [wire]: "be32 (un_be32 a b c d) = [a, b, c, d]"
  unfolding be32_def un_be32_def list.inject
  by (intro conjI; (rule refl | rule bit_word_eqI))
    (auto simp: byte_bit_simps dest: bit_imp_le_length)

lemma be32_cases:
  obtains a b c d where "be32 v = [a, b, c, d]" and "un_be32 a b c d = v"
  using that un_be32_be32 by (simp add: be32_def)

lemma be32_inject: "be32 v = be32 w \<longleftrightarrow> v = w"
  by (metis be32_cases un_be32_be32)

lemma be16_cases:
  obtains a b where "be16 v = [a, b]" and "un_be16 a b = v"
  using that un_be16_be16 by (simp add: be16_def)

lemma append_eq_prefixE:
  assumes "p @ q = h @ r" and "length h \<le> length p"
  obtains p' where "p = h @ p'" and "r = p' @ q"
  using assms by (auto simp: append_eq_append_conv2)

lemma length_4_cases:
  assumes "length xs = 4"
  obtains a b c d where "xs = [a, b, c, d]"
proof -
  from assms have "xs \<noteq> []" by auto
  with assms that show thesis
    by (cases xs; cases "tl xs"; cases "tl (tl xs)"; cases "tl (tl (tl xs))") auto
qed

end
