(* ===== verification/Stream_Buffer.thy ===== *)
theory Stream_Buffer
  imports Prelude
begin

text \<open>
  The chunked byte buffer of \<^verbatim>\<open>io/StreamBuffer.cpp\<close>, and the interface its client relies
  on: a first-in first-out queue of bytes. The buffer keeps a list of chunks of at most
  \<^verbatim>\<open>kChunkSize\<close> bytes (a consolidated head chunk may be longer), the number of bytes of
  the head chunk that are already consumed, and the total number of unread bytes.
  Sizes are natural numbers: \<^verbatim>\<open>m_size\<close> is a 32-bit count that wraps only when 4 GiB are
  buffered at once.
\<close>

section \<open>The byte queue interface\<close>

locale byte_queue =
  fixes content :: "'q \<Rightarrow> bytes"
    and inv :: "'q \<Rightarrow> bool"
    and count :: "'q \<Rightarrow> nat"
    and peek :: "nat \<Rightarrow> 'q \<Rightarrow> (bytes \<times> 'q) option"
    and pop :: "nat \<Rightarrow> 'q \<Rightarrow> 'q option"
    and put :: "bytes \<Rightarrow> 'q \<Rightarrow> 'q"
  assumes count_content: "inv q \<Longrightarrow> count q = length (content q)"
    and peek_content: "\<lbrakk>inv q; n \<le> length (content q)\<rbrakk> \<Longrightarrow>
      \<exists>q'. peek n q = Some (take n (content q), q') \<and> inv q' \<and> content q' = content q"
    and pop_content: "inv q \<Longrightarrow> \<exists>q'. pop n q = Some q' \<and> inv q' \<and> content q' = drop n (content q)"
    and put_inv: "inv q \<Longrightarrow> inv (put d q)"
    and put_content: "inv q \<Longrightarrow> content (put d q) = content q @ d"
begin

text \<open>Looking at the first bytes and then removing them takes them off the queue.\<close>

lemma peek_pop:
  assumes "inv q" and "n \<le> count q"
  obtains q1 q2 where "peek n q = Some (take n (content q), q1)" and "pop n q1 = Some q2"
    and "inv q2" and "content q2 = drop n (content q)"
  using assms that peek_content [of q n] pop_content [of _ n] count_content
  by (metis (no_types, lifting))

text \<open>However a byte string is cut into writes, the queue holds it in order.\<close>

lemma fold_put:
  "inv q \<Longrightarrow> inv (fold put ds q) \<and> content (fold put ds q) = content q @ concat ds"
  by (induction ds arbitrary: q) (simp_all add: put_inv put_content)

lemma pop_all: "inv q \<Longrightarrow> \<exists>q'. pop (count q) q = Some q' \<and> inv q' \<and> content q' = []"
  using pop_content [of q "count q"] by (simp add: count_content)

end

section \<open>The buffer\<close>

record stream_buffer =
  sb_chunks :: "bytes list"
  sb_size :: nat
  sb_head_used :: nat

definition sb_empty :: stream_buffer where
  "sb_empty = \<lparr>sb_chunks = [], sb_size = 0, sb_head_used = 0\<rparr>"

definition kChunkSize :: nat where
  "kChunkSize = 4096"

text \<open>
  \<^verbatim>\<open>peek\<close>: later chunks are appended to the head chunk until it holds enough bytes. The
  result is \<^const>\<open>None\<close> where the assertion fails that so many bytes are there, or where the
  source dereferences the head of an empty list.
\<close>

fun sb_consolidate :: "nat \<Rightarrow> nat \<Rightarrow> bytes \<Rightarrow> bytes list \<Rightarrow> bytes \<times> bytes list" where
  "sb_consolidate n used h [] = (h, [])"
| "sb_consolidate n used h (c # cs) =
     (if length h - used < n then sb_consolidate n used (h @ c) cs else (h, c # cs))"

definition sb_peek :: "nat \<Rightarrow> stream_buffer \<Rightarrow> (bytes \<times> stream_buffer) option" where
  "sb_peek n b =
     (if \<not> n \<le> sb_size b then None
      else if n = 0 then Some ([], b)
      else case sb_chunks b of
        [] \<Rightarrow> None
      | h # cs \<Rightarrow>
          (let (h', cs') = sb_consolidate n (sb_head_used b) h cs
           in Some (take n (drop (sb_head_used b) h'), b\<lparr>sb_chunks := h' # cs'\<rparr>)))"

text \<open>
  \<^verbatim>\<open>pop\<close>: whole chunks are dropped while they hold no more than the bytes still to be
  removed. \<^const>\<open>None\<close> is the failed assertion that the chunk list ran out.
\<close>

fun sb_drop_chunks :: "nat \<Rightarrow> nat \<Rightarrow> bytes list \<Rightarrow> (nat \<times> nat \<times> bytes list) option" where
  "sb_drop_chunks n used [] = None"
| "sb_drop_chunks n used (c # cs) =
     (if length c - used \<le> n then sb_drop_chunks (n - (length c - used)) 0 cs
      else Some (n, used, c # cs))"

definition sb_pop :: "nat \<Rightarrow> stream_buffer \<Rightarrow> stream_buffer option" where
  "sb_pop n b =
     (if sb_size b \<le> n then Some \<lparr>sb_chunks = [], sb_size = 0, sb_head_used = 0\<rparr>
      else case sb_drop_chunks n (sb_head_used b) (sb_chunks b) of
        None \<Rightarrow> None
      | Some (n', used, cs) \<Rightarrow>
          Some \<lparr>sb_chunks = cs, sb_size = sb_size b - n,
                sb_head_used = (if 0 < n' then used + n' else used)\<rparr>)"

text \<open>
  \<^verbatim>\<open>write\<close>: the data is cut into pieces that fill the last chunk up to \<^const>\<open>kChunkSize\<close>,
  then fresh chunks.
\<close>

function sb_fill :: "bytes \<Rightarrow> bytes \<Rightarrow> bytes list" where
  "sb_fill c d =
     (let k = min (kChunkSize - length c) (length d)
      in if drop k d = [] then [c @ take k d]
         else (c @ take k d) # sb_fill [] (drop k d))"
  by pat_completeness auto
termination
  by (relation "measure (\<lambda>(c, d). 2 * length d + (if c = [] then 0 else 1))")
    (auto simp: kChunkSize_def)

definition sb_write :: "bytes \<Rightarrow> stream_buffer \<Rightarrow> stream_buffer" where
  "sb_write d b =
     (if d = [] then b
      else let cs = sb_chunks b
           in b\<lparr>sb_size := sb_size b + length d,
                sb_chunks :=
                  (if cs = [] \<or> kChunkSize \<le> length (last cs) then cs @ sb_fill [] d
                   else butlast cs @ sb_fill (last cs) d)\<rparr>)"

definition sb_get_size :: "stream_buffer \<Rightarrow> nat" where
  "sb_get_size b = sb_size b"

section \<open>The buffer is a byte queue\<close>

definition sb_content :: "stream_buffer \<Rightarrow> bytes" where
  "sb_content b = drop (sb_head_used b) (concat (sb_chunks b))"

definition sb_inv :: "stream_buffer \<Rightarrow> bool" where
  "sb_inv b \<longleftrightarrow>
     sb_size b = length (sb_content b) \<and> [] \<notin> set (sb_chunks b) \<and>
     (case sb_chunks b of [] \<Rightarrow> sb_head_used b = 0 | h # _ \<Rightarrow> sb_head_used b < length h)"

lemma sb_empty_inv [simp]: "sb_inv sb_empty" "sb_content sb_empty = []"
  by (simp_all add: sb_inv_def sb_empty_def sb_content_def)

lemma sb_consolidate_concat:
  "sb_consolidate n used h cs = (h', cs') \<Longrightarrow> h' @ concat cs' = h @ concat cs"
  by (induction n used h cs rule: sb_consolidate.induct) (auto split: if_splits)

lemma sb_consolidate_length:
  "\<lbrakk>sb_consolidate n used h cs = (h', cs'); used \<le> length h; used + n \<le> length (h @ concat cs)\<rbrakk>
    \<Longrightarrow> used + n \<le> length h'"
  by (induction n used h cs rule: sb_consolidate.induct) (auto split: if_splits)

lemma sb_consolidate_frame:
  "\<lbrakk>sb_consolidate n used h cs = (h', cs'); [] \<notin> set cs\<rbrakk>
    \<Longrightarrow> length h \<le> length h' \<and> [] \<notin> set cs'"
  by (induction n used h cs rule: sb_consolidate.induct) (fastforce split: if_splits)+

lemma sb_peek_content:
  assumes inv: "sb_inv b" and n: "n \<le> length (sb_content b)"
  shows "\<exists>b'. sb_peek n b = Some (take n (sb_content b), b') \<and> sb_inv b' \<and>
    sb_content b' = sb_content b"
proof (cases "n = 0")
  case True
  with inv show ?thesis by (simp add: sb_peek_def)
next
  case False
  with n obtain h cs where cs: "sb_chunks b = h # cs"
    by (cases "sb_chunks b") (auto simp: sb_content_def)
  obtain h' cs' where c: "sb_consolidate n (sb_head_used b) h cs = (h', cs')"
    by fastforce
  let ?b = "b\<lparr>sb_chunks := h' # cs'\<rparr>"
  from inv cs have u: "sb_head_used b < length h" "[] \<notin> set cs"
    by (auto simp: sb_inv_def)
  with n cs have "sb_head_used b + n \<le> length (h @ concat cs)"
    by (simp add: sb_content_def)
  with c less_imp_le [OF u(1)] have len: "sb_head_used b + n \<le> length h'"
    by (rule sb_consolidate_length)
  have eq: "sb_content ?b = sb_content b"
    using sb_consolidate_concat [OF c] by (simp add: sb_content_def cs)
  moreover have "sb_inv ?b"
    unfolding sb_inv_def eq using inv u sb_consolidate_frame [OF c u(2)] by (auto simp: sb_inv_def)
  moreover have "take n (drop (sb_head_used b) h') = take n (sb_content ?b)"
    using len by (simp add: sb_content_def)
  ultimately show ?thesis
    using False cs c n inv by (simp add: sb_peek_def sb_inv_def)
qed

lemma sb_drop_chunks_spec:
  "\<lbrakk>used + n < length (concat cs); [] \<notin> set cs; cs = [] \<or> used \<le> length (hd cs)\<rbrakk> \<Longrightarrow>
    \<exists>n' used' c cs'. sb_drop_chunks n used cs = Some (n', used', c # cs') \<and>
      used' + n' < length c \<and> drop (used' + n') (concat (c # cs')) = drop (used + n) (concat cs) \<and>
      [] \<notin> set (c # cs')"
proof (induction n used cs rule: sb_drop_chunks.induct)
  case (1 n used)
  then show ?case by simp
next
  case (2 n used c cs)
  show ?case
  proof (cases "length c - used \<le> n")
    case True
    with 2 have "drop (used + n) (concat (c # cs)) = drop (n - (length c - used)) (concat cs)"
      by (simp add: add.commute)
    with True 2 show ?thesis by simp
  next
    case False
    with 2 show ?thesis by auto
  qed
qed

lemma sb_pop_content:
  assumes inv: "sb_inv b"
  shows "\<exists>b'. sb_pop n b = Some b' \<and> sb_inv b' \<and> sb_content b' = drop n (sb_content b)"
proof (cases "sb_size b \<le> n")
  case True
  with inv show ?thesis
    by (simp add: sb_pop_def sb_inv_def sb_content_def)
next
  case False
  with inv have lt: "sb_head_used b + n < length (concat (sb_chunks b))"
    by (auto simp: sb_inv_def sb_content_def)
  from inv have "[] \<notin> set (sb_chunks b)"
    and "sb_chunks b = [] \<or> sb_head_used b \<le> length (hd (sb_chunks b))"
    by (auto simp: sb_inv_def split: list.splits)
  from sb_drop_chunks_spec [OF lt this] obtain n' used' c cs' where
    eq: "sb_drop_chunks n (sb_head_used b) (sb_chunks b) = Some (n', used', c # cs')"
    and used: "used' + n' < length c" and ne: "[] \<notin> set (c # cs')"
    and drop: "drop (used' + n') (concat (c # cs')) =
      drop (sb_head_used b + n) (concat (sb_chunks b))"
    by blast
  let ?b = "\<lparr>sb_chunks = c # cs', sb_size = sb_size b - n, sb_head_used = used' + n'\<rparr>"
  have pop: "sb_pop n b = Some ?b"
    using False eq by (simp add: sb_pop_def)
  have content: "sb_content ?b = drop n (sb_content b)"
    using drop by (simp add: sb_content_def add.commute)
  have "sb_inv ?b"
    unfolding sb_inv_def content using inv used ne by (simp add: sb_inv_def)
  with pop content show ?thesis by blast
qed

declare sb_fill.simps [simp del]

lemma sb_fill_concat: "length c \<le> kChunkSize \<Longrightarrow> concat (sb_fill c d) = c @ d"
proof (induction c d rule: sb_fill.induct)
  case (1 c d)
  then show ?case
    by (subst sb_fill.simps) (auto simp: Let_def)
qed

lemma sb_fill_not_Nil:
  "\<lbrakk>length c \<le> kChunkSize; c @ d \<noteq> []\<rbrakk> \<Longrightarrow> [] \<notin> set (sb_fill c d)"
proof (induction c d rule: sb_fill.induct)
  case (1 c d)
  have k: "0 < kChunkSize" by (simp add: kChunkSize_def)
  with 1 show ?case
    by (subst sb_fill.simps) (auto simp: Let_def min_def split: if_splits)
qed

lemma sb_fill_head: "\<exists>x cs. sb_fill c d = (c @ x) # cs"
  by (subst sb_fill.simps) (auto simp: Let_def)

lemma sb_write_content:
  assumes "sb_inv b"
  shows "sb_content (sb_write d b) = sb_content b @ d"
proof (cases "d = [] \<or> sb_chunks b = [] \<or> kChunkSize \<le> length (last (sb_chunks b))")
  case True
  with assms show ?thesis
    by (auto simp: sb_write_def sb_content_def sb_fill_concat sb_inv_def split: list.splits)
next
  case False
  then have "sb_chunks b = butlast (sb_chunks b) @ [last (sb_chunks b)]" by simp
  then have "concat (butlast (sb_chunks b)) @ last (sb_chunks b) = concat (sb_chunks b)"
    by (metis concat.simps concat_append append_Nil2)
  with False assms show ?thesis
    by (auto simp: sb_write_def sb_content_def sb_fill_concat sb_inv_def simp flip: append_assoc
        split: list.splits)
qed

lemma sb_write_inv:
  assumes inv: "sb_inv b"
  shows "sb_inv (sb_write d b)"
proof (cases "d = []")
  case True
  with inv show ?thesis by (simp add: sb_write_def)
next
  case False
  let ?b = "sb_write d b"
  have size: "sb_size ?b = length (sb_content ?b)"
    unfolding sb_write_content [OF inv] using False inv
    by (simp add: sb_write_def sb_inv_def Let_def)
  have ne: "[] \<notin> set (sb_chunks ?b)"
    using False inv
    by (auto simp: sb_write_def sb_inv_def Let_def sb_fill_not_Nil dest: in_set_butlastD)
  have "case sb_chunks ?b of [] \<Rightarrow> sb_head_used ?b = 0 | h # _ \<Rightarrow> sb_head_used ?b < length h"
  proof (cases "sb_chunks b")
    case Nil
    with False inv ne show ?thesis
      using sb_fill_head [of "[]" d] by (auto simp: sb_write_def sb_inv_def)
  next
    case (Cons h cs)
    with False inv show ?thesis
      using sb_fill_head [of h d] by (auto simp: sb_write_def sb_inv_def Let_def)
  qed
  with size ne show ?thesis by (simp add: sb_inv_def)
qed

interpretation sbq: byte_queue sb_content sb_inv sb_get_size sb_peek sb_pop sb_write
proof
  show "sb_inv q \<Longrightarrow> sb_get_size q = length (sb_content q)" for q
    by (simp add: sb_inv_def sb_get_size_def)
qed (simp_all add: sb_peek_content sb_pop_content sb_write_inv sb_write_content)

end
