(* ===== verification/Packet_Filter.thy ===== *)
theory Packet_Filter
  imports Stream_Buffer "HOL-Library.Sublist"
begin

text \<open>
  The packet framing layer \<^verbatim>\<open>deskflow/PacketStreamFilter.cpp\<close>: every message travels as a
  big-endian 32-bit length and that many bytes of payload. The filter sits on a byte
  stream, collects its bytes in a \<^typ>\<open>stream_buffer\<close> and hands out payload bytes only
  when a whole packet has arrived. The bytes that the underlying stream returns are an
  argument of \<open>pf_read_more\<close>: one list element per call of its \<^verbatim>\<open>read\<close>. Locks are left
  out, the operations are the critical sections. \<^const>\<open>None\<close> is a failed assertion of
  the buffer.
\<close>

section \<open>State and operations\<close>

datatype pf_event = Input_Ready | Input_Shutdown | Input_Format_Error | Other_Event

record packet_filter =
  pf_buffer :: stream_buffer
  pf_size :: u32
  pf_input_shutdown :: bool

definition pf_init :: packet_filter where
  "pf_init = \<lparr>pf_buffer = sb_empty, pf_size = 0, pf_input_shutdown = False\<rparr>"

definition protocol_max_message_length :: u32 where
  "protocol_max_message_length = 4 * 1024 * 1024"

definition pf_is_ready :: "packet_filter \<Rightarrow> bool" where
  "pf_is_ready f \<longleftrightarrow> pf_size f \<noteq> 0 \<and> unat (pf_size f) \<le> sb_get_size (pf_buffer f)"

definition pf_get_size :: "packet_filter \<Rightarrow> u32" where
  "pf_get_size f = (if pf_is_ready f then pf_size f else 0)"

definition pf_close :: "packet_filter \<Rightarrow> packet_filter option" where
  "pf_close f =
     map_option (\<lambda>b. f\<lparr>pf_size := 0, pf_buffer := b\<rparr>)
       (sb_pop (sb_get_size (pf_buffer f)) (pf_buffer f))"

definition pf_shutdown_input :: "packet_filter \<Rightarrow> packet_filter option" where
  "pf_shutdown_input f =
     map_option (\<lambda>b. f\<lparr>pf_size := 0, pf_buffer := b\<rparr>)
       (sb_pop (sb_get_size (pf_buffer f)) (pf_buffer f))"

definition pf_read_packet_size ::
    "packet_filter \<Rightarrow> (bool \<times> packet_filter \<times> pf_event list) option" where
  "pf_read_packet_size f =
     (if pf_size f = 0 \<and> 4 \<le> sb_get_size (pf_buffer f) then
        case sb_peek 4 (pf_buffer f) of
          None \<Rightarrow> None
        | Some (h, q) \<Rightarrow>
            (case sb_pop 4 q of
              None \<Rightarrow> None
            | Some q' \<Rightarrow>
                (let f' = f\<lparr>pf_buffer := q', pf_size := un_be32 (h ! 0) (h ! 1) (h ! 2) (h ! 3)\<rparr>
                 in if protocol_max_message_length < pf_size f'
                    then Some (False, f', [Input_Format_Error])
                    else Some (True, f', [])))
      else Some (True, f, []))"

definition pf_read ::
    "u32 \<Rightarrow> packet_filter \<Rightarrow> (bytes \<times> packet_filter \<times> pf_event list) option" where
  "pf_read n f =
     (if n = 0 then Some ([], f, [])
      else if \<not> pf_is_ready f then Some ([], f, [])
      else
        (let n' = (if pf_size f < n then pf_size f else n)
         in case sb_peek (unat n') (pf_buffer f) of
              None \<Rightarrow> None
            | Some (out, q) \<Rightarrow>
                (case sb_pop (unat n') q of
                  None \<Rightarrow> None
                | Some q' \<Rightarrow>
                    (case pf_read_packet_size (f\<lparr>pf_buffer := q', pf_size := pf_size f - n'\<rparr>) of
                      None \<Rightarrow> None
                    | Some (_, f', ev) \<Rightarrow>
                        Some (out, f',
                          ev @ (if pf_input_shutdown f' \<and> pf_size f' = 0
                                then [Input_Shutdown] else []))))))"

definition pf_write :: "bytes \<Rightarrow> bytes list" where
  "pf_write payload = [be32 (of_nat (length payload)), payload]"

fun pf_read_loop ::
    "bytes list \<Rightarrow> packet_filter \<Rightarrow> (packet_filter \<times> pf_event list) option" where
  "pf_read_loop [] f = Some (f, [])"
| "pf_read_loop (c # cs) f =
     (if c = [] then Some (f, [])
      else case pf_read_packet_size (f\<lparr>pf_buffer := sb_write c (pf_buffer f)\<rparr>) of
             None \<Rightarrow> None
           | Some (ok, f', ev) \<Rightarrow>
               if \<not> ok then Some (f', ev)
               else map_option (\<lambda>(f'', ev'). (f'', ev @ ev')) (pf_read_loop cs f'))"

definition pf_read_more ::
    "bytes list \<Rightarrow> packet_filter \<Rightarrow> (bool \<times> packet_filter \<times> pf_event list) option" where
  "pf_read_more reads f =
     map_option (\<lambda>(f', ev). (pf_is_ready f \<noteq> pf_is_ready f', f', ev)) (pf_read_loop reads f)"

text \<open>
  \<^verbatim>\<open>filterEvent\<close>: the events that reach the owner of the filter are the ones the filter
  raises itself and the original event, where it is passed on.
\<close>

definition pf_filter_event ::
    "pf_event \<Rightarrow> bytes list \<Rightarrow> packet_filter \<Rightarrow> (packet_filter \<times> pf_event list) option" where
  "pf_filter_event e reads f =
     (if e = Input_Ready then
        map_option (\<lambda>(changed, f', ev). (f', ev @ (if changed then [e] else [])))
          (pf_read_more reads f)
      else if e = Input_Shutdown then
        (let f' = f\<lparr>pf_input_shutdown := True\<rparr>
         in if pf_size f' \<noteq> 0 then
              if unat (pf_size f') \<le> sb_get_size (pf_buffer f') then Some (f', [])
              else Some (f'\<lparr>pf_size := 0\<rparr>, [Input_Format_Error, e])
            else Some (f', [e]))
      else Some (f, [e]))"

section \<open>Framing is correct\<close>

text \<open>
  The bytes a filter has received and not handed out: the length it has read, put back in
  front, and the buffered bytes. Between calls a filter is \<^emph>\<open>settled\<close>: it holds a length
  whenever four bytes are there.
\<close>

definition frame :: "bytes \<Rightarrow> bytes" where
  "frame p = concat (pf_write p)"

definition pf_pending :: "packet_filter \<Rightarrow> bytes" where
  "pf_pending f =
     (if pf_size f = 0 then [] else be32 (pf_size f)) @ sb_content (pf_buffer f)"

definition pf_settled :: "packet_filter \<Rightarrow> bool" where
  "pf_settled f \<longleftrightarrow> sb_inv (pf_buffer f) \<and> pf_size f \<le> protocol_max_message_length \<and>
     (pf_size f = 0 \<longrightarrow> length (sb_content (pf_buffer f)) < 4)"

definition sendable :: "bytes \<Rightarrow> bool" where
  "sendable p \<longleftrightarrow> p \<noteq> [] \<and> length p \<le> unat protocol_max_message_length"

lemma unat_max_message [simp]: "unat protocol_max_message_length = 4194304"
  by (simp add: protocol_max_message_length_def)

lemma sendable_unat: "sendable p \<Longrightarrow> unat (of_nat (length p) :: u32) = length p"
  by (simp add: sendable_def unat_of_nat take_bit_nat_eq_self)

lemma sendable_size:
  assumes "sendable p"
  shows "(of_nat (length p) :: u32) \<noteq> 0"
    and "(of_nat (length p) :: u32) \<le> protocol_max_message_length"
  using sendable_unat [OF assms] assms by (auto simp: sendable_def word_le_nat_alt)

lemma frame_eq: "frame p = be32 (of_nat (length p)) @ p"
  by (simp add: frame_def pf_write_def)

lemma pf_settled_init [simp]: "pf_settled pf_init" "pf_pending pf_init = []"
  "\<not> pf_input_shutdown pf_init"
  by (simp_all add: pf_settled_def pf_pending_def pf_init_def)

text \<open>Reading the next length leaves the pending bytes as they were and settles the filter.\<close>

lemma pf_read_packet_size_settles:
  assumes inv: "sb_inv (pf_buffer f)" and size: "pf_size f = 0 \<or> pf_settled f"
    and wire: "prefix (pf_pending f) (concat (map frame ps))" and ps: "list_all sendable ps"
  shows "\<exists>f'. pf_read_packet_size f = Some (True, f', []) \<and> pf_settled f' \<and>
    pf_pending f' = pf_pending f \<and> pf_input_shutdown f' = pf_input_shutdown f"
proof (cases "pf_size f = 0 \<and> 4 \<le> sb_get_size (pf_buffer f)")
  case False
  then have "pf_read_packet_size f = Some (True, f, [])"
    unfolding pf_read_packet_size_def by auto
  moreover have "pf_settled f"
    using False inv size by (auto simp: pf_settled_def sbq.count_content)
  ultimately show ?thesis by blast
next
  case True
  let ?c = "sb_content (pf_buffer f)"
  from True inv have four: "4 \<le> sb_get_size (pf_buffer f)" "4 \<le> length ?c"
    by (simp_all add: sbq.count_content)
  from True wire have pre: "prefix ?c (concat (map frame ps))"
    by (simp add: pf_pending_def)
  with four obtain p qs where p: "ps = p # qs"
    by (cases ps) auto
  with ps have ok: "sendable p" by simp
  from pre p obtain z where "frame p @ concat (map frame qs) = ?c @ z"
    by (auto elim: prefixE)
  then have "take 4 (frame p @ concat (map frame qs)) = take 4 (?c @ z)" by simp
  then have take: "take 4 ?c = be32 (of_nat (length p))"
    using four(2) by (simp add: frame_eq)
  obtain a b c d where abcd: "be32 (of_nat (length p)) = [a, b, c, d]"
    and un: "un_be32 a b c d = of_nat (length p)"
    by (rule be32_cases)
  from sbq.peek_pop [OF inv four(1)] obtain q1 q2 where
    q: "sb_peek 4 (pf_buffer f) = Some ([a, b, c, d], q1)" "sb_pop 4 q1 = Some q2"
    "sb_inv q2" "sb_content q2 = drop 4 ?c"
    unfolding take abcd by metis
  let ?f = "f\<lparr>pf_buffer := q2, pf_size := of_nat (length p)\<rparr>"
  have "pf_read_packet_size f = Some (True, ?f, [])"
    using True q un sendable_size [OF ok]
    by (simp add: pf_read_packet_size_def Let_def linorder_not_less)
  moreover have "pf_settled ?f"
    using q sendable_size [OF ok] by (simp add: pf_settled_def)
  moreover have "pf_pending ?f = pf_pending f"
    using q True sendable_size [OF ok] by (simp add: pf_pending_def flip: take)
  ultimately show ?thesis by (intro exI [of _ ?f]) simp
qed

text \<open>
  However the transport cuts the wire into reads, the filter only collects its bytes: no
  packet is lost, reordered or reported as malformed.
\<close>

lemma pf_read_loop_collects:
  "\<lbrakk>pf_settled f; prefix (pf_pending f @ concat cs) (concat (map frame ps));
    list_all sendable ps; [] \<notin> set cs\<rbrakk> \<Longrightarrow>
    \<exists>f'. pf_read_loop cs f = Some (f', []) \<and> pf_settled f' \<and>
      pf_pending f' = pf_pending f @ concat cs \<and> pf_input_shutdown f' = pf_input_shutdown f"
proof (induction cs arbitrary: f)
  case Nil
  then show ?case by simp
next
  case (Cons c cs)
  let ?g = "f\<lparr>pf_buffer := sb_write c (pf_buffer f)\<rparr>"
  from Cons.prems have inv: "sb_inv (pf_buffer f)" by (simp add: pf_settled_def)
  then have g: "sb_inv (pf_buffer ?g)" "pf_pending ?g = pf_pending f @ c"
    by (simp_all add: sbq.put_inv sbq.put_content pf_pending_def)
  moreover have "pf_size ?g = 0 \<or> pf_settled ?g"
    using Cons.prems g(1) by (simp add: pf_settled_def)
  moreover have "prefix (pf_pending ?g) (concat (map frame ps))"
    using Cons.prems(2) unfolding g(2) by (simp add: append_prefixD flip: append_assoc)
  ultimately obtain f1 where f1: "pf_read_packet_size ?g = Some (True, f1, [])" "pf_settled f1"
    "pf_pending f1 = pf_pending f @ c" "pf_input_shutdown f1 = pf_input_shutdown f"
    using pf_read_packet_size_settles [of ?g ps] Cons.prems(3) by auto
  with Cons.IH [of f1] Cons.prems show ?case by auto
qed

text \<open>The first whole packet is what a settled filter hands out next.\<close>

lemma pf_ready_packet:
  assumes f: "pf_settled f" and pend: "pf_pending f = frame p @ rest" and p: "sendable p"
  shows "pf_is_ready f \<and> pf_size f = of_nat (length p) \<and> sb_content (pf_buffer f) = p @ rest"
proof -
  from f pend have nz: "pf_size f \<noteq> 0"
    using arg_cong [OF pend, of length] by (auto simp: pf_settled_def pf_pending_def frame_eq)
  with pend have "be32 (pf_size f) @ sb_content (pf_buffer f) =
      be32 (of_nat (length p)) @ (p @ rest)"
    by (simp add: pf_pending_def frame_eq)
  then have eq: "be32 (pf_size f) = be32 (of_nat (length p))"
    "sb_content (pf_buffer f) = p @ rest"
    by (simp_all add: append_eq_append_conv)
  moreover from eq(1) have "pf_size f = of_nat (length p)"
    by (simp add: be32_inject)
  ultimately show ?thesis
    using f nz sendable_unat [OF p] by (simp add: pf_is_ready_def pf_settled_def sbq.count_content)
qed

lemma pf_settled_size:
  assumes "pf_settled f" and "pf_pending f = concat (map frame ps)" and "list_all sendable ps"
  shows "pf_size f = 0 \<longleftrightarrow> ps = []"
proof (cases ps)
  case Nil
  with assms show ?thesis
    by (cases "pf_size f = 0") (auto simp: pf_pending_def dest!: arg_cong [where f = length])
next
  case (Cons p qs)
  with assms pf_ready_packet [of f p "concat (map frame qs)"] have "pf_is_ready f" by simp
  with Cons show ?thesis by (simp add: pf_is_ready_def)
qed

lemma pf_read_packet:
  assumes f: "pf_settled f" and pend: "pf_pending f = frame p @ rest" and p: "sendable p"
    and rest: "prefix rest (concat (map frame ps))" "list_all sendable ps"
    and n: "of_nat (length p) \<le> n"
  shows "\<exists>f'. pf_read n f =
      Some (p, f', if pf_input_shutdown f \<and> pf_size f' = 0 then [Input_Shutdown] else []) \<and>
    pf_settled f' \<and> pf_pending f' = rest \<and> pf_input_shutdown f' = pf_input_shutdown f"
proof -
  note r = pf_ready_packet [OF f pend p]
  from f have inv: "sb_inv (pf_buffer f)" by (simp add: pf_settled_def)
  with r have "length p \<le> sb_get_size (pf_buffer f)" by (simp add: sbq.count_content)
  from sbq.peek_pop [OF inv this] r obtain q1 q2 where
    q: "sb_peek (length p) (pf_buffer f) = Some (p, q1)" "sb_pop (length p) q1 = Some q2"
      "sb_inv q2" "sb_content q2 = rest"
    by auto
  let ?g = "f\<lparr>pf_buffer := q2, pf_size := 0\<rparr>"
  have pend': "pf_pending ?g = rest" using q by (simp add: pf_pending_def)
  obtain f' where "pf_read_packet_size ?g = Some (True, f', [])" "pf_settled f'"
    "pf_pending f' = rest" "pf_input_shutdown f' = pf_input_shutdown f"
    using pf_read_packet_size_settles [of ?g ps] q rest pend' by auto
  moreover have "n \<noteq> 0" "(if pf_size f < n then pf_size f else n) = of_nat (length p)"
    using n r sendable_size(1) [OF p] by auto
  ultimately show ?thesis
    using r q sendable_unat [OF p] by (simp add: pf_read_def)
qed

text \<open>
  A read of fewer bytes than the packet holds takes them from its front; the rest of the
  packet is then what the filter hands out next.
\<close>

lemma pf_read_partial:
  assumes f: "pf_settled f" and pend: "pf_pending f = frame p @ rest" and p: "sendable p"
    and n: "0 < n" "n < length p"
  shows "\<exists>f'. pf_read (of_nat n) f = Some (take n p, f', []) \<and> pf_settled f' \<and>
    pf_pending f' = frame (drop n p) @ rest"
proof -
  note r = pf_ready_packet [OF f pend p]
  from n p have len: "unat (of_nat n :: u32) = n"
    by (simp add: sendable_def unat_of_nat take_bit_nat_eq_self)
  from f have inv: "sb_inv (pf_buffer f)" by (simp add: pf_settled_def)
  with r n have "n \<le> sb_get_size (pf_buffer f)" by (simp add: sbq.count_content)
  from sbq.peek_pop [OF inv this] r n obtain q1 q2 where
    q: "sb_peek n (pf_buffer f) = Some (take n p, q1)" "sb_pop n q1 = Some q2"
      "sb_inv q2" "sb_content q2 = drop n p @ rest"
    by auto
  let ?k = "of_nat (length (drop n p)) :: u32"
  have d: "sendable (drop n p)" using p n by (auto simp: sendable_def)
  have lt: "(of_nat n :: u32) < of_nat (length p)"
    using n len sendable_unat [OF p] by (simp add: word_less_nat_alt)
  have minus: "of_nat (length p) - of_nat n = ?k" using n by simp
  let ?g = "f\<lparr>pf_buffer := q2, pf_size := ?k\<rparr>"
  have "pf_read_packet_size ?g = Some (True, ?g, [])"
    using sendable_size [OF d] by (simp add: pf_read_packet_size_def)
  moreover have "(of_nat n :: u32) \<noteq> 0" using len n by auto
  ultimately have "pf_read (of_nat n) f = Some (take n p, ?g, [])"
    using r q len lt less_not_sym [OF lt] minus sendable_size(1) [OF d]
    by (simp add: pf_read_def Let_def)
  moreover have "pf_settled ?g" "pf_pending ?g = frame (drop n p) @ rest"
    using q sendable_size [OF d] by (simp_all add: pf_settled_def pf_pending_def frame_eq)
  ultimately show ?thesis by blast
qed

lemma pf_ready_cases:
  assumes f: "pf_settled f" and pre: "prefix (pf_pending f) (concat (map frame ps))"
    and ps: "list_all sendable ps" and ready: "pf_is_ready f"
  obtains p qs rest where "ps = p # qs" and "pf_pending f = frame p @ rest"
    and "prefix rest (concat (map frame qs))"
proof -
  from ready have nz: "pf_size f \<noteq> 0" by (simp add: pf_is_ready_def)
  with pre obtain p qs where p: "ps = p # qs"
    by (cases ps) (auto simp: pf_pending_def)
  with ps have ok: "sendable p" by simp
  from pre nz p obtain z where "be32 (of_nat (length p)) @ p @ concat (map frame qs) =
      be32 (pf_size f) @ sb_content (pf_buffer f) @ z"
    by (auto simp: pf_pending_def frame_eq elim!: prefixE)
  then have size: "pf_size f = of_nat (length p)"
    and rest: "p @ concat (map frame qs) = sb_content (pf_buffer f) @ z"
    by (simp_all add: append_eq_append_conv be32_inject)
  from ready size sendable_unat [OF ok] f have "length p \<le> length (sb_content (pf_buffer f))"
    by (simp add: pf_is_ready_def pf_settled_def sbq.count_content)
  with rest obtain r where r: "p @ r = sb_content (pf_buffer f)" "concat (map frame qs) = r @ z"
    by (auto simp: append_eq_append_conv2)
  have "pf_pending f = frame p @ r"
    using nz by (simp add: pf_pending_def frame_eq r(1) flip: size)
  with that p r(2) show thesis by simp
qed

text \<open>Reading packet after packet, as the owner of the filter does.\<close>

fun pf_read_packets ::
    "nat \<Rightarrow> packet_filter \<Rightarrow> (bytes list \<times> packet_filter \<times> pf_event list) option" where
  "pf_read_packets 0 f = Some ([], f, [])"
| "pf_read_packets (Suc k) f =
     (case pf_read (pf_get_size f) f of
        None \<Rightarrow> None
      | Some (p, f', ev) \<Rightarrow>
          map_option (\<lambda>(ps, f'', ev'). (p # ps, f'', ev @ ev')) (pf_read_packets k f'))"

lemma pf_read_packets_all:
  "\<lbrakk>pf_settled f; pf_pending f = concat (map frame ps); list_all sendable ps\<rbrakk> \<Longrightarrow>
    \<exists>f'. pf_read_packets (length ps) f =
        Some (ps, f', if pf_input_shutdown f \<and> ps \<noteq> [] then [Input_Shutdown] else []) \<and>
      pf_settled f' \<and> pf_pending f' = []"
proof (induction ps arbitrary: f)
  case Nil
  then show ?case by simp
next
  case (Cons p ps)
  from Cons.prems have f: "pf_settled f" "pf_pending f = frame p @ concat (map frame ps)"
    "sendable p" "list_all sendable ps" by auto
  note r = pf_ready_packet [OF f(1-3)]
  then have "pf_get_size f = of_nat (length p)" by (simp add: pf_get_size_def)
  with pf_read_packet [OF f(1-3) prefix_order.refl f(4) order.refl] obtain f1 where
    f1: "pf_read (pf_get_size f) f =
        Some (p, f1, if pf_input_shutdown f \<and> pf_size f1 = 0 then [Input_Shutdown] else [])"
      "pf_settled f1" "pf_pending f1 = concat (map frame ps)"
      "pf_input_shutdown f1 = pf_input_shutdown f" by auto
  with Cons.IH [of f1] f(4) pf_settled_size [OF f1(2,3) f(4)] show ?case by auto
qed

lemma pf_read_loop_frames:
  assumes "list_all sendable ps" and "concat cs = concat (map frame ps)" and "[] \<notin> set cs"
  obtains f where "pf_read_loop cs pf_init = Some (f, [])" and "pf_settled f"
    and "pf_pending f = concat (map frame ps)" and "\<not> pf_input_shutdown f"
  using pf_read_loop_collects [of pf_init cs ps] assms that by auto

declare pf_read_loop.simps [simp del] and pf_read_packets.simps [simp del]

section \<open>Properties\<close>

text \<open>
  C8. Framing round trip. Any sequence of non-empty messages of at most 4 MiB, written by
  \<^verbatim>\<open>PacketStreamFilter::write\<close> and cut by the transport into any non-empty pieces, is
  collected by the receiving filter without an error event, and reading packet by packet
  then returns exactly the messages that were written, in order.
\<close>

theorem packet_roundtrip:
  assumes "list_all sendable ps" and "concat cs = concat (map frame ps)" and "[] \<notin> set cs"
  shows "\<exists>f f'. pf_read_loop cs pf_init = Some (f, []) \<and>
    pf_read_packets (length ps) f = Some (ps, f', [])"
proof -
  obtain f where f: "pf_read_loop cs pf_init = Some (f, [])" "pf_settled f"
    "pf_pending f = concat (map frame ps)" "\<not> pf_input_shutdown f"
    using assms by (rule pf_read_loop_frames)
  from pf_read_packets_all [OF f(2,3) assms(1)] f(4)
  have "\<exists>f'. pf_read_packets (length ps) f = Some (ps, f', [])" by auto
  with f(1) show ?thesis by blast
qed

lemma packet_roundtrip_witness:
  "\<exists>f f'. pf_read_loop [[0, 0], [0, 2, 7, 8, 0], [0, 0, 1, 9]] pf_init = Some (f, []) \<and>
    pf_read_packets (length [[7, 8], [9 :: byte]]) f = Some ([[7, 8], [9]], f', [])"
  using packet_roundtrip [of "[[7, 8], [9]]" "[[0, 0], [0, 2, 7, 8, 0], [0, 0, 1, 9]]"]
  by (simp add: sendable_def frame_def pf_write_def be32_def)

text \<open>
  Orderly shutdown. When the peer closes the stream while complete packets are still
  buffered, the shutdown is held back; the owner then reads every one of the packets, and
  sees exactly one shutdown event, raised by the read that takes the last packet.
\<close>

theorem shutdown_after_last_packet:
  assumes "list_all sendable ps" and "ps \<noteq> []" and "concat cs = concat (map frame ps)"
    and "[] \<notin> set cs"
  shows "\<exists>f f' f''. pf_read_loop cs pf_init = Some (f, []) \<and>
    pf_filter_event Input_Shutdown [] f = Some (f', []) \<and>
    pf_read_packets (length ps) f' = Some (ps, f'', [Input_Shutdown])"
proof -
  from assms obtain f where f: "pf_read_loop cs pf_init = Some (f, [])" "pf_settled f"
    "pf_pending f = concat (map frame ps)"
    using pf_read_loop_frames [OF assms(1,3,4)] by metis
  from assms(1,2) obtain p qs where ps: "ps = p # qs" "sendable p" by (cases ps) auto
  let ?f = "f\<lparr>pf_input_shutdown := True\<rparr>"
  from f have f': "pf_settled ?f" "pf_pending ?f = concat (map frame ps)"
    by (simp_all add: pf_settled_def pf_pending_def del: append_Nil split: if_split_asm)
  with ps pf_ready_packet [of ?f p "concat (map frame qs)"] have "pf_is_ready ?f" by simp
  then have "pf_filter_event Input_Shutdown [] f = Some (?f, [])"
    by (simp add: pf_filter_event_def pf_is_ready_def Let_def)
  with f(1) pf_read_packets_all [OF f' assms(1)] assms(2) show ?thesis by auto
qed

lemma shutdown_after_last_packet_witness:
  "\<exists>f f' f''. pf_read_loop [[0, 0, 0, 1, 5]] pf_init = Some (f, []) \<and>
    pf_filter_event Input_Shutdown [] f = Some (f', []) \<and>
    pf_read_packets 1 f' = Some ([[5]], f'', [Input_Shutdown])"
  using shutdown_after_last_packet [of "[[5]]" "[[0, 0, 0, 1, 5]]"]
  by (simp add: sendable_def frame_def pf_write_def be32_def)

text \<open>
  Oversized packets. A length field above 4 MiB is reported as a format error as soon
  as its four bytes are there, and the rest of the input is left unread.
\<close>

theorem oversized_packet_rejected:
  assumes "protocol_max_message_length < n"
  shows "\<exists>f. pf_read_loop ((be32 n @ payload) # rest) pf_init = Some (f, [Input_Format_Error])"
proof -
  let ?q = "sb_write (be32 n @ payload) sb_empty"
  have inv: "sb_inv ?q" "sb_content ?q = be32 n @ payload"
    by (simp_all add: sbq.put_inv sbq.put_content)
  then have four: "4 \<le> sb_get_size ?q" by (simp add: sbq.count_content)
  obtain a b c d where n: "be32 n = [a, b, c, d]" "un_be32 a b c d = n" by (rule be32_cases)
  from sbq.peek_pop [OF inv(1) four] obtain q1 q2 where
    "sb_peek 4 ?q = Some (take 4 (sb_content ?q), q1)" "sb_pop 4 q1 = Some q2" by metis
  with assms four n inv(2) show ?thesis
    by (simp add: pf_read_loop.simps pf_read_packet_size_def pf_init_def be32_def Let_def)
qed

lemma oversized_packet_rejected_witness:
  "\<exists>f. pf_read_loop [[255, 0, 0, 0]] pf_init = Some (f, [Input_Format_Error])"
  using oversized_packet_rejected [of "0xff000000" "[]" "[]"]
  by (simp add: protocol_max_message_length_def be32_def)

text \<open>
  An empty packet is lost together with the wake-up for its successor: the filter takes its
  length for \<^emph>\<open>no length yet\<close> and does not look at the next length until more bytes arrive.
\<close>

lemma empty_frame_stalls:
  assumes "sendable p"
  shows "\<exists>f. pf_read_more [frame [] @ frame p] pf_init = Some (False, f, []) \<and>
    sb_content (pf_buffer f) = frame p"
proof -
  let ?q = "sb_write (frame [] @ frame p) sb_empty"
  have inv: "sb_inv ?q" "sb_content ?q = [0, 0, 0, 0] @ frame p"
    by (simp_all add: sbq.put_inv sbq.put_content frame_eq be32_def)
  then have four: "4 \<le> sb_get_size ?q" by (simp add: sbq.count_content)
  from sbq.peek_pop [OF inv(1) four] obtain q1 q2 where
    q: "sb_peek 4 ?q = Some (take 4 (sb_content ?q), q1)" "sb_pop 4 q1 = Some q2"
    "sb_content q2 = drop 4 (sb_content ?q)"
    by metis
  with four inv(2) show ?thesis
    by (simp add: pf_read_more_def pf_read_loop.simps pf_read_packet_size_def pf_init_def frame_eq be32_def Let_def
        pf_is_ready_def un_be32_def protocol_max_message_length_def)
qed

end
