(* ===== verification/Byte_Source.thy ===== *)
theory Byte_Source
  imports Prelude "HOL-Library.Sublist"
begin

text \<open>
  The reading side of \<^verbatim>\<open>io/IStream.h\<close>: the interface the protocol readers rely on, the
  exceptions they throw, and the readers that take a fixed number of bytes
  (\<^verbatim>\<open>ProtocolUtil::read\<close> and the integer readers of \<^verbatim>\<open>deskflow/ProtocolUtil.cpp\<close>).
  A reader is a function of the stream that returns its result or its exception, and the
  stream it leaves behind; the operation \<^verbatim>\<open>IStream::read\<close> is its argument \<open>rd\<close>.
\<close>

section \<open>Readers\<close>

datatype read_error = End_Of_Stream | Read_Mismatch | Bad_Client | Assert_Failed

type_synonym ('s, 'a) reader = "'s \<Rightarrow> (read_error + 'a) \<times> 's"

definition rret :: "'a \<Rightarrow> ('s, 'a) reader" where
  "rret a s = (Inr a, s)"

definition rfail :: "read_error \<Rightarrow> ('s, 'a) reader" where
  "rfail e s = (Inl e, s)"

definition rbind :: "('s, 'a) reader \<Rightarrow> ('a \<Rightarrow> ('s, 'b) reader) \<Rightarrow> ('s, 'b) reader" where
  "rbind m f s = (case m s of (Inl e, s') \<Rightarrow> (Inl e, s') | (Inr a, s') \<Rightarrow> f a s')"

lemma rbind_rret [simp]: "rbind (rret a) f = f a"
  by (simp add: rbind_def rret_def fun_eq_iff)

text \<open>
  \<^verbatim>\<open>ProtocolUtil::read\<close>: ask the stream for the missing bytes until all are there; a read
  of no bytes means that the stream has hung up.
\<close>

function pu_read :: "(nat \<Rightarrow> 's \<Rightarrow> bytes \<times> 's) \<Rightarrow> nat \<Rightarrow> ('s, bytes) reader" where
  "pu_read rd count s =
     (if count = 0 then (Inr [], s)
      else case rd count s of (out, s') \<Rightarrow>
        if out = [] then (Inl End_Of_Stream, s')
        else (case pu_read rd (count - length out) s' of
                (Inl e, s'') \<Rightarrow> (Inl e, s'')
              | (Inr more, s'') \<Rightarrow> (Inr (out @ more), s'')))"
  by pat_completeness auto
termination
  by (relation "measure (\<lambda>(rd, count, s). count)") auto

declare pu_read.simps [simp del]

definition read1ByteInt :: "(nat \<Rightarrow> 's \<Rightarrow> bytes \<times> 's) \<Rightarrow> ('s, byte) reader" where
  "read1ByteInt rd = rbind (pu_read rd 1) (\<lambda>b. rret (b ! 0))"

definition read2BytesInt :: "(nat \<Rightarrow> 's \<Rightarrow> bytes \<times> 's) \<Rightarrow> ('s, u16) reader" where
  "read2BytesInt rd = rbind (pu_read rd 2) (\<lambda>b. rret (un_be16 (b ! 0) (b ! 1)))"

definition read4BytesInt :: "(nat \<Rightarrow> 's \<Rightarrow> bytes \<times> 's) \<Rightarrow> ('s, u32) reader" where
  "read4BytesInt rd =
     rbind (pu_read rd 4) (\<lambda>b. rret (un_be32 (b ! 0) (b ! 1) (b ! 2) (b ! 3)))"

section \<open>What a reader consumes\<close>

text \<open>
  \<open>parses ok avail m w v\<close>: on a stream whose available bytes start with \<open>w\<close> the reader
  returns \<open>v\<close> and takes exactly \<open>w\<close>; on a stream that ends inside \<open>w\<close> it throws the
  end-of-stream exception.
\<close>

definition parses ::
    "('s \<Rightarrow> bool) \<Rightarrow> ('s \<Rightarrow> bytes) \<Rightarrow> ('s, 'a) reader \<Rightarrow> bytes \<Rightarrow> 'a \<Rightarrow> bool" where
  "parses ok avail m w v \<longleftrightarrow>
     (\<forall>s rest. ok s \<longrightarrow> avail s = w @ rest \<longrightarrow>
        (\<exists>s'. m s = (Inr v, s') \<and> ok s' \<and> avail s' = rest)) \<and>
     (\<forall>s. ok s \<longrightarrow> strict_prefix (avail s) w \<longrightarrow> (\<exists>s'. m s = (Inl End_Of_Stream, s')))"

lemma parsesI:
  assumes "\<And>s rest. \<lbrakk>ok s; avail s = w @ rest\<rbrakk> \<Longrightarrow>
      \<exists>s'. m s = (Inr v, s') \<and> ok s' \<and> avail s' = rest"
    and "\<And>s. \<lbrakk>ok s; strict_prefix (avail s) w\<rbrakk> \<Longrightarrow> \<exists>s'. m s = (Inl End_Of_Stream, s')"
  shows "parses ok avail m w v"
  using assms by (simp add: parses_def)

lemma parses_whole:
  assumes "parses ok avail m w v" and "ok s" and "avail s = w @ rest"
  obtains s' where "m s = (Inr v, s')" and "ok s'" and "avail s' = rest"
  using assms by (auto simp: parses_def)

lemma parses_cut:
  assumes "parses ok avail m w v" and "ok s" and "strict_prefix (avail s) w"
  shows "\<exists>s'. m s = (Inl End_Of_Stream, s')"
  using assms by (auto simp: parses_def)

lemma parses_rret [intro]: "parses ok avail (rret v) [] v"
  by (rule parsesI) (auto simp: rret_def)

lemma parses_rbind:
  assumes m: "parses ok avail m w a" and f: "parses ok avail (f a) w' v"
  shows "parses ok avail (rbind m f) (w @ w') v"
proof (rule parsesI)
  fix s rest
  assume s: "ok s" "avail s = (w @ w') @ rest"
  then have "avail s = w @ (w' @ rest)" by simp
  with m s(1) obtain s1 where s1: "m s = (Inr a, s1)" "ok s1" "avail s1 = w' @ rest"
    by (elim parses_whole) auto
  from f s1(2,3) obtain s2 where "f a s1 = (Inr v, s2)" "ok s2" "avail s2 = rest"
    by (elim parses_whole) auto
  with s1 show "\<exists>s'. rbind m f s = (Inr v, s') \<and> ok s' \<and> avail s' = rest"
    by (simp add: rbind_def)
next
  fix s
  assume s: "ok s" "strict_prefix (avail s) (w @ w')"
  show "\<exists>s'. rbind m f s = (Inl End_Of_Stream, s')"
  proof (cases "strict_prefix (avail s) w")
    case True
    from parses_cut [OF m s(1) this] show ?thesis by (auto simp: rbind_def)
  next
    case False
    with s(2) have "\<exists>u. avail s = w @ u \<and> prefix u w'"
      by (auto simp: strict_prefix_def prefix_append)
    with s(2) obtain u where u: "avail s = w @ u" "strict_prefix u w'"
      by (auto simp: strict_prefix_def)
    from m s(1) u(1) obtain s1 where "m s = (Inr a, s1)" "ok s1" "avail s1 = u"
      by (elim parses_whole) auto
    with parses_cut [OF f] u(2) show ?thesis by (auto simp: rbind_def)
  qed
qed

lemma parses_rbind_ret:
  assumes "parses ok avail m w a"
  shows "parses ok avail (rbind m (\<lambda>x. rret (f x))) w (f a)"
  using parses_rbind [OF assms parses_rret, of "\<lambda>x. rret (f x)"]
  by (metis append_Nil2 parses_rbind parses_rret assms)

section \<open>The stream interface\<close>

locale byte_source =
  fixes rd :: "nat \<Rightarrow> 's \<Rightarrow> bytes \<times> 's"
    and ok :: "'s \<Rightarrow> bool"
    and avail :: "'s \<Rightarrow> bytes"
  assumes rd_inv: "ok s \<Longrightarrow> ok (snd (rd n s))"
    and rd_avail: "ok s \<Longrightarrow> avail s = fst (rd n s) @ avail (snd (rd n s))"
    and rd_length: "ok s \<Longrightarrow> length (fst (rd n s)) \<le> n"
    and rd_progress: "\<lbrakk>ok s; avail s \<noteq> []; 0 < n; n < 2 ^ 32\<rbrakk> \<Longrightarrow> fst (rd n s) \<noteq> []"
begin

text \<open>However few bytes each call returns, \<^const>\<open>pu_read\<close> takes exactly the bytes it wants.\<close>

lemma pu_read_enough:
  "\<lbrakk>ok s; avail s = w @ rest; length w = count; count < 2 ^ 32\<rbrakk> \<Longrightarrow>
    \<exists>s'. pu_read rd count s = (Inr w, s') \<and> ok s' \<and> avail s' = rest"
proof (induction count arbitrary: s w rule: less_induct)
  case (less count)
  show ?case
  proof (cases "count = 0")
    case True
    with less.prems show ?thesis by (simp add: pu_read.simps)
  next
    case False
    obtain out s1 where rd: "rd count s = (out, s1)" by fastforce
    from False less.prems rd have out: "out \<noteq> []" "ok s1" "length out \<le> count"
      "avail s = out @ avail s1"
      using rd_progress [of s count] rd_inv [of s count] rd_length [of s count]
        rd_avail [of s count] by auto
    with less.prems have "out @ avail s1 = w @ rest" "length out \<le> length w" by auto
    then obtain u where u: "w = out @ u" "avail s1 = u @ rest"
      by (auto simp: append_eq_append_conv2)
    have "\<exists>s'. pu_read rd (count - length out) s1 = (Inr u, s') \<and> ok s' \<and> avail s' = rest"
      using less.IH [of "count - length out" s1 u] out u less.prems by auto
    with False rd out(1) u(1) show ?thesis
      by (subst pu_read.simps) auto
  qed
qed

lemma pu_read_short:
  "\<lbrakk>ok s; length (avail s) < count; count < 2 ^ 32\<rbrakk> \<Longrightarrow>
    \<exists>s'. pu_read rd count s = (Inl End_Of_Stream, s')"
proof (induction count arbitrary: s rule: less_induct)
  case (less count)
  obtain out s1 where rd: "rd count s = (out, s1)" by fastforce
  with less.prems have out: "ok s1" "length out \<le> count" "avail s = out @ avail s1"
    using rd_inv [of s count] rd_length [of s count] rd_avail [of s count] by auto
  show ?case
  proof (cases "out = []")
    case True
    with rd less.prems show ?thesis by (subst pu_read.simps) auto
  next
    case False
    have "\<exists>s'. pu_read rd (count - length out) s1 = (Inl End_Of_Stream, s')"
      using less.IH [of "count - length out" s1] False out less.prems by auto
    with False rd less.prems show ?thesis
      by (subst pu_read.simps) auto
  qed
qed

lemma parses_read:
  assumes "length w = n" and "n < 2 ^ 32"
  shows "parses ok avail (pu_read rd n) w w"
proof (rule parsesI)
  show "\<exists>s'. pu_read rd n s = (Inr w, s') \<and> ok s' \<and> avail s' = rest"
    if "ok s" "avail s = w @ rest" for s rest
    using that assms by (rule pu_read_enough)
next
  fix s assume s: "ok s" "strict_prefix (avail s) w"
  then have "length (avail s) < n" using assms(1) prefix_length_less by blast
  with s(1) assms(2) show "\<exists>s'. pu_read rd n s = (Inl End_Of_Stream, s')"
    by (intro pu_read_short)
qed

lemma parses_read1 [wire]: "parses ok avail (read1ByteInt rd) [v] v"
  using parses_rbind_ret [OF parses_read [of "[v]" 1], of "\<lambda>b. b ! 0"]
  by (simp add: read1ByteInt_def)

lemma parses_read2 [wire]: "parses ok avail (read2BytesInt rd) (be16 v) v"
proof -
  obtain a b where v: "be16 v = [a, b]" "un_be16 a b = v" by (rule be16_cases)
  show ?thesis
    using parses_rbind_ret [OF parses_read [of "be16 v" 2], of "\<lambda>b. un_be16 (b ! 0) (b ! 1)"] v
    by (simp add: read2BytesInt_def)
qed

lemma parses_read4 [wire]: "parses ok avail (read4BytesInt rd) (be32 v) v"
proof -
  obtain a b c d where v: "be32 v = [a, b, c, d]" "un_be32 a b c d = v" by (rule be32_cases)
  show ?thesis
    using parses_rbind_ret [OF parses_read [of "be32 v" 4],
        of "\<lambda>b. un_be32 (b ! 0) (b ! 1) (b ! 2) (b ! 3)"] v
    by (simp add: read4BytesInt_def)
qed

end

text \<open>A stream that holds its bytes in memory, such as a received packet.\<close>

definition list_rd :: "nat \<Rightarrow> bytes \<Rightarrow> bytes \<times> bytes" where
  "list_rd n bs = (take n bs, drop n bs)"

interpretation lst: byte_source list_rd "\<lambda>_. True" "\<lambda>bs. bs"
  by unfold_locales (simp_all add: list_rd_def)

end
