(* ===== verification/Protocol_Util.thy ===== *)
theory Protocol_Util
  imports Byte_Source
begin

text \<open>
  The message codec \<^verbatim>\<open>deskflow/ProtocolUtil.cpp\<close>: \<^verbatim>\<open>writef\<close> and \<^verbatim>\<open>readf\<close> interpret a
  format string in which \<^verbatim>\<open>%1i\<close>, \<^verbatim>\<open>%2i\<close>, \<^verbatim>\<open>%4i\<close> are big-endian integers, \<^verbatim>\<open>%1I\<close>, \<^verbatim>\<open>%2I\<close>,
  \<^verbatim>\<open>%4I\<close> counted lists of them, \<^verbatim>\<open>%s\<close> a counted byte string, \<^verbatim>\<open>%S\<close> a length and a
  buffer, and every other character stands for itself. The variable argument list is a
  list of \<open>arg\<close>s; \<^const>\<open>None\<close> (or \<^const>\<open>Assert_Failed\<close>) is a failed assertion of the
  source: a malformed format, or an argument of the wrong kind. The pointers in the
  argument list are not null. Memory exhaustion is not modelled.
\<close>

section \<open>Format strings\<close>

datatype fmt_item = Lit byte | Spec u32 char

definition digit_of :: "char \<Rightarrow> u32 option" where
  "digit_of c =
     (let k = of_char c :: nat in if 48 \<le> k \<and> k \<le> 57 then Some (of_nat (k - 48)) else None)"

fun eatLength :: "u32 \<Rightarrow> string \<Rightarrow> u32 \<times> string" where
  "eatLength n [] = (n, [])"
| "eatLength n (c # cs) =
     (case digit_of c of None \<Rightarrow> (n, c # cs) | Some d \<Rightarrow> eatLength (10 * n + d) cs)"

lemma eatLength_shorter: "eatLength n cs = (m, r) \<Longrightarrow> length r \<le> length cs"
  by (induction n cs rule: eatLength.induct) (fastforce split: option.splits)+

function fmt_items :: "string \<Rightarrow> fmt_item list option" where
  "fmt_items [] = Some []"
| "fmt_items (c # cs) =
     (if c \<noteq> CHR ''%'' then map_option ((#) (Lit (of_char c))) (fmt_items cs)
      else case eatLength 0 cs of (len, r) \<Rightarrow>
        (case r of [] \<Rightarrow> None | k # r' \<Rightarrow> map_option ((#) (Spec len k)) (fmt_items r')))"
  by pat_completeness auto
termination
  by (relation "measure length") (auto dest!: eatLength_shorter [OF sym])

section \<open>Writing\<close>

datatype arg =
  Int_Arg u32 | Vec1_Arg "byte list" | Vec2_Arg "u16 list" | Vec4_Arg "u32 list"
| Str_Arg bytes | Buf_Arg bytes

definition writeInt :: "u32 \<Rightarrow> u32 \<Rightarrow> bytes option" where
  "writeInt v len =
     (if len = 1 then Some [ucast (v AND 0xff)]
      else if len = 4 then Some (be32 v)
      else if len = 2 then Some [ucast (drop_bit 8 v AND 0xff), ucast (v AND 0xff)]
      else None)"

fun writeVectorInt :: "('a \<Rightarrow> u32) \<Rightarrow> u32 \<Rightarrow> 'a list \<Rightarrow> bytes option" where
  "writeVectorInt val width xs =
     (case those (map (\<lambda>x. writeInt (val x) width) xs) of
        None \<Rightarrow> None
      | Some bs \<Rightarrow> map_option (\<lambda>h. h @ concat bs) (writeInt (of_nat (length xs)) 4))"

definition writeString :: "bytes \<Rightarrow> bytes option" where
  "writeString str =
     (let len = of_nat (length str) :: u32
      in map_option (\<lambda>h. h @ (if len \<noteq> 0 then str else [])) (writeInt len 4))"

fun getLength :: "fmt_item list \<Rightarrow> arg list \<Rightarrow> u32 option" where
  "getLength [] as = Some 0"
| "getLength (Lit c # fs) as = map_option (\<lambda>n. n + 1) (getLength fs as)"
| "getLength (Spec len k # fs) as =
     (if k = CHR ''i'' then
        (case as of Int_Arg v # as' \<Rightarrow>
             if len = 1 \<or> len = 2 \<or> len = 4 then map_option (\<lambda>n. n + len) (getLength fs as')
             else None
         | _ \<Rightarrow> None)
      else if k = CHR ''I'' then
        (case as of
           Vec1_Arg xs # as' \<Rightarrow>
             if len = 1 then map_option (\<lambda>n. n + (of_nat (length xs) + 4)) (getLength fs as')
             else None
         | Vec2_Arg xs # as' \<Rightarrow>
             if len = 2 then map_option (\<lambda>n. n + (2 * of_nat (length xs) + 4)) (getLength fs as')
             else None
         | Vec4_Arg xs # as' \<Rightarrow>
             if len = 4 then map_option (\<lambda>n. n + (4 * of_nat (length xs) + 4)) (getLength fs as')
             else None
         | _ \<Rightarrow> None)
      else if k = CHR ''s'' then
        (case as of Str_Arg str # as' \<Rightarrow>
             if len = 0 then map_option (\<lambda>n. n + (of_nat (length str) + 4)) (getLength fs as')
             else None
         | _ \<Rightarrow> None)
      else if k = CHR ''S'' then
        (case as of Buf_Arg buf # as' \<Rightarrow>
             if len = 0 then map_option (\<lambda>n. n + (of_nat (length buf) + 4)) (getLength fs as')
             else None
         | _ \<Rightarrow> None)
      else if k = CHR ''%'' then
        (if len = 0 then map_option (\<lambda>n. n + 1) (getLength fs as) else None)
      else None)"

definition prepend :: "bytes option \<Rightarrow> bytes option \<Rightarrow> bytes option" where
  "prepend x y = (case x of None \<Rightarrow> None | Some a \<Rightarrow> map_option ((@) a) y)"

fun writef_items :: "fmt_item list \<Rightarrow> arg list \<Rightarrow> bytes option" where
  "writef_items [] as = Some []"
| "writef_items (Lit c # fs) as = prepend (Some [c]) (writef_items fs as)"
| "writef_items (Spec len k # fs) as =
     (if k = CHR ''i'' then
        (case as of Int_Arg v # as' \<Rightarrow> prepend (writeInt v len) (writef_items fs as') | _ \<Rightarrow> None)
      else if k = CHR ''I'' then
        (case as of
           Vec1_Arg xs # as' \<Rightarrow>
             if len = 1 then prepend (writeVectorInt ucast 1 xs) (writef_items fs as') else None
         | Vec2_Arg xs # as' \<Rightarrow>
             if len = 2 then prepend (writeVectorInt ucast 2 xs) (writef_items fs as') else None
         | Vec4_Arg xs # as' \<Rightarrow>
             if len = 4 then prepend (writeVectorInt id 4 xs) (writef_items fs as') else None
         | _ \<Rightarrow> None)
      else if k = CHR ''s'' then
        (case as of Str_Arg str # as' \<Rightarrow>
             if len = 0 then prepend (writeString str) (writef_items fs as') else None
         | _ \<Rightarrow> None)
      else if k = CHR ''S'' then
        (case as of Buf_Arg buf # as' \<Rightarrow>
             if len = 0 then
               prepend (writeInt (of_nat (length buf)) 4) (prepend (Some buf) (writef_items fs as'))
             else None
         | _ \<Rightarrow> None)
      else if k = CHR ''%'' then
        (if len = 0 then prepend (Some [of_char CHR ''%'']) (writef_items fs as) else None)
      else None)"

text \<open>
  \<^verbatim>\<open>vwritef\<close> hands \<^verbatim>\<open>size\<close> bytes of the buffer to the stream; \<^const>\<open>None\<close> where that would
  read past the end of the buffer.
\<close>

definition vwritef :: "fmt_item list \<Rightarrow> u32 \<Rightarrow> arg list \<Rightarrow> bytes option" where
  "vwritef fmt n as =
     (if n = 0 then Some []
      else case writef_items fmt as of
        None \<Rightarrow> None
      | Some buf \<Rightarrow> if unat n \<le> length buf then Some (take (unat n) buf) else None)"

definition writef :: "string \<Rightarrow> arg list \<Rightarrow> bytes option" where
  "writef fmt as =
     (case fmt_items fmt of
        None \<Rightarrow> None
      | Some fs \<Rightarrow> (case getLength fs as of None \<Rightarrow> None | Some n \<Rightarrow> vwritef fs n as))"

section \<open>Reading\<close>

datatype val = Val1 byte | Val2 u16 | Val4 u32
  | Vec1 "byte list" | Vec2 "u16 list" | Vec4 "u32 list" | Str bytes

definition protocol_max_list_length :: u32 where
  "protocol_max_list_length = 1024 * 1024"

definition protocol_max_string_length :: u32 where
  "protocol_max_string_length = 1024 * 1024"

definition readVectorSize :: "(nat \<Rightarrow> 's \<Rightarrow> bytes \<times> 's) \<Rightarrow> ('s, u32) reader" where
  "readVectorSize rd =
     rbind (read4BytesInt rd)
       (\<lambda>size. if protocol_max_list_length < size then rfail Bad_Client else rret size)"

fun read_times :: "nat \<Rightarrow> ('s, 'a) reader \<Rightarrow> ('s, 'a list) reader" where
  "read_times 0 m = rret []"
| "read_times (Suc n) m = rbind m (\<lambda>x. rbind (read_times n m) (\<lambda>xs. rret (x # xs)))"

definition readVector1ByteInt :: "(nat \<Rightarrow> 's \<Rightarrow> bytes \<times> 's) \<Rightarrow> ('s, byte list) reader" where
  "readVector1ByteInt rd = rbind (readVectorSize rd) (\<lambda>n. read_times (unat n) (read1ByteInt rd))"

definition readVector2BytesInt :: "(nat \<Rightarrow> 's \<Rightarrow> bytes \<times> 's) \<Rightarrow> ('s, u16 list) reader" where
  "readVector2BytesInt rd = rbind (readVectorSize rd) (\<lambda>n. read_times (unat n) (read2BytesInt rd))"

definition readVector4BytesInt :: "(nat \<Rightarrow> 's \<Rightarrow> bytes \<times> 's) \<Rightarrow> ('s, u32 list) reader" where
  "readVector4BytesInt rd = rbind (readVectorSize rd) (\<lambda>n. read_times (unat n) (read4BytesInt rd))"

definition readBytes :: "(nat \<Rightarrow> 's \<Rightarrow> bytes \<times> 's) \<Rightarrow> u32 \<Rightarrow> ('s, bytes) reader" where
  "readBytes rd len =
     rbind (if len = 0 then read4BytesInt rd else rret len) (\<lambda>n. pu_read rd (unat n))"

fun vreadf :: "(nat \<Rightarrow> 's \<Rightarrow> bytes \<times> 's) \<Rightarrow> fmt_item list \<Rightarrow> ('s, val list) reader" where
  "vreadf rd [] = rret []"
| "vreadf rd (Lit c # fs) =
     rbind (pu_read rd 1) (\<lambda>b. if b ! 0 \<noteq> c then rfail Read_Mismatch else vreadf rd fs)"
| "vreadf rd (Spec len k # fs) =
     (let continue = (\<lambda>v. rbind (vreadf rd fs) (\<lambda>vs. rret (v # vs)))
      in if k = CHR ''i'' then
           (if len = 1 then rbind (read1ByteInt rd) (\<lambda>v. continue (Val1 v))
            else if len = 2 then rbind (read2BytesInt rd) (\<lambda>v. continue (Val2 v))
            else if len = 4 then rbind (read4BytesInt rd) (\<lambda>v. continue (Val4 v))
            else rfail Assert_Failed)
         else if k = CHR ''I'' then
           (if len = 1 then rbind (readVector1ByteInt rd) (\<lambda>v. continue (Vec1 v))
            else if len = 2 then rbind (readVector2BytesInt rd) (\<lambda>v. continue (Vec2 v))
            else if len = 4 then rbind (readVector4BytesInt rd) (\<lambda>v. continue (Vec4 v))
            else rfail Assert_Failed)
         else if k = CHR ''s'' then
           (if protocol_max_string_length < len then rfail Bad_Client
            else rbind (readBytes rd len) (\<lambda>v. continue (Str v)))
         else if k = CHR ''%'' then
           (if len = 0 then vreadf rd fs else rfail Assert_Failed)
         else rfail Assert_Failed)"

text \<open>
  \<^verbatim>\<open>readf\<close> turns the I/O exceptions into the result false (here \<^const>\<open>None\<close>); the
  exception for a bad client passes through it (\<^const>\<open>Inl\<close>).
\<close>

definition readf ::
    "(nat \<Rightarrow> 's \<Rightarrow> bytes \<times> 's) \<Rightarrow> string \<Rightarrow> 's \<Rightarrow> (read_error + val list option) \<times> 's" where
  "readf rd fmt s =
     (case fmt_items fmt of
        None \<Rightarrow> (Inl Assert_Failed, s)
      | Some fs \<Rightarrow>
          (case vreadf rd fs s of
             (Inr vs, s') \<Rightarrow> (Inr (Some vs), s')
           | (Inl e, s') \<Rightarrow>
               if e = End_Of_Stream \<or> e = Read_Mismatch then (Inr None, s') else (Inl e, s')))"

section \<open>The computed length is the length written\<close>

lemma prepend_Some [simp]: "prepend (Some a) y = map_option ((@) a) y"
  by (simp add: prepend_def)

lemma writeInt_simps [simp]:
  "writeInt v 1 = Some [ucast (v AND 0xff)]"
  "writeInt v 2 = Some [ucast (drop_bit 8 v AND 0xff), ucast (v AND 0xff)]"
  "writeInt v 4 = Some (be32 v)"
  by (simp_all add: writeInt_def)

lemma those_map_Some: "those (map (\<lambda>x. Some (f x)) xs) = Some (map f xs)"
  by (induction xs) auto

lemma length_concat_const: "(\<And>x. length (f x) = k) \<Longrightarrow> length (concat (map f xs)) = k * length xs"
  by (induction xs) auto

lemma writeVectorInt_Some:
  "writeVectorInt f 1 xs =
     Some (be32 (of_nat (length xs)) @ concat (map (\<lambda>x. [ucast (f x AND 0xff)]) xs))"
  "writeVectorInt f 2 xs = Some (be32 (of_nat (length xs)) @
     concat (map (\<lambda>x. [ucast (drop_bit 8 (f x) AND 0xff), ucast (f x AND 0xff)]) xs))"
  "writeVectorInt f 4 xs = Some (be32 (of_nat (length xs)) @ concat (map (\<lambda>x. be32 (f x)) xs))"
  by (simp_all add: those_map_Some)

declare writeVectorInt.simps [simp del]

lemma writeString_Some:
  "\<exists>b. writeString str = Some (be32 (of_nat (length str)) @ b) \<and>
     (of_nat (length b) :: u32) = of_nat (length str) \<and> (length str < 2 ^ 32 \<longrightarrow> b = str)"
proof (cases "(of_nat (length str) :: u32) = 0")
  case True
  moreover from True have "length str < 2 ^ 32 \<Longrightarrow> str = []"
    by (simp add: word_of_nat_eq_0_iff) (metis dvd_imp_le length_greater_0_conv not_le)
  ultimately show ?thesis by (auto simp: writeString_def)
next
  case False
  then show ?thesis by (simp add: writeString_def)
qed

lemma getLength_writef_items:
  "getLength fs as = Some n \<Longrightarrow>
    \<exists>buf. writef_items fs as = Some buf \<and> n = of_nat (length buf)"
proof (induction fs as arbitrary: n rule: getLength.induct)
  case (1 as)
  then show ?case by simp
next
  case (2 c fs as)
  then show ?case by fastforce
next
  case (3 len k fs as)
  note [simp] = writeVectorInt_Some length_concat_const
  consider "k = CHR ''i''" | "k = CHR ''I''" | "k = CHR ''s''" | "k = CHR ''S''" | "k = CHR ''%''"
    using "3.prems" by (auto split: if_splits)
  then show ?case
  proof cases
    case 1
    with 3 show ?thesis by (fastforce split: list.splits arg.splits if_splits)
  next
    case 2
    with 3 show ?thesis by (fastforce split: list.splits arg.splits if_splits)
  next
    case kind: 3
    from kind "3.prems" obtain str as' m where as: "as = Str_Arg str # as'" "len = 0"
      "getLength fs as' = Some m" "n = m + (of_nat (length str) + 4)"
      by (auto split: list.splits arg.splits if_splits)
    with 3 kind obtain buf where "writef_items fs as' = Some buf" "m = of_nat (length buf)"
      by force
    with as kind writeString_Some [of str] show ?thesis by auto
  next
    case 4
    with 3 show ?thesis by (fastforce split: list.splits arg.splits if_splits)
  next
    case 5
    with 3 show ?thesis by (fastforce split: if_splits)
  qed
qed

section \<open>Reading back\<close>

text \<open>
  What the reader of a format returns for the arguments the writer was given: integers cut
  to their width, lists and strings as they are. There is no value for a list above the
  reader's limit, for a string that the 32-bit count cannot express, for \<^verbatim>\<open>%S\<close> (which the
  reader does not know) and for \<^verbatim>\<open>%%\<close> (which the reader skips in the format without taking
  the written \<^verbatim>\<open>%\<close> from the stream).
\<close>

fun delivered :: "fmt_item list \<Rightarrow> arg list \<Rightarrow> val list option" where
  "delivered [] as = Some []"
| "delivered (Lit c # fs) as = delivered fs as"
| "delivered (Spec len k # fs) [] = None"
| "delivered (Spec len k # fs) (a # as) =
     (case a of
        Int_Arg v \<Rightarrow>
          if k = CHR ''i'' \<and> len = 1 then map_option ((#) (Val1 (ucast v))) (delivered fs as)
          else if k = CHR ''i'' \<and> len = 2 then map_option ((#) (Val2 (ucast v))) (delivered fs as)
          else if k = CHR ''i'' \<and> len = 4 then map_option ((#) (Val4 v)) (delivered fs as)
          else None
      | Vec1_Arg xs \<Rightarrow>
          if k = CHR ''I'' \<and> len = 1 \<and> length xs \<le> unat protocol_max_list_length
          then map_option ((#) (Vec1 xs)) (delivered fs as) else None
      | Vec2_Arg xs \<Rightarrow>
          if k = CHR ''I'' \<and> len = 2 \<and> length xs \<le> unat protocol_max_list_length
          then map_option ((#) (Vec2 xs)) (delivered fs as) else None
      | Vec4_Arg xs \<Rightarrow>
          if k = CHR ''I'' \<and> len = 4 \<and> length xs \<le> unat protocol_max_list_length
          then map_option ((#) (Vec4 xs)) (delivered fs as) else None
      | Str_Arg str \<Rightarrow>
          if k = CHR ''s'' \<and> len = 0 \<and> length str < 2 ^ 32
          then map_option ((#) (Str str)) (delivered fs as) else None
      | Buf_Arg buf \<Rightarrow> None)"

lemma max_list_length [simp]: "unat protocol_max_list_length = 1048576"
  by (simp add: protocol_max_list_length_def)

lemma list_count_ok:
  assumes "n \<le> unat protocol_max_list_length"
  shows "\<not> protocol_max_list_length < of_nat n" and "unat (of_nat n :: u32) = n"
  using assms by (simp_all add: word_less_nat_alt unat_of_nat take_bit_nat_eq_self)

lemma be16_of_u16: "be16 x = [ucast (drop_bit 8 (ucast x :: u32) AND 0xff), ucast ((ucast x :: u32) AND 0xff)]"
  unfolding be16_def list.inject
  by (intro conjI; (rule refl | rule bit_word_eqI)) (auto simp: byte_bit_simps)

lemma be16_ucast: "ucast (drop_bit 8 v) # ucast v # w = be16 (ucast (v :: u32)) @ w"
  by (simp add: be16_def, intro conjI; rule bit_word_eqI) (auto simp: byte_bit_simps)

lemma byte_ucast: "(ucast (v AND 0xff) :: byte) = ucast (v :: u32)"
  by (rule bit_word_eqI) (auto simp: byte_bit_simps)

lemma ucast_ucast_byte: "map (\<lambda>x. ucast (ucast x :: u32)) xs = (xs :: byte list)"
proof -
  have "ucast (ucast x :: u32) = (x :: byte)" for x
    by (rule bit_word_eqI) (auto simp: byte_bit_simps)
  then show ?thesis by (simp add: map_idI)
qed

context byte_source
begin

lemma parses_times:
  assumes "\<And>x. parses ok avail m (f x) x"
  shows "parses ok avail (read_times (length xs) m) (concat (map f xs)) xs"
proof (induction xs)
  case Nil
  then show ?case by (simp add: parses_rret)
next
  case (Cons x xs)
  from parses_rbind [OF assms parses_rbind_ret [OF Cons.IH]] show ?case by simp
qed

lemma parses_size:
  assumes "n \<le> unat protocol_max_list_length"
  shows "parses ok avail (readVectorSize rd) (be32 (of_nat n)) (of_nat n)"
proof -
  have "parses ok avail (if protocol_max_list_length < (of_nat n :: u32) then rfail Bad_Client
      else rret (of_nat n)) [] (of_nat n :: u32)"
    using list_count_ok [OF assms] by (simp add: parses_rret)
  from parses_rbind [where f = "\<lambda>size. if protocol_max_list_length < size then rfail Bad_Client
      else rret size" and a = "of_nat n", OF parses_read4 this]
  show ?thesis by (simp add: readVectorSize_def)
qed

lemma parses_vector:
  assumes "\<And>x. parses ok avail m (f x) x" and "length xs \<le> unat protocol_max_list_length"
  shows "parses ok avail (rbind (readVectorSize rd) (\<lambda>n. read_times (unat n) m))
    (be32 (of_nat (length xs)) @ concat (map f xs)) xs"
  using parses_rbind [OF parses_size [OF assms(2)], of "\<lambda>n. read_times (unat n) m"]
    parses_times [OF assms(1)] list_count_ok [OF assms(2)] by simp

lemma parses_vector1:
  "length xs \<le> unat protocol_max_list_length \<Longrightarrow>
    parses ok avail (readVector1ByteInt rd) (be32 (of_nat (length xs)) @ xs) xs"
  using parses_vector [of "read1ByteInt rd" "\<lambda>x. [x]" xs] parses_read1
  by (simp add: readVector1ByteInt_def)

lemma parses_string:
  assumes "length str < 2 ^ 32"
  shows "parses ok avail (readBytes rd 0) (be32 (of_nat (length str)) @ str) str"
  using parses_rbind [OF parses_read4, of "\<lambda>n. pu_read rd (unat n)" "of_nat (length str)" str str]
    parses_read [of str "length str"] assms
  by (simp add: readBytes_def unat_of_nat take_bit_nat_eq_self)

lemma parses_continue:
  assumes "parses ok avail m w v" and "parses ok avail (vreadf rd fs) w' vs"
  shows "parses ok avail (rbind m (\<lambda>v. rbind (vreadf rd fs) (\<lambda>vs. rret (g v # vs)))) (w @ w') (g v # vs)"
  by (rule parses_rbind [OF assms(1) parses_rbind_ret [OF assms(2)]])

text \<open>The reader of a format takes exactly the message the writer of that format produced.\<close>

lemma parses_vreadf:
  "\<lbrakk>delivered fs as = Some vs; writef_items fs as = Some w\<rbrakk> \<Longrightarrow>
    parses ok avail (vreadf rd fs) w vs"
proof (induction fs as arbitrary: vs w rule: delivered.induct)
  case (1 as)
  then show ?case by (simp add: parses_rret)
next
  case (2 c fs as)
  then obtain w' where w: "w = [c] @ w'" "parses ok avail (vreadf rd fs) w' vs" by auto
  have "parses ok avail (pu_read rd 1) [c] [c]" by (rule parses_read) simp_all
  from parses_rbind [OF this, of "\<lambda>b. if b ! 0 \<noteq> c then rfail Read_Mismatch else vreadf rd fs"] w
  show ?case by simp
next
  case (3 len k fs)
  then show ?case by simp
next
  case (4 len k fs a as)
  note string = parses_continue [OF parses_string, where g = Str]
  show ?case
  proof (cases a)
    case (Int_Arg v)
    with 4 obtain w' vs' where w: "parses ok avail (vreadf rd fs) w' vs'" "k = CHR ''i''"
      "len = 1 \<and> vs = Val1 (ucast v) # vs' \<and> w = [ucast v] @ w' \<or>
       len = 2 \<and> vs = Val2 (ucast v) # vs' \<and> w = be16 (ucast v) @ w' \<or>
       len = 4 \<and> vs = Val4 v # vs' \<and> w = be32 v @ w'"
      by (auto simp: byte_ucast be16_ucast split: if_splits)
    then show ?thesis
      using parses_continue [OF parses_read1 w(1), where g = Val1]
        parses_continue [OF parses_read2 w(1), where g = Val2]
        parses_continue [OF parses_read4 w(1), where g = Val4] by auto
  next
    case (Vec1_Arg xs)
    with 4 show ?thesis
      by (auto simp: writeVectorInt_Some byte_ucast ucast_ucast_byte split: if_splits
          simp flip: append_assoc
          intro!: parses_continue [where g = Vec1] parses_vector1)
  next
    case (Vec2_Arg xs)
    with 4 show ?thesis
      by (auto simp: writeVectorInt_Some readVector2BytesInt_def split: if_splits
          simp flip: append_assoc be16_of_u16
          intro!: parses_continue [where g = Vec2] parses_vector parses_read2)
  next
    case (Vec4_Arg xs)
    with 4 show ?thesis
      by (auto simp: writeVectorInt_Some readVector4BytesInt_def split: if_splits
          simp flip: append_assoc
          intro!: parses_continue [where g = Vec4] parses_vector parses_read4)
  next
    case (Str_Arg str)
    with 4 obtain w' vs' where w: "k = CHR ''s''" "len = 0" "length str < 2 ^ 32"
      "writef_items fs as = Some w'" "vs = Str str # vs'" "delivered fs as = Some vs'"
      "w = (be32 (of_nat (length str)) @ str) @ w'"
      using writeString_Some [of str] by (auto split: if_splits)
    with 4 Str_Arg have "parses ok avail (vreadf rd fs) w' vs'" by auto
    with w string [of str fs w' vs'] show ?thesis
      by (simp add: protocol_max_string_length_def)
  next
    case (Buf_Arg buf)
    with 4 show ?thesis by simp
  qed
qed

text \<open>A list count above the limit is refused before any element is read.\<close>

lemma vector_limit:
  assumes "ok s" and "avail s = be32 n @ rest" and "protocol_max_list_length < n"
  shows "\<exists>s'. readVectorSize rd s = (Inl Bad_Client, s') \<and> avail s' = rest"
proof -
  from parses_whole [OF parses_read4 assms(1,2)] obtain s' where
    "read4BytesInt rd s = (Inr n, s')" "avail s' = rest" by metis
  with assms(3) show ?thesis by (simp add: readVectorSize_def rbind_def rfail_def)
qed

end

section \<open>Properties\<close>

text \<open>
  The buffer is never over-read. Whenever the length computation accepts a format and its
  arguments, the buffer is filled, holds at least as many bytes as \<^verbatim>\<open>vwritef\<close> hands to the
  stream, and (below 4 GiB) is sent completely.
\<close>

theorem writef_length:
  assumes "getLength fs as = Some n"
  shows "\<exists>buf. writef_items fs as = Some buf \<and> unat n \<le> length buf \<and>
    (length buf < 2 ^ 32 \<longrightarrow> vwritef fs n as = Some buf)"
proof -
  from getLength_writef_items [OF assms] obtain buf where
    buf: "writef_items fs as = Some buf" "n = of_nat (length buf)" by blast
  have le: "unat n \<le> length buf"
    unfolding buf(2) by (simp add: unat_of_nat take_bit_nat_less_eq_self)
  moreover have "vwritef fs n as = Some buf" if "length buf < 2 ^ 32"
  proof -
    from that buf(2) have "unat n = length buf" by (simp add: unat_of_nat take_bit_nat_eq_self)
    with buf(1) show ?thesis by (auto simp: vwritef_def)
  qed
  ultimately show ?thesis using buf(1) by blast
qed

lemma writef_length_witness:
  "\<exists>buf. writef_items [Lit 68, Spec 0 CHR ''s''] [Str_Arg [7]] = Some buf \<and>
    unat (6 :: u32) \<le> length buf \<and>
    (length buf < 2 ^ 32 \<longrightarrow> vwritef [Lit 68, Spec 0 CHR ''s''] 6 [Str_Arg [7]] = Some buf)"
  by (rule writef_length) simp

text \<open>
  C10. Codec round trip. Reading a message, written from arguments that fit the format, with the
  writer's format returns the arguments, integers cut to their width, and leaves exactly what
  followed the message.
\<close>

theorem readf_writef_roundtrip:
  assumes "delivered fs as = Some vs" and "writef_items fs as = Some w"
  shows "vreadf list_rd fs (w @ rest) = (Inr vs, rest)"
  using parses_whole [OF lst.parses_vreadf [OF assms], of "w @ rest" rest] by auto

lemma readf_writef_roundtrip_witness:
  "vreadf list_rd [Lit 68, Spec 2 CHR ''i'', Spec 4 CHR ''I''] ([68, 2, 1, 0, 0, 0, 1, 0, 0, 0, 5] @ [9]) =
    (Inr [Val2 513, Vec4 [5]], [9])"
  by (rule readf_writef_roundtrip [where as = "[Int_Arg 513, Vec4_Arg [5]]"])
    (simp_all add: prepend_def writeInt_def be32_def writeVectorInt_Some)

text \<open>
  Truncated messages. A message that ends early, at any point, makes the reader throw the
  end-of-stream exception; it never returns values.
\<close>

theorem readf_truncated:
  assumes "delivered fs as = Some vs" and "writef_items fs as = Some w" and "strict_prefix t w"
  shows "\<exists>s'. vreadf list_rd fs t = (Inl End_Of_Stream, s')"
  using parses_cut [OF lst.parses_vreadf [OF assms(1,2)], of t] assms(3) by simp

lemma readf_truncated_witness:
  "\<exists>s'. vreadf list_rd [Lit 68, Spec 2 CHR ''i''] [68, 2] = (Inl End_Of_Stream, s')"
  by (rule readf_truncated [where as = "[Int_Arg 513]" and w = "[68, 2, 1]" and vs = "[Val2 513]"])
    (simp_all add: prepend_def writeInt_def strict_prefix_def)

text \<open>
  List limit. A list whose count exceeds \<^verbatim>\<open>PROTOCOL_MAX_LIST_LENGTH\<close> is refused with the
  bad-client exception, and none of its elements is read.
\<close>

theorem list_limit_enforced:
  assumes "protocol_max_list_length < n"
  shows "vreadf list_rd [Spec 4 CHR ''I''] (be32 n @ rest) = (Inl Bad_Client, rest)"
  using lst.vector_limit [of "be32 n @ rest" n rest] assms
  by (auto simp: readVector4BytesInt_def rbind_def)

lemma list_limit_enforced_witness:
  "vreadf list_rd [Spec 4 CHR ''I''] (be32 2000000 @ [1]) = (Inl Bad_Client, [1])"
  by (rule list_limit_enforced) (simp add: protocol_max_list_length_def)

text \<open>
  The string limit is different: the reader compares the width written in the format (0 for
  \<^verbatim>\<open>%s\<close>) with the limit, before it reads the real length from the stream. Strings above
  \<^verbatim>\<open>PROTOCOL_MAX_STRING_LENGTH\<close> are accepted.
\<close>

lemma string_limit_not_enforced:
  assumes "unat protocol_max_string_length < length str" and "length str < 2 ^ 32"
  shows "vreadf list_rd [Spec 0 CHR ''s''] (be32 (of_nat (length str)) @ str) = (Inr [Str str], [])"
proof -
  have w: "writeString str = Some (be32 (of_nat (length str)) @ str)"
    using writeString_Some [of str] assms(2) by auto
  from lst.parses_vreadf [of "[Spec 0 CHR ''s'']" "[Str_Arg str]" "[Str str]"] w assms(2)
  have "parses (\<lambda>_. True) (\<lambda>bs. bs) (vreadf list_rd [Spec 0 CHR ''s''])
      (be32 (of_nat (length str)) @ str) [Str str]" by simp
  from parses_whole [OF this, of _ "[]"] show ?thesis by auto
qed

text \<open>
  \<^verbatim>\<open>%%\<close> is written as one byte, but reading it takes nothing from the stream.
\<close>

lemma percent_not_consumed:
  "writef ''%%'' [] = Some [37] \<and> readf list_rd ''%%'' [37] = (Inr (Some []), [37])"
  by (simp add: writef_def vwritef_def readf_def digit_of_def rret_def)

end
