(* ===== verification/Packet_Source.thy ===== *)
theory Packet_Source
  imports Packet_Filter Protocol_Util
begin

text \<open>
  The packet filter as the stream that \<^verbatim>\<open>ProtocolUtil::readf\<close> reads from: the available
  bytes are the payloads of the packets that have arrived completely. With this the codec's
  readers are correct on top of the framing layer.
\<close>

function payloads :: "bytes \<Rightarrow> bytes" where
  "payloads w =
     (if 4 \<le> length w then
        (let n = unat (un_be32 (w ! 0) (w ! 1) (w ! 2) (w ! 3))
         in if n \<le> length w - 4 then take n (drop 4 w) @ payloads (drop (4 + n) w) else [])
      else [])"
  by pat_completeness auto
termination
  by (relation "measure length") auto

declare payloads.simps [simp del]

lemma un_be32_nth:
  "un_be32 ((be32 v @ w) ! 0) ((be32 v @ w) ! 1) ((be32 v @ w) ! 2) ((be32 v @ w) ! 3) = v"
  using un_be32_be32 [of v] by (simp add: be32_def nth_append)

lemma payloads_Nil [simp]: "payloads [] = []"
  by (simp add: payloads.simps)

lemma payloads_frame: "sendable p \<Longrightarrow> payloads (frame p @ r) = p @ payloads r"
  using un_be32_nth [of "of_nat (length p)" "p @ r"] sendable_unat [of p]
  by (subst payloads.simps) (simp add: frame_eq Let_def)

lemma payloads_incomplete: "length c < unat n \<Longrightarrow> payloads (be32 n @ c) = []"
  using un_be32_nth [of n c] by (subst payloads.simps) (simp add: Let_def)

definition ps_inv :: "packet_filter \<Rightarrow> bool" where
  "ps_inv f \<longleftrightarrow> pf_settled f \<and>
     (\<exists>ps. list_all sendable ps \<and> prefix (pf_pending f) (concat (map frame ps)))"

definition ps_avail :: "packet_filter \<Rightarrow> bytes" where
  "ps_avail f = payloads (pf_pending f)"

definition ps_rd :: "nat \<Rightarrow> packet_filter \<Rightarrow> bytes \<times> packet_filter" where
  "ps_rd n f = (case pf_read (of_nat n) f of Some (out, f', _) \<Rightarrow> (out, f') | None \<Rightarrow> ([], f))"

lemma ps_avail_not_ready:
  assumes "ps_inv f" and "\<not> pf_is_ready f"
  shows "ps_avail f = []"
proof (cases "pf_size f = 0")
  case True
  with assms show ?thesis
    by (simp add: ps_avail_def ps_inv_def pf_settled_def pf_pending_def payloads.simps)
next
  case False
  with assms show ?thesis
    by (simp add: ps_avail_def ps_inv_def pf_settled_def pf_pending_def pf_is_ready_def
        sbq.count_content payloads_incomplete)
qed

text \<open>One read: nothing if no packet is complete, else the front of the first packet.\<close>

lemma ps_rd_step:
  assumes f: "ps_inv f"
  shows "ps_inv (snd (ps_rd n f)) \<and> ps_avail f = fst (ps_rd n f) @ ps_avail (snd (ps_rd n f)) \<and>
    length (fst (ps_rd n f)) \<le> n \<and>
    (ps_avail f \<noteq> [] \<longrightarrow> 0 < n \<longrightarrow> n < 2 ^ 32 \<longrightarrow> fst (ps_rd n f) \<noteq> [])"
proof (cases "(of_nat n :: u32) = 0 \<or> \<not> pf_is_ready f")
  case True
  then have "ps_rd n f = ([], f)" by (auto simp: ps_rd_def pf_read_def)
  moreover have "n < 2 ^ 32 \<Longrightarrow> (of_nat n :: u32) = 0 \<Longrightarrow> n = 0"
    by (simp add: word_of_nat_eq_0_iff) (metis dvd_imp_le neq0_conv not_le)
  ultimately show ?thesis using f True ps_avail_not_ready [OF f] by auto
next
  case False
  from f obtain ps where ps: "pf_settled f" "list_all sendable ps"
    "prefix (pf_pending f) (concat (map frame ps))" by (auto simp: ps_inv_def)
  from pf_ready_cases [OF ps(1,3,2)] False obtain p qs rest where
    p: "ps = p # qs" "pf_pending f = frame p @ rest" "prefix rest (concat (map frame qs))" by auto
  with ps(2) have ok: "sendable p" "list_all sendable qs" by auto
  have av: "ps_avail f = p @ payloads rest" using ok p(2) by (simp add: ps_avail_def payloads_frame)
  define m where "m = unat (of_nat n :: u32)"
  have m: "of_nat m = (of_nat n :: u32)" "m \<le> n" "0 < m"
    using False take_bit_nat_less_eq_self [of 32 n] by (simp_all add: m_def unat_gt_0) 
      (simp add: unat_of_nat)
  show ?thesis
  proof (cases "m < length p")
    case True
    from pf_read_partial [OF ps(1) p(2) ok(1) m(3) True] obtain f' where
      f': "pf_read (of_nat m) f = Some (take m p, f', [])" "pf_settled f'"
        "pf_pending f' = frame (drop m p) @ rest" by blast
    have d: "sendable (drop m p)" using ok True by (auto simp: sendable_def)
    have "ps_inv f'"
      unfolding ps_inv_def using f'(2,3) d ok(2) p(3)
      by (intro conjI exI [of _ "drop m p # qs"]) simp_all
    with f' m d av True show ?thesis
      by (auto simp: ps_rd_def ps_avail_def payloads_frame)
  next
    case False
    then have "of_nat (length p) \<le> (of_nat n :: u32)"
      using sendable_unat [OF ok(1)] by (simp add: word_le_nat_alt m_def)
    from pf_read_packet [OF ps(1) p(2) ok(1) p(3) ok(2) this] obtain f' ev where
      f': "pf_read (of_nat n) f = Some (p, f', ev)" "pf_settled f'" "pf_pending f' = rest" by blast
    have "ps_inv f'" unfolding ps_inv_def using f' ok p(3)
      by (intro conjI exI [of _ qs]) simp_all
    with f' m av False ok show ?thesis
      by (auto simp: ps_rd_def ps_avail_def sendable_def)
  qed
qed

interpretation pfs: byte_source ps_rd ps_inv ps_avail
  by unfold_locales (use ps_rd_step in blast)+

section \<open>Properties\<close>

text \<open>
  C31. Messages over the wire. A sequence of messages, each written by \<^verbatim>\<open>writef\<close> and sent as a
  packet through the framing layer in any fragmentation, is read back by \<^verbatim>\<open>readf\<close> with the
  writer's formats, on the receiving packet filter: the first message's values are returned
  and the stream is left at the second message.
\<close>

theorem message_over_packets:
  assumes "delivered fs as = Some vs" and "writef_items fs as = Some w" and "sendable w"
    and "list_all sendable ps" and "concat cs = concat (map frame (w # ps))" and "[] \<notin> set cs"
  shows "\<exists>f f'. pf_read_loop cs pf_init = Some (f, []) \<and> vreadf ps_rd fs f = (Inr vs, f') \<and>
    ps_inv f' \<and> ps_avail f' = concat ps"
proof -
  from assms have all: "list_all sendable (w # ps)" by simp
  from pf_read_loop_frames [OF all assms(5,6)] obtain f where
    f: "pf_read_loop cs pf_init = Some (f, [])" "pf_settled f"
      "pf_pending f = concat (map frame (w # ps))" by blast
  have inv: "ps_inv f" unfolding ps_inv_def using f all
    by (intro conjI exI [of _ "w # ps"]) simp_all
  have cat: "list_all sendable qs \<Longrightarrow> payloads (concat (map frame qs)) = concat qs" for qs
    by (induction qs) (simp_all add: payloads_frame)
  have "ps_avail f = w @ concat ps" unfolding ps_avail_def f(3) using cat [OF all] by simp
  from parses_whole [OF pfs.parses_vreadf [OF assms(1,2)] inv this] f(1) show ?thesis by metis
qed

lemma message_over_packets_witness:
  "\<exists>f f'. pf_read_loop [[0, 0, 0], [2, 67], [5, 0, 0, 0, 1, 9]] pf_init = Some (f, []) \<and>
    vreadf ps_rd [Lit 67, Spec 1 CHR ''i''] f = (Inr [Val1 5], f') \<and> ps_inv f' \<and>
    ps_avail f' = concat [[9]]"
proof (rule message_over_packets)
  show "delivered [Lit 67, Spec 1 CHR ''i''] [Int_Arg 5] = Some [Val1 5]" by simp
  show "writef_items [Lit 67, Spec 1 CHR ''i''] [Int_Arg 5] = Some [67, 5]" by simp
qed (simp_all add: sendable_def frame_eq be32_def)

end
