(* ===== verification/Ordered_Map.thy ===== *)
theory Ordered_Map
  imports Main
begin

text \<open>
  The ordered associative containers of the program (\<^verbatim>\<open>std::map\<close> with a comparator): a list
  of entries in increasing key order. Keys that the comparator does not separate are the same
  key; an entry keeps the key it was inserted with, as in the C++ container. The locale
  \<open>weak_order\<close> states what the standard requires of a comparator and proves the laws of
  the operations once; each component that declares a map interprets it on its comparator.
\<close>

section \<open>Operations\<close>

type_synonym ('k, 'v) om = "('k \<times> 'v) list"

definition same_key :: "('k \<Rightarrow> 'k \<Rightarrow> bool) \<Rightarrow> 'k \<Rightarrow> 'k \<Rightarrow> bool" where
  "same_key lt a b \<longleftrightarrow> \<not> lt a b \<and> \<not> lt b a"

fun om_find :: "('k \<Rightarrow> 'k \<Rightarrow> bool) \<Rightarrow> 'k \<Rightarrow> ('k, 'v) om \<Rightarrow> ('k \<times> 'v) option" where
  "om_find lt k [] = None"
| "om_find lt k ((k', v) # m) =
     (if lt k' k then om_find lt k m else if lt k k' then None else Some (k', v))"

definition om_get :: "('k \<Rightarrow> 'k \<Rightarrow> bool) \<Rightarrow> 'k \<Rightarrow> ('k, 'v) om \<Rightarrow> 'v option" where
  "om_get lt k m = map_option snd (om_find lt k m)"

definition om_contains :: "('k \<Rightarrow> 'k \<Rightarrow> bool) \<Rightarrow> 'k \<Rightarrow> ('k, 'v) om \<Rightarrow> bool" where
  "om_contains lt k m \<longleftrightarrow> om_find lt k m \<noteq> None"

text \<open>\<open>try_emplace\<close> (and \<open>insert\<close>): an entry already there is left alone.\<close>

fun om_emplace :: "('k \<Rightarrow> 'k \<Rightarrow> bool) \<Rightarrow> 'k \<Rightarrow> 'v \<Rightarrow> ('k, 'v) om \<Rightarrow> ('k, 'v) om" where
  "om_emplace lt k v [] = [(k, v)]"
| "om_emplace lt k v ((k', v') # m) =
     (if lt k' k then (k', v') # om_emplace lt k v m
      else if lt k k' then (k, v) # (k', v') # m
      else (k', v') # m)"

fun om_erase :: "('k \<Rightarrow> 'k \<Rightarrow> bool) \<Rightarrow> 'k \<Rightarrow> ('k, 'v) om \<Rightarrow> ('k, 'v) om" where
  "om_erase lt k [] = []"
| "om_erase lt k ((k', v') # m) =
     (if lt k' k then (k', v') # om_erase lt k m
      else if lt k k' then (k', v') # m
      else m)"

text \<open>Writing through the iterator \<open>find\<close> returned: nothing happens on a missing key.\<close>

fun om_adjust :: "('k \<Rightarrow> 'k \<Rightarrow> bool) \<Rightarrow> 'k \<Rightarrow> ('v \<Rightarrow> 'v) \<Rightarrow> ('k, 'v) om \<Rightarrow> ('k, 'v) om" where
  "om_adjust lt k f [] = []"
| "om_adjust lt k f ((k', v') # m) =
     (if lt k' k then (k', v') # om_adjust lt k f m
      else if lt k k' then (k', v') # m
      else (k', f v') # m)"

text \<open>\<open>m[k] = v\<close>.\<close>

definition om_assign :: "('k \<Rightarrow> 'k \<Rightarrow> bool) \<Rightarrow> 'k \<Rightarrow> 'v \<Rightarrow> ('k, 'v) om \<Rightarrow> ('k, 'v) om" where
  "om_assign lt k v m = om_adjust lt k (\<lambda>_. v) (om_emplace lt k v m)"

text \<open>The entries before \<open>upper_bound(k)\<close> and those from it on.\<close>

definition om_upto :: "('k \<Rightarrow> 'k \<Rightarrow> bool) \<Rightarrow> 'k \<Rightarrow> ('k, 'v) om \<Rightarrow> ('k, 'v) om" where
  "om_upto lt k m = takeWhile (\<lambda>e. \<not> lt k (fst e)) m"

definition om_above :: "('k \<Rightarrow> 'k \<Rightarrow> bool) \<Rightarrow> 'k \<Rightarrow> ('k, 'v) om \<Rightarrow> ('k, 'v) om" where
  "om_above lt k m = dropWhile (\<lambda>e. \<not> lt k (fst e)) m"

definition om_sorted :: "('k \<Rightarrow> 'k \<Rightarrow> bool) \<Rightarrow> ('k, 'v) om \<Rightarrow> bool" where
  "om_sorted lt m \<longleftrightarrow> sorted_wrt lt (map fst m)"

lemma om_sorted_Nil [simp]: "om_sorted lt []"
  by (simp add: om_sorted_def)

lemma om_sorted_Cons:
  "om_sorted lt (e # m) \<longleftrightarrow> (\<forall>e'\<in>set m. lt (fst e) (fst e')) \<and> om_sorted lt m"
  by (auto simp: om_sorted_def)

lemma om_split: "om_upto lt k m @ om_above lt k m = m"
  by (simp add: om_upto_def om_above_def)

lemma om_sorted_append:
  "om_sorted lt (m @ m') \<longleftrightarrow>
     om_sorted lt m \<and> om_sorted lt m' \<and> (\<forall>e\<in>set m. \<forall>e'\<in>set m'. lt (fst e) (fst e'))"
  by (auto simp: om_sorted_def sorted_wrt_append)

lemma om_sorted_filter: "om_sorted lt m \<Longrightarrow> om_sorted lt (filter P m)"
  by (induction m) (auto simp: om_sorted_Cons)

lemma om_adjust_keys: "map fst (om_adjust lt k f m) = map fst m"
  by (induction m) auto

lemma om_adjust_sorted [simp]: "om_sorted lt (om_adjust lt k f m) \<longleftrightarrow> om_sorted lt m"
  by (simp add: om_sorted_def om_adjust_keys)

lemma om_map_sorted [simp]: "om_sorted lt (map (\<lambda>(k, v). (k, f k v)) m) \<longleftrightarrow> om_sorted lt m"
  by (simp add: om_sorted_def comp_def case_prod_unfold)

lemma om_find_map:
  "om_find lt k (map (\<lambda>(k, v). (k, f k v)) m) = map_option (\<lambda>(k, v). (k, f k v)) (om_find lt k m)"
  by (induction m) auto

lemma om_find_mem: "om_find lt k m = Some e \<Longrightarrow> e \<in> set m"
  by (induction m) (auto split: if_splits)

lemma om_find_same: "om_find lt k m = Some (k', v) \<Longrightarrow> same_key lt k k'"
  by (induction m) (auto simp: same_key_def split: if_splits)

section \<open>Comparators\<close>

locale weak_order =
  fixes lt :: "'k \<Rightarrow> 'k \<Rightarrow> bool"
  assumes asym: "lt a b \<Longrightarrow> \<not> lt b a"
    and negative_trans: "\<not> lt a b \<Longrightarrow> \<not> lt b c \<Longrightarrow> \<not> lt a c"
begin

lemma irrefl [simp]: "\<not> lt a a"
  using asym by blast

lemma trans: "lt a b \<Longrightarrow> lt b c \<Longrightarrow> lt a c"
  using asym negative_trans by blast

lemma same_refl [simp]: "same_key lt a a"
  by (simp add: same_key_def)

lemma same_sym: "same_key lt a b \<Longrightarrow> same_key lt b a"
  by (simp add: same_key_def)

lemma same_trans: "same_key lt a b \<Longrightarrow> same_key lt b c \<Longrightarrow> same_key lt a c"
  unfolding same_key_def using negative_trans by blast

lemma lt_same_left: "same_key lt a b \<Longrightarrow> lt a c \<longleftrightarrow> lt b c"
  unfolding same_key_def using negative_trans by blast

lemma lt_same_right: "same_key lt a b \<Longrightarrow> lt c a \<longleftrightarrow> lt c b"
  unfolding same_key_def using negative_trans by blast

lemma find_same_key: "same_key lt a b \<Longrightarrow> om_find lt a m = om_find lt b m"
  by (induction m) (auto simp: lt_same_left lt_same_right)

lemma find_member:
  assumes "om_sorted lt m" and "(k', v) \<in> set m" and "same_key lt k k'"
  shows "om_find lt k m = Some (k', v)"
  using assms
proof (induction m)
  case (Cons e m)
  obtain a w where e: "e = (a, w)" by fastforce
  show ?case
  proof (cases "(k', v) = e")
    case True
    then show ?thesis using Cons.prems e by (simp add: same_key_def)
  next
    case False
    with Cons.prems e have "(k', v) \<in> set m" and "lt a k'" by (auto simp: om_sorted_Cons)
    with Cons e show ?thesis by (auto simp: om_sorted_Cons lt_same_right)
  qed
qed simp

lemma find_None_iff:
  "om_sorted lt m \<Longrightarrow> om_find lt k m = None \<longleftrightarrow> (\<forall>e\<in>set m. \<not> same_key lt k (fst e))"
  by (metis find_member om_find_mem om_find_same not_None_eq prod.collapse)

lemma emplace_set:
  "om_sorted lt m \<Longrightarrow>
     set (om_emplace lt k v m) = (if om_find lt k m = None then insert (k, v) (set m) else set m)"
proof (induction m)
  case (Cons e m)
  then show ?case by (cases e) (simp add: om_sorted_Cons insert_commute)
qed simp

lemma emplace_sorted [intro]: "om_sorted lt m \<Longrightarrow> om_sorted lt (om_emplace lt k v m)"
proof (induction m)
  case (Cons e m)
  obtain a w where e: "e = (a, w)" by fastforce
  show ?case
  proof (cases "lt a k")
    case True
    then have "\<forall>e'\<in>set (om_emplace lt k v m). lt a (fst e')"
      using Cons.prems e by (auto simp: om_sorted_Cons emplace_set)
    with Cons e True show ?thesis by (simp add: om_sorted_Cons)
  next
    case False
    with Cons.prems e show ?thesis by (auto simp: om_sorted_Cons intro: trans)
  qed
qed (simp add: om_sorted_def)

lemma find_emplace:
  assumes "om_sorted lt m"
  shows "om_find lt k' (om_emplace lt k v m) =
    (if om_find lt k m = None \<and> same_key lt k' k then Some (k, v) else om_find lt k' m)"
  using assms
proof (induction m)
  case (Cons e m)
  obtain a w where e: "e = (a, w)" by fastforce
  consider "lt a k" | "lt k a" | "same_key lt a k" by (auto simp: same_key_def)
  then show ?case
  proof cases
    case 1
    then show ?thesis using Cons e
      by (auto simp: om_sorted_Cons same_key_def dest: trans negative_trans)
  next
    case 2
    then show ?thesis using Cons.prems e by (auto simp: same_key_def dest: asym trans)
  next
    case 3
    then show ?thesis using e by (auto simp: same_key_def)
  qed
qed (auto simp: same_key_def)

lemma emplace_present: "om_find lt k m \<noteq> None \<Longrightarrow> om_emplace lt k v m = m"
  by (induction m) (auto split: if_splits)

lemma erase_filter:
  "om_sorted lt m \<Longrightarrow> om_erase lt k m = filter (\<lambda>e. \<not> same_key lt k (fst e)) m"
proof (induction m)
  case (Cons e m)
  obtain a w where e: "e = (a, w)" by fastforce
  consider "lt a k" | "lt k a" | "same_key lt k a" by (auto simp: same_key_def)
  then show ?case
  proof cases
    case 1
    then show ?thesis using Cons e by (simp add: om_sorted_Cons same_key_def)
  next
    case 2
    then have "\<forall>e'\<in>set m. \<not> same_key lt k (fst e')"
      using Cons.prems e by (auto simp: om_sorted_Cons same_key_def dest: trans)
    then have "filter (\<lambda>e. \<not> same_key lt k (fst e)) m = m" by simp
    with 2 e show ?thesis by (auto simp: same_key_def dest: asym)
  next
    case 3
    then have "\<forall>e'\<in>set m. lt k (fst e')"
      using Cons.prems e lt_same_left [OF 3] by (simp add: om_sorted_Cons)
    then have "\<forall>e'\<in>set m. \<not> same_key lt k (fst e')"
      by (simp add: same_key_def)
    then have "filter (\<lambda>e. \<not> same_key lt k (fst e)) m = m" by simp
    with 3 e show ?thesis by (auto simp: same_key_def)
  qed
qed simp

lemma erase_sorted [intro]: "om_sorted lt m \<Longrightarrow> om_sorted lt (om_erase lt k m)"
  by (simp add: erase_filter om_sorted_filter)

lemma find_filter:
  assumes "om_sorted lt m"
  shows "om_find lt k (filter P m) =
    (case om_find lt k m of None \<Rightarrow> None | Some e \<Rightarrow> if P e then Some e else None)"
proof (cases "om_find lt k m")
  case None
  then have "om_find lt k (filter P m) = None"
    using assms om_sorted_filter [OF assms, of P] by (simp add: find_None_iff)
  with None show ?thesis by simp
next
  case (Some e)
  obtain a w where e: "e = (a, w)" by fastforce
  note same = om_find_same [OF Some [unfolded e]] and mem = om_find_mem [OF Some]
  show ?thesis
  proof (cases "P e")
    case True
    then have "(a, w) \<in> set (filter P m)" using mem e by simp
    then show ?thesis
      using find_member [OF om_sorted_filter [OF assms] _ same] Some True e by simp
  next
    case False
    have "\<not> same_key lt k (fst e')" if "e' \<in> set (filter P m)" for e'
      using that find_member [OF assms, of "fst e'" "snd e'" k] Some False by auto
    then have "om_find lt k (filter P m) = None"
      using find_None_iff [OF om_sorted_filter [OF assms]] by blast
    with Some False show ?thesis by simp
  qed
qed

lemma find_erase:
  assumes "om_sorted lt m"
  shows "om_find lt k' (om_erase lt k m) = (if same_key lt k' k then None else om_find lt k' m)"
proof (cases "om_find lt k' m")
  case None
  then show ?thesis using assms by (simp add: erase_filter find_filter)
next
  case (Some e)
  then have "same_key lt k' (fst e)" using om_find_same [of lt k' m "fst e" "snd e"] by simp
  then have "same_key lt k (fst e) \<longleftrightarrow> same_key lt k' k"
    using same_trans same_sym by blast
  then show ?thesis using assms Some by (simp add: erase_filter find_filter)
qed

lemma find_adjust:
  "om_sorted lt m \<Longrightarrow> om_find lt k' (om_adjust lt k f m) =
     (if same_key lt k' k then map_option (apsnd f) (om_find lt k' m) else om_find lt k' m)"
proof (induction m)
  case (Cons e m)
  obtain a w where e: "e = (a, w)" by fastforce
  consider "lt a k" | "lt k a" | "same_key lt a k" by (auto simp: same_key_def)
  then show ?case
  proof cases
    case 1
    then show ?thesis using Cons e
      by (auto simp: om_sorted_Cons same_key_def dest: trans negative_trans)
  next
    case 2
    then show ?thesis using Cons.prems e by (auto simp: same_key_def dest: asym trans negative_trans)
  next
    case 3
    then have "same_key lt k' k \<longleftrightarrow> same_key lt k' a" using same_trans same_sym by blast
    with 3 e show ?thesis by (auto simp: same_key_def)
  qed
qed auto

lemma assign_sorted [intro]: "om_sorted lt m \<Longrightarrow> om_sorted lt (om_assign lt k v m)"
  by (auto simp: om_assign_def)

lemma get_assign:
  assumes "om_sorted lt m"
  shows "om_get lt k' (om_assign lt k v m) = (if same_key lt k' k then Some v else om_get lt k' m)"
proof (cases "om_find lt k m")
  case None
  then show ?thesis using find_adjust [OF emplace_sorted [OF assms]] find_emplace [OF assms]
    by (simp add: om_assign_def om_get_def)
next
  case (Some e)
  then have "om_find lt k' m = Some e" if "same_key lt k' k"
    using find_same_key [OF that, of m] by simp
  with Some show ?thesis using find_adjust [OF assms] emplace_present [of k m v]
    by (simp add: om_assign_def om_get_def)
qed

lemma upto_member:
  assumes "om_sorted lt m"
  shows "e \<in> set (om_upto lt k m) \<longleftrightarrow> e \<in> set m \<and> \<not> lt k (fst e)"
  using assms
proof (induction m)
  case (Cons a m)
  then show ?case by (auto simp: om_upto_def om_sorted_Cons dest: trans)
qed (simp add: om_upto_def)

lemma above_member:
  assumes "om_sorted lt m"
  shows "e \<in> set (om_above lt k m) \<longleftrightarrow> e \<in> set m \<and> lt k (fst e)"
  using assms
proof (induction m)
  case (Cons a m)
  then show ?case by (auto simp: om_above_def om_sorted_Cons dest: trans)
qed (simp add: om_above_def)

lemma upto_last:
  assumes "om_sorted lt m" and "om_upto lt k m \<noteq> []" and "e \<in> set m" and "\<not> lt k (fst e)"
  shows "e = last (om_upto lt k m) \<or> lt (fst e) (fst (last (om_upto lt k m)))"
proof -
  let ?u = "om_upto lt k m"
  have u: "?u = butlast ?u @ [last ?u]" using assms(2) by simp
  have "om_sorted lt ?u" using assms(1) om_split [of lt k m] om_sorted_append by metis
  moreover have "e \<in> set ?u" using assms upto_member by blast
  ultimately show ?thesis using u om_sorted_append [of lt "butlast ?u" "[last ?u]"]
    by (metis Un_iff empty_iff insert_iff list.set(1) list.set(2) set_append)
qed

lemma above_hd:
  assumes "om_sorted lt m" and "e \<in> set m" and "lt k (fst e)"
  shows "e = hd (om_above lt k m) \<or> lt (fst (hd (om_above lt k m))) (fst e)"
proof -
  let ?a = "om_above lt k m"
  have e: "e \<in> set ?a" using assms above_member by blast
  then have a: "?a = hd ?a # tl ?a" by (cases ?a) auto
  have "om_sorted lt ?a" using assms(1) om_split [of lt k m] om_sorted_append by metis
  then show ?thesis using e a om_sorted_Cons [of lt "hd ?a" "tl ?a"] by (metis set_ConsD)
qed

end

end
