(* ===== verification/Strings.thy ===== *)
theory Strings
  imports Ordered_Map
begin

text \<open>
  Comparison of byte strings: the case-insensitive order \<^verbatim>\<open>CaselessCmp\<close> of
  \<^verbatim>\<open>src/lib/base/String.cpp\<close> and the plain order of \<^verbatim>\<open>std::string\<close>. Characters are signed
  8-bit values (as on the supported compilers) for \<^verbatim>\<open>tolower\<close>, which acts on \<^verbatim>\<open>A\<close> to \<^verbatim>\<open>Z\<close>
  (the C locale); \<^verbatim>\<open>std::string\<close> compares them unsigned.
\<close>

definition char_value :: "char \<Rightarrow> int" where
  "char_value c = (let n = of_char c in if n < 128 then n else n - 256)"

definition to_lower :: "char \<Rightarrow> int" where
  "to_lower c = (let n = char_value c in if 65 \<le> n \<and> n \<le> 90 then n + 32 else n)"

text \<open>\<^verbatim>\<open>std::lexicographical_compare\<close> of the images under a function.\<close>

fun lex_less :: "('c \<Rightarrow> 'i::linorder) \<Rightarrow> 'c list \<Rightarrow> 'c list \<Rightarrow> bool" where
  "lex_less f [] [] = False"
| "lex_less f [] (b # bs) = True"
| "lex_less f (a # as) [] = False"
| "lex_less f (a # as) (b # bs) = (f a < f b \<or> (\<not> f b < f a \<and> lex_less f as bs))"

definition caseless_less :: "string \<Rightarrow> string \<Rightarrow> bool" where
  "caseless_less = lex_less to_lower"

definition caseless_equal :: "string \<Rightarrow> string \<Rightarrow> bool" where
  "caseless_equal a b \<longleftrightarrow> \<not> (caseless_less a b \<or> caseless_less b a)"

definition string_less :: "string \<Rightarrow> string \<Rightarrow> bool" where
  "string_less = lex_less (of_char :: char \<Rightarrow> int)"

lemma lex_less_asym: "lex_less f a b \<Longrightarrow> \<not> lex_less f b a"
  by (induction f a b rule: lex_less.induct) auto

lemma lex_less_negative_trans: "\<not> lex_less f a b \<Longrightarrow> \<not> lex_less f b c \<Longrightarrow> \<not> lex_less f a c"
proof (induction f a b arbitrary: c rule: lex_less.induct)
  case (1 f)
  then show ?case by simp
next
  case (2 f b bs)
  then show ?case by simp
next
  case (3 f a as)
  then show ?case by (cases c) auto
next
  case (4 f a as b bs)
  then show ?case by (cases c) auto
qed

lemma lex_less_same: "\<not> lex_less f a b \<and> \<not> lex_less f b a \<longleftrightarrow> map f a = map f b"
  by (induction f a b rule: lex_less.induct) auto

interpretation caseless: weak_order caseless_less
  by unfold_locales (auto simp: caseless_less_def dest: lex_less_asym lex_less_negative_trans)

interpretation plain: weak_order string_less
  by unfold_locales (auto simp: string_less_def dest: lex_less_asym lex_less_negative_trans)

lemma same_key_caseless: "same_key caseless_less a b \<longleftrightarrow> caseless_equal a b"
  by (simp add: same_key_def caseless_equal_def)

lemma caseless_equal_iff: "caseless_equal a b \<longleftrightarrow> map to_lower a = map to_lower b"
  using lex_less_same [of to_lower a b] by (simp add: caseless_equal_def caseless_less_def)

lemma caseless_equal_refl [simp]: "caseless_equal a a"
  and caseless_equal_sym: "caseless_equal a b \<Longrightarrow> caseless_equal b a"
  and caseless_equal_trans: "caseless_equal a b \<Longrightarrow> caseless_equal b c \<Longrightarrow> caseless_equal a c"
  by (simp_all add: caseless_equal_iff)

lemma caseless_equal_Nil [simp]: "caseless_equal [] a \<longleftrightarrow> a = []" "caseless_equal a [] \<longleftrightarrow> a = []"
  by (auto simp: caseless_equal_iff)

lemma same_key_plain [simp]: "same_key string_less a b \<longleftrightarrow> a = b"
proof -
  have "inj (of_char :: char \<Rightarrow> int)" by (auto intro: injI)
  then show ?thesis
    using lex_less_same [of "of_char :: char \<Rightarrow> int" a b]
    by (simp add: same_key_def string_less_def inj_map_eq_map)
qed

text \<open>The maps keyed by option identifiers and by other linearly ordered types.\<close>

interpretation ord: weak_order "(<) :: 'a::linorder \<Rightarrow> 'a \<Rightarrow> bool"
  by unfold_locales auto

lemma same_key_ord [simp]: "same_key (<) (a :: 'a::linorder) b \<longleftrightarrow> a = b"
  by (auto simp: same_key_def)

end
