(* ===== verification/Floats.thy ===== *)
theory Floats
  imports Complex_Main
begin

text \<open>
  The \<^verbatim>\<open>float\<close> arithmetic of the screen layout: finite binary32 values as rational numbers,
  every operation rounded to nearest (ties to even) by \<open>f32\<close>, gradual underflow included.
  Overflow and NaN do not arise in the layout code (positions lie in the unit interval).
  What the layout relies on is that rounding is monotone and keeps representable values;
  these are the laws of the locale \<open>rounding\<close>, interpreted on \<open>f32\<close>.
\<close>

section \<open>Rounding\<close>

definition round_even :: "rat \<Rightarrow> int" where
  "round_even x =
     (let n = \<lfloor>x\<rfloor>; d = x - of_int n in
      if d < 1/2 then n else if 1/2 < d then n + 1 else if even n then n else n + 1)"

lemma round_even_of_int [simp]: "round_even (of_int n) = n"
  by (simp add: round_even_def)

lemma round_even_numeral [simp]: "round_even (numeral k) = numeral k"
  using round_even_of_int [of "numeral k"] by simp

lemma round_even_mono: "x \<le> y \<Longrightarrow> round_even x \<le> round_even y"
proof -
  assume le: "x \<le> y"
  then have fl: "\<lfloor>x\<rfloor> \<le> \<lfloor>y\<rfloor>" by (rule floor_mono)
  have up: "round_even x \<le> \<lfloor>x\<rfloor> + 1" and down: "\<lfloor>y\<rfloor> \<le> round_even y"
    by (simp_all add: round_even_def Let_def)
  show ?thesis
  proof (cases "\<lfloor>x\<rfloor> = \<lfloor>y\<rfloor>")
    case True
    then show ?thesis using le by (auto simp: round_even_def Let_def)
  next
    case False
    then show ?thesis using fl up down by linarith
  qed
qed

text \<open>
  \<open>fl_scaled p y\<close> rounds a non-negative number counted in units of the smallest positive
  number of a format with \<open>p + 1\<close> bits of precision: below \<open>2^(p + 1)\<close> units to the nearest
  integer, above it with the unit doubled. \<open>fl p e\<close> is the format whose smallest positive number
  is \<open>2^(- e)\<close>; \<open>f32\<close> is \<^verbatim>\<open>float\<close>, \<open>f64\<close> is \<^verbatim>\<open>double\<close>.
\<close>

function fl_scaled :: "nat \<Rightarrow> rat \<Rightarrow> rat" where
  "fl_scaled p y = (if y < 2 ^ Suc p then of_int (round_even y) else 2 * fl_scaled p (y / 2))"
  by pat_completeness auto
termination
proof (relation "measure (\<lambda>(p, y). nat \<lfloor>y\<rfloor>)")
  fix p :: nat and y :: rat
  assume "\<not> y < 2 ^ Suc p"
  moreover have "(2 :: rat) \<le> 2 ^ Suc p" by simp
  ultimately have y: "2 \<le> y" by linarith
  then have "\<lfloor>y / 2 + 1\<rfloor> \<le> \<lfloor>y\<rfloor>" by (intro floor_mono) simp
  moreover have "0 < \<lfloor>y\<rfloor>" using y by simp
  ultimately show "((p, y / 2), p, y) \<in> measure (\<lambda>(p, y). nat \<lfloor>y\<rfloor>)" by simp
qed simp

declare fl_scaled.simps [simp del]

definition fl :: "nat \<Rightarrow> nat \<Rightarrow> rat \<Rightarrow> rat" where
  "fl p e x = (if 0 \<le> x then fl_scaled p (x * 2 ^ e) / 2 ^ e else - (fl_scaled p (- x * 2 ^ e) / 2 ^ e))"

definition f32 :: "rat \<Rightarrow> rat" where
  "f32 = fl 23 149"

definition f64 :: "rat \<Rightarrow> rat" where
  "f64 = fl 52 1074"

lemma fl_scaled_lower:
  "(2 ^ p \<le> y \<longrightarrow> 2 ^ p \<le> fl_scaled p y) \<and> (2 ^ Suc p \<le> y \<longrightarrow> 2 ^ Suc p \<le> fl_scaled p y)"
proof (induction p y rule: fl_scaled.induct)
  case (1 p y)
  show ?case
  proof (cases "y < 2 ^ Suc p")
    case True
    have "2 ^ p \<le> round_even y" if "2 ^ p \<le> y"
      using round_even_mono [of "of_int (2 ^ p)" y] round_even_of_int [of "2 ^ p"] that by simp
    then have "2 ^ p \<le> y \<longrightarrow> (2 ^ p :: rat) \<le> of_int (round_even y)"
      by (metis of_int_le_iff of_int_numeral of_int_power)
    with True show ?thesis by (simp add: fl_scaled.simps [of p y])
  next
    case False
    then have "2 ^ p \<le> fl_scaled p (y / 2)" using 1 by simp
    moreover have "(0 :: rat) < 2 ^ p" by simp
    ultimately have "2 ^ p \<le> 2 * fl_scaled p (y / 2)" "2 ^ Suc p \<le> 2 * fl_scaled p (y / 2)"
      by (linarith, simp)
    with False show ?thesis by (simp add: fl_scaled.simps [of p y] del: power_Suc)
  qed
qed

lemma fl_scaled_mono: "y \<le> z \<Longrightarrow> fl_scaled p y \<le> fl_scaled p z"
proof (induction p y arbitrary: z rule: fl_scaled.induct)
  case (1 p y)
  consider "z < 2 ^ Suc p" | "y < 2 ^ Suc p" "2 ^ Suc p \<le> z" | "2 ^ Suc p \<le> y" by linarith
  then show ?case
  proof cases
    case 1
    with \<open>y \<le> z\<close> show ?thesis
      by (simp add: fl_scaled.simps [of p y] fl_scaled.simps [of p z] round_even_mono del: power_Suc)
  next
    case 2
    have "round_even y \<le> 2 ^ Suc p"
      using round_even_mono [of y "of_int (2 ^ Suc p)"] round_even_of_int [of "2 ^ Suc p"] 2 by simp
    then have "of_int (round_even y) \<le> (2 ^ Suc p :: rat)"
      by (metis of_int_le_iff of_int_numeral of_int_power)
    also have "\<dots> \<le> fl_scaled p z" using 2(2) fl_scaled_lower [of p z] by blast
    finally show ?thesis using 2(1) by (simp add: fl_scaled.simps [of p y] del: power_Suc)
  next
    case 3
    with 1 have "fl_scaled p (y / 2) \<le> fl_scaled p (z / 2)" by simp
    with 3 \<open>y \<le> z\<close> show ?thesis
      by (simp add: fl_scaled.simps [of p y] fl_scaled.simps [of p z] del: power_Suc)
  qed
qed

lemma fl_scaled_nonneg: "0 \<le> y \<Longrightarrow> 0 \<le> fl_scaled p y"
  using fl_scaled_mono [of 0 y p] by (simp add: fl_scaled.simps [of p 0] round_even_def)

lemma fl_scaled_exact:
  "\<bar>m\<bar> < 2 ^ Suc p \<Longrightarrow> 0 \<le> m \<Longrightarrow> fl_scaled p (of_int m * 2 ^ e) = of_int m * 2 ^ e"
proof (induction e)
  case 0
  then have "(of_int m :: rat) < 2 ^ Suc p"
    by (metis abs_of_nonneg of_int_less_iff of_int_numeral of_int_power)
  then show ?case by (simp add: fl_scaled.simps [of p "of_int m"] del: power_Suc)
next
  case (Suc e)
  show ?case
  proof (cases "of_int m * 2 ^ Suc e < (2 ^ Suc p :: rat)")
    case True
    have "of_int m * 2 ^ Suc e = (of_int (m * 2 ^ Suc e) :: rat)" by simp
    with True show ?thesis by (metis fl_scaled.simps round_even_of_int)
  next
    case False
    then show ?thesis using Suc by (simp add: fl_scaled.simps [of p "of_int m * (2 * 2 ^ e)"])
  qed
qed

text \<open>The error: half a unit, or half a unit in the last place.\<close>

lemma round_even_error: "\<bar>of_int (round_even y) - y\<bar> \<le> 1 / 2"
proof -
  have "of_int \<lfloor>y\<rfloor> \<le> y" "y < of_int \<lfloor>y\<rfloor> + 1" by linarith+
  then show ?thesis by (auto simp: round_even_def Let_def abs_le_iff)
qed

lemma fl_scaled_error: "0 \<le> y \<Longrightarrow> \<bar>fl_scaled p y - y\<bar> \<le> max (1 / 2) (y / 2 ^ Suc p)"
proof (induction p y rule: fl_scaled.induct)
  case (1 p y)
  show ?case
  proof (cases "y < 2 ^ Suc p")
    case True
    then have "fl_scaled p y = of_int (round_even y)" by (simp add: fl_scaled.simps [of p y])
    with round_even_error [of y] show ?thesis by (metis max.coboundedI1)
  next
    case False
    then have one: "1 \<le> y / 2 ^ Suc p" by (simp add: le_divide_eq del: power_Suc)
    have "\<bar>fl_scaled p (y / 2) - y / 2\<bar> \<le> max (1 / 2) (y / 2 / 2 ^ Suc p)"
      using 1(1) [OF False] 1(2) by simp
    then have "\<bar>2 * fl_scaled p (y / 2) - y\<bar> \<le> 2 * max (1 / 2) (y / 2 / 2 ^ Suc p)" by linarith
    also have "\<dots> \<le> y / 2 ^ Suc p" using one by (simp add: max_def del: power_Suc)
    finally show ?thesis using False by (simp add: fl_scaled.simps [of p y] del: power_Suc)
  qed
qed

section \<open>Formats\<close>

lemma fl_exact:
  assumes "\<bar>m\<bar> < 2 ^ Suc p" and "x * 2 ^ e = of_int m * 2 ^ k"
  shows "fl p e x = x"
proof (cases "0 \<le> m")
  case True
  then have "0 \<le> x * 2 ^ e" unfolding assms(2) by simp
  then have "0 \<le> x" by (metis mult_less_0_iff not_le zero_less_numeral zero_less_power)
  moreover have "fl_scaled p (x * 2 ^ e) = x * 2 ^ e"
    unfolding assms(2) by (rule fl_scaled_exact [OF assms(1) True])
  ultimately show ?thesis by (simp add: fl_def)
next
  case False
  then have "x * 2 ^ e < 0" unfolding assms(2) by (simp add: mult_less_0_iff)
  then have "x < 0" by (simp add: mult_less_0_iff)
  moreover have "fl_scaled p (of_int (- m) * 2 ^ k) = of_int (- m) * 2 ^ k"
    using assms(1) False by (intro fl_scaled_exact) auto
  then have "fl_scaled p (- x * 2 ^ e) = - x * 2 ^ e" using assms(2) by simp
  ultimately show ?thesis by (simp add: fl_def)
qed

lemma fl_mono: "x \<le> y \<Longrightarrow> fl p e x \<le> fl p e y"
proof -
  assume le: "x \<le> y"
  have nn: "0 \<le> fl p e z" if "0 \<le> z" for z using that by (simp add: fl_def fl_scaled_nonneg)
  have np: "fl p e z \<le> 0" if "z < 0" for z
    using that fl_scaled_nonneg [of "- z * 2 ^ e" p] by (simp add: fl_def mult_nonpos_nonneg)
  consider "0 \<le> x" | "x < 0" "0 \<le> y" | "y < 0" using le by linarith
  then show ?thesis
  proof cases
    case 1
    then show ?thesis using le by (simp add: fl_def divide_right_mono fl_scaled_mono)
  next
    case 2
    then show ?thesis using nn np by (meson order_trans)
  next
    case 3
    then have "fl_scaled p (- y * 2 ^ e) \<le> fl_scaled p (- x * 2 ^ e)"
      using le by (intro fl_scaled_mono) simp
    then show ?thesis using 3 le by (simp add: fl_def divide_right_mono)
  qed
qed

lemma fl_error: "0 \<le> x \<Longrightarrow> \<bar>fl p e x - x\<bar> \<le> max (1 / 2 ^ Suc e) (x / 2 ^ Suc p)"
proof -
  assume "0 \<le> x"
  then have "\<bar>fl_scaled p (x * 2 ^ e) - x * 2 ^ e\<bar> \<le> max (1 / 2) (x * 2 ^ e / 2 ^ Suc p)"
    by (intro fl_scaled_error) simp
  then have "\<bar>fl_scaled p (x * 2 ^ e) - x * 2 ^ e\<bar> / 2 ^ e \<le> max (1 / 2) (x * 2 ^ e / 2 ^ Suc p) / 2 ^ e"
    by (intro divide_right_mono) simp_all
  moreover have "\<bar>fl_scaled p (x * 2 ^ e) - x * 2 ^ e\<bar> / 2 ^ e = \<bar>fl_scaled p (x * 2 ^ e) / 2 ^ e - x\<bar>"
  proof -
    have "fl_scaled p (x * 2 ^ e) / 2 ^ e - x = (fl_scaled p (x * 2 ^ e) - x * 2 ^ e) / 2 ^ e"
      by (simp add: diff_divide_distrib)
    then show ?thesis by (simp add: abs_divide)
  qed
  moreover have "max (1 / 2) (x * 2 ^ e / 2 ^ Suc p) / 2 ^ e = max (1 / 2 ^ Suc e) (x / 2 ^ Suc p)"
    by (simp add: max_def divide_le_cancel field_simps)
  ultimately show ?thesis using \<open>0 \<le> x\<close> by (simp add: fl_def)
qed

text \<open>The numbers binary32 represents in the range of the layout.\<close>

definition is_f32 :: "rat \<Rightarrow> bool" where
  "is_f32 x \<longleftrightarrow> (\<exists>m e. \<bar>m\<bar> < 2 ^ 24 \<and> e \<le> 253 \<and> x = of_int m * 2 ^ e / 2 ^ 149)"

lemma f32_exact: "is_f32 x \<Longrightarrow> f32 x = x"
  unfolding f32_def is_f32_def by (elim exE conjE, rule fl_exact [of _ 23]) simp_all

lemma f32_mono: "x \<le> y \<Longrightarrow> f32 x \<le> f32 y"
  by (simp add: f32_def fl_mono)

lemma is_f32_dyadic: "\<bar>m\<bar> < 2 ^ 24 \<Longrightarrow> k \<le> 149 \<Longrightarrow> is_f32 (of_int m / 2 ^ k)"
  unfolding is_f32_def
  by (rule exI [of _ m], rule exI [of _ "149 - k"]) (simp add: power_diff)

lemma is_f32_0 [simp]: "is_f32 0" and is_f32_1 [simp]: "is_f32 1" and is_f32_half [simp]: "is_f32 (1/2)"
  using is_f32_dyadic [of 0 0] is_f32_dyadic [of 1 0] is_f32_dyadic [of 1 1] by simp_all

lemma is_f32_numeral [simp]: "(numeral k :: int) < 2 ^ 24 \<Longrightarrow> is_f32 (numeral k)"
  using is_f32_dyadic [of "numeral k" 0] by simp

section \<open>What the layout relies on\<close>

locale rounding =
  fixes fl :: "rat \<Rightarrow> rat" and representable :: "rat \<Rightarrow> bool"
  assumes mono: "x \<le> y \<Longrightarrow> fl x \<le> fl y"
    and exact: "representable x \<Longrightarrow> fl x = x"
    and zero: "representable 0" and one: "representable 1"
begin

lemma nonneg: "0 \<le> x \<Longrightarrow> 0 \<le> fl x"
  using mono [of 0 x] exact [OF zero] by simp

lemma le_one: "x \<le> 1 \<Longrightarrow> fl x \<le> 1"
  using mono [of x 1] exact [OF one] by simp

text \<open>\<open>(x - a) / (b - a)\<close> of a position of an interval is a position of the unit interval.\<close>

lemma fraction_bounds:
  assumes "a \<le> x" and "x \<le> b" and "0 < fl (b - a)"
  shows "0 \<le> fl (fl (x - a) / fl (b - a))" and "fl (fl (x - a) / fl (b - a)) \<le> 1"
proof -
  have "0 \<le> fl (x - a)" using assms by (intro nonneg) simp
  moreover have "fl (x - a) \<le> fl (b - a)" using assms by (intro mono) simp
  ultimately have "0 \<le> fl (x - a) / fl (b - a)" "fl (x - a) / fl (b - a) \<le> 1"
    using assms(3) by simp_all
  then show "0 \<le> fl (fl (x - a) / fl (b - a))" "fl (fl (x - a) / fl (b - a)) \<le> 1"
    by (simp_all add: nonneg le_one)
qed

text \<open>\<open>t * (b - a) + a\<close> does not leave the interval at its lower end.\<close>

lemma scale_lower:
  assumes "0 \<le> t" and "a \<le> b" and "representable a"
  shows "a \<le> fl (fl (t * fl (b - a)) + a)"
proof -
  have "0 \<le> fl (t * fl (b - a))" using assms by (intro nonneg mult_nonneg_nonneg) simp_all
  then have "a \<le> fl (t * fl (b - a)) + a" by simp
  from mono [OF this] show ?thesis using exact [OF assms(3)] by simp
qed

lemma scale_upper:
  assumes "0 \<le> t" and "t \<le> 1" and "a \<le> b"
  shows "fl (fl (t * fl (b - a)) + a) \<le> fl (fl (fl (b - a)) + a)"
  using assms nonneg [of "b - a"] by (intro mono add_right_mono mult_left_le_one_le) simp_all

lemma scale_unit:
  assumes "0 \<le> t" and "t \<le> 1"
  shows "fl (fl (t * fl (1 - 0)) + 0) \<le> 1"
  using assms by (simp add: exact [OF one] le_one)

end

interpretation f32: rounding f32 is_f32
  by unfold_locales (simp_all add: f32_mono f32_exact)

lemma f32_diff_pos:
  assumes "is_f32 a" and "is_f32 b" and "a < b"
  shows "0 < f32 (b - a)"
proof -
  obtain m :: int and e :: nat where m: "a = of_int m * 2 ^ e / 2 ^ 149"
    using assms(1) by (auto simp: is_f32_def)
  obtain n :: int and d :: nat where n: "b = of_int n * 2 ^ d / 2 ^ 149"
    using assms(2) by (auto simp: is_f32_def)
  let ?k = "n * 2 ^ d - m * 2 ^ e"
  have eq: "(b - a) * 2 ^ 149 = of_int ?k" unfolding m n by (simp add: diff_divide_distrib [symmetric])
  then have "0 < (of_int ?k :: rat)" using assms(3) by (metis diff_gt_0_iff_gt mult_pos_pos zero_less_numeral zero_less_power)
  then have "1 \<le> ?k" by (simp only: of_int_0_less_iff)
  then have "(1 :: rat) \<le> of_int ?k" by linarith
  then have "fl_scaled 23 1 \<le> fl_scaled 23 ((b - a) * 2 ^ 149)" unfolding eq by (rule fl_scaled_mono)
  moreover have "fl_scaled 23 1 = 1" using fl_scaled_exact [of 1 23 0] by simp
  ultimately have "0 < fl_scaled 23 ((b - a) * 2 ^ 149)" by linarith
  with assms(3) show ?thesis by (simp add: f32_def fl_def)
qed

text \<open>The numbers of binary64 that the program reads and compares.\<close>

definition is_f64 :: "rat \<Rightarrow> bool" where
  "is_f64 x \<longleftrightarrow> (\<exists>m k. \<bar>m\<bar> < 2 ^ 53 \<and> k \<le> 2045 \<and> x = of_int m * 2 ^ k / 2 ^ 1074)"

lemma f64_exact: "is_f64 x \<Longrightarrow> f64 x = x"
  unfolding f64_def is_f64_def by (elim exE conjE, rule fl_exact [of _ 52]) simp_all

lemma is_f64_int: "\<bar>m\<bar> < 2 ^ 53 \<Longrightarrow> is_f64 (of_int m)"
  unfolding is_f64_def by (rule exI [of _ m], rule exI [of _ 1074]) simp

interpretation f64: rounding f64 is_f64
  using is_f64_int [of 0] is_f64_int [of 1]
  by unfold_locales (simp_all add: f64_exact fl_mono [of _ _ 52 1074, folded f64_def])

end
