(* ===== verification/Screen_Link.thy ===== *)
theory Screen_Link
  imports Strings Floats Prelude
begin

text \<open>
  Screen edges and the links of one screen: \<^verbatim>\<open>Config::CellEdge\<close> and \<^verbatim>\<open>Config::Cell\<close> of
  \<^verbatim>\<open>src/lib/server/Config.cpp\<close>. A cell maps intervals of its four edges to intervals of
  the edges of other screens; the map is ordered by side and start of interval only, and the
  cell keeps the intervals of one side apart. A failed assertion of the source is \<^const>\<open>None\<close>.
\<close>

section \<open>Directions and intervals\<close>

datatype direction = NoDirection | Left | Right | Top | Bottom

fun dir_num :: "direction \<Rightarrow> nat" where
  "dir_num NoDirection = 0"
| "dir_num Left = 1"
| "dir_num Right = 2"
| "dir_num Top = 3"
| "dir_num Bottom = 4"

lemma dir_num_inject [simp]: "dir_num a = dir_num b \<longleftrightarrow> a = b"
  by (cases a; cases b) simp_all

instantiation direction :: linorder
begin

definition less_eq_direction :: "direction \<Rightarrow> direction \<Rightarrow> bool" where
  "less_eq_direction a b \<longleftrightarrow> dir_num a \<le> dir_num b"

definition less_direction :: "direction \<Rightarrow> direction \<Rightarrow> bool" where
  "less_direction a b \<longleftrightarrow> dir_num a < dir_num b"

instance
  by standard (auto simp: less_eq_direction_def less_direction_def)

end

type_synonym interval = "rat \<times> rat"
type_synonym option_id = u32
type_synonym option_value = u32
type_synonym screen_options = "(option_id, option_value) om"

section \<open>Edges\<close>

record cell_edge =
  ce_name :: string
  ce_side :: direction
  ce_interval :: interval

definition interval_ok :: "interval \<Rightarrow> bool" where
  "interval_ok i \<longleftrightarrow> 0 \<le> fst i \<and> snd i \<le> 1 \<and> fst i < snd i"

definition edge_init :: "string \<Rightarrow> direction \<Rightarrow> interval \<Rightarrow> cell_edge option" where
  "edge_init name side i =
     (if side = NoDirection then None
      else Some \<lparr>ce_name = name, ce_side = side, ce_interval = i\<rparr>)"

definition edge_at :: "direction \<Rightarrow> rat \<Rightarrow> cell_edge option" where
  "edge_at side position = edge_init [] side (position, position)"

definition mk_edge :: "string \<Rightarrow> direction \<Rightarrow> interval \<Rightarrow> cell_edge option" where
  "mk_edge name side i = (if interval_ok i then edge_init name side i else None)"

definition edge_set_name :: "string \<Rightarrow> cell_edge \<Rightarrow> cell_edge" where
  "edge_set_name n e = e\<lparr>ce_name := n\<rparr>"

definition edge_overlaps :: "cell_edge \<Rightarrow> cell_edge \<Rightarrow> bool" where
  "edge_overlaps e f =
     (let (x1, x2) = ce_interval e; (y1, y2) = ce_interval f in
      ce_side e = ce_side f \<and>
      ((y1 \<le> x1 \<and> x1 < y2) \<or> (y1 < x2 \<and> x2 \<le> y2) \<or>
       (x1 \<le> y1 \<and> y1 < x2) \<or> (x1 < y2 \<and> y2 \<le> x2)))"

definition edge_is_inside :: "cell_edge \<Rightarrow> rat \<Rightarrow> bool" where
  "edge_is_inside e x \<longleftrightarrow> fst (ce_interval e) \<le> x \<and> x < snd (ce_interval e)"

definition edge_transform :: "cell_edge \<Rightarrow> rat \<Rightarrow> rat" where
  "edge_transform e x =
     (let (a, b) = ce_interval e in f32 (f32 (x - a) / f32 (b - a)))"

definition edge_inverse_transform :: "cell_edge \<Rightarrow> rat \<Rightarrow> rat" where
  "edge_inverse_transform e x =
     (let (a, b) = ce_interval e in f32 (f32 (x * f32 (b - a)) + a))"

definition edge_less :: "cell_edge \<Rightarrow> cell_edge \<Rightarrow> bool" where
  "edge_less e f =
     (if ce_side e < ce_side f then True
      else if ce_side f < ce_side e then False
      else fst (ce_interval e) < fst (ce_interval f))"

definition edge_eq :: "cell_edge \<Rightarrow> cell_edge \<Rightarrow> bool" where
  "edge_eq e f \<longleftrightarrow> ce_side e = ce_side f \<and> ce_interval e = ce_interval f"

interpretation edges: weak_order edge_less
  by unfold_locales (auto simp: edge_less_def split: if_splits)

lemma same_key_edge:
  "same_key edge_less e f \<longleftrightarrow>
     ce_side e = ce_side f \<and> fst (ce_interval e) = fst (ce_interval f)"
  by (auto simp: same_key_def edge_less_def split: if_splits)

lemma edge_overlaps_iff:
  assumes "interval_ok (ce_interval e)" and "interval_ok (ce_interval f)"
  shows "edge_overlaps e f \<longleftrightarrow> ce_side e = ce_side f \<and>
    fst (ce_interval e) < snd (ce_interval f) \<and> fst (ce_interval f) < snd (ce_interval e)"
  using assms by (auto simp: edge_overlaps_def interval_ok_def case_prod_unfold Let_def)

lemma edge_overlaps_sym: "edge_overlaps e f \<longleftrightarrow> edge_overlaps f e"
  by (auto simp: edge_overlaps_def case_prod_unfold Let_def)

section \<open>Cells\<close>

record cell =
  neighbors :: "(cell_edge, cell_edge) om"
  cell_options :: screen_options

definition empty_cell :: cell where
  "empty_cell = \<lparr>neighbors = [], cell_options = []\<rparr>"

definition cell_has_edge :: "cell_edge \<Rightarrow> cell \<Rightarrow> bool" where
  "cell_has_edge e c =
     (case om_find edge_less e (neighbors c) of None \<Rightarrow> False | Some (k, _) \<Rightarrow> edge_eq k e)"

definition cell_overlaps :: "cell_edge \<Rightarrow> cell \<Rightarrow> bool" where
  "cell_overlaps e c =
     (let before = om_upto edge_less e (neighbors c); from = om_above edge_less e (neighbors c) in
      (from \<noteq> [] \<and> edge_overlaps (fst (hd from)) e) \<or>
      (before \<noteq> [] \<and> edge_overlaps (fst (last before)) e))"

definition cell_add :: "cell_edge \<Rightarrow> cell_edge \<Rightarrow> cell \<Rightarrow> bool \<times> cell" where
  "cell_add src dst c =
     (if \<not> cell_has_edge src c \<and> cell_overlaps src c then (False, c)
      else (True, c\<lparr>neighbors :=
              om_emplace edge_less src dst (om_erase edge_less src (neighbors c))\<rparr>))"

definition cell_remove_side :: "direction \<Rightarrow> cell \<Rightarrow> cell" where
  "cell_remove_side side c = c\<lparr>neighbors := filter (\<lambda>(s, d). ce_side s \<noteq> side) (neighbors c)\<rparr>"

fun remove_first :: "('a \<Rightarrow> bool) \<Rightarrow> 'a list \<Rightarrow> 'a list" where
  "remove_first P [] = []"
| "remove_first P (x # xs) = (if P x then xs else x # remove_first P xs)"

definition cell_remove_at :: "direction \<Rightarrow> rat \<Rightarrow> cell \<Rightarrow> cell" where
  "cell_remove_at side position c =
     c\<lparr>neighbors :=
        remove_first (\<lambda>(s, d). ce_side s = side \<and> edge_is_inside s position) (neighbors c)\<rparr>"

text \<open>\<open>matches\<close> is the comparison with a canonical name (\<^verbatim>\<open>Config::Name\<close>).\<close>

definition cell_remove_name :: "(string \<Rightarrow> bool) \<Rightarrow> cell \<Rightarrow> cell" where
  "cell_remove_name matches c =
     c\<lparr>neighbors := filter (\<lambda>(s, d). \<not> matches (ce_name d)) (neighbors c)\<rparr>"

definition cell_rename :: "(string \<Rightarrow> bool) \<Rightarrow> string \<Rightarrow> cell \<Rightarrow> cell" where
  "cell_rename matches new c =
     c\<lparr>neighbors :=
        map (\<lambda>(s, d). (s, if matches (ce_name d) then edge_set_name new d else d)) (neighbors c)\<rparr>"

definition cell_get_link ::
    "direction \<Rightarrow> rat \<Rightarrow> cell \<Rightarrow> (cell_edge \<times> cell_edge) option option" where
  "cell_get_link side position c =
     (case edge_at side position of
        None \<Rightarrow> None
      | Some e \<Rightarrow>
          (let before = om_upto edge_less e (neighbors c) in
           if before = [] then Some None
           else (let (src, dst) = last before in
                 if ce_side src = side \<and> edge_is_inside src position
                 then Some (Some (src, dst)) else Some None)))"

fun links_eq :: "(cell_edge, cell_edge) om \<Rightarrow> (cell_edge, cell_edge) om \<Rightarrow> bool" where
  "links_eq ((s, d) # m) ((s', d') # m') =
     (edge_eq s s' \<and> edge_eq d d' \<and> caseless_equal (ce_name d) (ce_name d') \<and> links_eq m m')"
| "links_eq m m' = True"

definition cell_eq :: "cell \<Rightarrow> cell \<Rightarrow> bool" where
  "cell_eq c c' \<longleftrightarrow>
     cell_options c = cell_options c' \<and>
     length (neighbors c) = length (neighbors c') \<and>
     links_eq (neighbors c) (neighbors c')"

section \<open>Invariant\<close>

text \<open>Intervals of a side are in order and apart: each ends where the next may begin.\<close>

definition edge_ok :: "cell_edge \<Rightarrow> bool" where
  "edge_ok e \<longleftrightarrow> ce_side e \<noteq> NoDirection \<and> interval_ok (ce_interval e)"

definition cell_inv :: "cell \<Rightarrow> bool" where
  "cell_inv c \<longleftrightarrow>
     om_sorted edge_less (neighbors c) \<and> om_sorted (<) (cell_options c) \<and>
     (\<forall>(s, d)\<in>set (neighbors c). edge_ok s \<and> edge_ok d) \<and>
     (\<forall>(s, d)\<in>set (neighbors c). \<forall>(s', d')\<in>set (neighbors c).
        edge_overlaps s s' \<longrightarrow> (s, d) = (s', d'))"

lemma cell_inv_sorted: "cell_inv c \<Longrightarrow> om_sorted edge_less (neighbors c)"
  and cell_inv_edge: "cell_inv c \<Longrightarrow> (s, d) \<in> set (neighbors c) \<Longrightarrow> edge_ok s \<and> edge_ok d"
  and cell_inv_apart: "cell_inv c \<Longrightarrow> (s, d) \<in> set (neighbors c) \<Longrightarrow>
    (s', d') \<in> set (neighbors c) \<Longrightarrow> edge_overlaps s s' \<Longrightarrow> s = s' \<and> d = d'"
  by (fastforce simp: cell_inv_def)+

lemma cell_invI:
  assumes "om_sorted edge_less (neighbors c)" and "om_sorted (<) (cell_options c)"
    and "\<And>s d. (s, d) \<in> set (neighbors c) \<Longrightarrow> edge_ok s \<and> edge_ok d"
    and "\<And>s d s' d'. (s, d) \<in> set (neighbors c) \<Longrightarrow> (s', d') \<in> set (neighbors c) \<Longrightarrow>
      edge_overlaps s s' \<Longrightarrow> s = s' \<and> d = d'"
  shows "cell_inv c"
  unfolding cell_inv_def using assms by fast

lemma empty_cell_inv [simp]: "cell_inv empty_cell"
  by (simp add: cell_inv_def empty_cell_def)

lemma mk_edge_ok: "mk_edge n side i = Some e \<Longrightarrow>
    edge_ok e \<and> ce_name e = n \<and> ce_side e = side \<and> ce_interval e = i"
  by (auto simp: mk_edge_def edge_init_def edge_ok_def split: if_splits)

text \<open>The two entries the source looks at are enough to find an overlap.\<close>

lemma cell_overlaps_iff:
  assumes inv: "cell_inv c" and e: "edge_ok e"
  shows "cell_overlaps e c \<longleftrightarrow> (\<exists>(s, d)\<in>set (neighbors c). edge_overlaps s e)"
proof
  assume "cell_overlaps e c"
  then show "\<exists>(s, d)\<in>set (neighbors c). edge_overlaps s e"
    unfolding cell_overlaps_def Let_def
    using om_split [of edge_less e "neighbors c"] hd_in_set last_in_set
    by (metis (mono_tags, lifting) Un_iff case_prod_unfold set_append)
next
  let ?m = "neighbors c"
  note sorted = cell_inv_sorted [OF inv]
  assume "\<exists>(s, d)\<in>set ?m. edge_overlaps s e"
  then obtain s d where sd: "(s, d) \<in> set ?m" "edge_overlaps s e" by blast
  have s: "edge_ok s" using inv sd cell_inv_edge by blast
  have sep: "ce_side s = ce_side e" "fst (ce_interval s) < snd (ce_interval e)"
    "fst (ce_interval e) < snd (ce_interval s)"
    using sd(2) edge_overlaps_iff s e by (auto simp: edge_ok_def)
  show "cell_overlaps e c"
  proof (cases "edge_less e s")
    case True
    let ?h = "hd (om_above edge_less e ?m)"
    have ne: "om_above edge_less e ?m \<noteq> []"
      using sd True edges.above_member [OF sorted, of "(s, d)" e] by auto
    then have h: "?h \<in> set ?m" "edge_less e (fst ?h)"
      using edges.above_member [OF sorted, of ?h e] by auto
    then have hok: "edge_ok (fst ?h)" using inv cell_inv_edge by (metis prod.collapse)
    have "?h = (s, d) \<or> edge_less (fst ?h) s"
      using edges.above_hd [OF sorted sd(1), of e] True by auto
    then have "edge_overlaps (fst ?h) e"
      using sd(2) h(2) sep hok e s
      by (auto simp: edge_overlaps_iff edge_ok_def interval_ok_def edge_less_def split: if_splits)
    with ne show ?thesis by (simp add: cell_overlaps_def)
  next
    case False
    let ?l = "last (om_upto edge_less e ?m)"
    have ne: "om_upto edge_less e ?m \<noteq> []"
      using sd False edges.upto_member [OF sorted, of "(s, d)" e] by auto
    then have l: "?l \<in> set ?m" "\<not> edge_less e (fst ?l)"
      using edges.upto_member [OF sorted, of ?l e] by auto
    then have lok: "edge_ok (fst ?l)" using inv cell_inv_edge by (metis prod.collapse)
    have "?l = (s, d) \<or> edge_less s (fst ?l)"
      using edges.upto_last [OF sorted ne sd(1)] False by auto
    moreover have "\<not> edge_less s (fst ?l)"
    proof
      assume less: "edge_less s (fst ?l)"
      with sep l(2) have side: "ce_side (fst ?l) = ce_side s"
        "fst (ce_interval s) < fst (ce_interval (fst ?l))"
        "fst (ce_interval (fst ?l)) \<le> fst (ce_interval e)"
        by (auto simp: edge_less_def split: if_splits)
      then have "edge_overlaps s (fst ?l)"
        using s lok sep by (auto simp: edge_overlaps_iff edge_ok_def interval_ok_def)
      then have "s = fst ?l" using cell_inv_apart [OF inv sd(1), of "fst ?l" "snd ?l"] l(1) by simp
      with side show False by simp
    qed
    ultimately have "?l = (s, d)" by blast
    with sd(2) ne show ?thesis by (simp add: cell_overlaps_def)
  qed
qed

section \<open>Every operation keeps the intervals apart\<close>

lemma cell_has_edge_iff:
  assumes "cell_inv c"
  shows "cell_has_edge e c \<longleftrightarrow> (\<exists>s d. (s, d) \<in> set (neighbors c) \<and> edge_eq s e)"
proof
  assume "cell_has_edge e c"
  then obtain s d where "om_find edge_less e (neighbors c) = Some (s, d)" "edge_eq s e"
    by (auto simp: cell_has_edge_def split: option.splits)
  then show "\<exists>s d. (s, d) \<in> set (neighbors c) \<and> edge_eq s e"
    using om_find_mem by fastforce
next
  assume "\<exists>s d. (s, d) \<in> set (neighbors c) \<and> edge_eq s e"
  then obtain s d where sd: "(s, d) \<in> set (neighbors c)" "edge_eq s e" by blast
  then have "same_key edge_less e s" by (simp add: edge_eq_def same_key_edge)
  from edges.find_member [OF cell_inv_sorted [OF assms] sd(1) this] sd(2)
  show "cell_has_edge e c" by (simp add: cell_has_edge_def)
qed

lemma edge_eq_overlaps: "edge_eq s e \<Longrightarrow> edge_overlaps s f \<longleftrightarrow> edge_overlaps e f"
  by (simp add: edge_eq_def edge_overlaps_def)

lemma edge_ok_overlaps_self: "edge_ok e \<Longrightarrow> edge_eq s e \<Longrightarrow> edge_overlaps s e"
  by (auto simp: edge_ok_def edge_eq_def interval_ok_def edge_overlaps_iff)

text \<open>An edge is refused exactly when it overlaps an edge other than itself.\<close>

lemma cell_add_refused_iff:
  assumes inv: "cell_inv c" and src: "edge_ok src"
  shows "fst (cell_add src dst c) = False \<longleftrightarrow>
    (\<exists>s d. (s, d) \<in> set (neighbors c) \<and> edge_overlaps s src \<and> \<not> edge_eq s src)"
proof
  assume "fst (cell_add src dst c) = False"
  then have "\<not> cell_has_edge src c" "cell_overlaps src c" by (auto simp: cell_add_def split: if_splits)
  then show "\<exists>s d. (s, d) \<in> set (neighbors c) \<and> edge_overlaps s src \<and> \<not> edge_eq s src"
    using cell_overlaps_iff [OF inv src] cell_has_edge_iff [OF inv] by blast
next
  assume "\<exists>s d. (s, d) \<in> set (neighbors c) \<and> edge_overlaps s src \<and> \<not> edge_eq s src"
  then obtain s d where sd: "(s, d) \<in> set (neighbors c)" "edge_overlaps s src" "\<not> edge_eq s src"
    by blast
  have "\<not> cell_has_edge src c"
  proof
    assume "cell_has_edge src c"
    then obtain s' d' where s': "(s', d') \<in> set (neighbors c)" "edge_eq s' src"
      using cell_has_edge_iff [OF inv] by blast
    then have "edge_overlaps s s'" using sd(2) edge_eq_overlaps edge_overlaps_sym by blast
    then have "s = s'" using cell_inv_apart [OF inv sd(1) s'(1)] by simp
    with s'(2) sd(3) show False by simp
  qed
  moreover have "cell_overlaps src c" using cell_overlaps_iff [OF inv src] sd by blast
  ultimately show "fst (cell_add src dst c) = False" by (simp add: cell_add_def)
qed

lemma cell_add_set:
  assumes "cell_inv c" and "edge_ok src" and "cell_add src dst c = (True, c')"
  shows "set (neighbors c') = insert (src, dst) {(s, d) \<in> set (neighbors c). \<not> edge_eq s src}"
    and "\<forall>(s, d)\<in>set (neighbors c'). edge_overlaps s src \<longrightarrow> s = src \<and> d = dst"
proof -
  let ?m = "neighbors c"
  note sorted = cell_inv_sorted [OF assms(1)]
  have free: "edge_overlaps s src \<Longrightarrow> (s, d) \<in> set ?m \<Longrightarrow> edge_eq s src" for s d
    using cell_add_refused_iff [OF assms(1,2), of dst] assms(3) by auto
  have same: "edge_eq s src" if "same_key edge_less src s" "(s, d) \<in> set ?m" for s d
  proof -
    have "edge_ok s" using cell_inv_edge [OF assms(1) that(2)] by simp
    then have "edge_overlaps s src"
      using that(1) assms(2) by (auto simp: same_key_edge edge_overlaps_iff edge_ok_def interval_ok_def)
    then show ?thesis using free that(2) by blast
  qed
  have er: "om_erase edge_less src ?m = filter (\<lambda>e. \<not> edge_eq (fst e) src) ?m"
    unfolding edges.erase_filter [OF sorted]
    using same by (intro filter_cong) (auto simp: same_key_edge edge_eq_def)
  have none: "om_find edge_less src (om_erase edge_less src ?m) = None"
    using edges.find_erase [OF sorted] by simp
  have "neighbors c' = om_emplace edge_less src dst (om_erase edge_less src ?m)"
    using assms(3) by (auto simp: cell_add_def split: if_splits)
  then show set: "set (neighbors c') = insert (src, dst) {(s, d) \<in> set ?m. \<not> edge_eq s src}"
    using edges.emplace_set [OF edges.erase_sorted [OF sorted], of src dst src] none
    by (auto simp: er)
  show "\<forall>(s, d)\<in>set (neighbors c'). edge_overlaps s src \<longrightarrow> s = src \<and> d = dst"
    using set free by auto
qed

lemma cell_add_inv:
  assumes "cell_inv c" and "edge_ok src" and "edge_ok dst"
  shows "cell_inv (snd (cell_add src dst c))"
proof (cases "fst (cell_add src dst c)")
  case False
  then show ?thesis using assms(1) by (auto simp: cell_add_def split: if_splits)
next
  case True
  then obtain c' where c': "cell_add src dst c = (True, c')" by (metis prod.collapse)
  have "neighbors c' = om_emplace edge_less src dst (om_erase edge_less src (neighbors c))"
    and opts: "cell_options c' = cell_options c"
    using c' by (auto simp: cell_add_def split: if_splits)
  then have sorted: "om_sorted edge_less (neighbors c')"
    using cell_inv_sorted [OF assms(1)] by (simp add: edges.emplace_sorted edges.erase_sorted)
  note set = cell_add_set [OF assms(1,2) c']
  have old: "(s, d) = (src, dst) \<or> (s, d) \<in> set (neighbors c)" if "(s, d) \<in> set (neighbors c')" for s d
    using that set(1) by blast
  have new: "s = src \<and> d = dst" if "(s, d) \<in> set (neighbors c')" "edge_overlaps s src" for s d
    using that set(2) by blast
  have "cell_inv c'"
  proof (rule cell_invI)
    show "om_sorted (<) (cell_options c')" using assms(1) opts by (simp add: cell_inv_def)
    show "edge_ok s \<and> edge_ok d" if "(s, d) \<in> set (neighbors c')" for s d
      using old [OF that] cell_inv_edge [OF assms(1)] assms(2,3) by blast
    fix s d s' d'
    assume m: "(s, d) \<in> set (neighbors c')" "(s', d') \<in> set (neighbors c')" and o: "edge_overlaps s s'"
    consider "s' = src" "d' = dst" | "s = src" "d = dst" | "(s, d) \<in> set (neighbors c)" "(s', d') \<in> set (neighbors c)"
      using old [OF m(1)] old [OF m(2)] by blast
    then show "s = s' \<and> d = d'"
    proof cases
      case 1
      then show ?thesis using new [OF m(1)] o by simp
    next
      case 2
      then show ?thesis using new [OF m(2)] o edge_overlaps_sym [of s s'] by simp
    next
      case 3
      then show ?thesis using cell_inv_apart [OF assms(1) _ _ o] by simp
    qed
  qed (rule sorted)
  with c' show ?thesis by simp
qed

lemma cell_inv_sub:
  assumes "cell_inv c" and "om_sorted edge_less m" and "set m \<subseteq> set (neighbors c)"
  shows "cell_inv (c\<lparr>neighbors := m\<rparr>)"
proof (rule cell_invI; simp)
  show "om_sorted (<) (cell_options c)" using assms(1) by (simp add: cell_inv_def)
  show "edge_ok s \<and> edge_ok d" if "(s, d) \<in> set m" for s d
    using cell_inv_edge [OF assms(1), of s d] assms(3) that by blast
  show "s = s' \<and> d = d'" if "(s, d) \<in> set m" "(s', d') \<in> set m" "edge_overlaps s s'" for s d s' d'
    using cell_inv_apart [OF assms(1), of s d s' d'] assms(3) that by blast
qed (use assms in simp)

lemma remove_first_split:
  "remove_first P xs = xs \<or> (\<exists>ys x zs. xs = ys @ x # zs \<and> P x \<and> remove_first P xs = ys @ zs)"
proof (induction xs)
  case (Cons a xs)
  show ?case
  proof (cases "P a")
    case True
    then show ?thesis by (intro disjI2 exI [of _ "[]"]) simp
  next
    case False
    from Cons.IH show ?thesis
    proof (elim disjE exE conjE)
      fix ys x zs
      assume "xs = ys @ x # zs" "P x" "remove_first P xs = ys @ zs"
      with False show ?thesis by (intro disjI2 exI [of _ "a # ys"] exI [of _ x] exI [of _ zs]) simp
    qed (use False in simp)
  qed
qed simp

lemma cell_remove_side_inv: "cell_inv c \<Longrightarrow> cell_inv (cell_remove_side side c)"
  and cell_remove_name_inv: "cell_inv c \<Longrightarrow> cell_inv (cell_remove_name p c)"
  unfolding cell_remove_side_def cell_remove_name_def
  by (intro cell_inv_sub; auto intro: om_sorted_filter dest: cell_inv_sorted)+

lemma cell_remove_at_inv: "cell_inv c \<Longrightarrow> cell_inv (cell_remove_at side pos c)"
  unfolding cell_remove_at_def
proof (intro cell_inv_sub)
  let ?P = "\<lambda>(s, d :: cell_edge). ce_side s = side \<and> edge_is_inside s pos"
  assume inv: "cell_inv c"
  note cases = remove_first_split [of ?P "neighbors c"]
  show "set (remove_first ?P (neighbors c)) \<subseteq> set (neighbors c)" using cases by auto
  show "om_sorted edge_less (remove_first ?P (neighbors c))"
    using cases cell_inv_sorted [OF inv] by (auto simp: om_sorted_append om_sorted_Cons)
qed

lemma cell_rename_inv:
  assumes inv: "cell_inv c"
  shows "cell_inv (cell_rename p new c)"
proof -
  let ?f = "\<lambda>d. if p (ce_name d) then edge_set_name new d else d"
  have nb: "neighbors (cell_rename p new c) = map (\<lambda>(s, d). (s, ?f d)) (neighbors c)"
    by (simp add: cell_rename_def)
  have f: "edge_ok (?f d) \<longleftrightarrow> edge_ok d" for d by (simp add: edge_ok_def edge_set_name_def)
  show ?thesis
  proof (rule cell_invI)
    show "om_sorted edge_less (neighbors (cell_rename p new c))"
      using cell_inv_sorted [OF inv] unfolding nb by simp
    show "om_sorted (<) (cell_options (cell_rename p new c))"
      using inv by (simp add: cell_rename_def cell_inv_def)
    show "edge_ok s \<and> edge_ok d" if "(s, d) \<in> set (neighbors (cell_rename p new c))" for s d
      using that cell_inv_edge [OF inv] f unfolding nb by auto
    fix s d s' d'
    assume "(s, d) \<in> set (neighbors (cell_rename p new c))" "(s', d') \<in> set (neighbors (cell_rename p new c))"
      and o: "edge_overlaps s s'"
    then obtain e e' where "(s, e) \<in> set (neighbors c)" "d = ?f e" "(s', e') \<in> set (neighbors c)" "d' = ?f e'"
      unfolding nb by fastforce
    moreover from this have "s = s' \<and> e = e'" using cell_inv_apart [OF inv _ _ o] by blast
    ultimately show "s = s' \<and> d = d'" by simp
  qed
qed

section \<open>Looking up a link\<close>

lemma cell_get_link_iff:
  assumes inv: "cell_inv c" and side: "side \<noteq> NoDirection"
  shows "cell_get_link side pos c = Some (Some (src, dst)) \<longleftrightarrow>
    (src, dst) \<in> set (neighbors c) \<and> ce_side src = side \<and> edge_is_inside src pos"
proof -
  let ?m = "neighbors c"
  note sorted = cell_inv_sorted [OF inv]
  obtain e where e: "edge_at side pos = Some e" "ce_side e = side" "fst (ce_interval e) = pos"
    using side by (simp add: edge_at_def edge_init_def)
  let ?l = "last (om_upto edge_less e ?m)"
  show ?thesis
  proof
    assume "cell_get_link side pos c = Some (Some (src, dst))"
    then have "om_upto edge_less e ?m \<noteq> []" "?l = (src, dst)" "ce_side src = side \<and> edge_is_inside src pos"
      using e by (auto simp: cell_get_link_def Let_def split: if_splits prod.splits)
    then show "(src, dst) \<in> set ?m \<and> ce_side src = side \<and> edge_is_inside src pos"
      using edges.upto_member [OF sorted, of "(src, dst)" e] last_in_set by metis
  next
    assume r: "(src, dst) \<in> set ?m \<and> ce_side src = side \<and> edge_is_inside src pos"
    then have nl: "\<not> edge_less e src" using e by (auto simp: edge_less_def edge_is_inside_def)
    then have ne: "om_upto edge_less e ?m \<noteq> []"
      using r edges.upto_member [OF sorted, of "(src, dst)" e] by auto
    then have l: "?l \<in> set ?m" "\<not> edge_less e (fst ?l)"
      using edges.upto_member [OF sorted, of ?l e] by auto
    have ok: "edge_ok src" "edge_ok (fst ?l)"
      using cell_inv_edge [OF inv] l r by (metis prod.collapse)+
    have "?l = (src, dst) \<or> edge_less src (fst ?l)"
      using edges.upto_last [OF sorted ne, of "(src, dst)"] r nl by auto
    moreover have "\<not> edge_less src (fst ?l)"
    proof
      assume less: "edge_less src (fst ?l)"
      then have "edge_overlaps src (fst ?l)"
        using l(2) r e ok
        by (auto simp: edge_overlaps_iff edge_ok_def interval_ok_def edge_is_inside_def edge_less_def
            split: if_splits)
      then have "src = fst ?l" using cell_inv_apart [OF inv, of src dst "fst ?l" "snd ?l"] r l(1) by simp
      with less show False by simp
    qed
    ultimately have "?l = (src, dst)" by blast
    with r ne e show "cell_get_link side pos c = Some (Some (src, dst))"
      by (simp add: cell_get_link_def)
  qed
qed

lemma cell_get_link_defined: "side \<noteq> NoDirection \<Longrightarrow> cell_get_link side pos c \<noteq> None"
  by (auto simp: cell_get_link_def edge_at_def edge_init_def Let_def split: prod.splits)

lemma cell_get_link_eqI:
  assumes "cell_inv c" and "cell_inv c'" and "side \<noteq> NoDirection"
    and "\<And>s d. ce_side s = side \<Longrightarrow> edge_is_inside s pos \<Longrightarrow>
      (s, d) \<in> set (neighbors c) \<longleftrightarrow> (s, d) \<in> set (neighbors c')"
  shows "cell_get_link side pos c = cell_get_link side pos c'"
proof -
  obtain r r' where r: "cell_get_link side pos c = Some r" "cell_get_link side pos c' = Some r'"
    using cell_get_link_defined [OF assms(3)] by (meson not_None_eq)
  have "r = Some (s, d) \<longleftrightarrow> r' = Some (s, d)" for s d
    using cell_get_link_iff [OF assms(1,3), of pos s d] cell_get_link_iff [OF assms(2,3), of pos s d]
      assms(4) [of s d] unfolding r by (simp; blast)
  then have "r = r'" by (cases r; cases r') fastforce+
  with r show ?thesis by simp
qed

text \<open>
  A new link answers for every position of its interval and for no other.
\<close>

lemma cell_get_link_add:
  assumes "cell_inv c" and "edge_ok src" and "edge_ok dst" and "side \<noteq> NoDirection"
    and "cell_add src dst c = (True, c')"
  shows "cell_get_link side pos c' =
    (if ce_side src = side \<and> edge_is_inside src pos then Some (Some (src, dst))
     else cell_get_link side pos c)"
proof -
  have inv': "cell_inv c'" using cell_add_inv [OF assms(1-3)] assms(5) by simp
  note set = cell_add_set [OF assms(1,2,5)]
  show ?thesis
  proof (cases "ce_side src = side \<and> edge_is_inside src pos")
    case True
    then show ?thesis using cell_get_link_iff [OF inv' assms(4)] set(1) by simp
  next
    case False
    moreover have "cell_get_link side pos c' = cell_get_link side pos c"
    proof (rule cell_get_link_eqI [OF inv' assms(1,4)])
      fix s d
      assume s: "ce_side s = side" "edge_is_inside s pos"
      with False have "s \<noteq> src" "\<not> edge_eq s src" by (auto simp: edge_eq_def edge_is_inside_def)
      then show "(s, d) \<in> set (neighbors c') \<longleftrightarrow> (s, d) \<in> set (neighbors c)"
        unfolding set(1) by simp
    qed
    ultimately show ?thesis by (simp only: if_False)
  qed
qed

section \<open>Positions\<close>

definition interval_f32 :: "interval \<Rightarrow> bool" where
  "interval_f32 i \<longleftrightarrow> is_f32 (fst i) \<and> is_f32 (snd i)"

lemma edge_transform_bounds:
  assumes "edge_ok e" and "interval_f32 (ce_interval e)" and "edge_is_inside e x"
  shows "0 \<le> edge_transform e x \<and> edge_transform e x \<le> 1"
proof -
  obtain a b where ab: "ce_interval e = (a, b)" by fastforce
  have "0 < f32 (b - a)"
    using assms(1,2) ab by (intro f32_diff_pos) (auto simp: edge_ok_def interval_ok_def interval_f32_def)
  with assms(3) ab f32.fraction_bounds [of a x b] show ?thesis
    by (simp add: edge_transform_def edge_is_inside_def)
qed

lemma edge_inverse_bounds:
  assumes "edge_ok e" and "interval_f32 (ce_interval e)" and "0 \<le> t" and "t \<le> 1"
  shows "fst (ce_interval e) \<le> edge_inverse_transform e t"
    and "ce_interval e = (0, 1) \<Longrightarrow> edge_inverse_transform e t \<le> 1"
proof -
  obtain a b where ab: "ce_interval e = (a, b)" by fastforce
  then show "fst (ce_interval e) \<le> edge_inverse_transform e t"
    using assms f32.scale_lower [of t a b]
    by (simp add: edge_inverse_transform_def edge_ok_def interval_ok_def interval_f32_def)
  show "edge_inverse_transform e t \<le> 1" if "ce_interval e = (0, 1)"
    using that assms f32.scale_unit [of t] by (simp add: edge_inverse_transform_def)
qed

end
