(* ===== verification/Screen_Config.thy ===== *)
theory Screen_Config
  imports Screen_Link
begin

text \<open>
  The screen layout: the class \<^verbatim>\<open>Config\<close> of \<^verbatim>\<open>src/lib/server/Config.cpp\<close> without its reader.
  Screen names and aliases share one case-insensitive namespace; a name maps to its
  canonical screen, a canonical screen to its cell. The network address and the input filter
  are type parameters (they are stored and compared, nothing else), the aliases that
  \<^verbatim>\<open>Settings\<close> holds for a screen are an argument of \<open>add_screen\<close>. \<^const>\<open>None\<close> is a failed
  assertion.
\<close>

section \<open>State\<close>

record ('a, 'f) config =
  cfg_map :: "(string, cell) om"
  cfg_names :: "(string, string) om"
  cfg_address :: 'a
  cfg_options :: screen_options
  cfg_filter :: 'f
  cfg_has_lock :: bool

definition config_init :: "'a \<Rightarrow> 'f \<Rightarrow> ('a, 'f) config" where
  "config_init a f = \<lparr>cfg_map = [], cfg_names = [], cfg_address = a, cfg_options = [],
     cfg_filter = f, cfg_has_lock = False\<rparr>"

section \<open>Screens and aliases\<close>

fun add_aliases :: "string \<Rightarrow> string list \<Rightarrow> (string, string) om \<Rightarrow> (string, string) om" where
  "add_aliases name [] m = m"
| "add_aliases name (a # as) m = add_aliases name as (om_emplace caseless_less a name m)"

definition add_screen ::
    "(string \<Rightarrow> string list) \<Rightarrow> string \<Rightarrow> ('a, 'f) config \<Rightarrow> bool \<times> ('a, 'f) config" where
  "add_screen aliases name c =
     (if om_contains caseless_less name (cfg_names c) then (False, c)
      else
        let c1 = c\<lparr>cfg_map := om_emplace caseless_less name empty_cell (cfg_map c)\<rparr>;
            c2 = c1\<lparr>cfg_names := om_emplace caseless_less name name (cfg_names c1)\<rparr>
        in (True, c2\<lparr>cfg_names := add_aliases name (aliases name) (cfg_names c2)\<rparr>))"

definition add_alias :: "string \<Rightarrow> string \<Rightarrow> ('a, 'f) config \<Rightarrow> bool \<times> ('a, 'f) config" where
  "add_alias canonical alias c =
     (if om_contains caseless_less alias (cfg_names c) then (False, c)
      else if \<not> om_contains caseless_less canonical (cfg_map c) then (False, c)
      else (True, c\<lparr>cfg_names := om_emplace caseless_less alias canonical (cfg_names c)\<rparr>))"

definition is_screen :: "string \<Rightarrow> ('a, 'f) config \<Rightarrow> bool" where
  "is_screen name c \<longleftrightarrow> om_contains caseless_less name (cfg_names c)"

definition get_canonical_name :: "string \<Rightarrow> ('a, 'f) config \<Rightarrow> string" where
  "get_canonical_name name c =
     (case om_find caseless_less name (cfg_names c) of None \<Rightarrow> [] | Some (_, canonical) \<Rightarrow> canonical)"

definition is_canonical_name :: "string \<Rightarrow> ('a, 'f) config \<Rightarrow> bool" where
  "is_canonical_name name c \<longleftrightarrow>
     name \<noteq> [] \<and> caseless_equal (get_canonical_name name c) name"

text \<open>The screens in the order of iteration.\<close>

definition screens :: "('a, 'f) config \<Rightarrow> string list" where
  "screens c = map fst (cfg_map c)"

text \<open>\<^verbatim>\<open>Config::Name\<close>: comparison with the canonical form of a name.\<close>

definition name_matches :: "('a, 'f) config \<Rightarrow> string \<Rightarrow> string \<Rightarrow> bool" where
  "name_matches c m_name name \<longleftrightarrow> caseless_equal (get_canonical_name name c) m_name"

subsection \<open>Names\<close>

definition is_alnum :: "char \<Rightarrow> bool" where
  "is_alnum c =
     (let n = of_char c :: nat in
      (48 \<le> n \<and> n \<le> 57) \<or> (65 \<le> n \<and> n \<le> 90) \<or> (97 \<le> n \<and> n \<le> 122))"

fun find_char :: "char \<Rightarrow> nat \<Rightarrow> string \<Rightarrow> nat" where
  "find_char x n [] = n"
| "find_char x n (c # cs) = (if c = x then n else find_char x (Suc n) cs)"

lemma find_char_ge: "n \<le> find_char x n cs"
  by (induction x n cs rule: find_char.induct) auto

text \<open>
  The loop over the dot-separated parts, with its condition as the source has it
  (\<open>b == name.size()\<close>); \<open>find_char\<close> answers the size when there is no dot left.
\<close>

function valid_parts :: "string \<Rightarrow> nat \<Rightarrow> bool" where
  "valid_parts name b =
     (if b = length name then
        let e = find_char CHR ''.'' b (drop b name) in
        if e - b < 1 then False
        else if \<not> (is_alnum (name ! b) \<or> name ! b = CHR ''_'') \<or>
                \<not> (is_alnum (name ! (e - 1)) \<or> name ! (e - 1) = CHR ''_'') then False
        else if \<exists>i\<in>set [b..<e]. \<not> is_alnum (name ! i) \<and> name ! i \<noteq> CHR ''_'' \<and> name ! i \<noteq> CHR ''-''
        then False
        else if e = length name then True
        else valid_parts name (Suc e)
      else True)"
  by pat_completeness auto
termination
  by (relation "measure (\<lambda>(name, b). Suc (length name) - b)") auto

declare valid_parts.simps [simp del]

definition is_valid_screen_name :: "string \<Rightarrow> bool" where
  "is_valid_screen_name name \<longleftrightarrow> (if name = [] then False else valid_parts name 0)"

section \<open>Links\<close>

definition connect ::
    "string \<Rightarrow> direction \<Rightarrow> rat \<Rightarrow> rat \<Rightarrow> string \<Rightarrow> rat \<Rightarrow> rat \<Rightarrow> ('a, 'f) config \<Rightarrow>
     (bool \<times> ('a, 'f) config) option" where
  "connect srcName srcSide srcStart srcEnd dstName dstStart dstEnd c =
     (if srcSide = NoDirection then None
      else
        let name = get_canonical_name srcName c in
        case om_find caseless_less name (cfg_map c) of
          None \<Rightarrow> Some (False, c)
        | Some (_, cell) \<Rightarrow>
            (case (mk_edge [] srcSide (srcStart, srcEnd), mk_edge dstName srcSide (dstStart, dstEnd)) of
               (Some srcEdge, Some dstEdge) \<Rightarrow>
                 (let (ok, cell') = cell_add srcEdge dstEdge cell in
                  Some (ok, c\<lparr>cfg_map := om_adjust caseless_less name (\<lambda>_. cell') (cfg_map c)\<rparr>))
             | _ \<Rightarrow> None))"

definition disconnect :: "string \<Rightarrow> direction \<Rightarrow> ('a, 'f) config \<Rightarrow> (bool \<times> ('a, 'f) config) option" where
  "disconnect srcName srcSide c =
     (if srcSide = NoDirection then None
      else if \<not> om_contains caseless_less srcName (cfg_map c) then Some (False, c)
      else Some (True, c\<lparr>cfg_map :=
        om_adjust caseless_less srcName (cell_remove_side srcSide) (cfg_map c)\<rparr>))"

definition disconnect_at ::
    "string \<Rightarrow> direction \<Rightarrow> rat \<Rightarrow> ('a, 'f) config \<Rightarrow> (bool \<times> ('a, 'f) config) option" where
  "disconnect_at srcName srcSide position c =
     (if srcSide = NoDirection then None
      else if \<not> om_contains caseless_less srcName (cfg_map c) then Some (False, c)
      else Some (True, c\<lparr>cfg_map :=
        om_adjust caseless_less srcName (cell_remove_at srcSide position) (cfg_map c)\<rparr>))"

text \<open>The neighbour's name (empty: none) and the position on it, if it was computed.\<close>

definition get_neighbor ::
    "string \<Rightarrow> direction \<Rightarrow> rat \<Rightarrow> ('a, 'f) config \<Rightarrow> (string \<times> rat option) option" where
  "get_neighbor srcName srcSide position c =
     (if srcSide = NoDirection then None
      else
        case om_find caseless_less (get_canonical_name srcName c) (cfg_map c) of
          None \<Rightarrow> Some ([], None)
        | Some (_, cell) \<Rightarrow>
            (case cell_get_link srcSide position cell of
               None \<Rightarrow> None
             | Some None \<Rightarrow> Some ([], None)
             | Some (Some (srcEdge, dstEdge)) \<Rightarrow>
                 Some (get_canonical_name (ce_name dstEdge) c,
                   Some (edge_inverse_transform dstEdge (edge_transform srcEdge position)))))"

definition has_neighbor_in ::
    "string \<Rightarrow> direction \<Rightarrow> rat \<Rightarrow> rat \<Rightarrow> ('a, 'f) config \<Rightarrow> bool option" where
  "has_neighbor_in srcName srcSide from to c =
     (if srcSide = NoDirection then None
      else
        case om_find caseless_less (get_canonical_name srcName c) (cfg_map c) of
          None \<Rightarrow> Some False
        | Some (_, cell) \<Rightarrow>
            map_option (\<lambda>e. cell_overlaps e cell) (mk_edge [] srcSide (from, to)))"

definition has_neighbor :: "string \<Rightarrow> direction \<Rightarrow> ('a, 'f) config \<Rightarrow> bool option" where
  "has_neighbor srcName srcSide c = has_neighbor_in srcName srcSide 0 1 c"

text \<open>\<^verbatim>\<open>beginNeighbor\<close> to \<^verbatim>\<open>endNeighbor\<close>.\<close>

definition links_of :: "string \<Rightarrow> ('a, 'f) config \<Rightarrow> (cell_edge, cell_edge) om option" where
  "links_of srcName c =
     map_option neighbors (om_get caseless_less (get_canonical_name srcName c) (cfg_map c))"

section \<open>Options\<close>

definition add_option ::
    "string \<Rightarrow> option_id \<Rightarrow> option_value \<Rightarrow> ('a, 'f) config \<Rightarrow> bool \<times> ('a, 'f) config" where
  "add_option name option value c =
     (if name = [] then (True, c\<lparr>cfg_options := om_emplace (<) option value (cfg_options c)\<rparr>)
      else if om_contains caseless_less name (cfg_map c)
      then (True, c\<lparr>cfg_map := om_adjust caseless_less name
             (\<lambda>cell. cell\<lparr>cell_options := om_emplace (<) option value (cell_options cell)\<rparr>) (cfg_map c)\<rparr>)
      else (False, c))"

definition get_options :: "string \<Rightarrow> ('a, 'f) config \<Rightarrow> screen_options option" where
  "get_options name c =
     (if name = [] then Some (cfg_options c)
      else map_option cell_options (om_get caseless_less name (cfg_map c)))"

definition set_address :: "'a \<Rightarrow> ('a, 'f) config \<Rightarrow> ('a, 'f) config" where
  "set_address a c = c\<lparr>cfg_address := a\<rparr>"

section \<open>Comparison\<close>

fun cells_eq :: "(string, cell) om \<Rightarrow> (string, cell) om \<Rightarrow> bool" where
  "cells_eq ((n, c) # m) ((n', c') # m') = (caseless_equal n n' \<and> cell_eq c c' \<and> cells_eq m m')"
| "cells_eq m m' = True"

fun names_eq :: "(string, string) om \<Rightarrow> (string, string) om \<Rightarrow> bool" where
  "names_eq [] m' = True"
| "names_eq (e # m) [] = False"
| "names_eq ((n, v) # m) ((n', v') # m') =
     (caseless_equal n n' \<and> caseless_equal v v' \<and> names_eq m m')"

definition config_eq ::
    "('f \<Rightarrow> 'f \<Rightarrow> bool) \<Rightarrow> ('a, 'f) config \<Rightarrow> ('a, 'f) config \<Rightarrow> bool" where
  "config_eq filter_eq c x \<longleftrightarrow>
     cfg_address c = cfg_address x \<and>
     length (cfg_map c) = length (cfg_map x) \<and>
     length (cfg_names c) = length (cfg_names x) \<and>
     cfg_options c = cfg_options x \<and>
     cells_eq (cfg_map c) (cfg_map x) \<and>
     names_eq (cfg_names c) (cfg_names x) \<and>
     filter_eq (cfg_filter c) (cfg_filter x)"

fun dir_name :: "direction \<Rightarrow> string option" where
  "dir_name NoDirection = None"
| "dir_name Left = Some ''left''"
| "dir_name Right = Some ''right''"
| "dir_name Top = Some ''up''"
| "dir_name Bottom = Some ''down''"

end
