(* ===== verification/Config_Laws.thy ===== *)
theory Config_Laws
  imports Screen_Config
begin

text \<open>
  What the operations of the screen layout guarantee: the invariant of the two name tables and
  of every cell, kept by every operation; what a link answers after it was made; where a
  neighbour position can lie; and what two equal layouts have in common.
\<close>

section \<open>Invariant\<close>

definition config_inv :: "('a, 'f) config \<Rightarrow> bool" where
  "config_inv c \<longleftrightarrow>
     om_sorted caseless_less (cfg_map c) \<and> om_sorted caseless_less (cfg_names c) \<and>
     om_sorted (<) (cfg_options c) \<and>
     (\<forall>e\<in>set (cfg_map c). cell_inv (snd e)) \<and>
     (\<forall>e\<in>set (cfg_names c). om_contains caseless_less (snd e) (cfg_map c)) \<and>
     (\<forall>e\<in>set (cfg_map c). is_screen (fst e) c \<and> caseless_equal (get_canonical_name (fst e) c) (fst e))"

lemma config_invD:
  assumes "config_inv c"
  shows "om_sorted caseless_less (cfg_map c)" "om_sorted caseless_less (cfg_names c)"
    "om_sorted (<) (cfg_options c)" "e \<in> set (cfg_map c) \<Longrightarrow> cell_inv (snd e)"
    "e' \<in> set (cfg_names c) \<Longrightarrow> om_contains caseless_less (snd e') (cfg_map c)"
    "e \<in> set (cfg_map c) \<Longrightarrow> is_screen (fst e) c"
    "e \<in> set (cfg_map c) \<Longrightarrow> caseless_equal (get_canonical_name (fst e) c) (fst e)"
  using assms by (simp_all add: config_inv_def)

lemma config_init_inv [simp]: "config_inv (config_init a f)"
  by (simp add: config_inv_def config_init_def)

lemma contains_same: "caseless_equal a b \<Longrightarrow> om_contains caseless_less a m \<longleftrightarrow> om_contains caseless_less b m"
  using caseless.find_same_key [of a b m] by (simp add: om_contains_def same_key_caseless)

lemma canonical_same:
  assumes "caseless_equal a b"
  shows "get_canonical_name a c = get_canonical_name b c"
  using caseless.find_same_key [of a b "cfg_names c"] assms
  by (simp add: get_canonical_name_def same_key_caseless)

lemma find_cell_inv:
  "config_inv c \<Longrightarrow> om_find caseless_less n (cfg_map c) = Some (k, cell) \<Longrightarrow> cell_inv cell"
  using config_invD(4) om_find_mem by fastforce

lemma contains_emplace:
  assumes "om_sorted caseless_less m"
  shows "om_contains caseless_less k' (om_emplace caseless_less k v m) \<longleftrightarrow>
    om_contains caseless_less k' m \<or> caseless_equal k' k"
proof (cases "om_find caseless_less k m = None")
  case True
  then show ?thesis using caseless.find_emplace [OF assms, of k' k v]
    by (auto simp: om_contains_def same_key_caseless)
next
  case False
  then have "om_contains caseless_less k' m" if "caseless_equal k' k"
    using contains_same [OF that, of m] by (simp add: om_contains_def)
  with False show ?thesis using caseless.find_emplace [OF assms, of k' k v]
    by (auto simp: om_contains_def same_key_caseless)
qed

lemma contains_adjust:
  "om_sorted caseless_less m \<Longrightarrow>
     om_contains caseless_less k' (om_adjust caseless_less k f m) \<longleftrightarrow> om_contains caseless_less k' m"
  by (simp add: om_contains_def caseless.find_adjust)

text \<open>Writing to a cell keeps the tables.\<close>

lemma adjust_member:
  "e \<in> set (om_adjust lt k f m) \<Longrightarrow> \<exists>w. (fst e, w) \<in> set m \<and> (snd e = w \<or> snd e = f w)"
proof (induction m)
  case (Cons a m)
  then show ?case by (cases a; cases e) (auto split: if_splits)
qed simp

lemma config_inv_adjust:
  assumes inv: "config_inv c"
    and f: "\<And>cell. cell_inv cell \<Longrightarrow> cell_inv (f cell)"
  shows "config_inv (c\<lparr>cfg_map := om_adjust caseless_less n f (cfg_map c)\<rparr>)"
proof -
  note i = config_invD [OF inv]
  let ?m = "om_adjust caseless_less n f (cfg_map c)"
  have "cell_inv (snd e)" if e: "e \<in> set ?m" for e
  proof -
    obtain w where "(fst e, w) \<in> set (cfg_map c)" "snd e = w \<or> snd e = f w"
      using adjust_member [OF e] by blast
    then show "cell_inv (snd e)" using i(4) [of "(fst e, w)"] f by auto
  qed
  moreover have "is_screen (fst e) c \<and> caseless_equal (get_canonical_name (fst e) c) (fst e)"
    if e: "e \<in> set ?m" for e
    using adjust_member [OF e] i(6,7) by fastforce
  ultimately show ?thesis
    using i by (auto simp: config_inv_def contains_adjust is_screen_def get_canonical_name_def)
qed

text \<open>Adding names keeps what the table already answers.\<close>

lemma find_emplace_old:
  "om_sorted caseless_less m \<Longrightarrow> om_find caseless_less k' m \<noteq> None \<Longrightarrow>
     om_find caseless_less k' (om_emplace caseless_less k v m) = om_find caseless_less k' m"
  using caseless.find_same_key [of k' k m] by (simp add: caseless.find_emplace) metis

lemma add_aliases_sorted:
  "om_sorted caseless_less m \<Longrightarrow> om_sorted caseless_less (add_aliases name as m)"
  by (induction name as m rule: add_aliases.induct) (simp_all add: caseless.emplace_sorted)

lemma add_aliases_old:
  "om_sorted caseless_less m \<Longrightarrow> om_find caseless_less k m \<noteq> None \<Longrightarrow>
     om_find caseless_less k (add_aliases name as m) = om_find caseless_less k m"
  by (induction name as m rule: add_aliases.induct)
    (simp_all add: caseless.emplace_sorted find_emplace_old)

lemma add_aliases_values:
  "om_sorted caseless_less m \<Longrightarrow> e \<in> set (add_aliases name as m) \<Longrightarrow> e \<in> set m \<or> snd e = name"
  by (induction name as m rule: add_aliases.induct)
    (fastforce simp: caseless.emplace_set caseless.emplace_sorted split: if_splits)+

lemma add_aliases_contains:
  "om_sorted caseless_less m \<Longrightarrow>
     om_contains caseless_less k (add_aliases name as m) \<longleftrightarrow>
       om_contains caseless_less k m \<or> (\<exists>a\<in>set as. caseless_equal k a)"
  by (induction name as m rule: add_aliases.induct)
    (auto simp: contains_emplace caseless.emplace_sorted)

lemma map_sub_names:
  assumes "config_inv c" and "\<not> om_contains caseless_less n (cfg_names c)"
  shows "om_find caseless_less n (cfg_map c) = None"
proof (rule ccontr)
  assume "om_find caseless_less n (cfg_map c) \<noteq> None"
  then obtain k v where f: "om_find caseless_less n (cfg_map c) = Some (k, v)" by auto
  then have "is_screen k c" using config_invD(6) [OF assms(1)] om_find_mem by fastforce
  moreover have "caseless_equal n k" using om_find_same [OF f] by (simp add: same_key_caseless)
  ultimately show False using assms(2) contains_same [of n k "cfg_names c"] by (simp add: is_screen_def)
qed

lemma add_screen_inv:
  assumes inv: "config_inv c"
  shows "config_inv (snd (add_screen al name c))"
proof (cases "om_contains caseless_less name (cfg_names c)")
  case True
  then show ?thesis using inv by (simp add: add_screen_def)
next
  case False
  note i = config_invD [OF inv]
  let ?m = "om_emplace caseless_less name empty_cell (cfg_map c)"
  let ?n1 = "om_emplace caseless_less name name (cfg_names c)"
  let ?n = "add_aliases name (al name) ?n1"
  let ?c = "c\<lparr>cfg_map := ?m, cfg_names := ?n\<rparr>"
  have eq: "snd (add_screen al name c) = ?c" using False by (simp add: add_screen_def Let_def)
  have fresh: "om_find caseless_less name (cfg_map c) = None" by (rule map_sub_names [OF inv False])
  have s1: "om_sorted caseless_less ?n1" using i(2) by blast
  have mem: "e = (name, empty_cell) \<or> e \<in> set (cfg_map c)" if "e \<in> set ?m" for e
    using that caseless.emplace_set [OF i(1)] by (auto split: if_splits)
  have f1: "om_find caseless_less name ?n1 = Some (name, name)"
    using False caseless.find_emplace [OF i(2), of name name name] by (simp add: om_contains_def)
  have old: "om_find caseless_less k ?n = om_find caseless_less k (cfg_names c)"
    if "om_find caseless_less k (cfg_names c) \<noteq> None" for k
    using that add_aliases_old [OF s1, of k] find_emplace_old [OF i(2), of k name name] by simp
  have "om_find caseless_less name ?n = Some (name, name)" using add_aliases_old [OF s1] f1 by simp
  then have new: "is_screen name ?c" "get_canonical_name name ?c = name"
    by (simp_all add: is_screen_def om_contains_def get_canonical_name_def)
  have scr: "is_screen (fst e) ?c \<and> caseless_equal (get_canonical_name (fst e) ?c) (fst e)"
    if "e \<in> set ?m" for e
  proof (cases "e = (name, empty_cell)")
    case False
    then have e: "e \<in> set (cfg_map c)" using mem [OF that] by blast
    then have "om_find caseless_less (fst e) ?n = om_find caseless_less (fst e) (cfg_names c)"
      using i(6) [OF e] old by (simp add: is_screen_def om_contains_def)
    then show ?thesis using i(6,7) [OF e]
      by (simp add: is_screen_def om_contains_def get_canonical_name_def)
  qed (use new in simp)
  have val: "om_contains caseless_less (snd e) ?m" if "e \<in> set ?n" for e
  proof -
    have "e \<in> set ?n1 \<or> snd e = name" using add_aliases_values [OF s1 that] .
    then have "e \<in> set (cfg_names c) \<or> snd e = name"
      using caseless.emplace_set [OF i(2)] by (auto split: if_splits)
    then show ?thesis using i(5) [of e] contains_emplace [OF i(1), of "snd e"] by auto
  qed
  have cells: "cell_inv (snd e)" if "e \<in> set ?m" for e
    using mem [OF that] i(4) [of e] by auto
  have "config_inv ?c"
    unfolding config_inv_def
  proof (intro conjI ballI)
    show "om_sorted caseless_less (cfg_map ?c)" using caseless.emplace_sorted [OF i(1)] by simp
    show "om_sorted caseless_less (cfg_names ?c)" using add_aliases_sorted [OF s1] by simp
  qed (use i(3) cells val scr in simp_all)
  with eq show ?thesis by simp
qed

lemma add_alias_inv:
  assumes inv: "config_inv c"
  shows "config_inv (snd (add_alias canonical alias c))"
proof (cases "fst (add_alias canonical alias c)")
  case False
  then show ?thesis using inv by (auto simp: add_alias_def split: if_splits)
next
  case True
  note i = config_invD [OF inv]
  let ?n = "om_emplace caseless_less alias canonical (cfg_names c)"
  have ok: "\<not> om_contains caseless_less alias (cfg_names c)" "om_contains caseless_less canonical (cfg_map c)"
    and eq: "snd (add_alias canonical alias c) = c\<lparr>cfg_names := ?n\<rparr>"
    using True by (auto simp: add_alias_def split: if_splits)
  have "om_contains caseless_less (snd e) (cfg_map c)" if "e \<in> set ?n" for e
    using that caseless.emplace_set [OF i(2)] ok(2) i(5) [of e] by (auto split: if_splits)
  moreover have "om_find caseless_less (fst e) ?n = om_find caseless_less (fst e) (cfg_names c)"
    if "e \<in> set (cfg_map c)" for e
    using i(6) [OF that] find_emplace_old [OF i(2)] by (simp add: is_screen_def om_contains_def)
  ultimately show ?thesis
    unfolding eq config_inv_def using i
    by (auto simp: is_screen_def om_contains_def get_canonical_name_def)
qed

lemma connect_result:
  assumes "connect s side a b d a' b' c = Some (ok, c')"
  obtains (unknown) "\<not> ok" "c' = c" "om_find caseless_less (get_canonical_name s c) (cfg_map c) = None"
  | (known) k cell e f cell' where
    "om_find caseless_less (get_canonical_name s c) (cfg_map c) = Some (k, cell)"
    "mk_edge [] side (a, b) = Some e" "mk_edge d side (a', b') = Some f"
    "cell_add e f cell = (ok, cell')" "side \<noteq> NoDirection"
    "c' = c\<lparr>cfg_map := om_adjust caseless_less (get_canonical_name s c) (\<lambda>_. cell') (cfg_map c)\<rparr>"
  using assms by (auto simp: connect_def Let_def split: if_splits option.splits prod.splits)

lemma connect_inv:
  assumes inv: "config_inv c" and "connect s side a b d a' b' c = Some (ok, c')"
  shows "config_inv c'"
  using assms(2)
proof (cases rule: connect_result)
  case unknown
  then show ?thesis using inv by simp
next
  case (known k cell e f cell')
  have "cell_inv (snd (cell_add e f cell))"
    using known mk_edge_ok find_cell_inv [OF inv known(1)] by (intro cell_add_inv) blast+
  then show ?thesis using known(4,6) config_inv_adjust [OF inv] by simp
qed

lemma disconnect_inv: "config_inv c \<Longrightarrow> disconnect s side c = Some (ok, c') \<Longrightarrow> config_inv c'"
  and disconnect_at_inv: "config_inv c \<Longrightarrow> disconnect_at s side p c = Some (ok, c') \<Longrightarrow> config_inv c'"
  by (auto simp: disconnect_def disconnect_at_def cell_remove_side_inv cell_remove_at_inv
      intro!: config_inv_adjust split: if_splits)

lemma add_option_inv:
  assumes inv: "config_inv c"
  shows "config_inv (snd (add_option name opt value c))"
proof -
  have cell: "cell_inv (cell\<lparr>cell_options := om_emplace (<) opt value (cell_options cell)\<rparr>)"
    if "cell_inv cell" for cell
    using that by (simp add: cell_inv_def ord.emplace_sorted)
  have "config_inv (c\<lparr>cfg_options := om_emplace (<) opt value (cfg_options c)\<rparr>)"
    using config_invD [OF inv]
    by (simp add: config_inv_def ord.emplace_sorted is_screen_def get_canonical_name_def)
  then show ?thesis
    using config_inv_adjust [OF inv cell] inv by (simp add: add_option_def)
qed

section \<open>Every configuration the operations build\<close>

inductive built :: "('a, 'f) config \<Rightarrow> bool" where
  built_init: "built (config_init a f)"
| built_screen: "built c \<Longrightarrow> built (snd (add_screen al name c))"
| built_alias: "built c \<Longrightarrow> built (snd (add_alias canonical alias c))"
| built_connect: "built c \<Longrightarrow> connect s side a b d a' b' c = Some (ok, c') \<Longrightarrow> built c'"
| built_disconnect: "built c \<Longrightarrow> disconnect s side c = Some (ok, c') \<Longrightarrow> built c'"
| built_disconnect_at: "built c \<Longrightarrow> disconnect_at s side p c = Some (ok, c') \<Longrightarrow> built c'"
| built_option: "built c \<Longrightarrow> built (snd (add_option name opt value c))"
| built_address: "built c \<Longrightarrow> built (set_address adr c)"

lemma set_address_inv: "config_inv c \<Longrightarrow> config_inv (set_address adr c)"
  by (simp add: config_inv_def set_address_def is_screen_def get_canonical_name_def)

lemma built_inv: "built c \<Longrightarrow> config_inv c"
proof (induction rule: built.induct)
  case built_connect
  from connect_inv [OF this(3,2)] show ?case .
next
  case built_disconnect
  from disconnect_inv [OF this(3,2)] show ?case .
next
  case built_disconnect_at
  from disconnect_at_inv [OF this(3,2)] show ?case .
qed (simp_all add: add_screen_inv add_alias_inv add_option_inv set_address_inv)

section \<open>Neighbours\<close>

lemma canonical_found:
  assumes "config_inv c" and "is_screen n c"
  shows "\<exists>k cell. om_find caseless_less (get_canonical_name n c) (cfg_map c) = Some (k, cell) \<and> cell_inv cell"
proof -
  obtain k v where f: "om_find caseless_less n (cfg_names c) = Some (k, v)"
    using assms(2) by (auto simp: is_screen_def om_contains_def)
  then have "om_contains caseless_less v (cfg_map c)"
    using config_invD(5) [OF assms(1) om_find_mem [OF f]] by simp
  then obtain k' cell where "om_find caseless_less v (cfg_map c) = Some (k', cell)"
    by (auto simp: om_contains_def)
  with f find_cell_inv [OF assms(1)] show ?thesis by (simp add: get_canonical_name_def)
qed

lemma get_neighbor_defined:
  assumes "side \<noteq> NoDirection"
  shows "get_neighbor s side p c \<noteq> None"
  using assms cell_get_link_defined [OF assms, of p]
  by (auto simp: get_neighbor_def split: option.splits) (metis option.distinct(1))

text \<open>The neighbour's lookup rests on the cell of the canonical screen only.\<close>

definition link_at :: "string \<Rightarrow> direction \<Rightarrow> rat \<Rightarrow> ('a, 'f) config \<Rightarrow> (cell_edge \<times> cell_edge) option" where
  "link_at s side p c =
     (case om_get caseless_less (get_canonical_name s c) (cfg_map c) of
        None \<Rightarrow> None
      | Some cell \<Rightarrow> (case cell_get_link side p cell of None \<Rightarrow> None | Some l \<Rightarrow> l))"

lemma get_neighbor_link:
  assumes "side \<noteq> NoDirection"
  shows "get_neighbor s side p c =
    (case link_at s side p c of
       None \<Rightarrow> Some ([], None)
     | Some (e, f) \<Rightarrow> Some (get_canonical_name (ce_name f) c,
         Some (edge_inverse_transform f (edge_transform e p))))"
  using assms cell_get_link_defined [OF assms, of p]
  by (auto simp: get_neighbor_def link_at_def om_get_def split: option.splits) (metis option.distinct(1))

lemma get_canonical_name_map [simp]: "get_canonical_name n (c\<lparr>cfg_map := m\<rparr>) = get_canonical_name n c"
  by (simp add: get_canonical_name_def)

lemma link_at_connect:
  assumes inv: "config_inv c" and cn: "connect s side a b d a' b' c = Some (True, c')"
    and side': "side' \<noteq> NoDirection"
  obtains e f where "mk_edge [] side (a, b) = Some e" "mk_edge d side (a', b') = Some f"
    "\<And>n. get_canonical_name n c' = get_canonical_name n c"
    "\<And>n p. link_at n side' p c' =
       (if side' = side \<and> caseless_equal (get_canonical_name n c) (get_canonical_name s c) \<and> a \<le> p \<and> p < b
        then Some (e, f) else link_at n side' p c)"
  using cn
proof (cases rule: connect_result)
  case unknown
  then show ?thesis by simp
next
  case (known k cell e f cell')
  note ok = mk_edge_ok [OF known(2)] mk_edge_ok [OF known(3)]
  have names: "get_canonical_name n c' = get_canonical_name n c" for n
    using known(6) by (simp add: get_canonical_name_def)
  have add: "cell_get_link side' p cell' =
      (if side' = side \<and> a \<le> p \<and> p < b then Some (Some (e, f)) else cell_get_link side' p cell)" for p
    using cell_get_link_add [OF find_cell_inv [OF inv known(1)] _ _ side' known(4), of p] ok
    by (auto simp: edge_is_inside_def)
  have "link_at n side' p c' =
      (if side' = side \<and> caseless_equal (get_canonical_name n c) (get_canonical_name s c) \<and> a \<le> p \<and> p < b
       then Some (e, f) else link_at n side' p c)" for n p
  proof (cases "caseless_equal (get_canonical_name n c) (get_canonical_name s c)")
    case True
    then have "om_find caseless_less (get_canonical_name n c) (cfg_map c) = Some (k, cell)"
      using caseless.find_same_key known(1) same_key_caseless by metis
    with True show ?thesis
      using config_invD(1) [OF inv] add
      by (simp add: known(6) link_at_def om_get_def caseless.find_adjust same_key_caseless)
  next
    case False
    then show ?thesis
      using config_invD(1) [OF inv]
      by (simp add: known(6) link_at_def om_get_def caseless.find_adjust same_key_caseless)
  qed
  with that known(2,3) names show ?thesis by blast
qed

end
