(* ===== verification/Config_Props.thy ===== *)
theory Config_Props
  imports Config_Laws
begin

text \<open>
  The properties of the screen layout: what a link does to the neighbours, when a link is
  refused, where a neighbour position lies, how names and options behave, and that two equal
  layouts answer alike.
\<close>

section \<open>Equal layouts\<close>

lemma om_find_rel:
  assumes "list_all2 (\<lambda>(k, v) (k', v'). same_key caseless_less k k' \<and> R v v') m m'"
  shows "rel_option (\<lambda>(k, v) (k', v'). same_key caseless_less k k' \<and> R v v')
    (om_find caseless_less n m) (om_find caseless_less n m')"
  using assms
proof (induction m m' rule: list_all2_induct)
  case (Cons e m e' m')
  then show ?case
    by (cases e; cases e') (auto simp: caseless.lt_same_left caseless.lt_same_right)
qed simp

lemma names_eq_list_all2:
  "names_eq m m' \<Longrightarrow> length m = length m' \<Longrightarrow>
     list_all2 (\<lambda>(k, v) (k', v'). same_key caseless_less k k' \<and> caseless_equal v v') m m'"
  by (induction m m' rule: names_eq.induct) (auto simp: same_key_caseless)

lemma cells_eq_list_all2:
  "cells_eq m m' \<Longrightarrow> length m = length m' \<Longrightarrow>
     list_all2 (\<lambda>(k, v) (k', v'). same_key caseless_less k k' \<and> cell_eq v v') m m'"
  by (induction m m' rule: cells_eq.induct) (auto simp: same_key_caseless)

definition link_eq :: "cell_edge \<times> cell_edge \<Rightarrow> cell_edge \<times> cell_edge \<Rightarrow> bool" where
  "link_eq l l' \<longleftrightarrow> edge_eq (fst l) (fst l') \<and> edge_eq (snd l) (snd l') \<and>
     caseless_equal (ce_name (snd l)) (ce_name (snd l'))"

lemma links_eq_list_all2:
  "links_eq m m' \<Longrightarrow> length m = length m' \<Longrightarrow> list_all2 link_eq m m'"
  by (induction m m' rule: links_eq.induct) (auto simp: link_eq_def)

lemma takeWhile_rel:
  "list_all2 R m m' \<Longrightarrow> (\<And>e e'. R e e' \<Longrightarrow> P e \<longleftrightarrow> P e') \<Longrightarrow>
     list_all2 R (takeWhile P m) (takeWhile P m')"
  by (induction m m' rule: list_all2_induct) auto

lemma cell_eq_get_link:
  assumes "cell_eq c c'"
  shows "rel_option (rel_option link_eq) (cell_get_link side p c) (cell_get_link side p c')"
proof (cases "edge_at side p")
  case None
  then show ?thesis by (simp add: cell_get_link_def)
next
  case (Some e)
  let ?u = "om_upto edge_less e (neighbors c)" and ?u' = "om_upto edge_less e (neighbors c')"
  have "list_all2 link_eq (neighbors c) (neighbors c')"
    using assms links_eq_list_all2 by (simp add: cell_eq_def)
  then have rel: "list_all2 link_eq ?u ?u'"
    unfolding om_upto_def
    by (rule takeWhile_rel) (auto simp: link_eq_def edge_eq_def edge_less_def)
  show ?thesis
  proof (cases "?u = []")
    case True
    then show ?thesis using Some rel by (simp add: cell_get_link_def)
  next
    case False
    then have ne: "?u' \<noteq> []" using rel by auto
    have "link_eq (last ?u) (last ?u')"
      using list_all2_nthD2 [OF rel, of "length ?u - 1"] list_all2_lengthD [OF rel] False ne
      by (simp add: last_conv_nth)
    then show ?thesis
      using Some False ne
      by (auto simp: cell_get_link_def Let_def link_eq_def edge_eq_def edge_is_inside_def
          split: prod.splits)
  qed
qed

lemma config_eq_canonical:
  assumes "config_eq fe c x"
  shows "caseless_equal (get_canonical_name n c) (get_canonical_name n x)"
proof -
  have "list_all2 (\<lambda>(k, v) (k', v'). same_key caseless_less k k' \<and> caseless_equal v v')
      (cfg_names c) (cfg_names x)"
    using assms by (intro names_eq_list_all2) (simp_all add: config_eq_def)
  from om_find_rel [OF this, of n] show ?thesis
    by (auto simp: get_canonical_name_def split: option.splits elim: option.rel_cases)
qed

lemma config_eq_link:
  assumes "config_eq fe c x"
  shows "rel_option link_eq (link_at s side p c) (link_at s side p x)"
proof -
  have rel: "list_all2 (\<lambda>(k, v) (k', v'). same_key caseless_less k k' \<and> cell_eq v v')
      (cfg_map c) (cfg_map x)"
    using assms by (intro cells_eq_list_all2) (simp_all add: config_eq_def)
  have "om_find caseless_less (get_canonical_name s x) (cfg_map x) =
      om_find caseless_less (get_canonical_name s c) (cfg_map x)"
    using caseless.find_same_key config_eq_canonical [OF assms] same_key_caseless
      caseless.same_sym by metis
  with om_find_rel [OF rel, of "get_canonical_name s c"]
  consider "om_find caseless_less (get_canonical_name s c) (cfg_map c) = None"
      "om_find caseless_less (get_canonical_name s x) (cfg_map x) = None"
    | k cell k' cell' where "om_find caseless_less (get_canonical_name s c) (cfg_map c) = Some (k, cell)"
      "om_find caseless_less (get_canonical_name s x) (cfg_map x) = Some (k', cell')" "cell_eq cell cell'"
    by (auto elim: option.rel_cases)
  then show ?thesis
  proof cases
    case (2 k cell k' cell')
    from cell_eq_get_link [OF 2(3), of side p] show ?thesis
      using 2 by (auto simp: link_at_def om_get_def elim: option.rel_cases)
  qed (simp add: link_at_def om_get_def)
qed

lemma edge_eq_transforms:
  "edge_eq e e' \<Longrightarrow> edge_transform e p = edge_transform e' p"
  "edge_eq f f' \<Longrightarrow> edge_inverse_transform f t = edge_inverse_transform f' t"
  by (simp_all add: edge_eq_def edge_transform_def edge_inverse_transform_def)

section \<open>Properties\<close>

text \<open>
  C11. A link answers for its interval. After \<^verbatim>\<open>connect\<close> succeeded, every position of the
  source interval leads to the destination, at the position that corresponds to it linearly
  (each float operation rounded); every other position of every edge of every screen leads
  where it led before.
\<close>

theorem neighbor_after_connect:
  assumes "built c" and "connect s side a b d a' b' c = Some (True, c')" and "side' \<noteq> NoDirection"
  shows "get_neighbor n side' p c' =
    (if side' = side \<and> caseless_equal (get_canonical_name n c) (get_canonical_name s c) \<and> a \<le> p \<and> p < b
     then Some (get_canonical_name d c,
       Some (f32 (f32 (f32 (f32 (p - a) / f32 (b - a)) * f32 (b' - a')) + a')))
     else get_neighbor n side' p c)"
proof (rule link_at_connect [OF built_inv [OF assms(1)] assms(2,3)])
  fix e f
  assume e: "mk_edge [] side (a, b) = Some e" and f: "mk_edge d side (a', b') = Some f"
    and names: "\<And>n. get_canonical_name n c' = get_canonical_name n c"
    and link: "\<And>n p. link_at n side' p c' =
      (if side' = side \<and> caseless_equal (get_canonical_name n c) (get_canonical_name s c) \<and> a \<le> p \<and> p < b
       then Some (e, f) else link_at n side' p c)"
  show ?thesis
    unfolding get_neighbor_link [OF assms(3)] link
    using mk_edge_ok [OF e] mk_edge_ok [OF f]
    by (simp add: names edge_transform_def edge_inverse_transform_def split: option.split)
qed

lemma neighbor_after_connect_witness:
  "\<exists>c c' :: (unit, unit) config. built c \<and> connect ''a'' Right 0 1 ''B'' 0 1 c = Some (True, c') \<and>
     get_neighbor ''A'' Right (1 / 2) c' = Some (''b'',
       Some (f32 (f32 (f32 (f32 (1 / 2 - 0) / f32 (1 - 0)) * f32 (1 - 0)) + 0)))"
proof -
  let ?c1 = "snd (add_screen (\<lambda>_. []) ''a'' (config_init () ()))"
  let ?c = "snd (add_screen (\<lambda>_. []) ''b'' ?c1)"
  have built: "built ?c" by (intro built.intros)
  have "fst (the (connect ''a'' Right 0 1 ''B'' 0 1 ?c))" and "connect ''a'' Right 0 1 ''B'' 0 1 ?c \<noteq> None"
    by code_simp+
  then obtain c' where c': "connect ''a'' Right 0 1 ''B'' 0 1 ?c = Some (True, c')" by auto
  have "caseless_equal (get_canonical_name ''A'' ?c) (get_canonical_name ''a'' ?c)"
    and "get_canonical_name ''B'' ?c = ''b''" by code_simp+
  with neighbor_after_connect [OF built c', of Right "''A''" "1 / 2"]
  have "get_neighbor ''A'' Right (1 / 2) c' = Some (''b'',
      Some (f32 (f32 (f32 (f32 (1 / 2 - 0) / f32 (1 - 0)) * f32 (1 - 0)) + 0)))"
    by (simp only: direction.distinct simp_thms if_True) simp
  with built c' show ?thesis by blast
qed

text \<open>
  C32. When a link is refused. \<^verbatim>\<open>connect\<close> refuses a well-formed link exactly when the source
  screen is unknown or the interval meets the interval of another link of that side that is
  not the very same interval; a refusal changes nothing. So looking at the two neighbouring
  entries of the ordered map, as the source does, finds every overlap.
\<close>

theorem connect_refused_iff:
  assumes "built c" and "side \<noteq> NoDirection" and "interval_ok (a, b)" and "interval_ok (a', b')"
  shows "\<exists>ok c'. connect s side a b d a' b' c = Some (ok, c') \<and>
    (\<not> ok \<longleftrightarrow> (case links_of s c of None \<Rightarrow> True
      | Some m \<Rightarrow> \<exists>(e, f)\<in>set m. ce_side e = side \<and> ce_interval e \<noteq> (a, b) \<and>
          fst (ce_interval e) < b \<and> a < snd (ce_interval e))) \<and>
    (\<not> ok \<longrightarrow> c' = c)"
proof (cases "om_find caseless_less (get_canonical_name s c) (cfg_map c)")
  case None
  then show ?thesis using assms(2)
    by (intro exI [of _ False]) (simp add: connect_def links_of_def om_get_def)
next
  case (Some kc)
  obtain k cell where kc: "kc = (k, cell)" by fastforce
  note inv = built_inv [OF assms(1)]
  have cell: "cell_inv cell" using find_cell_inv [OF inv] Some kc by simp
  obtain e f where e: "mk_edge [] side (a, b) = Some e" and f: "mk_edge d side (a', b') = Some f"
    using assms(2-4) by (simp add: mk_edge_def edge_init_def)
  note eok = mk_edge_ok [OF e]
  obtain ok cell' where add: "cell_add e f cell = (ok, cell')" by fastforce
  have "\<not> ok \<longleftrightarrow> (\<exists>s d. (s, d) \<in> set (neighbors cell) \<and> edge_overlaps s e \<and> \<not> edge_eq s e)"
    using cell_add_refused_iff [OF cell, of e f] add eok by simp
  moreover have "edge_overlaps s e \<and> \<not> edge_eq s e \<longleftrightarrow>
      ce_side s = side \<and> ce_interval s \<noteq> (a, b) \<and> fst (ce_interval s) < b \<and> a < snd (ce_interval s)"
    if "(s, d) \<in> set (neighbors cell)" for s d
    using cell_inv_edge [OF cell that] eok by (auto simp: edge_overlaps_iff edge_ok_def edge_eq_def)
  ultimately have ok: "\<not> ok \<longleftrightarrow> (\<exists>(s, d)\<in>set (neighbors cell). ce_side s = side \<and>
      ce_interval s \<noteq> (a, b) \<and> fst (ce_interval s) < b \<and> a < snd (ce_interval s))"
    by blast
  have same: "om_adjust caseless_less n (\<lambda>_. cell) m = m"
    if "om_find caseless_less n m = Some (k, cell)" for n and m :: "(string, cell) om"
    using that by (induction m) (auto split: if_splits)
  have "\<not> ok \<Longrightarrow> cell' = cell" using add by (auto simp: cell_add_def split: if_splits)
  then show ?thesis
    using Some kc e f add assms(2) ok same by (auto simp: connect_def links_of_def om_get_def)
qed

lemma connect_refused_iff_witness:
  "let c = snd (add_screen (\<lambda>_. []) ''a'' (config_init () ())) in
   \<exists>ok c'. connect ''a'' Left 0 1 ''b'' 0 1 c = Some (ok, c') \<and>
    (\<not> ok \<longleftrightarrow> (case links_of ''a'' c of None \<Rightarrow> True
      | Some m \<Rightarrow> \<exists>(e, f)\<in>set m. ce_side e = Left \<and> ce_interval e \<noteq> (0, 1) \<and>
          fst (ce_interval e) < 1 \<and> 0 < snd (ce_interval e))) \<and>
    (\<not> ok \<longrightarrow> c' = c)"
  unfolding Let_def
  by (rule connect_refused_iff) (auto intro: built.intros simp: interval_ok_def)

text \<open>
  Where the neighbour position lies. With link intervals that are floats, a position that
  has a neighbour is mapped to a position not before the destination interval's start and,
  when the destination is a whole edge, inside the unit interval, whatever the rounding.
\<close>

theorem neighbor_position_bounds:
  assumes "built c" and "side \<noteq> NoDirection"
    and "\<forall>(n, cell)\<in>set (cfg_map c). \<forall>(e, f)\<in>set (neighbors cell).
      interval_f32 (ce_interval e) \<and> interval_f32 (ce_interval f)"
    and "get_neighbor s side p c = Some (n, Some q)"
  shows "\<exists>e f. link_at s side p c = Some (e, f) \<and> n = get_canonical_name (ce_name f) c \<and>
    fst (ce_interval f) \<le> q \<and> (ce_interval f = (0, 1) \<longrightarrow> q \<le> 1)"
proof -
  obtain e f where l: "link_at s side p c = Some (e, f)"
      "n = get_canonical_name (ce_name f) c" "q = edge_inverse_transform f (edge_transform e p)"
    using assms(4) unfolding get_neighbor_link [OF assms(2)] by (auto split: option.splits)
  then obtain k cell where cell: "om_find caseless_less (get_canonical_name s c) (cfg_map c) = Some (k, cell)"
      "cell_get_link side p cell = Some (Some (e, f))"
    by (auto simp: link_at_def om_get_def split: option.splits)
  note inv = find_cell_inv [OF built_inv [OF assms(1)] cell(1)]
  have mem: "(e, f) \<in> set (neighbors cell)" "edge_is_inside e p"
    using cell_get_link_iff [OF inv assms(2)] cell(2) by blast+
  have fl: "interval_f32 (ce_interval e)" "interval_f32 (ce_interval f)"
    using assms(3) om_find_mem [OF cell(1)] mem(1) by fastforce+
  have ok: "edge_ok e" "edge_ok f" using cell_inv_edge [OF inv mem(1)] by auto
  note t = edge_transform_bounds [OF ok(1) fl(1) mem(2)]
  from edge_inverse_bounds [OF ok(2) fl(2)] t l show ?thesis by blast
qed

lemma neighbor_position_bounds_witness:
  "\<exists>(c :: (unit, unit) config) q. built c \<and> get_neighbor ''a'' Right (1 / 2) c = Some (''b'', Some q) \<and>
     (\<exists>e f. link_at ''a'' Right (1 / 2) c = Some (e, f) \<and> ''b'' = get_canonical_name (ce_name f) c \<and>
        fst (ce_interval f) \<le> q \<and> (ce_interval f = (0, 1) \<longrightarrow> q \<le> 1))"
proof -
  let ?l = "(\<lparr>ce_name = [], ce_side = Right, ce_interval = (0, 1)\<rparr>,
    \<lparr>ce_name = ''b'', ce_side = Right, ce_interval = (0, 1)\<rparr>)"
  let ?base = "snd (add_screen (\<lambda>_. []) ''b'' (snd (add_screen (\<lambda>_. []) ''a'' (config_init () ()))))"
  let ?c = "snd (the (connect ''a'' Right 0 1 ''b'' 0 1 ?base))"
  let ?ends = "\<lambda>(n, cell). map (\<lambda>(e, f). (ce_interval e, ce_interval f)) (neighbors cell)"
  have "fst (the (connect ''a'' Right 0 1 ''b'' 0 1 ?base))" and "connect ''a'' Right 0 1 ''b'' 0 1 ?base \<noteq> None"
    by code_simp+
  then have "connect ''a'' Right 0 1 ''b'' 0 1 ?base = Some (True, ?c)" by auto
  then have built: "built ?c" by (rule built_connect [rotated]) (intro built_screen built_init)
  have l: "link_at ''a'' Right (1 / 2) ?c = Some ?l" and n: "get_canonical_name ''b'' ?c = ''b''" by code_simp+
  have q: "get_neighbor ''a'' Right (1 / 2) ?c =
      Some (''b'', Some (edge_inverse_transform (snd ?l) (edge_transform (fst ?l) (1 / 2))))"
    unfolding get_neighbor_link [of Right, OF direction.distinct(3) [symmetric]] l
    by (simp only: option.case prod.case snd_conv fst_conv cell_edge.simps n)
  have "map ?ends (cfg_map ?c) = [[((0, 1), (0, 1))], []]" by code_simp
  then have ends: "set (?ends x) \<subseteq> {((0, 1), (0, 1))}" if "x \<in> set (cfg_map ?c)" for x
    using image_eqI [OF refl that, of ?ends] unfolding set_map [symmetric] by auto
  have iv: "\<forall>(n, cell)\<in>set (cfg_map ?c). \<forall>(e, f)\<in>set (neighbors cell).
      interval_f32 (ce_interval e) \<and> interval_f32 (ce_interval f)"
    using ends by (fastforce simp: interval_f32_def)
  show ?thesis
    by (rule exI, rule exI, rule conjI [OF built conjI [OF q neighbor_position_bounds [OF built _ iv q]]])
      (rule direction.distinct(3) [symmetric])
qed

text \<open>
  Equal layouts answer alike. When \<^verbatim>\<open>operator==\<close> says that two configurations are equal,
  they have the same neighbour, up to the case of its name, at the same position, for every
  position of every edge of every screen or alias.
\<close>

theorem equal_configs_same_neighbors:
  assumes "config_eq fe c x" and "side \<noteq> NoDirection"
  shows "\<exists>n n' q. get_neighbor s side p c = Some (n, q) \<and> get_neighbor s side p x = Some (n', q) \<and>
    caseless_equal n n'"
proof -
  from config_eq_link [OF assms(1), of s side p]
  consider "link_at s side p c = None" "link_at s side p x = None"
    | e f e' f' where "link_at s side p c = Some (e, f)" "link_at s side p x = Some (e', f')"
        "edge_eq e e'" "edge_eq f f'" "caseless_equal (ce_name f) (ce_name f')"
    by (auto simp: link_eq_def elim: option.rel_cases)
  then show ?thesis
  proof cases
    case 2
    have "caseless_equal (get_canonical_name (ce_name f) c) (get_canonical_name (ce_name f') x)"
      using config_eq_canonical [OF assms(1), of "ce_name f"] canonical_same [OF 2(5), of x] by simp
    with 2 edge_eq_transforms show ?thesis
      by (simp add: get_neighbor_link [OF assms(2)])
  qed (simp add: get_neighbor_link [OF assms(2)])
qed

lemma equal_configs_same_neighbors_witness:
  "\<exists>n n' q. get_neighbor ''a'' Left 0 (snd (add_screen (\<lambda>_. []) ''a'' (config_init () ()))) = Some (n, q) \<and>
    get_neighbor ''a'' Left 0 (snd (add_screen (\<lambda>_. []) ''A'' (config_init () ()))) = Some (n', q) \<and>
    caseless_equal n n'"
  by (rule equal_configs_same_neighbors [where fe = "\<lambda>_ _. True"]) code_simp+

text \<open>
  Names resolve. Every screen name or alias of a configuration built by the operations
  resolves to a canonical name that is the key of a cell and resolves to itself, up to case.
\<close>

theorem canonical_name_resolves:
  assumes "built c" and "is_screen n c"
  shows "om_contains caseless_less (get_canonical_name n c) (cfg_map c) \<and>
    is_screen (get_canonical_name n c) c \<and>
    caseless_equal (get_canonical_name (get_canonical_name n c) c) (get_canonical_name n c)"
proof -
  note inv = built_inv [OF assms(1)]
  obtain k cell where k: "om_find caseless_less (get_canonical_name n c) (cfg_map c) = Some (k, cell)"
    using canonical_found [OF inv assms(2)] by blast
  then have same: "caseless_equal (get_canonical_name n c) k"
    using om_find_same same_key_caseless by metis
  have "get_canonical_name (get_canonical_name n c) c = get_canonical_name k c"
    by (rule canonical_same [OF same])
  moreover have "is_screen (get_canonical_name n c) c \<longleftrightarrow> is_screen k c"
    using contains_same [OF same] by (simp add: is_screen_def)
  moreover note config_invD(6,7) [OF inv om_find_mem [OF k]]
  ultimately show ?thesis using k same caseless_equal_sym caseless_equal_trans
    by (metis fst_conv om_contains_def option.distinct(1))
qed

lemma canonical_name_resolves_witness:
  "let c = snd (add_alias ''a'' ''x'' (snd (add_screen (\<lambda>_. []) ''a'' (config_init () ())))) in
   om_contains caseless_less (get_canonical_name ''X'' c) (cfg_map c) \<and>
   is_screen (get_canonical_name ''X'' c) c \<and>
   caseless_equal (get_canonical_name (get_canonical_name ''X'' c) c) (get_canonical_name ''X'' c)"
  unfolding Let_def
proof (rule canonical_name_resolves)
  show "is_screen ''X'' (snd (add_alias ''a'' ''x'' (snd (add_screen (\<lambda>_. []) ''a'' (config_init () ())))))"
    by code_simp
qed (intro built.intros)

text \<open>
  Screen names are not checked. The comment above the loop of \<^verbatim>\<open>isValidScreenName\<close> gives a
  grammar of valid names, but the loop's condition is false for every non-empty name, so the
  function accepts all of them.
\<close>

theorem every_nonempty_name_valid: "is_valid_screen_name name \<longleftrightarrow> name \<noteq> []"
  by (simp add: is_valid_screen_name_def valid_parts.simps)

text \<open>
  Options are not replaced. Adding an option that is already set leaves the first value,
  for the global options and for those of a screen alike; the interface's description says
  that the existing value is replaced.
\<close>

theorem add_option_keeps_first:
  assumes "built c" and "add_option name opt v1 c = (True, c1)" and "add_option name opt v2 c1 = (ok, c2)"
  shows "ok \<and> map_option (om_get (<) opt) (get_options name c2) =
    map_option (om_get (<) opt) (get_options name c1)"
proof -
  have keep: "om_emplace (<) opt v2 (om_emplace (<) opt v1 m) = om_emplace (<) opt v1 m"
    if "om_sorted (<) m" for m
  proof (rule ord.emplace_present)
    show "om_find (<) opt (om_emplace (<) opt v1 m) \<noteq> None"
      using ord.find_emplace [OF that, of opt opt v1] by (cases "om_find (<) opt m = None") auto
  qed
  note inv = config_invD [OF built_inv [OF assms(1)]]
  show ?thesis
  proof (cases "name = []")
    case True
    then show ?thesis using assms(2,3) keep [OF inv(3)] by (auto simp: add_option_def get_options_def)
  next
    case False
    let ?f = "\<lambda>v cell. cell\<lparr>cell_options := om_emplace (<) opt v (cell_options cell)\<rparr>"
    have c1: "om_contains caseless_less name (cfg_map c)"
      "c1 = c\<lparr>cfg_map := om_adjust caseless_less name (?f v1) (cfg_map c)\<rparr>"
      using assms(2) False by (auto simp: add_option_def split: if_splits)
    then have c2: "ok" "c2 = c1\<lparr>cfg_map := om_adjust caseless_less name (?f v2) (cfg_map c1)\<rparr>"
      using assms(3) False contains_adjust [OF inv(1)] by (auto simp: add_option_def)
    obtain k cell where f: "om_find caseless_less name (cfg_map c) = Some (k, cell)"
      using c1(1) by (auto simp: om_contains_def)
    have "om_sorted (<) (cell_options cell)"
      using inv(4) [OF om_find_mem [OF f]] by (simp add: cell_inv_def)
    then show ?thesis
      using False c1(2) c2 f inv(1) keep
      by (simp add: get_options_def om_get_def caseless.find_adjust)
  qed
qed

lemma add_option_keeps_first_witness:
  "True \<and> map_option (om_get (<) 7) (get_options [] (config_init () ()\<lparr>cfg_options := [(7, 1)]\<rparr>)) =
    map_option (om_get (<) 7) (get_options [] (config_init () ()\<lparr>cfg_options := [(7, 1)]\<rparr>))"
  by (rule add_option_keeps_first [where ok = True and name = "[]" and ?v1.0 = 1 and ?v2.0 = 2, OF built_init])
    (simp_all add: add_option_def config_init_def)

end
