(* ===== verification/Clipboards.thy ===== *)
theory Clipboards
  imports Prelude
begin

text \<open>
  Clipboards: the interface \<^verbatim>\<open>IClipboard\<close> with its marshalling and copying, and the in-memory
  clipboard of \<^verbatim>\<open>src/lib/deskflow/Clipboard.cpp\<close>. The virtual functions are a record of
  operations (\<open>clipboard_ops\<close>), so that \<open>marshall\<close>, \<open>unmarshall\<close> and \<open>copy\<close> are written once
  over the interface, as in \<^verbatim>\<open>IClipboard.cpp\<close>; the locale \<open>clipboard_interface\<close> states what
  they rely on and is interpreted on the in-memory clipboard. An access of the format arrays
  out of their bounds is undefined in C++ and is \<^const>\<open>None\<close> here.
\<close>

section \<open>The interface\<close>

text \<open>\<^verbatim>\<open>Format::TotalFormats\<close>: text, HTML, bitmap, files, image file.\<close>

definition total_formats :: int where
  "total_formats = 5"

record 'c clipboard_ops =
  do_open :: "u32 \<Rightarrow> 'c \<Rightarrow> bool \<times> 'c"
  do_close :: "'c \<Rightarrow> 'c"
  do_empty :: "'c \<Rightarrow> bool \<times> 'c"
  do_add :: "int \<Rightarrow> bytes \<Rightarrow> 'c \<Rightarrow> 'c option"
  do_has :: "int \<Rightarrow> 'c \<Rightarrow> bool"
  do_get :: "int \<Rightarrow> 'c \<Rightarrow> bytes"
  do_get_time :: "'c \<Rightarrow> u32"

definition readUInt32 :: "bytes \<Rightarrow> u32" where
  "readUInt32 b = un_be32 (b ! 0) (b ! 1) (b ! 2) (b ! 3)"

definition writeUInt32 :: "bytes \<Rightarrow> u32 \<Rightarrow> bytes" where
  "writeUInt32 buf v = buf @ be32 v"

text \<open>
  The loop over the formats of a message. The format number is an enumerator with a signed
  underlying type: a number of \<open>2^31\<close> or more is negative after the cast and passes the
  comparison with \<^verbatim>\<open>TotalFormats\<close>.
\<close>

fun unmarshall_loop :: "('c, 'z) clipboard_ops_scheme \<Rightarrow> nat \<Rightarrow> bytes \<Rightarrow> 'c \<Rightarrow> 'c option" where
  "unmarshall_loop ops 0 d c = Some c"
| "unmarshall_loop ops (Suc n) d c =
     (if length d < 8 then Some c
      else
        let format = sint (readUInt32 d);
            size = readUInt32 (drop 4 d);
            d' = drop 8 d
        in
        if of_nat (length d') < size then Some c
        else
          case (if format < total_formats
                then do_add ops format (take (unat size) d') c else Some c) of
            None \<Rightarrow> None
          | Some c' \<Rightarrow> unmarshall_loop ops n (drop (unat size) d') c')"

definition unmarshall :: "('c, 'z) clipboard_ops_scheme \<Rightarrow> bytes \<Rightarrow> u32 \<Rightarrow> 'c \<Rightarrow> 'c option" where
  "unmarshall ops d time c =
     (case do_open ops time c of (ok, c1) \<Rightarrow>
        if ok then
          let c2 = snd (do_empty ops c1) in
          if length d < 4 then Some (do_close ops c2)
          else map_option (do_close ops)
                 (unmarshall_loop ops (unat (readUInt32 d)) (drop 4 d) c2)
        else Some c1)"

fun marshall_formats ::
    "('c, 'z) clipboard_ops_scheme \<Rightarrow> 'c \<Rightarrow> int list \<Rightarrow> bytes \<Rightarrow> bytes" where
  "marshall_formats ops c [] buf = buf"
| "marshall_formats ops c (f # fs) buf =
     (if do_has ops f c then
        let d = do_get ops f c in
        marshall_formats ops c fs
          (writeUInt32 (writeUInt32 buf (of_int f)) (of_nat (length d)) @ d)
      else marshall_formats ops c fs buf)"

definition marshall :: "('c, 'z) clipboard_ops_scheme \<Rightarrow> 'c \<Rightarrow> bytes \<times> 'c" where
  "marshall ops c =
     (case do_open ops 0 c of (ok, c1) \<Rightarrow>
        if ok then
          let formats = [0 .. total_formats - 1];
              n = length (filter (\<lambda>f. do_has ops f c1) formats)
          in (marshall_formats ops c1 formats (writeUInt32 [] (of_nat n)), do_close ops c1)
        else ([], c1))"

fun copy_formats ::
    "('c, 'z) clipboard_ops_scheme \<Rightarrow> ('d, 'y) clipboard_ops_scheme \<Rightarrow> int list \<Rightarrow> 'd \<Rightarrow> 'c \<Rightarrow> 'd option" where
  "copy_formats src_ops dst_ops [] dst src = Some dst"
| "copy_formats src_ops dst_ops (f # fs) dst src =
     (if do_has src_ops f src then
        case do_add dst_ops f (do_get src_ops f src) dst of
          None \<Rightarrow> None
        | Some dst' \<Rightarrow> copy_formats src_ops dst_ops fs dst' src
      else copy_formats src_ops dst_ops fs dst src)"

definition copy_at ::
    "('c, 'z) clipboard_ops_scheme \<Rightarrow> ('d, 'y) clipboard_ops_scheme \<Rightarrow> 'd \<Rightarrow> 'c \<Rightarrow> u32 \<Rightarrow>
     (bool \<times> 'd \<times> 'c) option" where
  "copy_at src_ops dst_ops dst src time =
     (case do_open src_ops time src of (sok, src1) \<Rightarrow>
        if \<not> sok then Some (False, dst, src1)
        else case do_open dst_ops time dst of (dok, dst1) \<Rightarrow>
          if \<not> dok then Some (False, dst1, do_close src_ops src1)
          else case do_empty dst_ops dst1 of (eok, dst2) \<Rightarrow>
            if \<not> eok then Some (False, do_close dst_ops dst2, do_close src_ops src1)
            else map_option (\<lambda>dst3. (True, do_close dst_ops dst3, do_close src_ops src1))
                   (copy_formats src_ops dst_ops [0 .. total_formats - 1] dst2 src1))"

definition copy ::
    "('c, 'z) clipboard_ops_scheme \<Rightarrow> ('d, 'y) clipboard_ops_scheme \<Rightarrow> 'd \<Rightarrow> 'c \<Rightarrow>
     (bool \<times> 'd \<times> 'c) option" where
  "copy src_ops dst_ops dst src = copy_at src_ops dst_ops dst src (do_get_time src_ops src)"

section \<open>The in-memory clipboard\<close>

record clipboard =
  cb_open :: bool
  cb_time :: u32
  cb_owner :: bool
  cb_time_owned :: u32
  cb_added :: "bool list"
  cb_data :: "bytes list"

definition cb_do_open :: "u32 \<Rightarrow> clipboard \<Rightarrow> bool \<times> clipboard" where
  "cb_do_open time c = (if cb_open c then (True, c) else (True, c\<lparr>cb_open := True, cb_time := time\<rparr>))"

definition cb_do_close :: "clipboard \<Rightarrow> clipboard" where
  "cb_do_close c = c\<lparr>cb_open := False\<rparr>"

definition cb_do_empty :: "clipboard \<Rightarrow> bool \<times> clipboard" where
  "cb_do_empty c =
     (if \<not> cb_open c then (False, c)
      else (True, c\<lparr>cb_data := replicate (nat total_formats) [],
                    cb_added := replicate (nat total_formats) False,
                    cb_time_owned := cb_time c, cb_owner := True\<rparr>))"

definition cb_do_add :: "int \<Rightarrow> bytes \<Rightarrow> clipboard \<Rightarrow> clipboard option" where
  "cb_do_add f d c =
     (if \<not> cb_open c then Some c
      else if \<not> cb_owner c then Some c
      else if f < 0 \<or> total_formats \<le> f then None
      else Some (c\<lparr>cb_data := (cb_data c)[nat f := d], cb_added := (cb_added c)[nat f := True]\<rparr>))"

definition cb_do_has :: "int \<Rightarrow> clipboard \<Rightarrow> bool" where
  "cb_do_has f c = (if \<not> cb_open c then False else cb_added c ! nat f)"

definition cb_do_get :: "int \<Rightarrow> clipboard \<Rightarrow> bytes" where
  "cb_do_get f c = (if \<not> cb_open c then [] else cb_data c ! nat f)"

definition memory_clipboard :: "clipboard clipboard_ops" where
  "memory_clipboard = \<lparr>do_open = cb_do_open, do_close = cb_do_close, do_empty = cb_do_empty,
     do_add = cb_do_add, do_has = cb_do_has, do_get = cb_do_get, do_get_time = cb_time_owned\<rparr>"

definition cb_init :: clipboard where
  "cb_init = cb_do_close (snd (cb_do_empty (snd (cb_do_open 0
     \<lparr>cb_open = False, cb_time = 0, cb_owner = False, cb_time_owned = 0,
      cb_added = replicate (nat total_formats) False,
      cb_data = replicate (nat total_formats) []\<rparr>))))"

definition cb_marshall :: "clipboard \<Rightarrow> bytes \<times> clipboard" where
  "cb_marshall c = marshall memory_clipboard c"

definition cb_unmarshall :: "bytes \<Rightarrow> u32 \<Rightarrow> clipboard \<Rightarrow> clipboard option" where
  "cb_unmarshall d time c = unmarshall memory_clipboard d time c"

section \<open>What marshalling relies on\<close>

type_synonym contents = "int \<Rightarrow> bytes option"

definition formats :: "int list" where
  "formats = [0 .. total_formats - 1]"

lemma formats_eq: "formats = [0, 1, 2, 3, 4]"
  by (simp add: formats_def total_formats_def upto.simps)

lemma set_formats [simp]: "f \<in> set formats \<longleftrightarrow> 0 \<le> f \<and> f < total_formats"
  by (auto simp: formats_def)

fun encode_formats :: "contents \<Rightarrow> int list \<Rightarrow> bytes" where
  "encode_formats m [] = []"
| "encode_formats m (f # fs) =
     (case m f of None \<Rightarrow> [] | Some d \<Rightarrow> be32 (of_int f) @ be32 (of_nat (length d)) @ d) @
     encode_formats m fs"

text \<open>The message for a clipboard's contents.\<close>

definition encode :: "contents \<Rightarrow> bytes" where
  "encode m = be32 (of_nat (length (filter (\<lambda>f. m f \<noteq> None) formats))) @ encode_formats m formats"

lemma readUInt32_be32 [simp]: "readUInt32 (be32 v @ d) = v"
  by (rule be32_cases [of v]) (simp add: readUInt32_def)

lemma sint_format: "0 \<le> f \<Longrightarrow> f < total_formats \<Longrightarrow> sint (of_int f :: u32) = f"
  by (simp add: signed_of_int signed_take_bit_int_eq_self total_formats_def)

lemma unat_of_nat_len: "n < 2 ^ 32 \<Longrightarrow> unat (of_nat n :: u32) = n"
  by (simp add: unat_of_nat take_bit_nat_eq_self)

text \<open>One complete record at the head of a message.\<close>

lemma unmarshall_record:
  assumes "length (d @ r) < 2 ^ 32"
  shows "unmarshall_loop ops (Suc n) (be32 v @ be32 (of_nat (length d)) @ d @ r) c =
    (case (if sint v < total_formats then do_add ops (sint v) d c else Some c) of
       None \<Rightarrow> None | Some c' \<Rightarrow> unmarshall_loop ops n r c')"
proof -
  have len: "unat (of_nat (length d) :: u32) = length d"
    using assms by (simp add: unat_of_nat take_bit_nat_eq_self)
  have "unat (of_nat (length (d @ r)) :: u32) = length (d @ r)"
    using assms unat_of_nat_len [of "length (d @ r)"] by blast
  then have "\<not> (of_nat (length (d @ r)) :: u32) < of_nat (length d)"
    by (simp only: word_less_nat_alt len) simp
  then show ?thesis
    using readUInt32_be32 [of v "be32 (of_nat (length d)) @ d @ r"]
      readUInt32_be32 [of "of_nat (length d)" "d @ r"]
    by (simp add: len Let_def split: option.split)
qed

lemma unmarshall_loop_short: "length d < 8 \<Longrightarrow> unmarshall_loop ops n d c = Some c"
  by (cases n) simp_all

lemma unmarshall_loop_cut:
  assumes "length p < length d" and "length d < 2 ^ 32"
  shows "unmarshall_loop ops n (be32 v @ be32 (of_nat (length d)) @ p) c = Some c"
proof (cases n)
  case (Suc k)
  have "(of_nat (length p) :: u32) < of_nat (length d)"
    using assms by (simp add: word_less_nat_alt unat_of_nat take_bit_nat_eq_self)
  then show ?thesis
    using Suc readUInt32_be32 [of "of_nat (length d)" p] by (simp add: Let_def)
qed simp

locale clipboard_interface =
  fixes ops :: "'c clipboard_ops" and inv :: "'c \<Rightarrow> bool" and is_open :: "'c \<Rightarrow> bool"
    and owned :: "'c \<Rightarrow> bool" and view :: "'c \<Rightarrow> contents"
  assumes open_law: "inv c \<Longrightarrow> do_open ops t c = (ok, c') \<Longrightarrow>
      ok \<and> inv c' \<and> is_open c' \<and> view c' = view c"
    and close_law: "inv c \<Longrightarrow> inv (do_close ops c) \<and> \<not> is_open (do_close ops c) \<and>
      view (do_close ops c) = view c"
    and empty_law: "inv c \<Longrightarrow> is_open c \<Longrightarrow> do_empty ops c = (ok, c') \<Longrightarrow>
      ok \<and> inv c' \<and> is_open c' \<and> owned c' \<and> view c' = (\<lambda>_. None)"
    and add_law: "inv c \<Longrightarrow> is_open c \<Longrightarrow> owned c \<Longrightarrow> 0 \<le> f \<Longrightarrow> f < total_formats \<Longrightarrow>
      \<exists>c'. do_add ops f d c = Some c' \<and> inv c' \<and> is_open c' \<and> owned c' \<and> view c' = (view c)(f := Some d)"
    and has_law: "inv c \<Longrightarrow> is_open c \<Longrightarrow> 0 \<le> f \<Longrightarrow> f < total_formats \<Longrightarrow>
      do_has ops f c \<longleftrightarrow> view c f \<noteq> None"
    and get_law: "inv c \<Longrightarrow> is_open c \<Longrightarrow> 0 \<le> f \<Longrightarrow> f < total_formats \<Longrightarrow>
      view c f = Some d \<Longrightarrow> do_get ops f c = d"
    and view_formats: "inv c \<Longrightarrow> view c f \<noteq> None \<Longrightarrow> 0 \<le> f \<and> f < total_formats"
begin

lemma marshall_formats_eq:
  assumes "inv c" and "is_open c" and "set fs \<subseteq> set formats"
  shows "marshall_formats ops c fs buf = buf @ encode_formats (view c) fs"
  using assms(3)
proof (induction fs arbitrary: buf)
  case (Cons f fs)
  then have f: "0 \<le> f" "f < total_formats" by simp_all
  show ?case
  proof (cases "view c f")
    case None
    then show ?thesis using Cons has_law [OF assms(1,2) f] by simp
  next
    case (Some d)
    then show ?thesis using Cons has_law [OF assms(1,2) f] get_law [OF assms(1,2) f Some]
      by (simp add: writeUInt32_def Let_def)
  qed
qed simp

lemma marshall_encode:
  assumes "inv c"
  shows "\<exists>c'. marshall ops c = (encode (view c), c') \<and> inv c' \<and> view c' = view c"
proof -
  obtain ok c1 where o: "do_open ops 0 c = (ok, c1)" by fastforce
  note c1 = open_law [OF assms o]
  have "filter (\<lambda>f. do_has ops f c1) formats = filter (\<lambda>f. view c f \<noteq> None) formats"
    using c1 has_law [of c1] by (intro filter_cong) simp_all
  moreover have "marshall_formats ops c1 formats buf = buf @ encode_formats (view c) formats" for buf
    using marshall_formats_eq [of c1 formats buf] c1 by simp
  ultimately show ?thesis
    using o c1 close_law [of c1]
    by (simp add: marshall_def encode_def writeUInt32_def formats_def Let_def)
qed

lemma unmarshall_loop_formats:
  assumes "inv c" and "is_open c" and "owned c" and "set fs \<subseteq> set formats"
    and "length (encode_formats m fs) < 2 ^ 32"
  shows "\<exists>c'. unmarshall_loop ops (length (filter (\<lambda>f. m f \<noteq> None) fs)) (encode_formats m fs) c = Some c' \<and>
    inv c' \<and> view c' = (\<lambda>f. if f \<in> set fs \<and> m f \<noteq> None then m f else view c f)"
  using assms
proof (induction fs arbitrary: c)
  case (Cons f fs)
  then have f: "0 \<le> f" "f < total_formats" by simp_all
  show ?case
  proof (cases "m f")
    case None
    have "length (encode_formats m fs) < 2 ^ 32" using Cons.prems(5) by simp
    from Cons.IH [OF Cons.prems(1-3) _ this] Cons.prems(4)
    show ?thesis using None by (auto intro!: ext)
  next
    case (Some d)
    from add_law [OF Cons.prems(1-3) f, of d] obtain c1 where
      c1: "do_add ops f d c = Some c1" "inv c1" "is_open c1" "owned c1" "view c1 = (view c)(f := Some d)"
      by blast
    have "length (encode_formats m fs) < 2 ^ 32" using Cons.prems(5) by simp
    from Cons.IH [OF c1(2-4) _ this] Cons.prems(4) obtain c' where
      c': "unmarshall_loop ops (length (filter (\<lambda>f. m f \<noteq> None) fs)) (encode_formats m fs) c1 = Some c'"
        "inv c'" "view c' = (\<lambda>f. if f \<in> set fs \<and> m f \<noteq> None then m f else view c1 f)"
      by auto
    have "length (d @ encode_formats m fs) < 2 ^ 32" using Cons.prems(5) Some by simp
    from unmarshall_record [OF this, of ops _ "of_int f" c] c' c1 Some sint_format [OF f] f
    show ?thesis by (auto intro!: ext)
  qed
qed simp

text \<open>A message cut short adds complete formats only.\<close>

lemma unmarshall_loop_prefix:
  assumes "inv c" and "is_open c" and "owned c" and "set fs \<subseteq> set formats"
    and "length (encode_formats m fs) < 2 ^ 32" and "encode_formats m fs = p @ q"
  shows "\<exists>c'. unmarshall_loop ops n p c = Some c' \<and> inv c' \<and>
    (\<forall>f. view c' f = view c f \<or> (view c' f = m f \<and> m f \<noteq> None))"
  using assms
proof (induction fs arbitrary: c p n)
  case Nil
  then show ?case by (simp add: unmarshall_loop_short)
next
  case (Cons f fs)
  then have f: "0 \<le> f" "f < total_formats" by simp_all
  have len: "length (encode_formats m fs) < 2 ^ 32" using Cons.prems(5) by simp
  show ?case
  proof (cases "m f")
    case None
    with Cons.IH [OF Cons.prems(1-3) _ len, of p n] Cons.prems(4,6) show ?thesis by simp
  next
    case (Some d)
    let ?h = "be32 (of_int f) @ be32 (of_nat (length d))"
    have whole: "p @ q = ?h @ d @ encode_formats m fs" using Cons.prems(6) Some by simp
    show ?thesis
    proof (cases "length p < 8 + length d \<or> n = 0")
      case True
      have "unmarshall_loop ops n p c = Some c"
      proof (cases "length p < 8")
        case True
        then show ?thesis by (rule unmarshall_loop_short)
      next
        case False
        show ?thesis
        proof (cases "n = 0")
          case False
          obtain p' where p': "p = ?h @ p'"
            by (rule append_eq_prefixE [of p q ?h "d @ encode_formats m fs"])
              (use whole \<open>\<not> length p < 8\<close> in simp_all)
          have "unmarshall_loop ops n (be32 (of_int f) @ be32 (of_nat (length d)) @ p') c = Some c"
            using True False p' Cons.prems(5) Some by (intro unmarshall_loop_cut) auto
          then show ?thesis using p' by simp
        qed simp
      qed
      with Cons.prems(1) show ?thesis by blast
    next
      case False
      then obtain k where n: "n = Suc k" by (cases n) auto
      obtain r where p: "p = ?h @ d @ r" and rest: "encode_formats m fs = r @ q"
        by (rule append_eq_prefixE [of p q "?h @ d" "encode_formats m fs"])
          (use whole False in simp_all)
      from add_law [OF Cons.prems(1-3) f, of d] obtain c1 where
        c1: "do_add ops f d c = Some c1" "inv c1" "is_open c1" "owned c1" "view c1 = (view c)(f := Some d)"
        by blast
      from Cons.IH [OF c1(2-4) _ len rest, of k] Cons.prems(4) obtain c' where
        c': "unmarshall_loop ops k r c1 = Some c'" "inv c'"
          "\<forall>g. view c' g = view c1 g \<or> (view c' g = m g \<and> m g \<noteq> None)" by auto
      have "length (d @ r) < 2 ^ 32" using Cons.prems(5) Some rest by simp
      from unmarshall_record [OF this, of ops k "of_int f" c] c1(1) c'(1) sint_format [OF f] f
      have "unmarshall_loop ops n p c = Some c'" unfolding p n by simp
      moreover have "view c' g = view c g \<or> (view c' g = m g \<and> m g \<noteq> None)" for g
        using c'(3) c1(5) Some by (metis fun_upd_other fun_upd_same option.distinct(1))
      ultimately show ?thesis using c'(2) by blast
    qed
  qed
qed

lemma opened:
  assumes "inv c"
  obtains c1 c2 where "do_open ops t c = (True, c1)" "do_empty ops c1 = (True, c2)"
    "inv c2" "is_open c2" "owned c2" "view c2 = (\<lambda>_. None)"
proof -
  obtain ok c1 where o: "do_open ops t c = (ok, c1)" by fastforce
  note c1 = open_law [OF assms o]
  obtain ok' c2 where e: "do_empty ops c1 = (ok', c2)" by fastforce
  with empty_law [of c1 ok' c2] c1 o that show thesis by auto
qed

lemma unmarshall_encode:
  assumes "inv c" and "length (encode m) < 2 ^ 32" and "\<And>f. m f \<noteq> None \<Longrightarrow> 0 \<le> f \<and> f < total_formats"
  shows "\<exists>c'. unmarshall ops (encode m) t c = Some c' \<and> inv c' \<and> \<not> is_open c' \<and> view c' = m"
proof -
  let ?n = "length (filter (\<lambda>f. m f \<noteq> None) formats)"
  obtain c1 c2 where c: "do_open ops t c = (True, c1)" "do_empty ops c1 = (True, c2)"
    "inv c2" "is_open c2" "owned c2" "view c2 = (\<lambda>_. None)"
    by (rule opened [OF assms(1)])
  have len: "length (encode_formats m formats) < 2 ^ 32" using assms(2) by (simp add: encode_def)
  have "?n \<le> 5" using length_filter_le [of "\<lambda>f. m f \<noteq> None" formats] by (simp add: formats_eq)
  then have n: "unat (of_nat ?n :: u32) = ?n" by (simp add: unat_of_nat take_bit_nat_eq_self)
  have "(if f \<in> set formats \<and> m f \<noteq> None then m f else view c2 f) = m f" for f
    using assms(3) [of f] c(6) by (cases "m f") auto
  then have "(\<lambda>f. if f \<in> set formats \<and> m f \<noteq> None then m f else view c2 f) = m" by blast
  with unmarshall_loop_formats [OF c(3-5) _ len] obtain c' where
    "unmarshall_loop ops ?n (encode_formats m formats) c2 = Some c'" "inv c'" "view c' = m" by auto
  then show ?thesis using c(1,2) n close_law [of c'] by (simp add: unmarshall_def encode_def)
qed

lemma unmarshall_prefix:
  assumes "inv c" and "length (encode m) < 2 ^ 32" and "encode m = p @ q"
  shows "\<exists>c'. unmarshall ops p t c = Some c' \<and> inv c' \<and> \<not> is_open c' \<and>
    (\<forall>f d. view c' f = Some d \<longrightarrow> m f = Some d)"
proof -
  obtain c1 c2 where c: "do_open ops t c = (True, c1)" "do_empty ops c1 = (True, c2)"
    "inv c2" "is_open c2" "owned c2" "view c2 = (\<lambda>_. None)"
    by (rule opened [OF assms(1)])
  show ?thesis
  proof (cases "length p < 4")
    case True
    then show ?thesis using c close_law [of c2] by (simp add: unmarshall_def)
  next
    case False
    have "encode_formats m formats = drop 4 (encode m)" by (simp add: encode_def)
    also have "\<dots> = drop 4 p @ q" using False assms(3) by simp
    finally have pq: "encode_formats m formats = drop 4 p @ q" .
    have "length (encode_formats m formats) < 2 ^ 32" using assms(2) by (simp add: encode_def)
    from unmarshall_loop_prefix [OF c(3-5) _ this pq, of "unat (readUInt32 p)"] obtain c' where
      c': "unmarshall_loop ops (unat (readUInt32 p)) (drop 4 p) c2 = Some c'" "inv c'"
        "\<forall>f. view c' f = view c2 f \<or> (view c' f = m f \<and> m f \<noteq> None)" by auto
    then have "view c' f = Some d \<Longrightarrow> m f = Some d" for f d
      using c(6) by (metis option.distinct(1))
    then show ?thesis using c(1,2) c' False close_law [of c'] by (simp add: unmarshall_def)
  qed
qed

end

section \<open>Copying\<close>

locale clipboard_copy =
  src: clipboard_interface sops sinv sopen sowned sview +
  dst: clipboard_interface dops dinv dopen downed dview
  for sops :: "'c clipboard_ops" and sinv sopen sowned sview
    and dops :: "'d clipboard_ops" and dinv dopen downed dview
begin

lemma copy_formats_view:
  assumes "sinv s" and "sopen s" and "dinv d" and "dopen d" and "downed d" and "set fs \<subseteq> set formats"
  shows "\<exists>d'. copy_formats sops dops fs d s = Some d' \<and> dinv d' \<and> dopen d' \<and>
    dview d' = (\<lambda>f. if f \<in> set fs \<and> sview s f \<noteq> None then sview s f else dview d f)"
  using assms(3-6)
proof (induction fs arbitrary: d)
  case (Cons f fs)
  then have f: "0 \<le> f" "f < total_formats" by simp_all
  show ?case
  proof (cases "sview s f")
    case None
    with Cons.IH [OF Cons.prems(1-3)] Cons.prems(4) src.has_law [OF assms(1,2) f]
    show ?thesis by (auto intro!: ext)
  next
    case (Some x)
    from dst.add_law [OF Cons.prems(1-3) f, of x] obtain d1 where
      d1: "do_add dops f x d = Some d1" "dinv d1" "dopen d1" "downed d1" "dview d1 = (dview d)(f := Some x)"
      by blast
    from Cons.IH [OF d1(2-4)] Cons.prems(4) d1 Some src.has_law [OF assms(1,2) f]
      src.get_law [OF assms(1,2) f Some]
    show ?thesis by (auto intro!: ext)
  qed
qed simp

lemma copy_at_view:
  assumes "sinv s" and "dinv d"
  shows "\<exists>d' s'. copy_at sops dops d s t = Some (True, d', s') \<and> dinv d' \<and> \<not> dopen d' \<and>
    dview d' = sview s \<and> sinv s' \<and> sview s' = sview s"
proof -
  obtain ok s1 where o: "do_open sops t s = (ok, s1)" by fastforce
  note s1 = src.open_law [OF assms(1) o]
  obtain d1 d2 where d: "do_open dops t d = (True, d1)" "do_empty dops d1 = (True, d2)"
    "dinv d2" "dopen d2" "downed d2" "dview d2 = (\<lambda>_. None)"
    by (rule dst.opened [OF assms(2)])
  from copy_formats_view [of s1 d2 formats] s1 d obtain d3 where
    d3: "copy_formats sops dops formats d2 s1 = Some d3" "dinv d3"
      "dview d3 = (\<lambda>f. if f \<in> set formats \<and> sview s1 f \<noteq> None then sview s1 f else dview d2 f)" by auto
  have "dview d3 f = sview s f" for f
    using d3(3) s1 src.view_formats [of s1 f] d(6) by (cases "sview s f") auto
  then have "dview d3 = sview s" by blast
  with d3 o s1 d dst.close_law [of d3] src.close_law [of s1] show ?thesis
    by (simp add: copy_at_def formats_def)
qed

end

section \<open>The in-memory clipboard provides the interface\<close>

definition cb_inv :: "clipboard \<Rightarrow> bool" where
  "cb_inv c \<longleftrightarrow> length (cb_data c) = nat total_formats \<and> length (cb_added c) = nat total_formats"

definition cb_view :: "clipboard \<Rightarrow> contents" where
  "cb_view c f = (if 0 \<le> f \<and> f < total_formats \<and> cb_added c ! nat f then Some (cb_data c ! nat f) else None)"

lemmas cb_defs = memory_clipboard_def cb_do_open_def cb_do_close_def cb_do_empty_def cb_do_add_def
  cb_do_has_def cb_do_get_def cb_inv_def

interpretation mem: clipboard_interface memory_clipboard cb_inv cb_open cb_owner cb_view
proof
  fix c c' t ok
  assume "cb_inv c" and "do_open memory_clipboard t c = (ok, c')"
  then show "ok \<and> cb_inv c' \<and> cb_open c' \<and> cb_view c' = cb_view c"
    by (auto simp: cb_defs cb_view_def split: if_splits)
next
  fix c c' ok
  assume "cb_inv c" and "cb_open c" and "do_empty memory_clipboard c = (ok, c')"
  then show "ok \<and> cb_inv c' \<and> cb_open c' \<and> cb_owner c' \<and> cb_view c' = (\<lambda>_. None)"
    by (auto simp: cb_defs cb_view_def)
next
  fix c f d
  assume "cb_inv c" and "cb_open c" and "cb_owner c" and "0 \<le> f" and "f < total_formats"
  then show "\<exists>c'. do_add memory_clipboard f d c = Some c' \<and> cb_inv c' \<and> cb_open c' \<and> cb_owner c' \<and>
      cb_view c' = (cb_view c)(f := Some d)"
    by (auto simp: cb_defs cb_view_def nth_list_update nat_eq_iff2 intro!: ext)
qed (auto simp: cb_defs cb_view_def split: if_splits)

interpretation mem_copy: clipboard_copy memory_clipboard cb_inv cb_open cb_owner cb_view
    memory_clipboard cb_inv cb_open cb_owner cb_view
  by unfold_locales

lemma cb_init_inv [simp]: "cb_inv cb_init"
  by (simp add: cb_init_def cb_defs)

section \<open>Properties\<close>

text \<open>
  C12. Clipboards survive the wire. Marshalling a clipboard and unmarshalling the result into any
  other clipboard makes the two hold the same formats with the same data, whatever the second
  held before, as long as the message is shorter than \<open>2^32\<close> bytes.
\<close>

theorem clipboard_roundtrip:
  assumes "cb_inv c" and "cb_inv d" and "length (fst (cb_marshall c)) < 2 ^ 32"
  shows "\<exists>d'. cb_unmarshall (fst (cb_marshall c)) t d = Some d' \<and> cb_inv d' \<and> \<not> cb_open d' \<and>
    cb_view d' = cb_view c"
proof -
  have "fst (cb_marshall c) = encode (cb_view c)"
    using mem.marshall_encode [OF assms(1)] by (auto simp: cb_marshall_def)
  with mem.unmarshall_encode [OF assms(2), of "cb_view c" t] assms(3) show ?thesis
    by (simp add: cb_unmarshall_def) (use cb_view_def in \<open>metis option.distinct(1)\<close>)
qed

lemma clipboard_roundtrip_witness:
  "\<exists>d'. cb_unmarshall (fst (cb_marshall (cb_init\<lparr>cb_added := [True, False, False, False, False],
      cb_data := [[104, 105], [], [], [], []]\<rparr>))) 7 cb_init = Some d' \<and> cb_inv d' \<and> \<not> cb_open d' \<and>
    cb_view d' = cb_view (cb_init\<lparr>cb_added := [True, False, False, False, False],
      cb_data := [[104, 105], [], [], [], []]\<rparr>)"
  by (rule clipboard_roundtrip)
    (simp_all add: cb_init_def cb_inv_def cb_defs cb_marshall_def marshall_def total_formats_def
      upto.simps writeUInt32_def)

text \<open>
  Truncated clipboard messages. Unmarshalling any initial part of a clipboard message
  succeeds, closes the clipboard and leaves in it only formats of the original, each complete.
\<close>

theorem clipboard_truncated:
  assumes "cb_inv c" and "cb_inv d" and "length (fst (cb_marshall c)) < 2 ^ 32"
    and "fst (cb_marshall c) = p @ q"
  shows "\<exists>d'. cb_unmarshall p t d = Some d' \<and> cb_inv d' \<and> \<not> cb_open d' \<and>
    (\<forall>f x. cb_view d' f = Some x \<longrightarrow> cb_view c f = Some x)"
proof -
  have "fst (cb_marshall c) = encode (cb_view c)"
    using mem.marshall_encode [OF assms(1)] by (auto simp: cb_marshall_def)
  with mem.unmarshall_prefix [OF assms(2), of "cb_view c" p q t] assms(3,4) show ?thesis
    by (simp add: cb_unmarshall_def)
qed

lemma clipboard_truncated_witness:
  "\<exists>d'. cb_unmarshall [0, 0, 0, 1, 0, 0, 0, 0, 0, 0, 0, 2, 104] 7 cb_init = Some d' \<and> cb_inv d' \<and> \<not> cb_open d' \<and>
    (\<forall>f x. cb_view d' f = Some x \<longrightarrow> cb_view (cb_init\<lparr>cb_added := [True, False, False, False, False],
      cb_data := [[104, 105], [], [], [], []]\<rparr>) f = Some x)"
  by (rule clipboard_truncated [where q = "[105]"])
    (simp_all add: cb_init_def cb_inv_def cb_defs cb_marshall_def marshall_def total_formats_def
      upto.simps writeUInt32_def be32_def)

text \<open>
  Copying. \<^verbatim>\<open>IClipboard::copy\<close> between two in-memory clipboards succeeds, leaves both closed
  for the copy and the same contents in both.
\<close>

theorem clipboard_copy_contents:
  assumes "cb_inv s" and "cb_inv d"
  shows "\<exists>d' s'. copy memory_clipboard memory_clipboard d s = Some (True, d', s') \<and> cb_inv d' \<and>
    \<not> cb_open d' \<and> cb_view d' = cb_view s \<and> cb_view s' = cb_view s"
  using mem_copy.copy_at_view [OF assms, of "do_get_time memory_clipboard s"]
  unfolding copy_def by blast

lemma clipboard_copy_contents_witness:
  "\<exists>d' s'. copy memory_clipboard memory_clipboard cb_init cb_init = Some (True, d', s') \<and> cb_inv d' \<and>
    \<not> cb_open d' \<and> cb_view d' = cb_view cb_init \<and> cb_view s' = cb_view cb_init"
  by (rule clipboard_copy_contents) simp_all

text \<open>
  A format number with its top bit set is not refused. The cast to the format enumeration
  makes it negative, the comparison with the number of formats lets it pass, and the clipboard
  writes outside its arrays (undefined behaviour), for every payload that follows.
\<close>

theorem negative_format_out_of_bounds:
  assumes "cb_inv c" and neg: "sint f < 0" and "length d < 2 ^ 32"
  shows "cb_unmarshall (be32 1 @ be32 f @ be32 (of_nat (length d)) @ d) t c = None"
proof -
  obtain c1 c2 where c: "do_open memory_clipboard t c = (True, c1)" "do_empty memory_clipboard c1 = (True, c2)"
    "cb_inv c2" "cb_open c2" "cb_owner c2" "cb_view c2 = (\<lambda>_. None)"
    by (rule mem.opened [OF assms(1)])
  have "do_add memory_clipboard (sint f) d c2 = None"
    using c(4,5) neg by (simp add: cb_defs)
  then have "unmarshall_loop memory_clipboard (Suc 0) (be32 f @ be32 (of_nat (length d)) @ d @ []) c2 = None"
    using neg unmarshall_record [of d "[]" memory_clipboard 0 f c2] assms(3)
    by (simp add: total_formats_def)
  then show ?thesis using c by (simp add: cb_unmarshall_def unmarshall_def)
qed

lemma negative_format_out_of_bounds_witness:
  "cb_unmarshall (be32 1 @ be32 0xffffffff @ be32 (of_nat (length [65 :: byte])) @ [65]) 0 cb_init = None"
  by (rule negative_format_out_of_bounds) simp_all

end
