(* ===== verification/Clipboard_Chunk.thy ===== *)
theory Clipboard_Chunk
  imports Protocol_Util
begin

text \<open>
  The transfer of a clipboard in chunks: \<^verbatim>\<open>deskflow/StreamChunker.cpp\<close> cuts the marshalled
  clipboard into a start chunk with its size, data chunks of at most 512 KiB and an end
  chunk; \<^verbatim>\<open>deskflow/ClipboardChunk.cpp\<close> sends each as a message and reassembles them on the
  other side. Qt's conversions between a number and its decimal text are the parameters
  \<open>number\<close> and \<open>parse\<close>. \<^verbatim>\<open>size_t\<close> has 64 bits; the memory copies of the sequence number are
  in the order of a little-endian host.
\<close>

section \<open>Chunks\<close>

record clipboard_chunk =
  m_dataSize :: nat
  m_chunk :: bytes

definition s_clipboardChunkMetaSize :: nat where
  "s_clipboardChunkMetaSize = 7"

definition mark_start :: byte where "mark_start = 1"
definition mark_chunk :: byte where "mark_chunk = 2"
definition mark_end :: byte where "mark_end = 3"

definition kClipboardEnd :: byte where
  "kClipboardEnd = 2"

text \<open>\<^verbatim>\<open>memcpy\<close> of a \<^verbatim>\<open>uint32_t\<close> to and from the chunk.\<close>

definition mem32 :: "u32 \<Rightarrow> bytes" where
  "mem32 v = [ucast v, ucast (drop_bit 8 v), ucast (drop_bit 16 v), ucast (drop_bit 24 v)]"

definition un_mem32 :: "bytes \<Rightarrow> u32" where
  "un_mem32 d = un_be32 (d ! 3) (d ! 2) (d ! 1) (d ! 0)"

text \<open>A buffer of zeros of the size of the data and seven bytes, filled as the code fills it.\<close>

definition fill_chunk :: "byte \<Rightarrow> u32 \<Rightarrow> byte \<Rightarrow> bytes \<Rightarrow> clipboard_chunk" where
  "fill_chunk cid sequence mark str =
     (let sz = length str + s_clipboardChunkMetaSize
      in \<lparr>m_dataSize = sz - s_clipboardChunkMetaSize,
          m_chunk = cid # mem32 sequence @ mark # str @ [0]\<rparr>)"

definition chunk_start :: "byte \<Rightarrow> u32 \<Rightarrow> bytes \<Rightarrow> clipboard_chunk" where
  "chunk_start cid sequence str = fill_chunk cid sequence mark_start str"

definition chunk_data :: "byte \<Rightarrow> u32 \<Rightarrow> bytes \<Rightarrow> clipboard_chunk" where
  "chunk_data cid sequence data = fill_chunk cid sequence mark_chunk data"

definition chunk_end :: "byte \<Rightarrow> u32 \<Rightarrow> clipboard_chunk" where
  "chunk_end cid sequence = fill_chunk cid sequence mark_end []"

section \<open>Sending\<close>

definition kMsgDClipboard :: string where
  "kMsgDClipboard = ''DCLP%1i%4i%1i%s''"

definition chunk_send :: "clipboard_chunk \<Rightarrow> bytes option" where
  "chunk_send c =
     (let chunk = m_chunk c; cid = chunk ! 0; sequence = un_mem32 (take 4 (drop 1 chunk));
          mark = chunk ! 5; dataChunk = take (m_dataSize c) (drop 6 chunk)
      in writef kMsgDClipboard [Int_Arg (ucast cid), Int_Arg sequence, Int_Arg (ucast mark), Str_Arg dataChunk])"

definition g_chunkSize :: nat where
  "g_chunkSize = 512 * 1024"

text \<open>
  The loop of \<^verbatim>\<open>sendClipboard\<close>. \<^const>\<open>None\<close>: \<^verbatim>\<open>substr\<close> throws, or the copy reads past the end of
  the data, or (excluded by the loop) \<^verbatim>\<open>size - sentLength\<close> wraps. A chunk size once cut is the
  last one, so that the variable \<^verbatim>\<open>chunkSize\<close> is \<^verbatim>\<open>g_chunkSize\<close> at the start of every round.
\<close>

function sendClipboard_loop :: "bytes \<Rightarrow> nat \<Rightarrow> byte \<Rightarrow> u32 \<Rightarrow> nat \<Rightarrow> clipboard_chunk list option" where
  "sendClipboard_loop data sz cid sequence sentLength =
     (if sz < sentLength \<or> length data < sentLength then None
      else
        let chunkSize = (if sentLength + g_chunkSize > sz then sz - sentLength else g_chunkSize);
            sentLength' = sentLength + chunkSize in
        if sentLength' > length data then None
        else
          let c = chunk_data cid sequence (take chunkSize (drop sentLength data)) in
          if sentLength' = sz then Some [c]
          else map_option ((#) c) (sendClipboard_loop data sz cid sequence sentLength'))"
  by pat_completeness auto
termination
  by (relation "measure (\<lambda>(data, sz, cid, sequence, sentLength). sz - sentLength)")
    (auto simp: g_chunkSize_def)

declare sendClipboard_loop.simps [simp del]

text \<open>The chunks that \<^verbatim>\<open>sendClipboard\<close> queues, in order.\<close>

definition sendClipboard ::
    "(nat \<Rightarrow> bytes) \<Rightarrow> bytes \<Rightarrow> nat \<Rightarrow> byte \<Rightarrow> u32 \<Rightarrow> clipboard_chunk list option" where
  "sendClipboard number data sz cid sequence =
     map_option (\<lambda>cs. chunk_start cid sequence (number sz) # cs @ [chunk_end cid sequence])
       (sendClipboard_loop data sz cid sequence 0)"

section \<open>Receiving\<close>

datatype transfer_state = Started | InProgress | Finished | Error

record assembly_state =
  expectedSize :: nat
  active :: bool
  discarding :: bool

definition assembly_init :: assembly_state where
  "assembly_init = \<lparr>expectedSize = 0, active = False, discarding = False\<rparr>"

definition wouldExceed :: "nat \<Rightarrow> nat \<Rightarrow> nat \<Rightarrow> bool" where
  "wouldExceed currentSize extraSize limit \<longleftrightarrow> currentSize > limit \<or> extraSize > limit - currentSize"

text \<open>What a parsed message does to the cached data and the state of the transfer.\<close>

definition assemble_message ::
    "(bytes \<Rightarrow> 64 word option) \<Rightarrow> nat \<Rightarrow> byte \<Rightarrow> byte \<Rightarrow> bytes \<Rightarrow> bytes \<times> assembly_state \<Rightarrow>
     transfer_state \<times> bytes \<times> assembly_state" where
  "assemble_message parse maxDataSize cid mark data p =
     (let dataCached = fst p; state = snd p; reset = ([], assembly_init) in
      if cid \<ge> kClipboardEnd then (Error, reset)
      else if mark = mark_start then
        (case parse data of
           None \<Rightarrow> (Error, reset)
         | Some expected \<Rightarrow>
             if unat expected > 2 ^ 64 - 1 then (Error, reset)
             else
               let state = state\<lparr>expectedSize := unat expected, active := True,
                                 discarding := unat expected > maxDataSize\<rparr> in
               if discarding state then (InProgress, [], state) else (Started, [], state))
      else if mark = mark_chunk then
        (if \<not> active state then (Error, reset)
         else if discarding state then (InProgress, dataCached, state)
         else if wouldExceed (length dataCached) (length data) (expectedSize state) then (Error, reset)
         else (InProgress, dataCached @ data, state))
      else if mark = mark_end then
        (if \<not> active state then (Error, reset)
         else
           let state = state\<lparr>active := False\<rparr> in
           if discarding state then (InProgress, reset)
           else if expectedSize state \<noteq> length dataCached then (Error, reset)
           else (Finished, dataCached, state))
      else (Error, reset))"

text \<open>
  \<^verbatim>\<open>assemble\<close> reads the message behind its four-byte code. The exception for a bad client
  (\<^const>\<open>Inl\<close>) leaves the transfer as it is. The outputs \<^verbatim>\<open>id\<close> and \<^verbatim>\<open>sequence\<close> are returned
  when the message was read.
\<close>

definition assemble ::
    "(nat \<Rightarrow> 's \<Rightarrow> bytes \<times> 's) \<Rightarrow> (bytes \<Rightarrow> 64 word option) \<Rightarrow> nat \<Rightarrow> 's \<Rightarrow> bytes \<times> assembly_state \<Rightarrow>
     (read_error + transfer_state \<times> (byte \<times> u32) option) \<times> 's \<times> bytes \<times> assembly_state" where
  "assemble rd parse maxDataSize s p =
     (case readf rd (drop 4 kMsgDClipboard) s of
        (Inl e, s') \<Rightarrow> (Inl e, s', p)
      | (Inr None, s') \<Rightarrow> (Inr (Error, None), s', [], assembly_init)
      | (Inr (Some vs), s') \<Rightarrow>
          (case vs of
             [Val1 cid, Val4 sequence, Val1 mark, Str data] \<Rightarrow>
               (case assemble_message parse maxDataSize cid mark data p of
                  (r, p') \<Rightarrow> (Inr (r, Some (cid, sequence)), s', p'))
           | _ \<Rightarrow> (Inl Assert_Failed, s', p)))"

text \<open>Messages received one after the other, each without its code.\<close>

fun assemble_all ::
    "(bytes \<Rightarrow> 64 word option) \<Rightarrow> nat \<Rightarrow> bytes list \<Rightarrow> bytes \<times> assembly_state \<Rightarrow>
     (read_error + transfer_state \<times> (byte \<times> u32) option) list \<times> bytes \<times> assembly_state" where
  "assemble_all parse maxDataSize [] p = ([], p)"
| "assemble_all parse maxDataSize (w # ws) p =
     (case assemble list_rd parse maxDataSize (drop 4 w) p of
        (r, _, p') \<Rightarrow> (case assemble_all parse maxDataSize ws p' of (rs, p'') \<Rightarrow> (r # rs, p'')))"

section \<open>One message over the wire\<close>

definition message :: "byte \<Rightarrow> u32 \<Rightarrow> byte \<Rightarrow> bytes \<Rightarrow> bytes" where
  "message cid sequence mark data = [68, 67, 76, 80, cid] @ be32 sequence @ [mark] @ be32 (of_nat (length data)) @ data"

lemma un_mem32_mem32: "un_mem32 (mem32 v) = v"
  unfolding un_mem32_def mem32_def
  using un_be32_be32 [of v "ucast (drop_bit 24 v)" "ucast (drop_bit 16 v)" "ucast (drop_bit 8 v)" "ucast v"]
  by (simp add: be32_def byte_ucast)

lemma clipboard_items:
  "fmt_items kMsgDClipboard =
     Some [Lit 68, Lit 67, Lit 76, Lit 80, Spec 1 CHR ''i'', Spec 4 CHR ''i'', Spec 1 CHR ''i'', Spec 0 CHR ''s'']"
  "fmt_items (drop 4 kMsgDClipboard) =
     Some [Spec 1 CHR ''i'', Spec 4 CHR ''i'', Spec 1 CHR ''i'', Spec 0 CHR ''s'']"
  by (simp_all add: kMsgDClipboard_def digit_of_def)

lemma chunk_send_fill:
  assumes "length str < 2 ^ 31"
  shows "chunk_send (fill_chunk cid sequence mark str) = Some (message cid sequence mark str)"
proof -
  let ?fs = "[Lit 68, Lit 67, Lit 76, Lit 80, Spec 1 CHR ''i'', Spec 4 CHR ''i'', Spec 1 CHR ''i'', Spec 0 CHR ''s'']"
  let ?as = "[Int_Arg (ucast cid), Int_Arg sequence, Int_Arg (ucast mark), Str_Arg str]"
  have byte: "ucast (ucast (b :: byte) AND 0xff :: u32) = b" for b
    by (rule bit_word_eqI) (auto simp: byte_bit_simps)
  have "writeString str = Some (be32 (of_nat (length str)) @ str)"
    using writeString_Some [of str] assms by auto
  then have items: "writef_items ?fs ?as = Some (message cid sequence mark str)"
    by (simp add: message_def byte)
  obtain n where n: "getLength ?fs ?as = Some n" by simp
  with getLength_writef_items [OF n] items have "n = of_nat (length (message cid sequence mark str))"
    by (metis option.inject)
  moreover have "length (message cid sequence mark str) < 2 ^ 32"
    using assms by (simp add: message_def)
  ultimately have un: "unat n = length (message cid sequence mark str)"
    by (simp only: unat_of_nat) simp
  moreover from this have "n \<noteq> 0" by (auto simp: message_def)
  ultimately have "writef kMsgDClipboard ?as = Some (message cid sequence mark str)"
    using n items by (simp add: writef_def clipboard_items vwritef_def del: writef_items.simps getLength.simps)
  moreover have "take 4 (drop 1 (cid # mem32 sequence @ mark # str @ [0])) = mem32 sequence"
    "(cid # mem32 sequence @ mark # str @ [0]) ! 5 = mark"
    "drop 6 (cid # mem32 sequence @ mark # str @ [0]) = str @ [0]"
    by (simp_all add: mem32_def)
  ultimately show ?thesis
    by (simp add: chunk_send_def fill_chunk_def Let_def un_mem32_mem32)
qed

lemma assemble_wire:
  assumes "length data < 2 ^ 31"
  shows "assemble list_rd parse maxDataSize (drop 4 (message cid sequence mark data)) p =
    (case assemble_message parse maxDataSize cid mark data p of
       (r, p') \<Rightarrow> (Inr (r, Some (cid, sequence)), [], p'))"
proof -
  let ?fs = "[Spec 1 CHR ''i'', Spec 4 CHR ''i'', Spec 1 CHR ''i'', Spec 0 CHR ''s'']"
  let ?as = "[Int_Arg (ucast cid), Int_Arg sequence, Int_Arg (ucast mark), Str_Arg data]"
  have byte: "ucast (ucast (b :: byte) AND 0xff :: u32) = b" "ucast (ucast b :: u32) = b" for b :: byte
    by (rule bit_word_eqI; auto simp: byte_bit_simps)+
  have "writeString data = Some (be32 (of_nat (length data)) @ data)"
    using writeString_Some [of data] assms by auto
  then have w: "writef_items ?fs ?as = Some (drop 4 (message cid sequence mark data))"
    by (simp add: message_def byte)
  have v: "delivered ?fs ?as = Some [Val1 cid, Val4 sequence, Val1 mark, Str data]"
    using assms by (simp add: byte)
  have "vreadf list_rd ?fs (drop 4 (message cid sequence mark data)) =
      (Inr [Val1 cid, Val4 sequence, Val1 mark, Str data], [])"
    using parses_whole [OF lst.parses_vreadf [OF v w], of "drop 4 (message cid sequence mark data)" "[]"] by auto
  then show ?thesis
    by (simp add: assemble_def readf_def clipboard_items split: prod.split)
qed

section \<open>The chunks cover the data\<close>

lemma sendClipboard_loop_chunks:
  "sent \<le> length data \<Longrightarrow>
   \<exists>ds. sendClipboard_loop data (length data) cid sequence sent = Some (map (chunk_data cid sequence) ds) \<and>
     concat ds = drop sent data \<and> ds \<noteq> [] \<and> (\<forall>d \<in> set ds. length d \<le> g_chunkSize)"
proof (induction "length data - sent" arbitrary: sent rule: less_induct)
  case less
  show ?case
  proof (cases "sent + g_chunkSize < length data")
    case True
    moreover have "0 < g_chunkSize" by (simp add: g_chunkSize_def)
    ultimately obtain ds where ds:
      "sendClipboard_loop data (length data) cid sequence (sent + g_chunkSize) = Some (map (chunk_data cid sequence) ds)"
      "concat ds = drop (sent + g_chunkSize) data" "\<forall>d \<in> set ds. length d \<le> g_chunkSize"
      using less.hyps [of "sent + g_chunkSize"] by (auto simp: diff_less_mono2)
    let ?d = "take g_chunkSize (drop sent data)"
    have "?d @ drop (sent + g_chunkSize) data = drop sent data"
      by (metis add.commute append_take_drop_id drop_drop)
    with True ds show ?thesis
      by (intro exI [of _ "?d # ds"]) (auto simp: sendClipboard_loop.simps [of _ _ _ _ sent])
  next
    case False
    with less.prems have "sendClipboard_loop data (length data) cid sequence sent =
        Some [chunk_data cid sequence (drop sent data)]"
      by (auto simp: sendClipboard_loop.simps [of _ _ _ _ sent] Let_def)
    with False show ?thesis by (intro exI [of _ "[drop sent data]"]) auto
  qed
qed

lemma assemble_chunks:
  assumes "cid < kClipboardEnd" and "active st" and "\<not> discarding st"
    and "\<forall>d \<in> set ds. length d < 2 ^ 31" and "length cached + length (concat ds) \<le> expectedSize st"
  shows "assemble_all parse maxDataSize (map (message cid sequence mark_chunk) ds) (cached, st) =
    (replicate (length ds) (Inr (InProgress, Some (cid, sequence))), cached @ concat ds, st)"
  using assms(4,5)
proof (induction ds arbitrary: cached)
  case (Cons d ds)
  have "assemble_message parse maxDataSize cid mark_chunk d (cached, st) = (InProgress, cached @ d, st)"
    using assms(1-3) Cons.prems
    by (auto simp: assemble_message_def Let_def not_le mark_start_def mark_chunk_def wouldExceed_def)
  with Cons show ?case by (simp add: assemble_wire)
qed simp

lemma discard_chunks:
  assumes "cid < kClipboardEnd" and "active st" and "discarding st"
    and "\<forall>d \<in> set ds. length d < 2 ^ 31"
  shows "assemble_all parse maxDataSize (map (message cid sequence mark_chunk) ds) (cached, st) =
    (replicate (length ds) (Inr (InProgress, Some (cid, sequence))), cached, st)"
  using assms(4)
proof (induction ds)
  case (Cons d ds)
  have "assemble_message parse maxDataSize cid mark_chunk d (cached, st) = (InProgress, cached, st)"
    using assms(1-3) by (auto simp: assemble_message_def Let_def not_le mark_start_def mark_chunk_def)
  with Cons show ?case by (simp add: assemble_wire)
qed simp

lemma assemble_all_append:
  "assemble_all parse maxDataSize (ws @ us) p =
    (case assemble_all parse maxDataSize ws p of
       (rs, p') \<Rightarrow> (case assemble_all parse maxDataSize us p' of (rs', p'') \<Rightarrow> (rs @ rs', p'')))"
  by (induction ws arbitrary: p) (simp_all split: prod.split)

section \<open>Bounds on what is kept\<close>

text \<open>The cached data never exceeds the announced size, and that never the limit.\<close>

definition assembly_inv :: "nat \<Rightarrow> bytes \<times> assembly_state \<Rightarrow> bool" where
  "assembly_inv maxDataSize p \<longleftrightarrow>
     (if discarding (snd p) then fst p = []
      else length (fst p) \<le> expectedSize (snd p) \<and> expectedSize (snd p) \<le> maxDataSize)"

lemma assembly_inv_init [simp]: "assembly_inv maxDataSize ([], assembly_init)"
  by (simp add: assembly_inv_def assembly_init_def)

lemma assemble_message_inv:
  assumes "assembly_inv maxDataSize p"
  shows "assembly_inv maxDataSize (snd (assemble_message parse maxDataSize cid mark data p))"
  using assms
  by (auto simp: assemble_message_def Let_def assembly_inv_def wouldExceed_def assembly_init_def
      split: option.split)

lemma assemble_inv:
  assumes "assembly_inv maxDataSize p"
  shows "assembly_inv maxDataSize (snd (snd (assemble rd parse maxDataSize s p)))"
  using assms assemble_message_inv [OF assms]
  by (simp add: assemble_def split: prod.split sum.split option.split list.split val.split)
    (metis snd_conv)

lemma assemble_finished:
  assumes "assemble_message parse maxDataSize cid mark data p = (Finished, cached, st)"
  shows "\<not> discarding st \<and> length cached = expectedSize st \<and> cached = fst p"
  using assms by (auto simp: assemble_message_def Let_def split: option.splits if_splits)

text \<open>A final report leaves the cached data as it was, of exactly the announced size.\<close>

definition exact_report ::
    "bytes \<Rightarrow> (read_error + transfer_state \<times> (byte \<times> u32) option) \<times> 's \<times> bytes \<times> assembly_state \<Rightarrow> bool" where
  "exact_report cached r =
     (case r of
        (Inr (Finished, _), _, cached', st') \<Rightarrow> cached' = cached \<and> length cached' = expectedSize st'
      | _ \<Rightarrow> True)"

section \<open>Properties\<close>

text \<open>Decimal conversions of one digit, for the concrete instances.\<close>

definition digit_number :: "nat \<Rightarrow> bytes" where
  "digit_number n = [of_nat (48 + n)]"

definition digit_parse :: "bytes \<Rightarrow> 64 word option" where
  "digit_parse d = (case d of [b] \<Rightarrow> if 48 \<le> b \<and> b \<le> 57 then Some (ucast (b - 48)) else None | _ \<Rightarrow> None)"

text \<open>
  C38. A clipboard arrives complete. The chunks queued for a clipboard within the receiver's limit,
  sent as messages and received in order, are answered by one start, one progress report for
  each data chunk and a final report with the clipboard's number and sequence number, and the
  cached data is then exactly the clipboard, whatever the receiver held before.
\<close>

theorem clipboard_transfer:
  assumes "parse (number (length data)) = Some (of_nat (length data))"
    and "length data < 2 ^ 64" and "length (number (length data)) < 2 ^ 31"
    and "length data \<le> maxDataSize" and "cid < kClipboardEnd"
  shows "\<exists>cs ws n st. sendClipboard number data (length data) cid sequence = Some cs \<and>
    map chunk_send cs = map Some ws \<and>
    assemble_all parse maxDataSize ws p =
      (Inr (Started, Some (cid, sequence)) # replicate n (Inr (InProgress, Some (cid, sequence))) @
        [Inr (Finished, Some (cid, sequence))], data, st) \<and> \<not> active st"
proof -
  let ?num = "number (length data)"
  obtain ds where ds: "sendClipboard_loop data (length data) cid sequence 0 = Some (map (chunk_data cid sequence) ds)"
    "concat ds = data" "\<forall>d \<in> set ds. length d \<le> g_chunkSize"
    using sendClipboard_loop_chunks [of 0 data cid sequence] by auto
  then have small: "\<forall>d \<in> set ds. length d < 2 ^ 31" by (auto simp: g_chunkSize_def)
  let ?st = "(snd p)\<lparr>expectedSize := length data, active := True, discarding := False\<rparr>"
  have start: "assemble_message parse maxDataSize cid mark_start ?num p = (Started, [], ?st)"
    using assms by (simp add: assemble_message_def Let_def not_le unat_of_nat)
  have body: "assemble_all parse maxDataSize (map (message cid sequence mark_chunk) ds) ([], ?st) =
    (replicate (length ds) (Inr (InProgress, Some (cid, sequence))), data, ?st)"
    using assemble_chunks [of cid ?st ds "[]"] assms(5) small ds(2) by simp
  have stop: "assemble_message parse maxDataSize cid mark_end [] (data, ?st) = (Finished, data, ?st\<lparr>active := False\<rparr>)"
    using assms(5)
    by (simp add: assemble_message_def Let_def not_le mark_start_def mark_chunk_def mark_end_def)
  let ?cs = "chunk_start cid sequence ?num # map (chunk_data cid sequence) ds @
      [chunk_end cid sequence]"
  let ?ws = "message cid sequence mark_start ?num # map (message cid sequence mark_chunk) ds @
    [message cid sequence mark_end []]"
  have "assemble_all parse maxDataSize ?ws p =
      (Inr (Started, Some (cid, sequence)) # replicate (length ds) (Inr (InProgress, Some (cid, sequence))) @
        [Inr (Finished, Some (cid, sequence))], data, ?st\<lparr>active := False\<rparr>)"
    using assms(3) by (simp add: assemble_wire assemble_all_append start body stop)
  moreover have "map chunk_send ?cs = map Some ?ws"
    using assms(3) small by (simp add: chunk_start_def chunk_data_def chunk_end_def chunk_send_fill)
  moreover have "sendClipboard number data (length data) cid sequence = Some ?cs"
    using ds(1) by (simp add: sendClipboard_def)
  ultimately show ?thesis
    by (intro exI [of _ ?cs] exI [of _ ?ws] exI [of _ "length ds"] exI [of _ "?st\<lparr>active := False\<rparr>"] conjI)
      simp_all
qed

theorem clipboard_transfer_witness:
  "\<exists>cs ws n st. sendClipboard digit_number [7, 8, 9] (length [7, 8, 9 :: byte]) 1 5 = Some cs \<and>
    map chunk_send cs = map Some ws \<and>
    assemble_all digit_parse 3 ws ([1], assembly_init) =
      (Inr (Started, Some (1, 5)) # replicate n (Inr (InProgress, Some (1, 5))) @
        [Inr (Finished, Some (1, 5))], [7, 8, 9], st) \<and> \<not> active st"
  by (rule clipboard_transfer) (simp_all add: digit_number_def digit_parse_def kClipboardEnd_def)

text \<open>
  C40. Whatever messages a peer sends, in any order and of any content, the receiver never keeps more
  bytes than its limit, and a transfer is reported finished only when exactly the announced
  number of bytes has arrived.
\<close>

theorem clipboard_bounded:
  assumes "assemble_all parse maxDataSize ws ([], assembly_init) = (rs, cached, st)"
  shows "length cached \<le> maxDataSize \<and>
    (\<forall>w. exact_report cached (assemble list_rd parse maxDataSize w (cached, st)))"
proof -
  have "assembly_inv maxDataSize p \<Longrightarrow> assembly_inv maxDataSize (snd (assemble_all parse maxDataSize ws p))" for p
  proof (induction ws arbitrary: p)
    case (Cons w ws)
    show ?case
      using Cons.IH [OF assemble_inv [OF Cons.prems, of list_rd parse "drop 4 w"]]
      by (simp add: split_beta)
  qed simp
  from this [of "([], assembly_init)"] assms have inv: "assembly_inv maxDataSize (cached, st)" by simp
  then have "length cached \<le> maxDataSize"
    by (auto simp: assembly_inv_def split: if_splits)
  moreover have "exact_report cached (assemble list_rd parse maxDataSize w (cached, st))" for w
    using assemble_finished [of parse maxDataSize _ _ _ "(cached, st)"]
    by (auto simp: assemble_def exact_report_def
        split: prod.splits sum.splits option.splits list.splits val.splits transfer_state.splits)
  ultimately show ?thesis by blast
qed

theorem clipboard_bounded_witness:
  "length ([] :: bytes) \<le> 3 \<and>
    (\<forall>w. exact_report [] (assemble list_rd digit_parse 3 w
        ([], \<lparr>expectedSize = 2, active = True, discarding = False\<rparr>)))"
  by (rule clipboard_bounded [where ws = "[message 1 5 mark_start [50]]" and rs = "[Inr (Started, Some (1, 5))]"])
    (simp add: assemble_wire assemble_message_def Let_def word_le_nat_alt digit_parse_def kClipboardEnd_def assembly_init_def)

text \<open>
  A clipboard above the limit does not disturb the connection: every one of its messages is
  answered by a progress report, never by an error, nothing of it is kept, and the receiver is
  afterwards in its initial state.
\<close>

theorem oversized_clipboard_skipped:
  assumes "parse (number (length data)) = Some (of_nat (length data))"
    and "length data < 2 ^ 64" and "length (number (length data)) < 2 ^ 31"
    and "maxDataSize < length data" and "cid < kClipboardEnd"
  shows "\<exists>cs ws n. sendClipboard number data (length data) cid sequence = Some cs \<and>
    map chunk_send cs = map Some ws \<and>
    assemble_all parse maxDataSize ws p =
      (replicate n (Inr (InProgress, Some (cid, sequence))), [], assembly_init)"
proof -
  let ?num = "number (length data)"
  obtain ds where ds: "sendClipboard_loop data (length data) cid sequence 0 = Some (map (chunk_data cid sequence) ds)"
    "\<forall>d \<in> set ds. length d \<le> g_chunkSize"
    using sendClipboard_loop_chunks [of 0 data cid sequence] by auto
  then have small: "\<forall>d \<in> set ds. length d < 2 ^ 31" by (auto simp: g_chunkSize_def)
  let ?st = "(snd p)\<lparr>expectedSize := length data, active := True, discarding := True\<rparr>"
  have start: "assemble_message parse maxDataSize cid mark_start ?num p = (InProgress, [], ?st)"
    using assms by (simp add: assemble_message_def Let_def not_le unat_of_nat)
  have body: "assemble_all parse maxDataSize (map (message cid sequence mark_chunk) ds) ([], ?st) =
    (replicate (length ds) (Inr (InProgress, Some (cid, sequence))), [], ?st)"
    using discard_chunks [of cid ?st ds] assms(5) small by simp
  have stop: "assemble_message parse maxDataSize cid mark_end [] ([], ?st) = (InProgress, [], assembly_init)"
    using assms(5)
    by (simp add: assemble_message_def Let_def not_le mark_start_def mark_chunk_def mark_end_def)
  let ?cs = "chunk_start cid sequence ?num # map (chunk_data cid sequence) ds @
      [chunk_end cid sequence]"
  let ?ws = "message cid sequence mark_start ?num # map (message cid sequence mark_chunk) ds @
    [message cid sequence mark_end []]"
  have "assemble_all parse maxDataSize ?ws p =
      (replicate (length ds + 2) (Inr (InProgress, Some (cid, sequence))), [], assembly_init)"
    using assms(3) by (simp add: assemble_wire assemble_all_append start body stop replicate_append_same)
  moreover have "map chunk_send ?cs = map Some ?ws"
    using assms(3) small by (simp add: chunk_start_def chunk_data_def chunk_end_def chunk_send_fill)
  moreover have "sendClipboard number data (length data) cid sequence = Some ?cs"
    using ds(1) by (simp add: sendClipboard_def)
  ultimately show ?thesis
    by (intro exI [of _ ?cs] exI [of _ ?ws] exI [of _ "length ds + 2"] conjI)
qed

theorem oversized_clipboard_skipped_witness:
  "\<exists>cs ws n. sendClipboard digit_number [7, 8, 9] (length [7, 8, 9 :: byte]) 1 5 = Some cs \<and>
    map chunk_send cs = map Some ws \<and>
    assemble_all digit_parse 2 ws ([1], assembly_init) =
      (replicate n (Inr (InProgress, Some (1, 5))), [], assembly_init)"
  by (rule oversized_clipboard_skipped) (simp_all add: digit_number_def digit_parse_def kClipboardEnd_def)

end
