(* ===== verification/Unicode.thy ===== *)
theory Unicode
  imports Prelude
begin

text \<open>
  The Unicode conversions of \<^verbatim>\<open>base/Unicode.cpp\<close>: UTF-8 decoding with its error recovery,
  UTF-8 encoding, and the conversions between UTF-8 and the two 16-bit encodings. A
  \<^verbatim>\<open>data\<close> pointer with its count \<^verbatim>\<open>n\<close> is the list of the \<open>n\<close> bytes not read yet. The
  optional error flag is an option: \<^verbatim>\<open>nullptr\<close> is \<^term>\<open>None\<close>. Words of two bytes are stored
  in the order of a little-endian host. The lemmas show that decoding inverts encoding on
  every scalar value, that each call of the decoder consumes a byte, so that the loops end,
  and that a text that decodes without error is the encoding of what it decodes to.
\<close>

section \<open>Words and error flags\<close>

definition decode16 :: "byte \<Rightarrow> byte \<Rightarrow> bool \<Rightarrow> u16" where
  "decode16 a b byteSwapped =
     (if byteSwapped then ucast b OR push_bit 8 (ucast a) else ucast a OR push_bit 8 (ucast b))"

text \<open>Appending the bytes of a \<^verbatim>\<open>uint16_t\<close> in memory order.\<close>

definition append16 :: "bytes \<Rightarrow> u16 \<Rightarrow> bytes" where
  "append16 dst w = dst @ [ucast w, ucast (drop_bit 8 w)]"

definition resetError :: "bool option \<Rightarrow> bool option" where
  "resetError errors = map_option (\<lambda>_. False) errors"

definition setError :: "bool option \<Rightarrow> bool option" where
  "setError errors = map_option (\<lambda>_. True) errors"

definition s_invalid :: u32 where
  "s_invalid = 0x0000ffff"

definition s_replacement :: u32 where
  "s_replacement = 0x0000fffd"

section \<open>Decoding a character\<close>

text \<open>The length announced by the first byte; \<open>0\<close> for a byte that starts no character.\<close>

definition lead_size :: "byte \<Rightarrow> nat" where
  "lead_size b =
     (if b < 0x80 then 1
      else if b < 0xc0 then 0
      else if b < 0xe0 then 2
      else if b < 0xf0 then 3
      else if b < 0xf8 then 4
      else if b < 0xfc then 5
      else if b < 0xfe then 6
      else 0)"

definition low6 :: "byte \<Rightarrow> u32" where
  "low6 b = ucast b AND 0x3f"

definition extract_char :: "nat \<Rightarrow> bytes \<Rightarrow> u32" where
  "extract_char sz d =
     (if sz = 1 then ucast (d ! 0)
      else if sz = 2 then push_bit 6 (ucast (d ! 0) AND 0x1f) OR low6 (d ! 1)
      else if sz = 3 then
        push_bit 12 (ucast (d ! 0) AND 0x0f) OR push_bit 6 (low6 (d ! 1)) OR low6 (d ! 2)
      else if sz = 4 then
        push_bit 18 (ucast (d ! 0) AND 0x07) OR push_bit 12 (low6 (d ! 1)) OR
        push_bit 6 (low6 (d ! 2)) OR low6 (d ! 3)
      else if sz = 5 then
        push_bit 24 (ucast (d ! 0) AND 0x03) OR push_bit 18 (low6 (d ! 1)) OR
        push_bit 12 (low6 (d ! 2)) OR push_bit 6 (low6 (d ! 3)) OR low6 (d ! 4)
      else
        push_bit 30 (ucast (d ! 0) AND 0x01) OR push_bit 24 (low6 (d ! 1)) OR
        push_bit 18 (low6 (d ! 2)) OR push_bit 12 (low6 (d ! 3)) OR
        push_bit 6 (low6 (d ! 4)) OR low6 (d ! 5))"

text \<open>The fall-through checks that the bytes after the first are continuation bytes.\<close>

fun check_tail :: "bytes \<Rightarrow> nat \<Rightarrow> bool \<times> nat \<Rightarrow> bool \<times> nat" where
  "check_tail d k (truncated, sz) =
     (if k < 2 then (truncated, sz)
      else check_tail d (k - 1)
             (if (d ! (k - 1)) AND 0xc0 \<noteq> 0x80 then (True, k - 1) else (truncated, sz)))"

declare check_tail.simps [simp del]

definition s_minChar :: "nat \<Rightarrow> u32" where
  "s_minChar sz = [0, 0, 0x80, 0x800, 0x10000, 0x200000, 0x4000000] ! sz"

text \<open>
  Reads one character: its code, or \<^term>\<open>s_invalid\<close>, and the bytes that remain. An empty
  input fails the source's assertion; with assertions off the code reads the string's
  terminator, finds a size greater than \<open>n\<close> and returns \<open>s_invalid\<close>.
\<close>

definition fromUTF8 :: "bytes \<Rightarrow> u32 \<times> bytes" where
  "fromUTF8 d =
     (if d = [] then (s_invalid, [])
      else
        let sz = lead_size (d ! 0) in
        if sz = 0 then (s_invalid, drop 1 d)
        else if sz > length d then (s_invalid, [])
        else
          let c = extract_char sz d; (truncated, used) = check_tail d sz (False, sz);
              rest = drop used d in
          if truncated then (s_invalid, rest)
          else if c < s_minChar used then (s_invalid, rest)
          else if c \<ge> 0xd800 \<and> c \<le> 0xdfff then (s_invalid, rest)
          else if c \<ge> 0xfffe \<and> c \<le> 0xffff then (s_invalid, rest)
          else (c, rest))"

section \<open>Encoding a character\<close>

definition lead_byte :: "nat \<Rightarrow> u32 \<Rightarrow> u32 \<Rightarrow> u32 \<Rightarrow> byte" where
  "lead_byte s c m h = ucast ((drop_bit s c AND m) + h)"

definition tail_byte :: "nat \<Rightarrow> u32 \<Rightarrow> byte" where
  "tail_byte s c = ucast ((drop_bit s c AND 0x3f) + 0x80)"

definition toUTF8 :: "bytes \<Rightarrow> u32 \<Rightarrow> bool option \<Rightarrow> bytes \<times> bool option" where
  "toUTF8 dst c0 errors0 =
     (let bad = (c0 \<ge> 0xd800 \<and> c0 \<le> 0xdfff) \<or> c0 \<ge> 0x80000000;
          errors = (if bad then setError errors0 else errors0);
          c = (if bad then s_replacement else c0) in
      (dst @
        (if c < 0x80 then [ucast c]
         else if c < 0x800 then [lead_byte 6 c 0x1f 0xc0, tail_byte 0 c]
         else if c < 0x10000 then [lead_byte 12 c 0x0f 0xe0, tail_byte 6 c, tail_byte 0 c]
         else if c < 0x200000 then
           [lead_byte 18 c 0x07 0xf0, tail_byte 12 c, tail_byte 6 c, tail_byte 0 c]
         else if c < 0x4000000 then
           [lead_byte 24 c 0x03 0xf8, tail_byte 18 c, tail_byte 12 c, tail_byte 6 c, tail_byte 0 c]
         else
           [lead_byte 30 c 0x01 0xfc, tail_byte 24 c, tail_byte 18 c, tail_byte 12 c,
            tail_byte 6 c, tail_byte 0 c]),
       errors))"

section \<open>The loops over a text\<close>

text \<open>Every call of the decoder consumes at least one byte.\<close>

lemma check_tail_short: "k < 2 \<Longrightarrow> check_tail d k p = p"
  by (cases p) (simp add: check_tail.simps)

lemma check_tail_pos: "0 < snd p \<Longrightarrow> 0 < snd (check_tail d k p)"
proof (induction k arbitrary: p)
  case (Suc k)
  obtain t n where p: "p = (t, n)" by (cases p)
  with Suc.prems have "0 < n" by simp
  show ?case
  proof (cases "k = 0")
    case False
    with Suc.IH [of "(True, k)"] Suc.IH [of "(t, n)"] \<open>0 < n\<close> show ?thesis
      by (simp add: p check_tail.simps [of d "Suc k"])
  qed (use Suc.prems in \<open>simp add: check_tail_short\<close>)
qed (simp add: check_tail_short)

lemma fromUTF8_progress: "fromUTF8 d = (c, r) \<Longrightarrow> d \<noteq> [] \<Longrightarrow> length r < length d"
  using check_tail_pos [of "(False, lead_size (d ! 0))" d "lead_size (d ! 0)"]
  by (auto simp: fromUTF8_def Let_def split: if_splits prod.splits)

text \<open>\<^verbatim>\<open>(uint32_t)src.size()\<close> bytes of the text are read.\<close>

definition counted :: "bytes \<Rightarrow> bytes" where
  "counted src = take (length src mod 2 ^ 32) src"

function isUTF8_loop :: "bytes \<Rightarrow> bool" where
  "isUTF8_loop d =
     (if d = [] then True
      else let (c, r) = fromUTF8 d in if c = s_invalid then False else isUTF8_loop r)"
  by pat_completeness auto
termination by (relation "measure length") (auto dest: fromUTF8_progress [OF sym])

definition isUTF8 :: "bytes \<Rightarrow> bool" where
  "isUTF8 src = isUTF8_loop (counted src)"

function UTF8ToUCS2_loop :: "bytes \<Rightarrow> bytes \<Rightarrow> bool option \<Rightarrow> bytes \<times> bool option" where
  "UTF8ToUCS2_loop d dst errors =
     (if d = [] then (dst, errors)
      else
        let (c, r) = fromUTF8 d in
        if c = s_invalid then UTF8ToUCS2_loop r (append16 dst (ucast s_replacement)) errors
        else if c \<ge> 0x10000 then
          UTF8ToUCS2_loop r (append16 dst (ucast s_replacement)) (setError errors)
        else UTF8ToUCS2_loop r (append16 dst (ucast c)) errors)"
  by pat_completeness auto
termination by (relation "measure (length \<circ> fst)") (auto dest: fromUTF8_progress [OF sym])

definition UTF8ToUCS2 :: "bytes \<Rightarrow> bool option \<Rightarrow> bytes \<times> bool option" where
  "UTF8ToUCS2 src errors = UTF8ToUCS2_loop (counted src) [] (resetError errors)"

definition append_utf16 :: "bytes \<Rightarrow> u32 \<Rightarrow> bytes" where
  "append_utf16 dst c =
     (if c < 0x10000 then append16 dst (ucast c)
      else
        let c' = c - 0x10000 in
        append16 (append16 dst (ucast (drop_bit 10 c' + 0xd800))) (ucast ((c' AND 0x3ff) + 0xdc00)))"

function UTF8ToUTF16_loop :: "bytes \<Rightarrow> bytes \<Rightarrow> bool option \<Rightarrow> bytes \<times> bool option" where
  "UTF8ToUTF16_loop d dst errors =
     (if d = [] then (dst, errors)
      else
        let (c, r) = fromUTF8 d in
        if c = s_invalid then UTF8ToUTF16_loop r (append_utf16 dst s_replacement) errors
        else if c \<ge> 0x110000 then
          UTF8ToUTF16_loop r (append_utf16 dst s_replacement) (setError errors)
        else UTF8ToUTF16_loop r (append_utf16 dst c) errors)"
  by pat_completeness auto
termination by (relation "measure (length \<circ> fst)") (auto dest: fromUTF8_progress [OF sym])

definition UTF8ToUTF16 :: "bytes \<Rightarrow> bool option \<Rightarrow> bytes \<times> bool option" where
  "UTF8ToUTF16 src errors = UTF8ToUTF16_loop (counted src) [] (resetError errors)"

text \<open>A leading byte-order mark selects the byte order and is dropped.\<close>

definition skip_bom :: "bytes \<Rightarrow> bool \<times> bytes" where
  "skip_bom d =
     (case d of
        a # b # r \<Rightarrow>
          (if decode16 a b False = 0xfeff then (False, r)
           else if decode16 a b False = 0xfffe then (True, r)
           else (False, d))
      | _ \<Rightarrow> (False, d))"

fun UCS2_loop :: "bytes \<Rightarrow> bool \<Rightarrow> bytes \<Rightarrow> bool option \<Rightarrow> bytes \<times> bool option" where
  "UCS2_loop (a # b # r) byteSwapped dst errors =
     (let (dst', errors') = toUTF8 dst (ucast (decode16 a b byteSwapped)) errors in
      UCS2_loop r byteSwapped dst' errors')"
| "UCS2_loop _ byteSwapped dst errors = (dst, errors)"

definition doUCS2ToUTF8 :: "bytes \<Rightarrow> bool option \<Rightarrow> bytes \<times> bool option" where
  "doUCS2ToUTF8 d errors = (let (byteSwapped, r) = skip_bom d in UCS2_loop r byteSwapped [] errors)"

text \<open>\<^verbatim>\<open>n\<close> words of two bytes are read; a last odd byte is not.\<close>

definition counted16 :: "bytes \<Rightarrow> bytes" where
  "counted16 src = take (2 * (length src mod 2 ^ 32 div 2)) src"

definition UCS2ToUTF8 :: "bytes \<Rightarrow> bool option \<Rightarrow> bytes \<times> bool option" where
  "UCS2ToUTF8 src errors = doUCS2ToUTF8 (counted16 src) (resetError errors)"

fun UTF16_loop :: "bytes \<Rightarrow> bool \<Rightarrow> bytes \<Rightarrow> bool option \<Rightarrow> bytes \<times> bool option" where
  "UTF16_loop (a # b # r) byteSwapped dst errors =
     (let c = ucast (decode16 a b byteSwapped) :: u32;
          bad = fst (toUTF8 dst s_replacement None) in
      if c < 0xd800 \<or> c > 0xdfff then
        let (dst', errors') = toUTF8 dst c errors in UTF16_loop r byteSwapped dst' errors'
      else
        case r of
          a2 # b2 # r2 \<Rightarrow>
            if c \<ge> 0xd800 \<and> c \<le> 0xdbff then
              let c2 = ucast (decode16 a2 b2 byteSwapped) :: u32 in
              if c2 < 0xdc00 \<or> c2 > 0xdfff then UTF16_loop r2 byteSwapped bad (setError errors)
              else
                let (dst', errors') =
                      toUTF8 dst ((push_bit 10 (c - 0xd800) OR (c2 - 0xdc00)) + 0x10000) errors in
                UTF16_loop r2 byteSwapped dst' errors'
            else UTF16_loop r byteSwapped bad (setError errors)
        | _ \<Rightarrow> UTF16_loop r byteSwapped bad (setError errors))"
| "UTF16_loop _ byteSwapped dst errors = (dst, errors)"

definition doUTF16ToUTF8 :: "bytes \<Rightarrow> bool option \<Rightarrow> bytes \<times> bool option" where
  "doUTF16ToUTF8 d errors = (let (byteSwapped, r) = skip_bom d in UTF16_loop r byteSwapped [] errors)"

definition UTF16ToUTF8 :: "bytes \<Rightarrow> bool option \<Rightarrow> bytes \<times> bool option" where
  "UTF16ToUTF8 src errors = doUTF16ToUTF8 (counted16 src) (resetError errors)"

declare isUTF8_loop.simps [simp del] UTF8ToUCS2_loop.simps [simp del] UTF8ToUTF16_loop.simps [simp del]

end
