(* ===== verification/Unicode_Codec.thy ===== *)
theory Unicode_Codec
  imports Unicode
begin

text \<open>
  The decoder and the encoder of \<^verbatim>\<open>base/Unicode.cpp\<close> as inverse functions: a scalar value
  decodes from its encoding whatever bytes follow, and whatever decodes without error is
  the encoding of the value, so that no character has two spellings. On it rest the validity
  test as a description of the encodings and the round trip through UTF-16.
\<close>

section \<open>Fields of bytes\<close>

lemma mask_lits:
  "(0x1f :: u32) = mask 5" "(0x0f :: u32) = mask 4" "(0x07 :: u32) = mask 3" "(0x03 :: u32) = mask 2"
  "(0x01 :: u32) = mask 1" "(0x3f :: u32) = mask 6"
  by (simp_all add: mask_eq_exp_minus_1)

lemma unat_take_bit: "unat (take_bit m (x :: u32)) = unat x mod 2 ^ m"
  by (subst unsigned_take_bit_eq) (rule take_bit_eq_mod)

text \<open>A header added to a field below it.\<close>

lemma unat_take_bit_less: "unat (take_bit m (x :: u32)) < 2 ^ m"
  by (metis take_bit_nat_less_exp unsigned_take_bit_eq)

lemma unat_header:
  assumes "unat h + 2 ^ m \<le> 256"
  shows "unat (ucast (take_bit m (x :: u32) + h) :: byte) = unat (take_bit m x) + unat h"
proof -
  from assms have lt: "unat (take_bit m x) + unat h < 256"
    using unat_take_bit_less [of m x] by linarith
  then have "unat (take_bit m x + h) = unat (take_bit m x) + unat h"
    by (subst unat_add_lem [THEN iffD1]) simp_all
  with lt show ?thesis
    by (simp add: unsigned_ucast_eq take_bit_eq_mod)
qed

lemma field_of_header:
  assumes "unat h + 2 ^ m \<le> 256" and "unat h mod 2 ^ m = 0"
  shows "take_bit m (ucast (ucast (take_bit m (x :: u32) + h) :: byte) :: u32) = take_bit m x"
proof (subst word_unat_eq_iff)
  have up: "unat (ucast b :: u32) = unat b" for b :: byte
    using unsigned_less [of b, where 'a = nat]
    by (simp add: unsigned_ucast_eq take_bit_nat_eq_self_iff unat_take_bit)
  have "unat (take_bit m (ucast (ucast (take_bit m x + h) :: byte) :: u32))
    = (unat (take_bit m x) + unat h) mod 2 ^ m"
    by (simp only: up unat_header [OF assms(1)] unat_take_bit)
  also have "\<dots> = unat (take_bit m x) mod 2 ^ m"
    using assms(2) by (simp add: mod_add_right_eq [symmetric])
  finally show "unat (take_bit m (ucast (ucast (take_bit m x + h) :: byte) :: u32))
    = unat (take_bit m x)"
    using unat_take_bit_less [of m x] by simp
qed

lemma low6_tail_byte [simp]: "low6 (tail_byte s c) = take_bit 6 (drop_bit s c)"
  unfolding low6_def tail_byte_def mask_lits
  by (simp add: take_bit_eq_mask [symmetric] field_of_header)

lemma tail_byte_range: "0x80 \<le> tail_byte s c \<and> tail_byte s c < 0xc0"
proof -
  have "unat (tail_byte s c) = unat (take_bit 6 (drop_bit s c)) + 128"
    unfolding tail_byte_def mask_lits by (simp add: take_bit_eq_mask [symmetric] unat_header)
  moreover have "unat (take_bit 6 (drop_bit s c)) < 64"
    using unat_take_bit_less [of 6 "drop_bit s c"] by simp
  ultimately show ?thesis by (simp add: word_le_nat_alt word_less_nat_alt)
qed

lemma continuation_iff: "b AND 0xc0 = (0x80 :: byte) \<longleftrightarrow> 0x80 \<le> b \<and> b < 0xc0"
proof -
  have "b AND 0xc0 = (0x80 :: byte) \<longleftrightarrow> drop_bit 6 b = 2"
  proof
    assume "b AND 0xc0 = (0x80 :: byte)"
    then have "drop_bit 6 (b AND 0xc0) = drop_bit 6 (0x80 :: byte)" by simp
    moreover have "drop_bit 6 (b AND 0xc0) = drop_bit 6 b"
      by (rule bit_word_eqI) (auto simp: bit_simps less_Suc_eq numeral_eq_Suc dest: bit_imp_le_length)
    ultimately show "drop_bit 6 b = 2" by simp
  next
    assume d: "drop_bit 6 b = 2"
    have "\<not> bit b 6" and "bit b 7"
      using arg_cong [OF d, of "\<lambda>x. bit x 0"] arg_cong [OF d, of "\<lambda>x. bit x 1"]
      by (simp_all add: bit_drop_bit_eq)
    then show "b AND 0xc0 = 0x80"
      by (intro bit_word_eqI) (auto simp: bit_simps less_Suc_eq numeral_eq_Suc)
  qed
  also have "\<dots> \<longleftrightarrow> unat b div 64 = 2"
    by (simp add: word_unat_eq_iff drop_bit_eq_div unat_div)
  finally show ?thesis by (auto simp add: word_le_nat_alt word_less_nat_alt)
qed

lemma lead_size_lead_byte:
  "lead_size (lead_byte 6 c 0x1f 0xc0) = 2"
  "lead_size (lead_byte 12 c 0x0f 0xe0) = 3"
  "lead_size (lead_byte 18 c 0x07 0xf0) = 4"
  "lead_size (lead_byte 24 c 0x03 0xf8) = 5"
  "lead_size (lead_byte 30 c 0x01 0xfc) = 6"
  using unat_take_bit_less [of 5 "drop_bit 6 c"] unat_take_bit_less [of 4 "drop_bit 12 c"]
    unat_take_bit_less [of 3 "drop_bit 18 c"] unat_take_bit_less [of 2 "drop_bit 24 c"]
    unat_take_bit_less [of 1 "drop_bit 30 c"]
  unfolding lead_byte_def mask_lits lead_size_def word_less_nat_alt take_bit_eq_mask [symmetric]
  by (simp_all add: unat_header unat_header [of _ 1, simplified])

lemma lead_byte_field:
  "ucast (lead_byte 6 c 0x1f 0xc0) AND 0x1f = take_bit 5 (drop_bit 6 c)"
  "ucast (lead_byte 12 c 0x0f 0xe0) AND 0x0f = take_bit 4 (drop_bit 12 c)"
  "ucast (lead_byte 18 c 0x07 0xf0) AND 0x07 = take_bit 3 (drop_bit 18 c)"
  "ucast (lead_byte 24 c 0x03 0xf8) AND 0x03 = take_bit 2 (drop_bit 24 c)"
  "ucast (lead_byte 30 c 0x01 0xfc) AND 0x01 = take_bit 1 (drop_bit 30 c)"
  unfolding lead_byte_def mask_lits take_bit_eq_mask [symmetric]
  by (subst field_of_header; simp)+

lemma join_fields:
  "push_bit (n + m) (take_bit k (drop_bit (n + m) c)) OR push_bit n (take_bit m (drop_bit n c))
    = push_bit n (take_bit (m + k) (drop_bit n (c :: u32)))"
  by (rule bit_word_eqI) (auto simp: bit_simps)

lemma take_bit_below: "unat c < 2 ^ n \<Longrightarrow> take_bit n (c :: u32) = c"
  by (subst word_unat_eq_iff) (simp add: unsigned_take_bit_eq take_bit_nat_eq_self_iff)

section \<open>Decoding inverts encoding\<close>

text \<open>The codes the decoder accepts.\<close>

definition valid_char :: "u32 \<Rightarrow> bool" where
  "valid_char c \<longleftrightarrow> c < 0x80000000 \<and> \<not> (0xd800 \<le> c \<and> c \<le> 0xdfff) \<and> c \<noteq> 0xfffe \<and> c \<noteq> 0xffff"

definition enc :: "u32 \<Rightarrow> bytes" where
  "enc c = fst (toUTF8 [] c None)"

lemma s_invalid_not_valid [simp]: "\<not> valid_char s_invalid"
  by (simp add: valid_char_def s_invalid_def)

lemma toUTF8_append: "toUTF8 dst c e = (dst @ fst (toUTF8 [] c None), snd (toUTF8 [] c e))"
  by (simp only: toUTF8_def Let_def fst_conv snd_conv append_Nil)

lemma toUTF8_valid: "valid_char c \<Longrightarrow> toUTF8 dst c e = (dst @ enc c, e)"
  unfolding enc_def by (subst toUTF8_append) (auto simp: toUTF8_def Let_def valid_char_def)

definition conts :: "nat \<Rightarrow> bytes \<Rightarrow> bool" where
  "conts k d \<longleftrightarrow> (\<forall>i. 1 \<le> i \<and> i < k \<longrightarrow> 0x80 \<le> d ! i \<and> d ! i < 0xc0)"

lemma check_tail_conts: "conts k d \<Longrightarrow> check_tail d k (t, n) = (t, n)"
proof (induction k arbitrary: t n)
  case (Suc k)
  then have "conts k d" by (auto simp: conts_def)
  with Suc show ?case
    by (cases "k = 0")
      (simp_all add: check_tail_short check_tail.simps [of d "Suc k"] continuation_iff conts_def)
qed (simp add: check_tail_short)

lemma check_tail_not_truncated:
  "fst (check_tail d k (t, n)) \<longleftrightarrow> t \<or> \<not> conts k d"
proof (induction k arbitrary: t n)
  case (Suc k)
  have "conts (Suc k) d \<longleftrightarrow> conts k d \<and> (k = 0 \<or> d ! k AND 0xc0 = 0x80)"
    by (auto simp: conts_def less_Suc_eq continuation_iff)
  with Suc show ?case
    by (cases "k = 0") (auto simp: check_tail_short check_tail.simps [of d "Suc k"])
qed (simp add: check_tail_short conts_def)

lemma guards:
  "(if \<not> m then x else if a then x else if b \<or> b' then x else y)
    = (if m \<and> \<not> a \<and> \<not> b \<and> \<not> b' then y else x)"
  by auto

text \<open>When the decoder accepts a character.\<close>

lemma fromUTF8_iff:
  "fromUTF8 d = (c, r) \<and> c \<noteq> s_invalid \<longleftrightarrow>
     d \<noteq> [] \<and> lead_size (d ! 0) \<noteq> 0 \<and> lead_size (d ! 0) \<le> length d \<and> conts (lead_size (d ! 0)) d \<and>
     c = extract_char (lead_size (d ! 0)) d \<and> s_minChar (lead_size (d ! 0)) \<le> c \<and>
     \<not> (0xd800 \<le> c \<and> c \<le> 0xdfff) \<and> c \<noteq> 0xfffe \<and> c \<noteq> 0xffff \<and> r = drop (lead_size (d ! 0)) d"
proof -
  let ?sz = "lead_size (d ! 0)"
  have mid: "(0xfffe \<le> x \<and> x \<le> 0xffff) = (x = 0xfffe \<or> x = (0xffff :: u32))" for x
    by (auto simp: word_le_nat_alt word_unat_eq_iff)
  consider (short) "d = [] \<or> ?sz = 0 \<or> length d < ?sz" | (truncated) "\<not> conts ?sz d"
    | (whole) "d \<noteq> []" "?sz \<noteq> 0" "?sz \<le> length d" "conts ?sz d"
    by linarith
  then show ?thesis
  proof cases
    case short
    then have "fst (fromUTF8 d) = s_invalid"
      by (auto simp: fromUTF8_def Let_def)
    with short show ?thesis by auto
  next
    case truncated
    then obtain used where "check_tail d ?sz (False, ?sz) = (True, used)"
      using check_tail_not_truncated [of d ?sz False] by (metis prod.collapse)
    then have "fst (fromUTF8 d) = s_invalid"
      by (simp add: fromUTF8_def Let_def)
    with truncated show ?thesis by auto
  next
    case whole
    let ?c = "extract_char ?sz d"
    let ?ok = "s_minChar ?sz \<le> ?c \<and> \<not> (0xd800 \<le> ?c \<and> ?c \<le> 0xdfff) \<and> ?c \<noteq> 0xfffe \<and> ?c \<noteq> 0xffff"
    have "fromUTF8 d = (if ?c < s_minChar ?sz then (s_invalid, drop ?sz d)
      else if 0xd800 \<le> ?c \<and> ?c \<le> 0xdfff then (s_invalid, drop ?sz d)
      else if 0xfffe \<le> ?c \<and> ?c \<le> 0xffff then (s_invalid, drop ?sz d) else (?c, drop ?sz d))"
      using whole by (simp add: fromUTF8_def check_tail_conts Let_def del: if_split)
    then have "fromUTF8 d = (if ?ok then (?c, drop ?sz d) else (s_invalid, drop ?sz d))"
      unfolding mid linorder_not_le [symmetric] guards .
    then show ?thesis
      using whole by (auto simp: s_invalid_def)
  qed
qed

lemma lead_size_cases:
  "lead_size b = 0 \<or> lead_size b = 1 \<or> lead_size b = 2 \<or> lead_size b = 3 \<or> lead_size b = 4 \<or>
   lead_size b = 5 \<or> lead_size b = 6"
  by (simp add: lead_size_def)

lemma conts_Suc:
  "conts (Suc 0) d"
  "conts (Suc (Suc k)) d \<longleftrightarrow> conts (Suc k) d \<and> 0x80 \<le> d ! Suc k \<and> d ! Suc k < 0xc0"
  by (auto simp: conts_def less_Suc_eq)

lemma conts_Cons:
  "conts 2 (a # b # r) \<longleftrightarrow> 0x80 \<le> b \<and> b < 0xc0"
  "conts 3 (a # b # b2 # r) \<longleftrightarrow> (0x80 \<le> b \<and> b < 0xc0) \<and> (0x80 \<le> b2 \<and> b2 < 0xc0)"
  "conts 4 (a # b # b2 # b3 # r) \<longleftrightarrow> (0x80 \<le> b \<and> b < 0xc0) \<and> (0x80 \<le> b2 \<and> b2 < 0xc0) \<and>
     (0x80 \<le> b3 \<and> b3 < 0xc0)"
  "conts 5 (a # b # b2 # b3 # b4 # r) \<longleftrightarrow> (0x80 \<le> b \<and> b < 0xc0) \<and> (0x80 \<le> b2 \<and> b2 < 0xc0) \<and>
     (0x80 \<le> b3 \<and> b3 < 0xc0) \<and> (0x80 \<le> b4 \<and> b4 < 0xc0)"
  "conts 6 (a # b # b2 # b3 # b4 # b5 # r) \<longleftrightarrow> (0x80 \<le> b \<and> b < 0xc0) \<and> (0x80 \<le> b2 \<and> b2 < 0xc0) \<and>
     (0x80 \<le> b3 \<and> b3 < 0xc0) \<and> (0x80 \<le> b4 \<and> b4 < 0xc0) \<and> (0x80 \<le> b5 \<and> b5 < 0xc0)"
  by (simp_all add: conts_Suc numeral_eq_Suc)

lemma extract_char_simps:
  "extract_char 1 (a # r) = ucast a"
  "extract_char 2 (a # b # r) = push_bit 6 (ucast a AND 0x1f) OR low6 b"
  "extract_char 3 (a # b # b2 # r) = push_bit 12 (ucast a AND 0x0f) OR push_bit 6 (low6 b) OR low6 b2"
  "extract_char 4 (a # b # b2 # b3 # r) =
     push_bit 18 (ucast a AND 0x07) OR push_bit 12 (low6 b) OR push_bit 6 (low6 b2) OR low6 b3"
  "extract_char 5 (a # b # b2 # b3 # b4 # r) =
     push_bit 24 (ucast a AND 0x03) OR push_bit 18 (low6 b) OR push_bit 12 (low6 b2) OR
     push_bit 6 (low6 b3) OR low6 b4"
  "extract_char 6 (a # b # b2 # b3 # b4 # b5 # r) =
     push_bit 30 (ucast a AND 0x01) OR push_bit 24 (low6 b) OR push_bit 18 (low6 b2) OR
     push_bit 12 (low6 b3) OR push_bit 6 (low6 b4) OR low6 b5"
  by (simp_all add: extract_char_def)

lemma join_low:
  "push_bit 6 (take_bit k (drop_bit 6 c)) OR take_bit 6 c = take_bit (6 + k) (c :: u32)"
  "push_bit 12 (take_bit k (drop_bit 12 c)) OR take_bit 12 c = take_bit (12 + k) (c :: u32)"
  "push_bit 18 (take_bit k (drop_bit 18 c)) OR take_bit 18 c = take_bit (18 + k) (c :: u32)"
  "push_bit 24 (take_bit k (drop_bit 24 c)) OR take_bit 24 c = take_bit (24 + k) (c :: u32)"
  "push_bit 30 (take_bit k (drop_bit 30 c)) OR take_bit 30 c = take_bit (30 + k) (c :: u32)"
  using join_fields [of 0 6 k c] join_fields [of 0 12 k c] join_fields [of 0 18 k c]
    join_fields [of 0 24 k c] join_fields [of 0 30 k c] by simp_all

lemma extract_enc:
  "unat c < 2 ^ 7 \<Longrightarrow> extract_char 1 (ucast c # r) = c"
  "unat c < 2 ^ 11 \<Longrightarrow> extract_char 2 (lead_byte 6 c 0x1f 0xc0 # tail_byte 0 c # r) = c"
  "unat c < 2 ^ 16 \<Longrightarrow> extract_char 3 (lead_byte 12 c 0x0f 0xe0 # tail_byte 6 c # tail_byte 0 c # r) = c"
  "unat c < 2 ^ 21 \<Longrightarrow> extract_char 4 (lead_byte 18 c 0x07 0xf0 # tail_byte 12 c # tail_byte 6 c #
     tail_byte 0 c # r) = c"
  "unat c < 2 ^ 26 \<Longrightarrow> extract_char 5 (lead_byte 24 c 0x03 0xf8 # tail_byte 18 c # tail_byte 12 c #
     tail_byte 6 c # tail_byte 0 c # r) = c"
  "unat c < 2 ^ 31 \<Longrightarrow> extract_char 6 (lead_byte 30 c 0x01 0xfc # tail_byte 24 c # tail_byte 18 c #
     tail_byte 12 c # tail_byte 6 c # tail_byte 0 c # r) = c"
  subgoal
    by (simp add: extract_char_def word_unat_eq_iff unsigned_ucast_eq take_bit_nat_eq_self_iff unat_take_bit)
  unfolding extract_char_simps lead_byte_field low6_tail_byte
  by (simp_all add: join_low join_low(5) [of 1, simplified] take_bit_below)

lemma fromUTF8_accept:
  assumes "lead_size b = sz" and "sz \<noteq> 0" and "sz \<le> length (b # d)" and "conts sz (b # d)"
    and "extract_char sz (b # d) = c" and "s_minChar sz \<le> c" and "valid_char c"
  shows "fromUTF8 (b # d) = (c, drop sz (b # d))"
  using assms fromUTF8_iff [of "b # d" c "drop sz (b # d)"] by (simp add: valid_char_def)

text \<open>The six shapes of an encoded character.\<close>

lemma enc_eq:
  assumes "unat c < 2 ^ 31" and "\<not> (0xd800 \<le> c \<and> c \<le> 0xdfff)"
  shows "enc c =
    (if unat c < 2 ^ 7 then [ucast c]
     else if unat c < 2 ^ 11 then [lead_byte 6 c 0x1f 0xc0, tail_byte 0 c]
     else if unat c < 2 ^ 16 then [lead_byte 12 c 0x0f 0xe0, tail_byte 6 c, tail_byte 0 c]
     else if unat c < 2 ^ 21 then
       [lead_byte 18 c 0x07 0xf0, tail_byte 12 c, tail_byte 6 c, tail_byte 0 c]
     else if unat c < 2 ^ 26 then
       [lead_byte 24 c 0x03 0xf8, tail_byte 18 c, tail_byte 12 c, tail_byte 6 c, tail_byte 0 c]
     else
       [lead_byte 30 c 0x01 0xfc, tail_byte 24 c, tail_byte 18 c, tail_byte 12 c, tail_byte 6 c, tail_byte 0 c])"
proof -
  have "\<not> ((0xd800 \<le> c \<and> c \<le> 0xdfff) \<or> 0x80000000 \<le> c)"
    using assms by (auto simp: word_le_nat_alt)
  then show ?thesis
    by (simp only: enc_def toUTF8_def Let_def if_False append_Nil fst_conv word_less_nat_alt) simp
qed

lemma enc_shapes:
  assumes "valid_char c"
  obtains "unat c < 2 ^ 7" "enc c = [ucast c]"
  | "0x80 \<le> c" "unat c < 2 ^ 11" "enc c = [lead_byte 6 c 0x1f 0xc0, tail_byte 0 c]"
  | "0x800 \<le> c" "unat c < 2 ^ 16" "enc c = [lead_byte 12 c 0x0f 0xe0, tail_byte 6 c, tail_byte 0 c]"
  | "0x10000 \<le> c" "unat c < 2 ^ 21"
    "enc c = [lead_byte 18 c 0x07 0xf0, tail_byte 12 c, tail_byte 6 c, tail_byte 0 c]"
  | "0x200000 \<le> c" "unat c < 2 ^ 26"
    "enc c = [lead_byte 24 c 0x03 0xf8, tail_byte 18 c, tail_byte 12 c, tail_byte 6 c, tail_byte 0 c]"
  | "0x4000000 \<le> c" "unat c < 2 ^ 31"
    "enc c = [lead_byte 30 c 0x01 0xfc, tail_byte 24 c, tail_byte 18 c, tail_byte 12 c, tail_byte 6 c,
       tail_byte 0 c]"
proof -
  have lt: "unat c < 2 ^ 31" and ns: "\<not> (0xd800 \<le> c \<and> c \<le> 0xdfff)"
    using assms by (auto simp: valid_char_def word_less_nat_alt)
  note e = enc_eq [OF lt ns]
  consider "unat c < 2 ^ 7" | "2 ^ 7 \<le> unat c" "unat c < 2 ^ 11" | "2 ^ 11 \<le> unat c" "unat c < 2 ^ 16"
    | "2 ^ 16 \<le> unat c" "unat c < 2 ^ 21" | "2 ^ 21 \<le> unat c" "unat c < 2 ^ 26"
    | "2 ^ 26 \<le> unat c" "unat c < 2 ^ 31"
    using lt by linarith
  then show thesis
  proof cases
    case 1 then show thesis by (intro that(1)) (simp_all add: e word_less_nat_alt)
  next
    case 2 then show thesis by (intro that(2)) (simp_all add: e word_less_nat_alt word_le_nat_alt)
  next
    case 3 then show thesis by (intro that(3)) (simp_all add: e word_less_nat_alt word_le_nat_alt)
  next
    case 4 then show thesis by (intro that(4)) (simp_all add: e word_less_nat_alt word_le_nat_alt)
  next
    case 5 then show thesis by (intro that(5)) (simp_all add: e word_less_nat_alt word_le_nat_alt)
  next
    case 6 then show thesis by (intro that(6)) (simp_all add: e word_less_nat_alt word_le_nat_alt)
  qed
qed

lemmas accepts = lead_size_lead_byte extract_enc conts_Cons tail_byte_range s_minChar_def

lemma fromUTF8_enc:
  assumes v: "valid_char c"
  shows "fromUTF8 (enc c @ r) = (c, r)"
  using v
proof (cases rule: enc_shapes)
  case 1
  have "lead_size (ucast c) = 1"
    using 1 by (simp add: lead_size_def word_less_nat_alt unsigned_ucast_eq take_bit_eq_mod unat_take_bit)
  then show ?thesis
    using 1 v fromUTF8_accept [of "ucast c" 1 r c]
    by (simp add: extract_enc [simplified] conts_Suc s_minChar_def)
next
  case 2
  with v show ?thesis
    using fromUTF8_accept [of "lead_byte 6 c 0x1f 0xc0" 2 "[tail_byte 0 c] @ r" c]
    by (simp add: accepts)
next
  case 3
  with v show ?thesis
    using fromUTF8_accept [of "lead_byte 12 c 0x0f 0xe0" 3 "[tail_byte 6 c, tail_byte 0 c] @ r" c]
    by (simp add: accepts)
next
  case 4
  with v show ?thesis
    using fromUTF8_accept [of "lead_byte 18 c 0x07 0xf0" 4 "[tail_byte 12 c, tail_byte 6 c, tail_byte 0 c] @ r" c]
    by (simp add: accepts)
next
  case 5
  with v show ?thesis
    using fromUTF8_accept [of "lead_byte 24 c 0x03 0xf8" 5 "[tail_byte 18 c, tail_byte 12 c, tail_byte 6 c, tail_byte 0 c] @ r" c]
    by (simp add: accepts)
next
  case 6
  with v show ?thesis
    using fromUTF8_accept [of "lead_byte 30 c 0x01 0xfc" 6 "[tail_byte 24 c, tail_byte 18 c, tail_byte 12 c, tail_byte 6 c, tail_byte 0 c] @ r" c]
    by (simp add: accepts)
qed

section \<open>What decodes without error is an encoding\<close>

lemma unat_byte_up: "unat (ucast (b :: byte) :: u32) = unat b"
  using unsigned_less [of b, where 'a = nat]
  by (simp add: unsigned_ucast_eq take_bit_nat_eq_self_iff)

lemma low6_eq: "low6 b = take_bit 6 (ucast b)"
  by (simp add: low6_def mask_lits(6) take_bit_eq_mask)

lemma unat_low6: "unat (low6 b) = unat b mod 64"
  by (simp add: low6_eq unat_take_bit unat_byte_up)

lemma mod_in_block:
  assumes "h \<le> x" and "x < h + n" and "n dvd h"
  shows "x mod n + h = (x :: nat)"
proof -
  from assms(3) obtain q where "h = n * q" by blast
  moreover from assms(1) obtain d where "x = h + d" by (auto simp: le_iff_add)
  ultimately show ?thesis using assms(2) by simp
qed

lemma tail_byte_eq:
  assumes "take_bit 6 (drop_bit s c) = low6 b" and "0x80 \<le> b \<and> b < 0xc0"
  shows "tail_byte s c = b"
proof -
  have "unat (tail_byte s c) = unat (take_bit 6 (drop_bit s c)) + 128"
    unfolding tail_byte_def mask_lits by (simp add: take_bit_eq_mask [symmetric] unat_header)
  then show ?thesis
    using assms mod_in_block [of 128 "unat b" 64]
    by (simp add: unat_low6 word_unat_eq_iff word_le_nat_alt word_less_nat_alt)
qed

lemma lead_size_range:
  "lead_size b = 1 \<Longrightarrow> unat b < 128"
  "lead_size b = 2 \<Longrightarrow> 192 \<le> unat b \<and> unat b < 224"
  "lead_size b = 3 \<Longrightarrow> 224 \<le> unat b \<and> unat b < 240"
  "lead_size b = 4 \<Longrightarrow> 240 \<le> unat b \<and> unat b < 248"
  "lead_size b = 5 \<Longrightarrow> 248 \<le> unat b \<and> unat b < 252"
  "lead_size b = 6 \<Longrightarrow> 252 \<le> unat b \<and> unat b < 254"
  unfolding lead_size_def word_less_nat_alt by (simp_all split: if_splits)

lemma lead_byte_eq:
  assumes "take_bit m (drop_bit s c) = take_bit m (ucast b)" and "unat h + 2 ^ m \<le> 256"
    and "unat h \<le> unat b" and "unat b < unat h + 2 ^ m" and "2 ^ m dvd unat h"
  shows "lead_byte s c (mask m) h = b"
proof -
  have "unat (lead_byte s c (mask m) h) = unat (take_bit m (ucast b :: u32)) + unat h"
    unfolding lead_byte_def using assms(1,2) by (simp add: take_bit_eq_mask [symmetric] unat_header)
  also have "\<dots> = unat b"
    using assms(3-5) by (simp add: unat_take_bit unat_byte_up mod_in_block)
  finally show ?thesis by (simp add: word_unat_eq_iff)
qed

text \<open>The decoded value, one continuation byte at a time.\<close>

definition shift_in :: "u32 \<Rightarrow> byte \<Rightarrow> u32" where
  "shift_in x b = push_bit 6 x OR low6 b"

lemma extract_shift_in:
  "extract_char 2 (a # b # r) = shift_in (ucast a AND 0x1f) b"
  "extract_char 3 (a # b # b2 # r) = shift_in (shift_in (ucast a AND 0x0f) b) b2"
  "extract_char 4 (a # b # b2 # b3 # r) = shift_in (shift_in (shift_in (ucast a AND 0x07) b) b2) b3"
  "extract_char 5 (a # b # b2 # b3 # b4 # r) =
     shift_in (shift_in (shift_in (shift_in (ucast a AND 0x03) b) b2) b3) b4"
  "extract_char 6 (a # b # b2 # b3 # b4 # b5 # r) =
     shift_in (shift_in (shift_in (shift_in (shift_in (ucast a AND 0x01) b) b2) b3) b4) b5"
  unfolding extract_char_simps shift_in_def push_bit_or push_bit_push_bit or.assoc
  by (simp_all only: arith_simps)

lemma shift_in_low: "take_bit 6 (shift_in x b) = low6 b"
  unfolding shift_in_def low6_eq by (rule bit_word_eqI) (auto simp: bit_simps)

lemma shift_in_high: "unat x < 2 ^ 26 \<Longrightarrow> drop_bit 6 (shift_in x b) = x"
proof -
  assume "unat x < 2 ^ 26"
  then have "take_bit 26 x = x" by (rule take_bit_below)
  moreover have "drop_bit 6 (shift_in x b) = take_bit 26 x"
    unfolding shift_in_def low6_eq by (rule bit_word_eqI) (auto simp: bit_simps)
  ultimately show ?thesis by simp
qed

lemma shift_in_higher:
  assumes "unat x < 2 ^ 26"
  shows "drop_bit 12 (shift_in x b) = drop_bit 6 x" "drop_bit 18 (shift_in x b) = drop_bit 12 x"
    "drop_bit 24 (shift_in x b) = drop_bit 18 x" "drop_bit 30 (shift_in x b) = drop_bit 24 x"
  using drop_bit_drop_bit [of 6 6 "shift_in x b"] drop_bit_drop_bit [of 12 6 "shift_in x b"]
    drop_bit_drop_bit [of 18 6 "shift_in x b"] drop_bit_drop_bit [of 24 6 "shift_in x b"]
    shift_in_high [OF assms, of b] by simp_all

lemma take_bit_and_mask: "take_bit m x AND mask m = take_bit m (x :: u32)"
  by (simp add: take_bit_eq_mask ac_simps)

lemma shift_in_bound:
  assumes "unat x < 2 ^ k"
  shows "unat (shift_in x b) < 2 ^ (k + 6)"
proof -
  have "take_bit k x = x" using assms by (rule take_bit_below)
  then have "bit x n \<Longrightarrow> n < k" for n by (metis bit_take_bit_iff)
  then have high: "bit x (n - 6) \<Longrightarrow> n < k + 6" for n by fastforce
  then have "take_bit (k + 6) (shift_in x b) = shift_in x b"
    unfolding shift_in_def low6_eq by (intro bit_word_eqI) (auto simp: bit_simps dest: high)
  then show ?thesis by (metis unat_take_bit_less)
qed

lemma lead_bound: "unat (w AND mask m :: u32) < 2 ^ m"
  by (simp add: take_bit_eq_mask [symmetric] unat_take_bit_less)

lemmas shift_in_fields = shift_in_low shift_in_high shift_in_higher take_bit_and_mask conts_Cons

text \<open>A well-formed sequence of each length is the encoding of its value.\<close>

lemma enc_extract1:
  assumes "lead_size a = 1"
  shows "unat (ucast a :: u32) < 2 ^ 31" and "enc (ucast a) = [a]"
proof -
  have "unat (ucast a :: u32) < 2 ^ 7"
    using lead_size_range(1) [OF assms] by (simp add: unat_byte_up)
  moreover have "ucast (ucast a :: u32) = a"
    by (rule bit_word_eqI) (simp add: bit_simps)
  ultimately show "unat (ucast a :: u32) < 2 ^ 31" and "enc (ucast a) = [a]"
    by (simp_all add: enc_eq word_le_nat_alt)
qed

lemma enc_extract2:
  assumes "lead_size a = 2" and "conts 2 (a # b1 # r)" and c: "c = extract_char 2 (a # b1 # r)"
    and "s_minChar 2 \<le> c" and "\<not> (0xd800 \<le> c \<and> c \<le> 0xdfff)"
  shows "unat c < 2 ^ 31" and "enc c = [a, b1]"
proof -
  have z0: "unat (ucast a AND 0x1f :: u32) < 2 ^ 5"
    unfolding mask_lits by (rule lead_bound)
  note z1 = shift_in_bound [OF z0, of b1]
  note bnd = z0 z1
  have "tail_byte 0 c = b1"
    unfolding c extract_shift_in using assms(2) bnd
    by (intro tail_byte_eq; simp add: shift_in_fields)+
  moreover have "lead_byte 6 c 0x1f 0xc0 = a"
    unfolding mask_lits(1) c extract_shift_in using lead_size_range(2) [OF assms(1)] bnd
    by (intro lead_byte_eq) (simp_all add: shift_in_fields mask_lits(1))
  moreover have "unat c < 2 ^ 11" and "2 ^ 7 \<le> unat c"
    using bnd assms(4) by (simp_all add: c extract_shift_in s_minChar_def word_le_nat_alt)
  ultimately show "unat c < 2 ^ 31" and "enc c = [a, b1]"
    using assms(5) by (simp_all add: enc_eq)
qed

lemma enc_extract3:
  assumes "lead_size a = 3" and "conts 3 (a # b1 # b2 # r)" and c: "c = extract_char 3 (a # b1 # b2 # r)"
    and "s_minChar 3 \<le> c" and "\<not> (0xd800 \<le> c \<and> c \<le> 0xdfff)"
  shows "unat c < 2 ^ 31" and "enc c = [a, b1, b2]"
proof -
  have z0: "unat (ucast a AND 0x0f :: u32) < 2 ^ 4"
    unfolding mask_lits by (rule lead_bound)
  note z1 = shift_in_bound [OF z0, of b1]
  note z2 = shift_in_bound [OF z1, of b2]
  note bnd = z0 z1 z2
  have "tail_byte 6 c = b1" and "tail_byte 0 c = b2"
    unfolding c extract_shift_in using assms(2) bnd
    by (intro tail_byte_eq; simp add: shift_in_fields)+
  moreover have "lead_byte 12 c 0x0f 0xe0 = a"
    unfolding mask_lits(2) c extract_shift_in using lead_size_range(3) [OF assms(1)] bnd
    by (intro lead_byte_eq) (simp_all add: shift_in_fields mask_lits(2))
  moreover have "unat c < 2 ^ 16" and "2 ^ 11 \<le> unat c"
    using bnd assms(4) by (simp_all add: c extract_shift_in s_minChar_def word_le_nat_alt)
  ultimately show "unat c < 2 ^ 31" and "enc c = [a, b1, b2]"
    using assms(5) by (simp_all add: enc_eq)
qed

lemma enc_extract4:
  assumes "lead_size a = 4" and "conts 4 (a # b1 # b2 # b3 # r)" and c: "c = extract_char 4 (a # b1 # b2 # b3 # r)"
    and "s_minChar 4 \<le> c" and "\<not> (0xd800 \<le> c \<and> c \<le> 0xdfff)"
  shows "unat c < 2 ^ 31" and "enc c = [a, b1, b2, b3]"
proof -
  have z0: "unat (ucast a AND 0x07 :: u32) < 2 ^ 3"
    unfolding mask_lits by (rule lead_bound)
  note z1 = shift_in_bound [OF z0, of b1]
  note z2 = shift_in_bound [OF z1, of b2]
  note z3 = shift_in_bound [OF z2, of b3]
  note bnd = z0 z1 z2 z3
  have "tail_byte 12 c = b1" and "tail_byte 6 c = b2" and "tail_byte 0 c = b3"
    unfolding c extract_shift_in using assms(2) bnd
    by (intro tail_byte_eq; simp add: shift_in_fields)+
  moreover have "lead_byte 18 c 0x07 0xf0 = a"
    unfolding mask_lits(3) c extract_shift_in using lead_size_range(4) [OF assms(1)] bnd
    by (intro lead_byte_eq) (simp_all add: shift_in_fields mask_lits(3))
  moreover have "unat c < 2 ^ 21" and "2 ^ 16 \<le> unat c"
    using bnd assms(4) by (simp_all add: c extract_shift_in s_minChar_def word_le_nat_alt)
  ultimately show "unat c < 2 ^ 31" and "enc c = [a, b1, b2, b3]"
    using assms(5) by (simp_all add: enc_eq)
qed

lemma enc_extract5:
  assumes "lead_size a = 5" and "conts 5 (a # b1 # b2 # b3 # b4 # r)" and c: "c = extract_char 5 (a # b1 # b2 # b3 # b4 # r)"
    and "s_minChar 5 \<le> c" and "\<not> (0xd800 \<le> c \<and> c \<le> 0xdfff)"
  shows "unat c < 2 ^ 31" and "enc c = [a, b1, b2, b3, b4]"
proof -
  have z0: "unat (ucast a AND 0x03 :: u32) < 2 ^ 2"
    unfolding mask_lits by (rule lead_bound)
  note z1 = shift_in_bound [OF z0, of b1]
  note z2 = shift_in_bound [OF z1, of b2]
  note z3 = shift_in_bound [OF z2, of b3]
  note z4 = shift_in_bound [OF z3, of b4]
  note bnd = z0 z1 z2 z3 z4
  have "tail_byte 18 c = b1" and "tail_byte 12 c = b2" and "tail_byte 6 c = b3" and "tail_byte 0 c = b4"
    unfolding c extract_shift_in using assms(2) bnd
    by (intro tail_byte_eq; simp add: shift_in_fields)+
  moreover have "lead_byte 24 c 0x03 0xf8 = a"
    unfolding mask_lits(4) c extract_shift_in using lead_size_range(5) [OF assms(1)] bnd
    by (intro lead_byte_eq) (simp_all add: shift_in_fields mask_lits(4))
  moreover have "unat c < 2 ^ 26" and "2 ^ 21 \<le> unat c"
    using bnd assms(4) by (simp_all add: c extract_shift_in s_minChar_def word_le_nat_alt)
  ultimately show "unat c < 2 ^ 31" and "enc c = [a, b1, b2, b3, b4]"
    using assms(5) by (simp_all add: enc_eq)
qed

lemma enc_extract6:
  assumes "lead_size a = 6" and "conts 6 (a # b1 # b2 # b3 # b4 # b5 # r)" and c: "c = extract_char 6 (a # b1 # b2 # b3 # b4 # b5 # r)"
    and "s_minChar 6 \<le> c" and "\<not> (0xd800 \<le> c \<and> c \<le> 0xdfff)"
  shows "unat c < 2 ^ 31" and "enc c = [a, b1, b2, b3, b4, b5]"
proof -
  define x :: u32 where x: "x = ucast a AND 0x01"
  have z0: "unat x < 2 ^ 1"
    unfolding x mask_lits by (rule lead_bound)
  note z1 = shift_in_bound [OF z0, of b1]
  note z2 = shift_in_bound [OF z1, of b2]
  note z3 = shift_in_bound [OF z2, of b3]
  note z4 = shift_in_bound [OF z3, of b4]
  note z5 = shift_in_bound [OF z4, of b5]
  note bnd = z0 z1 z2 z3 z4 z5
  have "tail_byte 24 c = b1" and "tail_byte 18 c = b2" and "tail_byte 12 c = b3" and "tail_byte 6 c = b4" and "tail_byte 0 c = b5"
    unfolding c extract_shift_in x [symmetric]
    using assms(2) bnd by (intro tail_byte_eq; simp add: shift_in_fields)+
  moreover have "lead_byte 30 c (mask 1) 0xfc = a"
  proof (rule lead_byte_eq)
    have "drop_bit 30 c = x"
      unfolding c extract_shift_in x [symmetric] using bnd by (simp add: shift_in_fields)
    then show "take_bit 1 (drop_bit 30 c) = take_bit 1 (ucast a)"
      by (simp add: x) (simp add: and_one_eq mod_2_eq_odd)
  qed (use lead_size_range(6) [OF assms(1)] in simp_all)
  then have "lead_byte 30 c 0x01 0xfc = a" by simp
  moreover have "unat c < 2 ^ 31" and "2 ^ 26 \<le> unat c"
    using bnd assms(4) by (simp_all add: c extract_shift_in x [symmetric] s_minChar_def word_le_nat_alt)
  ultimately show "unat c < 2 ^ 31" and "enc c = [a, b1, b2, b3, b4, b5]"
    using assms(5) by (simp_all add: enc_eq)
qed

lemma fromUTF8_enc_inv:
  assumes "fromUTF8 d = (c, r)" and "c \<noteq> s_invalid"
  shows "valid_char c \<and> d = enc c @ r"
proof -
  let ?sz = "lead_size (d ! 0)"
  from assms have d: "d \<noteq> []" "?sz \<noteq> 0" "?sz \<le> length d" "conts ?sz d" "c = extract_char ?sz d"
    "s_minChar ?sz \<le> c" "\<not> (0xd800 \<le> c \<and> c \<le> 0xdfff)" "c \<noteq> 0xfffe" "c \<noteq> 0xffff" "r = drop ?sz d"
    using fromUTF8_iff [of d c r] by blast+
  have "unat c < 2 ^ 31 \<and> d = enc c @ r"
    using d(2) lead_size_cases [of "d ! 0"]
  proof (elim disjE)
    assume 1: "?sz = 1"
    then obtain a where "d = a # r" using d(1,10) by (cases d) auto
    with 1 d(5) enc_extract1 [of a] show ?thesis by (simp add: extract_char_def)
  next
    assume 2: "?sz = 2"
    then obtain a b1 where "d = a # b1 # r"
      using d(1,3,10) by (auto simp: numeral_eq_Suc Suc_le_length_iff)
    with 2 d(4-7) enc_extract2 [of a b1 r c] show ?thesis by simp
  next
    assume 3: "?sz = 3"
    then obtain a b1 b2 where "d = a # b1 # b2 # r"
      using d(1,3,10) by (auto simp: numeral_eq_Suc Suc_le_length_iff)
    with 3 d(4-7) enc_extract3 [of a b1 b2 r c] show ?thesis by simp
  next
    assume 4: "?sz = 4"
    then obtain a b1 b2 b3 where "d = a # b1 # b2 # b3 # r"
      using d(1,3,10) by (auto simp: numeral_eq_Suc Suc_le_length_iff)
    with 4 d(4-7) enc_extract4 [of a b1 b2 b3 r c] show ?thesis by simp
  next
    assume 5: "?sz = 5"
    then obtain a b1 b2 b3 b4 where "d = a # b1 # b2 # b3 # b4 # r"
      using d(1,3,10) by (auto simp: numeral_eq_Suc Suc_le_length_iff)
    with 5 d(4-7) enc_extract5 [of a b1 b2 b3 b4 r c] show ?thesis by simp
  next
    assume 6: "?sz = 6"
    then obtain a b1 b2 b3 b4 b5 where "d = a # b1 # b2 # b3 # b4 # b5 # r"
      using d(1,3,10) by (auto simp: numeral_eq_Suc Suc_le_length_iff)
    with 6 d(4-7) enc_extract6 [of a b1 b2 b3 b4 b5 r c] show ?thesis by simp
  qed simp
  with d(7-9) show ?thesis by (simp add: valid_char_def word_less_nat_alt)
qed

section \<open>The validity test\<close>

definition encode :: "u32 list \<Rightarrow> bytes" where
  "encode cs = concat (map enc cs)"

lemma encode_simps [simp]: "encode [] = []" "encode (c # cs) = enc c @ encode cs"
  by (simp_all add: encode_def)

lemma enc_not_Nil [simp]: "valid_char c \<Longrightarrow> enc c \<noteq> []"
  by (erule enc_shapes) (simp_all only: list.distinct not_False_eq_True)

lemma counted_small [simp]: "length s < 2 ^ 32 \<Longrightarrow> counted s = s"
  by (simp add: counted_def)

lemma isUTF8_loop_iff:
  "isUTF8_loop d \<longleftrightarrow> (\<exists>cs. (\<forall>c \<in> set cs. valid_char c) \<and> d = encode cs)"
proof (induction d rule: isUTF8_loop.induct)
  case (1 d)
  show ?case
  proof (cases "d = []")
    case True
    then show ?thesis by (auto simp: isUTF8_loop.simps intro: exI [of _ "[]"])
  next
    case False
    obtain c r where cr: "fromUTF8 d = (c, r)" by fastforce
    show ?thesis
    proof
      assume "isUTF8_loop d"
      with False cr have c: "c \<noteq> s_invalid" and "isUTF8_loop r"
        by (simp_all add: isUTF8_loop.simps [of d] split: if_splits)
      with 1 [OF False refl, of c r] cr obtain cs where "\<forall>c \<in> set cs. valid_char c" "r = encode cs" by auto
      with fromUTF8_enc_inv [OF cr c]
      show "\<exists>cs. (\<forall>c \<in> set cs. valid_char c) \<and> d = encode cs"
        by (intro exI [of _ "c # cs"]) simp
    next
      assume "\<exists>cs. (\<forall>c \<in> set cs. valid_char c) \<and> d = encode cs"
      then obtain c' cs where cs: "valid_char c'" "\<forall>c \<in> set cs. valid_char c" "d = enc c' @ encode cs"
        using False by (metis encode_simps list.exhaust list.set_intros)
      with cr have "c = c'" "r = encode cs" by (simp_all add: fromUTF8_enc)
      moreover from cs(1) have "c' \<noteq> s_invalid" by auto
      ultimately show "isUTF8_loop d"
        using 1 [OF False refl, of c r] False cr cs(2) by (auto simp: isUTF8_loop.simps [of d])
    qed
  qed
qed

section \<open>The round trip through UTF-16\<close>

lemma decode16_word [simp]: "decode16 (ucast w) (ucast (drop_bit 8 w)) False = w"
  unfolding decode16_def by (rule bit_word_eqI) (auto simp: bit_simps)

definition utf16 :: "u32 \<Rightarrow> bytes" where
  "utf16 c = append_utf16 [] c"

lemma append_utf16_eq: "append_utf16 dst c = dst @ utf16 c"
  by (simp add: utf16_def append_utf16_def append16_def Let_def)

definition utf16_char :: "u32 \<Rightarrow> bool" where
  "utf16_char c \<longleftrightarrow> valid_char c \<and> c < 0x110000"

lemma UTF8ToUTF16_loop_encode:
  "\<forall>c \<in> set cs. utf16_char c \<Longrightarrow>
   UTF8ToUTF16_loop (encode cs) dst e = (dst @ concat (map utf16 cs), e)"
proof (induction cs arbitrary: dst)
  case (Cons c cs)
  then have "valid_char c" "\<not> 0x110000 \<le> c" by (simp_all add: utf16_char_def not_le)
  then have "c \<noteq> s_invalid" by auto
  with Cons \<open>valid_char c\<close> \<open>\<not> 0x110000 \<le> c\<close> show ?case
    by (simp add: UTF8ToUTF16_loop.simps [of "enc c @ encode cs"] fromUTF8_enc append_utf16_eq)
qed (simp add: UTF8ToUTF16_loop.simps)

text \<open>A surrogate pair carries the twenty bits of a code above the basic plane.\<close>

lemma surrogates:
  fixes c :: u32
  assumes "0x10000 \<le> c" and "c < 0x110000"
  defines "h \<equiv> ucast (ucast (drop_bit 10 (c - 0x10000) + 0xd800) :: u16) :: u32"
    and "l \<equiv> ucast (ucast (((c - 0x10000) AND 0x3ff) + 0xdc00) :: u16) :: u32"
  shows "0xd800 \<le> h" "h \<le> 0xdbff" "0xdc00 \<le> l" "l \<le> 0xdfff"
    "(push_bit 10 (h - 0xd800) OR (l - 0xdc00)) + 0x10000 = c"
proof -
  let ?c = "c - 0x10000"
  have c: "unat ?c < 2 ^ 20"
    using assms(1,2) by (simp add: word_less_nat_alt word_le_nat_alt unat_sub)
  have mask: "(0x3ff :: u32) = mask 10" by (simp add: mask_eq_exp_minus_1)
  have hi: "unat (drop_bit 10 ?c) < 2 ^ 10"
    using c by (simp add: drop_bit_eq_div unat_div)
  have lo: "unat (?c AND 0x3ff) < 2 ^ 10" unfolding mask by (rule lead_bound)
  have up: "unat (ucast (ucast (x + k) :: u16) :: u32) = unat x + unat k"
    if "unat x < 2 ^ 10" "unat k < 2 ^ 16 - 2 ^ 10" for x k :: u32
  proof -
    have "unat (x + k) = unat x + unat k"
      using that by (subst unat_add_lem [THEN iffD1]) simp_all
    with that show ?thesis
      by (simp add: unsigned_ucast_eq take_bit_nat_eq_self_iff unat_take_bit)
  qed
  have h: "unat h = unat (drop_bit 10 ?c) + 0xd800" and l: "unat l = unat (?c AND 0x3ff) + 0xdc00"
    using up [OF hi, of "0xd800"] up [OF lo, of "0xdc00"] by (simp_all add: h_def l_def)
  then show le: "0xd800 \<le> h" "h \<le> 0xdbff" "0xdc00 \<le> l" "l \<le> 0xdfff"
    using hi lo by (simp_all add: word_le_nat_alt)
  have "h - 0xd800 = drop_bit 10 ?c" "l - 0xdc00 = take_bit 10 ?c"
    using h l unat_sub [OF le(1)] unat_sub [OF le(3)]
    by (simp_all add: word_unat_eq_iff mask take_bit_eq_mask [of 10 ?c])
  then have "push_bit 10 (h - 0xd800) OR (l - 0xdc00) = ?c"
    by simp (rule bit_word_eqI, auto simp: bit_simps)
  then show "(push_bit 10 (h - 0xd800) OR (l - 0xdc00)) + 0x10000 = c" by simp
qed

lemma utf16_small: "c < 0x10000 \<Longrightarrow> utf16 c = [ucast c, ucast (drop_bit 8 (ucast c :: u16))]"
  by (simp add: utf16_def append_utf16_def append16_def unsigned_ucast_eq)
    (rule bit_word_eqI, simp add: bit_simps)

lemma UTF16_loop_char:
  assumes "utf16_char c"
  shows "UTF16_loop (utf16 c @ r) False dst e = UTF16_loop r False (dst @ enc c) e"
proof (cases "c < 0x10000")
  case True
  then have "ucast (ucast c :: u16) = c"
    by (simp add: word_unat_eq_iff unsigned_ucast_eq word_less_nat_alt take_bit_nat_eq_self_iff unat_take_bit)
  moreover from assms have "c < 0xd800 \<or> c > 0xdfff"
    by (auto simp: utf16_char_def valid_char_def not_le)
  ultimately show ?thesis
    using assms True by (simp add: utf16_def append_utf16_def append16_def utf16_char_def toUTF8_valid)
next
  case False
  with assms have "0x10000 \<le> c" "c < 0x110000" "valid_char c" by (simp_all add: utf16_char_def)
  note sur = surrogates [OF this(1,2)]
  let ?h = "ucast (drop_bit 10 (c - 0x10000) + 0xd800) :: u16"
  let ?l = "ucast (((c - 0x10000) AND 0x3ff) + 0xdc00) :: u16"
  have "utf16 c = [ucast ?h, ucast (drop_bit 8 ?h), ucast ?l, ucast (drop_bit 8 ?l)]"
    using False by (simp add: utf16_def append_utf16_def append16_def Let_def)
  moreover have "\<not> (ucast ?h < (0xd800 :: u32) \<or> (0xdfff :: u32) < ucast ?h)"
    and "\<not> (ucast ?l < (0xdc00 :: u32) \<or> (0xdfff :: u32) < ucast ?l)"
    using sur(1,3,4) order.trans [OF sur(2), of "0xdfff"] by (simp_all add: not_less)
  ultimately show ?thesis
    using sur \<open>valid_char c\<close> 
    by (simp only: append_Cons append_Nil UTF16_loop.simps decode16_word Let_def list.case if_False if_True
        sur simp_thms toUTF8_valid prod.case)
qed

lemma UTF16_loop_text:
  "\<forall>c \<in> set cs. utf16_char c \<Longrightarrow>
   UTF16_loop (concat (map utf16 cs)) False dst e = (dst @ encode cs, e)"
  by (induction cs arbitrary: dst) (simp_all add: UTF16_loop_char)

lemma skip_bom_utf16:
  assumes "utf16_char c" and "c \<noteq> 0xfeff"
  shows "skip_bom (utf16 c @ r) = (False, utf16 c @ r)"
proof (cases "c < 0x10000")
  case True
  then have "ucast (ucast c :: u16) = c"
    by (simp add: word_unat_eq_iff unsigned_ucast_eq word_less_nat_alt take_bit_nat_eq_self_iff unat_take_bit)
  then have "(ucast c :: u16) \<noteq> 0xfeff" "(ucast c :: u16) \<noteq> 0xfffe"
    using assms by (auto simp: utf16_char_def valid_char_def)
  with True show ?thesis
    by (simp add: utf16_def append_utf16_def append16_def skip_bom_def)
next
  case False
  with assms have "0x10000 \<le> c" "c < 0x110000" by (simp_all add: utf16_char_def)
  note sur = surrogates(1,2) [OF this]
  let ?h = "ucast (drop_bit 10 (c - 0x10000) + 0xd800) :: u16"
  have "?h \<noteq> 0xfeff" "?h \<noteq> 0xfffe" using sur by auto
  with False show ?thesis
    by (simp only: utf16_def append_utf16_def append16_def skip_bom_def Let_def append_Cons append_Nil
        list.case decode16_word if_False)
qed

lemma utf16_length: "length (utf16 c) = 2 \<or> length (utf16 c) = 4"
  by (simp add: utf16_def append_utf16_def append16_def Let_def)

lemma utf16_even: "even (length (concat (map utf16 cs)))"
proof (induction cs)
  case (Cons c cs)
  then show ?case using utf16_length [of c] by auto
qed simp

lemma utf16_length_le: "valid_char c \<Longrightarrow> length (utf16 c) \<le> 2 * length (enc c)"
  using utf16_length [of c]
  by (erule_tac enc_shapes) (auto simp: utf16_small word_less_nat_alt)

lemma utf16_text_length:
  "\<forall>c \<in> set cs. utf16_char c \<Longrightarrow> length (concat (map utf16 cs)) \<le> 2 * length (encode cs)"
  by (induction cs) (auto simp: utf16_char_def dest!: utf16_length_le)

lemma counted16_small: "even (length s) \<Longrightarrow> length s < 2 ^ 32 \<Longrightarrow> counted16 s = s"
  by (auto simp: counted16_def elim: evenE)

lemma skip_bom_text:
  "\<forall>c \<in> set cs. utf16_char c \<Longrightarrow> cs = [] \<or> hd cs \<noteq> 0xfeff \<Longrightarrow>
   skip_bom (concat (map utf16 cs)) = (False, concat (map utf16 cs))"
  by (cases cs) (simp_all add: skip_bom_utf16, simp add: skip_bom_def)

text \<open>
  C39. The validity test accepts a text exactly when it is the concatenation of the encodings
  of scalar values other than the two noncharacters U+FFFE and U+FFFF: every overlong,
  truncated or surrogate sequence is refused. The values range up to \<open>2\<^sup>31\<close>, not to U+10FFFF.
\<close>

theorem utf8_validity:
  assumes "length s < 2 ^ 32"
  shows "isUTF8 s \<longleftrightarrow> (\<exists>cs. (\<forall>c \<in> set cs. valid_char c) \<and> s = encode cs)"
  using assms by (simp add: isUTF8_def isUTF8_loop_iff)

theorem utf8_validity_witness:
  "isUTF8 [0x41, 0xc3, 0xa9] \<longleftrightarrow>
     (\<exists>cs. (\<forall>c \<in> set cs. valid_char c) \<and> [0x41, 0xc3, 0xa9] = encode cs)"
  by (rule utf8_validity) simp

text \<open>
  Converting a text to UTF-16 and back gives the text again and flags no error, for every
  text of scalar values up to U+10FFFF that does not begin with a byte-order mark and whose
  UTF-16 form has fewer than \<open>2\<^sup>32\<close> bytes.
\<close>

theorem utf16_roundtrip:
  assumes "\<forall>c \<in> set cs. utf16_char c" and "cs = [] \<or> hd cs \<noteq> 0xfeff"
    and "length (encode cs) < 2 ^ 31"
  shows "snd (UTF8ToUTF16 (encode cs) (Some e)) = Some False \<and>
    UTF16ToUTF8 (fst (UTF8ToUTF16 (encode cs) (Some e))) (Some e') = (encode cs, Some False)"
proof
  have to: "UTF8ToUTF16 (encode cs) (Some e) = (concat (map utf16 cs), Some False)"
    using assms(1,3) by (simp add: UTF8ToUTF16_def UTF8ToUTF16_loop_encode resetError_def)
  then show "snd (UTF8ToUTF16 (encode cs) (Some e)) = Some False" by simp
  have "length (concat (map utf16 cs)) < 2 ^ 32"
    using utf16_text_length [OF assms(1)] assms(3) by simp
  then have "counted16 (concat (map utf16 cs)) = concat (map utf16 cs)"
    using utf16_even by (rule_tac counted16_small)
  then show "UTF16ToUTF8 (fst (UTF8ToUTF16 (encode cs) (Some e))) (Some e') = (encode cs, Some False)"
    using assms(1,2)
    by (simp add: to UTF16ToUTF8_def doUTF16ToUTF8_def skip_bom_text UTF16_loop_text resetError_def)
qed

theorem utf16_roundtrip_witness:
  "snd (UTF8ToUTF16 (encode [0x41, 0x1f600]) (Some True)) = Some False \<and>
   UTF16ToUTF8 (fst (UTF8ToUTF16 (encode [0x41, 0x1f600]) (Some True))) (Some True)
     = (encode [0x41, 0x1f600], Some False)"
  by (rule utf16_roundtrip)
    (simp_all add: utf16_char_def valid_char_def enc_eq)

text \<open>The conversion accepts the word \<open>0xffff\<close> and produces a text the validity test refuses.\<close>

lemma noncharacter_refused:
  "UTF16ToUTF8 [0xff, 0xff] (Some True) = ([0xef, 0xbf, 0xbf], Some False) \<and>
   \<not> isUTF8 [0xef, 0xbf, 0xbf]"
proof
  show "UTF16ToUTF8 [0xff, 0xff] (Some True) = ([0xef, 0xbf, 0xbf], Some False)"
    by (simp add: UTF16ToUTF8_def counted16_def doUTF16ToUTF8_def skip_bom_def decode16_def toUTF8_def
        resetError_def lead_byte_def tail_byte_def Let_def)
  have "fst (fromUTF8 [0xef, 0xbf, 0xbf]) = s_invalid"
    by (simp add: fromUTF8_def lead_size_def check_tail.simps extract_char_def low6_def s_minChar_def)
  then show "\<not> isUTF8 [0xef, 0xbf, 0xbf]"
    by (simp add: isUTF8_def isUTF8_loop.simps [of "[0xef, 0xbf, 0xbf]"] split_beta)
qed

end
