(* ===== verification/Priority_Queue.thy ===== *)
theory Priority_Queue
  imports Main "HOL-Library.Multiset"
begin

text \<open>
  \<^verbatim>\<open>base/PriorityQueue.h\<close>: a priority queue with iterators over a vector that the heap
  algorithms of the standard library keep ordered as a binary heap with the least key in
  front (the comparison is \<^verbatim>\<open>std::greater\<close>). The standard fixes what those algorithms
  achieve, not where they leave each element; they are modelled by the usual sifting. The
  client relies only on the laws of the locale \<open>min_queue\<close>.
\<close>

section \<open>The interface\<close>

locale min_queue =
  fixes key :: "'a \<Rightarrow> 'k :: linorder"
    and ok :: "'q \<Rightarrow> bool"
    and elems :: "'q \<Rightarrow> 'a multiset"
    and top :: "'q \<Rightarrow> 'a"
    and push :: "'a \<Rightarrow> 'q \<Rightarrow> 'q"
    and pop :: "'q \<Rightarrow> 'q"
    and update :: "('a \<Rightarrow> 'a) \<Rightarrow> 'q \<Rightarrow> 'q"
  assumes push_ok: "ok q \<Longrightarrow> ok (push v q)"
    and push_elems: "ok q \<Longrightarrow> elems (push v q) = add_mset v (elems q)"
    and pop_ok: "\<lbrakk>ok q; elems q \<noteq> {#}\<rbrakk> \<Longrightarrow> ok (pop q)"
    and pop_elems: "\<lbrakk>ok q; elems q \<noteq> {#}\<rbrakk> \<Longrightarrow> add_mset (top q) (elems (pop q)) = elems q"
    and top_least: "\<lbrakk>ok q; x \<in># elems q\<rbrakk> \<Longrightarrow> key (top q) \<le> key x"
    and update_ok: "\<lbrakk>ok q; \<And>x y. key x \<le> key y \<Longrightarrow> key (f x) \<le> key (f y)\<rbrakk> \<Longrightarrow> ok (update f q)"
    and update_elems: "elems (update f q) = image_mset f (elems q)"
begin

lemma top_in: "ok q \<Longrightarrow> elems q \<noteq> {#} \<Longrightarrow> top q \<in># elems q"
  using pop_elems [of q] by (metis union_single_eq_member add_mset_add_single)

text \<open>Taking elements off until \<open>n\<close> are gone.\<close>

fun pops :: "nat \<Rightarrow> 'q \<Rightarrow> 'a list" where
  "pops 0 q = []"
| "pops (Suc n) q = top q # pops n (pop q)"

lemma pops_sorted:
  "ok q \<Longrightarrow> size (elems q) = n \<Longrightarrow> mset (pops n q) = elems q \<and> sorted (map key (pops n q))"
proof (induction n arbitrary: q)
  case (Suc n)
  then have ne: "elems q \<noteq> {#}" by auto
  note p = pop_ok [OF Suc.prems(1) ne] pop_elems [OF Suc.prems(1) ne]
  from p(2) Suc.prems(2) have "size (elems (pop q)) = n" by (metis size_add_mset Suc_inject)
  from Suc.IH [OF p(1) this] have IH: "mset (pops n (pop q)) = elems (pop q)" "sorted (map key (pops n (pop q)))"
    by auto
  moreover have "key (top q) \<le> key x" if "x \<in> set (pops n (pop q))" for x
    using that IH(1) p(2) top_least [OF Suc.prems(1)] by (metis insert_iff set_mset_add_mset_insert set_mset_mset)
  ultimately show ?case using p(2) by simp
qed simp

end

section \<open>The binary heap\<close>

definition swap_at :: "'a list \<Rightarrow> nat \<Rightarrow> nat \<Rightarrow> 'a list" where
  "swap_at c i j = c[i := c ! j, j := c ! i]"

definition up :: "nat \<Rightarrow> nat" where
  "up i = (i - 1) div 2"

function sift_up :: "('a \<Rightarrow> 'k :: linorder) \<Rightarrow> nat \<Rightarrow> 'a list \<Rightarrow> 'a list" where
  "sift_up key i c =
     (if i = 0 then c
      else if key (c ! up i) > key (c ! i) then sift_up key (up i) (swap_at c (up i) i) else c)"
  by pat_completeness auto
termination by (relation "measure (\<lambda>(key, i, c). i)") (auto simp: up_def)

function sift_down :: "('a \<Rightarrow> 'k :: linorder) \<Rightarrow> nat \<Rightarrow> nat \<Rightarrow> 'a list \<Rightarrow> 'a list" where
  "sift_down key n i c =
     (let l = 2 * i + 1; r = 2 * i + 2; m = (if r < n \<and> key (c ! l) > key (c ! r) then r else l)
      in if l < n \<and> key (c ! i) > key (c ! m) then sift_down key n m (swap_at c i m) else c)"
  by pat_completeness auto
termination by (relation "measure (\<lambda>(key, n, i, c). n - i)") auto

declare sift_up.simps [simp del] sift_down.simps [simp del]

definition pq_push :: "('a \<Rightarrow> 'k :: linorder) \<Rightarrow> 'a \<Rightarrow> 'a list \<Rightarrow> 'a list" where
  "pq_push key v c = sift_up key (length c) (c @ [v])"

definition pq_pop :: "('a \<Rightarrow> 'k :: linorder) \<Rightarrow> 'a list \<Rightarrow> 'a list" where
  "pq_pop key c =
     (let n = length c - 1 in butlast (sift_down key n 0 (swap_at c 0 n)))"

definition make_heap :: "('a \<Rightarrow> 'k :: linorder) \<Rightarrow> 'a list \<Rightarrow> 'a list" where
  "make_heap key c = fold (sift_down key (length c)) (rev [0..<length c div 2]) c"

definition pq_erase :: "('a \<Rightarrow> 'k :: linorder) \<Rightarrow> nat \<Rightarrow> 'a list \<Rightarrow> 'a list" where
  "pq_erase key i c = make_heap key (take i c @ drop (Suc i) c)"

definition pq_swap :: "('a \<Rightarrow> 'k :: linorder) \<Rightarrow> 'a list \<Rightarrow> 'a list \<Rightarrow> 'a list \<times> 'a list" where
  "pq_swap key c c2 = (make_heap key c2, c)"

definition pq_top :: "'a list \<Rightarrow> 'a" where
  "pq_top c = hd c"

section \<open>The heap order\<close>

text \<open>Every element below index \<open>n\<close> whose parent is at \<open>k\<close> or above is not less than it.\<close>

definition heap_from :: "('a \<Rightarrow> 'k :: linorder) \<Rightarrow> nat \<Rightarrow> nat \<Rightarrow> 'a list \<Rightarrow> bool" where
  "heap_from key k n c \<longleftrightarrow> (\<forall>j. 0 < j \<and> j < n \<and> k \<le> up j \<longrightarrow> key (c ! up j) \<le> key (c ! j))"

definition is_heap :: "('a \<Rightarrow> 'k :: linorder) \<Rightarrow> 'a list \<Rightarrow> bool" where
  "is_heap key c \<longleftrightarrow> heap_from key 0 (length c) c"

lemma up_less: "0 < i \<Longrightarrow> up i < i"
  by (auto simp: up_def)

lemma up_eq_iff: "0 < j \<Longrightarrow> up j = i \<longleftrightarrow> j = 2 * i + 1 \<or> j = 2 * i + 2"
  by (auto simp: up_def)

lemma length_swap_at [simp]: "length (swap_at c i j) = length c"
  by (simp add: swap_at_def)

lemma mset_swap_at [simp]: "i < length c \<Longrightarrow> j < length c \<Longrightarrow> mset (swap_at c i j) = mset c"
  by (simp add: swap_at_def mset_swap)

lemma nth_swap_at:
  "i < length c \<Longrightarrow> j < length c \<Longrightarrow>
    swap_at c i j ! x = (if x = j then c ! i else if x = i then c ! j else c ! x)"
  by (simp add: swap_at_def nth_list_update)

text \<open>The order holds but for one element, whose children its parent does not exceed.\<close>

definition sift_inv :: "('a \<Rightarrow> 'k :: linorder) \<Rightarrow> nat \<Rightarrow> nat \<Rightarrow> nat \<Rightarrow> 'a list \<Rightarrow> bool" where
  "sift_inv key k n i c \<longleftrightarrow>
     (\<forall>j. 0 < j \<and> j < n \<and> k \<le> up j \<and> up j \<noteq> i \<longrightarrow> key (c ! up j) \<le> key (c ! j)) \<and>
     (\<forall>j. 0 < j \<and> j < n \<and> up j = i \<and> 0 < i \<and> k \<le> up i \<longrightarrow> key (c ! up i) \<le> key (c ! j))"

lemma sift_down_heap:
  "sift_inv key k n i c \<Longrightarrow> k \<le> i \<Longrightarrow> i < n \<Longrightarrow> n \<le> length c \<Longrightarrow>
   heap_from key k n (sift_down key n i c) \<and> mset (sift_down key n i c) = mset c \<and>
   length (sift_down key n i c) = length c \<and> (\<forall>x\<ge>n. sift_down key n i c ! x = c ! x)"
proof (induction key n i c rule: sift_down.induct)
  case (1 key n i c)
  define l where "l = 2 * i + 1"
  define r where "r = 2 * i + 2"
  define m where "m = (if r < n \<and> key (c ! l) > key (c ! r) then r else l)"
  have child: "up j = i \<longleftrightarrow> j = l \<or> j = r" if "0 < j" for j
    using up_eq_iff [OF that] by (simp add: l_def r_def)
  have least: "key (c ! m) \<le> key (c ! j)" if "j = l \<or> j = r" "j < n" for j
    using that by (auto simp: m_def)
  show ?case
  proof (cases "l < n \<and> key (c ! i) > key (c ! m)")
    case False
    then have "sift_down key n i c = c"
      by (subst sift_down.simps) (simp only: Let_def l_def [symmetric] r_def [symmetric] m_def [symmetric] if_False)
    moreover have "key (c ! i) \<le> key (c ! j)" if "0 < j" "j < n" "up j = i" for j
    proof -
      from that child have j: "j = l \<or> j = r" by blast
      with that(2) have "l < n" by (auto simp: l_def r_def)
      with False have "key (c ! i) \<le> key (c ! m)" by auto
      with least [OF j that(2)] show ?thesis by simp
    qed
    ultimately show ?thesis
      using "1.prems" by (auto simp: heap_from_def sift_inv_def)
  next
    case True
    have m: "m = l \<or> m = r" "m < n" "i < m" "0 < m" "up m = i"
      using True child [of m] by (auto simp: m_def l_def r_def)
    have step: "sift_down key n i c = sift_down key n m (swap_at c i m)"
      using True
      by (subst sift_down.simps) (simp only: Let_def l_def [symmetric] r_def [symmetric] m_def [symmetric] if_True simp_thms)
    have sw: "swap_at c i m ! x = (if x = m then c ! i else if x = i then c ! m else c ! x)" for x
      using "1.prems" m by (intro nth_swap_at) simp_all
    have keep: "\<forall>x\<ge>n. swap_at c i m ! x = c ! x" using m by (auto simp: sw)
    have "sift_inv key k n m (swap_at c i m)"
      unfolding sift_inv_def
    proof (intro conjI allI impI)
      fix j
      assume j: "0 < j \<and> j < n \<and> k \<le> up j \<and> up j \<noteq> m"
      consider "j = m" | "j = i" "0 < i" | "j \<noteq> m" "j \<noteq> i" "up j = i" | "j \<noteq> m" "j \<noteq> i" "up j \<noteq> i" "up j \<noteq> m"
        using j by auto
      then show "key (swap_at c i m ! up j) \<le> key (swap_at c i m ! j)"
      proof cases
        case 1
        with True m show ?thesis by (simp add: sw less_imp_le)
      next
        case 2
        then have "up i \<noteq> i" "up i \<noteq> m" using up_less [of i] m by auto
        moreover have "key (c ! up i) \<le> key (c ! m)"
          using "1.prems"(1) j m 2 by (auto simp: sift_inv_def)
        ultimately show ?thesis using 2 m by (simp add: sw)
      next
        case 3
        with least [of j] child [of j] j m show ?thesis by (simp add: sw)
      next
        case 4
        with "1.prems"(1) j show ?thesis by (simp add: sw sift_inv_def)
      qed
    next
      fix j
      assume j: "0 < j \<and> j < n \<and> up j = m \<and> 0 < m \<and> k \<le> up m"
      then have "key (c ! m) \<le> key (c ! j)" "j \<noteq> i" "j \<noteq> m"
        using "1.prems"(1,2) m up_less [of i] up_less [of j] by (auto simp: sift_inv_def)
      with m show "key (swap_at c i m ! up m) \<le> key (swap_at c i m ! j)"
        by (simp add: sw)
    qed
    with "1.IH" [OF l_def r_def m_def] True "1.prems" m keep show ?thesis
      unfolding step by auto
  qed
qed

lemma sift_up_heap:
  "i < length c \<Longrightarrow>
   (\<forall>j. 0 < j \<and> j < length c \<and> j \<noteq> i \<longrightarrow> key (c ! up j) \<le> key (c ! j)) \<Longrightarrow>
   (\<forall>j. 0 < j \<and> j < length c \<and> up j = i \<and> 0 < i \<longrightarrow> key (c ! up i) \<le> key (c ! j)) \<Longrightarrow>
   is_heap key (sift_up key i c) \<and> mset (sift_up key i c) = mset c"
proof (induction key i c rule: sift_up.induct)
  case (1 key i c)
  show ?case
  proof (cases "i \<noteq> 0 \<and> key (c ! up i) > key (c ! i)")
    case False
    then have "sift_up key i c = c" by (subst sift_up.simps) auto
    moreover have "key (c ! up j) \<le> key (c ! j)" if "0 < j" "j < length c" for j
      using False that "1.prems"(2) by (cases "j = i") auto
    ultimately show ?thesis by (simp add: is_heap_def heap_from_def)
  next
    case True
    let ?p = "up i"
    have p: "?p < i" "0 < i" using True up_less [of i] by auto
    have step: "sift_up key i c = sift_up key ?p (swap_at c ?p i)"
      using True by (subst sift_up.simps) auto
    have sw: "swap_at c ?p i ! x = (if x = i then c ! ?p else if x = ?p then c ! i else c ! x)" for x
      using "1.prems" p by (intro nth_swap_at) simp_all
    have "key (swap_at c ?p i ! up j) \<le> key (swap_at c ?p i ! j)"
      if j: "0 < j" "j < length c" "j \<noteq> ?p" for j
    proof -
      consider "j = i" | "j \<noteq> i" "up j = i" | "j \<noteq> i" "up j = ?p" | "j \<noteq> i" "up j \<noteq> i" "up j \<noteq> ?p" by blast
      then show ?thesis
      proof cases
        case 1
        with True p show ?thesis by (simp add: sw less_imp_le)
      next
        case 2
        with "1.prems"(3) j p show ?thesis by (simp add: sw)
      next
        case 3
        with "1.prems"(2) j have "key (c ! ?p) \<le> key (c ! j)" by force
        with 3 True p j show ?thesis by (simp add: sw)
      next
        case 4
        with "1.prems"(2) j show ?thesis by (simp add: sw)
      qed
    qed
    moreover have "key (swap_at c ?p i ! up ?p) \<le> key (swap_at c ?p i ! j)"
      if j: "0 < j" "j < length c" "up j = ?p" "0 < ?p" for j
    proof -
      have pp: "up ?p < ?p" using j(4) by (rule up_less)
      have le: "key (c ! up ?p) \<le> key (c ! ?p)" using "1.prems"(1,2) j(4) p by auto
      show ?thesis
      proof (cases "j = i")
        case True
        with le pp p show ?thesis by (simp add: sw)
      next
        case False
        with "1.prems"(2) j have "key (c ! ?p) \<le> key (c ! j)" by force
        with le False pp p j show ?thesis using up_less [OF j(1)] by (simp add: sw)
      qed
    qed
    moreover have "length (swap_at c ?p i) = length c" "mset (swap_at c ?p i) = mset c"
      using "1.prems"(1) p by auto
    ultimately show ?thesis
      using "1.IH" True "1.prems"(1) p unfolding step by auto
  qed
qed

lemma is_heap_least: "is_heap key c \<Longrightarrow> i < length c \<Longrightarrow> key (c ! 0) \<le> key (c ! i)"
proof (induction i rule: less_induct)
  case (less i)
  show ?case
  proof (cases "i = 0")
    case False
    with less up_less [of i] have "key (c ! 0) \<le> key (c ! up i)" by simp
    also from less.prems False have "\<dots> \<le> key (c ! i)" by (simp add: is_heap_def heap_from_def)
    finally show ?thesis .
  qed simp
qed

section \<open>The operations keep the heap\<close>

lemma pq_push_heap:
  assumes "is_heap key c"
  shows "is_heap key (pq_push key v c) \<and> mset (pq_push key v c) = add_mset v (mset c)"
proof -
  let ?c = "c @ [v]"
  have "key (?c ! up j) \<le> key (?c ! j)" if "0 < j" "j < length ?c" "j \<noteq> length c" for j
    using assms that up_less [OF that(1)] by (auto simp: is_heap_def heap_from_def nth_append)
  moreover have "\<not> up j = length c" if "0 < j" "j < length ?c" for j
    using up_less [OF that(1)] that(2) by simp
  ultimately have "is_heap key (sift_up key (length c) ?c) \<and> mset (sift_up key (length c) ?c) = mset ?c"
    by (intro sift_up_heap) auto
  then show ?thesis by (simp add: pq_push_def)
qed

lemma pq_pop_heap:
  assumes "is_heap key c" and "c \<noteq> []"
  shows "is_heap key (pq_pop key c) \<and> add_mset (pq_top c) (mset (pq_pop key c)) = mset c"
proof -
  define n where "n = length c - 1"
  let ?s = "swap_at c 0 n"
  let ?d = "sift_down key n 0 ?s"
  have n: "0 < length c" "n < length c" "length c = Suc n" using assms(2) by (auto simp: n_def)
  have sw: "?s ! x = (if x = n then c ! 0 else if x = 0 then c ! n else c ! x)" for x
    using n by (intro nth_swap_at) simp_all
  have d: "heap_from key 0 n ?d \<and> mset ?d = mset c \<and> length ?d = length c \<and> ?d ! n = c ! 0"
  proof (cases "n = 0")
    case True
    then have "?d = ?s" by (subst sift_down.simps) simp
    with True n sw [of 0] show ?thesis by (simp add: heap_from_def)
  next
    case False
    have "key (?s ! up j) \<le> key (?s ! j)" if "0 < j" "j < n" "up j \<noteq> 0" for j
      using assms(1) that up_less [OF that(1)] n(3) by (simp add: is_heap_def heap_from_def sw)
    then have "sift_inv key 0 n 0 ?s" by (simp add: sift_inv_def)
    with sift_down_heap [of key 0 n 0 ?s] False n sw [of n] show ?thesis by simp
  qed
  then have "?d = butlast ?d @ [c ! 0]"
    using n by (metis append_butlast_last_id diff_Suc_1 last_conv_nth length_0_conv less_numeral_extra(3))
  then have "mset c = add_mset (c ! 0) (mset (butlast ?d))"
    using d by (metis mset_append mset_single_iff_right union_mset_add_mset_right add_mset_add_single mset.simps)
  moreover have "is_heap key (butlast ?d)"
    unfolding is_heap_def heap_from_def
  proof (intro allI impI)
    fix j
    assume "0 < j \<and> j < length (butlast ?d) \<and> 0 \<le> up j"
    with d n up_less [of j] show "key (butlast ?d ! up j) \<le> key (butlast ?d ! j)"
      by (simp add: nth_butlast heap_from_def)
  qed
  ultimately show ?thesis
    using assms(2) by (simp add: pq_pop_def pq_top_def Let_def n_def hd_conv_nth)
qed

lemma make_heap_order: "is_heap key (make_heap key c) \<and> mset (make_heap key c) = mset c"
proof -
  let ?n = "length c"
  have "m \<le> ?n div 2 \<Longrightarrow> length d = ?n \<Longrightarrow> heap_from key m ?n d \<Longrightarrow>
    heap_from key 0 ?n (fold (sift_down key ?n) (rev [0..<m]) d) \<and>
    mset (fold (sift_down key ?n) (rev [0..<m]) d) = mset d \<and>
    length (fold (sift_down key ?n) (rev [0..<m]) d) = ?n" for m d
  proof (induction m arbitrary: d)
    case (Suc m)
    have "sift_inv key m ?n m d"
      using Suc.prems(3) unfolding sift_inv_def heap_from_def
      by (auto simp: Suc_le_eq) (metis leD up_less)
    then have "heap_from key m ?n (sift_down key ?n m d) \<and> mset (sift_down key ?n m d) = mset d \<and>
      length (sift_down key ?n m d) = length d"
      using sift_down_heap [of key m ?n m d] Suc.prems(1,2) by auto
    with Suc.IH [of "sift_down key ?n m d"] Suc.prems(1,2) show ?case by simp
  qed simp
  moreover have "heap_from key (?n div 2) ?n c"
    by (auto simp: heap_from_def up_def)
  ultimately show ?thesis
    unfolding make_heap_def is_heap_def by (metis mset_eq_length order_refl)
qed

lemma pq_erase_heap:
  "i < length c \<Longrightarrow> is_heap key (pq_erase key i c) \<and> add_mset (c ! i) (mset (pq_erase key i c)) = mset c"
  using make_heap_order [of key "take i c @ drop (Suc i) c"] id_take_nth_drop [of i c]
  by (metis pq_erase_def mset_append mset.simps(2) union_mset_add_mset_right)

lemma is_heap_map:
  assumes "is_heap key c" and "\<And>x y. key x \<le> key y \<Longrightarrow> key (f x) \<le> key (f y)"
  shows "is_heap key (map f c)"
  unfolding is_heap_def heap_from_def
proof (intro allI impI)
  fix j
  assume j: "0 < j \<and> j < length (map f c) \<and> 0 \<le> up j"
  then have "up j < length c" using up_less [of j] by simp
  with j assms show "key (map f c ! up j) \<le> key (map f c ! j)"
    by (simp add: is_heap_def heap_from_def)
qed

interpretation binary_heap:
  min_queue "key :: 'a \<Rightarrow> 'k :: linorder" "is_heap key" mset pq_top "pq_push key" "pq_pop key" map for key
proof
  fix key :: "'a \<Rightarrow> 'k" and q :: "'a list" and x v :: 'a and f :: "'a \<Rightarrow> 'a"
  show "is_heap key q \<Longrightarrow> is_heap key (pq_push key v q)" by (simp add: pq_push_heap)
  show "is_heap key q \<Longrightarrow> mset (pq_push key v q) = add_mset v (mset q)" by (simp add: pq_push_heap)
  show "mset (map f q) = image_mset f (mset q)" by simp
  show "is_heap key q \<Longrightarrow> mset q \<noteq> {#} \<Longrightarrow> is_heap key (pq_pop key q)" by (simp add: pq_pop_heap)
  show "is_heap key q \<Longrightarrow> mset q \<noteq> {#} \<Longrightarrow> add_mset (pq_top q) (mset (pq_pop key q)) = mset q"
    by (simp add: pq_pop_heap)
  show "is_heap key q \<Longrightarrow> x \<in># mset q \<Longrightarrow> key (pq_top q) \<le> key x"
    by (metis is_heap_least in_set_conv_nth hd_conv_nth length_pos_if_in_set length_0_conv
        less_numeral_extra(3) pq_top_def set_mset_mset)
  show "is_heap key q \<Longrightarrow> (\<And>x y. key x \<le> key y \<Longrightarrow> key (f x) \<le> key (f y)) \<Longrightarrow> is_heap key (map f q)"
    by (rule is_heap_map)
qed

text \<open>Taking elements off the front until \<open>n\<close> are gone.\<close>

primrec pq_drain :: "('a \<Rightarrow> 'k :: linorder) \<Rightarrow> nat \<Rightarrow> 'a list \<Rightarrow> 'a list" where
  "pq_drain key 0 c = []"
| "pq_drain key (Suc n) c = pq_top c # pq_drain key n (pq_pop key c)"

lemma pq_drain_pops: "pq_drain key n c = binary_heap.pops TYPE('k :: linorder) (key :: 'a \<Rightarrow> 'k) n c"
  by (induction n arbitrary: c) simp_all

lemma pq_pushes: "is_heap key c \<Longrightarrow>
  is_heap key (fold (pq_push key) vs c) \<and> mset (fold (pq_push key) vs c) = mset c + mset vs"
  by (induction vs arbitrary: c) (simp_all add: pq_push_heap)

section \<open>Properties\<close>

text \<open>
  Whatever vector is swapped in and whatever is then pushed, taking off the front element until
  none is left returns exactly these elements, in ascending order of their keys.
\<close>

theorem queue_sorts:
  fixes key :: "'a \<Rightarrow> 'k :: linorder"
  shows "mset (pq_drain key (length d + length vs) (fold (pq_push key) vs (make_heap key d))) = mset d + mset vs \<and>
    sorted (map key (pq_drain key (length d + length vs) (fold (pq_push key) vs (make_heap key d))))"
proof -
  let ?q = "fold (pq_push key) vs (make_heap key d)"
  have q: "is_heap key ?q" "mset ?q = mset d + mset vs"
    using pq_pushes [of key "make_heap key d" vs] make_heap_order [of key d] by auto
  then have "size (mset ?q) = length d + length vs" by simp
  with binary_heap.pops_sorted [OF q(1)] q(2) show ?thesis by (simp add: pq_drain_pops)
qed

end
