(* ===== verification/Event_Queue.thy ===== *)
theory Event_Queue
  imports Complex_Main Prelude Ordered_Map Strings Priority_Queue
begin

text \<open>
  The event queue of every process: \<^verbatim>\<open>base/EventQueue.cpp\<close> over the in-memory buffer of
  \<^verbatim>\<open>base/SimpleEventQueueBuffer.cpp\<close>, with the stop watch of \<^verbatim>\<open>base/Stopwatch.cpp\<close>. The state
  is the record \<open>event_queue\<close>; pointers are natural numbers (\<open>0\<close> is \<^verbatim>\<open>nullptr\<close>), times are
  rationals and the clock is the argument \<open>now\<close>. Each operation holds a lock for its whole
  length in the code and is one step here; a call that waits returns \<open>Waiting\<close>, and what the
  other threads do meanwhile are further steps.
\<close>

section \<open>Stop watches\<close>

record stopwatch =
  sw_mark :: rat
  sw_triggered :: bool
  sw_stopped :: bool

definition sw_new :: "bool \<Rightarrow> rat \<Rightarrow> stopwatch" where
  "sw_new triggered now =
     \<lparr>sw_mark = (if \<not> triggered then now else 0), sw_triggered = triggered, sw_stopped = triggered\<rparr>"

definition sw_reset :: "rat \<Rightarrow> stopwatch \<Rightarrow> rat \<times> stopwatch" where
  "sw_reset now w =
     (if sw_stopped w then (sw_mark w, w\<lparr>sw_mark := 0\<rparr>)
      else (now - sw_mark w, w\<lparr>sw_mark := now\<rparr>))"

definition sw_stop :: "rat \<Rightarrow> stopwatch \<Rightarrow> stopwatch" where
  "sw_stop now w =
     (if sw_stopped w then w else w\<lparr>sw_mark := now - sw_mark w, sw_stopped := True\<rparr>)"

definition sw_start :: "rat \<Rightarrow> stopwatch \<Rightarrow> stopwatch" where
  "sw_start now w0 =
     (let w = w0\<lparr>sw_triggered := False\<rparr> in
      if \<not> sw_stopped w then w
      else w\<lparr>sw_mark := now - sw_mark w, sw_stopped := False\<rparr>)"

definition sw_setTrigger :: "rat \<Rightarrow> stopwatch \<Rightarrow> stopwatch" where
  "sw_setTrigger now w = (sw_stop now w)\<lparr>sw_triggered := True\<rparr>"

definition sw_getTime :: "rat \<Rightarrow> stopwatch \<Rightarrow> rat \<times> stopwatch" where
  "sw_getTime now w =
     (if sw_triggered w then (sw_mark w, sw_start now w)
      else if sw_stopped w then (sw_mark w, w)
      else (now - sw_mark w, w))"

definition sw_time :: "rat \<Rightarrow> stopwatch \<Rightarrow> rat" where
  "sw_time now w = (if sw_stopped w then sw_mark w else now - sw_mark w)"

section \<open>Events\<close>

text \<open>The enumeration's first members; the queue treats all the others alike.\<close>

definition ev_Unknown :: u32 where "ev_Unknown = 0"
definition ev_Quit :: u32 where "ev_Quit = 1"
definition ev_System :: u32 where "ev_System = 2"
definition ev_Timer :: u32 where "ev_Timer = 3"

definition DeliverImmediately :: u32 where "DeliverImmediately = 1"
definition DontFreeData :: u32 where "DontFreeData = 2"

text \<open>The data is the event's own, or the timer and the count of a timer event.\<close>

datatype 'd payload = No_Data | Data 'd | Timer_Data nat u32

record 'd event =
  ev_type :: u32
  ev_target :: nat
  ev_data :: "'d payload"
  ev_flags :: u32

definition no_event :: "'d event" where
  "no_event = \<lparr>ev_type = ev_Unknown, ev_target = 0, ev_data = No_Data, ev_flags = 0\<rparr>"

text \<open>Whether \<^verbatim>\<open>deleteData\<close> frees the data of an event.\<close>

definition frees_data :: "'d event \<Rightarrow> bool" where
  "frees_data e \<longleftrightarrow>
     \<not> (ev_type e = ev_Unknown \<or> ev_type e = ev_System \<or> ev_type e = ev_Timer) \<and>
     ev_flags e AND DontFreeData = 0"

section \<open>Timers\<close>

record timer =
  t_timer :: nat
  t_timeout :: rat
  t_target :: nat
  t_oneShot :: bool
  t_time :: rat

definition timer_reset :: "timer \<Rightarrow> timer" where
  "timer_reset t = t\<lparr>t_time := t_timeout t\<rparr>"

definition timer_minus :: "rat \<Rightarrow> timer \<Rightarrow> timer" where
  "timer_minus dt t = t\<lparr>t_time := t_time t - dt\<rparr>"

text \<open>
  The conversion to \<^verbatim>\<open>uint32_t\<close> cuts off the fraction. The language leaves it undefined for a
  number of \<open>2\<^sup>32\<close> or more, of which the lower bits are kept here.
\<close>

definition fillEvent :: "timer \<Rightarrow> 'd payload" where
  "fillEvent t =
     Timer_Data (t_timer t)
       (if t_time t \<le> 0 then of_int \<lfloor>(t_timeout t - t_time t) / t_timeout t\<rfloor> else 0)"

section \<open>The buffer\<close>

text \<open>The deque is listed from its front: new entries go in front, the oldest is the last.\<close>

record buffer =
  b_queue :: "u32 list"
  b_queueReady :: bool

datatype 'd buffer_result = B_Unknown | B_System "'d event" | B_User u32

definition buf_new :: buffer where
  "buf_new = \<lparr>b_queue = [], b_queueReady = False\<rparr>"

definition buf_addEvent :: "u32 \<Rightarrow> buffer \<Rightarrow> bool \<times> buffer" where
  "buf_addEvent dataID b =
     (True, b\<lparr>b_queue := dataID # b_queue b, b_queueReady := (if \<not> b_queueReady b then True else b_queueReady b)\<rparr>)"

definition buf_getEvent :: "buffer \<Rightarrow> 'd buffer_result \<times> buffer" where
  "buf_getEvent b =
     (if \<not> b_queueReady b then (B_Unknown, b)
      else
        let q = butlast (b_queue b)
        in (B_User (last (b_queue b)), b\<lparr>b_queue := q, b_queueReady := q \<noteq> []\<rparr>))"

definition buf_isEmpty :: "buffer \<Rightarrow> bool" where
  "buf_isEmpty b \<longleftrightarrow> \<not> b_queueReady b"

text \<open>One round of the waiting loop: \<^const>\<open>None\<close> when it returns, or how long to wait.\<close>

definition buf_waitForEvent :: "rat \<Rightarrow> stopwatch \<Rightarrow> rat \<Rightarrow> buffer \<Rightarrow> (rat \<times> stopwatch) option" where
  "buf_waitForEvent now w timeout b =
     (if b_queueReady b then None
      else if timeout \<ge> 0 then
        let (t, w') = sw_getTime now w; timeLeft = timeout - t
        in if timeLeft < 0 then None else Some (timeLeft, w')
      else Some (timeout, w))"

section \<open>The queue\<close>

record ('d, 'h) event_queue =
  q_ready :: bool
  q_pending :: "'d event list"
  q_buffer :: buffer
  q_events :: "(u32, 'd event) om"
  q_oldEventIDs :: "u32 list"
  q_time :: stopwatch
  q_timers :: "nat set"
  q_timerQueue :: "timer list"
  q_handlers :: "(nat, (u32, 'h) om) om"

definition queue_new :: "rat \<Rightarrow> ('d, 'h) event_queue" where
  "queue_new now =
     \<lparr>q_ready = False, q_pending = [], q_buffer = buf_new, q_events = [], q_oldEventIDs = [],
      q_time = sw_new False now, q_timers = {}, q_timerQueue = [], q_handlers = []\<rparr>"

subsection \<open>Handlers\<close>

definition addHandler :: "u32 \<Rightarrow> nat \<Rightarrow> 'h \<Rightarrow> ('d, 'h) event_queue \<Rightarrow> ('d, 'h) event_queue" where
  "addHandler type target h q =
     q\<lparr>q_handlers := om_adjust (<) target (om_assign (<) type h) (om_emplace (<) target [] (q_handlers q))\<rparr>"

definition removeHandler :: "u32 \<Rightarrow> nat \<Rightarrow> ('d, 'h) event_queue \<Rightarrow> ('d, 'h) event_queue" where
  "removeHandler type target q =
     (case om_get (<) target (q_handlers q) of
        None \<Rightarrow> q
      | Some typeHandlers \<Rightarrow>
          let typeHandlers' = om_erase (<) type typeHandlers in
          if typeHandlers' = [] then q\<lparr>q_handlers := om_erase (<) target (q_handlers q)\<rparr>
          else q\<lparr>q_handlers := om_adjust (<) target (\<lambda>_. typeHandlers') (q_handlers q)\<rparr>)"

definition removeHandlers :: "nat \<Rightarrow> ('d, 'h) event_queue \<Rightarrow> ('d, 'h) event_queue" where
  "removeHandlers target q = q\<lparr>q_handlers := om_erase (<) target (q_handlers q)\<rparr>"

definition getHandler :: "u32 \<Rightarrow> nat \<Rightarrow> ('d, 'h) event_queue \<Rightarrow> 'h option" where
  "getHandler type target q =
     (case om_get (<) target (q_handlers q) of
        None \<Rightarrow> None
      | Some typeHandlers \<Rightarrow> om_get (<) type typeHandlers)"

text \<open>The handler an event is given to; \<^const>\<open>None\<close> where the code returns false.\<close>

definition dispatchEvent :: "'d event \<Rightarrow> ('d, 'h) event_queue \<Rightarrow> 'h option" where
  "dispatchEvent e q =
     (case getHandler (ev_type e) (ev_target e) q of
        Some h \<Rightarrow> Some h
      | None \<Rightarrow> getHandler ev_Unknown (ev_target e) q)"

subsection \<open>Adding events\<close>

definition saveEvent :: "'d event \<Rightarrow> ('d, 'h) event_queue \<Rightarrow> u32 \<times> ('d, 'h) event_queue" where
  "saveEvent e q =
     (let (i, old) = (if q_oldEventIDs q \<noteq> [] then (last (q_oldEventIDs q), butlast (q_oldEventIDs q))
                      else (of_nat (length (q_events q)), q_oldEventIDs q))
      in (i, q\<lparr>q_oldEventIDs := old, q_events := om_assign (<) i e (q_events q)\<rparr>))"

definition removeEvent :: "u32 \<Rightarrow> ('d, 'h) event_queue \<Rightarrow> 'd event \<times> ('d, 'h) event_queue" where
  "removeEvent eventID q =
     (case om_get (<) eventID (q_events q) of
        None \<Rightarrow> (no_event, q)
      | Some e \<Rightarrow> (e, q\<lparr>q_events := om_erase (<) eventID (q_events q),
                      q_oldEventIDs := q_oldEventIDs q @ [eventID]\<rparr>))"

definition addEventToBuffer :: "'d event \<Rightarrow> ('d, 'h) event_queue \<Rightarrow> ('d, 'h) event_queue" where
  "addEventToBuffer e q =
     (let (eventID, q1) = saveEvent e q; (sent, b) = buf_addEvent eventID (q_buffer q1);
          q2 = q1\<lparr>q_buffer := b\<rparr>
      in if \<not> sent then snd (removeEvent eventID q2) else q2)"

text \<open>
  \<^verbatim>\<open>addEvent\<close>: the handler that is called at once, if any, and the queue. What the handler
  itself does to the queue are further steps.
\<close>

definition addEvent :: "'d event \<Rightarrow> ('d, 'h) event_queue \<Rightarrow> 'h option \<times> ('d, 'h) event_queue" where
  "addEvent e q =
     (if ev_type e = ev_Unknown \<or> ev_type e = ev_System \<or> ev_type e = ev_Timer then (None, q)
      else if ev_flags e AND DeliverImmediately \<noteq> 0 then (dispatchEvent e q, q)
      else if \<not> q_ready q then (None, q\<lparr>q_pending := q_pending q @ [e]\<rparr>)
      else (None, addEventToBuffer e q))"

text \<open>
  The stored events are lost with the old buffer; the pending ones are not. The new buffer is the
  in-memory one, which is also what a null pointer stands for.
\<close>

definition adoptBuffer :: "('d, 'h) event_queue \<Rightarrow> ('d, 'h) event_queue" where
  "adoptBuffer q = q\<lparr>q_buffer := buf_new, q_events := [], q_oldEventIDs := []\<rparr>"

subsection \<open>Timers\<close>

text \<open>\<^verbatim>\<open>newTimer\<close> and \<^verbatim>\<open>newOneShotTimer\<close>; \<open>timer\<close> is the address of the new timer.\<close>

definition add_timer ::
    "bool \<Rightarrow> nat \<Rightarrow> rat \<Rightarrow> nat \<Rightarrow> rat \<Rightarrow> ('d, 'h) event_queue \<Rightarrow> ('d, 'h) event_queue option" where
  "add_timer oneShot timer duration target now q =
     (if \<not> duration > 0 then None
      else
        let target' = (if target = 0 then timer else target);
            (elapsed, w) = sw_getTime now (q_time q);
            t = \<lparr>t_timer = timer, t_timeout = duration, t_target = target', t_oneShot = oneShot,
                 t_time = duration + elapsed\<rparr>
        in Some (q\<lparr>q_time := w, q_timers := insert timer (q_timers q),
                   q_timerQueue := pq_push t_time t (q_timerQueue q)\<rparr>))"

definition newTimer :: "nat \<Rightarrow> rat \<Rightarrow> nat \<Rightarrow> rat \<Rightarrow> ('d, 'h) event_queue \<Rightarrow> ('d, 'h) event_queue option" where
  "newTimer timer duration target now q = add_timer False timer duration target now q"

definition newOneShotTimer ::
    "nat \<Rightarrow> rat \<Rightarrow> nat \<Rightarrow> rat \<Rightarrow> ('d, 'h) event_queue \<Rightarrow> ('d, 'h) event_queue option" where
  "newOneShotTimer timer duration target now q = add_timer True timer duration target now q"

fun find_timer :: "nat \<Rightarrow> timer list \<Rightarrow> nat option" where
  "find_timer timer [] = None"
| "find_timer timer (t # ts) =
     (if t_timer t = timer then Some 0 else map_option Suc (find_timer timer ts))"

definition deleteTimer :: "nat \<Rightarrow> ('d, 'h) event_queue \<Rightarrow> ('d, 'h) event_queue" where
  "deleteTimer timer q =
     (let ts = (case find_timer timer (q_timerQueue q) of
                  Some i \<Rightarrow> pq_erase t_time i (q_timerQueue q)
                | None \<Rightarrow> q_timerQueue q)
      in q\<lparr>q_timerQueue := ts, q_timers := q_timers q - {timer}\<rparr>)"

definition hasTimerExpired :: "rat \<Rightarrow> ('d, 'h) event_queue \<Rightarrow> 'd event option \<times> ('d, 'h) event_queue" where
  "hasTimerExpired now q =
     (if q_timerQueue q = [] then (None, q)
      else
        let (time, w) = sw_getTime now (q_time q); (_, w') = sw_reset now w;
            ts = map (timer_minus time) (q_timerQueue q);
            q1 = q\<lparr>q_time := w', q_timerQueue := ts\<rparr>
        in if t_time (pq_top ts) > 0 then (None, q1)
           else
             let t = pq_top ts; ts1 = pq_pop t_time ts;
                 e = \<lparr>ev_type = ev_Timer, ev_target = t_target t, ev_data = fillEvent t, ev_flags = 0\<rparr>;
                 t' = timer_reset t;
                 ts2 = (if \<not> t_oneShot t' then pq_push t_time t' ts1 else ts1)
             in (Some e, q1\<lparr>q_timerQueue := ts2\<rparr>))"

definition getNextTimerTimeout :: "('d, 'h) event_queue \<Rightarrow> rat" where
  "getNextTimerTimeout q =
     (if q_timerQueue q = [] then - 1
      else if t_time (pq_top (q_timerQueue q)) \<le> 0 then 0
      else t_time (pq_top (q_timerQueue q)))"

subsection \<open>Taking events\<close>

text \<open>
  One round of \<^verbatim>\<open>processEvent\<close>: it returns (with the event, where it returns true), it waits
  for at most the given time (without end if negative) and starts the next round, or it calls
  itself and then returns false whatever that call found.
\<close>

datatype 'd outcome = Returned "'d event option" | Waiting rat | Retry

definition processEvent ::
    "rat \<Rightarrow> rat \<Rightarrow> stopwatch \<Rightarrow> ('d, 'h) event_queue \<Rightarrow> 'd outcome \<times> stopwatch \<times> ('d, 'h) event_queue" where
  "processEvent now timeout w q =
     (if buf_isEmpty (q_buffer q) then
        (case hasTimerExpired now q of
           (Some e, q1) \<Rightarrow> (Returned (Some e), w, q1)
         | (None, q1) \<Rightarrow>
             let (t, w1) = sw_getTime now w; timeLeft = timeout - t in
             if timeout \<ge> 0 \<and> timeLeft \<le> 0 then (Returned None, w1, q1)
             else
               let timerTimeout = getNextTimerTimeout q1;
                   timeLeft' = (if timeout < 0 \<or> (timerTimeout \<ge> 0 \<and> timerTimeout < timeLeft)
                                then timerTimeout else timeLeft)
               in (Waiting timeLeft', w1, q1))
      else
        let (result, b) = buf_getEvent (q_buffer q); q1 = q\<lparr>q_buffer := b\<rparr> in
        (case result of
           B_Unknown \<Rightarrow>
             if timeout < 0 then (Retry, w, q1)
             else
               let (t, w1) = sw_getTime now w in
               if timeout \<le> t then (Retry, w1, q1) else (Returned None, w1, q1)
         | B_System e \<Rightarrow> (Returned (Some e), w, q1)
         | B_User dataID \<Rightarrow> let (e, q2) = removeEvent dataID q1 in (Returned (Some e), w, q2)))"

text \<open>The first steps of \<^verbatim>\<open>loop\<close>: the queue becomes ready, then the pending events move one by one.\<close>

definition set_ready :: "('d, 'h) event_queue \<Rightarrow> ('d, 'h) event_queue" where
  "set_ready q = q\<lparr>q_ready := True\<rparr>"

definition drain_pending :: "('d, 'h) event_queue \<Rightarrow> ('d, 'h) event_queue" where
  "drain_pending q =
     (case q_pending q of
        [] \<Rightarrow> q
      | e # es \<Rightarrow> (addEventToBuffer e q)\<lparr>q_pending := es\<rparr>)"

text \<open>
  The rest of \<^verbatim>\<open>loop\<close>: the heartbeat timer it starts and ends with, and what it does with an
  event it has taken: the exit code of a quit event (\<open>exit_of\<close> reads it from the event's data, if it
  carries one), or the handler that runs.
\<close>

definition loop_start :: "nat \<Rightarrow> 'h \<Rightarrow> rat \<Rightarrow> ('d, 'h) event_queue \<Rightarrow> ('d, 'h) event_queue option" where
  "loop_start heartbeat h now q =
     map_option (addHandler ev_Timer heartbeat h) (newTimer heartbeat 2 0 now q)"

definition s_exitSuccess :: int where
  "s_exitSuccess = 0"

definition loop_event :: "('d \<Rightarrow> int option) \<Rightarrow> 'd event \<Rightarrow> ('d, 'h) event_queue \<Rightarrow> int + 'h option" where
  "loop_event exit_of e q =
     (if ev_type e = ev_Quit then
        Inl (case ev_data e of
               Data d \<Rightarrow> (case exit_of d of Some code \<Rightarrow> code | None \<Rightarrow> s_exitSuccess)
             | _ \<Rightarrow> s_exitSuccess)
      else Inr (dispatchEvent e q))"

definition loop_end :: "nat \<Rightarrow> ('d, 'h) event_queue \<Rightarrow> ('d, 'h) event_queue" where
  "loop_end heartbeat q = deleteTimer heartbeat (removeHandlers heartbeat q)"

definition getEvent ::
    "rat \<Rightarrow> rat \<Rightarrow> ('d, 'h) event_queue \<Rightarrow> 'd outcome \<times> stopwatch \<times> ('d, 'h) event_queue" where
  "getEvent now timeout q = processEvent now timeout (sw_new True now) q"

end
