(* ===== verification/Event_Props.thy ===== *)
theory Event_Props
  imports Event_Queue
begin

text \<open>
  The event queue as what its users take it for: a first-in first-out queue of events that
  never confuses two of them although the numbers of delivered events are used again, and
  timers that expire at fixed moments.
\<close>

section \<open>The numbers of the stored events\<close>

definition event_ids :: "('d, 'h) event_queue \<Rightarrow> u32 set" where
  "event_ids q = fst ` set (q_events q)"

definition id_count :: "('d, 'h) event_queue \<Rightarrow> nat" where
  "id_count q = length (q_events q) + length (q_oldEventIDs q)"

definition id_inv :: "('d, 'h) event_queue \<Rightarrow> bool" where
  "id_inv q \<longleftrightarrow> om_sorted (<) (q_events q) \<and> distinct (q_oldEventIDs q) \<and>
     event_ids q \<inter> set (q_oldEventIDs q) = {} \<and>
     unat ` (event_ids q \<union> set (q_oldEventIDs q)) \<subseteq> {..<id_count q} \<and>
     distinct (b_queue (q_buffer q)) \<and> set (b_queue (q_buffer q)) = event_ids q \<and>
     b_queueReady (q_buffer q) = (b_queue (q_buffer q) \<noteq> [])"

text \<open>The events in the order in which they will be taken.\<close>

definition waiting :: "('d, 'h) event_queue \<Rightarrow> 'd event list" where
  "waiting q = map (\<lambda>i. the (om_get (<) i (q_events q))) (rev (b_queue (q_buffer q)))"

lemma id_inv_new [simp]: "id_inv (queue_new now)" "waiting (queue_new now) = []"
  by (simp_all add: id_inv_def queue_new_def event_ids_def buf_new_def waiting_def)

lemma adjust_same: "om_find lt k m = Some (k', v) \<Longrightarrow> om_adjust lt k (\<lambda>_. v) m = m"
  by (induction m) (auto split: if_splits)

lemma length_emplace: "om_find lt k m = None \<Longrightarrow> length (om_emplace lt k v m) = Suc (length m)"
  by (induction m) (auto split: if_splits)

lemma length_erase: "om_find lt k m \<noteq> None \<Longrightarrow> Suc (length (om_erase lt k m)) = length m"
  by (induction m) (auto split: if_splits)

lemma assign_fresh:
  fixes m :: "('k :: linorder, 'v) om"
  assumes "om_sorted (<) m" and "k \<notin> fst ` set m"
  shows "set (om_assign (<) k v m) = insert (k, v) (set m)"
    and "length (om_assign (<) k v m) = Suc (length m)"
proof -
  have none: "om_find (<) k m = None"
    using assms by (force simp: ord.find_None_iff)
  then have "om_find (<) k (om_emplace (<) k v m) = Some (k, v)"
    using ord.find_emplace [OF assms(1), of k k v] by simp
  then have "om_assign (<) k v m = om_emplace (<) k v m"
    unfolding om_assign_def by (rule adjust_same)
  then show "set (om_assign (<) k v m) = insert (k, v) (set m)"
    and "length (om_assign (<) k v m) = Suc (length m)"
    using ord.emplace_set [OF assms(1), of k v] none length_emplace [OF none, of v] by simp_all
qed

lemma get_member:
  fixes m :: "('k :: linorder, 'v) om"
  assumes "om_sorted (<) m" and "k \<in> fst ` set m"
  obtains v where "om_get (<) k m = Some v" and "(k, v) \<in> set m"
  using assms ord.find_member [of m k] by (auto simp: om_get_def)

lemma erase_keys:
  fixes m :: "('k :: linorder, 'v) om"
  assumes "om_sorted (<) m" and "k \<in> fst ` set m"
  shows "fst ` set (om_erase (<) k m) = fst ` set m - {k}"
    and "Suc (length (om_erase (<) k m)) = length m"
proof -
  show "fst ` set (om_erase (<) k m) = fst ` set m - {k}"
    using assms(1) by (auto simp: ord.erase_filter)
  obtain v where "om_get (<) k m = Some v" using get_member [OF assms] by blast
  then have "om_find (<) k m \<noteq> None" by (auto simp: om_get_def)
  then show "Suc (length (om_erase (<) k m)) = length m" by (rule length_erase)
qed

text \<open>A number is chosen that no stored event has.\<close>

lemma saveEvent_fresh:
  assumes "id_inv q" and "id_count q < 2 ^ 32"
  obtains i old where "saveEvent e q = (i, q\<lparr>q_oldEventIDs := old, q_events := om_assign (<) i e (q_events q)\<rparr>)"
    and "i \<notin> event_ids q" and "distinct old" and "i \<notin> set old" and "set old \<subseteq> set (q_oldEventIDs q)"
    and "unat i < Suc (length (q_events q) + length old)" 
    and "unat ` (event_ids q \<union> set old) \<subseteq> {..<Suc (length (q_events q) + length old)}"
proof (cases "q_oldEventIDs q = []")
  case True
  let ?i = "of_nat (length (q_events q)) :: u32"
  have u: "unat ?i = length (q_events q)"
    using assms(2) True by (simp add: id_count_def unat_of_nat)
  then have "?i \<notin> event_ids q"
    using assms(1) True by (force simp: id_inv_def id_count_def)
  with assms(1) True u show ?thesis
    by (intro that [of ?i "[]"]) (auto simp: saveEvent_def id_inv_def id_count_def less_Suc_eq)
next
  case False
  then obtain old i where old: "q_oldEventIDs q = old @ [i]" by (metis rev_exhaust)
  with assms(1) show ?thesis
    by (intro that [of i old]) (auto simp: saveEvent_def id_inv_def id_count_def)
qed

lemma addEventToBuffer_waits:
  assumes "id_inv q" and "id_count q < 2 ^ 32"
  shows "id_inv (addEventToBuffer e q) \<and> waiting (addEventToBuffer e q) = waiting q @ [e] \<and>
    id_count (addEventToBuffer e q) \<le> Suc (id_count q) \<and>
    q_pending (addEventToBuffer e q) = q_pending q \<and> q_ready (addEventToBuffer e q) = q_ready q"
proof -
  obtain i old where save: "saveEvent e q = (i, q\<lparr>q_oldEventIDs := old, q_events := om_assign (<) i e (q_events q)\<rparr>)"
    and i: "i \<notin> event_ids q" "distinct old" "i \<notin> set old" "set old \<subseteq> set (q_oldEventIDs q)"
      "unat i < Suc (length (q_events q) + length old)"
      "unat ` (event_ids q \<union> set old) \<subseteq> {..<Suc (length (q_events q) + length old)}"
    by (rule saveEvent_fresh [OF assms, of e]) blast
  let ?q = "addEventToBuffer e q"
  have sorted: "om_sorted (<) (q_events q)" using assms(1) by (simp add: id_inv_def)
  have q': "?q = q\<lparr>q_oldEventIDs := old, q_events := om_assign (<) i e (q_events q),
      q_buffer := (q_buffer q)\<lparr>b_queue := i # b_queue (q_buffer q), b_queueReady := True\<rparr>\<rparr>"
    by (simp add: addEventToBuffer_def save buf_addEvent_def)
  note fresh = assign_fresh [OF sorted i(1) [unfolded event_ids_def], of e]
  have ids: "event_ids ?q = insert i (event_ids q)"
    by (simp add: q' event_ids_def fresh)
  have "id_inv ?q"
    using assms(1) i unfolding id_inv_def ids
    by (auto simp: q' fresh id_count_def ord.assign_sorted sorted)
  moreover have "waiting ?q = waiting q @ [e]"
    using assms(1) i(1) ord.get_assign [OF sorted, of _ i e]
    by (auto simp: waiting_def q' id_inv_def)
  moreover have "length old \<le> length (q_oldEventIDs q)"
    using i(2,4) assms(1) by (metis card_mono distinct_card id_inv_def finite_set)
  ultimately show ?thesis by (simp add: q' id_count_def fresh)
qed

lemma removeEvent_taken:
  assumes "id_inv q" and "b_queue (q_buffer q) = ids @ [i]"
  shows "\<exists>e q'. removeEvent i (q\<lparr>q_buffer := \<lparr>b_queue = ids, b_queueReady = ids \<noteq> []\<rparr>\<rparr>) = (e, q') \<and>
    id_inv q' \<and> waiting q = e # waiting q' \<and> id_count q' = id_count q \<and>
    q_pending q' = q_pending q \<and> q_ready q' = q_ready q"
proof -
  have sorted: "om_sorted (<) (q_events q)" and "i \<in> event_ids q" and "i \<notin> set ids"
    using assms by (auto simp: id_inv_def)
  then have mem: "i \<in> fst ` set (q_events q)" by (simp add: event_ids_def)
  obtain e where e: "om_get (<) i (q_events q) = Some e" using get_member [OF sorted mem] by blast
  let ?q = "q\<lparr>q_buffer := \<lparr>b_queue = ids, b_queueReady = ids \<noteq> []\<rparr>,
    q_events := om_erase (<) i (q_events q), q_oldEventIDs := q_oldEventIDs q @ [i]\<rparr>"
  have "removeEvent i (q\<lparr>q_buffer := \<lparr>b_queue = ids, b_queueReady = ids \<noteq> []\<rparr>\<rparr>) = (e, ?q)"
    by (simp add: removeEvent_def e)
  moreover have "id_count ?q = id_count q"
    using erase_keys(2) [OF sorted mem] by (simp add: id_count_def)
  moreover have "event_ids ?q = event_ids q - {i}"
    using erase_keys(1) [OF sorted mem] by (simp add: event_ids_def)
  ultimately have "id_inv ?q"
    using assms sorted \<open>i \<in> event_ids q\<close> unfolding id_inv_def by (auto intro: ord.erase_sorted)
  moreover have "waiting q = e # waiting ?q"
    using assms(2) e \<open>i \<notin> set ids\<close> ord.find_erase [OF sorted, of _ i]
    by (auto simp: waiting_def om_get_def)
  ultimately show ?thesis
    using \<open>removeEvent i _ = _\<close> \<open>id_count ?q = id_count q\<close> by auto
qed

text \<open>The fields that decide which events wait.\<close>

definition event_part :: "('d, 'h) event_queue \<Rightarrow> _" where
  "event_part q = (q_ready q, q_pending q, q_buffer q, q_events q, q_oldEventIDs q)"

lemma event_part_keeps:
  assumes "event_part q' = event_part q"
  shows "id_inv q' = id_inv q" "waiting q' = waiting q" "id_count q' = id_count q"
    "q_pending q' = q_pending q" "q_ready q' = q_ready q"
  using assms by (simp_all add: event_part_def id_inv_def waiting_def id_count_def event_ids_def)

lemma hasTimerExpired_part: "event_part (snd (hasTimerExpired now q)) = event_part q"
  by (simp add: hasTimerExpired_def event_part_def split_beta Let_def)

lemma hasTimerExpired_type: "fst (hasTimerExpired now q) = Some e \<Longrightarrow> ev_type e = ev_Timer"
  by (auto simp: hasTimerExpired_def split_beta Let_def split: if_splits)

text \<open>A round either delivers the first waiting event, or leaves the waiting events alone.\<close>

lemma processEvent_waiting:
  fixes q :: "('d, 'h) event_queue"
  assumes "id_inv q" and "processEvent now timeout w q = (r, w', q')"
  shows "id_inv q' \<and> id_count q' = id_count q \<and> q_pending q' = q_pending q \<and> q_ready q' = q_ready q \<and>
    (if waiting q = [] then waiting q' = [] \<and> (\<forall>e. r = Returned (Some e) \<longrightarrow> ev_type e = ev_Timer)
     else r = Returned (Some (hd (waiting q))) \<and> waiting q' = tl (waiting q))"
proof (cases "b_queue (q_buffer q) = []")
  case True
  then have empty: "buf_isEmpty (q_buffer q)" "waiting q = []"
    using assms(1) by (simp_all add: buf_isEmpty_def id_inv_def waiting_def)
  with assms(2) have "event_part q' = event_part q"
    using hasTimerExpired_part [of now q]
    by (auto simp: processEvent_def Let_def split_beta split: option.splits if_splits)
  moreover have "\<forall>e. r = Returned (Some e) \<longrightarrow> ev_type e = ev_Timer"
  proof (cases "fst (hasTimerExpired now q)")
    case None
    then show ?thesis
      using assms(2) empty(1) by (auto simp: processEvent_def Let_def split_beta split: if_splits)
  next
    case (Some e)
    then show ?thesis
      using assms(2) empty(1) hasTimerExpired_type [OF Some] by (simp add: processEvent_def split_beta) blast
  qed
  ultimately show ?thesis using empty(2) assms(1) event_part_keeps [of q' q] by simp
next
  case False
  then obtain ids i where b: "b_queue (q_buffer q) = ids @ [i]" by (metis rev_exhaust)
  moreover have ready: "b_queueReady (q_buffer q)" using assms(1) False by (simp add: id_inv_def)
  ultimately have "buf_getEvent (q_buffer q) = (B_User i :: 'd buffer_result, \<lparr>b_queue = ids, b_queueReady = ids \<noteq> []\<rparr>)"
    by (simp add: buf_getEvent_def Let_def)
  with assms(2) ready have r: "(case removeEvent i (q\<lparr>q_buffer := \<lparr>b_queue = ids, b_queueReady = ids \<noteq> []\<rparr>\<rparr>) of
      (e, q2) \<Rightarrow> (Returned (Some e), w, q2)) = (r, w', q')"
    by (simp add: processEvent_def buf_isEmpty_def)
  from removeEvent_taken [OF assms(1) b] r show ?thesis by (auto split: prod.splits)
qed

section \<open>Histories\<close>

text \<open>An event that \<^verbatim>\<open>addEvent\<close> stores: of no reserved type and not delivered at once.\<close>

definition ordinary :: "'d event \<Rightarrow> bool" where
  "ordinary e \<longleftrightarrow> ev_type e \<noteq> ev_Unknown \<and> ev_type e \<noteq> ev_System \<and> ev_type e \<noteq> ev_Timer \<and>
     ev_flags e AND DeliverImmediately = 0"

text \<open>
  A queue, the events it accepted, the events other than timer events it delivered, and those it
  discarded when a new buffer was adopted, each in order. Nothing is added while the queue is ready
  but still holds pending events, that is while \<^verbatim>\<open>loop\<close> moves them into the buffer.
\<close>

inductive history :: "('d, 'h) event_queue \<Rightarrow> 'd event list \<Rightarrow> 'd event list \<Rightarrow> 'd event list \<Rightarrow> bool" where
  new: "history (queue_new now) [] [] []"
| add: "\<lbrakk>history q a d x; ordinary e; q_ready q \<longrightarrow> q_pending q = []\<rbrakk> \<Longrightarrow> history (snd (addEvent e q)) (a @ [e]) d x"
| add_other: "\<lbrakk>history q a d x; \<not> ordinary e\<rbrakk> \<Longrightarrow> history (snd (addEvent e q)) a d x"
| ready: "history q a d x \<Longrightarrow> history (set_ready q) a d x"
| drain: "\<lbrakk>history q a d x; q_ready q\<rbrakk> \<Longrightarrow> history (drain_pending q) a d x"
| take: "\<lbrakk>history q a d x; processEvent now timeout w q = (Returned (Some e), w', q'); ev_type e \<noteq> ev_Timer\<rbrakk> \<Longrightarrow>
    history q' a (d @ [e]) x"
| expire: "\<lbrakk>history q a d x; processEvent now timeout w q = (Returned (Some e), w', q'); ev_type e = ev_Timer\<rbrakk> \<Longrightarrow>
    history q' a d x"
| idle: "\<lbrakk>history q a d x; processEvent now timeout w q = (r, w', q'); \<forall>e. r \<noteq> Returned (Some e)\<rbrakk> \<Longrightarrow>
    history q' a d x"
| handler: "history q a d x \<Longrightarrow> history (addHandler type target h q) a d x"
| no_handler: "history q a d x \<Longrightarrow> history (removeHandler type target q) a d x"
| no_handlers: "history q a d x \<Longrightarrow> history (removeHandlers target q) a d x"
| timer: "\<lbrakk>history q a d x; add_timer oneShot timer duration target now q = Some q'\<rbrakk> \<Longrightarrow> history q' a d x"
| no_timer: "history q a d x \<Longrightarrow> history (deleteTimer timer q) a d x"
| adopt: "history q a d x \<Longrightarrow> history (adoptBuffer q) a d (x @ waiting q)"

lemma handler_part:
  "event_part (addHandler type target h q) = event_part q"
  "event_part (removeHandler type target q) = event_part q"
  "event_part (removeHandlers target q) = event_part q"
  "event_part (deleteTimer timer q) = event_part q"
  by (simp_all add: addHandler_def removeHandler_def removeHandlers_def deleteTimer_def event_part_def Let_def
      split: option.split)

lemma add_timer_part:
  "add_timer oneShot timer duration target now q = Some q' \<Longrightarrow> event_part q' = event_part q"
  by (auto simp: add_timer_def event_part_def Let_def split_beta simp del: not_gr_zero split: if_splits)

lemma pending_part [simp]:
  "id_inv (q\<lparr>q_pending := x\<rparr>) = id_inv q" "waiting (q\<lparr>q_pending := x\<rparr>) = waiting q"
  "id_count (q\<lparr>q_pending := x\<rparr>) = id_count q"
  by (simp_all add: id_inv_def id_count_def waiting_def event_ids_def)

lemma ready_part [simp]:
  "id_inv (q\<lparr>q_ready := x\<rparr>) = id_inv q" "waiting (q\<lparr>q_ready := x\<rparr>) = waiting q"
  "id_count (q\<lparr>q_ready := x\<rparr>) = id_count q"
  by (simp_all add: id_inv_def id_count_def waiting_def event_ids_def)

text \<open>
  What a history keeps: the events that have left the queue are a shuffle of those delivered and
  those discarded, and nothing waits before the queue is ready.
\<close>

definition history_inv :: "('d, 'h) event_queue \<Rightarrow> 'd event list \<Rightarrow> 'd event list \<Rightarrow> 'd event list \<Rightarrow> bool" where
  "history_inv q a d x \<longleftrightarrow> id_inv q \<and> id_count q \<le> length d + length x + length (waiting q) \<and>
     (\<exists>past \<in> shuffles d x. a = past @ waiting q @ q_pending q) \<and>
     (\<not> q_ready q \<longrightarrow> waiting q = []) \<and> (\<forall>e \<in> set a. ordinary e)"

lemma shuffles_append1: "zs \<in> shuffles xs ys \<Longrightarrow> zs @ us \<in> shuffles (xs @ us) ys"
proof (induction zs arbitrary: xs ys)
  case Nil
  then show ?case by (cases us) simp_all
next
  case (Cons z zs)
  then show ?case by (auto simp: Cons_in_shuffles_iff)
qed

lemma shuffles_append2: "zs \<in> shuffles xs ys \<Longrightarrow> zs @ us \<in> shuffles xs (ys @ us)"
  using shuffles_append1 [of zs ys xs us] by (simp add: shuffles_commutes)

lemma history_inv_length: "history_inv q a d x \<Longrightarrow> length a = length d + length x + length (waiting q) + length (q_pending q)"
  by (auto simp: history_inv_def length_shuffles)

lemma history_inv_adopt:
  assumes "history_inv q a d x"
  shows "history_inv (adoptBuffer q) a d (x @ waiting q)"
  using assms shuffles_append2 [of _ d x "waiting q"]
  by (auto simp: history_inv_def adoptBuffer_def id_inv_def event_ids_def id_count_def waiting_def buf_new_def)

lemma history_inv_part:
  assumes "event_part q' = event_part q" and "history_inv q a d x"
  shows "history_inv q' a d x"
  using assms(2) unfolding history_inv_def event_part_keeps [OF assms(1)] .

lemma history_inv_add:
  assumes "history_inv q a d x" and "ordinary e" and "q_ready q \<longrightarrow> q_pending q = []" and "length a < 2 ^ 32"
  shows "history_inv (snd (addEvent e q)) (a @ [e]) d x"
proof (cases "q_ready q")
  case True
  then have "snd (addEvent e q) = addEventToBuffer e q"
    using assms(2) by (simp add: addEvent_def ordinary_def)
  moreover have "id_inv q" "id_count q < 2 ^ 32" using assms(1,4) history_inv_length [OF assms(1)] by (simp_all add: history_inv_def)
  note addEventToBuffer_waits [OF this, of e]
  ultimately show ?thesis
    using assms True by (simp add: history_inv_def)
next
  case False
  then have "snd (addEvent e q) = q\<lparr>q_pending := q_pending q @ [e]\<rparr>"
    using assms(2) by (simp add: addEvent_def ordinary_def)
  with assms(1,2) False show ?thesis
    by (auto simp: history_inv_def)
qed

lemma history_inv_drain:
  assumes "history_inv q a d x" and "q_ready q" and "length a \<le> 2 ^ 32"
  shows "history_inv (drain_pending q) a d x"
proof (cases "q_pending q")
  case (Cons e es)
  have "id_inv q" "id_count q < 2 ^ 32"
    using assms(1,3) Cons history_inv_length [OF assms(1)] by (simp_all add: history_inv_def)
  from addEventToBuffer_waits [OF this, of e] assms Cons show ?thesis
    by (simp add: drain_pending_def history_inv_def)
qed (use assms in \<open>simp add: drain_pending_def\<close>)

lemma history_inv_take:
  assumes "history_inv q a d x" and "waiting q = e # waiting q'" and "id_inv q'" and "id_count q' = id_count q"
    and "q_pending q' = q_pending q" and "q_ready q' = q_ready q"
  shows "history_inv q' a (d @ [e]) x"
proof -
  obtain past where "past \<in> shuffles d x" "a = past @ waiting q @ q_pending q" using assms(1) by (auto simp: history_inv_def)
  then have "past @ [e] \<in> shuffles (d @ [e]) x" "a = (past @ [e]) @ waiting q' @ q_pending q'"
    using assms(2,5) by (simp_all add: shuffles_append1)
  then show ?thesis using assms unfolding history_inv_def by auto
qed

lemma history_inv_process:
  assumes "history_inv q a d x" and "processEvent now timeout w q = (r, w', q')"
  shows "(\<forall>e. r = Returned (Some e) \<longrightarrow> ev_type e \<noteq> ev_Timer \<longrightarrow> history_inv q' a (d @ [e]) x) \<and>
    ((\<forall>e. r = Returned (Some e) \<longrightarrow> ev_type e = ev_Timer) \<longrightarrow> history_inv q' a d x)"
proof (cases "waiting q")
  case Nil
  with processEvent_waiting [of q now timeout w r w' q'] assms show ?thesis
    by (auto simp: history_inv_def)
next
  case (Cons y ys)
  with assms(1) have "ev_type y \<noteq> ev_Timer" by (auto simp: history_inv_def ordinary_def)
  with Cons processEvent_waiting [of q now timeout w r w' q'] assms show ?thesis
    using history_inv_take [OF assms(1), of y q'] by (auto simp: history_inv_def)
qed

lemma history_kept: "history q a d x \<Longrightarrow> length a \<le> 2 ^ 32 \<Longrightarrow> history_inv q a d x"
proof (induction rule: history.induct)
  case (new now)
  show ?case by (simp add: history_inv_def) (simp add: queue_new_def id_count_def)
next
  case (add q a d x e)
  then show ?case by (intro history_inv_add) simp_all
next
  case (add_other q a d x e)
  then have "snd (addEvent e q) = q" by (auto simp: addEvent_def ordinary_def)
  with add_other show ?case by simp
next
  case (ready q a d x)
  then show ?case by (auto simp: set_ready_def history_inv_def)
next
  case (drain q a d x)
  then show ?case by (intro history_inv_drain) simp_all
next
  case (take q a d x now timeout w e w' q')
  then show ?case using history_inv_process by blast
next
  case (expire q a d x now timeout w e w' q')
  then show ?case using history_inv_process by blast
next
  case (idle q a d x now timeout w r w' q')
  then show ?case using history_inv_process by blast
next
  case (adopt q a d x)
  then show ?case by (blast intro: history_inv_adopt)
qed (blast intro: history_inv_part handler_part add_timer_part)+

section \<open>Timers\<close>

text \<open>
  While the watch of the queue runs, a timer expires at the moment its watch was set to zero
  plus its remaining time, whenever that is looked at.
\<close>

definition running :: "('d, 'h) event_queue \<Rightarrow> bool" where
  "running q \<longleftrightarrow> \<not> sw_triggered (q_time q) \<and> \<not> sw_stopped (q_time q)"

text \<open>
  A timer as its users see it: address, period, target, whether it is one-shot, and the moment
  it expires when the watch was set to zero at \<open>mark\<close>.
\<close>

type_synonym alarm = "nat \<times> rat \<times> nat \<times> bool \<times> rat"

definition alarm :: "rat \<Rightarrow> timer \<Rightarrow> alarm" where
  "alarm mark t = (t_timer t, t_timeout t, t_target t, t_oneShot t, mark + t_time t)"

definition due :: "alarm \<Rightarrow> rat" where
  "due a = (case a of (_, _, _, _, d) \<Rightarrow> d)"

definition alarms :: "('d, 'h) event_queue \<Rightarrow> alarm multiset" where
  "alarms q = image_mset (alarm (sw_mark (q_time q))) (mset (q_timerQueue q))"

definition timers_ok :: "('d, 'h) event_queue \<Rightarrow> bool" where
  "timers_ok q \<longleftrightarrow> running q \<and> is_heap t_time (q_timerQueue q) \<and> (\<forall>t \<in> set (q_timerQueue q). 0 < t_timeout t)"

lemma timers_ok_new [simp]: "timers_ok (queue_new now)" "alarms (queue_new now) = {#}"
  by (simp_all add: timers_ok_def running_def queue_new_def sw_new_def is_heap_def heap_from_def alarms_def)

lemma set_pq_push: "is_heap key c \<Longrightarrow> set (pq_push key v c) = insert v (set c)"
  using pq_push_heap [of key c v] by (metis set_mset_add_mset_insert set_mset_mset)

lemma add_timer_alarms:
  assumes "timers_ok q" and "0 < duration"
  shows "\<exists>q'. add_timer oneShot timer duration target now q = Some q' \<and> timers_ok q' \<and>
    alarms q' = add_mset (timer, duration, if target = 0 then timer else target, oneShot, now + duration) (alarms q)"
  using assms pq_push_heap [of t_time "q_timerQueue q"]
  by (simp add: add_timer_def sw_getTime_def timers_ok_def running_def Let_def alarms_def alarm_def set_pq_push)

lemma find_timer_nth: "find_timer timer ts = Some i \<Longrightarrow> i < length ts \<and> t_timer (ts ! i) = timer"
  by (induction ts arbitrary: i) (auto split: if_splits)

lemma deleteTimer_ok:
  assumes "timers_ok q"
  shows "timers_ok (deleteTimer timer q)"
proof (cases "find_timer timer (q_timerQueue q)")
  case (Some i)
  from find_timer_nth [OF Some] have "i < length (q_timerQueue q)" by simp
  note e = pq_erase_heap [OF this, of t_time]
  then have "set (pq_erase t_time i (q_timerQueue q)) \<subseteq> set (q_timerQueue q)"
    by (metis set_mset_add_mset_insert set_mset_mset subset_insertI)
  with Some e assms show ?thesis
    by (auto simp: deleteTimer_def timers_ok_def running_def)
qed (use assms in \<open>simp add: deleteTimer_def timers_ok_def running_def\<close>)

text \<open>Counting down the elapsed time leaves every expiry where it is.\<close>

lemma count_down:
  assumes "is_heap t_time ts"
  shows "is_heap t_time (map (timer_minus dt) ts)"
    and "image_mset (alarm (mark + dt)) (mset (map (timer_minus dt) ts)) = image_mset (alarm mark) (mset ts)"
proof -
  show "is_heap t_time (map (timer_minus dt) ts)"
    using assms by (rule is_heap_map) (simp add: timer_minus_def)
  show "image_mset (alarm (mark + dt)) (mset (map (timer_minus dt) ts)) = image_mset (alarm mark) (mset ts)"
    by (induction ts) (simp_all add: alarm_def timer_minus_def)
qed

definition expired :: "rat \<Rightarrow> ('d, 'h) event_queue \<Rightarrow> 'd event option \<Rightarrow> ('d, 'h) event_queue \<Rightarrow> bool" where
  "expired now q r q' \<longleftrightarrow>
     (case r of
        None \<Rightarrow> alarms q' = alarms q \<and> (\<forall>a \<in># alarms q. now < due a)
      | Some e \<Rightarrow> \<exists>timer period target oneShot d rest.
          alarms q = add_mset (timer, period, target, oneShot, d) rest \<and> d \<le> now \<and>
          (\<forall>a \<in># rest. d \<le> due a) \<and> ev_type e = ev_Timer \<and> ev_target e = target \<and>
          ev_data e = Timer_Data timer (of_int (1 + \<lfloor>(now - d) / period\<rfloor>)) \<and>
          alarms q' = (if oneShot then rest else add_mset (timer, period, target, oneShot, now + period) rest))"

text \<open>Firing the front timer of a queue that was counted down.\<close>

lemma fire_front:
  assumes "is_heap t_time ts" and "ts \<noteq> []" and "\<forall>t \<in> set ts. 0 < t_timeout t"
    and "image_mset (alarm now) (mset ts) = alarms q" and "t_time (pq_top ts) \<le> 0"
    and "running q'" and "sw_mark (q_time q') = now"
    and "q_timerQueue q' = (if \<not> t_oneShot (pq_top ts)
      then pq_push t_time (timer_reset (pq_top ts)) (pq_pop t_time ts) else pq_pop t_time ts)"
  shows "timers_ok q' \<and> expired now q (Some \<lparr>ev_type = ev_Timer, ev_target = t_target (pq_top ts),
    ev_data = fillEvent (pq_top ts), ev_flags = 0\<rparr>) q'"
proof -
  let ?t = "pq_top ts" and ?rest = "pq_pop t_time ts"
  have pop: "is_heap t_time ?rest" "mset ts = add_mset ?t (mset ?rest)"
    using pq_pop_heap [OF assms(1,2)] by simp_all
  then have sub: "set ?rest \<subseteq> set ts" "?t \<in> set ts"
    by (metis set_mset_add_mset_insert set_mset_mset subset_insertI, metis set_mset_mset union_single_eq_member)
  with assms(3) have p: "0 < t_timeout ?t" by blast
  have split: "alarms q = add_mset (alarm now ?t) (image_mset (alarm now) (mset ?rest))"
    using assms(4) pop(2) by simp
  have least: "\<forall>a \<in># image_mset (alarm now) (mset ?rest). now + t_time ?t \<le> due a"
    using binary_heap.top_least [OF assms(1)] sub by (auto simp: due_def alarm_def)
  have count: "\<lfloor>(t_timeout ?t - t_time ?t) / t_timeout ?t\<rfloor> = 1 + \<lfloor>(now - (now + t_time ?t)) / t_timeout ?t\<rfloor>"
  proof -
    have "(t_timeout ?t - t_time ?t) / t_timeout ?t = (now - (now + t_time ?t)) / t_timeout ?t + 1"
      using p by (simp add: field_simps)
    then show ?thesis by (simp only: one_add_floor [symmetric])
  qed
  have push: "mset (pq_push t_time v ?rest) = add_mset v (mset ?rest)" "is_heap t_time (pq_push t_time v ?rest)"
    "set (pq_push t_time v ?rest) = insert v (set ?rest)" for v
    using pq_push_heap [OF pop(1)] set_pq_push [OF pop(1)] by auto
  have "timers_ok q'"
    using assms(3,6,8) pop(1) push sub by (auto simp: timers_ok_def timer_reset_def)
  moreover have "alarms q' = (if t_oneShot ?t then image_mset (alarm now) (mset ?rest)
    else add_mset (t_timer ?t, t_timeout ?t, t_target ?t, t_oneShot ?t, now + t_timeout ?t) (image_mset (alarm now) (mset ?rest)))"
    using assms(7,8) push by (simp add: alarms_def alarm_def timer_reset_def)
  ultimately show ?thesis
    using split least assms(5) count
    unfolding expired_def option.case
    by (intro conjI exI [of _ "t_timer ?t"] exI [of _ "t_timeout ?t"] exI [of _ "t_target ?t"]
        exI [of _ "t_oneShot ?t"] exI [of _ "now + t_time ?t"] exI [of _ "image_mset (alarm now) (mset ?rest)"])
      (simp_all add: alarm_def fillEvent_def)
qed

lemma hasTimerExpired_spec:
  assumes "timers_ok q" and "hasTimerExpired now q = (r, q')"
  shows "timers_ok q' \<and> expired now q r q'"
proof (cases "q_timerQueue q = []")
  case True
  with assms show ?thesis by (auto simp: hasTimerExpired_def expired_def alarms_def)
next
  case False
  let ?mark = "sw_mark (q_time q)" and ?w = "(q_time q)\<lparr>sw_mark := now\<rparr>"
  let ?ts = "map (timer_minus (now - ?mark)) (q_timerQueue q)"
  have run: "running q" and heap: "is_heap t_time (q_timerQueue q)"
    and pos: "\<forall>t \<in> set (q_timerQueue q). 0 < t_timeout t" using assms(1) by (simp_all add: timers_ok_def)
  have ts: "is_heap t_time ?ts" "image_mset (alarm now) (mset ?ts) = alarms q"
    using count_down(1) [OF heap, of "now - ?mark"] count_down(2) [OF heap, where dt = "now - ?mark" and mark = ?mark] by (simp_all add: alarms_def)
  have ne: "?ts \<noteq> []" using False by simp
  have pos': "\<forall>t \<in> set ?ts. 0 < t_timeout t" using pos by (simp add: timer_minus_def)
  have step: "(r, q') = (if t_time (pq_top ?ts) > 0 then (None, q\<lparr>q_time := ?w, q_timerQueue := ?ts\<rparr>)
     else (Some \<lparr>ev_type = ev_Timer, ev_target = t_target (pq_top ?ts), ev_data = fillEvent (pq_top ?ts), ev_flags = 0\<rparr>,
       q\<lparr>q_time := ?w, q_timerQueue := (if \<not> t_oneShot (pq_top ?ts)
         then pq_push t_time (timer_reset (pq_top ?ts)) (pq_pop t_time ?ts) else pq_pop t_time ?ts)\<rparr>))"
    using assms(2) False run
    unfolding hasTimerExpired_def running_def sw_getTime_def sw_reset_def Let_def
    by (cases "t_time (pq_top ?ts) > 0"; cases "t_oneShot (pq_top ?ts)") (simp_all add: timer_reset_def)
  have least: "t_time (pq_top ?ts) \<le> t_time t" if "t \<in> set ?ts" for t
    using binary_heap.top_least [OF ts(1)] that by simp
  show ?thesis
  proof (cases "t_time (pq_top ?ts) > 0")
    case True
    have "now < due a" if a: "a \<in># alarms q" for a
    proof -
      from a ts(2) obtain t where "t \<in> set ?ts" "a = alarm now t"
        by (metis (no_types, lifting) image_iff multiset.set_map set_mset_mset)
      with least [of t] True show ?thesis by (simp add: due_def alarm_def)
    qed
    with step True run ts pos' show ?thesis
      by (simp add: timers_ok_def running_def expired_def alarms_def)
  next
    case False
    then have fired: "r = Some \<lparr>ev_type = ev_Timer, ev_target = t_target (pq_top ?ts),
        ev_data = fillEvent (pq_top ?ts), ev_flags = 0\<rparr>"
      "q' = q\<lparr>q_time := ?w, q_timerQueue := (if \<not> t_oneShot (pq_top ?ts)
         then pq_push t_time (timer_reset (pq_top ?ts)) (pq_pop t_time ?ts) else pq_pop t_time ?ts)\<rparr>"
      using step by auto
    show ?thesis
      unfolding fired(1)
      by (rule fire_front [OF ts(1) ne pos' ts(2)])
        (use False run fired(2) in \<open>auto simp: running_def\<close>)
  qed
qed

text \<open>The fields that decide when timers expire.\<close>

definition timer_part :: "('d, 'h) event_queue \<Rightarrow> _" where
  "timer_part q = (q_time q, q_timerQueue q)"

lemma timer_part_keeps:
  assumes "timer_part q' = timer_part q"
  shows "timers_ok q' = timers_ok q" "alarms q' = alarms q"
  using assms by (simp_all add: timer_part_def timers_ok_def alarms_def running_def)

lemma removeEvent_timer_part: "timer_part (snd (removeEvent i q)) = timer_part q"
  by (simp add: removeEvent_def timer_part_def split: option.split)

lemma addEventToBuffer_timer_part [simp]:
  "q_time (addEventToBuffer e q) = q_time q" "q_timerQueue (addEventToBuffer e q) = q_timerQueue q"
  by (simp_all add: addEventToBuffer_def saveEvent_def removeEvent_def Let_def split_beta split: option.split)

lemma other_timer_part:
  "timer_part (snd (addEvent e q)) = timer_part q"
  "timer_part (set_ready q) = timer_part q"
  "timer_part (adoptBuffer q) = timer_part q"
  "timer_part (drain_pending q) = timer_part q"
  "timer_part (addHandler type target h q) = timer_part q"
  "timer_part (removeHandler type target q) = timer_part q"
  "timer_part (removeHandlers target q) = timer_part q"
  by (simp_all add: addEvent_def set_ready_def adoptBuffer_def drain_pending_def addHandler_def removeHandler_def
      removeHandlers_def timer_part_def Let_def split: option.split list.split)

lemmas timers_kept = other_timer_part [THEN timer_part_keeps(1)]

lemma processEvent_timers:
  assumes "timers_ok q" and "processEvent now timeout w q = (res, w', q')"
  shows "timers_ok q' \<and>
    (buf_isEmpty (q_buffer q) \<longrightarrow>
      (\<exists>r. expired now q r q' \<and> (case r of Some e \<Rightarrow> res = Returned (Some e) | None \<Rightarrow> \<forall>e. res \<noteq> Returned (Some e))))"
proof (cases "buf_isEmpty (q_buffer q)")
  case True
  obtain r q1 where h: "hasTimerExpired now q = (r, q1)" by fastforce
  note spec = hasTimerExpired_spec [OF assms(1) h]
  have "q' = q1 \<and> (case r of Some e \<Rightarrow> res = Returned (Some e) | None \<Rightarrow> \<forall>e. res \<noteq> Returned (Some e))"
    using assms(2) True h
    by (cases r) (auto simp: processEvent_def Let_def split_beta split: if_splits)
  with spec show ?thesis by blast
next
  case False
  have "timer_part q' = timer_part q"
    using assms(2) False removeEvent_timer_part [of _ "q\<lparr>q_buffer := _\<rparr>"]
    by (auto simp: processEvent_def Let_def split_beta timer_part_def split: buffer_result.splits if_splits)
  with False assms(1) timer_part_keeps(1) show ?thesis by auto
qed

lemma history_timers: "history q a d x \<Longrightarrow> timers_ok q"
proof (induction rule: history.induct)
  case (timer q a d x oneShot timer duration target now q')
  moreover from this have "0 < duration" by (simp add: add_timer_def split: if_splits)
  ultimately show ?case using add_timer_alarms [of q duration oneShot timer target now] by auto
qed (simp_all add: timers_kept deleteTimer_ok processEvent_timers)

section \<open>Properties\<close>

text \<open>
  C9. Events are delivered once each and in the order they were added. Take any run of the queue,
  however events, timers, handlers and buffers come and go, in which no event is added between the
  moment the queue becomes ready and the moment its pending events are in the buffer, and in which
  it accepts at most \<open>2\<^sup>32\<close> events. The accepted events are those that have left the queue, followed
  by those that wait, followed by those that are pending, and those that have left are the delivered
  ones and the ones discarded by \<^verbatim>\<open>adoptBuffer\<close>, each in the order of their addition. The numbers of
  delivered events are reused without ever meeting a stored one.
\<close>

theorem event_fifo:
  assumes "history q a d x" and "length a \<le> 2 ^ 32"
  shows "\<exists>past \<in> shuffles d x. a = past @ waiting q @ q_pending q"
  using history_kept [OF assms] by (simp add: history_inv_def)

text \<open>When no buffer was adopted, or only while nothing waited, nothing is lost.\<close>

lemma event_fifo_kept: "\<lbrakk>history q a d []; length a \<le> 2 ^ 32\<rbrakk> \<Longrightarrow> a = d @ waiting q @ q_pending q"
  using history_kept [of q a d "[]"] by (auto simp: history_inv_def)

text \<open>
  The first restriction is needed: an event that another thread adds when the queue has become ready,
  but before the loop has moved the pending events, overtakes them.
\<close>

theorem pending_overtaken:
  fixes a b :: "'d event"
  assumes "ordinary a" and "ordinary b"
  shows "waiting (drain_pending (snd (addEvent b (set_ready (snd (addEvent a
    (queue_new now :: ('d, 'h) event_queue))))))) = [b, a]"
proof -
  define r :: "('d, 'h) event_queue" where "r = set_ready (snd (addEvent a (queue_new now)))"
  have "r = (queue_new now)\<lparr>q_pending := [a], q_ready := True\<rparr>"
    using assms(1) by (simp add: r_def addEvent_def ordinary_def set_ready_def queue_new_def)
  then have inv: "id_inv r" "id_count r = 0" "waiting r = []" "q_ready r" "q_pending r = [a]"
    by (simp_all add: id_count_def queue_new_def waiting_def id_inv_def event_ids_def buf_new_def)
  then have b: "snd (addEvent b r) = addEventToBuffer b r"
    using assms(2) by (simp add: addEvent_def ordinary_def)
  have w: "id_inv (addEventToBuffer b r)" "waiting (addEventToBuffer b r) = [b]"
    "id_count (addEventToBuffer b r) \<le> 1" "q_pending (addEventToBuffer b r) = [a]"
    using addEventToBuffer_waits [of r b] inv by auto
  then have "waiting (drain_pending (addEventToBuffer b r)) = [b, a]"
    using addEventToBuffer_waits [of "addEventToBuffer b r" a] by (simp add: drain_pending_def)
  then have "waiting (drain_pending (snd (addEvent b r))) = [b, a]" by (simp only: b)
  then show ?thesis unfolding r_def .
qed

text \<open>
  C24. Timers neither fire early nor are lost. When no event waits, a round of the queue delivers a timer
  event exactly if some timer is due; it is the one due first, its event reports the timer and, in 32
  bits, one more than the whole periods it is late by, every other timer stays due when it was, and the timer itself
  is gone if it is one-shot and otherwise due one period from now.
\<close>

theorem timers_fire_when_due:
  assumes "history q a d x" and "length a \<le> 2 ^ 32" and "waiting q = []"
    and "processEvent now timeout w q = (res, w', q')"
  shows "\<exists>r. expired now q r q' \<and>
    (case r of Some e \<Rightarrow> res = Returned (Some e) | None \<Rightarrow> \<forall>e. res \<noteq> Returned (Some e))"
proof -
  have "id_inv q" using history_kept [OF assms(1,2)] by (simp add: history_inv_def)
  with assms(3) have "buf_isEmpty (q_buffer q)" by (simp add: id_inv_def waiting_def buf_isEmpty_def)
  with processEvent_timers [OF history_timers [OF assms(1)] assms(4)] show ?thesis by blast
qed

text \<open>An event, and a queue with one timer, for the concrete instances.\<close>

definition demo_event :: "u32 \<Rightarrow> unit event" where
  "demo_event k = \<lparr>ev_type = k, ev_target = 7, ev_data = No_Data, ev_flags = 0\<rparr>"

lemma demo_ordinary: "ordinary (demo_event 40)" "ordinary (demo_event 41)"
  by (simp_all add: ordinary_def demo_event_def ev_Unknown_def ev_System_def ev_Timer_def)

definition demo_timer_queue :: "(unit, nat) event_queue" where
  "demo_timer_queue = the (newOneShotTimer 9 2 0 100 (queue_new 100))"

lemma demo_timer_history: "history demo_timer_queue [] [] []"
proof -
  have "add_timer True 9 2 0 100 (queue_new 100) = Some demo_timer_queue"
    using add_timer_alarms [of "queue_new 100 :: (unit, nat) event_queue" 2 True 9 0 100]
    by (auto simp: demo_timer_queue_def newOneShotTimer_def)
  from history.timer [OF history.new this] show ?thesis .
qed

text \<open>One event is lost with its buffer, the next waits.\<close>

lemma event_fifo_witness:
  "\<exists>q :: (unit, nat) event_queue. history q [demo_event 40, demo_event 41] [] [demo_event 40] \<and>
    (\<exists>past \<in> shuffles [] [demo_event 40]. [demo_event 40, demo_event 41] = past @ waiting q @ q_pending q)"
proof -
  let ?q0 = "set_ready (queue_new 0) :: (unit, nat) event_queue"
  let ?q1 = "snd (addEvent (demo_event 40) ?q0)"
  let ?q2 = "snd (addEvent (demo_event 41) (adoptBuffer ?q1))"
  have fresh: "q_ready ?q0" "q_pending ?q0 = []" "id_inv ?q0" "id_count ?q0 = 0" "waiting ?q0 = []"
    by (simp_all add: set_ready_def queue_new_def id_inv_def id_count_def waiting_def event_ids_def buf_new_def)
  have q1: "?q1 = addEventToBuffer (demo_event 40) ?q0"
    using fresh(1) demo_ordinary(1) by (simp add: addEvent_def ordinary_def)
  have w: "waiting ?q1 = [demo_event 40]" "q_pending ?q1 = []"
    using addEventToBuffer_waits [of ?q0 "demo_event 40"] fresh by (simp_all add: q1)
  have "history ?q1 ([] @ [demo_event 40]) [] []"
    by (rule history.add [OF history.ready [OF history.new] demo_ordinary(1)]) (use fresh in simp)
  then have "history ?q1 [demo_event 40] [] []" by simp
  from history.adopt [OF this] have "history (adoptBuffer ?q1) [demo_event 40] [] [demo_event 40]" by (simp add: w)
  moreover have "q_pending (adoptBuffer ?q1) = []" using w by (simp add: adoptBuffer_def)
  ultimately have h: "history ?q2 [demo_event 40, demo_event 41] [] [demo_event 40]"
    using history.add [OF _ demo_ordinary(2)] by fastforce
  show ?thesis
    by (intro exI [of _ ?q2] conjI h event_fifo) simp
qed

lemma pending_overtaken_witness:
  "waiting (drain_pending (snd (addEvent (demo_event 41) (set_ready (snd (addEvent (demo_event 40)
    (queue_new 0 :: (unit, nat) event_queue))))))) = [demo_event 41, demo_event 40]"
  by (rule pending_overtaken) (rule demo_ordinary)+

lemma timers_fire_when_due_witness:
  "\<exists>r. expired 105 demo_timer_queue r (snd (snd (processEvent 105 (-1) (sw_new True 0) demo_timer_queue))) \<and>
    (case r of Some e \<Rightarrow> fst (processEvent 105 (-1) (sw_new True 0) demo_timer_queue) = Returned (Some e)
     | None \<Rightarrow> \<forall>e. fst (processEvent 105 (-1) (sw_new True 0) demo_timer_queue) \<noteq> Returned (Some e))"
proof (rule timers_fire_when_due [OF demo_timer_history])
  show "waiting demo_timer_queue = []"
    by (simp add: waiting_def demo_timer_queue_def newOneShotTimer_def add_timer_def queue_new_def sw_getTime_def
        sw_new_def buf_new_def)
  show "processEvent 105 (-1) (sw_new True 0) demo_timer_queue =
    (fst (processEvent 105 (-1) (sw_new True 0) demo_timer_queue),
     fst (snd (processEvent 105 (-1) (sw_new True 0) demo_timer_queue)),
     snd (snd (processEvent 105 (-1) (sw_new True 0) demo_timer_queue)))"
    by simp
qed simp

end
