(* ===== verification/Key_Info.thy ===== *)
theory Key_Info
  imports Prelude "HOL-Library.Sublist"
begin

text \<open>
  Key events and their destinations: \<^verbatim>\<open>IKeyState::KeyInfo\<close> of \<^verbatim>\<open>src/lib/deskflow/IKeyState.cpp\<close>.
  A set of destination screens travels as one string in which every name stands between
  colons (\<open>join\<close>, \<open>split\<close>, \<open>contains\<close>). A null \<^verbatim>\<open>char *\<close> is \<^const>\<open>None\<close>; a \<^verbatim>\<open>std::set\<close> is the list
  of its elements in order; running off the end of a C string is \<^const>\<open>None\<close> as a result.
\<close>

section \<open>Operations\<close>

record key_info =
  ki_key :: u32
  ki_mask :: u32
  ki_button :: u16
  ki_count :: int
  ki_screens :: string

definition is_default :: "string option \<Rightarrow> bool" where
  "is_default screens \<longleftrightarrow> screens = None \<or> screens = Some []"

fun strstr :: "string \<Rightarrow> string \<Rightarrow> bool" where
  "strstr p [] = (p = [])"
| "strstr p (c # cs) = (prefix p (c # cs) \<or> strstr p cs)"

definition ki_contains :: "string option \<Rightarrow> string \<Rightarrow> bool" where
  "ki_contains screens name =
     (if is_default screens then False
      else if hd (the screens) = CHR ''*'' then True
      else strstr ('':'' @ name @ '':'') (the screens))"

fun join_loop :: "string \<Rightarrow> string list \<Rightarrow> string" where
  "join_loop screens [] = screens"
| "join_loop screens (i # is) =
     (if i = ''*'' then ''*''
      else join_loop ((if screens = [] then '':'' else screens) @ i @ '':'') is)"

definition ki_join :: "string list \<Rightarrow> string" where
  "ki_join destinations = join_loop [] destinations"

fun split_loop :: "string \<Rightarrow> string \<Rightarrow> string list option" where
  "split_loop w [] = (if w = [] then Some [] else None)"
| "split_loop w (c # cs) =
     (if c = CHR '':'' then map_option ((#) w) (split_loop [] cs) else split_loop (w @ [c]) cs)"

definition ki_split :: "string option \<Rightarrow> string list option" where
  "ki_split screens =
     (if is_default screens then Some []
      else if hd (the screens) = CHR ''*'' then Some [''*'']
      else split_loop [] (tl (the screens)))"

definition ki_alloc :: "u32 \<Rightarrow> u32 \<Rightarrow> u16 \<Rightarrow> int \<Rightarrow> string list \<Rightarrow> key_info" where
  "ki_alloc key m button count destinations =
     \<lparr>ki_key = key, ki_mask = m, ki_button = button, ki_count = count,
      ki_screens = ki_join destinations\<rparr>"

definition equal_info :: "key_info \<Rightarrow> key_info \<Rightarrow> bool" where
  "equal_info a b \<longleftrightarrow>
     ki_key a = ki_key b \<and> ki_mask a = ki_mask b \<and> ki_button a = ki_button b \<and>
     ki_count a = ki_count b \<and> ki_screens a = ki_screens b"

section \<open>Destination strings\<close>

definition colon_free :: "string \<Rightarrow> bool" where
  "colon_free s \<longleftrightarrow> CHR '':'' \<notin> set s"

definition listed :: "string list \<Rightarrow> string" where
  "listed ds = '':'' @ concat (map (\<lambda>d. d @ '':'') ds)"

lemma join_loop_listed:
  "''*'' \<notin> set ds \<Longrightarrow> s \<noteq> [] \<Longrightarrow> join_loop s ds = s @ concat (map (\<lambda>d. d @ '':'') ds)"
  by (induction s ds rule: join_loop.induct) auto

lemma join_listed: "''*'' \<notin> set ds \<Longrightarrow> ds \<noteq> [] \<Longrightarrow> ki_join ds = listed ds"
  by (cases ds) (auto simp: ki_join_def listed_def join_loop_listed)

lemma join_loop_star: "''*'' \<in> set ds \<Longrightarrow> join_loop s ds = ''*''"
  by (induction s ds rule: join_loop.induct) auto

lemma join_star: "''*'' \<in> set ds \<Longrightarrow> ki_join ds = ''*''"
  by (simp add: ki_join_def join_loop_star)

lemma prefix_colon_iff:
  assumes "colon_free n" and "colon_free d"
  shows "prefix (n @ CHR '':'' # xs) (d @ CHR '':'' # ys) \<longleftrightarrow> n = d \<and> prefix xs ys"
  using assms
proof (induction n arbitrary: d)
  case Nil
  then show ?case by (cases d) (auto simp: colon_free_def)
next
  case (Cons a n)
  then show ?case by (cases d) (auto simp: colon_free_def)
qed

lemma strstr_skip:
  "colon_free d \<Longrightarrow> strstr (CHR '':'' # p) (d @ CHR '':'' # r) \<longleftrightarrow> strstr (CHR '':'' # p) (CHR '':'' # r)"
  by (induction d) (auto simp: colon_free_def)

lemma strstr_listed:
  assumes "colon_free n" and "\<forall>d\<in>set ds. colon_free d"
  shows "strstr ('':'' @ n @ '':'') (listed ds) \<longleftrightarrow> n \<in> set ds"
  using assms(2)
proof (induction ds)
  case (Cons d ds)
  have "strstr (CHR '':'' # n @ '':'') (CHR '':'' # d @ CHR '':'' # concat (map (\<lambda>d. d @ '':'') ds)) \<longleftrightarrow>
      n = d \<or> strstr (CHR '':'' # n @ '':'') (d @ CHR '':'' # concat (map (\<lambda>d. d @ '':'') ds))"
    using prefix_colon_iff [OF assms(1), of d "[]"] Cons.prems by simp
  also have "\<dots> \<longleftrightarrow> n = d \<or> n \<in> set ds"
    using Cons strstr_skip [of d "n @ '':''"] by (simp add: listed_def)
  finally show ?case by (auto simp: listed_def)
qed (simp add: listed_def)

lemma split_loop_listed:
  "\<forall>d\<in>set ds. colon_free d \<Longrightarrow> split_loop [] (concat (map (\<lambda>d. d @ '':'') ds)) = Some ds"
proof (induction ds)
  case (Cons d ds)
  have "split_loop w (d @ CHR '':'' # r) = map_option ((#) (w @ d)) (split_loop [] r)"
    if "colon_free d" for w r
    using that by (induction d arbitrary: w) (auto simp: colon_free_def)
  with Cons show ?case by simp
qed simp

section \<open>Properties\<close>

text \<open>
  C37. Destination strings. For screen names without a colon, none of them the wildcard, the
  joined string names exactly its members, splits back into the same list, and is the default
  exactly when there is no destination; with the wildcard among them it names every screen.
\<close>

theorem destinations_roundtrip:
  assumes "\<forall>d\<in>set ds. colon_free d" and "colon_free n"
  shows "(''*'' \<notin> set ds \<longrightarrow> (ki_contains (Some (ki_join ds)) n \<longleftrightarrow> n \<in> set ds) \<and>
      ki_split (Some (ki_join ds)) = Some ds) \<and>
    (''*'' \<in> set ds \<longrightarrow> ki_contains (Some (ki_join ds)) n \<and> ki_split (Some (ki_join ds)) = Some [''*'']) \<and>
    (is_default (Some (ki_join ds)) \<longleftrightarrow> ds = [])"
proof (cases "''*'' \<in> set ds \<or> ds = []")
  case True
  then show ?thesis by (auto simp: join_star ki_contains_def ki_split_def is_default_def)
      (auto simp: ki_join_def)
next
  case False
  then have j: "ki_join ds = listed ds" by (simp add: join_listed)
  with strstr_listed [OF assms(2,1)] split_loop_listed [OF assms(1)] False show ?thesis
    by (simp add: ki_contains_def ki_split_def is_default_def listed_def)
qed

lemma destinations_roundtrip_witness:
  "ki_contains (Some (ki_join [''a'', ''b''])) ''b'' \<and>
    ki_split (Some (ki_join [''a'', ''b''])) = Some [''a'', ''b''] \<and>
    \<not> is_default (Some (ki_join [''a'', ''b'']))"
  using destinations_roundtrip [of "[''a'', ''b'']" "''b''"] by (simp add: colon_free_def)

end
