(* ===== verification/Option_Ids.thy ===== *)
theory Option_Ids
  imports Prelude
begin

text \<open>
  The options that server and client exchange (\<^verbatim>\<open>deskflow/OptionTypes.h\<close>): four letters each, read
  as a big-endian number.
\<close>

definition kOptionModifierMapForShift :: u32 where "kOptionModifierMapForShift = 0x4d4d4653"
definition kOptionModifierMapForControl :: u32 where "kOptionModifierMapForControl = 0x4d4d4643"
definition kOptionModifierMapForAlt :: u32 where "kOptionModifierMapForAlt = 0x4d4d4641"
definition kOptionModifierMapForAltGr :: u32 where "kOptionModifierMapForAltGr = 0x4d4d4647"
definition kOptionModifierMapForMeta :: u32 where "kOptionModifierMapForMeta = 0x4d4d464d"
definition kOptionModifierMapForSuper :: u32 where "kOptionModifierMapForSuper = 0x4d4d4652"
definition kOptionHeartbeat :: u32 where "kOptionHeartbeat = 0x48415254"

definition kOptionScreenSwitchDelay :: u32 where "kOptionScreenSwitchDelay = 0x53535754"
definition kOptionScreenSwitchTwoTap :: u32 where "kOptionScreenSwitchTwoTap = 0x53535454"
definition kOptionRelativeMouseMoves :: u32 where "kOptionRelativeMouseMoves = 0x4d444c54"
definition kOptionDefaultLockToScreenState :: u32 where "kOptionDefaultLockToScreenState = 0x4c545353"
definition kOptionDisableLockToScreen :: u32 where "kOptionDisableLockToScreen = 0x444c5453"
definition kOptionClipboardSharing :: u32 where "kOptionClipboardSharing = 0x434c5053"
definition kOptionClipboardSharingSize :: u32 where "kOptionClipboardSharingSize = 0x434c535a"
definition kOptionScreenSwitchCorners :: u32 where "kOptionScreenSwitchCorners = 0x5353434d"
definition kOptionScreenSwitchCornerSize :: u32 where "kOptionScreenSwitchCornerSize = 0x53534353"
definition kOptionCaptureTransfer :: u32 where "kOptionCaptureTransfer = 0x5a464350"

end
