(* ===== verification/Server_State.thy ===== *)
theory Server_State
  imports Config_Laws Clipboards Key_Info Option_Ids
begin

text \<open>
  The state of \<^verbatim>\<open>Server\<close> (\<^verbatim>\<open>src/lib/server/Server.cpp\<close>) and the operations that only read it or
  change one part of it. A client (a \<^verbatim>\<open>BaseClientProxy *\<close>) is a number; what the server asks
  of its clients and of the clock during one event is the environment of that event; what it
  tells them is appended to the field \<open>out\<close>. Screen coordinates are integers (a signed
  overflow is undefined in C++), delays are seconds as rationals. \<^const>\<open>None\<close> is a failed
  assertion, an access out of bounds, or a loop that does not end.
\<close>

section \<open>State\<close>

type_synonym cid = nat
type_synonym shape = "int \<times> int \<times> int \<times> int"

record clip_info =
  ci_clipboard :: clipboard
  ci_data :: bytes
  ci_owner :: string
  ci_seq :: u32

datatype effect =
  Enter cid int int u32 u32 bool | Leave cid
| Mouse_Move cid int int | Mouse_Relative cid int int
| Mouse_Down cid nat | Mouse_Up cid nat | Mouse_Wheel cid int int
| Key_Down cid u32 u32 u16 string | Key_Up cid u32 u32 u16 | Key_Repeat cid u32 u32 int u16 string
| Set_Clipboard cid nat clipboard | Set_Dirty cid nat bool | Grab_Clipboard cid nat
| Screensaver cid bool | Reset_Options cid | Set_Options cid "u32 list"
| Reconfigure u32 | Release_Buttons | Close_Client cid string | Delete_Client cid
| New_Timer nat | Delete_Timer nat
| Add_Client_Handlers cid | Remove_Client_Handlers cid | Add_Disconnect_Handler cid
| Remove_Disconnect_Handler cid | Remove_Timer_Handler nat
| Post_Screen_Switched string | Post_Connected string | Post_Disconnected
| Add_Scroll_Lock_Rule | Ipc_Connected bool | Ipc_Clients "string list" | Publish_Layout

record ('a, 'f) server =
  primary :: cid
  active :: cid
  sconfig :: "('a, 'f) config"
  active_saver :: "cid option"
  switch_screen :: "cid option"
  wait_delay :: rat
  wait_timer :: "nat option"
  tap_delay :: rat
  max_clip_size :: nat
  tap_mark :: rat
  kb_screens :: string
  clients :: "(string, cid) om"
  client_set :: "cid set"
  old_clients :: "(cid, nat) om"
  clips :: "clip_info list"
  seq_num :: u32
  mx :: int
  my :: int
  xDelta :: int
  yDelta :: int
  xDelta2 :: int
  yDelta2 :: int
  xSaver :: int
  ySaver :: int
  wait_x :: int
  wait_y :: int
  tap_zone :: int
  switch_dir :: direction
  tap_engaged :: bool
  tap_armed :: bool
  relative_moves :: bool
  kb_broadcasting :: bool
  locked :: bool
  default_lock :: bool
  disable_lock :: bool
  enable_clip :: bool
  jump_pos :: "cid \<Rightarrow> int \<times> int"
  next_timer :: nat
  out :: "effect list"

text \<open>What clients and clock answer while one event is handled.\<close>

record env =
  shape_of :: "cid \<Rightarrow> shape"
  cursor_of :: "cid \<Rightarrow> int \<times> int"
  cursor_center :: "int \<times> int"
  jump_zone :: int
  primary_locked :: bool
  toggle_mask :: u32
  name_of :: "cid \<Rightarrow> string"
  can_leave :: "cid \<Rightarrow> bool"
  read_clip :: "cid \<Rightarrow> nat \<Rightarrow> clipboard \<Rightarrow> clipboard"
  now :: rat

definition emit :: "effect \<Rightarrow> ('a, 'f) server \<Rightarrow> ('a, 'f) server" where
  "emit e s = s\<lparr>out := out s @ [e]\<rparr>"

definition emits :: "effect list \<Rightarrow> ('a, 'f) server \<Rightarrow> ('a, 'f) server" where
  "emits es s = s\<lparr>out := out s @ es\<rparr>"

section \<open>Names, sides and locks\<close>

definition get_name :: "env \<Rightarrow> ('a, 'f) server \<Rightarrow> cid \<Rightarrow> string" where
  "get_name e s c =
     (let name = get_canonical_name (name_of e c) (sconfig s) in
      if name = [] then name_of e c else name)"

definition has_any_neighbor :: "env \<Rightarrow> ('a, 'f) server \<Rightarrow> cid \<Rightarrow> direction \<Rightarrow> bool" where
  "has_any_neighbor e s c dir \<longleftrightarrow> has_neighbor (get_name e s c) dir (sconfig s) = Some True"

definition is_locked_server :: "('a, 'f) server \<Rightarrow> bool" where
  "is_locked_server s \<longleftrightarrow> locked s"

definition dir_mask :: "direction \<Rightarrow> u32" where
  "dir_mask d = push_bit (dir_num d) 1"

definition active_primary_sides :: "env \<Rightarrow> ('a, 'f) server \<Rightarrow> u32" where
  "active_primary_sides e s =
     (if is_locked_server s then 0
      else (if has_any_neighbor e s (primary s) Left then dir_mask Left else 0) OR
           (if has_any_neighbor e s (primary s) Right then dir_mask Right else 0) OR
           (if has_any_neighbor e s (primary s) Top then dir_mask Top else 0) OR
           (if has_any_neighbor e s (primary s) Bottom then dir_mask Bottom else 0))"

definition is_locked_to_screen :: "env \<Rightarrow> ('a, 'f) server \<Rightarrow> bool" where
  "is_locked_to_screen e s =
     (if disable_lock s then False
      else if is_locked_server s then True
      else primary_locked e)"

definition jump_zone_size :: "env \<Rightarrow> ('a, 'f) server \<Rightarrow> cid \<Rightarrow> int" where
  "jump_zone_size e s c = (if c = primary s then jump_zone e else 0)"

definition get_clients :: "('a, 'f) server \<Rightarrow> string list" where
  "get_clients s = map fst (clients s)"

definition connected_clients_ipc :: "env \<Rightarrow> ('a, 'f) server \<Rightarrow> ('a, 'f) server" where
  "connected_clients_ipc e s =
     emit (Ipc_Clients (filter (\<lambda>n. n \<noteq> get_name e s (primary s)) (get_clients s))) s"

definition reconfigure_primary :: "env \<Rightarrow> ('a, 'f) server \<Rightarrow> ('a, 'f) server" where
  "reconfigure_primary e s = emit (Reconfigure (active_primary_sides e s)) s"

section \<open>Corners\<close>

definition top_left_corner :: u32 where "top_left_corner = 1"
definition top_right_corner :: u32 where "top_right_corner = 2"
definition bottom_left_corner :: u32 where "bottom_left_corner = 4"
definition bottom_right_corner :: u32 where "bottom_right_corner = 8"

definition get_corner :: "env \<Rightarrow> cid \<Rightarrow> int \<Rightarrow> int \<Rightarrow> int \<Rightarrow> u32" where
  "get_corner e c x y sz =
     (case shape_of e c of (ax, ay, aw, ah) \<Rightarrow>
        let xSide = (if x \<le> ax then -1 else if ax + aw - 1 \<le> x then 1 else 0 :: int);
            ySide = (if y \<le> ay then -1 else if ay + ah - 1 \<le> y then 1 else 0 :: int)
        in
        if xSide \<noteq> 0 \<and> y < ay + sz then (if xSide < 0 then top_left_corner else top_right_corner)
        else if xSide \<noteq> 0 \<and> ay + ah - sz \<le> y
        then (if xSide < 0 then bottom_left_corner else bottom_right_corner)
        else if ySide \<noteq> 0 \<and> x < ax + sz
        then (if ySide < 0 then top_left_corner else bottom_left_corner)
        else if ySide \<noteq> 0 \<and> ax + aw - sz \<le> x
        then (if ySide < 0 then top_right_corner else bottom_right_corner)
        else 0)"

section \<open>Pending switches\<close>

definition stop_tap :: "('a, 'f) server \<Rightarrow> ('a, 'f) server" where
  "stop_tap s = s\<lparr>tap_engaged := False, tap_armed := False\<rparr>"

definition start_tap :: "env \<Rightarrow> ('a, 'f) server \<Rightarrow> ('a, 'f) server" where
  "start_tap e s = s\<lparr>tap_engaged := True, tap_armed := False, tap_mark := now e\<rparr>"

definition tap_time :: "env \<Rightarrow> ('a, 'f) server \<Rightarrow> rat" where
  "tap_time e s = now e - tap_mark s"

definition should_switch_tap :: "env \<Rightarrow> ('a, 'f) server \<Rightarrow> bool" where
  "should_switch_tap e s \<longleftrightarrow> tap_armed s \<and> tap_time e s \<le> tap_delay s"

definition arm_tap :: "env \<Rightarrow> int \<Rightarrow> int \<Rightarrow> ('a, 'f) server \<Rightarrow> ('a, 'f) server" where
  "arm_tap e x y s =
     (if \<not> tap_engaged s then s
      else if tap_delay s < tap_time e s then stop_tap s
      else if tap_armed s then s
      else case shape_of e (active s) of (ax, ay, aw, ah) \<Rightarrow>
        let tapZone = (if jump_zone e < tap_zone s then tap_zone s else jump_zone e) in
        if ax + tapZone \<le> x \<and> x < ax + aw - tapZone \<and> ay + tapZone \<le> y \<and> y < ay + ah - tapZone
        then (case switch_dir s of
                Left \<Rightarrow> s\<lparr>tap_armed := (0 < xDelta s \<and> 0 < xDelta2 s)\<rparr>
              | Right \<Rightarrow> s\<lparr>tap_armed := (xDelta s < 0 \<and> xDelta2 s < 0)\<rparr>
              | Top \<Rightarrow> s\<lparr>tap_armed := (0 < yDelta s \<and> 0 < yDelta2 s)\<rparr>
              | Bottom \<Rightarrow> s\<lparr>tap_armed := (yDelta s < 0 \<and> yDelta2 s < 0)\<rparr>
              | NoDirection \<Rightarrow> s)
        else s)"

definition stop_wait :: "('a, 'f) server \<Rightarrow> ('a, 'f) server" where
  "stop_wait s =
     (case wait_timer s of None \<Rightarrow> s
      | Some t \<Rightarrow> emit (Delete_Timer t) (s\<lparr>wait_timer := None\<rparr>))"

definition start_wait :: "int \<Rightarrow> int \<Rightarrow> ('a, 'f) server \<Rightarrow> ('a, 'f) server" where
  "start_wait x y s =
     (let s1 = stop_wait s; t = next_timer s1 in
      emit (New_Timer t) (s1\<lparr>wait_x := x, wait_y := y, wait_timer := Some t, next_timer := Suc t\<rparr>))"

definition stop_switch :: "('a, 'f) server \<Rightarrow> ('a, 'f) server" where
  "stop_switch s =
     (case switch_screen s of None \<Rightarrow> s
      | Some _ \<Rightarrow> stop_wait (stop_tap (s\<lparr>switch_screen := None, switch_dir := NoDirection\<rparr>)))"

definition no_switch :: "env \<Rightarrow> int \<Rightarrow> int \<Rightarrow> ('a, 'f) server \<Rightarrow> ('a, 'f) server" where
  "no_switch e x y s = stop_wait (arm_tap e x y s)"

section \<open>Options\<close>

definition stop_relative_moves :: "env \<Rightarrow> ('a, 'f) server \<Rightarrow> ('a, 'f) server" where
  "stop_relative_moves e s =
     (if relative_moves s \<and> active s \<noteq> primary s then
        case shape_of e (active s) of (ax, ay, aw, ah) \<Rightarrow>
          let x = ax + aw div 2; y = ay + ah div 2 in
          emit (Mouse_Move (active s) x y)
            (s\<lparr>mx := x, my := y, xDelta := 0, yDelta := 0, xDelta2 := 0, yDelta2 := 0\<rparr>)
      else s)"

definition option_pairs :: "screen_options \<Rightarrow> u32 list" where
  "option_pairs os = concat (map (\<lambda>(i, v). [i, v]) os)"

definition send_options :: "env \<Rightarrow> cid \<Rightarrow> ('a, 'f) server \<Rightarrow> ('a, 'f) server" where
  "send_options e c s =
     (let own = (case get_options (get_name e s c) (sconfig s) of None \<Rightarrow> [] | Some os \<Rightarrow> option_pairs os);
          global = (case get_options [] (sconfig s) of None \<Rightarrow> [] | Some os \<Rightarrow> option_pairs os)
      in emits [Reset_Options c, Set_Options c (own @ global @ [kOptionCaptureTransfer, 1])] s)"

definition milliseconds :: "option_value \<Rightarrow> rat" where
  "milliseconds v = (let d = of_int (sint v) / 1000 in if d < 0 then 0 else d)"

text \<open>One option of the loop of \<^verbatim>\<open>processOptions\<close>; the flag is \<^verbatim>\<open>newRelativeMoves\<close>.\<close>

definition process_option ::
    "option_id \<times> option_value \<Rightarrow> bool \<times> ('a, 'f) server \<Rightarrow> bool \<times> ('a, 'f) server" where
  "process_option o1 r =
     (case (o1, r) of ((i, v), (rel, s)) \<Rightarrow>
        if i = kOptionScreenSwitchDelay then (rel, stop_wait (s\<lparr>wait_delay := milliseconds v\<rparr>))
        else if i = kOptionScreenSwitchTwoTap then (rel, stop_tap (s\<lparr>tap_delay := milliseconds v\<rparr>))
        else if i = kOptionRelativeMouseMoves then (v \<noteq> 0, s)
        else if i = kOptionDefaultLockToScreenState then (rel, s\<lparr>default_lock := (v \<noteq> 0)\<rparr>)
        else if i = kOptionDisableLockToScreen then (rel, s\<lparr>disable_lock := (v \<noteq> 0)\<rparr>)
        else if i = kOptionClipboardSharing then (rel, s\<lparr>enable_clip := (v \<noteq> 0)\<rparr>)
        else if i = kOptionClipboardSharingSize
        then (rel, s\<lparr>max_clip_size := (if sint v \<le> 0 then 0 else nat (sint v))\<rparr>)
        else (rel, s))"

definition process_options :: "env \<Rightarrow> ('a, 'f) server \<Rightarrow> ('a, 'f) server" where
  "process_options e s =
     (case get_options [] (sconfig s) of
        None \<Rightarrow> s
      | Some os \<Rightarrow>
          (case fold process_option os (relative_moves s, s) of (rel, s1) \<Rightarrow>
             let s2 = (if relative_moves s1 \<and> \<not> rel then stop_relative_moves e s1 else s1) in
             s2\<lparr>relative_moves := rel\<rparr>))"

end
