(* ===== verification/Server_Map.thy ===== *)
theory Server_Map
  imports Server_State
begin

text \<open>
  Where the cursor goes when it leaves a screen: \<^verbatim>\<open>mapToFraction\<close>, \<^verbatim>\<open>mapToPixel\<close>,
  \<^verbatim>\<open>getNeighbor\<close>, \<^verbatim>\<open>mapToNeighbor\<close> and \<^verbatim>\<open>avoidJumpZone\<close> of \<^verbatim>\<open>src/lib/server/Server.cpp\<close>. The two
  loops of the source have no bound, so they are partial functions: \<^const>\<open>None\<close> is a loop that
  does not end (or a failed assertion).
\<close>

section \<open>Pixels and fractions\<close>

definition truncate :: "rat \<Rightarrow> int" where
  "truncate r = (if 0 \<le> r then \<lfloor>r\<rfloor> else - \<lfloor>- r\<rfloor>)"

definition pixel_fraction :: "int \<Rightarrow> int \<Rightarrow> int \<Rightarrow> rat" where
  "pixel_fraction p start extent =
     f32 (f32 (f32 (of_int (p - start)) + 1 / 2) / f32 (of_int extent))"

definition fraction_pixel :: "rat \<Rightarrow> int \<Rightarrow> int \<Rightarrow> int" where
  "fraction_pixel f start extent = truncate (f32 (f * f32 (of_int extent))) + start"

definition map_to_fraction :: "env \<Rightarrow> cid \<Rightarrow> direction \<Rightarrow> int \<Rightarrow> int \<Rightarrow> rat option" where
  "map_to_fraction e c dir x y =
     (case shape_of e c of (sx, sy, sw, sh) \<Rightarrow>
        (case dir of
           Left \<Rightarrow> Some (pixel_fraction y sy sh)
         | Right \<Rightarrow> Some (pixel_fraction y sy sh)
         | Top \<Rightarrow> Some (pixel_fraction x sx sw)
         | Bottom \<Rightarrow> Some (pixel_fraction x sx sw)
         | NoDirection \<Rightarrow> None))"

definition map_to_pixel :: "env \<Rightarrow> cid \<Rightarrow> direction \<Rightarrow> rat \<Rightarrow> int \<Rightarrow> int \<Rightarrow> (int \<times> int) option" where
  "map_to_pixel e c dir f x y =
     (case shape_of e c of (sx, sy, sw, sh) \<Rightarrow>
        (case dir of
           Left \<Rightarrow> Some (x, fraction_pixel f sy sh)
         | Right \<Rightarrow> Some (x, fraction_pixel f sy sh)
         | Top \<Rightarrow> Some (fraction_pixel f sx sw, y)
         | Bottom \<Rightarrow> Some (fraction_pixel f sx sw, y)
         | NoDirection \<Rightarrow> None))"

section \<open>The next connected screen\<close>

partial_function (option) find_connected ::
    "('a, 'f) config \<Rightarrow> (string, cid) om \<Rightarrow> direction \<Rightarrow> string \<Rightarrow> rat \<Rightarrow> (cid \<times> rat) option option" where
  "find_connected cfg cl dir srcName t =
     (case get_neighbor srcName dir t cfg of
        None \<Rightarrow> None
      | Some (dstName, tTmp) \<Rightarrow>
          if dstName = [] then Some None
          else (case tTmp of
                  None \<Rightarrow> None
                | Some t' \<Rightarrow>
                    (case om_get string_less dstName cl of
                       Some c \<Rightarrow> Some (Some (c, t'))
                     | None \<Rightarrow> find_connected cfg cl dir dstName t')))"

definition neighbor ::
    "env \<Rightarrow> ('a, 'f) server \<Rightarrow> cid \<Rightarrow> direction \<Rightarrow> int \<Rightarrow> int \<Rightarrow> (cid option \<times> int \<times> int) option" where
  "neighbor e s src dir x y =
     (if get_name e s src = [] then None
      else case map_to_fraction e src dir x y of
        None \<Rightarrow> None
      | Some t \<Rightarrow>
          (case find_connected (sconfig s) (clients s) dir (get_name e s src) t of
             None \<Rightarrow> None
           | Some None \<Rightarrow> Some (None, x, y)
           | Some (Some (c, t')) \<Rightarrow>
               (case map_to_pixel e c dir t' x y of
                  None \<Rightarrow> None
                | Some (x', y') \<Rightarrow> Some (Some c, x', y'))))"

section \<open>Crossing several screens\<close>

definition arrived :: "direction \<Rightarrow> shape \<Rightarrow> int \<Rightarrow> int \<Rightarrow> bool" where
  "arrived side sh x y =
     (case sh of (dx, dy, dw, dh) \<Rightarrow>
        (case side of Left \<Rightarrow> 0 \<le> x | Right \<Rightarrow> x < dw | Top \<Rightarrow> 0 \<le> y | Bottom \<Rightarrow> y < dh
         | NoDirection \<Rightarrow> True))"

text \<open>The coordinate after one screen: its own extent going left or up, the previous one's else.\<close>

definition cross :: "direction \<Rightarrow> shape \<Rightarrow> shape \<Rightarrow> int \<Rightarrow> int \<Rightarrow> int \<times> int" where
  "cross side old new x y =
     (case (old, new) of ((dx, dy, dw, dh), (dx', dy', dw', dh')) \<Rightarrow>
        (case side of Left \<Rightarrow> (x + dw', y) | Right \<Rightarrow> (x - dw, y)
         | Top \<Rightarrow> (x, y + dh') | Bottom \<Rightarrow> (x, y - dh) | NoDirection \<Rightarrow> (x, y)))"

text \<open>The loop over \<^verbatim>\<open>lastGoodScreen\<close>, \<^verbatim>\<open>dst\<close>, \<^verbatim>\<open>x\<close> and \<^verbatim>\<open>y\<close>.\<close>

partial_function (option) walk ::
    "env \<Rightarrow> ('a, 'f) server \<Rightarrow> direction \<Rightarrow> cid \<times> cid option \<times> int \<times> int \<Rightarrow> (cid \<times> int \<times> int) option" where
  "walk e s side st =
     (case st of (lastGood, dst, x, y) \<Rightarrow>
        (case dst of
           None \<Rightarrow> Some (lastGood, x, y)
         | Some d \<Rightarrow>
             (case cross side (shape_of e lastGood) (shape_of e d) x y of
                (x1, y1) \<Rightarrow>
                  if arrived side (shape_of e d) x1 y1 then Some (d, x1, y1)
                  else (case neighbor e s d side x1 y1 of
                          None \<Rightarrow> None
                        | Some (dst', x2, y2) \<Rightarrow> walk e s side (d, dst', x2, y2)))))"

definition jump_clear ::
    "env \<Rightarrow> ('a, 'f) server \<Rightarrow> string \<Rightarrow> direction \<Rightarrow> rat \<Rightarrow> bool option" where
  "jump_clear e s dstName back t = map_option (\<lambda>r. fst r \<noteq> []) (get_neighbor dstName back t (sconfig s))"

definition avoid_jump_zone ::
    "env \<Rightarrow> ('a, 'f) server \<Rightarrow> cid \<Rightarrow> direction \<Rightarrow> int \<Rightarrow> int \<Rightarrow> (int \<times> int) option" where
  "avoid_jump_zone e s dst dir x y =
     (if dst \<noteq> primary s then Some (x, y)
      else case map_to_fraction e dst dir x y of
        None \<Rightarrow> None
      | Some t \<Rightarrow>
          (case shape_of e dst of (dx, dy, dw, dh) \<Rightarrow>
             let z = jump_zone_size e s dst; dstName = get_name e s dst in
             (case dir of
                Left \<Rightarrow> map_option (\<lambda>b. (if b \<and> dx + dw - 1 - z < x then dx + dw - 1 - z else x, y))
                  (jump_clear e s dstName Right t)
              | Right \<Rightarrow> map_option (\<lambda>b. (if b \<and> x < dx + z then dx + z else x, y))
                  (jump_clear e s dstName Left t)
              | Top \<Rightarrow> map_option (\<lambda>b. (x, if b \<and> dy + dh - 1 - z < y then dy + dh - 1 - z else y))
                  (jump_clear e s dstName Bottom t)
              | Bottom \<Rightarrow> map_option (\<lambda>b. (x, if b \<and> y < dy + z then dy + z else y))
                  (jump_clear e s dstName Top t)
              | NoDirection \<Rightarrow> None)))"

definition to_canonical :: "direction \<Rightarrow> shape \<Rightarrow> int \<Rightarrow> int \<Rightarrow> int \<times> int" where
  "to_canonical side sh x y =
     (case sh of (dx, dy, _, _) \<Rightarrow>
        if side = Left \<or> side = Right then (x - dx, y) else (x, y - dy))"

definition from_canonical :: "direction \<Rightarrow> shape \<Rightarrow> int \<Rightarrow> int \<Rightarrow> int \<times> int" where
  "from_canonical side sh x y =
     (case sh of (dx, dy, _, _) \<Rightarrow>
        if side = Left \<or> side = Right then (x + dx, y) else (x, y + dy))"

definition map_to_neighbor ::
    "env \<Rightarrow> ('a, 'f) server \<Rightarrow> cid \<Rightarrow> direction \<Rightarrow> int \<Rightarrow> int \<Rightarrow> (cid option \<times> int \<times> int) option" where
  "map_to_neighbor e s src srcSide x y =
     (case neighbor e s src srcSide x y of
        None \<Rightarrow> None
      | Some (None, x0, y0) \<Rightarrow> Some (None, x0, y0)
      | Some (Some d, x0, y0) \<Rightarrow>
          (case to_canonical srcSide (shape_of e src) x0 y0 of (x1, y1) \<Rightarrow>
             (case walk e s srcSide (src, Some d, x1, y1) of
                None \<Rightarrow> None
              | Some (dst, x2, y2) \<Rightarrow>
                  (case from_canonical srcSide (shape_of e dst) x2 y2 of (x3, y3) \<Rightarrow>
                     map_option (\<lambda>(x4, y4). (Some dst, x4, y4)) (avoid_jump_zone e s dst srcSide x3 y3)))))"

section \<open>When the search ends\<close>

text \<open>
  The search over unconnected screens returns when no cycle of unconnected screens lies in
  that direction: some rank falls along every link that leaves an unconnected screen.
\<close>

definition falls :: "('a, 'f) config \<Rightarrow> (string, cid) om \<Rightarrow> direction \<Rightarrow> (string \<Rightarrow> nat) \<Rightarrow> bool" where
  "falls cfg cl dir rank \<longleftrightarrow>
     (\<forall>n t d t'. get_neighbor n dir t cfg = Some (d, Some t') \<longrightarrow> d \<noteq> [] \<longrightarrow>
        om_get string_less d cl = None \<longrightarrow> rank d < rank n)"

lemma get_neighbor_position:
  assumes "side \<noteq> NoDirection"
  shows "\<exists>d q. get_neighbor n side t cfg = Some (d, q) \<and> (q = None \<longrightarrow> d = [])"
  by (cases "link_at n side t cfg") (auto simp: get_neighbor_link [OF assms])

lemma find_connected_returns:
  assumes "dir \<noteq> NoDirection" and "falls cfg cl dir rank"
  shows "\<exists>r. find_connected cfg cl dir n t = Some r"
proof (induction "rank n" arbitrary: n t rule: less_induct)
  case less
  obtain d q where nb: "get_neighbor n dir t cfg = Some (d, q)" "q = None \<longrightarrow> d = []"
    using get_neighbor_position [OF assms(1)] by blast
  show ?case
  proof (cases "d = []")
    case False
    then obtain t' where q: "q = Some t'" using nb(2) by auto
    show ?thesis
    proof (cases "om_get string_less d cl")
      case None
      then have "rank d < rank n" using assms(2) nb(1) q False unfolding falls_def by blast
      from less [OF this, of t'] show ?thesis
        using nb(1) q False None by (simp add: find_connected.simps)
    qed (use nb(1) q False in \<open>simp add: find_connected.simps\<close>)
  qed (use nb(1) in \<open>simp add: find_connected.simps\<close>)
qed

text \<open>What it returns: a connected screen.\<close>

lemma om_get_mem: "om_get lt k m = Some v \<Longrightarrow> \<exists>k'. (k', v) \<in> set m"
  using om_find_mem [of lt k m] by (auto simp: om_get_def)

lemma find_connected_client:
  assumes "find_connected cfg cl dir n t = Some r" and "r = Some (c, t')"
  shows "\<exists>d. (d, c) \<in> set cl"
proof -
  let ?P = "\<lambda>(cfg' :: ('a, 'b) config) cl' (dir' :: direction) (n' :: string) (u :: rat) r.
    r = Some (c, t') \<longrightarrow> (\<exists>d. (d, c) \<in> set cl')"
  have "?P cfg cl dir n t r"
  proof (rule find_connected.raw_induct [of ?P, OF _ assms(1)])
    fix f :: "('a, 'b) config \<Rightarrow> (string, cid) om \<Rightarrow> direction \<Rightarrow> string \<Rightarrow> rat \<Rightarrow> (cid \<times> rat) option option"
    fix cfg' cl' dir' n' u r'
    assume ih: "\<And>cfg' cl' dir' n' u r'. f cfg' cl' dir' n' u = Some r' \<Longrightarrow> ?P cfg' cl' dir' n' u r'"
      and body: "(case get_neighbor n' dir' u cfg' of None \<Rightarrow> None
        | Some (dstName, tTmp) \<Rightarrow>
            if dstName = [] then Some None
            else (case tTmp of None \<Rightarrow> None
              | Some t' \<Rightarrow> (case om_get string_less dstName cl' of
                  Some c \<Rightarrow> Some (Some (c, t')) | None \<Rightarrow> f cfg' cl' dir' dstName t'))) = Some r'"
    then show "?P cfg' cl' dir' n' u r'"
      by (auto split: option.splits if_splits dest: om_get_mem ih)
  qed
  with assms(2) show ?thesis by simp
qed

lemma neighbor_client:
  "neighbor e s src dir x y = Some (Some c, x', y') \<Longrightarrow> \<exists>d. (d, c) \<in> set (clients s)"
  by (auto simp: neighbor_def split: if_splits option.splits prod.splits dest: find_connected_client)

lemma walk_client:
  assumes "walk e s side (l, dst, x, y) = Some r"
    and "dst = None \<Longrightarrow> \<exists>n. (n, l) \<in> set (clients s)"
    and "\<And>d. dst = Some d \<Longrightarrow> \<exists>n. (n, d) \<in> set (clients s)"
  shows "\<exists>n. (n, fst r) \<in> set (clients s)"
proof -
  let ?conn = "\<lambda>s d. \<exists>n. (n, d) \<in> set (clients s)"
  let ?P = "\<lambda>e (s :: ('a, 'b) server) (side :: direction) st r.
    (fst (snd st) = None \<longrightarrow> ?conn s (fst st)) \<longrightarrow>
    (\<forall>d. fst (snd st) = Some d \<longrightarrow> ?conn s d) \<longrightarrow> ?conn s (fst r)"
  have "?P e s side (l, dst, x, y) r"
  proof (rule walk.raw_induct [of ?P, OF _ assms(1)])
    fix f :: "env \<Rightarrow> ('a, 'b) server \<Rightarrow> direction \<Rightarrow> cid \<times> cid option \<times> int \<times> int \<Rightarrow> (cid \<times> int \<times> int) option"
    fix e s side st r
    assume ih: "\<And>e s side st r. f e s side st = Some r \<Longrightarrow> ?P e s side st r"
      and body: "(case st of (l, dst, x, y) \<Rightarrow> (case dst of None \<Rightarrow> Some (l, x, y)
        | Some d \<Rightarrow> (case cross side (shape_of e l) (shape_of e d) x y of
            (x1, y1) \<Rightarrow> if arrived side (shape_of e d) x1 y1 then Some (d, x1, y1)
              else (case neighbor e s d side x1 y1 of None \<Rightarrow> None
                | Some (dst', x2, y2) \<Rightarrow> f e s side (d, dst', x2, y2))))) = Some r"
    obtain l dst x y where st: "st = (l, dst, x, y)" by (cases st) auto
    show "?P e s side st r"
    proof (intro impI)
      assume c: "fst (snd st) = None \<longrightarrow> ?conn s (fst st)" "\<forall>d. fst (snd st) = Some d \<longrightarrow> ?conn s d"
      show "?conn s (fst r)"
      proof (cases dst)
        case None
        then show ?thesis using body c st by auto
      next
        case (Some d)
        obtain x1 y1 where xy: "cross side (shape_of e l) (shape_of e d) x y = (x1, y1)" by fastforce
        show ?thesis
        proof (cases "arrived side (shape_of e d) x1 y1")
          case True
          then show ?thesis using body c Some xy st by auto
        next
          case False
          then obtain dst' x2 y2 where n: "neighbor e s d side x1 y1 = Some (dst', x2, y2)"
            "f e s side (d, dst', x2, y2) = Some r"
            using body Some xy st by (auto split: option.splits)
          have "\<forall>d'. dst' = Some d' \<longrightarrow> ?conn s d'" using n(1) neighbor_client by blast
          with ih [OF n(2)] c Some st show ?thesis by simp
        qed
      qed
    qed
  qed
  with assms(2,3) show ?thesis by simp
qed

lemma map_to_neighbor_client:
  assumes "map_to_neighbor e s src side x y = Some (Some c, x', y')"
  shows "\<exists>n. (n, c) \<in> set (clients s)"
proof -
  obtain d x0 y0 where d: "neighbor e s src side x y = Some (Some d, x0, y0)"
    using assms by (auto simp: map_to_neighbor_def split: option.splits prod.splits)
  then obtain x1 y1 x2 y2 where "walk e s side (src, Some d, x1, y1) = Some (c, x2, y2)"
    using assms by (cases "to_canonical side (shape_of e src) x0 y0")
      (auto simp: map_to_neighbor_def split: option.splits prod.splits)
  from walk_client [OF this] neighbor_client [OF d] show ?thesis by simp
qed

end
