(* ===== verification/Server_Demo.thy ===== *)
theory Server_Demo
  imports Server_Map
begin

text \<open>
  One concrete server on which the properties of the server are instantiated: the screen
  \<open>host\<close> (client 0, the primary) with the screen \<open>laptop\<close> (client 1) to its right and back,
  both of 64 by 64 pixels.
\<close>

definition demo_link :: "direction \<Rightarrow> string \<Rightarrow> cell_edge \<times> cell_edge" where
  "demo_link side name =
     (\<lparr>ce_name = [], ce_side = side, ce_interval = (0, 1)\<rparr>,
      \<lparr>ce_name = name, ce_side = side, ce_interval = (0, 1)\<rparr>)"

definition demo_config :: "(unit, unit) config" where
  "demo_config =
     \<lparr>cfg_map = [(''host'', \<lparr>neighbors = [demo_link Right ''laptop''], cell_options = []\<rparr>),
                  (''laptop'', \<lparr>neighbors = [demo_link Left ''host''], cell_options = []\<rparr>)],
      cfg_names = [(''host'', ''host''), (''laptop'', ''laptop'')],
      cfg_address = (), cfg_options = [], cfg_filter = (), cfg_has_lock = False\<rparr>"

definition demo_env :: env where
  "demo_env = \<lparr>shape_of = (\<lambda>_. (0, 0, 64, 64)), cursor_of = (\<lambda>_. (32, 32)), cursor_center = (32, 32),
     jump_zone = 1, primary_locked = False, toggle_mask = 0,
     name_of = (\<lambda>c. if c = 0 then ''host'' else ''laptop''),
     can_leave = (\<lambda>_. True), read_clip = (\<lambda>_ _ c. c), now = 0\<rparr>"

definition demo_clip :: clip_info where
  "demo_clip = \<lparr>ci_clipboard = cb_init, ci_data = fst (cb_marshall cb_init), ci_owner = ''host'', ci_seq = 0\<rparr>"

definition demo_server :: "(unit, unit) server" where
  "demo_server =
     \<lparr>primary = 0, active = 0, sconfig = demo_config, active_saver = None, switch_screen = None,
      wait_delay = 0, wait_timer = None, tap_delay = 0, max_clip_size = 2147483647, tap_mark = 0,
      kb_screens = [], clients = [(''host'', 0), (''laptop'', 1)], client_set = {0, 1},
      old_clients = [], clips = [demo_clip, demo_clip], seq_num = 0, mx = 32, my = 31,
      xDelta = 0, yDelta = 0, xDelta2 = 0, yDelta2 = 0, xSaver = 0, ySaver = 0, wait_x = 0, wait_y = 0,
      tap_zone = 3, switch_dir = NoDirection, tap_engaged = False, tap_armed = False,
      relative_moves = False, kb_broadcasting = False, locked = False, default_lock = False,
      disable_lock = False, enable_clip = True, jump_pos = (\<lambda>_. (32, 32)), next_timer = 0, out = []\<rparr>"

lemma demo_f32 [simp]: "f32 0 = 0" "f32 1 = 1" "f32 (1/2) = 1/2" "f32 64 = 64" "f32 31 = 31" "f32 (63/2) = 63/2"
  "f32 (63/128) = 63/128"
  using f32_exact [OF is_f32_dyadic [of 63 1]] f32_exact [OF is_f32_dyadic [of 63 7]]
  by (simp_all add: f32_exact)

lemma demo_canonical [simp]:
  "get_canonical_name ''host'' demo_config = ''host''"
  "get_canonical_name ''laptop'' demo_config = ''laptop''"
  by code_simp+

lemma demo_name [simp]:
  "get_name demo_env demo_server 0 = ''host''" "get_name demo_env demo_server (Suc 0) = ''laptop''"
  by (simp_all add: get_name_def demo_server_def demo_env_def)

lemma demo_link_at:
  "link_at ''host'' Right (63/128) demo_config = Some (demo_link Right ''laptop'')"
  "link_at ''laptop'' Right (63/128) demo_config = None"
  "link_at ''host'' Left (63/128) demo_config = None"
  by code_simp+

lemma demo_transform:
  "edge_inverse_transform (snd (demo_link Right n)) (edge_transform (fst (demo_link Right n)) (63/128)) = 63/128"
  by (simp add: demo_link_def edge_transform_def edge_inverse_transform_def)

lemma demo_get_neighbor:
  "get_neighbor ''host'' Right (63/128) demo_config = Some (''laptop'', Some (63/128))"
  "get_neighbor ''laptop'' Right (63/128) demo_config = Some ([], None)"
proof -
  note step = get_neighbor_link [of Right, OF direction.distinct(3) [symmetric]]
  show "get_neighbor ''host'' Right (63/128) demo_config = Some (''laptop'', Some (63/128))"
    unfolding step demo_link_at using demo_transform [of "''laptop''"]
    by (simp add: case_prod_unfold) (simp add: demo_link_def)
  show "get_neighbor ''laptop'' Right (63/128) demo_config = Some ([], None)"
    unfolding step demo_link_at by simp
qed

lemma floor_63_2 [simp]: "\<lfloor>63 / 2 :: rat\<rfloor> = 31"
  by (simp add: floor_eq_iff)

lemma demo_fields [simp]: "sconfig demo_server = demo_config" "primary demo_server = 0"
  "active demo_server = 0" "clients demo_server = [(''host'', 0), (''laptop'', 1)]"
  "client_set demo_server = {0, 1}"
  by (simp_all add: demo_server_def)

lemma demo_clients: "om_get string_less ''laptop'' (clients demo_server) = Some (Suc 0)"
  by (simp add: om_get_def string_less_def)

lemma demo_neighbor:
  "neighbor demo_env demo_server 0 Right 64 31 = Some (Some 1, 64, 31)"
  using demo_get_neighbor(1) demo_clients
  by (simp add: neighbor_def map_to_fraction_def map_to_pixel_def demo_env_def pixel_fraction_def
      fraction_pixel_def truncate_def find_connected.simps get_name_def)

lemma demo_shape [simp]: "shape_of demo_env c = (0, 0, 64, 64)"
  by (simp add: demo_env_def)

lemma demo_map_to_neighbor:
  "map_to_neighbor demo_env demo_server 0 Right 64 31 = Some (Some 1, 0, 31)"
  by (simp add: map_to_neighbor_def demo_neighbor to_canonical_def from_canonical_def walk.simps
      cross_def arrived_def avoid_jump_zone_def)

lemma demo_canonical_names: "get_canonical_name n demo_config \<in> {[], ''host'', ''laptop''}"
proof (cases "om_find caseless_less n (cfg_names demo_config)")
  case (Some e)
  then have "snd e \<in> {''host'', ''laptop''}"
    using om_find_mem [OF Some] by (auto simp: demo_config_def)
  with Some show ?thesis by (auto simp: get_canonical_name_def split: prod.splits)
qed (simp add: get_canonical_name_def)

lemma demo_falls: "side \<noteq> NoDirection \<Longrightarrow> falls demo_config (clients demo_server) side rank"
  unfolding falls_def
proof (intro allI impI)
  fix n t d t'
  assume side: "side \<noteq> NoDirection" and nb: "get_neighbor n side t demo_config = Some (d, Some t')"
    and d: "d \<noteq> []" and none: "om_get string_less d (clients demo_server) = None"
  have "d \<in> {[], ''host'', ''laptop''}"
    using nb demo_canonical_names by (auto simp: get_neighbor_link [OF side] split: option.splits)
  with d none show "rank d < rank n" by (auto simp: om_get_def string_less_def)
qed

text \<open>A layout in which the unconnected screen \<open>laptop\<close> is its own neighbour.\<close>

definition loop_config :: "(unit, unit) config" where
  "loop_config = demo_config\<lparr>cfg_map :=
     [(''host'', \<lparr>neighbors = [demo_link Right ''laptop''], cell_options = []\<rparr>),
      (''laptop'', \<lparr>neighbors = [demo_link Right ''laptop''], cell_options = []\<rparr>)]\<rparr>"

definition loop_server :: "(unit, unit) server" where
  "loop_server = demo_server\<lparr>sconfig := loop_config, clients := [(''host'', 0)]\<rparr>"

lemma loop_link_at:
  "link_at ''host'' Right (63/128) loop_config = Some (demo_link Right ''laptop'')"
  "link_at ''laptop'' Right (63/128) loop_config = Some (demo_link Right ''laptop'')"
  by code_simp+

lemma loop_get_neighbor:
  "n = ''host'' \<or> n = ''laptop'' \<Longrightarrow>
     get_neighbor n Right (63/128) loop_config = Some (''laptop'', Some (63/128))"
proof -
  assume n: "n = ''host'' \<or> n = ''laptop''"
  have "get_canonical_name (ce_name (snd (demo_link Right ''laptop''))) loop_config = ''laptop''"
    by (simp add: demo_link_def loop_config_def)
  with n loop_link_at demo_transform [of "''laptop''"] show ?thesis
    unfolding get_neighbor_link [of Right, OF direction.distinct(3) [symmetric]]
    by (auto simp: case_prod_unfold)
qed

end
