(* ===== verification/Server_Map_Props.thy ===== *)
theory Server_Map_Props
  imports Server_Demo
begin

text \<open>
  The cursor's way across screens: the search over unconnected screens ends when no cycle of
  them lies in its direction and does not end when one does, and the position the cursor
  arrives at lies on the destination along the direction of travel.
\<close>

section \<open>A search that does not end\<close>

text \<open>\<open>K\<close> is a set of screens and positions the search cannot leave.\<close>

definition trapped :: "('a, 'f) config \<Rightarrow> (string, cid) om \<Rightarrow> direction \<Rightarrow> (string \<times> rat) set \<Rightarrow> bool" where
  "trapped cfg cl dir K \<longleftrightarrow>
     (\<forall>(n, t)\<in>K. \<exists>d t'. get_neighbor n dir t cfg = Some (d, Some t') \<and> d \<noteq> [] \<and>
        om_get string_less d cl = None \<and> (d, t') \<in> K)"

lemma find_connected_trapped:
  assumes "trapped cfg cl dir K" and "(n, t) \<in> K"
  shows "find_connected cfg cl dir n t = None"
proof (rule ccontr)
  assume "find_connected cfg cl dir n t \<noteq> None"
  then obtain r where r: "find_connected cfg cl dir n t = Some r" by blast
  let ?P = "\<lambda>(cfg' :: ('a, 'b) config) cl' dir' n' u (r :: (cid \<times> rat) option).
    cfg' = cfg \<longrightarrow> cl' = cl \<longrightarrow> dir' = dir \<longrightarrow> (n', u) \<notin> K"
  have "?P cfg cl dir n t r"
  proof (rule find_connected.raw_induct [of ?P, OF _ r])
    fix f :: "('a, 'b) config \<Rightarrow> (string, cid) om \<Rightarrow> direction \<Rightarrow> string \<Rightarrow> rat \<Rightarrow> (cid \<times> rat) option option"
    fix cfg' cl' dir' n' u r'
    assume ih: "\<And>cfg' cl' dir' n' u r'. f cfg' cl' dir' n' u = Some r' \<Longrightarrow> ?P cfg' cl' dir' n' u r'"
      and body: "(case get_neighbor n' dir' u cfg' of None \<Rightarrow> None
        | Some (dstName, tTmp) \<Rightarrow>
            if dstName = [] then Some None
            else (case tTmp of None \<Rightarrow> None
              | Some t' \<Rightarrow> (case om_get string_less dstName cl' of
                  Some c \<Rightarrow> Some (Some (c, t')) | None \<Rightarrow> f cfg' cl' dir' dstName t'))) = Some r'"
    show "?P cfg' cl' dir' n' u r'"
    proof (intro impI notI)
      assume eq: "cfg' = cfg" "cl' = cl" "dir' = dir" and "(n', u) \<in> K"
      with assms(1) obtain d t' where "get_neighbor n' dir u cfg = Some (d, Some t')" "d \<noteq> []"
        "om_get string_less d cl = None" "(d, t') \<in> K"
        unfolding trapped_def by blast
      with ih [of cfg cl dir d t' r'] body eq show False by simp
    qed
  qed
  with assms(2) show False by simp
qed

section \<open>Arrival\<close>

definition inside_axis :: "direction \<Rightarrow> shape \<Rightarrow> int \<Rightarrow> int \<Rightarrow> bool" where
  "inside_axis side sh x y =
     (case sh of (dx, dy, dw, dh) \<Rightarrow>
        if side = Left \<or> side = Right then dx \<le> x \<and> x < dx + dw else dy \<le> y \<and> y < dy + dh)"

definition beyond :: "direction \<Rightarrow> shape \<Rightarrow> int \<Rightarrow> int \<Rightarrow> bool" where
  "beyond side sh x y =
     (case sh of (dx, dy, dw, dh) \<Rightarrow>
        (case side of Left \<Rightarrow> x < dx | Right \<Rightarrow> dx + dw \<le> x | Top \<Rightarrow> y < dy | Bottom \<Rightarrow> dy + dh \<le> y
         | NoDirection \<Rightarrow> False))"

definition origin_shape :: "shape \<Rightarrow> shape" where
  "origin_shape sh = (case sh of (dx, dy, dw, dh) \<Rightarrow> (0, 0, dw, dh))"

definition positive_shapes :: "env \<Rightarrow> bool" where
  "positive_shapes e \<longleftrightarrow> (\<forall>c. case shape_of e c of (x, y, w, h) \<Rightarrow> 0 < w \<and> 0 < h)"

definition dead_end :: "env \<Rightarrow> ('a, 'f) server \<Rightarrow> cid \<Rightarrow> direction \<Rightarrow> bool" where
  "dead_end e s c side \<longleftrightarrow> (\<exists>x y x' y'. neighbor e s c side x y = Some (None, x', y'))"

lemma neighbor_side: "neighbor e s c side x y = Some r \<Longrightarrow> side \<noteq> NoDirection"
  by (cases "shape_of e c") (auto simp: neighbor_def map_to_fraction_def split: if_splits option.splits)

text \<open>The coordinate along the direction is the caller's.\<close>

lemma neighbor_axis:
  assumes "neighbor e s c side x y = Some (d, x', y')"
  shows "(side = Left \<or> side = Right \<longrightarrow> x' = x) \<and> (side = Top \<or> side = Bottom \<longrightarrow> y' = y)"
  using assms
  by (cases side)
    (auto simp: neighbor_def map_to_pixel_def split: if_splits option.splits prod.splits)

text \<open>One crossing: still beyond the new screen, or on it.\<close>

lemma cross_position:
  assumes "beyond side (origin_shape sh) x y" and "cross side sh sh' x y = (x', y')"
    and "case sh of (a, b, w, h) \<Rightarrow> 0 < w \<and> 0 < h" and "case sh' of (a, b, w, h) \<Rightarrow> 0 < w \<and> 0 < h"
  shows "if arrived side sh' x' y' then inside_axis side (origin_shape sh') x' y'
    else beyond side (origin_shape sh') x' y'"
  using assms
  by (cases side; cases sh; cases sh')
    (auto simp: beyond_def origin_shape_def cross_def arrived_def inside_axis_def)

lemma beyond_axis:
  assumes "beyond side sh x y"
    and "(side = Left \<or> side = Right \<longrightarrow> x' = x) \<and> (side = Top \<or> side = Bottom \<longrightarrow> y' = y)"
  shows "beyond side sh x' y'"
  using assms by (cases side; cases sh) (auto simp: beyond_def)

lemma walk_position:
  assumes "walk e s side (l, dst, x, y) = Some r" and "positive_shapes e"
    and "beyond side (origin_shape (shape_of e l)) x y" and "dst = None \<Longrightarrow> dead_end e s l side"
  shows "case r of (c, x', y') \<Rightarrow> inside_axis side (origin_shape (shape_of e c)) x' y' \<or>
    (beyond side (origin_shape (shape_of e c)) x' y' \<and> dead_end e s c side)"
proof -
  let ?Q = "\<lambda>e s side r. case r of (c, x', y') \<Rightarrow> inside_axis side (origin_shape (shape_of e c)) x' y' \<or>
    (beyond side (origin_shape (shape_of e c)) x' y' \<and> dead_end e s c side)"
  let ?P = "\<lambda>e (s :: ('a, 'b) server) side st r. positive_shapes e \<longrightarrow>
    (case st of (l, dst, x, y) \<Rightarrow> beyond side (origin_shape (shape_of e l)) x y \<longrightarrow>
      (dst = None \<longrightarrow> dead_end e s l side) \<longrightarrow> ?Q e s side r)"
  have "?P e s side (l, dst, x, y) r"
  proof (rule walk.raw_induct [of ?P, OF _ assms(1)])
    fix f :: "env \<Rightarrow> ('a, 'b) server \<Rightarrow> direction \<Rightarrow> cid \<times> cid option \<times> int \<times> int \<Rightarrow> (cid \<times> int \<times> int) option"
    fix e s side st r
    assume ih: "\<And>e s side st r. f e s side st = Some r \<Longrightarrow> ?P e s side st r"
      and body: "(case st of (l, dst, x, y) \<Rightarrow> (case dst of None \<Rightarrow> Some (l, x, y)
        | Some d \<Rightarrow> (case cross side (shape_of e l) (shape_of e d) x y of
            (x1, y1) \<Rightarrow> if arrived side (shape_of e d) x1 y1 then Some (d, x1, y1)
              else (case neighbor e s d side x1 y1 of None \<Rightarrow> None
                | Some (dst', x2, y2) \<Rightarrow> f e s side (d, dst', x2, y2))))) = Some r"
    obtain l dst x y where st: "st = (l, dst, x, y)" by (cases st) auto
    have "?Q e s side r" if pos: "positive_shapes e"
      and bey: "beyond side (origin_shape (shape_of e l)) x y"
      and dead: "dst = None \<longrightarrow> dead_end e s l side"
    proof (cases dst)
      case None
      then show ?thesis using body st bey dead by auto
    next
      case (Some d)
      obtain x1 y1 where xy: "cross side (shape_of e l) (shape_of e d) x y = (x1, y1)" by fastforce
      have pos': "case shape_of e c of (a, b, w, h) \<Rightarrow> 0 < w \<and> 0 < h" for c
        using pos by (auto simp: positive_shapes_def)
      note step = cross_position [OF bey xy pos' pos']
      show ?thesis
      proof (cases "arrived side (shape_of e d) x1 y1")
        case True
        then show ?thesis using body st Some xy step by auto
      next
        case False
        then obtain dst' x2 y2 where n: "neighbor e s d side x1 y1 = Some (dst', x2, y2)"
          "f e s side (d, dst', x2, y2) = Some r"
          using body Some xy st by (auto split: option.splits)
        have "beyond side (origin_shape (shape_of e d)) x2 y2"
          using beyond_axis [OF _ neighbor_axis [OF n(1)]] step False by simp
        moreover have "dst' = None \<longrightarrow> dead_end e s d side" using n(1) dead_end_def by blast
        ultimately show ?thesis using ih [OF n(2)] pos by simp
      qed
    qed
    then show "?P e s side st r" using st by simp
  qed
  with assms(2-4) show ?thesis by simp
qed

lemma avoid_jump_zone_inside:
  assumes "avoid_jump_zone e s c side x y = Some (x', y')"
    and "positive_shapes e" and "0 \<le> jump_zone e"
    and "case shape_of e (primary s) of (dx, dy, dw, dh) \<Rightarrow> jump_zone e < dw \<and> jump_zone e < dh"
  shows "(inside_axis side (shape_of e c) x y \<longrightarrow> inside_axis side (shape_of e c) x' y') \<and>
    (beyond side (shape_of e c) x y \<longrightarrow> (x', y') = (x, y))"
proof -
  obtain dx dy dw dh where sh: "shape_of e c = (dx, dy, dw, dh)" by (cases "shape_of e c") auto
  have "0 < dw" "0 < dh" using assms(2) sh by (auto simp: positive_shapes_def dest!: spec [of _ c])
  moreover have "c = primary s \<Longrightarrow> jump_zone e < dw \<and> jump_zone e < dh" using assms(4) sh by simp
  ultimately show ?thesis
    using assms(1,3) sh
    by (cases side)
      (auto simp: avoid_jump_zone_def inside_axis_def beyond_def jump_zone_size_def Let_def
        split: if_splits option.splits)
qed

lemma from_canonical_axis:
  "from_canonical side sh x y = (x', y') \<Longrightarrow> side \<noteq> NoDirection \<Longrightarrow>
     inside_axis side sh x' y' = inside_axis side (origin_shape sh) x y \<and>
     beyond side sh x' y' = beyond side (origin_shape sh) x y"
  by (cases side; cases sh) (auto simp: from_canonical_def inside_axis_def beyond_def origin_shape_def)

lemma to_canonical_beyond:
  "to_canonical side sh x y = (x', y') \<Longrightarrow> beyond side sh x y \<Longrightarrow> beyond side (origin_shape sh) x' y'"
  by (cases side; cases sh) (auto simp: to_canonical_def beyond_def origin_shape_def)

section \<open>Properties\<close>

text \<open>
  C26. The neighbour search ends. When some rank of the screens falls along every link of the
  layout that leads to an unconnected screen in a direction, the search in that direction
  returns, and what it returns is a connected client or none.
\<close>

theorem neighbor_search_returns:
  assumes "side \<noteq> NoDirection" and "get_name e s src \<noteq> []"
    and "falls (sconfig s) (clients s) side rank"
  shows "\<exists>d x' y'. neighbor e s src side x y = Some (d, x', y') \<and>
    (\<forall>c. d = Some c \<longrightarrow> (\<exists>n. (n, c) \<in> set (clients s)))"
proof -
  obtain t where t: "map_to_fraction e src side x y = Some t"
    using assms(1) by (cases side; cases "shape_of e src") (auto simp: map_to_fraction_def)
  obtain r where r: "find_connected (sconfig s) (clients s) side (get_name e s src) t = Some r"
    using find_connected_returns [OF assms(1,3)] by blast
  have "\<exists>p. map_to_pixel e c side q x y = Some p" for c q
    using assms(1) by (cases side; cases "shape_of e c") (auto simp: map_to_pixel_def)
  have "\<exists>d x' y'. neighbor e s src side x y = Some (d, x', y')"
  proof (cases r)
    case None
    then show ?thesis using t r assms(2) by (simp add: neighbor_def)
  next
    case (Some p)
    obtain c q where "p = (c, q)" by fastforce
    moreover obtain x' y' where "map_to_pixel e c side q x y = Some (x', y')"
      using \<open>\<And>q c. \<exists>p. map_to_pixel e c side q x y = Some p\<close> [of c q] by auto
    ultimately show ?thesis using t r assms(2) Some by (simp add: neighbor_def)
  qed
  then obtain d x' y' where n: "neighbor e s src side x y = Some (d, x', y')" by blast
  moreover have "\<exists>n. (n, c) \<in> set (clients s)" if "d = Some c" for c
    using neighbor_client n that by blast
  ultimately show ?thesis by blast
qed

text \<open>With the laptop not connected, the search passes it and finds nothing behind it.\<close>

definition lonely_server :: "(unit, unit) server" where
  "lonely_server = demo_server\<lparr>clients := [(''host'', 0)]\<rparr>"

lemma lonely_fields [simp]: "sconfig lonely_server = demo_config" "clients lonely_server = [(''host'', 0)]"
  by (simp_all add: lonely_server_def)

lemma laptop_end: "link_at ''laptop'' Right t demo_config = None"
proof -
  have "om_get caseless_less (get_canonical_name ''laptop'' demo_config) (cfg_map demo_config) =
      Some \<lparr>neighbors = [demo_link Left ''host''], cell_options = []\<rparr>"
    by code_simp
  moreover have "cell_get_link Right t \<lparr>neighbors = [demo_link Left ''host''], cell_options = []\<rparr> \<in> {None, Some None}"
    by (auto simp: cell_get_link_def demo_link_def om_upto_def Let_def split: option.split if_splits)
  ultimately show ?thesis by (auto simp: link_at_def)
qed

lemma lonely_falls: "falls demo_config [(''host'', 0)] Right (\<lambda>n. if n = ''laptop'' then 0 else 1)"
  unfolding falls_def
proof (intro allI impI)
  fix n t d t'
  assume nb: "get_neighbor n Right t demo_config = Some (d, Some t')" and d: "d \<noteq> []"
    and none: "om_get string_less d [(''host'', 0 :: nat)] = None"
  have "d \<in> {[], ''host'', ''laptop''}"
    using nb demo_canonical_names by (auto simp: get_neighbor_link split: option.splits)
  then have "d = ''laptop''" using d none by (auto simp: om_get_def string_less_def)
  moreover have "n \<noteq> ''laptop''" using nb d by (auto simp: get_neighbor_link laptop_end split: option.splits)
  ultimately show "(if d = ''laptop'' then 0 else 1) < (if n = ''laptop'' then 0 else 1 :: nat)" by simp
qed

lemma neighbor_search_returns_witness:
  "\<exists>d x' y'. neighbor demo_env lonely_server 0 Right 64 31 = Some (d, x', y') \<and>
    (\<forall>c. d = Some c \<longrightarrow> (\<exists>n. (n, c) \<in> set (clients lonely_server)))"
  by (rule neighbor_search_returns) (use lonely_falls in \<open>simp_all add: get_name_def demo_env_def lonely_server_def\<close>)

text \<open>
  A cycle of unconnected screens traps the search. When the positions the search visits
  stay in a set of unconnected screens, it does not return; a screen that is not connected and
  linked to itself is such a cycle, although the comment in the loop says that a destination
  equal to the source ends the search.
\<close>

theorem neighbor_search_trapped:
  assumes "trapped (sconfig s) (clients s) side K" and "map_to_fraction e src side x y = Some t"
    and "(get_name e s src, t) \<in> K"
  shows "neighbor e s src side x y = None"
  using assms find_connected_trapped [OF assms(1,3)] by (simp add: neighbor_def)

lemma neighbor_search_trapped_witness:
  "neighbor demo_env loop_server 0 Right 64 31 = None"
proof (rule neighbor_search_trapped [where K = "{(''host'', 63/128), (''laptop'', 63/128)}" and t = "63/128"])
  show "trapped (sconfig loop_server) (clients loop_server) Right {(''host'', 63/128), (''laptop'', 63/128)}"
    unfolding trapped_def using loop_get_neighbor
    by (auto simp: loop_server_def om_get_def string_less_def simp del: demo_fields
        intro!: exI [of _ "63/128"])
qed (simp_all add: map_to_fraction_def pixel_fraction_def get_name_def loop_server_def demo_env_def loop_config_def)

text \<open>
  Where the cursor arrives. When the cursor has left its screen and is mapped to another
  one, crossing as many screens as it takes, it arrives within the destination along the
  direction of travel, or beyond its far edge when no screen follows the destination there.
\<close>

theorem cursor_arrives:
  assumes "map_to_neighbor e s src side x y = Some (Some c, x', y')"
    and "beyond side (shape_of e src) x y" and "positive_shapes e" and "0 \<le> jump_zone e"
    and "case shape_of e (primary s) of (dx, dy, dw, dh) \<Rightarrow> jump_zone e < dw \<and> jump_zone e < dh"
  shows "inside_axis side (shape_of e c) x' y' \<or>
    (beyond side (shape_of e c) x' y' \<and> dead_end e s c side)"
proof -
  obtain d x0 y0 where d: "neighbor e s src side x y = Some (Some d, x0, y0)"
    using assms(1) by (auto simp: map_to_neighbor_def split: option.splits prod.splits)
  obtain x1 y1 where t: "to_canonical side (shape_of e src) x0 y0 = (x1, y1)" by fastforce
  obtain x2 y2 where w: "walk e s side (src, Some d, x1, y1) = Some (c, x2, y2)"
    and a: "avoid_jump_zone e s c side (fst (from_canonical side (shape_of e c) x2 y2))
      (snd (from_canonical side (shape_of e c) x2 y2)) = Some (x', y')"
    using assms(1) d t by (auto simp: map_to_neighbor_def split: option.splits prod.splits)
  obtain x3 y3 where f: "from_canonical side (shape_of e c) x2 y2 = (x3, y3)" by fastforce
  have "beyond side (shape_of e src) x0 y0"
    using beyond_axis [OF assms(2) neighbor_axis [OF d]] .
  from walk_position [OF w assms(3) to_canonical_beyond [OF t this]]
  have "inside_axis side (shape_of e c) x3 y3 \<or> (beyond side (shape_of e c) x3 y3 \<and> dead_end e s c side)"
    using from_canonical_axis [OF f neighbor_side [OF d]] by simp
  with avoid_jump_zone_inside [OF a [unfolded f fst_conv snd_conv] assms(3-5)] show ?thesis by auto
qed

lemma cursor_arrives_witness:
  "inside_axis Right (shape_of demo_env 1) 0 31 \<or>
    (beyond Right (shape_of demo_env 1) 0 31 \<and> dead_end demo_env demo_server 1 Right)"
  by (rule cursor_arrives [OF demo_map_to_neighbor])
    (simp_all add: beyond_def positive_shapes_def demo_env_def)

end
