(* ===== verification/Server_Switch.thy ===== *)
theory Server_Switch
  imports Server_Map
begin

text \<open>
  Changing the active screen and sharing clipboards: \<^verbatim>\<open>isSwitchOkay\<close>, \<^verbatim>\<open>switchScreen\<close>,
  \<^verbatim>\<open>jumpToScreen\<close>, \<^verbatim>\<open>onClipboardChanged\<close>, \<^verbatim>\<open>handleClipboardGrabbed\<close> and the handler of the
  switch timer (\<^verbatim>\<open>src/lib/server/Server.cpp\<close>).
\<close>

section \<open>Clipboards of the server\<close>

definition clipboard_end :: nat where
  "clipboard_end = 2"

definition set_clip :: "nat \<Rightarrow> clip_info \<Rightarrow> ('a, 'f) server \<Rightarrow> ('a, 'f) server" where
  "set_clip k ci s = s\<lparr>clips := (clips s)[k := ci]\<rparr>"

text \<open>Marshalling opens and closes the clipboard object.\<close>

definition marshall_clip :: "nat \<Rightarrow> ('a, 'f) server \<Rightarrow> bytes \<times> ('a, 'f) server" where
  "marshall_clip k s =
     (case cb_marshall (ci_clipboard (clips s ! k)) of
        (d, c) \<Rightarrow> (d, set_clip k ((clips s ! k)\<lparr>ci_clipboard := c\<rparr>) s))"

definition tell_dirty :: "nat \<Rightarrow> cid \<Rightarrow> ('a, 'f) server \<Rightarrow> ('a, 'f) server" where
  "tell_dirty k sender s = emits (map (\<lambda>(n, c). Set_Dirty c k (c \<noteq> sender)) (clients s)) s"

definition on_clipboard_changed ::
    "env \<Rightarrow> cid \<Rightarrow> nat \<Rightarrow> u32 \<Rightarrow> ('a, 'f) server \<Rightarrow> ('a, 'f) server option" where
  "on_clipboard_changed e sender k seqNum s =
     (if clipboard_end \<le> k then None
      else
        let ci = clips s ! k in
        if seqNum < ci_seq ci then Some s
        else if om_get string_less (ci_owner ci) (clients s) \<noteq> Some sender then None
        else
          let s1 = set_clip k (ci\<lparr>ci_clipboard := read_clip e sender k (ci_clipboard ci)\<rparr>) s in
          case marshall_clip k s1 of (data, s2) \<Rightarrow>
            if max_clip_size s2 < length data then Some s2
            else if data = ci_data (clips s2 ! k) then Some s2
            else
              let s3 = set_clip k ((clips s2 ! k)\<lparr>ci_data := data\<rparr>) s2;
                  s4 = tell_dirty k sender s3
              in Some (emit (Set_Clipboard (active s4) k (ci_clipboard (clips s4 ! k))) s4))"

definition clear_clip :: "nat \<Rightarrow> ('a, 'f) server \<Rightarrow> ('a, 'f) server" where
  "clear_clip k s =
     (let ci = clips s ! k;
          c = (case cb_do_open 0 (ci_clipboard ci) of (ok, c1) \<Rightarrow>
                 if ok then cb_do_close (snd (cb_do_empty c1)) else c1);
          s1 = set_clip k (ci\<lparr>ci_clipboard := c\<rparr>) s
      in case marshall_clip k s1 of (data, s2) \<Rightarrow> set_clip k ((clips s2 ! k)\<lparr>ci_data := data\<rparr>) s2)"

definition tell_grabbed :: "nat \<Rightarrow> cid \<Rightarrow> ('a, 'f) server \<Rightarrow> ('a, 'f) server" where
  "tell_grabbed k grabber s =
     emits (map (\<lambda>(n, c). if c = grabber then Set_Dirty c k False else Grab_Clipboard c k) (clients s)) s"

definition handle_clipboard_grabbed ::
    "env \<Rightarrow> cid \<Rightarrow> nat \<Rightarrow> u32 \<Rightarrow> ('a, 'f) server \<Rightarrow> ('a, 'f) server option" where
  "handle_clipboard_grabbed e grabber k seqNum s =
     (if \<not> enable_clip s \<or> max_clip_size s = 0 then Some s
      else if grabber \<notin> client_set s then Some s
      else if clipboard_end \<le> k then None
      else if grabber \<noteq> primary s \<and> seqNum < ci_seq (clips s ! k) then Some s
      else
        let s1 = set_clip k ((clips s ! k)\<lparr>ci_owner := get_name e s grabber, ci_seq := seqNum\<rparr>) s;
            s2 = clear_clip k s1;
            s3 = tell_grabbed k grabber s2
        in
        if grabber = primary s3 \<and> active s3 \<noteq> primary s3
        then on_clipboard_changed e (primary s3) k (ci_seq (clips s3 ! k)) s3
        else Some s3)"

definition handle_clipboard_changed ::
    "env \<Rightarrow> cid \<Rightarrow> nat \<Rightarrow> u32 \<Rightarrow> ('a, 'f) server \<Rightarrow> ('a, 'f) server option" where
  "handle_clipboard_changed e c k seqNum s =
     (if c \<notin> client_set s then Some s else on_clipboard_changed e c k seqNum s)"

section \<open>Switching\<close>

text \<open>Before the primary screen is left its clipboards are brought up to date.\<close>

definition update_primary_clip :: "env \<Rightarrow> nat \<Rightarrow> ('a, 'f) server \<Rightarrow> ('a, 'f) server option" where
  "update_primary_clip e k s =
     (if ci_owner (clips s ! k) = get_name e s (primary s)
      then on_clipboard_changed e (primary s) k (ci_seq (clips s ! k)) s
      else Some s)"

definition send_clip :: "nat \<Rightarrow> ('a, 'f) server \<Rightarrow> ('a, 'f) server" where
  "send_clip k s =
     (case marshall_clip k s of (data, s1) \<Rightarrow>
        if max_clip_size s1 < length data then s1
        else emit (Set_Clipboard (active s1) k (ci_clipboard (clips s1 ! k))) s1)"

definition enter_screen :: "env \<Rightarrow> cid \<Rightarrow> int \<Rightarrow> int \<Rightarrow> bool \<Rightarrow> ('a, 'f) server \<Rightarrow> ('a, 'f) server" where
  "enter_screen e dst x y forScreensaver s =
     (let s1 = s\<lparr>active := dst, seq_num := seq_num s + 1\<rparr>;
          s2 = emit (Enter dst x y (seq_num s1) (toggle_mask e) forScreensaver) s1;
          s3 = (if enable_clip s2 then send_clip 1 (send_clip 0 s2) else s2)
      in emit (Post_Screen_Switched (name_of e dst)) s3)"

definition switch_screen_to ::
    "env \<Rightarrow> cid \<Rightarrow> int \<Rightarrow> int \<Rightarrow> bool \<Rightarrow> ('a, 'f) server \<Rightarrow> ('a, 'f) server option" where
  "switch_screen_to e dst x y forScreensaver s =
     (let s1 = (stop_switch s)\<lparr>mx := x, my := y, xDelta := 0, yDelta := 0, xDelta2 := 0, yDelta2 := 0\<rparr> in
      if active s1 = dst then Some (emit (Mouse_Move dst x y) s1)
      else
        let s2 = emit (Leave (active s1)) s1 in
        if \<not> can_leave e (active s2) then Some s2
        else
          map_option (enter_screen e dst x y forScreensaver)
            (if active s2 = primary s2 \<and> enable_clip s2
             then Option.bind (update_primary_clip e 0 s2) (update_primary_clip e 1)
             else Some s2))"

definition jump_to_screen :: "env \<Rightarrow> cid \<Rightarrow> ('a, 'f) server \<Rightarrow> ('a, 'f) server option" where
  "jump_to_screen e newScreen s =
     (let s1 = s\<lparr>jump_pos := (jump_pos s)(active s := (mx s, my s))\<rparr> in
      case jump_pos s1 newScreen of (x, y) \<Rightarrow> switch_screen_to e newScreen x y False s1)"

section \<open>May the cursor switch?\<close>

definition corner_options :: "env \<Rightarrow> ('a, 'f) server \<Rightarrow> screen_options option" where
  "corner_options e s =
     (case get_options (get_name e s (active s)) (sconfig s) of
        Some os \<Rightarrow> if om_contains (<) kOptionScreenSwitchCorners os then Some os
                  else get_options [] (sconfig s)
      | None \<Rightarrow> get_options [] (sconfig s))"

definition in_locked_corner :: "env \<Rightarrow> int \<Rightarrow> int \<Rightarrow> ('a, 'f) server \<Rightarrow> bool" where
  "in_locked_corner e xActive yActive s =
     (case corner_options e s of
        None \<Rightarrow> False
      | Some os \<Rightarrow>
          (case om_get (<) kOptionScreenSwitchCorners os of
             None \<Rightarrow> False
           | Some corners \<Rightarrow>
               let sz = (case om_get (<) kOptionScreenSwitchCornerSize os of None \<Rightarrow> 0 | Some v \<Rightarrow> sint v)
               in get_corner e (active s) xActive yActive sz AND corners \<noteq> 0))"

definition is_switch_okay ::
    "env \<Rightarrow> cid option \<Rightarrow> direction \<Rightarrow> int \<Rightarrow> int \<Rightarrow> int \<Rightarrow> int \<Rightarrow> ('a, 'f) server \<Rightarrow>
     bool \<times> ('a, 'f) server" where
  "is_switch_okay e newScreen dir x y xActive yActive s =
     (case newScreen of
        None \<Rightarrow> (False, stop_switch s)
      | Some _ \<Rightarrow>
          let isNew = (dir \<noteq> switch_dir s);
              s1 = (if isNew \<or> switch_screen s = None
                    then s\<lparr>switch_dir := dir, switch_screen := newScreen\<rparr> else s);
              tapped = (tap_delay s1 > 0 \<and> \<not> (isNew \<or> \<not> tap_engaged s1 \<or> \<not> should_switch_tap e s1));
              prevent1 = (tap_delay s1 > 0 \<and> \<not> tapped);
              s2 = (if prevent1 then start_tap e s1 else s1);
              waiting = (\<not> tapped \<and> wait_delay s2 > 0);
              s3 = (if waiting \<and> (isNew \<or> wait_timer s2 = None) then start_wait x y s2 else s2);
              cornered = in_locked_corner e xActive yActive s3;
              s4 = (if cornered then stop_switch s3 else s3);
              prevent2 = (prevent1 \<or> waiting \<or> cornered);
              isLocked = (\<not> prevent2 \<and> is_locked_to_screen e s4);
              s5 = (if isLocked then stop_switch s4 else s4)
          in (\<not> (prevent2 \<or> isLocked), s5))"

definition handle_switch_wait_timeout :: "env \<Rightarrow> ('a, 'f) server \<Rightarrow> ('a, 'f) server option" where
  "handle_switch_wait_timeout e s =
     (if is_locked_to_screen e s then Some (stop_switch s)
      else case switch_screen s of
        None \<Rightarrow> None
      | Some dst \<Rightarrow> switch_screen_to e dst (wait_x s) (wait_y s) False s)"

end
