(* ===== verification/Server_Clients.thy ===== *)
theory Server_Clients
  imports Server_Switch
begin

text \<open>
  Connections of the server: adding, closing and removing clients, leaving a screen whose
  client is gone, taking over a configuration, and placing an unknown screen automatically
  (\<^verbatim>\<open>src/lib/server/Server.cpp\<close>). The configuration file that \<^verbatim>\<open>adoptClient\<close> reads and writes
  is an argument: the parsed layout, and whether encoding and saving succeed.
\<close>

section \<open>Client list\<close>

definition add_client :: "env \<Rightarrow> cid \<Rightarrow> ('a, 'f) server \<Rightarrow> bool \<times> ('a, 'f) server" where
  "add_client e c s =
     (let name = get_name e s c in
      if om_contains string_less name (clients s) then (False, s)
      else
        let s1 = emit (Add_Client_Handlers c) s;
            s2 = s1\<lparr>client_set := insert c (client_set s1),
                    clients := om_emplace string_less name c (clients s1)\<rparr>;
            s3 = s2\<lparr>jump_pos := (jump_pos s2)(c := cursor_of e c)\<rparr>
        in (True, reconfigure_primary e s3))"

definition remove_client :: "env \<Rightarrow> cid \<Rightarrow> ('a, 'f) server \<Rightarrow> bool \<times> ('a, 'f) server" where
  "remove_client e c s =
     (if c \<notin> client_set s then (False, s)
      else
        let s1 = emit (Remove_Client_Handlers c) s in
        (True, s1\<lparr>clients := om_erase string_less (get_name e s1 c) (clients s1),
                  client_set := client_set s1 - {c}\<rparr>))"

definition force_leave_client :: "env \<Rightarrow> cid \<Rightarrow> ('a, 'f) server \<Rightarrow> ('a, 'f) server" where
  "force_leave_client e c s =
     (let s1 = (if switch_screen s = Some c then stop_switch s else s);
          act = (case active_saver s1 of None \<Rightarrow> active s1 | Some a \<Rightarrow> a);
          s2 = (if act = c then
                  let s' = s1\<lparr>mx := fst (cursor_center e), my := snd (cursor_center e), active := primary s1\<rparr> in
                  if active_saver s' = None
                  then emit (Enter (primary s') (mx s') (my s') (seq_num s') (toggle_mask e) False) s'
                  else s'
                else s1);
          s3 = (if active_saver s2 = Some c then s2\<lparr>active_saver := None\<rparr> else s2)
      in reconfigure_primary e (emit Release_Buttons s3))"

definition close_client :: "env \<Rightarrow> cid \<Rightarrow> string \<Rightarrow> ('a, 'f) server \<Rightarrow> ('a, 'f) server option" where
  "close_client e c msg s =
     (if c = primary s then None
      else
        let s1 = emit (Close_Client c msg) s;
            t = next_timer s1;
            s2 = emit (New_Timer t) (s1\<lparr>next_timer := Suc t\<rparr>);
            s3 = snd (remove_client e c s2);
            s4 = s3\<lparr>old_clients := om_emplace (<) c t (old_clients s3)\<rparr>
        in Some (force_leave_client e c s4))"

fun close_all :: "env \<Rightarrow> string \<Rightarrow> cid list \<Rightarrow> ('a, 'f) server \<Rightarrow> ('a, 'f) server option" where
  "close_all e msg [] s = Some s"
| "close_all e msg (c # cs) s =
     (case close_client e c msg s of None \<Rightarrow> None | Some s' \<Rightarrow> close_all e msg cs s')"

text \<open>The clients whose name is not canonical in the new configuration, in pointer order.\<close>

definition dropped_clients :: "('a, 'f) config \<Rightarrow> ('a, 'f) server \<Rightarrow> cid list" where
  "dropped_clients cfg s =
     filter (\<lambda>c. c \<noteq> primary s)
       (sort (remdups (map snd (filter (\<lambda>(n, c). \<not> is_canonical_name n cfg) (clients s)))))"

definition close_clients :: "env \<Rightarrow> ('a, 'f) config \<Rightarrow> ('a, 'f) server \<Rightarrow> ('a, 'f) server option" where
  "close_clients e cfg s = close_all e ''CBYE'' (dropped_clients cfg s) s"

definition remove_active_client :: "env \<Rightarrow> cid \<Rightarrow> ('a, 'f) server \<Rightarrow> ('a, 'f) server" where
  "remove_active_client e c s =
     (case remove_client e c s of (ok, s1) \<Rightarrow>
        if \<not> ok then s1
        else
          let s2 = emit (Remove_Disconnect_Handler c) (force_leave_client e c s1) in
          if length (clients s2) = 1 \<and> old_clients s2 = [] then emit Post_Disconnected s2 else s2)"

definition remove_old_client :: "cid \<Rightarrow> ('a, 'f) server \<Rightarrow> ('a, 'f) server" where
  "remove_old_client c s =
     (case om_get (<) c (old_clients s) of
        None \<Rightarrow> s
      | Some t \<Rightarrow>
          let s1 = emits [Remove_Disconnect_Handler c, Remove_Timer_Handler t, Delete_Timer t]
                     (s\<lparr>old_clients := om_erase (<) c (old_clients s)\<rparr>)
          in if length (clients s1) = 1 \<and> old_clients s1 = [] then emit Post_Disconnected s1 else s1)"

definition handle_client_disconnected :: "env \<Rightarrow> cid \<Rightarrow> ('a, 'f) server \<Rightarrow> ('a, 'f) server" where
  "handle_client_disconnected e c s =
     (let s1 = remove_old_client c (remove_active_client e c s);
          s2 = emit (Ipc_Connected (1 < length (clients s1))) s1
      in emit (Delete_Client c) (connected_clients_ipc e s2))"

definition handle_client_close_timeout :: "cid \<Rightarrow> ('a, 'f) server \<Rightarrow> ('a, 'f) server" where
  "handle_client_close_timeout c s = emit (Delete_Client c) (remove_old_client c s)"

definition disconnect_all :: "env \<Rightarrow> ('a, 'f) config \<Rightarrow> ('a, 'f) server \<Rightarrow> ('a, 'f) server option" where
  "disconnect_all e empty_config s =
     (if 1 < length (clients s) \<or> old_clients s \<noteq> [] then close_clients e empty_config s
      else Some (emit Post_Disconnected s))"

section \<open>Taking over a configuration\<close>

definition set_config :: "env \<Rightarrow> ('a, 'f) config \<Rightarrow> ('a, 'f) server \<Rightarrow> (bool \<times> ('a, 'f) server) option" where
  "set_config e cfg s =
     (if \<not> is_screen (name_of e (primary s)) cfg then Some (False, s)
      else
        case close_clients e cfg s of
          None \<Rightarrow> None
        | Some s1 \<Rightarrow>
            let s2 = process_options e s1;
                s3 = (if \<not> disable_lock s2 \<and> \<not> cfg_has_lock (sconfig s2) then emit Add_Scroll_Lock_Rule s2 else s2);
                s4 = reconfigure_primary e (emit Publish_Layout s3)
            in Some (True, fold (send_options e) (map snd (clients s4)) s4))"

section \<open>Automatic placement\<close>

definition opposite :: "direction \<Rightarrow> direction" where
  "opposite d = (if d = Right then Left else if d = Left then Right else if d = Bottom then Top else Bottom)"

definition free_side :: "string \<Rightarrow> ('a, 'f) config \<Rightarrow> direction option" where
  "free_side screen cfg =
     find (\<lambda>d. has_neighbor screen d cfg \<noteq> Some True) [Right, Left, Bottom, Top]"

definition link_pair ::
    "string \<Rightarrow> direction \<Rightarrow> string \<Rightarrow> ('a, 'f) config \<Rightarrow> (bool \<times> ('a, 'f) config) option" where
  "link_pair anchor d name cfg =
     (case connect anchor d 0 1 name 0 1 cfg of
        None \<Rightarrow> None
      | Some (ok, cfg1) \<Rightarrow>
          if \<not> ok then Some (False, cfg1)
          else connect name (opposite d) 0 1 anchor 0 1 cfg1)"

text \<open>
  The search for a free edge: \<^verbatim>\<open>placedAnchor\<close>, \<^verbatim>\<open>placedDirection\<close>, \<^verbatim>\<open>placed\<close> and the
  detached configuration. Every screen offers its first free side only.
\<close>

fun place ::
    "(string \<Rightarrow> string list) \<Rightarrow> string \<Rightarrow> string list \<Rightarrow> string \<times> direction \<times> bool \<Rightarrow> ('a, 'f) config \<Rightarrow>
     ((string \<times> direction \<times> bool) \<times> ('a, 'f) config) option" where
  "place al name [] r cfg = Some (r, cfg)"
| "place al name (screen # rest) r cfg =
     (if snd (snd r) then Some (r, cfg)
      else case free_side screen cfg of
        None \<Rightarrow> place al name rest r cfg
      | Some d \<Rightarrow>
          (case add_screen al name cfg of (added, cfg1) \<Rightarrow>
             if \<not> added then place al name rest (screen, d, False) cfg1
             else case link_pair screen d name cfg1 of
               None \<Rightarrow> None
             | Some (ok, cfg2) \<Rightarrow> place al name rest (screen, d, ok) cfg2))"

definition plain_screen_name :: "string \<Rightarrow> bool" where
  "plain_screen_name name \<longleftrightarrow>
     name \<noteq> [] \<and> list_all (\<lambda>c. is_alnum c \<or> c = CHR ''_'' \<or> c = CHR ''.'' \<or> c = CHR ''-'') name"

definition apply_placement ::
    "(string \<Rightarrow> string list) \<Rightarrow> string \<Rightarrow> string \<Rightarrow> direction \<Rightarrow> ('a, 'f) config \<Rightarrow> ('a, 'f) config option" where
  "apply_placement al name anchor d cfg =
     (case connect anchor d 0 1 name 0 1 (snd (add_screen al name cfg)) of
        None \<Rightarrow> None
      | Some (_, cfg1) \<Rightarrow> map_option snd (connect name (opposite d) 0 1 anchor 0 1 cfg1))"

definition welcome_client :: "env \<Rightarrow> cid \<Rightarrow> ('a, 'f) server \<Rightarrow> ('a, 'f) server option" where
  "welcome_client e c s =
     (case add_client e c s of (ok, s1) \<Rightarrow>
        if \<not> ok then close_client e c ''EBSY'' s1
        else
          let s2 = connected_clients_ipc e (emit (Ipc_Connected True) s1);
              s3 = send_options e c s2;
              s4 = (if active_saver s3 \<noteq> None then emit (Screensaver c True) s3 else s3)
          in Some (emit (Post_Connected (get_name e s4 c)) s4))"

text \<open>
  The configuration file as \<^verbatim>\<open>adoptClient\<close> finds it: it cannot be opened, the reader throws, which
  nothing in \<^verbatim>\<open>adoptClient\<close> or the event loop catches, or it is read.
\<close>

datatype ('a, 'f) layout_file = Unreadable | Malformed | Readable "('a, 'f) config"

definition adopt_client ::
    "env \<Rightarrow> (string \<Rightarrow> string list) \<Rightarrow> ('a, 'f) layout_file \<Rightarrow> bool \<Rightarrow> bool \<Rightarrow> cid \<Rightarrow>
     ('a, 'f) server \<Rightarrow> ('a, 'f) server option" where
  "adopt_client e al file_config encoded saved c s =
     (let s1 = emit (Add_Disconnect_Handler c) s; name = name_of e c in
      if is_screen name (sconfig s1) then welcome_client e c s1
      else if \<not> plain_screen_name name then close_client e c ''EUNK'' s1
      else case file_config of
        Unreadable \<Rightarrow> close_client e c ''EUNK'' s1
      | Malformed \<Rightarrow> None
      | Readable cfg \<Rightarrow>
          (case place al name (screens cfg) ([], NoDirection, False) cfg of
             None \<Rightarrow> None
           | Some ((anchor, d, placed), _) \<Rightarrow>
               if \<not> encoded then close_client e c ''EUNK'' s1
               else if \<not> placed \<or> \<not> saved then close_client e c ''EUNK'' s1
               else case apply_placement al name anchor d (sconfig s1) of
                 None \<Rightarrow> None
               | Some cfg' \<Rightarrow> welcome_client e c (emit Publish_Layout (s1\<lparr>sconfig := cfg'\<rparr>))))"

end
