(* ===== verification/Server_Handlers.thy ===== *)
theory Server_Handlers
  imports Server_Clients
begin

text \<open>
  The event handlers of \<^verbatim>\<open>src/lib/server/Server.cpp\<close>: mouse motion on the primary and on a
  secondary screen, keys and buttons, the screen saver, locking, broadcasting, explicit switches
  and shape changes.
\<close>

section \<open>Mouse motion\<close>

text \<open>The jump zone pushes a position at an edge out of the screen, or onto its border.\<close>

definition clamp_zone :: "int \<Rightarrow> int \<Rightarrow> int \<Rightarrow> int \<Rightarrow> int" where
  "clamp_zone p start extent z =
     (if p < start + z then start else if start + extent - z \<le> p then start + extent - 1 else p)"

definition try_direction ::
    "env \<Rightarrow> direction \<Rightarrow> int \<Rightarrow> int \<Rightarrow> int \<Rightarrow> int \<Rightarrow> ('a, 'f) server \<Rightarrow> (bool \<times> ('a, 'f) server) option" where
  "try_direction e dir x y xc yc s =
     (if dir = NoDirection then Some (False, s)
      else case map_to_neighbor e s (active s) dir x y of
        None \<Rightarrow> None
      | Some (newScreen, x', y') \<Rightarrow>
          (case is_switch_okay e newScreen dir x' y' xc yc s of
             (False, s1) \<Rightarrow> Some (False, s1)
           | (True, s1) \<Rightarrow>
               (case newScreen of
                  None \<Rightarrow> None
                | Some dst \<Rightarrow> map_option (Pair True) (switch_screen_to e dst x' y' False s1))))"

definition on_mouse_move_primary ::
    "env \<Rightarrow> int \<Rightarrow> int \<Rightarrow> ('a, 'f) server \<Rightarrow> (bool \<times> ('a, 'f) server) option" where
  "on_mouse_move_primary e x y s =
     (if active s \<noteq> primary s then Some (False, s)
      else
        let s1 = s\<lparr>xDelta2 := xDelta s, yDelta2 := yDelta s, xDelta := x - mx s, yDelta := y - my s,
                   mx := x, my := y\<rparr>;
            z = jump_zone_size e s1 (active s1)
        in case shape_of e (active s1) of (ax, ay, aw, ah) \<Rightarrow>
          let xc = clamp_zone x ax aw z; yc = clamp_zone y ay ah z;
              (dirh, xh) = (if x < ax + z then (Left, x - z)
                            else if ax + aw - z \<le> x then (Right, x + z) else (NoDirection, x));
              (dirv, yv) = (if y < ay + z then (Top, y - z)
                            else if ay + ah - z \<le> y then (Bottom, y + z) else (NoDirection, y))
          in
          if dirh = NoDirection \<and> dirv = NoDirection then Some (False, no_switch e x y s1)
          else case try_direction e dirh xh y xc yc s1 of
            None \<Rightarrow> None
          | Some (True, s2) \<Rightarrow> Some (True, s2)
          | Some (False, s2) \<Rightarrow> try_direction e dirv x yv xc yc s2)"

definition clamp :: "int \<Rightarrow> int \<Rightarrow> int \<Rightarrow> int" where
  "clamp p start extent =
     (if p < start then start else if start + extent - 1 < p then start + extent - 1 else p)"

text \<open>The environment variable that scales the motion, and rounding half away from zero.\<close>

definition adjust_delta :: "rat option \<Rightarrow> int \<Rightarrow> int" where
  "adjust_delta multiplier d =
     (case multiplier of None \<Rightarrow> d
      | Some m \<Rightarrow> let r = of_int d * m in if 0 \<le> r then \<lfloor>r + 1/2\<rfloor> else - \<lfloor>- r + 1/2\<rfloor>)"

definition exit_direction :: "shape \<Rightarrow> int \<Rightarrow> int \<Rightarrow> direction" where
  "exit_direction sh x y =
     (case sh of (ax, ay, aw, ah) \<Rightarrow>
        if x < ax then Left else if ax + aw - 1 < x then Right
        else if y < ay then Top else if ay + ah - 1 < y then Bottom else NoDirection)"

text \<open>Whether a pending switch is called off because the cursor is off the border.\<close>

definition clear_wait :: "env \<Rightarrow> shape \<Rightarrow> ('a, 'f) server \<Rightarrow> bool" where
  "clear_wait e sh s =
     (case sh of (ax, ay, aw, ah) \<Rightarrow>
        (case switch_dir s of
           Left \<Rightarrow> ax + jump_zone e \<le> mx s
         | Right \<Rightarrow> mx s \<le> ax + aw - 1 - jump_zone e
         | Top \<Rightarrow> ay + jump_zone e \<le> my s
         | Bottom \<Rightarrow> my s \<le> ay + ah - 1 + jump_zone e
         | NoDirection \<Rightarrow> False))"

text \<open>The cursor stays: it is clamped to the active screen and warped if it moved.\<close>

definition stay_on_screen :: "shape \<Rightarrow> int \<Rightarrow> int \<Rightarrow> int \<Rightarrow> int \<Rightarrow> ('a, 'f) server \<Rightarrow> ('a, 'f) server" where
  "stay_on_screen sh xOld yOld dx dy s =
     (case sh of (ax, ay, aw, ah) \<Rightarrow>
        let s1 = s\<lparr>mx := clamp (xOld + dx) ax aw, my := clamp (yOld + dy) ay ah\<rparr> in
        if mx s1 \<noteq> xOld \<or> my s1 \<noteq> yOld then emit (Mouse_Move (active s1) (mx s1) (my s1)) s1 else s1)"

definition on_mouse_move_secondary ::
    "env \<Rightarrow> rat option \<Rightarrow> int \<Rightarrow> int \<Rightarrow> ('a, 'f) server \<Rightarrow> ('a, 'f) server option" where
  "on_mouse_move_secondary e multiplier dx0 dy0 s =
     (let dx = adjust_delta multiplier dx0; dy = adjust_delta multiplier dy0 in
      if active s = primary s then Some s
      else if relative_moves s \<and> is_locked_server s then Some (emit (Mouse_Relative (active s) dx dy) s)
      else
        let xOld = mx s; yOld = my s;
            s1 = s\<lparr>xDelta2 := xDelta s, yDelta2 := yDelta s, xDelta := dx, yDelta := dy,
                   mx := mx s + dx, my := my s + dy\<rparr>;
            sh = shape_of e (active s1);
            dir = exit_direction sh (mx s1) (my s1)
        in case sh of (ax, ay, aw, ah) \<Rightarrow>
          if dir = NoDirection then
            let s2 = (if switch_screen s1 \<noteq> None \<and> clear_wait e sh s1 then no_switch e (mx s1) (my s1) s1 else s1)
            in Some (stay_on_screen sh xOld yOld dx dy s2)
          else
            case map_to_neighbor e s1 (active s1) dir (mx s1) (my s1) of
              None \<Rightarrow> None
            | Some (newScreen, x', y') \<Rightarrow>
                let s2 = s1\<lparr>mx := x', my := y'\<rparr> in
                (case is_switch_okay e newScreen dir x' y' (clamp (mx s1) ax aw) (clamp (my s1) ay ah) s2 of
                   (False, s3) \<Rightarrow> Some (stay_on_screen sh xOld yOld dx dy s3)
                 | (True, s3) \<Rightarrow>
                     (case newScreen of
                        None \<Rightarrow> None
                      | Some dst \<Rightarrow> switch_screen_to e dst x' y' False s3)))"

section \<open>Keys, buttons and wheel\<close>

text \<open>
  Who receives a key: the active screen, or the screens a destination string names. \<open>screens\<close>
  is the \<^verbatim>\<open>const char *\<close> argument.
\<close>

definition key_targets :: "string option \<Rightarrow> ('a, 'f) server \<Rightarrow> cid list" where
  "key_targets scr s =
     (if \<not> kb_broadcasting s \<and> is_default scr then [active s]
      else
        let scr1 = (if scr = None \<and> kb_broadcasting s
                    then (if is_default (Some (kb_screens s)) then Some ''*'' else Some (kb_screens s))
                    else scr)
        in map snd (filter (\<lambda>(n, c). ki_contains scr1 n) (clients s)))"

definition on_key_down ::
    "u32 \<Rightarrow> u32 \<Rightarrow> u16 \<Rightarrow> string \<Rightarrow> string option \<Rightarrow> ('a, 'f) server \<Rightarrow> ('a, 'f) server" where
  "on_key_down key m button lang scr s = emits (map (\<lambda>c. Key_Down c key m button lang) (key_targets scr s)) s"

definition on_key_up :: "u32 \<Rightarrow> u32 \<Rightarrow> u16 \<Rightarrow> string option \<Rightarrow> ('a, 'f) server \<Rightarrow> ('a, 'f) server" where
  "on_key_up key m button scr s = emits (map (\<lambda>c. Key_Up c key m button) (key_targets scr s)) s"

definition on_key_repeat :: "u32 \<Rightarrow> u32 \<Rightarrow> int \<Rightarrow> u16 \<Rightarrow> string \<Rightarrow> ('a, 'f) server \<Rightarrow> ('a, 'f) server" where
  "on_key_repeat key m count button lang s = emit (Key_Repeat (active s) key m count button lang) s"

text \<open>The handlers pass the event's string as a \<^verbatim>\<open>c_str()\<close>, which is never null.\<close>

definition handle_key_down :: "string \<Rightarrow> key_info \<Rightarrow> ('a, 'f) server \<Rightarrow> ('a, 'f) server" where
  "handle_key_down lang i s = on_key_down (ki_key i) (ki_mask i) (ki_button i) lang (Some (ki_screens i)) s"

definition handle_key_up :: "key_info \<Rightarrow> ('a, 'f) server \<Rightarrow> ('a, 'f) server" where
  "handle_key_up i s = on_key_up (ki_key i) (ki_mask i) (ki_button i) (Some (ki_screens i)) s"

definition handle_key_repeat :: "string \<Rightarrow> key_info \<Rightarrow> ('a, 'f) server \<Rightarrow> ('a, 'f) server" where
  "handle_key_repeat lang i s = on_key_repeat (ki_key i) (ki_mask i) (ki_count i) (ki_button i) lang s"

definition on_mouse_down :: "nat \<Rightarrow> ('a, 'f) server \<Rightarrow> ('a, 'f) server" where
  "on_mouse_down b s = emit (Mouse_Down (active s) b) s"

definition on_mouse_up :: "nat \<Rightarrow> ('a, 'f) server \<Rightarrow> ('a, 'f) server" where
  "on_mouse_up b s = emit (Mouse_Up (active s) b) s"

definition on_mouse_wheel :: "int \<Rightarrow> int \<Rightarrow> ('a, 'f) server \<Rightarrow> ('a, 'f) server" where
  "on_mouse_wheel dx dy s = emit (Mouse_Wheel (active s) dx dy) s"

section \<open>Screen saver\<close>

definition zone_clamp :: "int \<Rightarrow> int \<Rightarrow> int \<Rightarrow> int \<Rightarrow> int" where
  "zone_clamp p start extent z =
     (if p < start + z then start + z
      else if start + extent - z \<le> p then start + extent - z - 1 else p)"

definition tell_screensaver :: "bool \<Rightarrow> ('a, 'f) server \<Rightarrow> ('a, 'f) server" where
  "tell_screensaver activated s = emits (map (\<lambda>(n, c). Screensaver c activated) (clients s)) s"

definition on_screensaver :: "env \<Rightarrow> bool \<Rightarrow> ('a, 'f) server \<Rightarrow> ('a, 'f) server option" where
  "on_screensaver e activated s =
     map_option (tell_screensaver activated)
       (if activated then
          let s1 = s\<lparr>active_saver := Some (active s), xSaver := mx s, ySaver := my s\<rparr> in
          if active s1 \<noteq> primary s1 then switch_screen_to e (primary s1) 0 0 True s1 else Some s1
        else
          map_option (\<lambda>s2. s2\<lparr>active_saver := None\<rparr>)
            (case active_saver s of
               None \<Rightarrow> Some s
             | Some screen \<Rightarrow>
                 if screen = primary s then Some s
                 else case shape_of e screen of (x, y, w, h) \<Rightarrow>
                   let z = jump_zone_size e s screen;
                       s1 = s\<lparr>xSaver := zone_clamp (xSaver s) x w z, ySaver := zone_clamp (ySaver s) y h z\<rparr>
                   in switch_screen_to e screen (xSaver s1) (ySaver s1) False s1))"

section \<open>Locking and broadcasting\<close>

datatype toggle = Toggle_Off | Toggle_On | Toggle_Flip

definition toggled :: "toggle \<Rightarrow> bool \<Rightarrow> bool" where
  "toggled t b = (case t of Toggle_On \<Rightarrow> True | Toggle_Off \<Rightarrow> False | Toggle_Flip \<Rightarrow> \<not> b)"

definition handle_keyboard_broadcast :: "toggle \<Rightarrow> string \<Rightarrow> ('a, 'f) server \<Rightarrow> ('a, 'f) server" where
  "handle_keyboard_broadcast t scr s =
     (let b = toggled t (kb_broadcasting s) in
      if b \<noteq> kb_broadcasting s \<or> scr \<noteq> kb_screens s
      then s\<lparr>kb_broadcasting := b, kb_screens := scr\<rparr> else s)"

definition handle_lock_cursor :: "env \<Rightarrow> toggle \<Rightarrow> ('a, 'f) server \<Rightarrow> ('a, 'f) server" where
  "handle_lock_cursor e t s =
     (let b = toggled t (locked s) in
      if b = locked s then s
      else
        let s1 = reconfigure_primary e (s\<lparr>locked := b\<rparr>) in
        if \<not> is_locked_server s1 then stop_relative_moves e s1 else s1)"

section \<open>Explicit switches\<close>

definition handle_switch_to_screen :: "env \<Rightarrow> string \<Rightarrow> ('a, 'f) server \<Rightarrow> ('a, 'f) server option" where
  "handle_switch_to_screen e name s =
     (case om_get string_less name (clients s) of None \<Rightarrow> Some s | Some c \<Rightarrow> jump_to_screen e c s)"

definition handle_switch_in_direction :: "env \<Rightarrow> direction \<Rightarrow> ('a, 'f) server \<Rightarrow> ('a, 'f) server option" where
  "handle_switch_in_direction e dir s =
     (case neighbor e s (active s) dir (mx s) (my s) of
        None \<Rightarrow> None
      | Some (None, _, _) \<Rightarrow> Some s
      | Some (Some c, _, _) \<Rightarrow> jump_to_screen e c s)"

text \<open>The name after the given one in the list, cyclically; \<^const>\<open>None\<close> if it is not listed.\<close>

definition next_name :: "string \<Rightarrow> string list \<Rightarrow> string option" where
  "next_name n ns =
     (case dropWhile (\<lambda>m. m \<noteq> n) ns of
        [] \<Rightarrow> None
      | _ # [] \<Rightarrow> Some (hd ns)
      | _ # m # _ \<Rightarrow> Some m)"

definition handle_toggle_screen :: "env \<Rightarrow> ('a, 'f) server \<Rightarrow> ('a, 'f) server option" where
  "handle_toggle_screen e s =
     (if length (get_clients s) < 2 then Some s
      else case next_name (get_name e s (active s)) (get_clients s) of
        None \<Rightarrow> Some s
      | Some n \<Rightarrow>
          (case om_get string_less n (clients s) of None \<Rightarrow> Some s | Some c \<Rightarrow> jump_to_screen e c s))"

section \<open>Shapes and emergencies\<close>

definition handle_shape_changed :: "env \<Rightarrow> rat option \<Rightarrow> cid \<Rightarrow> ('a, 'f) server \<Rightarrow> ('a, 'f) server option" where
  "handle_shape_changed e multiplier c s =
     (if c \<notin> client_set s then Some s
      else
        let (x, y) = cursor_of e c;
            s1 = s\<lparr>jump_pos := (jump_pos s)(c := (x, y))\<rparr>;
            s2 = (if c = active s1 then s1\<lparr>mx := x, my := y\<rparr> else s1)
        in
        if c = primary s2 then
          (if c = active s2 then map_option snd (on_mouse_move_primary e (mx s2) (my s2) s2)
           else on_mouse_move_secondary e multiplier 0 0 s2)
        else Some s2)"

text \<open>The buttons from \<^verbatim>\<open>kButtonLeft\<close> to \<^verbatim>\<open>kButtonExtra1\<close> are released first.\<close>

definition emergency_buttons :: "nat list" where
  "emergency_buttons = [1, 2, 3, 4, 5]"

definition handle_emergency_return :: "env \<Rightarrow> ('a, 'f) server \<Rightarrow> ('a, 'f) server option" where
  "handle_emergency_return e s =
     (let s1 = stop_relative_moves e (stop_switch (s\<lparr>kb_broadcasting := False, locked := False\<rparr>));
          s2 = (if active s1 \<noteq> primary s1
                then emits (map (Mouse_Up (active s1)) emergency_buttons) s1 else s1)
      in case shape_of e (primary s2) of (x, y, w, h) \<Rightarrow>
        map_option (reconfigure_primary e)
          (switch_screen_to e (primary s2) (x + w div 2) (y + h div 2) False s2))"

end
