(* ===== verification/Server_Inv.thy ===== *)
theory Server_Inv
  imports Server_Handlers
begin

text \<open>
  The invariant of the server's client tables and pending switches, and that every handler
  keeps it. The invariant speaks of a few fields only, its core; an operation that does not
  touch the core keeps it by one rewrite.
\<close>

section \<open>The core of the state\<close>

definition client_name :: "(cid \<Rightarrow> string) \<Rightarrow> ('a, 'f) config \<Rightarrow> cid \<Rightarrow> string" where
  "client_name nm cfg c =
     (let name = get_canonical_name (nm c) cfg in if name = [] then nm c else name)"

lemma get_name_client_name: "get_name e s c = client_name (name_of e) (sconfig s) c"
  by (simp add: get_name_def client_name_def)

record ('a, 'f) core =
  co_primary :: cid
  co_active :: cid
  co_config :: "('a, 'f) config"
  co_saver :: "cid option"
  co_switch :: "cid option"
  co_wait :: "nat option"
  co_clients :: "(string, cid) om"
  co_set :: "cid set"
  co_old :: "(cid, nat) om"
  co_dir :: direction
  co_clips :: nat

definition core :: "('a, 'f) server \<Rightarrow> ('a, 'f) core" where
  "core s = \<lparr>co_primary = primary s, co_active = active s, co_config = sconfig s, co_saver = active_saver s,
     co_switch = switch_screen s, co_wait = wait_timer s, co_clients = clients s, co_set = client_set s,
     co_old = old_clients s, co_dir = switch_dir s, co_clips = length (clips s)\<rparr>"

definition core_inv :: "(cid \<Rightarrow> string) \<Rightarrow> ('a, 'f) core \<Rightarrow> bool" where
  "core_inv nm k \<longleftrightarrow>
     config_inv (co_config k) \<and>
     om_sorted string_less (co_clients k) \<and> om_sorted (<) (co_old k) \<and>
     (\<forall>p\<in>set (co_clients k). fst p = client_name nm (co_config k) (snd p)) \<and>
     co_set k = snd ` set (co_clients k) \<and>
     co_primary k \<in> co_set k \<and> co_active k \<in> co_set k \<and>
     (\<forall>c. co_saver k = Some c \<longrightarrow> c \<in> co_set k) \<and>
     (\<forall>c. co_switch k = Some c \<longrightarrow> c \<in> co_set k) \<and>
     (co_wait k \<noteq> None \<longrightarrow> co_switch k \<noteq> None) \<and>
     (co_dir k = NoDirection \<longleftrightarrow> co_switch k = None) \<and>
     fst ` set (co_old k) \<inter> co_set k = {} \<and>
     co_clips k = clipboard_end"

definition server_inv :: "(cid \<Rightarrow> string) \<Rightarrow> ('a, 'f) server \<Rightarrow> bool" where
  "server_inv nm s \<longleftrightarrow> core_inv nm (core s)"

lemma server_inv_core: "core s' = core s \<Longrightarrow> server_inv nm s \<Longrightarrow> server_inv nm s'"
  by (simp add: server_inv_def)

named_theorems core_simps \<open>operations that keep the core\<close>

lemma core_emit [core_simps]: "core (emit f s) = core s"
  and core_emits [core_simps]: "core (emits fs s) = core s"
  and core_set_clip [core_simps]: "core (set_clip k ci s) = core s"
  and core_stop_tap [core_simps]: "core (stop_tap s) = core s"
  and core_start_tap [core_simps]: "core (start_tap e s) = core s"
  by (simp_all add: core_def emit_def emits_def set_clip_def stop_tap_def start_tap_def)

lemma core_arm_tap [core_simps]: "core (arm_tap e x y s) = core s"
  by (simp add: arm_tap_def core_stop_tap Let_def split: prod.split direction.split)
    (simp add: core_def)

lemma core_clip_ops [core_simps]:
  "core (snd (marshall_clip k s)) = core s" "core (tell_dirty k c s) = core s"
  "core (clear_clip k s) = core s" "core (tell_grabbed k c s) = core s" "core (send_clip k s) = core s"
  by (simp_all add: marshall_clip_def tell_dirty_def clear_clip_def tell_grabbed_def send_clip_def
      core_simps Let_def split: prod.split)

lemma core_reports [core_simps]:
  "core (reconfigure_primary e s) = core s" "core (connected_clients_ipc e s) = core s"
  "core (send_options e c s) = core s" "core (tell_screensaver b s) = core s"
  by (simp_all add: reconfigure_primary_def connected_clients_ipc_def send_options_def
      tell_screensaver_def core_simps Let_def)

lemma core_stop_relative_moves [core_simps]: "core (stop_relative_moves e s) = core s"
  by (simp add: stop_relative_moves_def core_simps Let_def split: prod.split) (simp add: core_def)

lemma core_fold_send_options [core_simps]: "core (fold (send_options e) cs s) = core s"
  by (induction cs arbitrary: s) (simp_all add: core_simps)

lemma core_marshall_pair: "marshall_clip k s = (d, s') \<Longrightarrow> core s' = core s"
  using core_clip_ops(1) [of k s] by simp

lemma core_on_clipboard_changed:
  assumes "on_clipboard_changed e c k n s = Some s'"
  shows "core s' = core s"
proof -
  let ?ci = "clips s ! k"
  let ?s1 = "set_clip k (?ci\<lparr>ci_clipboard := read_clip e c k (ci_clipboard ?ci)\<rparr>) s"
  obtain d s2 where m: "marshall_clip k ?s1 = (d, s2)" by fastforce
  have "core s2 = core s" using core_marshall_pair [OF m] by (simp add: core_simps)
  then show ?thesis
    using assms m
    by (auto simp: on_clipboard_changed_def Let_def core_simps split: if_splits)
qed

lemma core_update_primary_clip:
  "update_primary_clip e k s = Some s' \<Longrightarrow> core s' = core s"
  by (auto simp: update_primary_clip_def core_on_clipboard_changed split: if_splits)

lemma core_update_primary_clips:
  assumes "(if P then Option.bind (update_primary_clip e j s) (update_primary_clip e k) else Some s) = Some t"
  shows "core t = core s"
proof (cases P)
  case True
  with assms obtain u where "update_primary_clip e j s = Some u" "update_primary_clip e k u = Some t"
    by (auto simp: bind_eq_Some_conv)
  then show ?thesis using core_update_primary_clip by metis
qed (use assms in simp)

lemma core_fields:
  assumes "core s' = core s"
  shows "primary s' = primary s" "active s' = active s" "sconfig s' = sconfig s"
    "active_saver s' = active_saver s" "switch_screen s' = switch_screen s" "wait_timer s' = wait_timer s"
    "clients s' = clients s" "client_set s' = client_set s" "old_clients s' = old_clients s"
    "switch_dir s' = switch_dir s" "length (clips s') = length (clips s)"
  using assms by (simp_all add: core_def)

section \<open>Reading the invariant\<close>

lemma server_inv_eq:
  "server_inv nm s \<longleftrightarrow>
     config_inv (sconfig s) \<and>
     om_sorted string_less (clients s) \<and> om_sorted (<) (old_clients s) \<and>
     (\<forall>p\<in>set (clients s). fst p = client_name nm (sconfig s) (snd p)) \<and>
     client_set s = snd ` set (clients s) \<and>
     primary s \<in> client_set s \<and> active s \<in> client_set s \<and>
     (\<forall>c. active_saver s = Some c \<longrightarrow> c \<in> client_set s) \<and>
     (\<forall>c. switch_screen s = Some c \<longrightarrow> c \<in> client_set s) \<and>
     (wait_timer s \<noteq> None \<longrightarrow> switch_screen s \<noteq> None) \<and>
     (switch_dir s = NoDirection \<longleftrightarrow> switch_screen s = None) \<and>
     fst ` set (old_clients s) \<inter> client_set s = {} \<and>
     length (clips s) = clipboard_end"
  by (simp only: server_inv_def core_inv_def core_def core.simps)

lemma server_invD:
  assumes "server_inv nm s"
  shows "config_inv (sconfig s)" "om_sorted string_less (clients s)" "om_sorted (<) (old_clients s)"
    "p \<in> set (clients s) \<Longrightarrow> fst p = client_name nm (sconfig s) (snd p)"
    "client_set s = snd ` set (clients s)"
    "primary s \<in> client_set s" "active s \<in> client_set s"
    "active_saver s = Some c \<Longrightarrow> c \<in> client_set s" "switch_screen s = Some c \<Longrightarrow> c \<in> client_set s"
    "wait_timer s \<noteq> None \<Longrightarrow> switch_screen s \<noteq> None"
    "switch_dir s = NoDirection \<longleftrightarrow> switch_screen s = None"
    "fst ` set (old_clients s) \<inter> client_set s = {}" "length (clips s) = clipboard_end"
  using assms unfolding server_inv_eq by blast+

lemma server_invI:
  assumes "config_inv (sconfig s)" "om_sorted string_less (clients s)" "om_sorted (<) (old_clients s)"
    "\<And>p. p \<in> set (clients s) \<Longrightarrow> fst p = client_name nm (sconfig s) (snd p)"
    "client_set s = snd ` set (clients s)"
    "primary s \<in> client_set s" "active s \<in> client_set s"
    "\<And>c. active_saver s = Some c \<Longrightarrow> c \<in> client_set s"
    "\<And>c. switch_screen s = Some c \<Longrightarrow> c \<in> client_set s"
    "wait_timer s \<noteq> None \<Longrightarrow> switch_screen s \<noteq> None"
    "switch_dir s = NoDirection \<longleftrightarrow> switch_screen s = None"
    "fst ` set (old_clients s) \<inter> client_set s = {}" "length (clips s) = clipboard_end"
  shows "server_inv nm s"
  unfolding server_inv_eq by (intro conjI ballI allI impI) (rule assms; assumption)+

lemma client_in_set: "server_inv nm s \<Longrightarrow> (n, c) \<in> set (clients s) \<Longrightarrow> c \<in> client_set s"
  using server_invD(5) by force

text \<open>Only the pending switch, the saver or the active screen change, to connected clients.\<close>

lemma server_inv_upd:
  assumes inv: "server_inv nm s"
    and same: "sconfig s' = sconfig s" "clients s' = clients s" "client_set s' = client_set s"
      "old_clients s' = old_clients s" "primary s' = primary s" "length (clips s') = length (clips s)"
    and new: "active s' \<in> client_set s" "\<And>c. active_saver s' = Some c \<Longrightarrow> c \<in> client_set s"
      "\<And>c. switch_screen s' = Some c \<Longrightarrow> c \<in> client_set s"
      "wait_timer s' \<noteq> None \<Longrightarrow> switch_screen s' \<noteq> None"
      "switch_dir s' = NoDirection \<longleftrightarrow> switch_screen s' = None"
  shows "server_inv nm s'"
  using inv new unfolding server_inv_eq same by blast

lemma stop_wait_fields:
  "sconfig (stop_wait s) = sconfig s" "clients (stop_wait s) = clients s"
  "client_set (stop_wait s) = client_set s" "old_clients (stop_wait s) = old_clients s"
  "primary (stop_wait s) = primary s" "length (clips (stop_wait s)) = length (clips s)"
  "active (stop_wait s) = active s" "active_saver (stop_wait s) = active_saver s"
  "switch_screen (stop_wait s) = switch_screen s" "wait_timer (stop_wait s) = None"
  "switch_dir (stop_wait s) = switch_dir s"
  by (simp_all add: stop_wait_def emit_def split: option.split)

lemma stop_wait_inv:
  assumes "server_inv nm s"
  shows "server_inv nm (stop_wait s)"
  using assms
  by (rule server_inv_upd) (use server_invD [OF assms] in \<open>simp_all add: stop_wait_fields\<close>)

lemma start_wait_inv:
  assumes "server_inv nm s" and "switch_screen s \<noteq> None"
  shows "server_inv nm (start_wait x y s)"
  using assms(1)
  by (rule server_inv_upd)
    (use assms server_invD [OF assms(1)] in \<open>simp_all add: start_wait_def emit_def stop_wait_fields Let_def\<close>)

lemma stop_switch_fields:
  assumes "server_inv nm s"
  shows "switch_screen (stop_switch s) = None" "wait_timer (stop_switch s) = None"
    "switch_dir (stop_switch s) = NoDirection"
    "active (stop_switch s) = active s" "primary (stop_switch s) = primary s"
    "active_saver (stop_switch s) = active_saver s" "clients (stop_switch s) = clients s"
    "client_set (stop_switch s) = client_set s" "sconfig (stop_switch s) = sconfig s"
    "old_clients (stop_switch s) = old_clients s" "length (clips (stop_switch s)) = length (clips s)"
  using server_invD(10,11) [OF assms]
  by (cases "wait_timer s"; auto simp: stop_switch_def stop_tap_def stop_wait_fields split: option.split)+

lemma stop_switch_inv:
  assumes "server_inv nm s"
  shows "server_inv nm (stop_switch s)"
  using assms
  by (rule server_inv_upd)
    (use server_invD [OF assms] in \<open>simp_all add: stop_switch_fields [OF assms]\<close>)

lemma no_switch_inv: "server_inv nm s \<Longrightarrow> server_inv nm (no_switch e x y s)"
  unfolding no_switch_def by (intro stop_wait_inv) (simp add: server_inv_def core_simps)

section \<open>Switching keeps the invariant\<close>

lemma core_positions [core_simps]:
  "core (mx_update f0 s) = core s"
  "core (my_update f1 s) = core s"
  "core (xDelta_update f2 s) = core s"
  "core (yDelta_update f3 s) = core s"
  "core (xDelta2_update f4 s) = core s"
  "core (yDelta2_update f5 s) = core s"
  "core (xSaver_update f6 s) = core s"
  "core (ySaver_update f7 s) = core s"
  "core (jump_pos_update f8 s) = core s"
  "core (seq_num_update f9 s) = core s"
  "core (kb_broadcasting_update f10 s) = core s"
  "core (kb_screens_update f11 s) = core s"
  "core (locked_update f12 s) = core s"
  "core (next_timer_update f13 s) = core s"
  "core (relative_moves_update f14 s) = core s"
  "core (default_lock_update f15 s) = core s"
  "core (disable_lock_update f16 s) = core s"
  "core (enable_clip_update f17 s) = core s"
  "core (max_clip_size_update f18 s) = core s"
  "core (wait_delay_update f19 s) = core s"
  "core (tap_delay_update f20 s) = core s"
  by (simp_all add: core_def)

lemma enter_screen_inv:
  assumes "server_inv nm s" and "dst \<in> client_set s"
  shows "server_inv nm (enter_screen e dst x y b s)"
proof -
  have "server_inv nm (s\<lparr>active := dst\<rparr>)"
    using assms(1) by (rule server_inv_upd) (use assms server_invD [OF assms(1)] in simp_all)
  then show ?thesis
    by (rule server_inv_core [rotated]) (simp add: enter_screen_def core_simps Let_def)
qed

lemma guarded_map_option:
  "(if A then Some a else if B then Some b else map_option g X) = Some r \<Longrightarrow>
     r = a \<or> r = b \<or> (\<exists>t. X = Some t \<and> r = g t)"
  by (auto split: if_splits)

lemma switch_screen_to_inv:
  assumes inv: "server_inv nm s" and "dst \<in> client_set s"
    and "switch_screen_to e dst x y b s = Some s'"
  shows "server_inv nm s' \<and> client_set s' = client_set s \<and> clients s' = clients s \<and>
    sconfig s' = sconfig s \<and> primary s' = primary s"
proof -
  let ?s1 = "(stop_switch s)\<lparr>mx := x, my := y, xDelta := 0, yDelta := 0, xDelta2 := 0, yDelta2 := 0\<rparr>"
  let ?s2 = "emit (Leave (active ?s1)) ?s1"
  note f = stop_switch_fields [OF inv]
  have inv1: "server_inv nm ?s1" "server_inv nm ?s2" "server_inv nm (emit m ?s1)" for m
    by (rule server_inv_core [OF _ stop_switch_inv [OF inv]], simp add: core_simps)+
  have fields: "client_set t = client_set s \<and> clients t = clients s \<and> sconfig t = sconfig s \<and>
    primary t = primary s" if "core t = core ?s2" for t
    using core_fields [OF that] f by (simp add: emit_def)
  have body: "switch_screen_to e dst x y b s = (if active ?s1 = dst then Some (emit (Mouse_Move dst x y) ?s1)
    else if \<not> can_leave e (active ?s2) then Some ?s2
    else map_option (enter_screen e dst x y b)
      (if active ?s2 = primary ?s2 \<and> enable_clip ?s2
       then Option.bind (update_primary_clip e 0 ?s2) (update_primary_clip e 1) else Some ?s2))"
    by (simp only: switch_screen_to_def Let_def)
  consider "s' = emit (Mouse_Move dst x y) ?s1" | "s' = ?s2"
    | t where "core t = core ?s2" "s' = enter_screen e dst x y b t"
    using guarded_map_option [OF assms(3) [unfolded body]] core_update_primary_clips by blast
  then show ?thesis
  proof cases
    case 1
    then show ?thesis using inv1(3) f by (simp add: emit_def)
  next
    case 2
    then show ?thesis using inv1(2) fields [of ?s2] by simp
  next
    case (3 t)
    have "server_inv nm t" using server_inv_core [OF 3(1) inv1(2)] .
    moreover have "dst \<in> client_set t" using fields [OF 3(1)] assms(2) by simp
    ultimately have "server_inv nm s'" using 3(2) enter_screen_inv by blast
    moreover have "core (enter_screen e dst x y b t) = core (t\<lparr>active := dst\<rparr>)"
      by (simp add: enter_screen_def core_simps Let_def)
    ultimately show ?thesis
      using 3(2) fields [OF 3(1)] core_fields(1,3,7,8) [of s' "t\<lparr>active := dst\<rparr>"] by simp
  qed
qed

end
