(* ===== verification/Server_Steps.thy ===== *)
theory Server_Steps
  imports Server_Inv
begin

text \<open>
  Every handler of the server keeps the invariant of \<open>Server_Inv\<close>. A handler that only moves the
  cursor, switches or talks to clients also leaves the client tables alone (\<open>keeps\<close>); closing
  clients only shrinks them (\<open>shrinks\<close>).
\<close>

section \<open>Two preorders\<close>

definition keeps :: "(cid \<Rightarrow> string) \<Rightarrow> ('a, 'f) server \<Rightarrow> ('a, 'f) server \<Rightarrow> bool" where
  "keeps nm s s' \<longleftrightarrow> (server_inv nm s \<longrightarrow> server_inv nm s' \<and> client_set s' = client_set s \<and>
     clients s' = clients s \<and> sconfig s' = sconfig s \<and> primary s' = primary s)"

lemma keepsD:
  assumes "keeps nm s s'" and "server_inv nm s"
  shows "server_inv nm s'" "client_set s' = client_set s" "clients s' = clients s"
    "sconfig s' = sconfig s" "primary s' = primary s"
  using assms by (simp_all add: keeps_def)

lemma keepsI:
  assumes "server_inv nm s \<Longrightarrow> server_inv nm s'"
    "client_set s' = client_set s" "clients s' = clients s" "sconfig s' = sconfig s" "primary s' = primary s"
  shows "keeps nm s s'"
  using assms by (simp add: keeps_def)

lemma keeps_refl [intro]: "keeps nm s s"
  by (simp add: keeps_def)

lemma keeps_trans [trans]: "keeps nm s t \<Longrightarrow> keeps nm t u \<Longrightarrow> keeps nm s u"
  by (simp add: keeps_def)

lemma keeps_core: "core s' = core s \<Longrightarrow> keeps nm s s'"
  using server_inv_core core_fields by (metis keepsI)

lemma keeps_stop_switch: "keeps nm s (stop_switch s)"
  using stop_switch_inv stop_switch_fields unfolding keeps_def by metis

lemma keeps_stop_wait: "keeps nm s (stop_wait s)"
  by (rule keepsI [OF stop_wait_inv]) (simp_all add: stop_wait_fields)

lemma keeps_no_switch: "keeps nm s (no_switch e x y s)"
  unfolding no_switch_def
  by (rule keeps_trans [OF keeps_core keeps_stop_wait]) (simp add: core_simps)

lemma keeps_start_wait: "switch_screen s \<noteq> None \<Longrightarrow> keeps nm s (start_wait x y s)"
  by (rule keepsI [OF start_wait_inv])
    (simp_all add: start_wait_def emit_def stop_wait_fields Let_def)

lemma keeps_switch_screen_to:
  assumes "server_inv nm s \<Longrightarrow> dst \<in> client_set s" and "switch_screen_to e dst x y b s = Some s'"
  shows "keeps nm s s'"
  using switch_screen_to_inv [OF _ _ assms(2)] assms(1) unfolding keeps_def by blast

lemma keeps_positions:
  assumes "keeps nm (s\<lparr>mx := x, my := y\<rparr>) s'"
  shows "keeps nm s s'"
  by (rule keeps_trans [OF keeps_core assms]) (simp add: core_simps)

section \<open>Switching on command\<close>

lemma keeps_jump:
  assumes "server_inv nm s \<Longrightarrow> c \<in> client_set s" and "jump_to_screen e c s = Some s'"
  shows "keeps nm s s'"
proof -
  let ?s1 = "s\<lparr>jump_pos := (jump_pos s)(active s := (mx s, my s))\<rparr>"
  obtain x y where "switch_screen_to e c x y False ?s1 = Some s'"
    using assms(2) by (cases "jump_pos ?s1 c") (auto simp: jump_to_screen_def Let_def)
  moreover have "server_inv nm ?s1 \<Longrightarrow> c \<in> client_set ?s1"
    using assms(1) by (simp add: server_inv_def core_simps)
  ultimately have "keeps nm ?s1 s'" by (rule keeps_switch_screen_to [rotated])
  then show ?thesis by (rule keeps_trans [OF keeps_core, rotated]) (simp add: core_simps)
qed

lemma get_client_in_set:
  assumes "server_inv nm s" and "om_get string_less n (clients s) = Some c"
  shows "c \<in> client_set s"
  using om_get_mem [OF assms(2)] client_in_set [OF assms(1)] by blast

lemma keeps_switch_to_screen:
  assumes "handle_switch_to_screen e n s = Some s'"
  shows "keeps nm s s'"
proof (cases "om_get string_less n (clients s)")
  case None
  then show ?thesis using assms by (auto simp: handle_switch_to_screen_def)
next
  case (Some c)
  then show ?thesis
    using assms keeps_jump [OF get_client_in_set [OF _ Some]] by (simp add: handle_switch_to_screen_def)
qed

lemma keeps_toggle_screen:
  assumes "handle_toggle_screen e s = Some s'"
  shows "keeps nm s s'"
proof (cases "length (get_clients s) < 2 \<or> next_name (get_name e s (active s)) (get_clients s) = None")
  case True
  then have "s' = s" using assms by (auto simp: handle_toggle_screen_def split: if_splits)
  then show ?thesis by blast
next
  case False
  then obtain n where "next_name (get_name e s (active s)) (get_clients s) = Some n" by blast
  with False assms have "handle_switch_to_screen e n s = Some s'"
    by (simp add: handle_toggle_screen_def handle_switch_to_screen_def)
  then show ?thesis by (rule keeps_switch_to_screen)
qed

lemma keeps_switch_in_direction:
  assumes "handle_switch_in_direction e d s = Some s'"
  shows "keeps nm s s'"
proof -
  obtain r x y where nb: "neighbor e s (active s) d (mx s) (my s) = Some (r, x, y)"
    using assms by (auto simp: handle_switch_in_direction_def split: option.splits)
  show ?thesis
  proof (cases r)
    case None
    then show ?thesis using assms nb by (auto simp: handle_switch_in_direction_def)
  next
    case (Some c)
    have "server_inv nm s \<Longrightarrow> c \<in> client_set s"
      using neighbor_client [OF nb [unfolded Some]] client_in_set by blast
    moreover have "jump_to_screen e c s = Some s'"
      using assms nb Some by (simp add: handle_switch_in_direction_def)
    ultimately show ?thesis by (rule keeps_jump)
  qed
qed

section \<open>Crossing a border\<close>

lemma let_intro: "(\<And>x. x = a \<Longrightarrow> P (f x)) \<Longrightarrow> P (let x = a in f x)"
  by simp

lemma keeps_pending:
  assumes "server_inv nm s \<Longrightarrow> c \<in> client_set s" and "dir \<noteq> NoDirection"
  shows "keeps nm s (s\<lparr>switch_dir := dir, switch_screen := Some c\<rparr>)"
proof (rule keepsI)
  assume inv: "server_inv nm s"
  then show "server_inv nm (s\<lparr>switch_dir := dir, switch_screen := Some c\<rparr>)"
    by (rule server_inv_upd) (use assms(1) [OF inv] assms(2) server_invD [OF inv] in simp_all)
qed simp_all

lemma keeps_is_switch_okay:
  assumes client: "\<And>c. server_inv nm s \<Longrightarrow> newScreen = Some c \<Longrightarrow> c \<in> client_set s"
    and dir: "dir \<noteq> NoDirection" and res: "is_switch_okay e newScreen dir x y xa ya s = (ok, s')"
  shows "keeps nm s s'"
proof (cases newScreen)
  case None
  then show ?thesis using res keeps_stop_switch by (auto simp: is_switch_okay_def)
next
  case (Some c)
  have "keeps nm s (snd (is_switch_okay e (Some c) dir x y xa ya s))"
    unfolding is_switch_okay_def option.case
  proof (intro let_intro [where P = "\<lambda>r. keeps nm s (snd r)"])
    fix isNew s1 tapped prevent1 s2 waiting s3 cornered s4 prevent2 isLocked s5
    assume isNew: "isNew = (dir \<noteq> switch_dir s)"
      and s1: "s1 = (if isNew \<or> switch_screen s = None
                     then s\<lparr>switch_dir := dir, switch_screen := Some c\<rparr> else s)"
      and s2: "s2 = (if prevent1 then start_tap e s1 else s1)"
      and s3: "s3 = (if waiting \<and> (isNew \<or> wait_timer s2 = None) then start_wait x y s2 else s2)"
      and s4: "s4 = (if cornered then stop_switch s3 else s3)"
      and s5: "s5 = (if isLocked then stop_switch s4 else s4)"
    have sw: "switch_screen s1 \<noteq> None" by (simp add: s1)
    have "keeps nm s s1"
    proof (cases "isNew \<or> switch_screen s = None")
      case True
      then show ?thesis using keeps_pending [OF client [OF _ Some] dir] by (simp add: s1)
    next
      case False
      then show ?thesis by (auto simp: s1)
    qed
    also have "keeps nm s1 s2" by (rule keeps_core) (simp add: s2 core_simps)
    also have "keeps nm s2 s3"
      using keeps_start_wait [of s2 nm x y] sw by (auto simp: s3 s2 start_tap_def)
    also have "keeps nm s3 s4" using keeps_stop_switch by (auto simp: s4)
    also have "keeps nm s4 s5" using keeps_stop_switch by (auto simp: s5)
    finally show "keeps nm s (snd (\<not> (prevent2 \<or> isLocked), s5))" by simp
  qed
  with res Some show ?thesis by simp
qed

lemma keeps_try_direction:
  assumes "try_direction e dir x y xc yc s = Some (b, s')"
  shows "keeps nm s s'"
proof (cases "dir = NoDirection")
  case True
  then show ?thesis using assms by (auto simp: try_direction_def)
next
  case False
  then obtain new x' y' where m: "map_to_neighbor e s (active s) dir x y = Some (new, x', y')"
    using assms by (auto simp: try_direction_def split: option.splits)
  obtain ok s1 where ok: "is_switch_okay e new dir x' y' xc yc s = (ok, s1)" by fastforce
  have client: "c \<in> client_set s" if "server_inv nm s" "new = Some c" for c
    using map_to_neighbor_client [OF m [unfolded that(2)]] client_in_set [OF that(1)] by blast
  have k1: "keeps nm s s1" by (rule keeps_is_switch_okay [OF client False ok])
  show ?thesis
  proof (cases ok)
    case False
    with assms m ok k1 \<open>dir \<noteq> NoDirection\<close> show ?thesis by (simp add: try_direction_def)
  next
    case True
    with assms m ok \<open>dir \<noteq> NoDirection\<close> obtain dst where
      dst: "new = Some dst" "switch_screen_to e dst x' y' False s1 = Some s'"
      by (auto simp: try_direction_def split: option.splits)
    have "server_inv nm s \<Longrightarrow> keeps nm s1 s'"
      using keeps_switch_screen_to [OF _ dst(2)] client dst(1) keepsD(2) [OF k1] by simp
    with k1 show ?thesis unfolding keeps_def by simp
  qed
qed

section \<open>Following the branches of a handler\<close>

text \<open>What holds of every result but a failed assertion, by the syntax of the handler.\<close>

definition sure :: "('r \<Rightarrow> bool) \<Rightarrow> 'r option \<Rightarrow> bool" where
  "sure P r \<longleftrightarrow> (\<forall>v. r = Some v \<longrightarrow> P v)"

named_theorems sure_intros \<open>one rule for each construct of a handler\<close>

lemma sure_basic [sure_intros]:
  "sure P None" "P v \<Longrightarrow> sure P (Some v)" "sure (\<lambda>x. P (f x)) r \<Longrightarrow> sure P (map_option f r)"
  by (auto simp: sure_def)

lemma sure_if [sure_intros]:
  "(b \<Longrightarrow> sure P r) \<Longrightarrow> (\<not> b \<Longrightarrow> sure P r') \<Longrightarrow> sure P (if b then r else r')"
  by (auto simp: sure_def)

lemma sure_let [sure_intros]: "(\<And>x. x = a \<Longrightarrow> sure P (f x)) \<Longrightarrow> sure P (let x = a in f x)"
  by simp

lemma sure_prod [sure_intros]: "(\<And>a b. p = (a, b) \<Longrightarrow> sure P (f a b)) \<Longrightarrow> sure P (case p of (a, b) \<Rightarrow> f a b)"
  by (cases p) auto

lemma sure_option [sure_intros]:
  "(r = None \<Longrightarrow> sure P n) \<Longrightarrow> (\<And>x. r = Some x \<Longrightarrow> sure P (f x)) \<Longrightarrow>
     sure P (case r of None \<Rightarrow> n | Some x \<Rightarrow> f x)"
  by (cases r) auto

lemma sure_bool [sure_intros]:
  "(b \<Longrightarrow> sure P r) \<Longrightarrow> (\<not> b \<Longrightarrow> sure P r') \<Longrightarrow> sure P (case b of True \<Rightarrow> r | False \<Rightarrow> r')"
  by (cases b) auto

lemma sureD: "sure P r \<Longrightarrow> r = Some v \<Longrightarrow> P v"
  by (simp add: sure_def)

lemma sureI: "(\<And>v. r = Some v \<Longrightarrow> P v) \<Longrightarrow> sure P r"
  by (simp add: sure_def)

section \<open>Mouse motion\<close>

lemma keeps_mouse_primary:
  "sure (\<lambda>r. keeps nm s (snd r)) (on_mouse_move_primary e x y s)"
proof -
  have no: "keeps nm s (no_switch e x y s1)" if "core s1 = core s" for s1
    by (rule keeps_trans [OF keeps_core [OF that] keeps_no_switch])
  have try1: "keeps nm s s2" if "try_direction e d x' y' xc yc s1 = Some (b, s2)" "core s1 = core s"
    for s1 s2 d x' y' xc yc b
    by (rule keeps_trans [OF keeps_core [OF that(2)] keeps_try_direction [OF that(1)]])
  have try2: "sure (\<lambda>r. keeps nm s (snd r)) (try_direction e d x' y' xc yc s1)" if "keeps nm s s1"
    for d x' y' xc yc s1
    using keeps_trans [OF that keeps_try_direction] by (auto intro: sureI)
  show ?thesis
    unfolding on_mouse_move_primary_def
    by (intro sure_intros try2; clarsimp?;
        (rule keeps_refl | rule no | erule try1 | rule keeps_core)?; (simp add: core_simps)?)
qed

lemma core_stay_on_screen [core_simps]: "core (stay_on_screen sh x0 y0 dx dy s) = core s"
  by (simp add: stay_on_screen_def core_simps Let_def split: prod.split)

lemma keeps_stay:
  assumes "keeps nm s s1"
  shows "keeps nm s (stay_on_screen sh x0 y0 dx dy s1)"
  by (rule keeps_trans [OF assms keeps_core]) (simp add: core_simps)

lemma keeps_mouse_secondary:
  "sure (keeps nm s) (on_mouse_move_secondary e mult dx0 dy0 s)"
proof -
  have stay: "keeps nm s s3"
    if m: "map_to_neighbor e s1 (active s1) dir a b = Some p" "p = (new, q)" "q = (x', y')"
      and ok: "is_switch_okay e new dir x' y' xc yc s2 = (ok, s3)" "s2 = s1\<lparr>mx := x', my := y'\<rparr>"
      and dir: "dir \<noteq> NoDirection" and c: "core s1 = core s"
    for p q new x' y' s1 s2 s3 ok a b xc yc dir
  proof -
    have client: "d \<in> client_set s1" if "server_inv nm s1" "new = Some d" for d
      using map_to_neighbor_client [of e s1 "active s1" dir a b d] m that client_in_set by blast
    have "keeps nm s1 s3"
      by (rule keeps_positions, rule keeps_is_switch_okay [OF _ dir ok(1) [unfolded ok(2)]])
        (use client in \<open>auto simp: server_inv_def core_simps\<close>)
    with keeps_core [OF c] show ?thesis by (rule keeps_trans)
  qed
  have switch: "sure (keeps nm s) (switch_screen_to e dst x' y' False s3)"
    if m: "map_to_neighbor e s1 (active s1) dir a b = Some p" "p = (new, q)" "q = (x', y')"
      and ok: "is_switch_okay e new dir x' y' xc yc s2 = (ok, s3)" "s2 = s1\<lparr>mx := x', my := y'\<rparr>"
      and new: "new = Some dst" and dir: "dir \<noteq> NoDirection" and c: "core s1 = core s"
    for p q new x' y' s1 s2 s3 ok a b xc yc dst dir
  proof (rule sureI)
    fix s4 assume s4: "switch_screen_to e dst x' y' False s3 = Some s4"
    have k: "keeps nm s s3" by (rule stay [OF m ok dir c])
    have "dst \<in> client_set s" if inv: "server_inv nm s"
      using map_to_neighbor_client [of e s1 "active s1" dir a b dst] m new
        client_in_set [OF inv] core_fields(7) [OF c] by auto
    then have "server_inv nm s \<Longrightarrow> keeps nm s3 s4"
      using keeps_switch_screen_to [OF _ s4] keepsD(2) [OF k] by simp
    with k show "keeps nm s s4" unfolding keeps_def by simp
  qed
  have no: "keeps nm s (no_switch e x y s1)" if "core s1 = core s" for s1 x y
    by (rule keeps_trans [OF keeps_core [OF that] keeps_no_switch])
  show ?thesis
    unfolding on_mouse_move_secondary_def
    apply (intro sure_intros keeps_stay)
            apply (rule keeps_refl)
           apply (rule keeps_core, simp add: core_simps)
          apply (simp add: no keeps_core core_simps)
         apply (rule switch, assumption+, simp add: core_simps)
        apply (rule stay, assumption+, simp add: core_simps)
     done
qed

section \<open>The other handlers of events\<close>

lemma core_jump_pos [core_simps]: "core (s\<lparr>jump_pos := f\<rparr>) = core s"
  by (simp add: core_def)

lemma keeps_shape_changed: "sure (keeps nm s) (handle_shape_changed e mult c s)"
proof -
  have p: "sure (\<lambda>r. keeps nm s (snd r)) (on_mouse_move_primary e x y s1)" if "core s1 = core s" for s1 x y
    using keeps_mouse_primary [of nm s1 e x y] keeps_trans [OF keeps_core [OF that]] unfolding sure_def by blast
  have q: "sure (keeps nm s) (on_mouse_move_secondary e mult dx dy s1)" if "core s1 = core s" for s1 dx dy
    using keeps_mouse_secondary [of nm s1 e mult dx dy] keeps_trans [OF keeps_core [OF that]]
    unfolding sure_def by blast
  have tables: "core s2 = core s"
    if "s2 = (if c = active s1 then s1\<lparr>mx := x, my := y\<rparr> else s1)"
      "s1 = s\<lparr>jump_pos := (jump_pos s)(c := (x, y))\<rparr>" for s1 s2 x y
    by (simp only: that core_simps if_distrib [of core] if_cancel)
  show ?thesis
    unfolding handle_shape_changed_def
    by (intro sure_intros p q keeps_refl; (rule keeps_core)?; erule (1) tables)
qed

lemmas server_members = server_invD(6-9)

lemma keeps_switch_primary:
  assumes "core s1 = core s"
  shows "sure (keeps nm s) (switch_screen_to e (primary s1) x y b s1)"
proof (rule sureI)
  fix s2 assume "switch_screen_to e (primary s1) x y b s1 = Some s2"
  with server_members(1) have "keeps nm s1 s2" by (rule keeps_switch_screen_to)
  with keeps_core [OF assms] show "keeps nm s s2" by (rule keeps_trans)
qed

lemma keeps_switch_wait_timeout: "sure (keeps nm s) (handle_switch_wait_timeout e s)"
  unfolding handle_switch_wait_timeout_def
  by (intro sure_intros keeps_stop_switch sureI; erule keeps_switch_screen_to [rotated])
    (erule server_members, assumption)

lemma keeps_saver:
  assumes "server_inv nm s \<Longrightarrow> \<forall>c. v = Some c \<longrightarrow> c \<in> client_set s"
  shows "keeps nm s (s\<lparr>active_saver := v\<rparr>)"
proof (rule keepsI)
  assume inv: "server_inv nm s"
  then show "server_inv nm (s\<lparr>active_saver := v\<rparr>)"
    by (rule server_inv_upd) (use assms [OF inv] server_invD [OF inv] in simp_all)
qed simp_all

lemma keeps_screensaver: "sure (keeps nm s) (on_screensaver e activated s)"
proof -
  let ?on = "s\<lparr>active_saver := Some (active s), xSaver := mx s, ySaver := my s\<rparr>"
  have tell: "keeps nm s (tell_screensaver activated s1)" if "keeps nm s s1" for s1
    by (rule keeps_trans [OF that keeps_core]) (simp add: core_simps)
  have "keeps nm s (s\<lparr>active_saver := Some (active s)\<rparr>)"
    by (rule keeps_saver) (simp add: server_members)
  then have on: "keeps nm s ?on"
    by (rule keeps_trans) (rule keeps_core, simp add: core_simps)
  have off: "keeps nm s (s1\<lparr>active_saver := None\<rparr>)" if "keeps nm s s1" for s1
    by (rule keeps_trans [OF that keeps_saver]) simp
  have act: "sure (\<lambda>r. keeps nm s (tell_screensaver activated r)) (switch_screen_to e (primary s1) 0 0 True s1)"
    if "s1 = ?on" for s1
    using keeps_switch_primary [of s1 s1 nm e 0 0 True] tell [OF keeps_trans [OF on]] that
    unfolding sure_def by blast
  have resume: "sure (\<lambda>r. keeps nm s (tell_screensaver activated (r\<lparr>active_saver := None\<rparr>)))
      (switch_screen_to e c x y False s1)"
    if "active_saver s = Some c" "core s1 = core s" for c x y s1
  proof (rule sureI)
    fix s2 assume s2: "switch_screen_to e c x y False s1 = Some s2"
    have "keeps nm s1 s2"
      by (rule keeps_switch_screen_to [OF _ s2]) (use that core_fields [OF that(2)] server_members(3) [of nm s1] in \<open>simp\<close>)
    with keeps_core [OF that(2)] have "keeps nm s s2" by (rule keeps_trans)
    then show "keeps nm s (tell_screensaver activated (s2\<lparr>active_saver := None\<rparr>))"
      by (intro tell off)
  qed
  show ?thesis
    unfolding on_screensaver_def
    by (intro sure_intros tell off act; (rule keeps_refl)?; assumption?; (erule resume)?;
        (simp only: on)?; (simp add: core_simps)?)
qed

lemma keeps_lock_cursor: "keeps nm s (handle_lock_cursor e t s)"
  by (rule keeps_core) (simp add: handle_lock_cursor_def Let_def core_simps)

lemma keeps_keyboard_broadcast: "keeps nm s (handle_keyboard_broadcast t scr s)"
  by (rule keeps_core) (simp add: handle_keyboard_broadcast_def Let_def core_simps)

lemma keeps_emergency_return: "sure (keeps nm s) (handle_emergency_return e s)"
proof -
  let ?s0 = "s\<lparr>kb_broadcasting := False, locked := False\<rparr>"
  let ?s1 = "stop_relative_moves e (stop_switch ?s0)"
  have "keeps nm s ?s0" by (rule keeps_core) (simp add: core_simps)
  also have "keeps nm ?s0 (stop_switch ?s0)" by (rule keeps_stop_switch)
  also have "keeps nm (stop_switch ?s0) ?s1" by (rule keeps_core) (simp add: core_simps)
  finally have k: "keeps nm s ?s1" .
  have sw: "sure (keeps nm s) (switch_screen_to e (primary s2) x y False s2)" if "core s2 = core ?s1" for s2 x y
    using keeps_switch_primary [OF that, of nm e x y False] keeps_trans [OF k] by (auto simp: sure_def)
  have re: "keeps nm s (reconfigure_primary e s3)" if "keeps nm s s3" for s3
    by (rule keeps_trans [OF that keeps_core]) (simp add: core_simps)
  have "sure (\<lambda>s3. keeps nm s (reconfigure_primary e s3)) (switch_screen_to e (primary s2) x y False s2)"
    if "core s2 = core ?s1" for s2 x y
    using sw [OF that] re by (auto simp: sure_def)
  then show ?thesis
    unfolding handle_emergency_return_def by (intro sure_intros) (simp add: core_simps)
qed

section \<open>Clipboard and input events\<close>

lemma keeps_on_clipboard_changed: "sure (keeps nm s) (on_clipboard_changed e c k n s)"
  using keeps_core core_on_clipboard_changed by (blast intro: sureI)

lemma keeps_clipboard_changed: "sure (keeps nm s) (handle_clipboard_changed e c k n s)"
  unfolding handle_clipboard_changed_def
  by (intro sure_intros keeps_on_clipboard_changed keeps_refl)

lemma keeps_clipboard_grabbed: "sure (keeps nm s) (handle_clipboard_grabbed e c k n s)"
proof -
  have ch: "sure (keeps nm s) (on_clipboard_changed e c' k n' s3)" if "core s3 = core s" for s3 c' n'
    using keeps_on_clipboard_changed [of nm s3] keeps_trans [OF keeps_core [OF that]]
    by (auto simp: sure_def)
  have tables: "core s3 = core s"
    if "s3 = tell_grabbed k c s2" "s2 = clear_clip k s1" "s1 = set_clip k ci s" for s1 s2 s3 ci
    by (simp only: that core_simps)
  show ?thesis
    unfolding handle_clipboard_grabbed_def
    by (intro sure_intros keeps_refl ch; (rule keeps_core)?; erule (2) tables)
qed

lemma keeps_input:
  "keeps nm s (handle_key_down lang i s)" "keeps nm s (handle_key_up i s)"
  "keeps nm s (handle_key_repeat lang i s)" "keeps nm s (on_mouse_down b s)"
  "keeps nm s (on_mouse_up b s)" "keeps nm s (on_mouse_wheel dx dy s)"
  by (rule keeps_core;
      simp add: handle_key_down_def on_key_down_def handle_key_up_def on_key_up_def handle_key_repeat_def
        on_key_repeat_def on_mouse_down_def on_mouse_up_def on_mouse_wheel_def core_simps)+

end
