(* ===== verification/Server_Reach.thy ===== *)
theory Server_Reach
  imports Server_Steps
begin

text \<open>
  Clients come and go: connecting, closing and disconnecting keep the invariant as long as the
  screen saver is settled, and a reload keeps it as long as it renames no connected client. The
  step relation of the server collects all handlers; its reachable states satisfy the invariant.
\<close>

section \<open>Connecting\<close>

lemma core_client_tables:
  "core (s\<lparr>client_set := a, clients := b\<rparr>) = (core s)\<lparr>co_set := a, co_clients := b\<rparr>"
  "core (s\<lparr>clients := b, client_set := a\<rparr>) = (core s)\<lparr>co_set := a, co_clients := b\<rparr>"
  "core (s\<lparr>old_clients := d\<rparr>) = (core s)\<lparr>co_old := d\<rparr>"
  by (simp_all add: core_def)

lemma add_client_core:
  assumes "add_client e c s = (True, s')"
  shows "core s' = (core s)\<lparr>co_set := insert c (client_set s),
    co_clients := om_emplace string_less (get_name e s c) c (clients s)\<rparr>"
    "om_find string_less (get_name e s c) (clients s) = None"
proof -
  have new: "\<not> om_contains string_less (get_name e s c) (clients s)"
    using assms by (auto simp: add_client_def Let_def split: if_splits)
  then show "om_find string_less (get_name e s c) (clients s) = None"
    unfolding om_contains_def by blast
  show "core s' = (core s)\<lparr>co_set := insert c (client_set s),
    co_clients := om_emplace string_less (get_name e s c) c (clients s)\<rparr>"
    using assms new
    by (auto simp: add_client_def Let_def core_simps emit_def) (simp add: core_def)
qed

lemma add_client_refused: "add_client e c s = (False, s') \<Longrightarrow> s' = s"
  by (simp add: add_client_def Let_def split: if_splits)

lemma add_client_inv:
  assumes inv: "server_inv nm s" and nm: "nm = name_of e" and fresh: "c \<notin> fst ` set (old_clients s)"
    and add: "add_client e c s = (True, s')"
  shows "server_inv nm s'" "client_set s' = insert c (client_set s)" "sconfig s' = sconfig s"
    "primary s' = primary s"
proof -
  note k = add_client_core [OF add] and i = server_invD [OF inv]
  have f: "sconfig s' = sconfig s" "primary s' = primary s" "active s' = active s"
    "active_saver s' = active_saver s" "switch_screen s' = switch_screen s" "wait_timer s' = wait_timer s"
    "old_clients s' = old_clients s" "switch_dir s' = switch_dir s" "length (clips s') = length (clips s)"
    "client_set s' = insert c (client_set s)"
    "clients s' = om_emplace string_less (get_name e s c) c (clients s)"
    using k(1) by (simp_all add: core_def)
  have set: "set (clients s') = insert (get_name e s c, c) (set (clients s))"
    using plain.emplace_set [OF i(2)] k(2) f(11) by simp
  show "client_set s' = insert c (client_set s)" "sconfig s' = sconfig s" "primary s' = primary s"
    by (rule f)+
  show "server_inv nm s'"
  proof (rule server_invI)
    show "om_sorted string_less (clients s')" using plain.emplace_sorted [OF i(2)] f by simp
    show "fst p = client_name nm (sconfig s') (snd p)" if "p \<in> set (clients s')" for p
    proof -
      consider "p = (get_name e s c, c)" | "p \<in> set (clients s)" using \<open>p \<in> set (clients s')\<close> set by blast
      then show ?thesis using i(4) by cases (simp_all add: f(1) nm get_name_client_name)
    qed
    show "client_set s' = snd ` set (clients s')" unfolding f(10) set using i(5) by simp
    show "fst ` set (old_clients s') \<inter> client_set s' = {}" using i(12) fresh unfolding f by blast
  qed (use f i in simp_all)
qed

section \<open>Leaving\<close>

text \<open>While the screen saver runs, the active screen is the primary or the one it was started on.\<close>

definition saver_settled :: "('a, 'f) server \<Rightarrow> bool" where
  "saver_settled s \<longleftrightarrow> (\<forall>a. active_saver s = Some a \<longrightarrow> active s = a \<or> active s = primary s)"

lemma stop_switch_some:
  assumes "switch_screen s = Some d"
  shows "core (stop_switch s) = (core s)\<lparr>co_switch := None, co_dir := NoDirection, co_wait := None\<rparr>"
  using assms
  by (cases "wait_timer s") (simp_all add: stop_switch_def stop_tap_def stop_wait_def emit_def core_def)

lemma core_take_active:
  "core (if active_saver s = None then emit f (s\<lparr>mx := x, my := y, active := a\<rparr>)
         else s\<lparr>mx := x, my := y, active := a\<rparr>) = (core s)\<lparr>co_active := a\<rparr>"
  by (simp add: core_def emit_def)

lemma core_clear_saver:
  "core (if active_saver s = Some c then s\<lparr>active_saver := None\<rparr> else s) =
     (core s)\<lparr>co_saver := (if active_saver s = Some c then None else active_saver s)\<rparr>"
  by (simp add: core_def)

lemma force_leave_core:
  "core (force_leave_client e c s) =
     (if switch_screen s = Some c
      then (core s)\<lparr>co_switch := None, co_dir := NoDirection, co_wait := None\<rparr> else core s)
       \<lparr>co_active := (if (case active_saver s of None \<Rightarrow> active s | Some a \<Rightarrow> a) = c
                        then primary s else active s),
        co_saver := (if active_saver s = Some c then None else active_saver s)\<rparr>"
proof -
  define s1 where "s1 = (if switch_screen s = Some c then stop_switch s else s)"
  have k1: "core s1 = (if switch_screen s = Some c
     then (core s)\<lparr>co_switch := None, co_dir := NoDirection, co_wait := None\<rparr> else core s)"
    using stop_switch_some [of s c] by (simp add: s1_def)
  then have same: "active s1 = active s" "active_saver s1 = active_saver s" "primary s1 = primary s"
    by (auto simp: core_def split: if_splits)
  define s2 where "s2 = (if (case active_saver s1 of None \<Rightarrow> active s1 | Some a \<Rightarrow> a) = c then
      let s' = s1\<lparr>mx := fst (cursor_center e), my := snd (cursor_center e), active := primary s1\<rparr> in
      if active_saver s' = None
      then emit (Enter (primary s') (mx s') (my s') (seq_num s') (toggle_mask e) False) s' else s'
    else s1)"
  have k2: "core s2 = (core s1)\<lparr>co_active :=
      (if (case active_saver s of None \<Rightarrow> active s | Some a \<Rightarrow> a) = c then primary s else active s)\<rparr>"
  proof (cases "(case active_saver s of None \<Rightarrow> active s | Some a \<Rightarrow> a) = c")
    case True
    then show ?thesis
      unfolding s2_def same Let_def using core_take_active [of s1] by (simp add: same)
  next
    case False
    have "(core s1)\<lparr>co_active := active s1\<rparr> = core s1" by (simp add: core_def)
    with False show ?thesis unfolding s2_def same by (simp add: same)
  qed
  then have saver: "active_saver s2 = active_saver s"
    using same by (simp add: core_def split: if_splits)
  have "core (force_leave_client e c s) =
      core (if active_saver s2 = Some c then s2\<lparr>active_saver := None\<rparr> else s2)"
    unfolding force_leave_client_def Let_def core_simps s2_def s1_def ..
  then show ?thesis using core_clear_saver [of s2 c] by (simp only: k2 k1 saver)
qed

text \<open>
  Leaving repairs a state in which the client is gone from the tables but may still be active,
  pending or the screen of the saver.
\<close>

lemma force_leave_inv:
  assumes inv: "server_inv nm s" and settled: "saver_settled s" and c: "c \<noteq> primary s"
    and t: "core t = (core s)\<lparr>co_set := client_set s - {c}, co_clients := filter (\<lambda>p. snd p \<noteq> c) (clients s),
      co_old := old\<rparr>"
    and old: "om_sorted (<) old" "fst ` set old \<inter> (client_set s - {c}) = {}"
  shows "server_inv nm (force_leave_client e c t)" "saver_settled (force_leave_client e c t)"
    "client_set (force_leave_client e c t) = client_set s - {c}"
    "clients (force_leave_client e c t) = filter (\<lambda>p. snd p \<noteq> c) (clients s)"
    "old_clients (force_leave_client e c t) = old"
    "sconfig (force_leave_client e c t) = sconfig s" "primary (force_leave_client e c t) = primary s"
proof -
  let ?f = "force_leave_client e c t"
  note i = server_invD [OF inv]
  have tf: "primary t = primary s" "active t = active s" "active_saver t = active_saver s"
    "switch_screen t = switch_screen s"
    using t by (simp_all add: core_def)
  note k = force_leave_core [of e c t, unfolded t tf]
  have f: "sconfig ?f = sconfig s" "clients ?f = filter (\<lambda>p. snd p \<noteq> c) (clients s)"
    "client_set ?f = client_set s - {c}" "old_clients ?f = old" "primary ?f = primary s"
    "length (clips ?f) = length (clips s)"
    "active ?f = (if (case active_saver s of None \<Rightarrow> active s | Some a \<Rightarrow> a) = c then primary s else active s)"
    "active_saver ?f = (if active_saver s = Some c then None else active_saver s)"
    "switch_screen ?f = (if switch_screen s = Some c then None else switch_screen s)"
    "wait_timer ?f = (if switch_screen s = Some c then None else wait_timer s)"
    "switch_dir ?f = (if switch_screen s = Some c then NoDirection else switch_dir s)"
    using k by (cases "switch_screen s = Some c"; simp add: core_def)+
  have act: "active ?f \<in> client_set s - {c}"
    using i(6,7) c settled unfolding f saver_settled_def by (auto split: option.splits)
  show "client_set ?f = client_set s - {c}" "clients ?f = filter (\<lambda>p. snd p \<noteq> c) (clients s)"
    "old_clients ?f = old" "sconfig ?f = sconfig s" "primary ?f = primary s"
    by (rule f)+
  show "saver_settled ?f"
    using settled unfolding saver_settled_def f by (auto split: option.splits)
  show "server_inv nm ?f"
  proof (rule server_invI)
    show "config_inv (sconfig ?f)" "om_sorted (<) (old_clients ?f)" "length (clips ?f) = clipboard_end"
      using i(1,13) old(1) f by simp_all
    show "om_sorted string_less (clients ?f)" using om_sorted_filter [OF i(2)] f by simp
    show "fst p = client_name nm (sconfig ?f) (snd p)" if "p \<in> set (clients ?f)" for p
      using that i(4) [of p] unfolding f by simp
    show "client_set ?f = snd ` set (clients ?f)" unfolding f i(5) by auto
    show "primary ?f \<in> client_set ?f" using i(6) c f by simp
    show "active ?f \<in> client_set ?f" using act f(3) by simp
    show "a \<in> client_set ?f" if "active_saver ?f = Some a" for a
      using that i(8) [of a] unfolding f by (auto split: if_splits)
    show "a \<in> client_set ?f" if "switch_screen ?f = Some a" for a
      using that i(9) [of a] unfolding f by (auto split: if_splits)
    show "wait_timer ?f \<noteq> None \<Longrightarrow> switch_screen ?f \<noteq> None" "switch_dir ?f = NoDirection \<longleftrightarrow> switch_screen ?f = None"
      using i(10,11) unfolding f by (auto split: if_splits)
    show "fst ` set (old_clients ?f) \<inter> client_set ?f = {}" using old(2) unfolding f .
  qed
qed

lemma get_name_emit: "get_name e (emit f s) c = get_name e s c"
  by (simp add: get_name_def emit_def)

lemma remove_client_core:
  assumes inv: "server_inv nm s" and nm: "nm = name_of e"
  shows "core (snd (remove_client e c s)) = (core s)\<lparr>co_set := client_set s - {c},
      co_clients := filter (\<lambda>p. snd p \<noteq> c) (clients s)\<rparr>"
    "fst (remove_client e c s) = (c \<in> client_set s)"
proof -
  note i = server_invD [OF inv]
  show "fst (remove_client e c s) = (c \<in> client_set s)"
    by (simp add: remove_client_def Let_def)
  show "core (snd (remove_client e c s)) = (core s)\<lparr>co_set := client_set s - {c},
      co_clients := filter (\<lambda>p. snd p \<noteq> c) (clients s)\<rparr>"
  proof (cases "c \<in> client_set s")
    case False
    then have "filter (\<lambda>p. snd p \<noteq> c) (clients s) = clients s"
      using i(5) by (force intro: filter_True)
    with False show ?thesis by (simp add: remove_client_def core_def)
  next
    case True
    let ?n = "get_name e s c"
    obtain n where n: "(n, c) \<in> set (clients s)" using True i(5) by auto
    then have "n = ?n" using i(4) [OF n] by (simp add: nm get_name_client_name)
    with n have nc: "(?n, c) \<in> set (clients s)" by simp
    have same: "fst p = ?n \<longleftrightarrow> snd p = c" if p: "p \<in> set (clients s)" for p
    proof
      assume "fst p = ?n"
      then have "om_find string_less ?n (clients s) = Some p"
        using plain.find_member [OF i(2), of "fst p" "snd p" ?n] p by (cases p) simp
      then show "snd p = c" using plain.find_member [OF i(2) nc] by auto
    next
      assume "snd p = c"
      then show "fst p = ?n" using i(4) [OF p] by (simp add: nm get_name_client_name)
    qed
    have "filter (\<lambda>p. \<not> same_key string_less ?n (fst p)) (clients s) = filter (\<lambda>p. snd p \<noteq> c) (clients s)"
      by (rule filter_cong [OF refl]) (use same in \<open>auto simp: eq_commute\<close>)
    then have "om_erase string_less ?n (clients s) = filter (\<lambda>p. snd p \<noteq> c) (clients s)"
      unfolding plain.erase_filter [OF i(2)] .
    with True show ?thesis
      by (simp add: remove_client_def get_name_emit Let_def core_def) (simp add: emit_def)
  qed
qed

definition leaves :: "(cid \<Rightarrow> string) \<Rightarrow> cid \<Rightarrow> ('a, 'f) server \<Rightarrow> ('a, 'f) server \<Rightarrow> bool" where
  "leaves nm c s s' \<longleftrightarrow> server_inv nm s' \<and> saver_settled s' \<and> client_set s' = client_set s - {c} \<and>
     clients s' = filter (\<lambda>p. snd p \<noteq> c) (clients s) \<and> sconfig s' = sconfig s \<and> primary s' = primary s"

lemma leaves_core: "leaves nm c s t \<Longrightarrow> core t' = core t \<Longrightarrow> leaves nm c s t'"
  using server_inv_core core_fields [of t' t] unfolding leaves_def saver_settled_def by metis

lemma force_leaves:
  assumes "server_inv nm s" "saver_settled s" "c \<noteq> primary s"
    and "core t = (core s)\<lparr>co_set := client_set s - {c}, co_clients := filter (\<lambda>p. snd p \<noteq> c) (clients s),
      co_old := old\<rparr>"
    and "om_sorted (<) old" "fst ` set old \<inter> (client_set s - {c}) = {}"
  shows "leaves nm c s (force_leave_client e c t)"
  unfolding leaves_def using force_leave_inv [OF assms] by simp

lemma close_client_leaves:
  assumes inv: "server_inv nm s" and nm: "nm = name_of e" and settled: "saver_settled s"
    and close: "close_client e c msg s = Some s'"
  shows "leaves nm c s s'"
proof -
  note i = server_invD [OF inv]
  let ?s1 = "emit (Close_Client c msg) s"
  let ?s2 = "emit (New_Timer (next_timer ?s1)) (?s1\<lparr>next_timer := Suc (next_timer ?s1)\<rparr>)"
  let ?s3 = "snd (remove_client e c ?s2)"
  let ?old = "om_emplace (<) c (next_timer ?s1) (old_clients ?s3)"
  have c: "c \<noteq> primary s" and s': "s' = force_leave_client e c (?s3\<lparr>old_clients := ?old\<rparr>)"
    using close by (auto simp: close_client_def Let_def split: if_splits)
  have k2: "core ?s2 = core s" by (simp add: core_simps)
  note f2 = core_fields [OF k2]
  have k3: "core ?s3 = (core s)\<lparr>co_set := client_set s - {c},
      co_clients := filter (\<lambda>p. snd p \<noteq> c) (clients s)\<rparr>"
    using remove_client_core(1) [OF server_inv_core [OF k2 inv] nm, of c] unfolding k2 f2 .
  then have old3: "old_clients ?s3 = old_clients s" by (simp add: core_def)
  have "om_sorted (<) ?old" using ord.emplace_sorted [OF i(3)] unfolding old3 by blast
  moreover have "fst ` set ?old \<inter> (client_set s - {c}) = {}"
    using i(12) ord.emplace_set [OF i(3), of c] unfolding old3 by auto
  moreover have "core (?s3\<lparr>old_clients := ?old\<rparr>) = (core s)\<lparr>co_set := client_set s - {c},
      co_clients := filter (\<lambda>p. snd p \<noteq> c) (clients s), co_old := ?old\<rparr>"
    unfolding core_client_tables k3 by simp
  ultimately show ?thesis
    using force_leaves [OF inv settled c] s' by blast
qed

lemma erased_old_inv:
  assumes inv: "server_inv nm t"
  shows "server_inv nm (t\<lparr>old_clients := om_erase (<) c' (old_clients t)\<rparr>)"
proof (rule server_invI)
  note i = server_invD [OF inv]
  let ?t = "t\<lparr>old_clients := om_erase (<) c' (old_clients t)\<rparr>"
  show "om_sorted (<) (old_clients ?t)" using ord.erase_sorted [OF i(3)] by simp
  show "fst ` set (old_clients ?t) \<inter> client_set ?t = {}"
    using i(12) ord.erase_filter [OF i(3), of c'] by auto
qed (use server_invD [OF inv] in \<open>simp_all add: server_invD(4) [OF inv]\<close>)

lemma remove_old_client_inv:
  assumes "leaves nm c s t"
  shows "leaves nm c s (remove_old_client c' t)"
proof (cases "om_get (<) c' (old_clients t)")
  case None
  then show ?thesis using assms by (simp add: remove_old_client_def)
next
  case (Some n)
  let ?t = "t\<lparr>old_clients := om_erase (<) c' (old_clients t)\<rparr>"
  have "server_inv nm t" using assms by (simp add: leaves_def)
  then have "server_inv nm ?t" by (rule erased_old_inv)
  then have "leaves nm c s ?t" using assms by (auto simp: leaves_def saver_settled_def)
  moreover have "core (remove_old_client c' t) = core ?t"
    using Some by (simp add: remove_old_client_def Let_def core_simps)
  ultimately show ?thesis by (rule leaves_core)
qed

lemma keeps_remove_old_client:
  assumes inv: "server_inv nm s" and "saver_settled s" and "c \<notin> client_set s"
  shows "leaves nm c s (remove_old_client c' s)"
proof (rule remove_old_client_inv)
  have "filter (\<lambda>p. snd p \<noteq> c) (clients s) = clients s"
    using assms server_invD(5) [OF inv] by (force intro: filter_True)
  then show "leaves nm c s s" using assms by (simp add: leaves_def)
qed

lemma disconnected_leaves:
  assumes inv: "server_inv nm s" and nm: "nm = name_of e" and settled: "saver_settled s"
    and c: "c \<noteq> primary s"
  shows "leaves nm c s (handle_client_disconnected e c s)"
proof -
  note i = server_invD [OF inv]
  have active: "leaves nm c s (remove_active_client e c s)"
  proof (cases "c \<in> client_set s")
    case False
    then have "remove_active_client e c s = s"
      by (simp add: remove_active_client_def remove_client_def)
    moreover have "filter (\<lambda>p. snd p \<noteq> c) (clients s) = clients s"
      using False i(5) by (force intro: filter_True)
    ultimately show ?thesis using False inv settled by (simp add: leaves_def)
  next
    case True
    obtain s1 where r: "remove_client e c s = (True, s1)"
      using remove_client_core(2) [OF inv nm, of c] True by (cases "remove_client e c s") auto
    have k: "core s1 = (core s)\<lparr>co_set := client_set s - {c},
        co_clients := filter (\<lambda>p. snd p \<noteq> c) (clients s)\<rparr>"
      using remove_client_core(1) [OF inv nm, of c] by (simp add: r)
    have "leaves nm c s (force_leave_client e c s1)"
      by (rule force_leaves [OF inv settled c, of _ "old_clients s"]) (use i k in \<open>auto simp: core_def\<close>)
    then show ?thesis
      by (rule leaves_core) (simp add: remove_active_client_def r core_simps Let_def)
  qed
  then have "leaves nm c s (remove_old_client c (remove_active_client e c s))"
    by (rule remove_old_client_inv)
  then show ?thesis
    by (rule leaves_core) (simp add: handle_client_disconnected_def core_simps Let_def)
qed

text \<open>Closing several clients.\<close>

lemma close_all_leaves:
  assumes "close_all e msg cs s = Some s'" and "nm = name_of e"
    and "server_inv nm s" and "saver_settled s"
  shows "server_inv nm s' \<and> saver_settled s' \<and> client_set s' = client_set s - set cs \<and>
    clients s' = filter (\<lambda>p. snd p \<notin> set cs) (clients s) \<and> sconfig s' = sconfig s \<and> primary s' = primary s"
  using assms
proof (induction cs arbitrary: s)
  case Nil
  then show ?case by simp
next
  case (Cons c cs)
  then obtain t where t: "close_client e c msg s = Some t" "close_all e msg cs t = Some s'"
    by (auto split: option.splits)
  have "leaves nm c s t" by (rule close_client_leaves [OF Cons.prems(3,2,4) t(1)])
  then have l: "server_inv nm t" "saver_settled t" "client_set t = client_set s - {c}"
    "clients t = filter (\<lambda>p. snd p \<noteq> c) (clients s)" "sconfig t = sconfig s" "primary t = primary s"
    by (simp_all add: leaves_def)
  from Cons.IH [OF t(2) Cons.prems(2) l(1,2)] show ?case
    unfolding l by (auto simp: conj_commute insert_commute intro: filter_cong)
qed

section \<open>Changing the configuration\<close>

definition known :: "(cid \<Rightarrow> string) \<Rightarrow> ('a, 'f) server \<Rightarrow> bool" where
  "known nm s \<longleftrightarrow> (\<forall>c\<in>client_set s. is_screen (nm c) (sconfig s))"

definition renames :: "(cid \<Rightarrow> string) \<Rightarrow> ('a, 'f) config \<Rightarrow> ('a, 'f) server \<Rightarrow> bool" where
  "renames nm cfg s \<longleftrightarrow> (\<exists>c\<in>client_set s. client_name nm cfg c \<noteq> client_name nm (sconfig s) c)"

lemma new_config_inv:
  assumes inv: "server_inv nm s" and cfg: "config_inv cfg" and same: "\<not> renames nm cfg s"
  shows "server_inv nm (s\<lparr>sconfig := cfg\<rparr>)"
proof -
  note i = server_invD [OF inv]
  have "fst p = client_name nm cfg (snd p)" if "p \<in> set (clients s)" for p
  proof -
    have "snd p \<in> client_set s" using i(5) that by auto
    then show ?thesis using i(4) [OF that] same by (simp add: renames_def)
  qed
  with cfg show ?thesis by (intro server_invI) (use i in simp_all)
qed

lemma keeps_process_option: "keeps nm s (snd (process_option ov (rel, s)))"
proof -
  have core1: "keeps nm s (stop_wait (s\<lparr>wait_delay := d\<rparr>))" for d
    by (rule keeps_trans [OF keeps_core keeps_stop_wait]) (simp add: core_simps)
  show ?thesis
    by (cases ov) (simp add: process_option_def core1 keeps_refl; (intro conjI impI keeps_core)?; simp add: core_simps)
qed

lemma keeps_process_options: "keeps nm s (process_options e s)"
proof (cases "get_options [] (sconfig s)")
  case None
  then show ?thesis by (auto simp: process_options_def)
next
  case (Some os)
  have fold: "keeps nm s (snd (fold process_option os (rel, s)))" for rel
  proof (induction os arbitrary: rel s)
    case (Cons ov os)
    obtain rel' s' where r: "process_option ov (rel, s) = (rel', s')" by fastforce
    have "keeps nm s s'" using keeps_process_option [of nm s ov rel] r by simp
    also have "keeps nm s' (snd (fold process_option os (rel', s')))" by (rule Cons.IH)
    finally show ?case using r by simp
  qed auto
  obtain rel s1 where f: "fold process_option os (relative_moves s, s) = (rel, s1)" by fastforce
  have "keeps nm s s1" using fold [of "relative_moves s"] f by simp
  moreover have "core (process_options e s) = core s1"
    using f Some by (simp add: process_options_def core_simps Let_def)
  ultimately show ?thesis by (blast intro: keeps_trans keeps_core)
qed

lemma dropped_set: "set (dropped_clients cfg s) =
    {c. c \<noteq> primary s \<and> (\<exists>n. (n, c) \<in> set (clients s) \<and> \<not> is_canonical_name n cfg)}"
  by (auto simp: dropped_clients_def image_iff)

definition reload :: "env \<Rightarrow> ('a, 'f) config \<Rightarrow> ('a, 'f) server \<Rightarrow> (bool \<times> ('a, 'f) server) option" where
  "reload e cfg s = set_config e cfg (s\<lparr>sconfig := cfg\<rparr>)"

lemma canonical_client_known:
  assumes "is_canonical_name (client_name nm cfg c) cfg" and "config_inv cfg"
  shows "is_screen (nm c) cfg"
proof (rule ccontr)
  assume none: "\<not> is_screen (nm c) cfg"
  then have "om_find caseless_less (nm c) (cfg_names cfg) = None"
    unfolding is_screen_def om_contains_def by blast
  then have "client_name nm cfg c = nm c" "get_canonical_name (nm c) cfg = []"
    by (simp_all add: client_name_def get_canonical_name_def)
  with assms(1) show False by (simp add: is_canonical_name_def)
qed

lemma set_config_inv:
  assumes inv: "server_inv nm s" and nm: "nm = name_of e" and settled: "saver_settled s"
    and res: "set_config e cfg s = Some (True, s')" and cfg: "sconfig s = cfg"
  shows "server_inv nm s'" "known nm s'" "client_set s' = client_set s - set (dropped_clients cfg s)"
proof -
  have pr: "is_screen (nm (primary s)) cfg"
    using res nm by (auto simp: set_config_def split: if_splits)
  then obtain s1 where s1: "close_clients e cfg s = Some s1"
    using res nm by (auto simp: set_config_def split: option.splits)
  have c1: "server_inv nm s1" "client_set s1 = client_set s - set (dropped_clients cfg s)"
    "sconfig s1 = sconfig s" "primary s1 = primary s"
    using close_all_leaves [OF s1 [unfolded close_clients_def] nm inv settled] by simp_all
  have known: "is_screen (nm c) cfg" if "c \<in> client_set s1" for c
  proof (cases "c = primary s")
    case False
    have "c \<in> client_set s" using that c1(2) by blast
    then obtain n where n: "(n, c) \<in> set (clients s)" using server_invD(5) [OF inv] by auto
    then have "is_canonical_name n cfg" using that False c1(2) dropped_set [of cfg s] by blast
    moreover have "n = client_name nm cfg c" using server_invD(4) [OF inv n] cfg by simp
    ultimately show ?thesis using canonical_client_known server_invD(1) [OF inv] cfg by metis
  qed (use pr in simp)
  let ?s2 = "process_options e s1"
  have k2: "keeps nm s1 ?s2" by (rule keeps_process_options)
  have "core s' = core ?s2"
    using res s1 pr nm by (auto simp: set_config_def Let_def core_simps split: if_splits)
  then have k: "keeps nm s1 s'" by (blast intro: keeps_trans [OF k2] keeps_core)
  show "server_inv nm s'" by (rule keepsD(1) [OF k c1(1)])
  show "known nm s'" using known keepsD [OF k c1(1)] c1(3) cfg by (simp add: known_def)
  show "client_set s' = client_set s - set (dropped_clients cfg s)" using keepsD [OF k c1(1)] c1(2) by simp
qed

section \<open>Automatic placement\<close>

lemma connect_names: "connect s side a b d a' b' c = Some (ok, c') \<Longrightarrow> cfg_names c' = cfg_names c"
  by (elim connect_result) simp_all

lemma add_screen_keeps_names:
  assumes "config_inv cfg" and "is_screen n cfg"
  shows "om_find caseless_less n (cfg_names (snd (add_screen al name cfg))) = om_find caseless_less n (cfg_names cfg)"
proof (cases "om_contains caseless_less name (cfg_names cfg)")
  case False
  note i = config_invD [OF assms(1)]
  have n: "om_find caseless_less n (cfg_names cfg) \<noteq> None"
    using assms(2) by (auto simp: is_screen_def om_contains_def)
  let ?n1 = "om_emplace caseless_less name name (cfg_names cfg)"
  have "om_find caseless_less n (add_aliases name (al name) ?n1) = om_find caseless_less n ?n1"
    using add_aliases_old caseless.emplace_sorted [OF i(2)] find_emplace_old [OF i(2) n] n by metis
  with False find_emplace_old [OF i(2) n] show ?thesis by (simp add: add_screen_def Let_def)
qed (simp add: add_screen_def)

lemma apply_placement_config:
  assumes "apply_placement al name anchor d cfg = Some cfg'" and inv: "config_inv cfg"
  shows "config_inv cfg'" "is_screen n cfg \<Longrightarrow> get_canonical_name n cfg' = get_canonical_name n cfg"
    "is_screen n cfg \<Longrightarrow> is_screen n cfg'"
proof -
  let ?c0 = "snd (add_screen al name cfg)"
  obtain ok1 c1 ok2 where c: "connect anchor d 0 1 name 0 1 ?c0 = Some (ok1, c1)"
    "connect name (opposite d) 0 1 anchor 0 1 c1 = Some (ok2, cfg')"
    using assms(1) by (auto simp: apply_placement_def split: option.splits)
  show "config_inv cfg'"
    using connect_inv [OF connect_inv [OF add_screen_inv [OF inv] c(1)] c(2)] .
  have "om_find caseless_less n (cfg_names cfg') = om_find caseless_less n (cfg_names cfg)"
    if "is_screen n cfg" for n
    using add_screen_keeps_names [OF inv that] connect_names [OF c(1)] connect_names [OF c(2)] by simp
  then show "is_screen n cfg \<Longrightarrow> get_canonical_name n cfg' = get_canonical_name n cfg"
    "is_screen n cfg \<Longrightarrow> is_screen n cfg'"
    by (simp_all add: get_canonical_name_def is_screen_def om_contains_def)
qed

lemma added_is_screen:
  assumes "config_inv cfg"
  shows "is_screen name (snd (add_screen al name cfg))"
proof (cases "om_contains caseless_less name (cfg_names cfg)")
  case False
  note i = config_invD [OF assms]
  let ?n1 = "om_emplace caseless_less name name (cfg_names cfg)"
  have "om_contains caseless_less name (add_aliases name (al name) ?n1)"
    using add_aliases_contains [OF caseless.emplace_sorted [OF i(2)]] contains_emplace [OF i(2)] by simp
  with False show ?thesis by (simp add: add_screen_def is_screen_def Let_def)
qed (simp add: add_screen_def is_screen_def)

lemma placed_is_screen:
  assumes "apply_placement al name anchor d cfg = Some cfg'" and inv: "config_inv cfg"
  shows "is_screen name cfg'"
proof -
  let ?c0 = "snd (add_screen al name cfg)"
  obtain ok1 c1 ok2 where c: "connect anchor d 0 1 name 0 1 ?c0 = Some (ok1, c1)"
    "connect name (opposite d) 0 1 anchor 0 1 c1 = Some (ok2, cfg')"
    using assms(1) by (auto simp: apply_placement_def split: option.splits)
  then show ?thesis
    using added_is_screen [OF inv] connect_names [OF c(1)] connect_names [OF c(2)] by (simp add: is_screen_def)
qed

lemma welcome_client_inv:
  assumes inv: "server_inv nm s" and nm: "nm = name_of e" and settled: "saver_settled s"
    and known: "known nm s" and scr: "is_screen (nm c) (sconfig s)"
    and fresh: "c \<notin> client_set s" "c \<notin> fst ` set (old_clients s)"
    and res: "welcome_client e c s = Some s'"
  shows "server_inv nm s'" "known nm s'"
proof -
  obtain ok s1 where a: "add_client e c s = (ok, s1)" by fastforce
  have "server_inv nm s' \<and> known nm s'"
  proof (cases ok)
    case False
    then have "close_client e c ''EBSY'' s = Some s'"
      using res a add_client_refused [of e c s s1] by (simp add: welcome_client_def)
    from close_client_leaves [OF inv nm settled this] known show ?thesis
      by (auto simp: leaves_def known_def)
  next
    case True
    note add = add_client_inv [OF inv nm fresh(2) a [unfolded eqTrueI [OF True]]]
    have "core s' = core s1"
      using res a True by (auto simp: welcome_client_def Let_def core_simps)
    then have "keeps nm s1 s'" by (rule keeps_core)
    from keepsD [OF this add(1)] known scr show ?thesis by (simp add: known_def add)
  qed
  then show "server_inv nm s'" "known nm s'" by simp_all
qed

lemma adopt_client_inv:
  assumes inv: "server_inv nm s" and nm: "nm = name_of e" and settled: "saver_settled s"
    and known: "known nm s" and fresh: "c \<notin> client_set s" "c \<notin> fst ` set (old_clients s)"
    and res: "adopt_client e al file enc saved c s = Some s'"
  shows "server_inv nm s'" "known nm s'"
proof -
  let ?s1 = "emit (Add_Disconnect_Handler c) s"
  have k: "core ?s1 = core s" by (simp add: core_simps)
  note f = core_fields [OF k]
  have inv1: "server_inv nm ?s1" by (rule server_inv_core [OF k inv])
  have settled1: "saver_settled ?s1" using settled f by (simp add: saver_settled_def)
  have known1: "known nm ?s1" using known f by (simp add: known_def)
  consider "welcome_client e c ?s1 = Some s'" "is_screen (nm c) (sconfig s)"
    | "close_client e c ''EUNK'' ?s1 = Some s'"
    | anchor d cfg' where "apply_placement al (nm c) anchor d (sconfig s) = Some cfg'"
      "welcome_client e c (emit Publish_Layout (?s1\<lparr>sconfig := cfg'\<rparr>)) = Some s'"
    using res nm f(3) by (auto simp: adopt_client_def Let_def split: if_splits option.splits layout_file.splits)
  then have "server_inv nm s' \<and> known nm s'"
  proof cases
    case 1
    then show ?thesis
      using welcome_client_inv [OF inv1 nm settled1 known1, of c] fresh f by simp
  next
    case 2
    from close_client_leaves [OF inv1 nm settled1 this] known1 show ?thesis
      by (auto simp: leaves_def known_def)
  next
    case (3 anchor d cfg')
    note c = apply_placement_config [OF 3(1) server_invD(1) [OF inv]]
    let ?s2 = "?s1\<lparr>sconfig := cfg'\<rparr>"
    have "\<not> renames nm cfg' ?s1"
      using c(2) known f by (auto simp: renames_def client_name_def known_def Let_def)
    then have "server_inv nm ?s2" by (rule new_config_inv [OF inv1 c(1)])
    then have inv2: "server_inv nm (emit Publish_Layout ?s2)" by (rule server_inv_core [rotated]) (simp add: core_simps)
    have "known nm (emit Publish_Layout ?s2)" using c(3) known f by (simp add: known_def emit_def)
    then show ?thesis
      using welcome_client_inv [OF inv2 nm, of c s'] 3(2) settled fresh placed_is_screen [OF 3(1) server_invD(1) [OF inv]]
      by (simp add: saver_settled_def emit_def)
  qed
  then show "server_inv nm s'" "known nm s'" by simp_all
qed

end
