(* ===== verification/Server_Runs.thy ===== *)
theory Server_Runs
  imports Server_Reach
begin

text \<open>
  The runs of the server: its constructor and one rule for every event it handles, with the
  answers of clients and clock chosen freely at every step. All reachable states satisfy the
  invariant. The guards say when an event can be delivered (a timer fires only if it is set) and
  what is assumed of the surroundings: a client connects only once, nobody disconnects while
  the screen saver is unsettled, and a reload neither renames a connected screen nor drops
  the primary.
\<close>

section \<open>Construction\<close>

definition kKeyModifierScrollLock :: u32 where "kKeyModifierScrollLock = 0x4000"

text \<open>The members before the constructor's body; the positions are not initialised.\<close>

definition bare_server :: "cid \<Rightarrow> ('a, 'f) config \<Rightarrow> (nat \<Rightarrow> int) \<Rightarrow> rat \<Rightarrow> ('a, 'f) server" where
  "bare_server pc cfg junk t0 =
     (let clip = \<lparr>ci_clipboard = cb_init, ci_data = [], ci_owner = [], ci_seq = 0\<rparr> in
      \<lparr>primary = pc, active = pc, sconfig = cfg, active_saver = None, switch_screen = None,
       wait_delay = 0, wait_timer = None, tap_delay = 0, max_clip_size = 2147483647, tap_mark = t0,
       kb_screens = [], clients = [], client_set = {}, old_clients = [], clips = [clip, clip],
       seq_num = 0, mx = junk 0, my = junk 1, xDelta = 0, yDelta = 0, xDelta2 = 0, yDelta2 = 0,
       xSaver = junk 2, ySaver = junk 3, wait_x = junk 4, wait_y = junk 5, tap_zone = 3,
       switch_dir = NoDirection, tap_engaged = False, tap_armed = False, relative_moves = False,
       kb_broadcasting = False, locked = False, default_lock = False, disable_lock = False,
       enable_clip = True, jump_pos = (\<lambda>_. (0, 0)), next_timer = 0, out = []\<rparr>)"

definition init_clip :: "string \<Rightarrow> nat \<Rightarrow> ('a, 'f) server \<Rightarrow> ('a, 'f) server" where
  "init_clip owner k s =
     clear_clip k (set_clip k ((clips s ! k)\<lparr>ci_owner := owner, ci_seq := seq_num s\<rparr>) s)"

definition lock_initially :: "env \<Rightarrow> ('a, 'f) server \<Rightarrow> ('a, 'f) server" where
  "lock_initially e s =
     (if \<not> disable_lock s \<and> toggle_mask e AND kKeyModifierScrollLock \<noteq> 0 then s\<lparr>locked := True\<rparr>
      else if default_lock s then s\<lparr>locked := True\<rparr> else s)"

definition server_init ::
    "env \<Rightarrow> cid \<Rightarrow> ('a, 'f) config \<Rightarrow> (nat \<Rightarrow> int) \<Rightarrow> rat \<Rightarrow> ('a, 'f) server option" where
  "server_init e pc cfg junk t0 =
     (if \<not> is_screen (name_of e pc) cfg then None
      else
        let s0 = bare_server pc cfg junk t0;
            s1 = init_clip (get_name e s0 pc) 1 (init_clip (get_name e s0 pc) 0 s0);
            s2 = snd (add_client e pc s1)
        in map_option (\<lambda>r. lock_initially e (snd r)) (set_config e cfg s2))"

lemma core_init_clip: "core (init_clip owner k s) = core s"
  by (simp add: init_clip_def core_simps)

lemma core_lock_initially: "core (lock_initially e s) = core s"
  by (simp add: lock_initially_def core_simps)

text \<open>The state after the primary has been added.\<close>

lemma first_client:
  fixes cfg :: "('a, 'f) config" and pc :: cid and junk :: "nat \<Rightarrow> int" and t0 :: rat
  assumes cfg: "config_inv cfg" and nm: "nm = name_of e"
  defines "s0 \<equiv> bare_server pc cfg junk t0"
  defines "s2 \<equiv> snd (add_client e pc (init_clip (get_name e s0 pc) 1 (init_clip (get_name e s0 pc) 0 s0)))"
  shows "server_inv nm s2" "saver_settled s2" "sconfig s2 = cfg" "primary s2 = pc" "client_set s2 = {pc}"
proof -
  let ?n = "get_name e s0 pc"
  let ?s1 = "init_clip ?n 1 (init_clip ?n 0 s0)"
  have k1: "core ?s1 = core s0" by (simp add: core_init_clip)
  note f1 = core_fields [OF k1]
  have n1: "get_name e ?s1 pc = ?n" by (metis get_name_client_name f1(3))
  obtain ok s' where a: "add_client e pc ?s1 = (ok, s')" by fastforce
  then have s': "s' = s2" by (simp add: s2_def)
  have "ok" using a f1(7) by (auto simp: add_client_def om_contains_def s0_def bare_server_def Let_def)
  note k2 = add_client_core(1) [OF a [unfolded eqTrueI [OF this] s'], unfolded k1 n1 f1]
  have f2: "primary s2 = pc" "active s2 = pc" "sconfig s2 = cfg" "active_saver s2 = None"
    "switch_screen s2 = None" "wait_timer s2 = None" "clients s2 = [(?n, pc)]" "client_set s2 = {pc}"
    "old_clients s2 = []" "switch_dir s2 = NoDirection" "length (clips s2) = clipboard_end"
    using k2 by (simp_all add: core_def s0_def bare_server_def Let_def clipboard_end_def)
  then show "sconfig s2 = cfg" "primary s2 = pc" "client_set s2 = {pc}" by simp_all
  show "saver_settled s2" by (simp add: saver_settled_def f2)
  show "server_inv nm s2"
    unfolding server_inv_eq f2 using cfg
    by (simp add: om_sorted_def get_name_client_name nm) (simp add: s0_def bare_server_def Let_def)
qed

lemma server_init_inv:
  assumes init: "server_init e pc cfg junk t0 = Some s" and cfg: "config_inv cfg" and nm: "nm = name_of e"
  shows "server_inv nm s" "known nm s"
proof -
  let ?s0 = "bare_server pc cfg junk t0"
  let ?s2 = "snd (add_client e pc (init_clip (get_name e ?s0 pc) 1 (init_clip (get_name e ?s0 pc) 0 ?s0)))"
  note f = first_client [OF cfg nm, of pc junk t0]
  obtain ok s3 where s3: "set_config e cfg ?s2 = Some (ok, s3)" "s = lock_initially e s3"
    using init by (auto simp: server_init_def Let_def split: if_splits)
  have "ok" using s3(1) init f(4) by (auto simp: set_config_def server_init_def Let_def split: if_splits option.splits)
  note c3 = set_config_inv [OF f(1) nm f(2) s3(1) [unfolded eqTrueI [OF this]] f(3)]
  have "core s = core s3" using s3(2) by (simp add: core_lock_initially)
  note ks = keeps_core [OF this, of nm]
  show "server_inv nm s" using keepsD(1) [OF ks c3(1)] .
  show "known nm s" using keepsD [OF ks c3(1)] c3(2) by (simp add: known_def)
qed

text \<open>Construction fails no assertion if the primary is in the configuration.\<close>

lemma server_init_returns:
  assumes "config_inv cfg" and scr: "is_screen (name_of e pc) cfg"
  shows "\<exists>s. server_init e pc cfg junk t0 = Some s"
proof -
  let ?s0 = "bare_server pc cfg junk t0"
  let ?s2 = "snd (add_client e pc (init_clip (get_name e ?s0 pc) 1 (init_clip (get_name e ?s0 pc) 0 ?s0)))"
  note f = first_client [OF assms(1) refl, of e pc junk t0]
  have "c = pc" if "(n, c) \<in> set (clients ?s2)" for n c
    using client_in_set [OF f(1) that] unfolding f(5) by simp
  then have "set (dropped_clients cfg ?s2) = {}" unfolding dropped_set f(4) by blast
  then have "close_clients e cfg ?s2 = Some ?s2" by (simp add: close_clients_def)
  then have "\<exists>r. set_config e cfg ?s2 = Some r"
    using scr f(4) by (auto simp: set_config_def Let_def)
  then show ?thesis using scr by (auto simp: server_init_def Let_def)
qed

section \<open>Steps\<close>

text \<open>
  The steps are the handlers of the server on the events that can come: a timer fires when it is
  set, a new client is a new object, and the reader of the configuration keeps its invariant. The
  first argument tells the steps apart that an orderly run restricts.
\<close>

datatype ('a, 'f) server_event = Handles | Connects cid | Leaves cid | Reloads "('a, 'f) config"

inductive server_step :: "(cid \<Rightarrow> string) \<Rightarrow> ('a, 'f) server_event \<Rightarrow> ('a, 'f) server \<Rightarrow> ('a, 'f) server \<Rightarrow> bool" for nm where
  motion_primary: "server_step nm Handles s s'"
    if "on_mouse_move_primary e x y s = Some (b, s')" and "name_of e = nm"
| motion_secondary: "server_step nm Handles s s'"
    if "on_mouse_move_secondary e mult dx dy s = Some s'" and "name_of e = nm"
| wheel: "server_step nm Handles s (on_mouse_wheel dx dy s)"
| button_down: "server_step nm Handles s (on_mouse_down b s)"
| button_up: "server_step nm Handles s (on_mouse_up b s)"
| key_down: "server_step nm Handles s (handle_key_down lang i s)"
| key_up: "server_step nm Handles s (handle_key_up i s)"
| key_repeat: "server_step nm Handles s (handle_key_repeat lang i s)"
| timeout: "server_step nm Handles s s'"
    if "handle_switch_wait_timeout e s = Some s'" and "wait_timer s \<noteq> None" and "name_of e = nm"
| screensaver: "server_step nm Handles s s'"
    if "on_screensaver e activated s = Some s'" and "name_of e = nm"
| switch_to: "server_step nm Handles s s'"
    if "handle_switch_to_screen e name s = Some s'" and "name_of e = nm"
| switch_direction: "server_step nm Handles s s'"
    if "handle_switch_in_direction e dir s = Some s'" and "name_of e = nm"
| toggle_screen: "server_step nm Handles s s'"
    if "handle_toggle_screen e s = Some s'" and "name_of e = nm"
| broadcast: "server_step nm Handles s (handle_keyboard_broadcast t scr s)"
| lock: "server_step nm Handles s (handle_lock_cursor e t s)" if "name_of e = nm"
| emergency: "server_step nm Handles s s'"
    if "handle_emergency_return e s = Some s'" and "name_of e = nm"
| shape: "server_step nm Handles s s'"
    if "handle_shape_changed e mult c s = Some s'" and "name_of e = nm"
| clip_grabbed: "server_step nm Handles s s'"
    if "handle_clipboard_grabbed e c k n s = Some s'" and "name_of e = nm"
| clip_changed: "server_step nm Handles s s'"
    if "handle_clipboard_changed e c k n s = Some s'" and "name_of e = nm"
| adopt: "server_step nm (Connects c) s s'"
    if "adopt_client e al stored enc saved c s = Some s'" and "name_of e = nm"
      and "c \<notin> client_set s" and "c \<notin> fst ` set (old_clients s)"
| disconnected: "server_step nm (Leaves c) s (handle_client_disconnected e c s)"
    if "c \<noteq> primary s" and "name_of e = nm"
| close_timeout: "server_step nm Handles s (handle_client_close_timeout c s)"
    if "c \<in> fst ` set (old_clients s)"
| reloaded: "server_step nm (Reloads cfg) s s'"
    if "reload e cfg s = Some (accepted, s')" and "config_inv cfg" and "name_of e = nm"

text \<open>
  A run is orderly if no client comes or goes and no configuration is loaded while the screen saver
  is active and the user has switched away from the screen it has to return to, other than to the primary,
  and every configuration that is loaded has the primary as a screen, so that it is accepted, and
  calls no connected client by another name. The server does not see to either.
\<close>

definition orderly :: "(cid \<Rightarrow> string) \<Rightarrow> ('a, 'f) server_event \<Rightarrow> ('a, 'f) server \<Rightarrow> bool" where
  "orderly nm ev s \<longleftrightarrow>
     (case ev of
        Handles \<Rightarrow> True
      | Connects _ \<Rightarrow> saver_settled s
      | Leaves _ \<Rightarrow> saver_settled s
      | Reloads cfg \<Rightarrow> saver_settled s \<and> is_screen (nm (primary s)) cfg \<and> \<not> renames nm cfg s)"

inductive orderly_reach :: "(cid \<Rightarrow> string) \<Rightarrow> ('a, 'f) server \<Rightarrow> bool" for nm where
  start: "orderly_reach nm s"
    if "server_init e pc cfg junk t0 = Some s" and "config_inv cfg" and "name_of e = nm"
| step: "orderly_reach nm s'" if "orderly_reach nm s" and "server_step nm ev s s'" and "orderly nm ev s"

lemma keeps_known: "keeps nm s s' \<Longrightarrow> server_inv nm s \<and> known nm s \<Longrightarrow> server_inv nm s' \<and> known nm s'"
  by (simp add: keeps_def known_def)

lemma leaves_known: "leaves nm c s s' \<Longrightarrow> known nm s \<Longrightarrow> server_inv nm s' \<and> known nm s'"
  by (auto simp: leaves_def known_def)

lemma close_timeout_keeps: "server_inv nm s \<Longrightarrow> server_inv nm (handle_client_close_timeout c s) \<and>
    client_set (handle_client_close_timeout c s) = client_set s \<and>
    sconfig (handle_client_close_timeout c s) = sconfig s"
proof -
  assume inv: "server_inv nm s"
  note i = server_invD [OF inv]
  let ?t = "s\<lparr>old_clients := om_erase (<) c (old_clients s)\<rparr>"
  show ?thesis
  proof (cases "om_get (<) c (old_clients s)")
    case None
    then have "core (handle_client_close_timeout c s) = core s"
      by (simp add: handle_client_close_timeout_def remove_old_client_def core_simps)
    then show ?thesis using inv server_inv_core core_fields by metis
  next
    case (Some n)
    then have k: "core (handle_client_close_timeout c s) = core ?t"
      by (simp add: handle_client_close_timeout_def remove_old_client_def Let_def core_simps)
    then show ?thesis
      using server_inv_core [OF k erased_old_inv [OF inv]] core_fields [OF k] by simp
  qed
qed

lemma step_keeps_inv:
  assumes "server_step nm ev s s'" and "orderly nm ev s" and inv: "server_inv nm s \<and> known nm s"
  shows "server_inv nm s' \<and> known nm s'"
  using assms(1)
proof cases
  case (motion_primary e x y b)
  then show ?thesis using keeps_known [OF _ inv] sureD [OF keeps_mouse_primary, of e x y s "(b, s')" nm] by simp
next
  case (motion_secondary e mult dx dy)
  then show ?thesis using keeps_known [OF _ inv] sureD [OF keeps_mouse_secondary] by blast
next
  case (timeout e)
  then show ?thesis using keeps_known [OF _ inv] sureD [OF keeps_switch_wait_timeout] by blast
next
  case (screensaver e activated)
  then show ?thesis using keeps_known [OF _ inv] sureD [OF keeps_screensaver] by blast
next
  case (emergency e)
  then show ?thesis using keeps_known [OF _ inv] sureD [OF keeps_emergency_return] by blast
next
  case (shape e mult c)
  then show ?thesis using keeps_known [OF _ inv] sureD [OF keeps_shape_changed] by blast
next
  case (clip_grabbed e c k n)
  then show ?thesis using keeps_known [OF _ inv] sureD [OF keeps_clipboard_grabbed] by blast
next
  case (clip_changed e c k n)
  then show ?thesis using keeps_known [OF _ inv] sureD [OF keeps_clipboard_changed] by blast
next
  case (adopt e al stored enc saved c)
  moreover have "saver_settled s" using assms(2) adopt(1) by (simp add: orderly_def)
  ultimately show ?thesis using adopt_client_inv [of nm s e c al stored enc saved s'] inv by blast
next
  case (disconnected c e)
  moreover have "saver_settled s" using assms(2) disconnected(1) by (simp add: orderly_def)
  ultimately have "leaves nm c s s'" using disconnected_leaves inv by blast
  then show ?thesis by (rule leaves_known [OF _ conjunct2 [OF inv]])
next
  case (close_timeout c)
  then show ?thesis using close_timeout_keeps [of nm s c] inv by (simp add: known_def)
next
  case (reloaded e cfg accepted)
  let ?s0 = "s\<lparr>sconfig := cfg\<rparr>"
  have o: "saver_settled s" "is_screen (nm (primary s)) cfg" "\<not> renames nm cfg s"
    using assms(2) reloaded(1) by (simp_all add: orderly_def)
  have nm: "nm = name_of e" using reloaded(4) by (rule sym)
  have inv0: "server_inv nm ?s0" using reloaded(3) o(3) inv by (blast intro: new_config_inv)
  have settled0: "saver_settled ?s0" using o(1) by (simp add: saver_settled_def)
  have "accepted" using reloaded(2) o(2) nm by (auto simp: reload_def set_config_def Let_def split: option.splits)
  then have r: "set_config e cfg ?s0 = Some (True, s')" using reloaded(2) by (simp add: reload_def)
  show ?thesis
    using set_config_inv(1,2) [OF inv0 nm settled0 r] by simp
next
  case (switch_to e name)
  show ?thesis by (rule keeps_known [OF keeps_switch_to_screen [OF switch_to(2)] inv])
next
  case (switch_direction e dir)
  show ?thesis by (rule keeps_known [OF keeps_switch_in_direction [OF switch_direction(2)] inv])
next
  case (toggle_screen e)
  show ?thesis by (rule keeps_known [OF keeps_toggle_screen [OF toggle_screen(2)] inv])
qed (simp_all only: keeps_known [OF _ inv] keeps_input keeps_keyboard_broadcast keeps_lock_cursor)

lemma reach_inv:
  assumes "orderly_reach nm s"
  shows "server_inv nm s \<and> known nm s"
  using assms
proof induction
  case (start e pc cfg junk t0 s)
  then show ?case using server_init_inv [of e pc cfg junk t0 s nm] by blast
next
  case (step s ev s')
  then show ?case using step_keeps_inv by blast
qed

end
