(* ===== verification/Server_Props.thy ===== *)
theory Server_Props
  imports Server_Runs Server_Demo
begin

text \<open>
  The properties of the server: what holds in every reachable state, how a switch ends, where
  the cursor and the keys go, how clipboards are shared, and the situations in which the
  handlers leave the server in a state they do not intend.
\<close>

section \<open>Switching ends\<close>

lemma client_lookup:
  assumes "server_inv nm s" and "c \<in> client_set s"
  shows "om_get string_less (client_name nm (sconfig s) c) (clients s) = Some c"
proof -
  note i = server_invD [OF assms(1)]
  obtain n where n: "(n, c) \<in> set (clients s)" using assms(2) i(5) by auto
  then have "n = client_name nm (sconfig s) c" using i(4) [OF n] by simp
  with plain.find_member [OF i(2) n, of n] show ?thesis by (simp add: om_get_def)
qed

lemma update_primary_clip_returns:
  assumes "server_inv nm s" and "nm = name_of e" and "k < clipboard_end"
  shows "\<exists>s'. update_primary_clip e k s = Some s'"
proof -
  have "om_get string_less (get_name e s (primary s)) (clients s) = Some (primary s)"
    using client_lookup [OF assms(1) server_invD(6) [OF assms(1)]] assms(2)
    by (simp add: get_name_client_name)
  then show ?thesis
    using assms(3)
    by (auto simp: update_primary_clip_def on_clipboard_changed_def Let_def split: prod.split)
qed

lemma update_primary_clips_return:
  assumes "server_inv nm s" and "nm = name_of e"
  shows "\<exists>t. (if P then Option.bind (update_primary_clip e 0 s) (update_primary_clip e 1) else Some s) = Some t"
proof (cases P)
  case True
  obtain u where u: "update_primary_clip e 0 s = Some u"
    using update_primary_clip_returns [OF assms, of 0] by (auto simp: clipboard_end_def)
  have "server_inv nm u" using server_inv_core [OF core_update_primary_clip [OF u] assms(1)] .
  with True u update_primary_clip_returns [OF _ assms(2), of u 1] show ?thesis
    by (simp add: clipboard_end_def)
qed simp

lemma mxy_clip_ops:
  "mx (snd (marshall_clip k s)) = mx s" "my (snd (marshall_clip k s)) = my s"
  "mx (send_clip k s) = mx s" "my (send_clip k s) = my s"
  by (simp_all add: send_clip_def marshall_clip_def set_clip_def emit_def split: prod.split)

lemma mxy_on_clipboard_changed:
  "on_clipboard_changed e c k n s = Some s' \<Longrightarrow> mx s' = mx s \<and> my s' = my s"
  by (auto simp: on_clipboard_changed_def Let_def marshall_clip_def set_clip_def emit_def tell_dirty_def emits_def
      split: if_splits prod.splits)

lemma mxy_update_primary_clip: "update_primary_clip e k s = Some s' \<Longrightarrow> mx s' = mx s \<and> my s' = my s"
  by (auto simp: update_primary_clip_def mxy_on_clipboard_changed split: if_splits)

lemma mxy_update_primary_clips:
  assumes "(if P then Option.bind (update_primary_clip e j s) (update_primary_clip e k) else Some s) = Some t"
  shows "mx t = mx s \<and> my t = my s"
proof (cases P)
  case True
  with assms obtain u where "update_primary_clip e j s = Some u" "update_primary_clip e k u = Some t"
    by (auto simp: bind_eq_Some_conv)
  then show ?thesis using mxy_update_primary_clip by metis
qed (use assms in simp)

lemma enter_screen_fields:
  "active (enter_screen e dst x y b s) = dst" "mx (enter_screen e dst x y b s) = mx s"
  "my (enter_screen e dst x y b s) = my s"
  "switch_screen (enter_screen e dst x y b s) = switch_screen s"
  "wait_timer (enter_screen e dst x y b s) = wait_timer s"
proof -
  have "core (enter_screen e dst x y b s) = core (s\<lparr>active := dst\<rparr>)"
    by (simp add: enter_screen_def core_simps Let_def)
  from core_fields [OF this] show "active (enter_screen e dst x y b s) = dst"
    "switch_screen (enter_screen e dst x y b s) = switch_screen s"
    "wait_timer (enter_screen e dst x y b s) = wait_timer s" by simp_all
  show "mx (enter_screen e dst x y b s) = mx s" "my (enter_screen e dst x y b s) = my s"
    by (simp_all add: enter_screen_def Let_def emit_def mxy_clip_ops)
qed

lemma switch_returns:
  assumes inv: "server_inv nm s" and nm: "nm = name_of e"
  shows "\<exists>s'. switch_screen_to e dst x y b s = Some s' \<and>
    active s' = (if can_leave e (active s) then dst else active s) \<and> mx s' = x \<and> my s' = y \<and>
    switch_screen s' = None \<and> wait_timer s' = None"
proof -
  let ?s1 = "(stop_switch s)\<lparr>mx := x, my := y, xDelta := 0, yDelta := 0, xDelta2 := 0, yDelta2 := 0\<rparr>"
  let ?s2 = "emit (Leave (active ?s1)) ?s1"
  note f = stop_switch_fields [OF inv]
  have inv2: "server_inv nm ?s2" by (rule server_inv_core [OF _ stop_switch_inv [OF inv]]) (simp add: core_simps)
  obtain t where t: "(if active ?s2 = primary ?s2 \<and> enable_clip ?s2
      then Option.bind (update_primary_clip e 0 ?s2) (update_primary_clip e 1) else Some ?s2) = Some t"
    using update_primary_clips_return [OF inv2 nm] by blast
  note tc = core_fields [OF core_update_primary_clips [OF t]]
  have mt: "mx t = x" "my t = y" using mxy_update_primary_clips [OF t] by (simp_all add: emit_def)
  have tf: "switch_screen t = None" "wait_timer t = None"
    using tc f by (simp_all add: emit_def)
  have body: "switch_screen_to e dst x y b s = (if active ?s1 = dst then Some (emit (Mouse_Move dst x y) ?s1)
    else if \<not> can_leave e (active ?s2) then Some ?s2
    else map_option (enter_screen e dst x y b)
      (if active ?s2 = primary ?s2 \<and> enable_clip ?s2
       then Option.bind (update_primary_clip e 0 ?s2) (update_primary_clip e 1) else Some ?s2))"
    by (simp only: switch_screen_to_def Let_def)
  consider "active s = dst" | "active s \<noteq> dst" "\<not> can_leave e (active s)"
    | "active s \<noteq> dst" "can_leave e (active s)" by blast
  then show ?thesis
  proof cases
    case 1
    then have "switch_screen_to e dst x y b s = Some (emit (Mouse_Move dst x y) ?s1)"
      using f(4) unfolding body by simp
    with 1 f show ?thesis by (simp add: emit_def)
  next
    case 2
    then have "switch_screen_to e dst x y b s = Some ?s2"
      using f(4) unfolding body by (simp add: emit_def)
    with 2 f show ?thesis by (simp add: emit_def)
  next
    case 3
    then have "switch_screen_to e dst x y b s = Some (enter_screen e dst x y b t)"
      using f(4) unfolding body t by (simp add: emit_def)
    with 3 mt tf show ?thesis by (simp add: enter_screen_fields)
  qed
qed

section \<open>The example server\<close>

lemma demo_config_inv: "config_inv demo_config"
  by code_simp

lemma demo_is_screen: "is_screen ''host'' demo_config" "is_screen ''laptop'' demo_config"
  by code_simp+

lemma demo_reach: "\<exists>s :: (unit, unit) server. orderly_reach (name_of demo_env) s"
proof -
  have "\<exists>s. server_init demo_env 0 demo_config (\<lambda>_. 0) 0 = Some s"
    by (rule server_init_returns [OF demo_config_inv]) (simp add: demo_env_def demo_is_screen)
  then show ?thesis using orderly_reach.start [OF _ demo_config_inv refl] by blast
qed

definition waiting_server :: "(unit, unit) server" where
  "waiting_server = demo_server\<lparr>switch_screen := Some 1, switch_dir := Right, wait_timer := Some 0,
     wait_x := 1, wait_y := 31\<rparr>"

lemma waiting_inv: "server_inv (name_of demo_env) waiting_server"
  unfolding server_inv_eq waiting_server_def
  by (simp add: demo_config_inv om_sorted_def string_less_def) (simp add: demo_server_def demo_env_def clipboard_end_def client_name_def)

section \<open>Reachable states\<close>

text \<open>
  C1. The tables of the server. In every state of an orderly run the active screen, the primary, the
  screen saved for the screen saver and the destination of a pending switch are connected
  clients; every connected client is a screen of the configuration and is listed under its
  current name; a client waiting to hang up is not connected; and a running switch timer
  always has a destination. A run is orderly if clients come and go and configurations are
  loaded only when no screen saver is active or the active screen is the primary or the one that was
  active when the saver started, and if every loaded configuration has the primary as a screen and
  calls no connected client by a new name. All other events may come at any time and in any
  order. The server does not enforce this: without the first condition the active screen can be a
  deleted client (\<open>saver_leaves_dangling_active\<close>), without the last one a deleted client stays
  listed (\<open>renamed_client_stays_listed\<close>).
\<close>

theorem reachable_tables:
  assumes "orderly_reach nm s"
  shows "active s \<in> snd ` set (clients s) \<and> primary s \<in> snd ` set (clients s) \<and>
    (\<forall>c. active_saver s = Some c \<or> switch_screen s = Some c \<longrightarrow> c \<in> snd ` set (clients s)) \<and>
    (\<forall>e n c. name_of e = nm \<and> (n, c) \<in> set (clients s) \<longrightarrow> is_screen (nm c) (sconfig s) \<and> n = get_name e s c) \<and>
    fst ` set (old_clients s) \<inter> snd ` set (clients s) = {} \<and>
    (wait_timer s \<noteq> None \<longrightarrow> switch_screen s \<noteq> None)"
proof -
  have inv: "server_inv nm s" and known: "known nm s" using reach_inv [OF assms] by simp_all
  note i = server_invD [OF inv]
  have names: "is_screen (nm c) (sconfig s) \<and> n = get_name e s c"
    if "name_of e = nm" "(n, c) \<in> set (clients s)" for e n c
    using i(4) [OF that(2)] known client_in_set [OF inv that(2)] that(1)
    by (simp add: get_name_client_name known_def)
  show ?thesis
    using i(6,7,8,9,10,12) names unfolding i(5) by blast
qed

lemma reachable_tables_witness:
  "\<exists>s :: (unit, unit) server. orderly_reach (name_of demo_env) s \<and>
    active s \<in> snd ` set (clients s) \<and> primary s \<in> snd ` set (clients s) \<and>
    (\<forall>c. active_saver s = Some c \<or> switch_screen s = Some c \<longrightarrow> c \<in> snd ` set (clients s)) \<and>
    (\<forall>e n c. name_of e = name_of demo_env \<and> (n, c) \<in> set (clients s) \<longrightarrow>
       is_screen (name_of demo_env c) (sconfig s) \<and> n = get_name e s c) \<and>
    fst ` set (old_clients s) \<inter> snd ` set (clients s) = {} \<and>
    (wait_timer s \<noteq> None \<longrightarrow> switch_screen s \<noteq> None)"
proof -
  obtain s :: "(unit, unit) server" where "orderly_reach (name_of demo_env) s" using demo_reach by blast
  with reachable_tables [OF this] show ?thesis by blast
qed

text \<open>
  C7. How a switch ends. Under \<^const>\<open>server_inv\<close>, the invariant of the orderly runs, no assertion of
  \<^verbatim>\<open>switchScreen\<close> fails: the destination is active afterwards unless the active screen could not
  be left, the cursor is at the requested position, and no switch is pending and no switch
  timer is running.
\<close>

theorem switch_lands:
  assumes "server_inv (name_of e) s"
  shows "\<exists>s'. switch_screen_to e dst x y b s = Some s' \<and>
    active s' = (if can_leave e (active s) then dst else active s) \<and> mx s' = x \<and> my s' = y \<and>
    switch_screen s' = None \<and> wait_timer s' = None"
  by (rule switch_returns [OF assms refl])

lemma switch_lands_witness:
  "\<exists>s'. switch_screen_to demo_env 1 3 4 False waiting_server = Some s' \<and>
    active s' = (if can_leave demo_env (active waiting_server) then 1 else active waiting_server) \<and>
    mx s' = 3 \<and> my s' = 4 \<and> switch_screen s' = None \<and> wait_timer s' = None"
  by (rule switch_lands [OF waiting_inv])

text \<open>
  C23. The switch timer. When the timer of a pending switch fires in a state that satisfies
  \<^const>\<open>server_inv\<close>, the invariant of the orderly runs, the handler fails no assertion: if the cursor is locked the pending switch is called off and nothing else changes screens;
  otherwise the server switches to the pending destination at the recorded position.
\<close>

theorem timeout_switches:
  assumes "server_inv (name_of e) s" and "wait_timer s \<noteq> None"
  shows "\<exists>dst s'. switch_screen s = Some dst \<and> handle_switch_wait_timeout e s = Some s' \<and>
    switch_screen s' = None \<and> wait_timer s' = None \<and>
    (if is_locked_to_screen e s then active s' = active s
     else (mx s', my s') = (wait_x s, wait_y s) \<and> active s' = (if can_leave e (active s) then dst else active s))"
proof -
  obtain dst where d: "switch_screen s = Some dst"
    using server_invD(10) [OF assms] by blast
  show ?thesis
  proof (cases "is_locked_to_screen e s")
    case True
    then show ?thesis using stop_switch_fields [OF assms(1)] d
      by (simp add: handle_switch_wait_timeout_def)
  next
    case False
    then show ?thesis
      using switch_returns [OF assms(1) refl, of dst "wait_x s" "wait_y s" False] d
      by (auto simp: handle_switch_wait_timeout_def)
  qed
qed

lemma timeout_switches_witness:
  "\<exists>dst s'. switch_screen waiting_server = Some dst \<and>
    handle_switch_wait_timeout demo_env waiting_server = Some s' \<and>
    switch_screen s' = None \<and> wait_timer s' = None \<and>
    (if is_locked_to_screen demo_env waiting_server then active s' = active waiting_server
     else (mx s', my s') = (wait_x waiting_server, wait_y waiting_server) \<and>
       active s' = (if can_leave demo_env (active waiting_server) then dst else active waiting_server))"
  by (rule timeout_switches [OF waiting_inv]) (simp add: waiting_server_def)

section \<open>The locked cursor\<close>

definition still :: "('a, 'f) server \<Rightarrow> ('a, 'f) server \<Rightarrow> bool" where
  "still s s' \<longleftrightarrow> active s' = active s \<and> locked s' = locked s \<and> disable_lock s' = disable_lock s"

lemma still_trans [trans]: "still s t \<Longrightarrow> still t u \<Longrightarrow> still s u"
  by (simp add: still_def)

lemma still_refl [intro]: "still s s"
  by (simp add: still_def)

lemma still_locked: "still s s' \<Longrightarrow> is_locked_to_screen e s' = is_locked_to_screen e s"
  by (simp add: still_def is_locked_to_screen_def is_locked_server_def)

lemma still_ops:
  "still s (start_tap e s)" "still s (stop_tap s)" "still s (stop_wait s)" "still s (start_wait x y s)"
  "still s (stop_switch s)" "still s (emit f s)" "still s (s\<lparr>switch_dir := d, switch_screen := c\<rparr>)"
  "still s (s\<lparr>mx := x, my := y\<rparr>)"
  by (simp_all add: still_def start_tap_def stop_tap_def stop_wait_def start_wait_def stop_switch_def
      emit_def Let_def split: option.split)

lemma is_switch_okay_still:
  "still s (snd (is_switch_okay e c d x y xa ya s)) \<and>
   (is_locked_to_screen e s \<longrightarrow> \<not> fst (is_switch_okay e c d x y xa ya s))"
proof (cases c)
  case None
  then show ?thesis by (simp add: is_switch_okay_def still_ops)
next
  case (Some n)
  have "still s (snd (is_switch_okay e (Some n) d x y xa ya s)) \<and>
    (is_locked_to_screen e s \<longrightarrow> \<not> fst (is_switch_okay e (Some n) d x y xa ya s))"
    unfolding is_switch_okay_def option.case
  proof (intro let_intro [where P = "\<lambda>r. still s (snd r) \<and> (is_locked_to_screen e s \<longrightarrow> \<not> fst r)"])
    fix isNew s1 tapped prevent1 s2 waiting s3 cornered s4 prevent2 isLocked s5
    assume s1: "s1 = (if isNew \<or> switch_screen s = None
                     then s\<lparr>switch_dir := d, switch_screen := Some n\<rparr> else s)"
      and s2: "s2 = (if prevent1 then start_tap e s1 else s1)"
      and s3: "s3 = (if waiting \<and> (isNew \<or> wait_timer s2 = None) then start_wait x y s2 else s2)"
      and s4: "s4 = (if cornered then stop_switch s3 else s3)"
      and lock: "isLocked = (\<not> prevent2 \<and> is_locked_to_screen e s4)"
      and s5: "s5 = (if isLocked then stop_switch s4 else s4)"
    have "still s s1" by (auto simp: s1 still_ops)
    also have "still s1 s2" by (auto simp: s2 still_ops)
    also have "still s2 s3" by (auto simp: s3 still_ops)
    also have "still s3 s4" by (auto simp: s4 still_ops)
    finally have k: "still s s4" .
    also have "still s4 s5" by (auto simp: s5 still_ops)
    finally have "still s s5" .
    with lock still_locked [OF k, of e]
    show "still s (snd (\<not> (prevent2 \<or> isLocked), s5)) \<and>
      (is_locked_to_screen e s \<longrightarrow> \<not> fst (\<not> (prevent2 \<or> isLocked), s5))" by auto
  qed
  with Some show ?thesis by simp
qed

definition on_screen :: "shape \<Rightarrow> int \<Rightarrow> int \<Rightarrow> bool" where
  "on_screen sh x y \<longleftrightarrow> (case sh of (ax, ay, aw, ah) \<Rightarrow> ax \<le> x \<and> x < ax + aw \<and> ay \<le> y \<and> y < ay + ah)"

lemma stay_on_screen_inside:
  assumes "case sh of (ax, ay, aw, ah) \<Rightarrow> 0 < aw \<and> 0 < ah"
  shows "on_screen sh (mx (stay_on_screen sh x0 y0 dx dy s)) (my (stay_on_screen sh x0 y0 dx dy s)) \<and>
    active (stay_on_screen sh x0 y0 dx dy s) = active s"
  using assms by (cases sh) (auto simp: stay_on_screen_def on_screen_def clamp_def emit_def Let_def)

lemma no_switch_still: "still s (no_switch e x y s)"
proof -
  have "still s (arm_tap e x y s)"
    by (simp add: arm_tap_def still_def stop_tap_def Let_def split: prod.split direction.split)
  also have "still (arm_tap e x y s) (no_switch e x y s)" by (simp add: no_switch_def still_ops)
  finally show ?thesis .
qed

text \<open>
  C13. A locked cursor stays. While the cursor is locked to a secondary screen (and the motion is
  not relative), no motion of the mouse makes another screen active, and the cursor ends on
  the active screen.
\<close>

theorem locked_cursor_stays:
  assumes "on_mouse_move_secondary e mult dx dy s = Some s'" and "is_locked_to_screen e s"
    and "active s \<noteq> primary s" and "\<not> relative_moves s"
    and "case shape_of e (active s) of (ax, ay, aw, ah) \<Rightarrow> 0 < aw \<and> 0 < ah"
  shows "active s' = active s \<and> on_screen (shape_of e (active s)) (mx s') (my s')"
proof -
  let ?P = "\<lambda>s'. active s' = active s \<and> on_screen (shape_of e (active s)) (mx s') (my s')"
  let ?s1 = "\<lambda>x y a b c d. s\<lparr>xDelta2 := a, yDelta2 := b, xDelta := c, yDelta := d, mx := x, my := y\<rparr>"
  have stay: "?P (stay_on_screen sh x0 y0 d d' t)"
    if "still s t" "sh = shape_of e (active s1)" "active s1 = active s" for sh x0 y0 d d' t s1
  proof -
    have sh: "sh = shape_of e (active s)" using that(2,3) by simp
    show ?thesis
      using stay_on_screen_inside [of sh x0 y0 d d' t] assms(5) that(1) unfolding sh by (simp add: still_def)
  qed
  have okay: "\<not> ok" "still s s3" if "is_switch_okay e c d x y xa ya s2 = (ok, s3)" "still s s2"
    for ok s2 s3 c d x y xa ya
    using is_switch_okay_still [of s2 e c d x y xa ya] that still_locked [OF that(2), of e] assms(2) still_trans
    by auto
  have s1: "still s (?s1 x y a b c d)" "active (?s1 x y a b c d) = active s"
    "still s ((?s1 x y a b c d)\<lparr>mx := x', my := y'\<rparr>)" for x y a b c d x' y'
    by (simp_all add: still_def)
  have "sure ?P (on_mouse_move_secondary e mult dx dy s)"
    unfolding on_mouse_move_secondary_def
    apply (intro sure_intros)
        apply (use assms(3,4) in simp)
       apply (use assms(3,4) in simp)
      apply (rule stay)
        apply (simp add: s1 no_switch_still still_trans [OF s1(1) no_switch_still])
       apply assumption
      apply (simp add: s1)
     apply (erule okay(1) [elim_format], simp add: s1, simp)
    apply (rule stay, erule okay(2), simp add: s1, assumption, simp add: s1)
    done
  then show ?thesis using assms(1) by (rule sureD)
qed

definition edge_server :: "(unit, unit) server" where
  "edge_server = demo_server\<lparr>active := 1, mx := 63, my := 31, locked := True\<rparr>"

lemma edge_neighbor: "neighbor demo_env (edge_server\<lparr>xDelta2 := a, yDelta2 := b, xDelta := c, yDelta := d, mx := x, my := y\<rparr>)
    1 Right 68 31 = Some (None, 68, 31)"
  using demo_get_neighbor(2)
  by (simp add: neighbor_def map_to_fraction_def demo_env_def pixel_fraction_def find_connected.simps
      get_name_def edge_server_def)

lemma edge_motion:
  "\<exists>s'. on_mouse_move_secondary demo_env None 5 0 edge_server = Some s'"
proof -
  have "map_to_neighbor demo_env (edge_server\<lparr>xDelta2 := a, yDelta2 := b, xDelta := c, yDelta := d, mx := x, my := y\<rparr>)
    1 Right 68 31 = Some (None, 68, 31)" for a b c d x y
    by (simp only: map_to_neighbor_def edge_neighbor option.case prod.case)
  moreover have "active edge_server = 1" "primary edge_server = 0" "mx edge_server = 63" "my edge_server = 31"
    "relative_moves edge_server = False"
    by (simp_all add: edge_server_def) (simp add: demo_server_def)
  ultimately show ?thesis
    by (simp add: on_mouse_move_secondary_def adjust_delta_def exit_direction_def Let_def is_switch_okay_def)
qed

lemma locked_cursor_stays_witness:
  "\<exists>s'. on_mouse_move_secondary demo_env None 5 0 edge_server = Some s' \<and>
    active s' = active edge_server \<and> on_screen (shape_of demo_env (active edge_server)) (mx s') (my s')"
proof -
  obtain s' where s': "on_mouse_move_secondary demo_env None 5 0 edge_server = Some s'"
    using edge_motion by blast
  have "active s' = active edge_server \<and> on_screen (shape_of demo_env (active edge_server)) (mx s') (my s')"
    by (rule locked_cursor_stays [OF s'])
      (simp_all add: is_locked_to_screen_def is_locked_server_def edge_server_def, simp_all add: demo_server_def)
  with s' show ?thesis by blast
qed

text \<open>
  A pending downward switch never survives. Off the border of the pending switch the wait is
  called off; the test for the bottom border adds the jump zone where the others move inwards,
  so it holds everywhere on the screen. While a switch to the bottom is pending, every motion
  that stays on the screen, at the bottom border too, stops the switch timer.
\<close>

theorem bottom_wait_stopped:
  assumes "switch_screen s \<noteq> None" and "switch_dir s = Bottom" and "active s \<noteq> primary s"
    and "\<not> (relative_moves s \<and> is_locked_server s)" and "0 \<le> jump_zone e"
    and "on_screen (shape_of e (active s)) (mx s + dx) (my s + dy)"
  shows "\<exists>s'. on_mouse_move_secondary e None dx dy s = Some s' \<and> wait_timer s' = None"
proof -
  obtain ax ay aw ah where sh: "shape_of e (active s) = (ax, ay, aw, ah)" by (metis prod_cases4)
  let ?s1 = "s\<lparr>xDelta2 := xDelta s, yDelta2 := yDelta s, xDelta := dx, yDelta := dy,
    mx := mx s + dx, my := my s + dy\<rparr>"
  have "exit_direction (shape_of e (active ?s1)) (mx ?s1) (my ?s1) = NoDirection"
    using assms(6) by (simp add: exit_direction_def on_screen_def sh)
  moreover have "clear_wait e (shape_of e (active ?s1)) ?s1"
    using assms(2,5,6) by (simp add: clear_wait_def on_screen_def sh)
  moreover have "wait_timer (stay_on_screen h x0 y0 a b (no_switch e x y t)) = None" for h x0 y0 a b x y t
    by (simp add: stay_on_screen_def no_switch_def stop_wait_def emit_def Let_def split: prod.split option.split)
  ultimately show ?thesis
    using assms(1,3,4) sh
    by (auto simp: on_mouse_move_secondary_def adjust_delta_def Let_def)
qed

lemma bottom_wait_stopped_witness:
  "\<exists>s'. on_mouse_move_secondary demo_env None 0 32 (edge_server\<lparr>switch_screen := Some 0, switch_dir := Bottom,
    wait_timer := Some 7\<rparr>) = Some s' \<and> wait_timer s' = None"
  by (rule bottom_wait_stopped)
    (simp_all add: edge_server_def on_screen_def, simp_all add: demo_server_def demo_env_def is_locked_server_def)

section \<open>Clients that disappear\<close>

lemma core_disconnected:
  "core (handle_client_disconnected e c s) = core (remove_old_client c (remove_active_client e c s))"
  by (simp add: handle_client_disconnected_def core_simps Let_def)

lemma core_remove_old: "\<exists>old. core (remove_old_client c s) = (core s)\<lparr>co_old := old\<rparr>"
proof (cases "om_get (<) c (old_clients s)")
  case None
  then have "core (remove_old_client c s) = (core s)\<lparr>co_old := old_clients s\<rparr>"
    by (simp add: remove_old_client_def core_def)
  then show ?thesis by blast
next
  case (Some t)
  then have "core (remove_old_client c s) = (core s)\<lparr>co_old := om_erase (<) c (old_clients s)\<rparr>"
    by (simp add: remove_old_client_def core_simps core_client_tables Let_def)
  then show ?thesis by blast
qed

lemma disconnected_core:
  assumes "c \<in> client_set s"
  obtains old t where "core t = (core s)\<lparr>co_set := client_set s - {c},
      co_clients := om_erase string_less (get_name e s c) (clients s)\<rparr>"
    "core (handle_client_disconnected e c s) = (core (force_leave_client e c t))\<lparr>co_old := old\<rparr>"
proof -
  obtain t where t: "remove_client e c s = (True, t)"
    using assms by (simp add: remove_client_def Let_def)
  have "core (remove_active_client e c s) = core (force_leave_client e c t)"
    by (simp add: remove_active_client_def t core_simps Let_def)
  moreover have "core t = (core s)\<lparr>co_set := client_set s - {c},
      co_clients := om_erase string_less (get_name e s c) (clients s)\<rparr>"
    using t assms by (auto simp: remove_client_def Let_def get_name_emit core_client_tables core_simps)
      (simp add: emit_def)
  moreover obtain old where "core (remove_old_client c (remove_active_client e c s)) =
      (core (remove_active_client e c s))\<lparr>co_old := old\<rparr>"
    using core_remove_old by blast
  ultimately show thesis using that core_disconnected by metis
qed

lemma disconnected_deletes: "Delete_Client c \<in> set (out (handle_client_disconnected e c s))"
  by (simp add: handle_client_disconnected_def emit_def Let_def)

text \<open>
  A disconnect during the screen saver. \<^verbatim>\<open>forceLeaveClient\<close> compares the leaving client with the
  screen that was active when the screen saver started, not with the active one. If the user
  has switched since, the client that disconnects is deleted and stays the active screen.
\<close>

theorem saver_leaves_dangling_active:
  assumes "c \<in> client_set s" and "active s = c" and "active_saver s = Some a" and "a \<noteq> c"
  shows "active (handle_client_disconnected e c s) = c \<and>
    c \<notin> client_set (handle_client_disconnected e c s) \<and>
    Delete_Client c \<in> set (out (handle_client_disconnected e c s))"
proof -
  obtain old t where t: "core t = (core s)\<lparr>co_set := client_set s - {c},
      co_clients := om_erase string_less (get_name e s c) (clients s)\<rparr>"
    and k: "core (handle_client_disconnected e c s) = (core (force_leave_client e c t))\<lparr>co_old := old\<rparr>"
    by (rule disconnected_core [OF assms(1)])
  have "active_saver t = Some a" "active t = c" "client_set t = client_set s - {c}"
    using t assms(2,3) by (simp_all add: core_def)
  then have "co_active (core (force_leave_client e c t)) = c" "co_set (core (force_leave_client e c t)) = client_set s - {c}"
    unfolding force_leave_core using assms(4) by (simp_all add: core_def)
  with k have "co_active (core (handle_client_disconnected e c s)) = c"
    "co_set (core (handle_client_disconnected e c s)) = client_set s - {c}" by simp_all
  then show ?thesis using disconnected_deletes by (simp add: core_def)
qed

lemma saver_leaves_dangling_active_witness:
  "active (handle_client_disconnected demo_env 1 (demo_server\<lparr>active := 1, active_saver := Some 0\<rparr>)) = 1 \<and>
    1 \<notin> client_set (handle_client_disconnected demo_env 1 (demo_server\<lparr>active := 1, active_saver := Some 0\<rparr>)) \<and>
    Delete_Client 1 \<in> set (out (handle_client_disconnected demo_env 1 (demo_server\<lparr>active := 1, active_saver := Some 0\<rparr>)))"
  by (rule saver_leaves_dangling_active [where a = 0]) simp_all

text \<open>
  A renamed client is not removed. \<^verbatim>\<open>removeClient\<close> erases the entry under the client's current
  canonical name. When the configuration has come to call a connected client by another name,
  its entry stays in the client list after it has disconnected and been deleted.
\<close>

theorem renamed_client_stays_listed:
  assumes "c \<in> client_set s" and "(n, c) \<in> set (clients s)" and "n \<noteq> get_name e s c"
    and "om_sorted string_less (clients s)"
  shows "(n, c) \<in> set (clients (handle_client_disconnected e c s)) \<and>
    c \<notin> client_set (handle_client_disconnected e c s) \<and>
    Delete_Client c \<in> set (out (handle_client_disconnected e c s))"
proof -
  obtain old t where t: "core t = (core s)\<lparr>co_set := client_set s - {c},
      co_clients := om_erase string_less (get_name e s c) (clients s)\<rparr>"
    and k: "core (handle_client_disconnected e c s) = (core (force_leave_client e c t))\<lparr>co_old := old\<rparr>"
    by (rule disconnected_core [OF assms(1)])
  have "co_clients (core (force_leave_client e c t)) = co_clients (core t)"
    "co_set (core (force_leave_client e c t)) = co_set (core t)"
    unfolding force_leave_core by simp_all
  with k t have "clients (handle_client_disconnected e c s) = om_erase string_less (get_name e s c) (clients s)"
    "client_set (handle_client_disconnected e c s) = client_set s - {c}"
    by (simp_all add: core_def)
  then show ?thesis
    using assms(2,3) disconnected_deletes plain.erase_filter [OF assms(4)] by auto
qed

lemma renamed_client_stays_listed_witness:
  "(''pc'', 1) \<in> set (clients (handle_client_disconnected demo_env 1 (demo_server\<lparr>clients := [(''host'', 0), (''pc'', 1)]\<rparr>))) \<and>
    1 \<notin> client_set (handle_client_disconnected demo_env 1 (demo_server\<lparr>clients := [(''host'', 0), (''pc'', 1)]\<rparr>)) \<and>
    Delete_Client 1 \<in> set (out (handle_client_disconnected demo_env 1 (demo_server\<lparr>clients := [(''host'', 0), (''pc'', 1)]\<rparr>)))"
  by (rule renamed_client_stays_listed)
    (simp_all add: get_name_def demo_env_def om_sorted_def string_less_def)

section \<open>Destinations of keys\<close>

text \<open>
  C33. Where a key goes. A key press without destinations goes to the active screen, unless keys are
  broadcast; one made for a set of screen names goes to exactly the connected screens in the
  set, whether or not keys are broadcast, through the encoding of the set as a string and its
  search by every client's name.
\<close>

theorem keys_reach_destinations:
  assumes "\<forall>d\<in>set ds. colon_free d" and "''*'' \<notin> set ds" and "\<forall>(n, c)\<in>set (clients s). colon_free n"
  shows "handle_key_down lang (ki_alloc key m button count ds) s =
    emits (map (\<lambda>c. Key_Down c key m button lang)
      (if ds = [] then (if kb_broadcasting s then [] else [active s])
       else map snd (filter (\<lambda>(n, c). n \<in> set ds) (clients s)))) s"
proof (cases "ds = []")
  case True
  then show ?thesis
    by (simp add: handle_key_down_def on_key_down_def key_targets_def ki_alloc_def ki_join_def is_default_def
        ki_contains_def)
next
  case False
  have "ki_contains (Some (ki_join ds)) n \<longleftrightarrow> n \<in> set ds" if "colon_free n" for n
    using strstr_listed [OF that assms(1)] join_listed [OF assms(2) False]
    by (simp add: ki_contains_def is_default_def) (simp add: listed_def)
  then have "filter (\<lambda>(n, c). ki_contains (Some (ki_join ds)) n) (clients s) = filter (\<lambda>(n, c). n \<in> set ds) (clients s)"
    using assms(3) by (intro filter_cong) auto
  moreover have "\<not> is_default (Some (ki_join ds))"
    using join_listed [OF assms(2) False] by (simp add: is_default_def listed_def)
  ultimately show ?thesis
    using False by (simp add: handle_key_down_def on_key_down_def key_targets_def ki_alloc_def)
qed

lemma keys_reach_destinations_witness:
  "handle_key_down ''en'' (ki_alloc 97 0 38 1 [''laptop'', ''tv'']) demo_server =
    emits (map (\<lambda>c. Key_Down c 97 0 38 ''en'')
      (if [''laptop'', ''tv''] = [] then (if kb_broadcasting demo_server then [] else [active demo_server])
       else map snd (filter (\<lambda>(n, c). n \<in> set [''laptop'', ''tv'']) (clients demo_server)))) demo_server"
  by (rule keys_reach_destinations) (simp_all add: colon_free_def)

text \<open>
  Broadcasting loses keys. The handlers pass the destination string of the event, never a null
  pointer, so the branch that substitutes the broadcast screens is not reached: while keys are
  broadcast, a press or a release without destinations reaches no screen, whatever screens
  the broadcast names, and only its repetitions reach the active screen.
\<close>

theorem broadcast_loses_keys:
  assumes "kb_broadcasting s" and "ki_screens i = []"
  shows "handle_key_down lang i s = s \<and> handle_key_up i s = s \<and>
    handle_key_repeat lang i s = emit (Key_Repeat (active s) (ki_key i) (ki_mask i) (ki_count i) (ki_button i) lang) s"
  using assms
  by (simp add: handle_key_down_def on_key_down_def handle_key_up_def on_key_up_def handle_key_repeat_def
      on_key_repeat_def key_targets_def is_default_def ki_contains_def emits_def)

lemma broadcast_loses_keys_witness:
  "handle_key_down ''en'' (ki_alloc 97 0 38 1 []) (demo_server\<lparr>kb_broadcasting := True, kb_screens := ''*''\<rparr>) =
      demo_server\<lparr>kb_broadcasting := True, kb_screens := ''*''\<rparr> \<and>
    handle_key_up (ki_alloc 97 0 38 1 []) (demo_server\<lparr>kb_broadcasting := True, kb_screens := ''*''\<rparr>) =
      demo_server\<lparr>kb_broadcasting := True, kb_screens := ''*''\<rparr> \<and>
    handle_key_repeat ''en'' (ki_alloc 97 0 38 1 []) (demo_server\<lparr>kb_broadcasting := True, kb_screens := ''*''\<rparr>) =
      emit (Key_Repeat (active (demo_server\<lparr>kb_broadcasting := True, kb_screens := ''*''\<rparr>))
          (ki_key (ki_alloc 97 0 38 1 [])) (ki_mask (ki_alloc 97 0 38 1 [])) (ki_count (ki_alloc 97 0 38 1 []))
          (ki_button (ki_alloc 97 0 38 1 [])) ''en'')
        (demo_server\<lparr>kb_broadcasting := True, kb_screens := ''*''\<rparr>)"
  by (rule broadcast_loses_keys) (simp_all add: ki_alloc_def ki_join_def)

section \<open>Grabbing a clipboard\<close>

lemma clear_clip_result:
  assumes "k < length (clips s)"
  shows "\<exists>c d. clear_clip k s = s\<lparr>clips := (clips s)[k := (clips s ! k)\<lparr>ci_clipboard := c, ci_data := d\<rparr>]\<rparr> \<and>
    cb_view c = (\<lambda>_. None)"
proof -
  let ?c0 = "ci_clipboard (clips s ! k)"
  obtain c1 where c1: "cb_do_open 0 ?c0 = (True, c1)" "cb_open c1"
    by (cases "cb_open ?c0") (auto simp: cb_do_open_def)
  let ?c = "cb_do_close (snd (cb_do_empty c1))"
  have view: "cb_view ?c = (\<lambda>_. None)" and inv: "cb_inv ?c"
    using c1(2) by (auto simp: cb_view_def cb_do_close_def cb_do_empty_def cb_inv_def)
  obtain c' where m: "cb_marshall ?c = (encode (\<lambda>_. None), c')" "cb_view c' = (\<lambda>_. None)"
    using mem.marshall_encode [OF inv] view by (auto simp: cb_marshall_def)
  have "clear_clip k s = s\<lparr>clips := (clips s)[k := (clips s ! k)\<lparr>ci_clipboard := c', ci_data := encode (\<lambda>_. None)\<rparr>]\<rparr>"
    using assms c1 m(1) by (simp add: clear_clip_def marshall_clip_def set_clip_def Let_def)
  with m(2) show ?thesis by blast
qed

text \<open>
  Grabbing a clipboard. A grab by a connected screen with an older sequence number changes
  nothing. An accepted grab makes the screen the owner with the new sequence number and the
  clipboard empty, leaves the other clipboard and everything else alone, and tells the grabber
  that it is up to date and every other screen to give the clipboard up.
\<close>

theorem grab_takes_ownership:
  assumes "enable_clip s" and "max_clip_size s \<noteq> 0" and "g \<in> client_set s" and "g \<noteq> primary s"
    and "k < clipboard_end" and "length (clips s) = clipboard_end"
  shows "if n < ci_seq (clips s ! k) then handle_clipboard_grabbed e g k n s = Some s
    else \<exists>ci. handle_clipboard_grabbed e g k n s =
        Some (emits (map (\<lambda>(m, c). if c = g then Set_Dirty c k False else Grab_Clipboard c k) (clients s))
          (s\<lparr>clips := (clips s)[k := ci]\<rparr>)) \<and>
      ci_owner ci = get_name e s g \<and> ci_seq ci = n \<and> cb_view (ci_clipboard ci) = (\<lambda>_. None)"
proof (cases "n < ci_seq (clips s ! k)")
  case True
  then show ?thesis using assms by (simp add: handle_clipboard_grabbed_def)
next
  case False
  let ?s1 = "set_clip k ((clips s ! k)\<lparr>ci_owner := get_name e s g, ci_seq := n\<rparr>) s"
  have k: "k < length (clips ?s1)" using assms(5,6) by (simp add: set_clip_def)
  obtain c d where c: "clear_clip k ?s1 = ?s1\<lparr>clips := (clips ?s1)[k := (clips ?s1 ! k)\<lparr>ci_clipboard := c, ci_data := d\<rparr>]\<rparr>"
    and v: "cb_view c = (\<lambda>_. None)" using clear_clip_result [OF k] by blast
  let ?ci = "(clips s ! k)\<lparr>ci_owner := get_name e s g, ci_seq := n, ci_clipboard := c, ci_data := d\<rparr>"
  have "clear_clip k ?s1 = s\<lparr>clips := (clips s)[k := ?ci]\<rparr>"
    using c assms(5,6) by (simp add: set_clip_def)
  then have "handle_clipboard_grabbed e g k n s =
      Some (emits (map (\<lambda>(m, c). if c = g then Set_Dirty c k False else Grab_Clipboard c k) (clients s))
        (s\<lparr>clips := (clips s)[k := ?ci]\<rparr>))"
    using assms False by (simp add: handle_clipboard_grabbed_def tell_grabbed_def Let_def emits_def)
  with False v show ?thesis by (intro if_not_P [THEN iffD2]) (auto intro!: exI [of _ ?ci])
qed

lemma grab_takes_ownership_witness:
  "if 5 < ci_seq (clips demo_server ! 1) then handle_clipboard_grabbed demo_env 1 1 5 demo_server = Some demo_server
    else \<exists>ci. handle_clipboard_grabbed demo_env 1 1 5 demo_server =
        Some (emits (map (\<lambda>(m, c). if c = 1 then Set_Dirty c 1 False else Grab_Clipboard c 1) (clients demo_server))
          (demo_server\<lparr>clips := (clips demo_server)[1 := ci]\<rparr>)) \<and>
      ci_owner ci = get_name demo_env demo_server 1 \<and> ci_seq ci = 5 \<and> cb_view (ci_clipboard ci) = (\<lambda>_. None)"
  by (rule grab_takes_ownership) (simp_all add: demo_server_def clipboard_end_def)

section \<open>Reloading the configuration\<close>

lemma close_all_returns:
  assumes "server_inv nm s" and "nm = name_of e" and "saver_settled s" and "primary s \<notin> set cs"
  shows "\<exists>s'. close_all e msg cs s = Some s'"
  using assms
proof (induction cs arbitrary: s)
  case (Cons c cs)
  obtain t where t: "close_client e c msg s = Some t"
    using Cons.prems(4) by (auto simp: close_client_def Let_def)
  have l: "leaves nm c s t" by (rule close_client_leaves [OF Cons.prems(1-3) t])
  have "\<exists>s'. close_all e msg cs t = Some s'"
    by (rule Cons.IH) (use l Cons.prems in \<open>simp_all add: leaves_def\<close>)
  with t show ?case by simp
qed simp

text \<open>
  Reloading. When a reload that renames no connected screen is accepted, the clients that
  stay connected are screens of the new configuration, the primary among them; every client
  that was connected and is not any more had a name that is not canonical in it; and the
  invariant still holds.
\<close>

theorem reload_drops_unknown:
  assumes "server_inv (name_of e) s" and "saver_settled s" and "config_inv cfg"
    and "\<not> renames (name_of e) cfg s" and "reload e cfg s = Some (True, s')"
  shows "server_inv (name_of e) s' \<and> primary s' \<in> client_set s' \<and> client_set s' \<subseteq> client_set s \<and>
    (\<forall>c\<in>client_set s'. is_screen (name_of e c) (sconfig s')) \<and>
    (\<forall>c\<in>client_set s - client_set s'. \<not> is_canonical_name (get_name e s c) cfg)"
proof -
  let ?s0 = "s\<lparr>sconfig := cfg\<rparr>"
  have inv0: "server_inv (name_of e) ?s0" by (rule new_config_inv [OF assms(1,3,4)])
  have settled0: "saver_settled ?s0" using assms(2) by (simp add: saver_settled_def)
  have r: "set_config e cfg ?s0 = Some (True, s')" using assms(5) by (simp only: reload_def)
  note c = set_config_inv [OF inv0 refl settled0 r]
  have "client_set s' = client_set ?s0 - set (dropped_clients cfg ?s0)" using c(3) by simp
  moreover have "\<not> is_canonical_name (get_name e s d) cfg" if d: "d \<in> set (dropped_clients cfg ?s0)" for d
  proof -
    obtain n where n: "(n, d) \<in> set (clients s)" "\<not> is_canonical_name n cfg"
      using d by (auto simp: dropped_set)
    then have "n = get_name e s d" using server_invD(4) [OF assms(1) n(1)] by (simp add: get_name_client_name)
    with n(2) show ?thesis by simp
  qed
  ultimately show ?thesis
    using c(1,2) server_invD(6) [OF c(1)] c(3) by (auto simp: known_def)
qed

definition host_config :: "(unit, unit) config" where
  "host_config = demo_config\<lparr>cfg_map := [(''host'', \<lparr>neighbors = [], cell_options = []\<rparr>)],
     cfg_names := [(''host'', ''host'')]\<rparr>"

lemma demo_inv: "server_inv (name_of demo_env) demo_server"
  unfolding server_inv_eq
  by (simp add: demo_config_inv om_sorted_def string_less_def)
    (simp add: demo_server_def demo_env_def clipboard_end_def client_name_def)

lemma host_canonical:
  "get_canonical_name ''host'' host_config = ''host''" "get_canonical_name ''laptop'' host_config = []"
  "is_screen ''host'' host_config" "config_inv host_config"
  by code_simp+

lemma reload_drops_unknown_witness:
  "\<exists>s'. reload demo_env host_config demo_server = Some (True, s') \<and>
    server_inv (name_of demo_env) s' \<and> primary s' \<in> client_set s' \<and> client_set s' \<subseteq> client_set demo_server \<and>
    (\<forall>c\<in>client_set s'. is_screen (name_of demo_env c) (sconfig s')) \<and>
    (\<forall>c\<in>client_set demo_server - client_set s'. \<not> is_canonical_name (get_name demo_env demo_server c) host_config)"
proof -
  let ?s0 = "demo_server\<lparr>sconfig := host_config\<rparr>"
  have settled: "saver_settled demo_server" "saver_settled ?s0"
    by (simp_all add: saver_settled_def demo_server_def)
  have same: "\<not> renames (name_of demo_env) host_config demo_server"
    by (simp add: renames_def client_name_def demo_env_def host_canonical)
  have "server_inv (name_of demo_env) ?s0" by (rule new_config_inv [OF demo_inv host_canonical(4) same])
  moreover have "primary ?s0 \<notin> set (dropped_clients host_config ?s0)" by (simp add: dropped_set)
  ultimately have "\<exists>s1. close_clients demo_env host_config ?s0 = Some s1"
    using close_all_returns [OF _ refl settled(2)] unfolding close_clients_def by blast
  moreover have "is_screen (name_of demo_env 0) host_config" by (simp add: demo_env_def host_canonical)
  ultimately have "\<exists>s'. reload demo_env host_config demo_server = Some (True, s')"
    by (auto simp: reload_def set_config_def Let_def)
  then obtain s' where s': "reload demo_env host_config demo_server = Some (True, s')" by blast
  show ?thesis
    using s' reload_drops_unknown [OF demo_inv settled(1) host_canonical(4) same s'] by blast
qed

section \<open>Automatic placement\<close>

lemma add_screen_known: "is_screen name c \<Longrightarrow> add_screen al name c = (False, c)"
  by (simp add: add_screen_def is_screen_def)

lemma place_known:
  assumes "is_screen name cfg" and "place al name scr r cfg = Some (r', cfg')" and "\<not> snd (snd r)"
  shows "\<not> snd (snd r')"
  using assms(2,3)
proof (induction scr arbitrary: r)
  case (Cons screen rest)
  then show ?case
    by (cases "free_side screen cfg") (auto simp: add_screen_known [OF assms(1)] split: option.splits)
qed simp

lemma connect_false: "connect s side a b d a' b' c = Some (False, c') \<Longrightarrow> cfg_names c' = cfg_names c"
  by (rule connect_names)

lemma link_pair_names: "link_pair a d n c = Some (ok, c') \<Longrightarrow> cfg_names c' = cfg_names c"
  by (auto simp: link_pair_def connect_names split: option.splits prod.splits if_splits dest: connect_names)

lemma place_placed:
  assumes "config_inv cfg" and "place al name scr r cfg = Some ((a, d, True), cfg')" and "\<not> snd (snd r)"
  shows "free_side a cfg = Some d \<and> a \<in> set scr \<and> \<not> is_screen name cfg \<and>
    link_pair a d name (snd (add_screen al name cfg)) = Some (True, cfg')"
  using assms(2,3)
proof (induction scr arbitrary: r)
  case (Cons screen rest)
  show ?case
  proof (cases "free_side screen cfg")
    case None
    with Cons show ?thesis by auto
  next
    case (Some d')
    obtain added cfg1 where add: "add_screen al name cfg = (added, cfg1)" by fastforce
    show ?thesis
    proof (cases added)
      case False
      then have "cfg1 = cfg" using add by (auto simp: add_screen_def Let_def split: if_splits)
      with False Cons Some add show ?thesis by auto
    next
      case True
      then have new: "\<not> is_screen name cfg" using add by (auto simp: add_screen_known)
      obtain ok cfg2 where l: "link_pair screen d' name cfg1 = Some (ok, cfg2)"
        using Cons.prems Some add True by (auto split: option.splits)
      have rest: "place al name rest (screen, d', ok) cfg2 = Some ((a, d, True), cfg')"
        using Cons.prems Some add True l by simp
      have "is_screen name cfg2"
        using added_is_screen [OF assms(1), of name al] add link_pair_names [OF l] by (simp add: is_screen_def)
      then have ok using place_known [OF _ rest] by auto
      with rest have "(a, d, True) = (screen, d', True)" "cfg' = cfg2" by (cases rest; simp)+
      with Some add l \<open>ok\<close> new show ?thesis by simp
    qed
  qed
qed simp

lemma added_canonical:
  assumes inv: "config_inv cfg" and new: "\<not> is_screen name cfg"
  shows "get_canonical_name name (snd (add_screen al name cfg)) = name"
proof -
  note i = config_invD [OF inv]
  have none: "\<not> om_contains caseless_less name (cfg_names cfg)" using new by (simp add: is_screen_def)
  let ?n1 = "om_emplace caseless_less name name (cfg_names cfg)"
  have "om_find caseless_less name ?n1 = Some (name, name)"
    using none caseless.find_emplace [OF i(2), of name name name] by (simp add: om_contains_def)
  then have "om_find caseless_less name (add_aliases name (al name) ?n1) = Some (name, name)"
    using add_aliases_old caseless.emplace_sorted [OF i(2)] by simp
  with none show ?thesis by (simp add: add_screen_def get_canonical_name_def Let_def)
qed

lemma free_side_direction: "free_side a cfg = Some d \<Longrightarrow> d \<noteq> NoDirection \<and> opposite d \<noteq> NoDirection \<and> opposite d \<noteq> d \<and>
    has_neighbor a d cfg \<noteq> Some True"
  by (auto simp: free_side_def opposite_def split: if_splits)

lemma unit_link_transform:
  assumes "mk_edge m d' (0, 1) = Some e" and "mk_edge n d (0, 1) = Some f" and "is_f32 p"
  shows "edge_inverse_transform f (edge_transform e p) = p"
  using mk_edge_ok [OF assms(1)] mk_edge_ok [OF assms(2)] f32_exact [OF assms(3)]
  by (simp add: edge_transform_def edge_inverse_transform_def f32_exact)

lemma link_pair_neighbors:
  assumes inv: "config_inv cfg" and l: "link_pair a d n cfg = Some (True, cfg')"
    and d: "d \<noteq> NoDirection" "opposite d \<noteq> NoDirection" "opposite d \<noteq> d"
    and p: "0 \<le> p" "p < 1" "is_f32 p"
  shows "get_neighbor a d p cfg' = Some (get_canonical_name n cfg, Some p)"
    "get_neighbor n (opposite d) p cfg' = Some (get_canonical_name a cfg, Some p)"
proof -
  obtain c1 where c: "connect a d 0 1 n 0 1 cfg = Some (True, c1)"
    "connect n (opposite d) 0 1 a 0 1 c1 = Some (True, cfg')"
    using l by (auto simp: link_pair_def split: option.splits if_splits)
  have inv1: "config_inv c1" by (rule connect_inv [OF inv c(1)])
  have names: "get_canonical_name m cfg' = get_canonical_name m cfg" for m
    using connect_names [OF c(1)] connect_names [OF c(2)] by (simp add: get_canonical_name_def)
  obtain e1 f1 where 1: "mk_edge [] d (0, 1) = Some e1" "mk_edge n d (0, 1) = Some f1"
    "\<And>m q. link_at m d q c1 = (if caseless_equal (get_canonical_name m cfg) (get_canonical_name a cfg) \<and> 0 \<le> q \<and> q < 1
       then Some (e1, f1) else link_at m d q cfg)"
    using link_at_connect [OF inv c(1) d(1)] by (metis (no_types, lifting))
  obtain e2 f2 where 2: "mk_edge [] (opposite d) (0, 1) = Some e2" "mk_edge a (opposite d) (0, 1) = Some f2"
    "link_at n (opposite d) p cfg' = Some (e2, f2)"
    using link_at_connect [OF inv1 c(2) d(2)] p caseless_equal_refl by (metis (no_types, lifting))
  have other: "link_at a d p cfg' = link_at a d p c1"
    using link_at_connect [OF inv1 c(2) d(1)] d(3) by (metis (no_types, lifting))
  show "get_neighbor a d p cfg' = Some (get_canonical_name n cfg, Some p)"
    using 1 other p mk_edge_ok [OF 1(2)] unit_link_transform [OF 1(1,2) p(3)]
    by (simp add: get_neighbor_link [OF d(1)] names)
  show "get_neighbor n (opposite d) p cfg' = Some (get_canonical_name a cfg, Some p)"
    using 2 mk_edge_ok [OF 2(2)] unit_link_transform [OF 2(1,2) p(3)]
    by (simp add: get_neighbor_link [OF d(2)] names)
qed

lemma link_pair_apply:
  "link_pair a d name (snd (add_screen al name cfg)) = Some (True, cfg') \<Longrightarrow>
     apply_placement al name a d cfg = Some cfg'"
  by (auto simp: link_pair_def apply_placement_def split: option.splits if_splits)

text \<open>
  C20. Automatic placement. When the search for a place succeeds, the new screen was unknown and
  the side of the anchor it found was free, and applying the result to the configuration links
  the two screens both ways: every position on the anchor's side leads to the same position
  on the new screen, and back.
\<close>

theorem placement_links_both_ways:
  assumes "config_inv cfg" and "place al name scr ([], NoDirection, False) cfg = Some ((a, d, True), cfg')"
    and "0 \<le> p" and "p < 1" and "is_f32 p"
  shows "apply_placement al name a d cfg = Some cfg' \<and> \<not> is_screen name cfg \<and> a \<in> set scr \<and>
    has_neighbor a d cfg \<noteq> Some True \<and>
    get_neighbor a d p cfg' = Some (name, Some p) \<and>
    get_neighbor name (opposite d) p cfg' = Some (get_canonical_name a cfg', Some p)"
proof -
  have f: "free_side a cfg = Some d" "a \<in> set scr" "\<not> is_screen name cfg"
    and l: "link_pair a d name (snd (add_screen al name cfg)) = Some (True, cfg')"
    using place_placed [OF assms(1,2)] by simp_all
  note d = free_side_direction [OF f(1)]
  have "get_canonical_name a cfg' = get_canonical_name a (snd (add_screen al name cfg))"
    using link_pair_names [OF l] by (simp add: get_canonical_name_def)
  then show ?thesis
    using link_pair_neighbors [OF add_screen_inv [OF assms(1)] l _ _ _ assms(3-5)] d f(2,3)
      link_pair_apply [OF l] added_canonical [OF assms(1) f(3), of al] by simp
qed

lemma placement_links_both_ways_witness:
  "\<exists>cfg'. place (\<lambda>_. []) ''tv'' (screens demo_config) ([], NoDirection, False) demo_config = Some ((''host'', Left, True), cfg') \<and>
    apply_placement (\<lambda>_. []) ''tv'' ''host'' Left demo_config = Some cfg' \<and> \<not> is_screen ''tv'' demo_config \<and>
    ''host'' \<in> set (screens demo_config) \<and> has_neighbor ''host'' Left demo_config \<noteq> Some True \<and>
    get_neighbor ''host'' Left (1 / 2) cfg' = Some (''tv'', Some (1 / 2)) \<and>
    get_neighbor ''tv'' (opposite Left) (1 / 2) cfg' = Some (get_canonical_name ''host'' cfg', Some (1 / 2))"
proof -
  have "map_option fst (place (\<lambda>_. []) ''tv'' (screens demo_config) ([], NoDirection, False) demo_config) =
      Some (''host'', Left, True)"
    by code_simp
  then obtain cfg' where p: "place (\<lambda>_. []) ''tv'' (screens demo_config) ([], NoDirection, False) demo_config =
      Some ((''host'', Left, True), cfg')" by auto
  show ?thesis
    using p placement_links_both_ways [OF demo_config_inv p, of "1 / 2"] by auto
qed

end
