(* ===== verification/Partial_Read.thy ===== *)
theory Partial_Read
  imports Protocol_Util
begin

text \<open>
  What \<^verbatim>\<open>ProtocolUtil::readf\<close> leaves in the caller's variables when a message breaks off. Many
  handlers ignore the result of \<^verbatim>\<open>readf\<close>; then the arguments read before the failure are
  assigned, a vector holds the elements read so far, and the other variables keep what they
  held. \<open>got\<close> returns the values of the arguments that were assigned, the exception, if any,
  and the stream; it agrees with \<^const>\<open>vreadf\<close>.
\<close>

fun read_some :: "nat \<Rightarrow> ('s, 'a) reader \<Rightarrow> 's \<Rightarrow> 'a list \<times> read_error option \<times> 's" where
  "read_some 0 m s = ([], None, s)"
| "read_some (Suc n) m s =
     (case m s of
        (Inl e, s') \<Rightarrow> ([], Some e, s')
      | (Inr x, s') \<Rightarrow> (case read_some n m s' of (xs, r) \<Rightarrow> (x # xs, r)))"

definition got_one ::
    "('s, 'a) reader \<Rightarrow> ('a \<Rightarrow> val) \<Rightarrow> ('s \<Rightarrow> val list \<times> read_error option \<times> 's) \<Rightarrow> 's \<Rightarrow>
     val list \<times> read_error option \<times> 's" where
  "got_one m f rest s =
     (case m s of
        (Inl e, s') \<Rightarrow> ([], Some e, s')
      | (Inr v, s') \<Rightarrow> (case rest s' of (vs, r) \<Rightarrow> (f v # vs, r)))"

definition got_vector ::
    "(nat \<Rightarrow> 's \<Rightarrow> bytes \<times> 's) \<Rightarrow> ('s, 'a) reader \<Rightarrow> ('a list \<Rightarrow> val) \<Rightarrow>
     ('s \<Rightarrow> val list \<times> read_error option \<times> 's) \<Rightarrow> 's \<Rightarrow> val list \<times> read_error option \<times> 's" where
  "got_vector rd m f rest s =
     (case readVectorSize rd s of
        (Inl e, s') \<Rightarrow> ([f []], Some e, s')
      | (Inr n, s') \<Rightarrow>
          (case read_some (unat n) m s' of
             (xs, Some e, s'') \<Rightarrow> ([f xs], Some e, s'')
           | (xs, None, s'') \<Rightarrow> (case rest s'' of (vs, r) \<Rightarrow> (f xs # vs, r))))"

fun got :: "(nat \<Rightarrow> 's \<Rightarrow> bytes \<times> 's) \<Rightarrow> fmt_item list \<Rightarrow> 's \<Rightarrow> val list \<times> read_error option \<times> 's" where
  "got rd [] s = ([], None, s)"
| "got rd (Lit c # fs) s =
     (case pu_read rd 1 s of
        (Inl e, s') \<Rightarrow> ([], Some e, s')
      | (Inr b, s') \<Rightarrow> if b ! 0 \<noteq> c then ([], Some Read_Mismatch, s') else got rd fs s')"
| "got rd (Spec len k # fs) s =
     (if k = CHR ''i'' then
        (if len = 1 then got_one (read1ByteInt rd) Val1 (got rd fs) s
         else if len = 2 then got_one (read2BytesInt rd) Val2 (got rd fs) s
         else if len = 4 then got_one (read4BytesInt rd) Val4 (got rd fs) s
         else ([], Some Assert_Failed, s))
      else if k = CHR ''I'' then
        (if len = 1 then got_vector rd (read1ByteInt rd) Vec1 (got rd fs) s
         else if len = 2 then got_vector rd (read2BytesInt rd) Vec2 (got rd fs) s
         else if len = 4 then got_vector rd (read4BytesInt rd) Vec4 (got rd fs) s
         else ([], Some Assert_Failed, s))
      else if k = CHR ''s'' then
        (if protocol_max_string_length < len then ([], Some Bad_Client, s)
         else got_one (readBytes rd len) Str (got rd fs) s)
      else if k = CHR ''%'' then
        (if len = 0 then got rd fs s else ([], Some Assert_Failed, s))
      else ([], Some Assert_Failed, s))"

definition readf_got ::
    "(nat \<Rightarrow> 's \<Rightarrow> bytes \<times> 's) \<Rightarrow> string \<Rightarrow> 's \<Rightarrow> val list \<times> read_error option \<times> 's" where
  "readf_got rd fmt s =
     (case fmt_items fmt of None \<Rightarrow> ([], Some Assert_Failed, s) | Some fs \<Rightarrow> got rd fs s)"

section \<open>Agreement with the reader\<close>

definition as_reader :: "val list \<times> read_error option \<times> 's \<Rightarrow> (read_error + val list) \<times> 's" where
  "as_reader r = (case r of (vs, None, s) \<Rightarrow> (Inr vs, s) | (vs, Some e, s) \<Rightarrow> (Inl e, s))"

lemma as_reader_simps [simp]:
  "as_reader (vs, None, s) = (Inr vs, s)"
  "as_reader (vs, Some e, s) = (Inl e, s)"
  by (simp_all add: as_reader_def)

lemma read_some_times:
  "read_times n m s =
     (case read_some n m s of (xs, None, s') \<Rightarrow> (Inr xs, s') | (xs, Some e, s') \<Rightarrow> (Inl e, s'))"
  by (induction n arbitrary: s)
    (auto simp: rret_def rbind_def split: prod.splits sum.splits option.splits)

lemma as_reader_one:
  assumes "\<And>s. as_reader (g s) = h s"
  shows "as_reader (got_one m f g s) = rbind m (\<lambda>v. rbind h (\<lambda>vs. rret (f v # vs))) s"
proof (cases "m s")
  case (Pair r s')
  obtain vs e s'' where g: "g s' = (vs, e, s'')" by (rule prod_cases3)
  with assms [of s'] have "h s' = as_reader (vs, e, s'')" by simp
  with Pair g show ?thesis
    by (cases r; cases e) (simp_all add: got_one_def rbind_def rret_def)
qed

lemma as_reader_vector:
  assumes "\<And>s. as_reader (g s) = h s"
  shows "as_reader (got_vector rd m f g s) =
    rbind (rbind (readVectorSize rd) (\<lambda>n. read_times (unat n) m)) (\<lambda>v. rbind h (\<lambda>vs. rret (f v # vs))) s"
proof (cases "readVectorSize rd s")
  case (Pair r s1)
  show ?thesis
  proof (cases r)
    case (Inr n)
    obtain xs e s2 where x: "read_some (unat n) m s1 = (xs, e, s2)" by (rule prod_cases3)
    obtain vs e' s3 where g: "g s2 = (vs, e', s3)" by (rule prod_cases3)
    with assms [of s2] have "h s2 = as_reader (vs, e', s3)" by simp
    with Pair Inr x g show ?thesis
      by (cases e; cases e') (simp_all add: got_vector_def rbind_def rret_def read_some_times)
  qed (use Pair in \<open>simp add: got_vector_def rbind_def\<close>)
qed

lemma got_vreadf: "as_reader (got rd fs s) = vreadf rd fs s"
proof (induction fs arbitrary: s)
  case (Cons f fs)
  note one = as_reader_one [of "got rd fs" "vreadf rd fs", OF Cons.IH]
    and vector = as_reader_vector [of "got rd fs" "vreadf rd fs", OF Cons.IH]
  show ?case
  proof (cases f)
    case (Lit c)
    with Cons.IH show ?thesis by (auto simp: rbind_def rfail_def split: prod.split sum.split)
  next
    case (Spec len k)
    with Cons.IH show ?thesis
      by (simp add: one vector Let_def rfail_def readVector1ByteInt_def readVector2BytesInt_def readVector4BytesInt_def)
  qed
qed (simp add: rret_def)

lemma got_whole: "vreadf rd fs s = (Inr vs, s') \<longleftrightarrow> got rd fs s = (vs, None, s')"
  by (simp add: got_vreadf [symmetric] as_reader_def split: prod.split option.split)

section \<open>Readers only consume\<close>

definition consumes :: "('s \<Rightarrow> bool) \<Rightarrow> ('s \<Rightarrow> bytes) \<Rightarrow> ('s, 'a) reader \<Rightarrow> bool" where
  "consumes ok avail m \<longleftrightarrow> (\<forall>s. ok s \<longrightarrow> ok (snd (m s)) \<and> suffix (avail (snd (m s))) (avail s))"

named_theorems consuming \<open>readers that only consume\<close>

lemma consumes_rret [consuming]: "consumes ok avail (rret v)"
  by (simp add: consumes_def rret_def)

lemma consumes_rfail [consuming]: "consumes ok avail (rfail e)"
  by (simp add: consumes_def rfail_def)

lemma consumes_rbind [consuming]:
  assumes m: "consumes ok avail m" and f: "\<And>a. consumes ok avail (f a)"
  shows "consumes ok avail (rbind m f)"
  unfolding consumes_def
proof (intro allI impI)
  fix s assume s: "ok s"
  obtain r s1 where ms: "m s = (r, s1)" by fastforce
  moreover have "ok (snd (m s)) \<and> suffix (avail (snd (m s))) (avail s)"
    using m s unfolding consumes_def by blast
  ultimately have s1: "ok s1" "suffix (avail s1) (avail s)" by simp_all
  then show "ok (snd (rbind m f s)) \<and> suffix (avail (snd (rbind m f s))) (avail s)"
    using f ms by (cases r) (auto simp: rbind_def consumes_def intro: suffix_order.trans)
qed

lemma consumes_if [consuming]:
  "\<lbrakk>consumes ok avail m; consumes ok avail m'\<rbrakk> \<Longrightarrow> consumes ok avail (if b then m else m')"
  by simp

lemma consumes_times [consuming]:
  "consumes ok avail m \<Longrightarrow> consumes ok avail (read_times n m)"
proof (induction n)
  case (Suc n)
  then show ?case unfolding read_times.simps by (intro consumes_rbind consumes_rret)
qed (simp add: consumes_rret)

context byte_source
begin

lemma consumes_read [consuming]: "consumes ok avail (pu_read rd n)"
  unfolding consumes_def
proof (intro allI impI)
  show "ok s \<Longrightarrow> ok (snd (pu_read rd n s)) \<and> suffix (avail (snd (pu_read rd n s))) (avail s)" for s
  proof (induction n arbitrary: s rule: less_induct)
    case (less n)
    obtain out s1 where rd: "rd n s = (out, s1)" by fastforce
    with less.prems have s1: "ok s1" "suffix (avail s1) (avail s)"
      using rd_inv [of s n] rd_avail [of s n] by (auto simp: suffix_def)
    have IH: "ok (snd (pu_read rd (n - length out) s1)) \<and>
        suffix (avail (snd (pu_read rd (n - length out) s1))) (avail s1)" if "out \<noteq> []" "n \<noteq> 0"
      using less.IH [of "n - length out" s1] s1(1) that by auto
    show ?case
    proof (cases "n = 0 \<or> out = []")
      case True
      with rd s1 less.prems show ?thesis by (auto simp: pu_read.simps [of rd n s])
    next
      case False
      obtain r s2 where more: "pu_read rd (n - length out) s1 = (r, s2)" by fastforce
      then have "snd (pu_read rd n s) = s2"
        using False rd by (simp add: pu_read.simps [of rd n s] split: sum.split)
      with False more IH s1(2) show ?thesis by (auto intro: suffix_order.trans)
    qed
  qed
qed

lemma consumes_ints [consuming]:
  "consumes ok avail (read1ByteInt rd)" "consumes ok avail (read2BytesInt rd)"
  "consumes ok avail (read4BytesInt rd)"
  by (auto simp: read1ByteInt_def read2BytesInt_def read4BytesInt_def intro: consuming)

lemma consumes_vectors [consuming]:
  "consumes ok avail (readVector1ByteInt rd)" "consumes ok avail (readVector2BytesInt rd)"
  "consumes ok avail (readVector4BytesInt rd)" "consumes ok avail (readBytes rd len)"
  by (auto simp: readVector1ByteInt_def readVector2BytesInt_def readVector4BytesInt_def
      readVectorSize_def readBytes_def intro!: consuming)

lemma consumes_vreadf [consuming]: "consumes ok avail (vreadf rd fs)"
proof (induction fs)
  case (Cons f fs)
  then show ?case by (cases f) (auto simp: Let_def intro!: consuming)
qed (auto intro: consuming)

text \<open>The stream behind a message is a suffix of what was available.\<close>

lemma readf_got_consumes:
  assumes "ok s"
  shows "ok (snd (snd (readf_got rd fmt s)))" and "suffix (avail (snd (snd (readf_got rd fmt s)))) (avail s)"
proof -
  have "snd (vreadf rd fs s) = snd (snd (got rd fs s))" for fs
    by (simp add: got_vreadf [symmetric] as_reader_def split: prod.split option.split)
  then show "ok (snd (snd (readf_got rd fmt s)))" and "suffix (avail (snd (snd (readf_got rd fmt s)))) (avail s)"
    using consumes_vreadf assms
    by (auto simp: readf_got_def consumes_def split: option.split) (metis+)
qed

end

end
