(* ===== verification/Keyboard_Layouts.thy ===== *)
theory Keyboard_Layouts
  imports Prelude
begin

text \<open>
  The keyboard layouts of the two sides, \<^verbatim>\<open>deskflow/KeyboardLayoutManager.cpp\<close>: the server
  announces its layouts as one string of two-letter codes; the client reports the ones it
  lacks. \<^verbatim>\<open>size_t\<close> has 64 bits; \<^const>\<open>None\<close> is the exception \<^verbatim>\<open>std::out_of_range\<close>.
\<close>

record layout_manager =
  m_localLayouts :: "bytes list"
  m_remoteLayouts :: "bytes list"

fun vector_loop :: "bytes \<Rightarrow> bytes list \<Rightarrow> bytes" where
  "vector_loop delimiter [] = []"
| "vector_loop delimiter (x # xs) = delimiter @ x @ vector_loop delimiter xs"

definition vectorToString :: "bytes list \<Rightarrow> bytes \<Rightarrow> bytes" where
  "vectorToString v delimiter = (case v of [] \<Rightarrow> [] | x # xs \<Rightarrow> x @ vector_loop delimiter xs)"

text \<open>\<^verbatim>\<open>remoteLayouts.substr(i, 2)\<close> throws behind the end of the string.\<close>

definition substr2 :: "bytes \<Rightarrow> nat \<Rightarrow> bytes option" where
  "substr2 str i = (if length str < i then None else Some (take 2 (drop i str)))"

function remote_loop :: "bytes \<Rightarrow> nat \<Rightarrow> bytes list option" where
  "remote_loop str i =
     (if of_nat i \<le> (of_nat (length str) - 2 :: 64 word) then
        (case substr2 str i of
           None \<Rightarrow> None
         | Some code \<Rightarrow> map_option ((#) code) (remote_loop str (i + 2)))
      else Some [])"
  by pat_completeness auto
termination
  by (relation "measure (\<lambda>(str, i). Suc (length str) - i)") (auto simp: substr2_def split: if_splits)

declare remote_loop.simps [simp del]

definition setRemoteLayouts :: "bytes \<Rightarrow> layout_manager \<Rightarrow> layout_manager option" where
  "setRemoteLayouts remote m =
     (if remote = [] then Some (m\<lparr>m_remoteLayouts := []\<rparr>)
      else map_option (\<lambda>ls. m\<lparr>m_remoteLayouts := ls\<rparr>) (remote_loop remote 0))"

definition isLayoutInstalled :: "bytes \<Rightarrow> layout_manager \<Rightarrow> bool" where
  "isLayoutInstalled layout m =
     (if m_localLayouts m \<noteq> [] then layout \<in> set (m_localLayouts m) else True)"

definition comma :: bytes where
  "comma = [44, 32]"

fun missed_loop :: "layout_manager \<Rightarrow> bytes list \<Rightarrow> bytes \<Rightarrow> bytes" where
  "missed_loop m [] missed = missed"
| "missed_loop m (l # ls) missed =
     missed_loop m ls
       (if \<not> isLayoutInstalled l m then (if missed \<noteq> [] then missed @ comma else missed) @ l else missed)"

definition getMissedLayouts :: "layout_manager \<Rightarrow> bytes" where
  "getMissedLayouts m = missed_loop m (m_remoteLayouts m) []"

definition getSerializedLocalLayouts :: "layout_manager \<Rightarrow> bytes" where
  "getSerializedLocalLayouts m = vectorToString (m_localLayouts m) []"

section \<open>Properties\<close>

lemma vector_loop_Nil: "vector_loop [] xs = concat xs"
  by (induction xs) simp_all

lemma serialized_concat: "getSerializedLocalLayouts m = concat (m_localLayouts m)"
  by (simp add: getSerializedLocalLayouts_def vectorToString_def vector_loop_Nil split: list.split)

lemma last_start:
  assumes "2 \<le> n" and "n < 2 ^ 63" and "i < 2 ^ 63"
  shows "of_nat i \<le> (of_nat n - 2 :: 64 word) \<longleftrightarrow> i + 2 \<le> n"
proof -
  have "(of_nat n - 2 :: 64 word) = of_nat (n - 2)" using assms(1) by (simp add: of_nat_diff)
  moreover have "unat (of_nat i :: 64 word) = i" "unat (of_nat (n - 2) :: 64 word) = n - 2"
    using assms by (simp_all only: unat_of_nat) simp_all
  ultimately show ?thesis using assms(1) by (auto simp: word_le_nat_alt)
qed

lemma remote_loop_codes:
  assumes "\<forall>c \<in> set cs. length c = 2" and "2 * length (ds @ cs) < 2 ^ 63"
    and "length (concat ds) = 2 * length ds" and "ds @ cs \<noteq> []"
  shows "remote_loop (concat (ds @ cs)) (2 * length ds) = Some cs"
  using assms
proof (induction cs arbitrary: ds)
  case Nil
  then have "\<not> of_nat (2 * length ds) \<le> (of_nat (length (concat ds)) - 2 :: 64 word)"
    using last_start [of "2 * length ds" "2 * length ds"] by (cases ds) simp_all
  with Nil show ?case by (subst remote_loop.simps) simp
next
  case (Cons c cs)
  have len: "length (concat cs) = 2 * length cs"
    using Cons.prems(1) by (induction cs) auto
  have n: "length (concat (ds @ c # cs)) = 2 * length ds + 2 + 2 * length cs"
    using Cons.prems len by simp
  have "of_nat (2 * length ds) \<le> (of_nat (length (concat (ds @ c # cs))) - 2 :: 64 word)"
    unfolding n by (subst last_start) (use Cons.prems(2) in simp_all)
  moreover have "substr2 (concat (ds @ c # cs)) (2 * length ds) = Some c"
    using Cons.prems n by (simp add: substr2_def)
  moreover have "remote_loop (concat ((ds @ [c]) @ cs)) (2 * length (ds @ [c])) = Some cs"
    by (rule Cons.IH) (use Cons.prems in auto)
  ultimately show ?case by (subst remote_loop.simps) simp
qed

text \<open>
  The layouts that the server serialises are the ones the client reads back: if every code has
  two letters, \<^verbatim>\<open>setRemoteLayouts\<close> of the peer's \<^verbatim>\<open>getSerializedLocalLayouts\<close> is its list.
\<close>

theorem layouts_roundtrip:
  assumes "\<forall>c \<in> set (m_localLayouts peer). length c = 2" and "length (m_localLayouts peer) < 2 ^ 62"
  shows "setRemoteLayouts (getSerializedLocalLayouts peer) m =
    Some (m\<lparr>m_remoteLayouts := m_localLayouts peer\<rparr>)"
proof (cases "m_localLayouts peer")
  case Nil
  then show ?thesis by (simp add: serialized_concat setRemoteLayouts_def)
next
  case (Cons c cs)
  with assms(1) have "concat (m_localLayouts peer) \<noteq> []" by auto
  moreover have "remote_loop (concat (m_localLayouts peer)) 0 = Some (m_localLayouts peer)"
    using remote_loop_codes [of "m_localLayouts peer" "[]"] assms Cons by simp
  ultimately show ?thesis
    by (simp add: serialized_concat setRemoteLayouts_def del: concat_eq_Nil_conv)
qed

lemma layouts_roundtrip_witness:
  "setRemoteLayouts (getSerializedLocalLayouts \<lparr>m_localLayouts = [[101, 110], [100, 101]], m_remoteLayouts = []\<rparr>)
     \<lparr>m_localLayouts = [], m_remoteLayouts = []\<rparr> =
   Some (\<lparr>m_localLayouts = [], m_remoteLayouts = []\<rparr>\<lparr>m_remoteLayouts := [[101, 110], [100, 101]]\<rparr>)"
  using layouts_roundtrip [of "\<lparr>m_localLayouts = [[101, 110], [100, 101]], m_remoteLayouts = []\<rparr>"
      "\<lparr>m_localLayouts = [], m_remoteLayouts = []\<rparr>"] by simp

text \<open>A string of one byte is read behind its end: the bound of the loop wraps around.\<close>

lemma one_byte_layout_throws: "setRemoteLayouts [b] m = None"
proof -
  have "remote_loop [b] 2 = None"
    by (subst remote_loop.simps) (simp add: substr2_def)
  then have "remote_loop [b] 0 = None"
    by (subst remote_loop.simps) (simp add: substr2_def numeral_2_eq_2)
  then show ?thesis by (simp add: setRemoteLayouts_def)
qed

end
