(* ===== verification/Key_Ids.thy ===== *)
theory Key_Ids
  imports Prelude
begin

text \<open>The numbers of modifiers, their masks, and the keys that server and client treat alike: \<^verbatim>\<open>deskflow/KeyTypes.h\<close>.\<close>

definition kKeyModifierIDNull :: u32 where "kKeyModifierIDNull = 0"
definition kKeyModifierIDShift :: u32 where "kKeyModifierIDShift = 1"
definition kKeyModifierIDControl :: u32 where "kKeyModifierIDControl = 2"
definition kKeyModifierIDAlt :: u32 where "kKeyModifierIDAlt = 3"
definition kKeyModifierIDMeta :: u32 where "kKeyModifierIDMeta = 4"
definition kKeyModifierIDSuper :: u32 where "kKeyModifierIDSuper = 5"
definition kKeyModifierIDAltGr :: u32 where "kKeyModifierIDAltGr = 6"
definition kKeyModifierIDLast :: u32 where "kKeyModifierIDLast = 7"

lemmas modifier_ids =
  kKeyModifierIDNull_def kKeyModifierIDShift_def kKeyModifierIDControl_def kKeyModifierIDAlt_def
  kKeyModifierIDMeta_def kKeyModifierIDSuper_def kKeyModifierIDAltGr_def kKeyModifierIDLast_def

definition KeyModifierShift :: u32 where "KeyModifierShift = 0x0001"
definition KeyModifierControl :: u32 where "KeyModifierControl = 0x0002"
definition KeyModifierAlt :: u32 where "KeyModifierAlt = 0x0004"
definition KeyModifierMeta :: u32 where "KeyModifierMeta = 0x0008"
definition KeyModifierSuper :: u32 where "KeyModifierSuper = 0x0010"
definition KeyModifierAltGr :: u32 where "KeyModifierAltGr = 0x0020"

lemmas modifier_masks =
  KeyModifierShift_def KeyModifierControl_def KeyModifierAlt_def KeyModifierMeta_def
  KeyModifierSuper_def KeyModifierAltGr_def

definition kKeyNone :: u32 where "kKeyNone = 0"
definition kKeyScrollLock :: u32 where "kKeyScrollLock = 0xEF14"
definition kKeySetModifiers :: u32 where "kKeySetModifiers = 0xEE06"
definition kKeyClearModifiers :: u32 where "kKeyClearModifiers = 0xEE07"
definition kKeyShift_L :: u32 where "kKeyShift_L = 0xEFE1"
definition kKeyShift_R :: u32 where "kKeyShift_R = 0xEFE2"
definition kKeyControl_L :: u32 where "kKeyControl_L = 0xEFE3"
definition kKeyControl_R :: u32 where "kKeyControl_R = 0xEFE4"
definition kKeyMeta_L :: u32 where "kKeyMeta_L = 0xEFE7"
definition kKeyMeta_R :: u32 where "kKeyMeta_R = 0xEFE8"
definition kKeyAlt_L :: u32 where "kKeyAlt_L = 0xEFE9"
definition kKeyAlt_R :: u32 where "kKeyAlt_R = 0xEFEA"
definition kKeySuper_L :: u32 where "kKeySuper_L = 0xEFEB"
definition kKeySuper_R :: u32 where "kKeySuper_R = 0xEFEC"
definition kKeyAltGr :: u32 where "kKeyAltGr = 0xEF7E"

lemmas modifier_keys =
  kKeyNone_def kKeyShift_L_def kKeyShift_R_def kKeyControl_L_def kKeyControl_R_def kKeyMeta_L_def
  kKeyMeta_R_def kKeyAlt_L_def kKeyAlt_R_def kKeySuper_L_def kKeySuper_R_def kKeyAltGr_def

end
