(* ===== verification/Server_Proxy.thy ===== *)
theory Server_Proxy
  imports Complex_Main Partial_Read Clipboard_Chunk Clipboards Keyboard_Layouts Option_Ids Key_Ids
begin

text \<open>
  The client's end of the connection, \<^verbatim>\<open>client/ServerProxy.cpp\<close>: messages from the server
  become calls on the client, with the mouse motion compressed while more input waits, and
  the client's notifications become messages. The proxy is the record \<open>server_proxy\<close>; what it
  does to the outside (calls on \<^verbatim>\<open>Client\<close>, messages written, events queued, its keep-alive
  timer) is appended to its field \<open>sp_log\<close>. A handler is an action on the proxy that ends
  normally or stops: with an exception, or because it uses a variable that a message cut
  short has not assigned (\<open>Indeterminate\<close>). Log output is not modelled; times are rational
  numbers of seconds.
\<close>

section \<open>State\<close>

type_synonym i32 = "32 word"

datatype client_call =
    Handshake_Complete
  | Enter i32 i32 u32 u32
  | Leave
  | Set_Clipboard byte clipboard
  | Grab_Clipboard byte
  | Key_Down u32 u32 u16 bytes
  | Key_Repeat u32 u32 i32 u16 bytes
  | Key_Up u32 u32 u16
  | Mouse_Down byte
  | Mouse_Up byte
  | Mouse_Move i32 i32
  | Mouse_Relative_Move i32 i32
  | Mouse_Wheel i32 i32
  | Screensaver bool
  | Reset_Options
  | Set_Options "u32 list"

datatype refusal = IncompatibleVersion | AlreadyConnected | UnknownClient | ProtocolError

datatype proxy_effect =
    Client_Call client_call
  | Write string "arg list"
  | Write_Chunk clipboard_chunk
  | Queue_Chunks "clipboard_chunk list"
  | Request_Disconnect "string option"
  | Request_Refuse refusal string
  | New_Alarm rat
  | Delete_Alarm
  | Missing_Keyboard_Layouts bytes
  | Capture_Response bytes

datatype message_parser = Handshake | Messages

record 's server_proxy =
  sp_stream :: 's
  sp_seqNum :: u32
  sp_compressMouse :: bool
  sp_compressMouseRelative :: bool
  sp_xMouse :: i32
  sp_yMouse :: i32
  sp_dxMouse :: i32
  sp_dyMouse :: i32
  sp_ignoreMouse :: bool
  sp_modifierTranslationTable :: "u32 list"
  sp_keepAliveAlarm :: rat
  sp_keepAliveAlarmTimer :: "rat option"
  sp_parser :: message_parser
  sp_serverLayout :: bytes
  sp_clipboard :: "bytes \<times> assembly_state"
  sp_isUserNotifiedAboutLayoutSyncError :: bool
  sp_layoutManager :: layout_manager
  sp_log :: "proxy_effect list"

text \<open>
  What the proxy asks of its surroundings: the stream's \<^verbatim>\<open>read\<close> and \<^verbatim>\<open>isReady\<close>, Qt's parsing and
  printing of numbers, and the client's answers, which may depend on everything done so far.
\<close>

record 's proxy_env =
  e_read :: "nat \<Rightarrow> 's \<Rightarrow> bytes \<times> 's"
  e_isReady :: "'s \<Rightarrow> bool"
  e_parse :: "bytes \<Rightarrow> 64 word option"
  e_number :: "nat \<Rightarrow> bytes"
  e_maximumReceiveSize :: nat
  e_shape :: "proxy_effect list \<Rightarrow> i32 \<times> i32 \<times> i32 \<times> i32"
  e_cursor :: "proxy_effect list \<Rightarrow> i32 \<times> i32"

section \<open>Actions\<close>

datatype stop = Thrown read_error | Out_Of_Range | Indeterminate | Bad_Access

type_synonym ('s, 'a) action = "'s server_proxy \<Rightarrow> (stop + 'a) \<times> 's server_proxy"

definition a_ret :: "'a \<Rightarrow> ('s, 'a) action" where
  "a_ret a p = (Inr a, p)"

definition a_stop :: "stop \<Rightarrow> ('s, 'a) action" where
  "a_stop e p = (Inl e, p)"

definition a_do :: "('s server_proxy \<Rightarrow> 's server_proxy) \<Rightarrow> ('s, unit) action" where
  "a_do f p = (Inr (), f p)"

definition a_bind :: "('s, 'a) action \<Rightarrow> ('a \<Rightarrow> ('s, 'b) action) \<Rightarrow> ('s, 'b) action" where
  "a_bind m f p = (case m p of (Inl e, p') \<Rightarrow> (Inl e, p') | (Inr a, p') \<Rightarrow> f a p')"

definition a_then :: "('s, unit) action \<Rightarrow> ('s, 'b) action \<Rightarrow> ('s, 'b) action" where
  "a_then m n = a_bind m (\<lambda>_. n)"

definition tell :: "proxy_effect \<Rightarrow> 's server_proxy \<Rightarrow> 's server_proxy" where
  "tell e p = p\<lparr>sp_log := sp_log p @ [e]\<rparr>"

definition call :: "client_call \<Rightarrow> 's server_proxy \<Rightarrow> 's server_proxy" where
  "call c = tell (Client_Call c)"

text \<open>\<^verbatim>\<open>readf\<close> with its result ignored: the values that were assigned.\<close>

definition a_readf :: "'s proxy_env \<Rightarrow> string \<Rightarrow> ('s, val list) action" where
  "a_readf env fmt p =
     (case readf_got (e_read env) fmt (sp_stream p) of
        (vs, None, s) \<Rightarrow> (Inr vs, p\<lparr>sp_stream := s\<rparr>)
      | (vs, Some e, s) \<Rightarrow>
          if e = End_Of_Stream \<or> e = Read_Mismatch then (Inr vs, p\<lparr>sp_stream := s\<rparr>)
          else (Inl (Thrown e), p\<lparr>sp_stream := s\<rparr>))"

section \<open>Message formats\<close>

definition kMsgCNoop :: string where "kMsgCNoop = ''CNOP''"
definition kMsgCClose :: string where "kMsgCClose = ''CBYE''"
definition kMsgCEnter :: string where "kMsgCEnter = ''CINN%2i%2i%4i%2i''"
definition kMsgCLeave :: string where "kMsgCLeave = ''COUT''"
definition kMsgCClipboard :: string where "kMsgCClipboard = ''CCLP%1i%4i''"
definition kMsgCScreenSaver :: string where "kMsgCScreenSaver = ''CSEC%1i''"
definition kMsgCResetOptions :: string where "kMsgCResetOptions = ''CROP''"
definition kMsgCInfoAck :: string where "kMsgCInfoAck = ''CIAK''"
definition kMsgCKeepAlive :: string where "kMsgCKeepAlive = ''CALV''"
definition kMsgDKeyDownLang :: string where "kMsgDKeyDownLang = ''DKDL%2i%2i%2i%s''"
definition kMsgDKeyDown :: string where "kMsgDKeyDown = ''DKDN%2i%2i%2i''"
definition kMsgDKeyRepeat :: string where "kMsgDKeyRepeat = ''DKRP%2i%2i%2i%2i%s''"
definition kMsgDKeyUp :: string where "kMsgDKeyUp = ''DKUP%2i%2i%2i''"
definition kMsgDMouseDown :: string where "kMsgDMouseDown = ''DMDN%1i''"
definition kMsgDMouseUp :: string where "kMsgDMouseUp = ''DMUP%1i''"
definition kMsgDMouseMove :: string where "kMsgDMouseMove = ''DMMV%2i%2i''"
definition kMsgDMouseRelMove :: string where "kMsgDMouseRelMove = ''DMRM%2i%2i''"
definition kMsgDMouseWheel :: string where "kMsgDMouseWheel = ''DMWM%2i%2i''"
definition kMsgDInfo :: string where "kMsgDInfo = ''DINF%2i%2i%2i%2i%2i%2i%2i''"
definition kMsgDSetOptions :: string where "kMsgDSetOptions = ''DSOP%4I''"
definition kMsgDSecureInputNotification :: string where "kMsgDSecureInputNotification = ''SECN%s''"
definition kMsgDLanguageSynchronisation :: string where "kMsgDLanguageSynchronisation = ''LSYN%s''"
definition kMsgQInfo :: string where "kMsgQInfo = ''QINF''"
definition kMsgEIncompatible :: string where "kMsgEIncompatible = ''EICV%2i%2i''"
definition kMsgEBusy :: string where "kMsgEBusy = ''EBSY''"
definition kMsgEUnknown :: string where "kMsgEUnknown = ''EUNK''"
definition kMsgEBad :: string where "kMsgEBad = ''EBAD''"

lemmas message_formats =
  kMsgCNoop_def kMsgCClose_def kMsgCEnter_def kMsgCLeave_def kMsgCClipboard_def
  kMsgCScreenSaver_def kMsgCResetOptions_def kMsgCInfoAck_def kMsgCKeepAlive_def
  kMsgDKeyDownLang_def kMsgDKeyDown_def kMsgDKeyRepeat_def kMsgDKeyUp_def kMsgDMouseDown_def
  kMsgDMouseUp_def kMsgDMouseMove_def kMsgDMouseRelMove_def kMsgDMouseWheel_def kMsgDInfo_def
  kMsgDSetOptions_def kMsgDSecureInputNotification_def kMsgDLanguageSynchronisation_def
  kMsgQInfo_def kMsgEIncompatible_def kMsgEBusy_def kMsgEUnknown_def kMsgEBad_def kMsgDClipboard_def

text \<open>\<^verbatim>\<open>memcmp(code, kMsg, 4) == 0\<close>.\<close>

definition is_msg :: "bytes \<Rightarrow> string \<Rightarrow> bool" where
  "is_msg code fmt \<longleftrightarrow> code = map of_char (take 4 fmt)"

section \<open>Keep-alive alarm\<close>

definition kKeepAliveRate :: rat where "kKeepAliveRate = 3"
definition kKeepAlivesUntilDeath :: rat where "kKeepAlivesUntilDeath = 3"

definition resetKeepAliveAlarm :: "'s server_proxy \<Rightarrow> 's server_proxy" where
  "resetKeepAliveAlarm p =
     (let p = (if sp_keepAliveAlarmTimer p \<noteq> None
               then (tell Delete_Alarm p)\<lparr>sp_keepAliveAlarmTimer := None\<rparr> else p)
      in if sp_keepAliveAlarm p > 0
         then (tell (New_Alarm (sp_keepAliveAlarm p)) p)\<lparr>sp_keepAliveAlarmTimer := Some (sp_keepAliveAlarm p)\<rparr>
         else p)"

definition setKeepAliveRate :: "rat \<Rightarrow> 's server_proxy \<Rightarrow> 's server_proxy" where
  "setKeepAliveRate rate p = resetKeepAliveAlarm (p\<lparr>sp_keepAliveAlarm := rate * kKeepAlivesUntilDeath\<rparr>)"

definition requestDisconnect :: "string option \<Rightarrow> 's server_proxy \<Rightarrow> 's server_proxy" where
  "requestDisconnect msg = tell (Request_Disconnect msg)"

definition requestRefuseConnection :: "refusal \<Rightarrow> string \<Rightarrow> 's server_proxy \<Rightarrow> 's server_proxy" where
  "requestRefuseConnection reason msg = tell (Request_Refuse reason msg)"

definition handleKeepAliveAlarm :: "'s server_proxy \<Rightarrow> 's server_proxy" where
  "handleKeepAliveAlarm = requestDisconnect (Some ''server is not responding'')"

section \<open>Modifiers\<close>

definition identity_table :: "u32 list" where
  "identity_table = map of_nat [0 ..< unat kKeyModifierIDLast]"

definition key_table :: "(u32 \<times> u32) list" where
  "key_table = [(kKeyNone, kKeyNone), (kKeyShift_L, kKeyShift_R), (kKeyControl_L, kKeyControl_R),
     (kKeyAlt_L, kKeyAlt_R), (kKeyMeta_L, kKeyMeta_R), (kKeySuper_L, kKeySuper_R), (kKeyAltGr, kKeyAltGr)]"

text \<open>The modifier a key belongs to, and its side: \<^const>\<open>True\<close> is the right one.\<close>

definition key_side :: "u32 \<Rightarrow> u32 \<times> bool" where
  "key_side k =
     (if k = kKeyShift_L then (kKeyModifierIDShift, False)
      else if k = kKeyShift_R then (kKeyModifierIDShift, True)
      else if k = kKeyControl_L then (kKeyModifierIDControl, False)
      else if k = kKeyControl_R then (kKeyModifierIDControl, True)
      else if k = kKeyAlt_L then (kKeyModifierIDAlt, False)
      else if k = kKeyAlt_R then (kKeyModifierIDAlt, True)
      else if k = kKeyAltGr then (kKeyModifierIDAltGr, True)
      else if k = kKeyMeta_L then (kKeyModifierIDMeta, False)
      else if k = kKeyMeta_R then (kKeyModifierIDMeta, True)
      else if k = kKeySuper_L then (kKeyModifierIDSuper, False)
      else if k = kKeySuper_R then (kKeyModifierIDSuper, True)
      else (kKeyModifierIDNull, False))"

definition translateKey :: "u32 list \<Rightarrow> u32 \<Rightarrow> u32" where
  "translateKey table k =
     (case key_side k of (id2, right) \<Rightarrow>
        if id2 \<noteq> kKeyModifierIDNull then
          (let keys = key_table ! unat (table ! unat id2) in if right then snd keys else fst keys)
        else k)"

definition s_masks :: "u32 list" where
  "s_masks = [0, KeyModifierShift, KeyModifierControl, KeyModifierAlt, KeyModifierMeta,
     KeyModifierSuper, KeyModifierAltGr]"

definition translated_bit :: "u32 list \<Rightarrow> u32 \<Rightarrow> u32 \<Rightarrow> u32 \<Rightarrow> u32" where
  "translated_bit table m b id2 =
     (if m AND b \<noteq> 0 then s_masks ! unat (table ! unat id2) else 0)"

definition translateModifierMask :: "u32 list \<Rightarrow> u32 \<Rightarrow> u32" where
  "translateModifierMask table m =
     m AND NOT (KeyModifierShift OR KeyModifierControl OR KeyModifierAlt OR KeyModifierMeta OR
       KeyModifierSuper OR KeyModifierAltGr)
     OR translated_bit table m KeyModifierShift kKeyModifierIDShift
     OR translated_bit table m KeyModifierControl kKeyModifierIDControl
     OR translated_bit table m KeyModifierAlt kKeyModifierIDAlt
     OR translated_bit table m KeyModifierAltGr kKeyModifierIDAltGr
     OR translated_bit table m KeyModifierMeta kKeyModifierIDMeta
     OR translated_bit table m KeyModifierSuper kKeyModifierIDSuper"

section \<open>Outgoing notifications\<close>

definition sendInfo :: "i32 \<times> i32 \<times> i32 \<times> i32 \<Rightarrow> i32 \<times> i32 \<Rightarrow> 's server_proxy \<Rightarrow> 's server_proxy" where
  "sendInfo shape cursor =
     (case shape of (x, y, w, h) \<Rightarrow> case cursor of (mx, my) \<Rightarrow>
        tell (Write kMsgDInfo (map Int_Arg [x, y, w, h, 0, mx, my])))"

definition queryInfo :: "'s proxy_env \<Rightarrow> 's server_proxy \<Rightarrow> 's server_proxy" where
  "queryInfo env p = sendInfo (e_shape env (sp_log p)) (e_cursor env (sp_log p)) p"

definition onInfoChanged :: "'s proxy_env \<Rightarrow> 's server_proxy \<Rightarrow> 's server_proxy" where
  "onInfoChanged env p = queryInfo env (p\<lparr>sp_ignoreMouse := True\<rparr>)"

definition onGrabClipboard :: "byte \<Rightarrow> 's server_proxy \<Rightarrow> 's server_proxy" where
  "onGrabClipboard cid p = tell (Write kMsgCClipboard [Int_Arg (ucast cid), Int_Arg (sp_seqNum p)]) p"

text \<open>\<^const>\<open>None\<close>: \<^verbatim>\<open>sendClipboard\<close> throws.\<close>

definition onClipboardChanged :: "'s proxy_env \<Rightarrow> byte \<Rightarrow> clipboard \<Rightarrow> 's server_proxy \<Rightarrow> 's server_proxy option" where
  "onClipboardChanged env cid c p =
     (let data = fst (cb_marshall c) in
      map_option (\<lambda>cs. tell (Queue_Chunks cs) p)
        (sendClipboard (e_number env) data (length data) cid (sp_seqNum p)))"

definition sendCaptureControl :: "bytes \<Rightarrow> 's server_proxy \<Rightarrow> 's server_proxy" where
  "sendCaptureControl json = tell (Write ''ZCAP%s'' [Str_Arg json])"

text \<open>The handler of \<^verbatim>\<open>ClipboardSending\<close>: \<^verbatim>\<open>ClipboardChunk::send\<close> on the stream.\<close>

definition handleClipboardSending :: "clipboard_chunk \<Rightarrow> 's server_proxy \<Rightarrow> 's server_proxy" where
  "handleClipboardSending c = tell (Write_Chunk c)"

definition flushCompressedMouse :: "'s server_proxy \<Rightarrow> 's server_proxy" where
  "flushCompressedMouse p =
     (let p = (if sp_compressMouse p
               then call (Mouse_Move (sp_xMouse p) (sp_yMouse p)) (p\<lparr>sp_compressMouse := False\<rparr>) else p)
      in if sp_compressMouseRelative p
         then (call (Mouse_Relative_Move (sp_dxMouse p) (sp_dyMouse p)) (p\<lparr>sp_compressMouseRelative := False\<rparr>))
                \<lparr>sp_dxMouse := 0, sp_dyMouse := 0\<rparr>
         else p)"

section \<open>Construction\<close>

definition proxy_new :: "bytes list \<Rightarrow> 's \<Rightarrow> 's server_proxy" where
  "proxy_new localLayouts stream =
     setKeepAliveRate kKeepAliveRate
       \<lparr>sp_stream = stream, sp_seqNum = 0, sp_compressMouse = False, sp_compressMouseRelative = False,
        sp_xMouse = 0, sp_yMouse = 0, sp_dxMouse = 0, sp_dyMouse = 0, sp_ignoreMouse = False,
        sp_modifierTranslationTable = identity_table, sp_keepAliveAlarm = 0,
        sp_keepAliveAlarmTimer = None, sp_parser = Handshake, sp_serverLayout = [],
        sp_clipboard = ([], assembly_init), sp_isUserNotifiedAboutLayoutSyncError = False,
        sp_layoutManager = \<lparr>m_localLayouts = localLayouts, m_remoteLayouts = []\<rparr>, sp_log = []\<rparr>"

definition proxy_delete :: "'s server_proxy \<Rightarrow> 's server_proxy" where
  "proxy_delete p = setKeepAliveRate (-1) p"

section \<open>Message handlers\<close>

definition enter :: "'s proxy_env \<Rightarrow> ('s, unit) action" where
  "enter env = a_bind (a_readf env (drop 4 kMsgCEnter)) (\<lambda>vs. case vs of
     [Val2 x, Val2 y, Val4 seqNum, Val2 modifiers] \<Rightarrow> a_do (\<lambda>p.
       call (Enter (scast x) (scast y) seqNum (ucast modifiers))
         (p\<lparr>sp_compressMouse := False, sp_compressMouseRelative := False, sp_dxMouse := 0, sp_dyMouse := 0,
            sp_seqNum := seqNum, sp_serverLayout := [], sp_isUserNotifiedAboutLayoutSyncError := False\<rparr>))
   | _ \<Rightarrow> a_stop Indeterminate)"

definition leave :: "'s server_proxy \<Rightarrow> 's server_proxy" where
  "leave p = call Leave (flushCompressedMouse p)"

text \<open>
  \<^verbatim>\<open>setClipboard\<close>; writing out of the bounds of the clipboard's formats, which \<^verbatim>\<open>unmarshall\<close> does for
  a negative format, is the stop \<open>Bad_Access\<close>.
\<close>

definition setClipboard :: "'s proxy_env \<Rightarrow> ('s, unit) action" where
  "setClipboard env p =
     (case assemble (e_read env) (e_parse env) (e_maximumReceiveSize env) (sp_stream p) (sp_clipboard p) of
        (r, s, cl) \<Rightarrow>
          let p = p\<lparr>sp_stream := s, sp_clipboard := cl\<rparr> in
          (case r of
             Inl e \<Rightarrow> (Inl (Thrown e), p)
           | Inr (Finished, out) \<Rightarrow>
               (case out of
                  Some (cid, _) \<Rightarrow>
                    (case cb_unmarshall (fst (sp_clipboard p)) 0 cb_init of
                       None \<Rightarrow> (Inl Bad_Access, p)
                     | Some c \<Rightarrow>
                         (Inr (), (call (Set_Clipboard cid c) p)\<lparr>sp_clipboard := ([], snd (sp_clipboard p))\<rparr>))
                | None \<Rightarrow> (Inl Indeterminate, p))
           | Inr (Error, _) \<Rightarrow>
               (Inr (), requestDisconnect (Some ''invalid clipboard data from server'') p)
           | Inr _ \<Rightarrow> (Inr (), p)))"

definition grabClipboard :: "'s proxy_env \<Rightarrow> ('s, unit) action" where
  "grabClipboard env = a_bind (a_readf env (drop 4 kMsgCClipboard)) (\<lambda>vs. case vs of
     Val1 cid # _ \<Rightarrow> if cid \<ge> kClipboardEnd then a_ret () else a_do (call (Grab_Clipboard cid))
   | _ \<Rightarrow> a_stop Indeterminate)"

definition setActiveServerLanguage :: "bytes \<Rightarrow> 's server_proxy \<Rightarrow> 's server_proxy" where
  "setActiveServerLanguage language p =
     (if language \<noteq> [] then
        let p = (if sp_serverLayout p \<noteq> language
                 then p\<lparr>sp_isUserNotifiedAboutLayoutSyncError := False, sp_serverLayout := language\<rparr> else p)
        in if \<not> isLayoutInstalled (sp_serverLayout p) (sp_layoutManager p)
           then (if \<not> sp_isUserNotifiedAboutLayoutSyncError p
                 then p\<lparr>sp_isUserNotifiedAboutLayoutSyncError := True\<rparr> else p)
           else p\<lparr>sp_isUserNotifiedAboutLayoutSyncError := False\<rparr>
      else p)"

definition keyDown :: "u16 \<Rightarrow> u16 \<Rightarrow> u16 \<Rightarrow> bytes \<Rightarrow> 's server_proxy \<Rightarrow> 's server_proxy" where
  "keyDown k modifiers button lang p =
     (let p = setActiveServerLanguage lang (flushCompressedMouse p); table = sp_modifierTranslationTable p
      in call (Key_Down (translateKey table (ucast k)) (translateModifierMask table (ucast modifiers)) button lang) p)"

text \<open>\<^verbatim>\<open>DKDN\<close> and \<^verbatim>\<open>DKDL\<close>: the variables are initialised, a missing argument is 0 or empty.\<close>

definition val2 :: "val list \<Rightarrow> nat \<Rightarrow> u16" where
  "val2 vs i = (if i < length vs then (case vs ! i of Val2 v \<Rightarrow> v | _ \<Rightarrow> 0) else 0)"

definition str :: "val list \<Rightarrow> nat \<Rightarrow> bytes" where
  "str vs i = (if i < length vs then (case vs ! i of Str v \<Rightarrow> v | _ \<Rightarrow> []) else [])"

definition recvKeyDown :: "'s proxy_env \<Rightarrow> ('s, unit) action" where
  "recvKeyDown env = a_bind (a_readf env (drop 4 kMsgDKeyDown))
     (\<lambda>vs. a_do (keyDown (val2 vs 0) (val2 vs 1) (val2 vs 2) []))"

definition recvKeyDownLang :: "'s proxy_env \<Rightarrow> ('s, unit) action" where
  "recvKeyDownLang env = a_bind (a_readf env (drop 4 kMsgDKeyDownLang))
     (\<lambda>vs. a_do (keyDown (val2 vs 0) (val2 vs 1) (val2 vs 2) (str vs 3)))"

definition keyRepeat :: "'s proxy_env \<Rightarrow> ('s, unit) action" where
  "keyRepeat env = a_then (a_do flushCompressedMouse)
     (a_bind (a_readf env (drop 4 kMsgDKeyRepeat)) (\<lambda>vs. case vs of
        Val2 k # Val2 modifiers # Val2 count # Val2 button # _ \<Rightarrow> a_do (\<lambda>p.
          let table = sp_modifierTranslationTable p in
          call (Key_Repeat (translateKey table (ucast k)) (translateModifierMask table (ucast modifiers))
                  (ucast count) button (str vs 4)) p)
      | _ \<Rightarrow> a_stop Indeterminate))"

definition keyUp :: "'s proxy_env \<Rightarrow> ('s, unit) action" where
  "keyUp env = a_then (a_do flushCompressedMouse)
     (a_bind (a_readf env (drop 4 kMsgDKeyUp)) (\<lambda>vs. case vs of
        [Val2 k, Val2 modifiers, Val2 button] \<Rightarrow> a_do (\<lambda>p.
          let table = sp_modifierTranslationTable p in
          call (Key_Up (translateKey table (ucast k)) (translateModifierMask table (ucast modifiers)) button) p)
      | _ \<Rightarrow> a_stop Indeterminate))"

definition mouseDown :: "'s proxy_env \<Rightarrow> ('s, unit) action" where
  "mouseDown env = a_then (a_do flushCompressedMouse)
     (a_bind (a_readf env (drop 4 kMsgDMouseDown)) (\<lambda>vs. case vs of
        [Val1 b] \<Rightarrow> a_do (call (Mouse_Down b)) | _ \<Rightarrow> a_stop Indeterminate))"

definition mouseUp :: "'s proxy_env \<Rightarrow> ('s, unit) action" where
  "mouseUp env = a_then (a_do flushCompressedMouse)
     (a_bind (a_readf env (drop 4 kMsgDMouseUp)) (\<lambda>vs. case vs of
        [Val1 b] \<Rightarrow> a_do (call (Mouse_Up b)) | _ \<Rightarrow> a_stop Indeterminate))"

definition mouse_moved :: "'s proxy_env \<Rightarrow> i32 \<Rightarrow> i32 \<Rightarrow> 's server_proxy \<Rightarrow> 's server_proxy" where
  "mouse_moved env x y p =
     (let ignore = sp_ignoreMouse p;
          p = (if \<not> ignore \<and> \<not> sp_compressMouse p \<and> e_isReady env (sp_stream p)
               then p\<lparr>sp_compressMouse := True\<rparr> else p)
      in if sp_compressMouse p
         then p\<lparr>sp_compressMouseRelative := False, sp_xMouse := x, sp_yMouse := y, sp_dxMouse := 0, sp_dyMouse := 0\<rparr>
         else if \<not> ignore then call (Mouse_Move x y) p else p)"

definition mouseMove :: "'s proxy_env \<Rightarrow> ('s, unit) action" where
  "mouseMove env = a_bind (a_readf env (drop 4 kMsgDMouseMove)) (\<lambda>vs. case vs of
     [Val2 x, Val2 y] \<Rightarrow> a_do (mouse_moved env (scast x) (scast y)) | _ \<Rightarrow> a_stop Indeterminate)"

definition mouse_moved_relative :: "'s proxy_env \<Rightarrow> i32 \<Rightarrow> i32 \<Rightarrow> 's server_proxy \<Rightarrow> 's server_proxy" where
  "mouse_moved_relative env dx dy p =
     (let ignore = sp_ignoreMouse p;
          p = (if \<not> ignore \<and> \<not> sp_compressMouseRelative p \<and> e_isReady env (sp_stream p)
               then p\<lparr>sp_compressMouseRelative := True\<rparr> else p)
      in if sp_compressMouseRelative p
         then p\<lparr>sp_dxMouse := sp_dxMouse p + dx, sp_dyMouse := sp_dyMouse p + dy\<rparr>
         else if \<not> ignore then call (Mouse_Relative_Move dx dy) p else p)"

definition mouseRelativeMove :: "'s proxy_env \<Rightarrow> ('s, unit) action" where
  "mouseRelativeMove env = a_bind (a_readf env (drop 4 kMsgDMouseRelMove)) (\<lambda>vs. case vs of
     [Val2 dx, Val2 dy] \<Rightarrow> a_do (mouse_moved_relative env (scast dx) (scast dy)) | _ \<Rightarrow> a_stop Indeterminate)"

definition mouseWheel :: "'s proxy_env \<Rightarrow> ('s, unit) action" where
  "mouseWheel env = a_then (a_do flushCompressedMouse)
     (a_bind (a_readf env (drop 4 kMsgDMouseWheel)) (\<lambda>vs. case vs of
        [Val2 x, Val2 y] \<Rightarrow> a_do (call (Mouse_Wheel (scast x) (scast y))) | _ \<Rightarrow> a_stop Indeterminate))"

definition screensaver :: "'s proxy_env \<Rightarrow> ('s, unit) action" where
  "screensaver env = a_bind (a_readf env (drop 4 kMsgCScreenSaver)) (\<lambda>vs. case vs of
     [Val1 on] \<Rightarrow> a_do (call (Screensaver (on \<noteq> 0))) | _ \<Rightarrow> a_stop Indeterminate)"

definition resetOptions :: "'s server_proxy \<Rightarrow> 's server_proxy" where
  "resetOptions p =
     (setKeepAliveRate kKeepAliveRate (call Reset_Options p))\<lparr>sp_modifierTranslationTable := identity_table\<rparr>"

definition infoAcknowledgment :: "'s server_proxy \<Rightarrow> 's server_proxy" where
  "infoAcknowledgment p = p\<lparr>sp_ignoreMouse := False\<rparr>"

definition secureInputNotification :: "'s proxy_env \<Rightarrow> ('s, unit) action" where
  "secureInputNotification env = a_bind (a_readf env (drop 4 kMsgDSecureInputNotification)) (\<lambda>_. a_ret ())"

text \<open>An exception of \<^verbatim>\<open>setRemoteLayouts\<close> leaves part of the list behind; the model keeps none.\<close>

definition setServerLanguages :: "'s proxy_env \<Rightarrow> ('s, unit) action" where
  "setServerLanguages env = a_bind (a_readf env (drop 4 kMsgDLanguageSynchronisation)) (\<lambda>vs p.
     case setRemoteLayouts (str vs 0) (sp_layoutManager p) of
       None \<Rightarrow> (Inl Out_Of_Range, p)
     | Some m \<Rightarrow> (Inr (), p\<lparr>sp_layoutManager := m\<rparr>))"

section \<open>Options\<close>

definition option_modifier :: "u32 \<Rightarrow> u32" where
  "option_modifier k =
     (if k = kOptionModifierMapForShift then kKeyModifierIDShift
      else if k = kOptionModifierMapForControl then kKeyModifierIDControl
      else if k = kOptionModifierMapForAlt then kKeyModifierIDAlt
      else if k = kOptionModifierMapForAltGr then kKeyModifierIDAltGr
      else if k = kOptionModifierMapForMeta then kKeyModifierIDMeta
      else if k = kOptionModifierMapForSuper then kKeyModifierIDSuper
      else kKeyModifierIDNull)"

definition set_option :: "u32 \<Rightarrow> u32 \<Rightarrow> 's server_proxy \<Rightarrow> 's server_proxy" where
  "set_option k v p =
     (let id = option_modifier k;
          p = (if id = kKeyModifierIDNull \<and> k = kOptionHeartbeat
               then setKeepAliveRate (of_nat (unat v) / 1000) p else p)
      in if id \<noteq> kKeyModifierIDNull
         then p\<lparr>sp_modifierTranslationTable :=
                  (sp_modifierTranslationTable p)[unat id := min v (kKeyModifierIDLast - 1)]\<rparr>
         else p)"

fun set_options :: "u32 list \<Rightarrow> 's server_proxy \<Rightarrow> 's server_proxy" where
  "set_options (k # v # options) p = set_options options (set_option k v p)"
| "set_options _ p = p"

definition setOptions :: "'s proxy_env \<Rightarrow> ('s, unit) action" where
  "setOptions env = a_bind (a_readf env (drop 4 kMsgDSetOptions)) (\<lambda>vs.
     let options = (case vs of Vec4 os # _ \<Rightarrow> os | _ \<Rightarrow> []) in
     if length options mod 2 \<noteq> 0 then a_ret ()
     else a_do (\<lambda>p. set_options options (call (Set_Options options) p)))"

section \<open>Dispatch\<close>

datatype connection_result = Okay | Unknown | Disconnect

definition okay :: "('s, unit) action \<Rightarrow> ('s, connection_result) action" where
  "okay m = a_then m (a_ret Okay)"

definition keepAlive :: "'s server_proxy \<Rightarrow> 's server_proxy" where
  "keepAlive p = resetKeepAliveAlarm (tell (Write kMsgCKeepAlive []) p)"

text \<open>\<^verbatim>\<open>DSOP\<close> in the handshake: the options complete it.\<close>

definition completeHandshake :: "'s server_proxy \<Rightarrow> 's server_proxy" where
  "completeHandshake p =
     (let p = p\<lparr>sp_parser := Messages\<rparr>;
          missed = getMissedLayouts (sp_layoutManager p);
          p = (if missed \<noteq> [] then tell (Missing_Keyboard_Layouts missed) p else p)
      in call Handshake_Complete p)"

definition refuse :: "refusal \<Rightarrow> string \<Rightarrow> ('s, connection_result) action" where
  "refuse reason msg = a_then (a_do (requestRefuseConnection reason msg)) (a_ret Disconnect)"

definition parseHandshakeMessage :: "'s proxy_env \<Rightarrow> bytes \<Rightarrow> ('s, connection_result) action" where
  "parseHandshakeMessage env code =
     (if is_msg code kMsgQInfo then okay (a_do (queryInfo env))
      else if is_msg code kMsgCInfoAck then okay (a_do infoAcknowledgment)
      else if is_msg code kMsgDSetOptions then okay (a_then (setOptions env) (a_do completeHandshake))
      else if is_msg code kMsgCResetOptions then okay (a_do resetOptions)
      else if is_msg code kMsgCKeepAlive then okay (a_do keepAlive)
      else if is_msg code kMsgCNoop then a_ret Okay
      else if is_msg code kMsgCClose then a_then (a_do (requestDisconnect None)) (a_ret Disconnect)
      else if is_msg code kMsgEIncompatible then
        a_bind (a_readf env (drop 4 kMsgEIncompatible))
          (\<lambda>_. refuse IncompatibleVersion ''server has incompatible version'')
      else if is_msg code kMsgEBusy then
        refuse AlreadyConnected ''server already has a connected client with our name''
      else if is_msg code kMsgEUnknown then refuse UnknownClient ''server refused client with our name''
      else if is_msg code kMsgEBad then refuse ProtocolError ''server reported a protocol error''
      else if is_msg code kMsgDLanguageSynchronisation then okay (setServerLanguages env)
      else a_ret Unknown)"

definition recvCaptureResponse :: "'s proxy_env \<Rightarrow> ('s, unit) action" where
  "recvCaptureResponse env = a_bind (a_readf env ''%s'') (\<lambda>vs.
     if length (str vs 0) \<le> 16384 then a_do (tell (Capture_Response (str vs 0))) else a_ret ())"

text \<open>The reply that every message but \<^verbatim>\<open>ZCAR\<close> gets.\<close>

definition replied :: "('s, unit) action \<Rightarrow> ('s, connection_result) action" where
  "replied m = a_then m (a_then (a_do (tell (Write kMsgCNoop []))) (a_ret Okay))"

definition parseMessage :: "'s proxy_env \<Rightarrow> bytes \<Rightarrow> ('s, connection_result) action" where
  "parseMessage env code =
     (if is_msg code ''ZCAR'' then okay (recvCaptureResponse env)
      else if is_msg code kMsgDMouseMove then replied (mouseMove env)
      else if is_msg code kMsgDMouseRelMove then replied (mouseRelativeMove env)
      else if is_msg code kMsgDMouseWheel then replied (mouseWheel env)
      else if is_msg code kMsgDKeyDown then replied (recvKeyDown env)
      else if is_msg code kMsgDKeyDownLang then replied (recvKeyDownLang env)
      else if is_msg code kMsgDKeyUp then replied (keyUp env)
      else if is_msg code kMsgDMouseDown then replied (mouseDown env)
      else if is_msg code kMsgDMouseUp then replied (mouseUp env)
      else if is_msg code kMsgDKeyRepeat then replied (keyRepeat env)
      else if is_msg code kMsgCKeepAlive then replied (a_do keepAlive)
      else if is_msg code kMsgCNoop then replied (a_ret ())
      else if is_msg code kMsgCEnter then replied (enter env)
      else if is_msg code kMsgCLeave then replied (a_do leave)
      else if is_msg code kMsgCClipboard then replied (grabClipboard env)
      else if is_msg code kMsgCScreenSaver then replied (screensaver env)
      else if is_msg code kMsgQInfo then replied (a_do (queryInfo env))
      else if is_msg code kMsgCInfoAck then replied (a_do infoAcknowledgment)
      else if is_msg code kMsgDClipboard then replied (setClipboard env)
      else if is_msg code kMsgCResetOptions then replied (a_do resetOptions)
      else if is_msg code kMsgDSetOptions then replied (setOptions env)
      else if is_msg code kMsgDSecureInputNotification then replied (secureInputNotification env)
      else if is_msg code kMsgCClose then a_then (a_do (requestDisconnect None)) (a_ret Disconnect)
      else if is_msg code kMsgEBad then
        a_then (a_do (requestDisconnect (Some ''server reported a protocol error''))) (a_ret Disconnect)
      else a_ret Unknown)"

definition parse_message :: "'s proxy_env \<Rightarrow> bytes \<Rightarrow> ('s, connection_result) action" where
  "parse_message env code p =
     (case sp_parser p of
        Handshake \<Rightarrow> parseHandshakeMessage env code p
      | Messages \<Rightarrow> parseMessage env code p)"

section \<open>The loop over the messages\<close>

text \<open>Reads of four bytes until nothing is left; \<^const>\<open>None\<close> if that never ends.\<close>

partial_function (option) discard :: "(nat \<Rightarrow> 's \<Rightarrow> bytes \<times> 's) \<Rightarrow> 's \<Rightarrow> 's option" where
  "discard rd s = (case rd 4 s of (b, s') \<Rightarrow> if b = [] then Some s' else discard rd s')"

definition protocol_error :: "'s server_proxy \<Rightarrow> 's server_proxy" where
  "protocol_error p =
     requestDisconnect (Some ''invalid message from server'') (tell (Write kMsgEBad []) p)"

partial_function (option) handleData :: "'s proxy_env \<Rightarrow> 's server_proxy \<Rightarrow> (stop option \<times> 's server_proxy) option" where
  "handleData env p =
     (case e_read env 4 (sp_stream p) of
        (code, s) \<Rightarrow>
          let p = p\<lparr>sp_stream := s\<rparr> in
          if code = [] then Some (None, flushCompressedMouse p)
          else if length code \<noteq> 4 then
            Some (None, requestDisconnect (Some ''incomplete message from server'') p)
          else
            (case parse_message env code p of
               (Inr Okay, p) \<Rightarrow> handleData env p
             | (Inr Unknown, p) \<Rightarrow>
                 (case discard (e_read env) (sp_stream p) of
                    None \<Rightarrow> None
                  | Some s \<Rightarrow> handleData env (p\<lparr>sp_stream := s\<rparr>))
             | (Inr Disconnect, p) \<Rightarrow> Some (None, p)
             | (Inl e, p) \<Rightarrow>
                 if e = Thrown Bad_Client then Some (None, protocol_error p) else Some (Some e, p)))"

end
