(* ===== verification/Proxy_Steps.thy ===== *)
theory Proxy_Steps
  imports Server_Proxy
begin

text \<open>
  Every handler of the server proxy is a sequence of atomic updates: the step relation
  \<open>proxy_step\<close>. Its first argument tells whether only the steps of the handshake are allowed.
  Invariants of the proxy are proved by rule induction over the steps.
\<close>

section \<open>Steps\<close>

text \<open>What the proxy may do to the outside before the handshake is complete.\<close>

fun handshake_effect :: "proxy_effect \<Rightarrow> bool" where
  "handshake_effect (Client_Call c) = (case c of
     Reset_Options \<Rightarrow> True | Set_Options os \<Rightarrow> True | _ \<Rightarrow> False)"
| "handshake_effect (Write_Chunk c) = False"
| "handshake_effect (Queue_Chunks cs) = False"
| "handshake_effect (Capture_Response json) = False"
| "handshake_effect _ = True"

inductive proxy_step :: "bool \<Rightarrow> 's proxy_env \<Rightarrow> 's server_proxy \<Rightarrow> 's server_proxy \<Rightarrow> bool"
  for hs env where
  told: "\<lbrakk>hs \<longrightarrow> handshake_effect e; e \<noteq> Client_Call Handshake_Complete\<rbrakk> \<Longrightarrow> proxy_step hs env p (tell e p)"
| "read": "proxy_step hs env p (p\<lparr>sp_stream := snd (snd (readf_got (e_read env) fmt (sp_stream p)))\<rparr>)"
| raw: "proxy_step hs env p (p\<lparr>sp_stream := snd (e_read env 4 (sp_stream p))\<rparr>)"
| flushed: "\<not> hs \<Longrightarrow> proxy_step hs env p (flushCompressedMouse p)"
| entered: "\<not> hs \<Longrightarrow> proxy_step hs env p
    (p\<lparr>sp_compressMouse := False, sp_compressMouseRelative := False, sp_dxMouse := 0, sp_dyMouse := 0,
       sp_seqNum := seqNum, sp_serverLayout := [], sp_isUserNotifiedAboutLayoutSyncError := False\<rparr>)"
| moved: "\<not> hs \<Longrightarrow> proxy_step hs env p (mouse_moved env x y p)"
| moved_relative: "\<not> hs \<Longrightarrow> proxy_step hs env p (mouse_moved_relative env dx dy p)"
| ignoring: "proxy_step hs env p (p\<lparr>sp_ignoreMouse := b\<rparr>)"
| language: "proxy_step hs env p (p\<lparr>sp_serverLayout := l, sp_isUserNotifiedAboutLayoutSyncError := b\<rparr>)"
| layouts: "proxy_step hs env p (p\<lparr>sp_layoutManager := m\<rparr>)"
| assembled: "proxy_step hs env p
    (p\<lparr>sp_clipboard := snd (assemble_message (e_parse env) (e_maximumReceiveSize env) cid mark data (sp_clipboard p))\<rparr>)"
| assembly_reset: "proxy_step hs env p (p\<lparr>sp_clipboard := ([], assembly_init)\<rparr>)"
| taken: "proxy_step hs env p (p\<lparr>sp_clipboard := ([], snd (sp_clipboard p))\<rparr>)"
| alarm: "proxy_step hs env p (resetKeepAliveAlarm p)"
| rate: "proxy_step hs env p (setKeepAliveRate r p)"
| table_reset: "proxy_step hs env p (p\<lparr>sp_modifierTranslationTable := identity_table\<rparr>)"
| table_set: "k \<noteq> kKeyModifierIDNull \<Longrightarrow> k < kKeyModifierIDLast \<Longrightarrow> proxy_step hs env p
    (p\<lparr>sp_modifierTranslationTable := (sp_modifierTranslationTable p)[unat k := min v (kKeyModifierIDLast - 1)]\<rparr>)"

definition proxy_steps :: "bool \<Rightarrow> 's proxy_env \<Rightarrow> 's server_proxy \<Rightarrow> 's server_proxy \<Rightarrow> bool" where
  "proxy_steps hs env = (proxy_step hs env)\<^sup>*\<^sup>*"

definition stepwise :: "bool \<Rightarrow> 's proxy_env \<Rightarrow> ('s, 'a) action \<Rightarrow> bool" where
  "stepwise hs env m \<longleftrightarrow> (\<forall>p. proxy_steps hs env p (snd (m p)))"

named_theorems steps \<open>operations of the proxy as sequences of steps\<close>

lemma steps_refl [steps]: "proxy_steps hs env p p"
  by (simp add: proxy_steps_def)

lemma steps_one: "proxy_step hs env p p' \<Longrightarrow> proxy_steps hs env p p'"
  by (simp add: proxy_steps_def)

lemma steps_trans: "\<lbrakk>proxy_steps hs env p p'; proxy_steps hs env p' p''\<rbrakk> \<Longrightarrow> proxy_steps hs env p p''"
  unfolding proxy_steps_def by (rule rtranclp_trans)

lemmas single_steps [steps] = proxy_step.intros [THEN steps_one]

lemma steps_invariant:
  assumes "proxy_steps hs env p p'" and "P p" and "\<And>p p'. \<lbrakk>proxy_step hs env p p'; P p\<rbrakk> \<Longrightarrow> P p'"
  shows "P p'"
  using assms(1,2) unfolding proxy_steps_def
  by (induction rule: rtranclp_induct) (auto intro: assms(3))

section \<open>Actions\<close>

lemma stepwise_ret [steps]: "stepwise hs env (a_ret a)"
  by (simp add: stepwise_def a_ret_def steps)

lemma stepwise_stop [steps]: "stepwise hs env (a_stop e)"
  by (simp add: stepwise_def a_stop_def steps)

lemma stepwise_do: "(\<And>p. proxy_steps hs env p (f p)) \<Longrightarrow> stepwise hs env (a_do f)"
  by (simp add: stepwise_def a_do_def)

lemma stepwise_bind [steps]:
  assumes "stepwise hs env m" and "\<And>a. stepwise hs env (f a)"
  shows "stepwise hs env (a_bind m f)"
  unfolding stepwise_def
proof
  fix p
  have "proxy_steps hs env p (snd (m p))" "proxy_steps hs env q (snd (f a q))" for a q
    using assms unfolding stepwise_def by blast+
  then show "proxy_steps hs env p (snd (a_bind m f p))"
    by (auto simp: a_bind_def split: prod.split sum.split) (metis snd_conv steps_trans)+
qed

lemma stepwise_then [steps]:
  "\<lbrakk>stepwise hs env m; stepwise hs env n\<rbrakk> \<Longrightarrow> stepwise hs env (a_then m n)"
  by (simp add: a_then_def stepwise_bind)

lemma stepwise_readf [steps]: "stepwise hs env (a_readf env fmt)"
  unfolding stepwise_def
proof
  show "proxy_steps hs env p (snd (a_readf env fmt p))" for p
    using single_steps(2) [of hs env p fmt] by (auto simp: a_readf_def split: prod.split option.split)
qed

lemma steps_call:
  "\<lbrakk>hs \<longrightarrow> handshake_effect (Client_Call c); c \<noteq> Handshake_Complete; proxy_steps hs env p p'\<rbrakk> \<Longrightarrow> proxy_steps hs env p (call c p')"
  unfolding call_def by (rule steps_trans [OF _ steps_one [OF told]]) simp_all

lemma steps_tell:
  "\<lbrakk>hs \<longrightarrow> handshake_effect e; e \<noteq> Client_Call Handshake_Complete; proxy_steps hs env p p'\<rbrakk> \<Longrightarrow> proxy_steps hs env p (tell e p')"
  by (rule steps_trans [OF _ steps_one [OF told]]) simp_all

section \<open>Handlers\<close>

lemma language_update:
  "setActiveServerLanguage l p =
    p\<lparr>sp_serverLayout := (if l = [] then sp_serverLayout p else l),
      sp_isUserNotifiedAboutLayoutSyncError :=
        (if l = [] then sp_isUserNotifiedAboutLayoutSyncError p else \<not> isLayoutInstalled l (sp_layoutManager p))\<rparr>"
  by (cases p) (simp add: setActiveServerLanguage_def Let_def)

lemma steps_language [steps]: "proxy_steps hs env p (setActiveServerLanguage l p)"
  unfolding language_update by (rule single_steps)

lemma steps_queryInfo [steps]: "proxy_steps hs env p (queryInfo env p)"
  by (auto simp: queryInfo_def sendInfo_def split: prod.split intro: steps_tell steps)

lemma steps_keepAlive [steps]: "proxy_steps hs env p (keepAlive p)"
  unfolding keepAlive_def by (rule steps_trans [OF steps_tell single_steps(14)]) (auto intro: steps)

lemma steps_resetOptions [steps]: "proxy_steps hs env p (resetOptions p)"
  unfolding resetOptions_def
  by (rule steps_trans [OF steps_trans [OF steps_call single_steps(15)] single_steps(16)]) (auto intro: steps)

lemma steps_requests [steps]:
  "proxy_steps hs env p (requestDisconnect msg p)"
  "proxy_steps hs env p (requestRefuseConnection reason text p)"
  by (auto simp: requestDisconnect_def requestRefuseConnection_def intro: steps_tell steps)

lemma option_modifier_less: "option_modifier k < kKeyModifierIDLast"
  by (simp add: option_modifier_def modifier_ids)

lemma steps_set_option [steps]: "proxy_steps hs env p (set_option k v p)"
  using option_modifier_less [of k]
  by (auto simp: set_option_def Let_def intro: steps)

lemma steps_set_options [steps]: "proxy_steps hs env p (set_options os p)"
  by (induction os p rule: set_options.induct) (auto intro: steps steps_trans)

lemma steps_options_call: "proxy_steps hs env p (set_options os (call (Set_Options os) p))"
  by (rule steps_trans [OF steps_call steps_set_options]) (auto intro: steps)

lemma stepwise_setOptions [steps]: "stepwise hs env (setOptions env)"
  unfolding setOptions_def Let_def
  by (intro stepwise_bind stepwise_readf) (auto intro!: stepwise_ret stepwise_do steps_options_call)

lemma stepwise_setServerLanguages [steps]: "stepwise hs env (setServerLanguages env)"
proof -
  have "stepwise hs env (\<lambda>p. case setRemoteLayouts l (sp_layoutManager p) of
       None \<Rightarrow> (Inl Out_Of_Range :: stop + unit, p)
     | Some m \<Rightarrow> (Inr (), p\<lparr>sp_layoutManager := m\<rparr>))" for l
    by (auto simp: stepwise_def split: option.split intro: steps)
  then show ?thesis unfolding setServerLanguages_def by (intro stepwise_bind stepwise_readf)
qed

lemma stepwise_okay [steps]: "stepwise hs env m \<Longrightarrow> stepwise hs env (okay m)"
  by (simp add: okay_def steps)

lemma stepwise_refuse [steps]: "stepwise hs env (refuse reason text)"
  by (simp add: refuse_def steps stepwise_do)

lemma stepwise_handshake:
  assumes "\<not> is_msg code kMsgDSetOptions"
  shows "stepwise hs env (parseHandshakeMessage env code)"
  using assms unfolding parseHandshakeMessage_def infoAcknowledgment_def
  by (simp add: steps stepwise_do split del: if_split cong del: if_weak_cong split: if_splits)

lemma steps_leave [steps]: "proxy_steps False env p (leave p)"
  by (auto simp: leave_def intro: steps_call steps)

lemma steps_keyDown [steps]: "proxy_steps False env p (keyDown k modifiers button lang p)"
  unfolding keyDown_def Let_def
  by (rule steps_call [OF _ _ steps_trans [OF single_steps(4) steps_language]]) simp_all

lemma steps_calls [steps]: "c \<noteq> Handshake_Complete \<Longrightarrow> proxy_steps False env p (call c p)"
  by (rule steps_call) (simp_all add: steps)

lemma assemble_stream:
  "fst (snd (assemble rd parse n s0 cl0)) = snd (snd (readf_got rd (drop 4 kMsgDClipboard) s0))"
proof -
  have "snd (readf rd fmt s0) = snd (snd (readf_got rd fmt s0))" for fmt
    by (auto simp: readf_def readf_got_def got_vreadf [symmetric] as_reader_def
        split: option.split prod.split)
  moreover have "fst (snd (assemble rd parse n s0 cl0)) = snd (readf rd (drop 4 kMsgDClipboard) s0)"
    by (simp add: assemble_def split: prod.split sum.split option.split list.split val.split)
  ultimately show ?thesis by simp
qed

definition assembly_update ::
    "(bytes \<Rightarrow> 64 word option) \<Rightarrow> nat \<Rightarrow> bytes \<times> assembly_state \<Rightarrow> bytes \<times> assembly_state \<Rightarrow> bool" where
  "assembly_update parse n cl0 cl \<longleftrightarrow> cl = cl0 \<or> cl = ([], assembly_init) \<or>
     (\<exists>cid mark data. cl = snd (assemble_message parse n cid mark data cl0))"

lemma assembly_updates [simp]:
  "assembly_update parse n cl0 cl0" "assembly_update parse n cl0 ([], assembly_init)"
  "assembly_update parse n cl0 (snd (assemble_message parse n cid mark data cl0))"
  by (auto simp: assembly_update_def)

lemma assemble_clipboard: "assembly_update parse n cl0 (snd (snd (assemble rd parse n s0 cl0)))"
  by (simp add: assemble_def case_prod_unfold split: sum.split option.split list.split val.split)

lemma stepwise_setClipboard [steps]: "stepwise False env (setClipboard env)"
  unfolding stepwise_def
proof
  fix p :: "'a server_proxy"
  obtain r s cl where asm: "assemble (e_read env) (e_parse env) (e_maximumReceiveSize env) (sp_stream p)
      (sp_clipboard p) = (r, s, cl)" by (rule prod_cases3)
  let ?s = "p\<lparr>sp_stream := s\<rparr>"
  let ?p = "p\<lparr>sp_stream := s, sp_clipboard := cl\<rparr>"
  have s: "s = snd (snd (readf_got (e_read env) (drop 4 kMsgDClipboard) (sp_stream p)))"
    using assemble_stream [of "e_read env" "e_parse env" "e_maximumReceiveSize env" "sp_stream p" "sp_clipboard p"] asm
    by simp
  have cl: "assembly_update (e_parse env) (e_maximumReceiveSize env) (sp_clipboard p) cl"
    using assemble_clipboard [of "e_parse env" "e_maximumReceiveSize env" "sp_clipboard p" "e_read env" "sp_stream p"] asm
    by simp
  have "proxy_steps False env p ?s" unfolding s by (rule single_steps)
  moreover have "proxy_steps False env ?s ?p"
    using cl single_steps(11,12) [of False env ?s] by (auto simp: assembly_update_def intro: steps)
  ultimately have at: "proxy_steps False env p ?p" by (rule steps_trans)
  have "proxy_steps False env ?p ((call c ?p)\<lparr>sp_clipboard := ([], snd (sp_clipboard (call c ?p)))\<rparr>)"
      if "c \<noteq> Handshake_Complete" for c
    by (rule steps_trans [OF steps_calls single_steps(13)]) (rule that)
  then have "proxy_steps False env ?p ((call c ?p)\<lparr>sp_clipboard := ([], snd cl)\<rparr>)"
      if "c \<noteq> Handshake_Complete" for c
    using that by (simp add: call_def tell_def)
  then have "proxy_steps False env ?p (snd (setClipboard env p))"
    by (auto simp: setClipboard_def asm Let_def steps split: sum.split prod.split transfer_state.split option.split)
  with at show "proxy_steps False env p (snd (setClipboard env p))" by (rule steps_trans)
qed

lemma stepwise_readf_then:
  "(\<And>vs. stepwise hs env (f vs)) \<Longrightarrow> stepwise hs env (a_bind (a_readf env fmt) f)"
  by (rule stepwise_bind [OF stepwise_readf])

lemma stepwise_enter [steps]: "stepwise False env (enter env)"
proof -
  have "proxy_steps False env p (call c (p\<lparr>sp_compressMouse := False, sp_compressMouseRelative := False,
      sp_dxMouse := 0, sp_dyMouse := 0, sp_seqNum := n, sp_serverLayout := [],
      sp_isUserNotifiedAboutLayoutSyncError := False\<rparr>))" if "c \<noteq> Handshake_Complete" for c n p
    by (rule steps_trans [OF single_steps(5) steps_calls]) (use that in simp_all)
  then show ?thesis unfolding enter_def
    by (intro stepwise_readf_then) (auto intro: stepwise_do steps split: list.split val.split)
qed

lemmas stepwise_flush [steps] = stepwise_do [OF single_steps(4), of False]

lemma stepwise_inputs [steps]:
  "stepwise False env (grabClipboard env)" "stepwise False env (recvKeyDown env)"
  "stepwise False env (recvKeyDownLang env)" "stepwise False env (keyRepeat env)"
  "stepwise False env (keyUp env)" "stepwise False env (mouseDown env)"
  "stepwise False env (mouseUp env)" "stepwise False env (mouseMove env)"
  "stepwise False env (mouseRelativeMove env)" "stepwise False env (mouseWheel env)"
  "stepwise False env (screensaver env)" "stepwise False env (secureInputNotification env)"
  "stepwise False env (recvCaptureResponse env)"
  by (auto simp: grabClipboard_def recvKeyDown_def recvKeyDownLang_def keyRepeat_def keyUp_def
      mouseDown_def mouseUp_def mouseMove_def mouseRelativeMove_def mouseWheel_def screensaver_def
      secureInputNotification_def recvCaptureResponse_def Let_def
      intro!: stepwise_readf_then stepwise_then stepwise_flush stepwise_do stepwise_ret stepwise_stop
      intro: steps steps_tell split: list.split val.split)

lemma stepwise_replied [steps]: "stepwise False env m \<Longrightarrow> stepwise False env (replied m)"
  unfolding replied_def by (auto intro!: stepwise_then stepwise_do stepwise_ret intro: steps_tell steps)

lemma stepwise_message: "stepwise False env (parseMessage env code)"
  unfolding parseMessage_def infoAcknowledgment_def
  by (simp add: steps stepwise_do split del: if_split cong del: if_weak_cong split: if_splits)

text \<open>The steps of the handshake are steps.\<close>

lemma step_mono: "proxy_step hs env p p' \<Longrightarrow> proxy_step False env p p'"
  by (induction rule: proxy_step.induct) (auto intro: proxy_step.intros)

lemma steps_mono: "proxy_steps hs env p p' \<Longrightarrow> proxy_steps False env p p'"
  unfolding proxy_steps_def by (rule rtranclp_mono [THEN predicate2D, rotated]) (auto intro: step_mono)

text \<open>
  A message is handled by steps of its phase; the options in the handshake complete it, unless
  reading them failed.
\<close>

lemma step_parser: "proxy_step hs env p p' \<Longrightarrow> sp_parser p' = sp_parser p"
  by (induction rule: proxy_step.induct)
    (simp_all add: tell_def call_def flushCompressedMouse_def mouse_moved_def mouse_moved_relative_def
      resetKeepAliveAlarm_def setKeepAliveRate_def Let_def)

lemma steps_parser: "proxy_steps hs env p p' \<Longrightarrow> sp_parser p' = sp_parser p"
  by (rule steps_invariant [where P = "\<lambda>q. sp_parser q = sp_parser p"]) (auto dest: step_parser)

lemma parse_message_cases:
  obtains (steps) "proxy_steps (sp_parser p = Handshake) env p (snd (parse_message env code p))"
  | (complete) p1 where "sp_parser p = Handshake" and "proxy_steps True env p p1"
      and "parse_message env code p = (Inr Okay, completeHandshake p1)"
proof (cases "sp_parser p")
  case Messages
  then show thesis
    using stepwise_message [of env code] steps by (simp add: parse_message_def stepwise_def)
next
  case Handshake
  show thesis
  proof (cases "is_msg code kMsgDSetOptions")
    case False
    then show thesis
      using stepwise_handshake [of code True env] Handshake steps by (simp add: parse_message_def stepwise_def)
  next
    case True
    then have "parse_message env code p = okay (a_then (setOptions env) (a_do completeHandshake)) p"
      using Handshake by (auto simp: parse_message_def parseHandshakeMessage_def is_msg_def message_formats)
    moreover have "proxy_steps True env p (snd (setOptions env p))"
      using stepwise_setOptions [of True env] by (simp add: stepwise_def)
    ultimately show thesis
      using Handshake steps complete
      by (cases "setOptions env p"; cases "fst (setOptions env p)")
        (auto simp: okay_def a_then_def a_bind_def a_do_def a_ret_def)
  qed
qed

end
