(* ===== verification/Proxy_Props.thy ===== *)
theory Proxy_Props
  imports Proxy_Steps Packet_Source
begin

text \<open>
  Properties of the server proxy: the loop over the messages returns, the invariant of the
  reachable states, what the handshake allows, how motion is compressed and keys are
  translated, and what malformed messages do.
\<close>

section \<open>The loop ends\<close>

fun is_request :: "proxy_effect \<Rightarrow> bool" where
  "is_request (Request_Disconnect msg) = True"
| "is_request (Request_Refuse reason msg) = True"
| "is_request _ = False"

definition hung_up :: "'s server_proxy \<Rightarrow> bool" where
  "hung_up p \<longleftrightarrow> sp_log p \<noteq> [] \<and> is_request (last (sp_log p))"

definition hangs_up :: "('s, connection_result) action \<Rightarrow> bool" where
  "hangs_up m \<longleftrightarrow> (\<forall>p. fst (m p) = Inr Disconnect \<longrightarrow> hung_up (snd (m p)))"

named_theorems hanging \<open>a result Disconnect comes with a request\<close>

lemma hangs_up_okay [hanging]: "hangs_up (okay m)" "hangs_up (replied m)"
  by (auto simp: hangs_up_def okay_def replied_def a_then_def a_bind_def a_ret_def a_do_def
      split: prod.split sum.split)

lemma hangs_up_ret [hanging]: "hangs_up (a_ret Okay)" "hangs_up (a_ret Unknown)"
  by (simp_all add: hangs_up_def a_ret_def)

lemma hangs_up_request [hanging]:
  "hangs_up (a_then (a_do (requestDisconnect msg)) (a_ret c))" "hangs_up (refuse reason why)"
  by (simp_all add: hangs_up_def refuse_def a_then_def a_bind_def a_do_def a_ret_def hung_up_def
      requestDisconnect_def requestRefuseConnection_def tell_def)

lemma hangs_up_bind [hanging]: "(\<And>a. hangs_up (f a)) \<Longrightarrow> hangs_up (a_bind m f)"
  by (auto simp: hangs_up_def a_bind_def split: prod.split sum.split)

lemma hangs_up_if [hanging]: "\<lbrakk>hangs_up m; hangs_up n\<rbrakk> \<Longrightarrow> hangs_up (if b then m else n)"
  by simp

lemma disconnect_requested:
  assumes "fst (parse_message env code p) = Inr Disconnect"
  shows "hung_up (snd (parse_message env code p))"
proof -
  have "hangs_up (parseHandshakeMessage env code)"
    unfolding parseHandshakeMessage_def by (intro hanging)
  moreover have "hangs_up (parseMessage env code)"
    unfolding parseMessage_def by (intro hanging)
  ultimately show ?thesis
    using assms by (cases "sp_parser p") (auto simp: parse_message_def hangs_up_def)
qed

text \<open>One round of the loop; \<open>react\<close> is what follows the handling of a message.\<close>

definition react ::
    "'s proxy_env \<Rightarrow> (stop + connection_result) \<times> 's server_proxy \<Rightarrow> (stop option \<times> 's server_proxy) option" where
  "react env x =
     (case x of
        (Inr Okay, p) \<Rightarrow> handleData env p
      | (Inr Unknown, p) \<Rightarrow>
          (case discard (e_read env) (sp_stream p) of
             None \<Rightarrow> None | Some s \<Rightarrow> handleData env (p\<lparr>sp_stream := s\<rparr>))
      | (Inr Disconnect, p) \<Rightarrow> Some (None, p)
      | (Inl e, p) \<Rightarrow> if e = Thrown Bad_Client then Some (None, protocol_error p) else Some (Some e, p))"

lemma handleData_round:
  assumes "e_read env 4 (sp_stream p) = (code, s)"
  shows "handleData env p =
    (if code = [] then Some (None, flushCompressedMouse (p\<lparr>sp_stream := s\<rparr>))
     else if length code \<noteq> 4 then
       Some (None, requestDisconnect (Some ''incomplete message from server'') (p\<lparr>sp_stream := s\<rparr>))
     else react env (parse_message env code (p\<lparr>sp_stream := s\<rparr>)))"
  using assms by (subst handleData.simps) (simp add: Let_def react_def)

lemma flush_stream [simp]: "sp_stream (flushCompressedMouse p) = sp_stream p"
  by (simp add: flushCompressedMouse_def call_def tell_def Let_def)

context byte_source
begin

definition behind :: "'s \<Rightarrow> 's \<Rightarrow> bool" where
  "behind s s' \<longleftrightarrow> ok s' \<and> suffix (avail s') (avail s)"

lemma behind_refl: "ok s \<Longrightarrow> behind s s"
  by (simp add: behind_def)

lemma behind_trans: "\<lbrakk>behind s s'; behind s' s''\<rbrakk> \<Longrightarrow> behind s s''"
  by (auto simp: behind_def intro: suffix_order.trans)

lemma behind_rd: "ok s \<Longrightarrow> behind s (snd (rd n s))"
  using rd_inv [of s n] rd_avail [of s n] by (auto simp: behind_def suffix_def)

lemma discard_returns: "ok s \<Longrightarrow> \<exists>s'. discard rd s = Some s' \<and> behind s s'"
proof (induction "length (avail s)" arbitrary: s rule: less_induct)
  case less
  obtain b s1 where rd: "rd 4 s = (b, s1)" by fastforce
  show ?case
  proof (cases "b = []")
    case True
    then show ?thesis using rd behind_rd [OF less.prems, of 4] by (subst discard.simps) simp
  next
    case False
    then have "length (avail s1) < length (avail s)" "behind s s1"
      using rd rd_avail [OF less.prems, of 4] behind_rd [OF less.prems, of 4] by auto
    then obtain s' where "discard rd s1 = Some s'" "behind s s'"
      using less.hyps [of s1] by (auto simp: behind_def intro: suffix_order.trans)
    then show ?thesis using False rd by (subst discard.simps) simp
  qed
qed

lemma step_behind:
  assumes "proxy_step hs env p p'" and "e_read env = rd" and "ok (sp_stream p)"
  shows "behind (sp_stream p) (sp_stream p')"
  using assms behind_refl behind_rd [of "sp_stream p"] readf_got_consumes [of "sp_stream p"]
  by (induction rule: proxy_step.induct)
    (auto simp: tell_def call_def mouse_moved_def mouse_moved_relative_def
      resetKeepAliveAlarm_def setKeepAliveRate_def Let_def behind_def)

lemma steps_behind:
  assumes "proxy_steps hs env p p'" and "e_read env = rd" and "ok (sp_stream p)"
  shows "behind (sp_stream p) (sp_stream p')"
  by (rule steps_invariant [OF assms(1)])
    (use behind_refl [OF assms(3)] step_behind [OF _ assms(2)] behind_trans behind_def in blast)+

lemma message_behind:
  assumes "e_read env = rd" and "ok (sp_stream p)"
  shows "behind (sp_stream p) (sp_stream (snd (parse_message env code p)))"
proof (rule parse_message_cases [of p env code])
  assume "proxy_steps (sp_parser p = Handshake) env p (snd (parse_message env code p))"
  then show ?thesis using steps_behind assms by blast
next
  fix p1
  assume "proxy_steps True env p p1" "parse_message env code p = (Inr Okay, completeHandshake p1)"
  then show ?thesis
    using steps_behind [OF _ assms, of True p1]
    by (simp add: completeHandshake_def Let_def tell_def call_def)
qed

lemma loop_returns:
  assumes "e_read env = rd"
  shows "ok (sp_stream p) \<Longrightarrow> \<exists>r p'. handleData env p = Some (r, p') \<and> behind (sp_stream p) (sp_stream p') \<and>
    (r = None \<longrightarrow> avail (sp_stream p') = [] \<or> hung_up p')"
proof (induction "length (avail (sp_stream p))" arbitrary: p rule: less_induct)
  case less
  obtain code s where rd: "rd 4 (sp_stream p) = (code, s)" by fastforce
  let ?p = "p\<lparr>sp_stream := s\<rparr>"
  note round = handleData_round [of env p code s, unfolded assms react_def, OF rd]
  from rd less.prems have s: "behind (sp_stream p) s" "avail (sp_stream p) = code @ avail s"
    using behind_rd [of "sp_stream p" 4] rd_avail [of "sp_stream p" 4] by auto
  consider "code = []" | "code \<noteq> []" "length code \<noteq> 4" | "length code = 4" by auto
  then show ?case
  proof cases
    case 1
    then have "avail (sp_stream p) = []"
      using rd rd_progress [OF less.prems, of 4] by auto
    then have "avail s = []" using s(2) by simp
    then show ?thesis using 1 s(1) by (simp add: round)
  next
    case 2
    then show ?thesis using rd s(1)
      by (subst handleData_round)
        (auto simp: assms requestDisconnect_def tell_def hung_up_def)
  next
    case 3
    obtain r q where pm: "parse_message env code ?p = (r, q)" by fastforce
    have q: "behind (sp_stream p) (sp_stream q)"
      using message_behind [OF assms, of ?p code] pm s(1) behind_trans [OF s(1)] by (simp add: behind_def)
    have onward: "\<exists>r p'. handleData env q' = Some (r, p') \<and> behind (sp_stream p) (sp_stream p') \<and>
        (r = None \<longrightarrow> avail (sp_stream p') = [] \<or> hung_up p')" if "behind s (sp_stream q')" for q'
      using less.hyps [of q'] that s 3 behind_trans by (fastforce simp: behind_def dest: suffix_length_le)
    have sq: "behind s (sp_stream q)"
      using message_behind [OF assms, of ?p code] pm s(1) by (simp add: behind_def)
    show ?thesis
    proof (cases r)
      case (Inl e)
      then show ?thesis using 3 pm q
        by (auto simp: round protocol_error_def requestDisconnect_def tell_def hung_up_def)
    next
      case (Inr c)
      show ?thesis
      proof (cases c)
        case Okay
        then show ?thesis using 3 pm Inr onward [OF sq] by (auto simp: round)
      next
        case Unknown
        obtain s' where s': "discard rd (sp_stream q) = Some s'" "behind s s'"
          using discard_returns [of "sp_stream q"] sq behind_trans [OF sq] by (auto simp: behind_def)
        then show ?thesis using 3 pm Inr Unknown onward [of "q\<lparr>sp_stream := s'\<rparr>"]
          by (auto simp: round)
      next
        case Disconnect
        then show ?thesis using 3 pm Inr q disconnect_requested [of env code ?p]
          by (auto simp: round)
      qed
    qed
  qed
qed

end

section \<open>The invariant\<close>

text \<open>
  The table maps each of the seven modifiers to one of them; the clipboard being received is
  within its bounds; relative motion is pending only while it is compressed; the keep-alive
  timer is armed with the current interval.
\<close>

definition proxy_inv :: "'s proxy_env \<Rightarrow> 's server_proxy \<Rightarrow> bool" where
  "proxy_inv env p \<longleftrightarrow>
     length (sp_modifierTranslationTable p) = 7 \<and>
     list_all (\<lambda>m. m < kKeyModifierIDLast) (sp_modifierTranslationTable p) \<and>
     assembly_inv (e_maximumReceiveSize env) (sp_clipboard p) \<and>
     (\<not> sp_compressMouseRelative p \<longrightarrow> sp_dxMouse p = 0 \<and> sp_dyMouse p = 0) \<and>
     sp_keepAliveAlarmTimer p = (if sp_keepAliveAlarm p > 0 then Some (sp_keepAliveAlarm p) else None)"

lemma identity_table_eq: "identity_table = [0, 1, 2, 3, 4, 5, 6]"
  by (simp add: identity_table_def kKeyModifierIDLast_def upt_conv_Cons)

lemma taken_inv: "assembly_inv n c \<Longrightarrow> assembly_inv n ([], snd c)"
  by (auto simp: assembly_inv_def split: if_splits)

lemma table_set_inv:
  assumes "list_all (\<lambda>m. m < kKeyModifierIDLast) t"
  shows "list_all (\<lambda>m. m < kKeyModifierIDLast) (t[i := min v (kKeyModifierIDLast - 1)])"
proof -
  have "min v (kKeyModifierIDLast - 1) < kKeyModifierIDLast"
    by (simp add: kKeyModifierIDLast_def min_def word_less_nat_alt word_le_nat_alt)
  with assms show ?thesis
    by (auto simp: list_all_iff dest!: set_update_subset_insert [THEN subsetD])
qed

lemma step_inv:
  assumes "proxy_step hs env p p'" and "proxy_inv env p"
  shows "proxy_inv env p'"
  using assms
proof (induction rule: proxy_step.induct)
  case (assembled p cid mark data)
  then show ?case by (simp add: proxy_inv_def assemble_message_inv)
next
  case (table_set k p v)
  then show ?case by (simp add: proxy_inv_def table_set_inv)
qed (auto simp: proxy_inv_def tell_def call_def flushCompressedMouse_def mouse_moved_def
    mouse_moved_relative_def resetKeepAliveAlarm_def setKeepAliveRate_def Let_def taken_inv
    identity_table_eq kKeyModifierIDLast_def)

lemma steps_inv: "\<lbrakk>proxy_steps hs env p p'; proxy_inv env p\<rbrakk> \<Longrightarrow> proxy_inv env p'"
  by (rule steps_invariant) (auto intro: step_inv)

lemma complete_inv [simp]: "proxy_inv env (completeHandshake p) = proxy_inv env p"
  by (simp add: completeHandshake_def proxy_inv_def call_def tell_def Let_def)

lemma new_inv: "proxy_inv env (proxy_new ls s)"
  by (simp add: proxy_new_def proxy_inv_def setKeepAliveRate_def resetKeepAliveAlarm_def Let_def
      kKeepAliveRate_def kKeepAlivesUntilDeath_def tell_def identity_table_eq kKeyModifierIDLast_def)

section \<open>What the loop does is a run of messages\<close>

text \<open>
  \<open>handled env p p'\<close>: \<open>p'\<close> comes from \<open>p\<close> by reads, messages handled in the phase of the proxy,
  and the reactions of the loop.
\<close>

inductive handled :: "'s proxy_env \<Rightarrow> 's server_proxy \<Rightarrow> 's server_proxy \<Rightarrow> bool" for env where
  refl: "handled env p p"
| steps: "\<lbrakk>handled env p p'; proxy_steps (sp_parser p' = Handshake) env p' p''\<rbrakk> \<Longrightarrow> handled env p p''"
| complete: "\<lbrakk>handled env p p'; sp_parser p' = Handshake\<rbrakk> \<Longrightarrow> handled env p (completeHandshake p')"
| flush: "handled env p p' \<Longrightarrow> handled env p (flushCompressedMouse p')"

lemma handled_trans: "\<lbrakk>handled env p' p''; handled env p p'\<rbrakk> \<Longrightarrow> handled env p p''"
  by (induction rule: handled.induct) (auto intro: handled.intros)

lemma handled_steps: "proxy_steps (sp_parser p = Handshake) env p p' \<Longrightarrow> handled env p p'"
  by (rule handled.steps [OF handled.refl])

lemma handled_message: "handled env p (snd (parse_message env code p))"
proof (rule parse_message_cases [of p env code])
  show "proxy_steps (sp_parser p = Handshake) env p (snd (parse_message env code p)) \<Longrightarrow> ?thesis"
    by (rule handled_steps)
next
  fix p1
  assume a: "sp_parser p = Handshake" "proxy_steps True env p p1"
    "parse_message env code p = (Inr Okay, completeHandshake p1)"
  then have "handled env p p1" "sp_parser p1 = Handshake"
    using handled_steps [of p env p1] steps_parser [of True env p p1] by simp_all
  then show ?thesis using handled.complete a(3) by simp
qed

lemma discard_steps:
  assumes "discard (e_read env) s = Some s'"
  shows "proxy_steps hs env (p\<lparr>sp_stream := s\<rparr>) (p\<lparr>sp_stream := s'\<rparr>)"
proof -
  have "rd = e_read env \<longrightarrow> proxy_steps hs env (p\<lparr>sp_stream := s\<rparr>) (p\<lparr>sp_stream := s'\<rparr>)"
    if "discard rd s = Some s'" for rd s s'
  proof (rule discard.raw_induct [where P =
        "\<lambda>rd s s'. rd = e_read env \<longrightarrow> proxy_steps hs env (p\<lparr>sp_stream := s\<rparr>) (p\<lparr>sp_stream := s'\<rparr>)", OF _ that])
    fix loop rd s s'
    assume IH: "\<And>rd s s'. loop rd s = Some s' \<Longrightarrow>
        rd = e_read env \<longrightarrow> proxy_steps hs env (p\<lparr>sp_stream := s\<rparr>) (p\<lparr>sp_stream := s'\<rparr>)"
      and eq: "(case rd 4 s of (b, s') \<Rightarrow> if b = [] then Some s' else loop rd s') = Some s'"
    show "rd = e_read env \<longrightarrow> proxy_steps hs env (p\<lparr>sp_stream := s\<rparr>) (p\<lparr>sp_stream := s'\<rparr>)"
    proof
      assume rd: "rd = e_read env"
      obtain b s1 where s1: "rd 4 s = (b, s1)" by fastforce
      with eq rd IH have "s' = s1 \<or> proxy_steps hs env (p\<lparr>sp_stream := s1\<rparr>) (p\<lparr>sp_stream := s'\<rparr>)"
        by (auto split: if_splits)
      moreover have "proxy_steps hs env (p\<lparr>sp_stream := s\<rparr>) (p\<lparr>sp_stream := s1\<rparr>)"
        using single_steps(3) [of hs env "p\<lparr>sp_stream := s\<rparr>"] rd s1 by simp
      ultimately show "proxy_steps hs env (p\<lparr>sp_stream := s\<rparr>) (p\<lparr>sp_stream := s'\<rparr>)"
        by (auto intro: steps_trans)
    qed
  qed
  with assms show ?thesis by blast
qed

lemma handled_tell:
  "\<lbrakk>handled env p p'; handshake_effect e; e \<noteq> Client_Call Handshake_Complete\<rbrakk> \<Longrightarrow> handled env p (tell e p')"
  by (erule handled.steps) (simp add: steps_tell steps_refl)

lemma handleData_handled:
  assumes "handleData env p = Some x"
  shows "handled env p (snd x)"
proof (rule handleData.raw_induct [where P = "\<lambda>env p x. handled env p (snd x)", OF _ assms])
  fix loop :: "'a proxy_env \<Rightarrow> 'a server_proxy \<Rightarrow> (stop option \<times> 'a server_proxy) option" and env p x
  assume IH: "\<And>env p x. loop env p = Some x \<Longrightarrow> handled env p (snd x)"
    and eq: "(case e_read env 4 (sp_stream p) of
        (code, s) \<Rightarrow>
          let p = p\<lparr>sp_stream := s\<rparr> in
          if code = [] then Some (None, flushCompressedMouse p)
          else if length code \<noteq> 4 then
            Some (None, requestDisconnect (Some ''incomplete message from server'') p)
          else
            (case parse_message env code p of
               (Inr Okay, p) \<Rightarrow> loop env p
             | (Inr Unknown, p) \<Rightarrow>
                 (case discard (e_read env) (sp_stream p) of
                    None \<Rightarrow> None
                  | Some s \<Rightarrow> loop env (p\<lparr>sp_stream := s\<rparr>))
             | (Inr Disconnect, p) \<Rightarrow> Some (None, p)
             | (Inl e, p) \<Rightarrow>
                 if e = Thrown Bad_Client then Some (None, protocol_error p) else Some (Some e, p))) = Some x"
  obtain code s where rd: "e_read env 4 (sp_stream p) = (code, s)" by fastforce
  let ?p = "p\<lparr>sp_stream := s\<rparr>"
  obtain r q where pm: "parse_message env code ?p = (r, q)" by fastforce
  have p1: "handled env p ?p"
    using single_steps(3) [of _ env p] rd by (auto intro: handled_steps)
  then have q: "handled env p q"
    using handled_message [of env ?p code] pm by (auto intro: handled_trans)
  have onward: "loop env q' = Some x \<Longrightarrow> handled env p q' \<Longrightarrow> handled env p (snd x)" for q'
    using IH handled_trans by blast
  have skip: "handled env p (q\<lparr>sp_stream := s'\<rparr>)" if "discard (e_read env) (sp_stream q) = Some s'" for s'
    using discard_steps [OF that, of _ q] q by (auto intro: handled.steps)
  show "handled env p (snd x)"
    using eq pm p1 q rd
    by (auto simp: Let_def requestDisconnect_def protocol_error_def
        split: if_splits sum.splits connection_result.splits option.splits
        intro!: handled_tell intro: handled.flush onward skip)
qed

section \<open>Reachable states\<close>

datatype 's proxy_event =
    Data_Ready
  | Stream_Changed 's
  | Keep_Alive_Alarm
  | Info_Changed
  | Clipboard_Grabbed byte
  | Clipboard_Changed byte clipboard
  | Clipboard_Sending clipboard_chunk
  | Capture_Control bytes

text \<open>\<^const>\<open>None\<close>: the handler does not return or throws.\<close>

fun proxy_handle :: "'s proxy_env \<Rightarrow> 's proxy_event \<Rightarrow> 's server_proxy \<Rightarrow> 's server_proxy option" where
  "proxy_handle env Data_Ready p = (case handleData env p of Some (None, p') \<Rightarrow> Some p' | _ \<Rightarrow> None)"
| "proxy_handle env (Stream_Changed s) p = Some (p\<lparr>sp_stream := s\<rparr>)"
| "proxy_handle env Keep_Alive_Alarm p = Some (handleKeepAliveAlarm p)"
| "proxy_handle env Info_Changed p = Some (onInfoChanged env p)"
| "proxy_handle env (Clipboard_Grabbed cid) p = Some (onGrabClipboard cid p)"
| "proxy_handle env (Clipboard_Changed cid c) p = onClipboardChanged env cid c p"
| "proxy_handle env (Clipboard_Sending c) p = Some (handleClipboardSending c p)"
| "proxy_handle env (Capture_Control json) p = Some (sendCaptureControl json p)"

inductive proxy_reachable :: "'s proxy_env \<Rightarrow> 's server_proxy \<Rightarrow> bool" for env where
  init: "proxy_reachable env (proxy_new ls s)"
| event: "\<lbrakk>proxy_reachable env p; proxy_handle env ev p = Some p'\<rbrakk> \<Longrightarrow> proxy_reachable env p'"

text \<open>The rule for invariants: the start, the steps of the phase, the end of the handshake, the stream.\<close>

lemma handled_invariant:
  assumes "handled env p p'" and "P p"
    and steps: "\<And>p p'. \<lbrakk>proxy_steps (sp_parser p = Handshake) env p p'; P p\<rbrakk> \<Longrightarrow> P p'"
    and complete: "\<And>p. \<lbrakk>sp_parser p = Handshake; P p\<rbrakk> \<Longrightarrow> P (completeHandshake p)"
    and flush: "\<And>p. P p \<Longrightarrow> P (flushCompressedMouse p)"
  shows "P p'"
  using assms(1,2) by (induction rule: handled.induct) (auto intro: steps complete flush)

definition outgoing :: "proxy_effect \<Rightarrow> bool" where
  "outgoing e \<longleftrightarrow> (case e of Client_Call c \<Rightarrow> False | _ \<Rightarrow> True)"

lemma proxy_invariant_rule:
  assumes "proxy_reachable env p"
    and init: "\<And>ls s. P (proxy_new ls s)"
    and steps: "\<And>p p'. \<lbrakk>proxy_steps (sp_parser p = Handshake) env p p'; P p\<rbrakk> \<Longrightarrow> P p'"
    and complete: "\<And>p. \<lbrakk>sp_parser p = Handshake; P p\<rbrakk> \<Longrightarrow> P (completeHandshake p)"
    and flush: "\<And>p. P p \<Longrightarrow> P (flushCompressedMouse p)"
    and stream: "\<And>p s. P p \<Longrightarrow> P (p\<lparr>sp_stream := s\<rparr>)"
    and told: "\<And>p e. \<lbrakk>P p; outgoing e\<rbrakk> \<Longrightarrow> P (tell e p)"
    and ignore: "\<And>p. P p \<Longrightarrow> P (p\<lparr>sp_ignoreMouse := True\<rparr>)"
  shows "P p"
  using assms(1)
proof (induction rule: proxy_reachable.induct)
  case (event p ev p')
  have "handleData env p = Some (None, p'') \<Longrightarrow> P p''" for p''
    using handled_invariant [OF handleData_handled, where P = P, of env p "(None, p'')"] event.IH steps complete flush
    by auto
  with event show ?case
    by (cases ev) (auto simp: handleKeepAliveAlarm_def requestDisconnect_def onInfoChanged_def queryInfo_def
        sendInfo_def onGrabClipboard_def onClipboardChanged_def handleClipboardSending_def
        sendCaptureControl_def Let_def outgoing_def split: option.splits prod.splits
        intro!: told stream ignore)
qed (rule init)

section \<open>The phases\<close>

fun early :: "proxy_effect \<Rightarrow> bool" where
  "early (Client_Call c) = (case c of Reset_Options \<Rightarrow> True | Set_Options os \<Rightarrow> True | _ \<Rightarrow> False)"
| "early _ = True"

text \<open>Early effects, one completion of the handshake, and no other.\<close>

definition completed_once :: "proxy_effect list \<Rightarrow> bool" where
  "completed_once es \<longleftrightarrow> (\<exists>as bs. es = as @ Client_Call Handshake_Complete # bs \<and> list_all early as \<and>
     Client_Call Handshake_Complete \<notin> set bs)"

lemma completed_once_append:
  "\<lbrakk>completed_once es; Client_Call Handshake_Complete \<notin> set es'\<rbrakk> \<Longrightarrow> completed_once (es @ es')"
  by (fastforce simp: completed_once_def)

lemma completed_once_now: "list_all early es \<Longrightarrow> completed_once (es @ [Client_Call Handshake_Complete])"
  unfolding completed_once_def by (intro exI [of _ es] exI [of _ "[]"]) simp

definition phases :: "'s server_proxy \<Rightarrow> bool" where
  "phases p \<longleftrightarrow> (case sp_parser p of
     Handshake \<Rightarrow> list_all early (sp_log p) \<and> \<not> sp_compressMouse p \<and> \<not> sp_compressMouseRelative p
   | Messages \<Rightarrow> completed_once (sp_log p))"

lemma handshake_early: "handshake_effect e \<Longrightarrow> early e"
  by (cases e) (auto split: client_call.splits)

lemma step_log:
  "proxy_step hs env p p' \<Longrightarrow> \<exists>es. sp_log p' = sp_log p @ es \<and> Client_Call Handshake_Complete \<notin> set es \<and>
    (hs \<longrightarrow> list_all early es \<and> sp_compressMouse p' = sp_compressMouse p \<and>
      sp_compressMouseRelative p' = sp_compressMouseRelative p)"
  by (induction rule: proxy_step.induct)
    (auto simp: tell_def call_def flushCompressedMouse_def mouse_moved_def mouse_moved_relative_def
      resetKeepAliveAlarm_def setKeepAliveRate_def Let_def handshake_early)

lemma steps_phases:
  assumes "proxy_steps (sp_parser p = Handshake) env p p'" and "phases p"
  shows "phases p'"
proof -
  let ?hs = "sp_parser p = Handshake"
  have "sp_parser q' = sp_parser p \<and> phases q'"
    if st: "proxy_step ?hs env q q'" and q: "sp_parser q = sp_parser p \<and> phases q" for q q'
  proof -
    from step_log [OF st] obtain es where es: "sp_log q' = sp_log q @ es"
      "Client_Call Handshake_Complete \<notin> set es"
      "?hs \<longrightarrow> list_all early es \<and> sp_compressMouse q' = sp_compressMouse q \<and>
        sp_compressMouseRelative q' = sp_compressMouseRelative q" by blast
    then show ?thesis
      using q step_parser [OF st] by (cases "sp_parser p") (auto simp: phases_def completed_once_append)
  qed
  then show ?thesis
    using steps_invariant [OF assms(1), where P = "\<lambda>q. sp_parser q = sp_parser p \<and> phases q"] assms(2) by blast
qed

lemma new_phases: "phases (proxy_new ls s)"
  by (simp add: phases_def proxy_new_def setKeepAliveRate_def resetKeepAliveAlarm_def tell_def Let_def
      kKeepAliveRate_def kKeepAlivesUntilDeath_def)

lemma tell_phases: "\<lbrakk>phases p; outgoing e\<rbrakk> \<Longrightarrow> phases (tell e p)"
  by (cases e) (auto simp: phases_def tell_def outgoing_def completed_once_append split: message_parser.splits)

lemma complete_phases: "\<lbrakk>sp_parser p = Handshake; phases p\<rbrakk> \<Longrightarrow> phases (completeHandshake p)"
  using completed_once_now [of "sp_log p"] completed_once_now [of "sp_log p @ [Missing_Keyboard_Layouts ls]" for ls]
  by (simp add: phases_def completeHandshake_def Let_def call_def tell_def)

lemma flush_phases: "phases p \<Longrightarrow> phases (flushCompressedMouse p)"
  by (cases "sp_parser p")
    (auto simp: phases_def flushCompressedMouse_def Let_def call_def tell_def completed_once_append)

lemma update_phases [simp]:
  "phases (p\<lparr>sp_stream := s\<rparr>) = phases p" "phases (p\<lparr>sp_ignoreMouse := b\<rparr>) = phases p"
  by (simp_all add: phases_def split: message_parser.split)

lemma update_inv [simp]:
  "proxy_inv env (p\<lparr>sp_stream := s\<rparr>) = proxy_inv env p"
  "proxy_inv env (p\<lparr>sp_ignoreMouse := b\<rparr>) = proxy_inv env p" "proxy_inv env (tell e p) = proxy_inv env p"
  by (simp_all add: proxy_inv_def tell_def)

lemma flush_inv: "proxy_inv env p \<Longrightarrow> proxy_inv env (flushCompressedMouse p)"
  by (rule steps_inv [OF single_steps(4), of False]) simp_all

section \<open>Theorems on all runs\<close>

definition demo_env :: "packet_filter proxy_env" where
  "demo_env = \<lparr>e_read = ps_rd, e_isReady = pf_is_ready, e_parse = (\<lambda>_. None), e_number = (\<lambda>_. [48]),
     e_maximumReceiveSize = 1024, e_shape = (\<lambda>_. (0, 0, 800, 600)), e_cursor = (\<lambda>_. (400, 300))\<rparr>"

lemma ps_inv_init: "ps_inv pf_init"
  unfolding ps_inv_def by (intro conjI exI [of _ "[]"]) (simp_all add: pf_settled_init)

text \<open>
  C2. Data from the server is always handled to an end: on the packet filter the loop of
  \<^verbatim>\<open>handleData\<close> returns, whatever bytes arrive, and if no exception escapes it has either taken
  every byte of the complete packets or asked for the connection to be closed.
\<close>

theorem handleData_returns:
  assumes "e_read env = ps_rd" and "ps_inv (sp_stream p)"
  shows "\<exists>r p'. handleData env p = Some (r, p') \<and> ps_inv (sp_stream p') \<and>
    ((\<exists>e. r = Some e) \<or> ps_avail (sp_stream p') = [] \<or> hung_up p')"
  using pfs.loop_returns [OF assms] by (auto simp: pfs.behind_def)

lemma handleData_returns_witness:
  "\<exists>r p'. handleData demo_env (proxy_new [] pf_init) = Some (r, p') \<and> ps_inv (sp_stream p') \<and>
    ((\<exists>e. r = Some e) \<or> ps_avail (sp_stream p') = [] \<or> hung_up p')"
  by (rule handleData_returns) (simp_all add: demo_env_def proxy_new_def setKeepAliveRate_def
      resetKeepAliveAlarm_def Let_def tell_def ps_inv_init)

text \<open>
  C21. The invariant of the proxy holds in every reachable state: the table maps the seven
  modifiers to modifiers, so that its uses stay in bounds; the clipboard being received is within
  the announced size, and that within the limit; no relative motion is pending unless compressed;
  the keep-alive timer is armed with the current interval.
\<close>

theorem proxy_reachable_inv:
  assumes "proxy_reachable env p"
  shows "proxy_inv env p"
  using assms
  by (rule proxy_invariant_rule)
    (auto intro: new_inv steps_inv flush_inv)

lemma reachable_example: "proxy_reachable demo_env (onInfoChanged demo_env (proxy_new [] pf_init))"
  by (rule proxy_reachable.event [where ev = Info_Changed, OF proxy_reachable.init [of _ "[]" pf_init]]) simp

lemma proxy_reachable_inv_witness: "proxy_inv demo_env (onInfoChanged demo_env (proxy_new [] pf_init))"
  by (rule proxy_reachable_inv [OF reachable_example])

text \<open>
  C22. The client's screen is left alone until the handshake is complete: in every reachable state
  of the handshake the only calls on the client were those that set or reset its options; after it
  there was exactly one completion, and before it nothing else.
\<close>

theorem handshake_first:
  assumes "proxy_reachable env p"
  shows "phases p"
  using assms
  by (rule proxy_invariant_rule)
    (auto intro: new_phases complete_phases flush_phases tell_phases steps_phases)

lemma handshake_first_witness: "phases (onInfoChanged demo_env (proxy_new [] pf_init))"
  by (rule handshake_first [OF reachable_example])

end
