(* ===== verification/Packet_Messages.thy ===== *)
theory Packet_Messages
  imports Packet_Source Partial_Read
begin

text \<open>
  The packet filter seen packet by packet. A read never crosses a packet boundary, so that the
  reader of a message's four-byte code sees exactly that code when every packet is one message;
  the arguments may be read in pieces. The locale \<open>packet_source\<close> states this of a stream and is
  interpreted on the packet filter of \<^verbatim>\<open>PacketStreamFilter.cpp\<close>.
\<close>

section \<open>Lists of packets\<close>

fun drop_bytes :: "nat \<Rightarrow> bytes list \<Rightarrow> bytes list" where
  "drop_bytes n [] = []"
| "drop_bytes n (p # ps) =
     (if n = 0 then p # ps else if n < length p then drop n p # ps else drop_bytes (n - length p) ps)"

lemma drop_bytes_0 [simp]: "drop_bytes 0 ps = ps"
  by (cases ps) simp_all

lemma concat_drop_bytes: "concat (drop_bytes n ps) = drop n (concat ps)"
  by (induction n ps rule: drop_bytes.induct) auto

lemma drop_bytes_nonempty: "[] \<notin> set ps \<Longrightarrow> [] \<notin> set (drop_bytes n ps)"
  by (induction n ps rule: drop_bytes.induct) auto

lemma drop_bytes_add: "drop_bytes m (drop_bytes n ps) = drop_bytes (n + m) ps"
  by (induction n ps rule: drop_bytes.induct) (auto simp: add.commute)

lemma drop_bytes_first:
  assumes "concat (drop_bytes n (w # ps)) = concat ps" and "[] \<notin> set (w # ps)"
  shows "drop_bytes n (w # ps) = ps"
proof (cases "ps = []")
  case True
  with assms have "length w \<le> n" by (simp add: concat_drop_bytes del: drop_bytes.simps)
  moreover have "0 < length w" using assms(2) by auto
  ultimately have "0 < n" "\<not> n < length w" by linarith+
  then show ?thesis using True by simp
next
  case False
  then obtain p qs where "ps = p # qs" "p \<noteq> []" using assms(2) by (cases ps) auto
  then have pos: "0 < length (concat ps)" by simp
  have "length w + length (concat ps) - n = length (concat ps)"
    using arg_cong [OF assms(1), of length] by (simp add: concat_drop_bytes del: drop_bytes.simps)
  with pos have "n = length w" by linarith
  then show ?thesis using assms(2) by auto
qed

section \<open>Packet streams\<close>

locale packet_source = byte_source rd ok avail
  for rd :: "nat \<Rightarrow> 's \<Rightarrow> bytes \<times> 's" and ok :: "'s \<Rightarrow> bool" and avail :: "'s \<Rightarrow> bytes" +
  fixes ready :: "'s \<Rightarrow> bool" and packets_of :: "'s \<Rightarrow> bytes list"
  assumes packets_avail: "ok s \<Longrightarrow> avail s = concat (packets_of s)"
    and packets_nonempty: "ok s \<Longrightarrow> [] \<notin> set (packets_of s)"
    and ready_packets: "ok s \<Longrightarrow> ready s \<longleftrightarrow> packets_of s \<noteq> []"
    and read_packet: "\<lbrakk>ok s; packets_of s = p # ps; 0 < n; n < 2 ^ 32\<rbrakk> \<Longrightarrow>
      fst (rd n s) = take n p \<and> packets_of (snd (rd n s)) = (if n < length p then drop n p # ps else ps)"
    and read_drops: "ok s \<Longrightarrow> \<exists>k. packets_of (snd (rd n s)) = drop_bytes k (packets_of s)"
begin

text \<open>The streams left by reading from a stream with the packets \<open>qs\<close>.\<close>

definition within :: "bytes list \<Rightarrow> 's \<Rightarrow> bool" where
  "within qs s \<longleftrightarrow> ok s \<and> (\<exists>n. packets_of s = drop_bytes n qs)"

lemma within_source: "byte_source rd (within qs) avail"
proof
  show "within qs s \<Longrightarrow> within qs (snd (rd n s))" for s n
    using rd_inv read_drops [of s n] by (auto simp: within_def drop_bytes_add) 
qed (use rd_avail rd_length rd_progress in \<open>auto simp: within_def\<close>)

text \<open>The arguments of a message that is the front packet.\<close>

lemma readf_packet_parses:
  assumes "fmt_items fmt = Some fs" and "\<And>ok'. byte_source rd ok' avail \<Longrightarrow> parses ok' avail (vreadf rd fs) w vs"
    and "ok s" and "packets_of s = (if w = [] then ps else w # ps)"
  shows "\<exists>s'. readf_got rd fmt s = (vs, None, s') \<and> ok s' \<and> packets_of s' = ps"
proof -
  let ?qs = "if w = [] then ps else w # ps"
  have in0: "within ?qs s" unfolding within_def using assms(3,4) by (metis drop_bytes_0)
  have "avail s = w @ concat ps" using packets_avail [OF assms(3)] assms(4) by simp
  from parses_whole [OF assms(2) [OF within_source] in0 this]
  obtain s' where s': "vreadf rd fs s = (Inr vs, s')" "within ?qs s'" "avail s' = concat ps" by blast
  then obtain n where n: "ok s'" "packets_of s' = drop_bytes n ?qs" by (auto simp: within_def)
  have ne: "[] \<notin> set ?qs" using packets_nonempty [OF assms(3)] assms(4) by simp
  have eq: "concat (drop_bytes n ?qs) = concat ps" using packets_avail [OF n(1)] n(2) s'(3) by simp
  have "packets_of s' = ps"
  proof (cases "w = []")
    case False
    then show ?thesis using drop_bytes_first [of n w ps] eq ne n(2) by simp
  next
    case True
    then have cat: "concat (drop_bytes n ps) = concat ps" and ps: "[] \<notin> set ps" using eq ne by simp_all
    from cat have "length (concat ps) - n = length (concat ps)"
      by (metis concat_drop_bytes length_drop)
    then have "n = 0 \<or> length (concat ps) = 0" by linarith
    then have "n = 0 \<or> ps = []" using ps by (cases ps) auto
    then show ?thesis using n(2) True by auto
  qed
  with s' n assms(1) show ?thesis by (simp add: readf_got_def got_whole [symmetric])
qed

lemma readf_packet:
  assumes "fmt_items fmt = Some fs" and "delivered fs as = Some vs" and "writef_items fs as = Some w"
    and "ok s" and "packets_of s = (if w = [] then ps else w # ps)"
  shows "\<exists>s'. readf_got rd fmt s = (vs, None, s') \<and> ok s' \<and> packets_of s' = ps"
  by (rule readf_packet_parses [OF assms(1) byte_source.parses_vreadf [OF _ assms(2,3)] assms(4,5)])

text \<open>The code of a message that is the front packet.\<close>

lemma read_code:
  assumes "ok s" and "packets_of s = (code @ w) # ps" and "length code = 4"
  shows "\<exists>s'. rd 4 s = (code, s') \<and> ok s' \<and> packets_of s' = (if w = [] then ps else w # ps)"
  using read_packet [OF assms(1,2), of 4] rd_inv [OF assms(1), of 4] assms(3)
  by (cases "rd 4 s") auto

end

section \<open>The packet filter\<close>

function packets :: "bytes \<Rightarrow> bytes list" where
  "packets w =
     (if 4 \<le> length w then
        (let n = unat (un_be32 (w ! 0) (w ! 1) (w ! 2) (w ! 3))
         in if n \<le> length w - 4 then take n (drop 4 w) # packets (drop (4 + n) w) else [])
      else [])"
  by pat_completeness auto
termination
  by (relation "measure length") auto

declare packets.simps [simp del]

lemma packets_Nil [simp]: "packets [] = []"
  by (simp add: packets.simps)

lemma payloads_packets: "payloads w = concat (packets w)"
  by (induction w rule: packets.induct)
    (subst payloads.simps, subst packets.simps, simp add: Let_def)

lemma packets_frame: "sendable p \<Longrightarrow> packets (frame p @ r) = p # packets r"
  using un_be32_nth [of "of_nat (length p)" "p @ r"] sendable_unat [of p]
  by (subst packets.simps) (simp add: frame_eq Let_def)

lemma packets_incomplete: "length c < unat n \<Longrightarrow> packets (be32 n @ c) = []"
  using un_be32_nth [of n c] by (subst packets.simps) (simp add: Let_def)

definition ps_packets :: "packet_filter \<Rightarrow> bytes list" where
  "ps_packets f = packets (pf_pending f)"

lemma ps_packets_not_ready:
  assumes "ps_inv f" and "\<not> pf_is_ready f"
  shows "ps_packets f = []"
proof (cases "pf_size f = 0")
  case True
  with assms show ?thesis
    by (simp add: ps_packets_def ps_inv_def pf_settled_def pf_pending_def packets.simps)
next
  case False
  with assms show ?thesis
    by (simp add: ps_packets_def ps_inv_def pf_settled_def pf_pending_def pf_is_ready_def
        sbq.count_content packets_incomplete)
qed

lemma prefix_packets: "\<lbrakk>list_all sendable ps; prefix w (concat (map frame ps))\<rbrakk> \<Longrightarrow> list_all sendable (packets w)"
proof (induction ps arbitrary: w)
  case Nil
  then show ?case by simp
next
  case (Cons p ps)
  show ?case
  proof (cases "prefix (frame p) w")
    case True
    then obtain r where "w = frame p @ r" by (auto simp: prefix_def)
    with Cons show ?thesis by (simp add: packets_frame)
  next
    case False
    with Cons.prems(2) have "strict_prefix w (frame p)"
      by (auto simp: prefix_append strict_prefix_def)
    then obtain u where u: "frame p = w @ u" "u \<noteq> []" by (auto simp: strict_prefix_def prefix_def)
    have "packets w = []"
    proof (cases "length w < 4")
      case True
      then show ?thesis by (simp add: packets.simps)
    next
      case False
      then obtain c where c: "w = be32 (of_nat (length p)) @ c" "p = c @ u"
        using u(1) append_eq_prefixE [of w u "be32 (of_nat (length p))" p] by (auto simp: frame_eq)
      then have "length c < unat (of_nat (length p) :: u32)"
        using sendable_unat [of p] Cons.prems(1) u(2) by simp
      with c(1) show ?thesis by (simp add: packets_incomplete)
    qed
    then show ?thesis by simp
  qed
qed

lemma ps_packets_sendable: "ps_inv f \<Longrightarrow> list_all sendable (ps_packets f)"
  by (auto simp: ps_inv_def ps_packets_def dest: prefix_packets)

text \<open>One read: the front of the first packet.\<close>

lemma ps_ready_first:
  assumes f: "ps_inv f" and ready: "pf_is_ready f"
  obtains p qs rest where "sendable p" "list_all sendable qs" "pf_pending f = frame p @ rest"
    "prefix rest (concat (map frame qs))" "ps_packets f = p # packets rest"
proof -
  from f obtain ps where ps: "pf_settled f" "list_all sendable ps"
    "prefix (pf_pending f) (concat (map frame ps))" by (auto simp: ps_inv_def)
  from pf_ready_cases [OF ps(1,3,2) ready] obtain p qs rest where
    "ps = p # qs" "pf_pending f = frame p @ rest" "prefix rest (concat (map frame qs))" by auto
  moreover from this ps(2) have "sendable p" "list_all sendable qs" by simp_all
  ultimately show thesis using that [of p qs rest] by (simp add: ps_packets_def packets_frame)
qed

lemma ps_read_first:
  assumes f: "ps_inv f" and ready: "pf_is_ready f" and n: "(of_nat n :: u32) \<noteq> 0" "unat (of_nat n :: u32) = m"
  shows "\<exists>p ps. ps_packets f = p # ps \<and> fst (ps_rd n f) = take m p \<and>
    ps_packets (snd (ps_rd n f)) = (if m < length p then drop m p # ps else ps)"
proof -
  from ps_ready_first [OF f ready] obtain p qs rest where p: "sendable p" "list_all sendable qs"
    "pf_pending f = frame p @ rest" "prefix rest (concat (map frame qs))" "ps_packets f = p # packets rest" .
  have st: "pf_settled f" using f by (simp add: ps_inv_def)
  have m: "of_nat m = (of_nat n :: u32)" "0 < m" using n by (auto simp: unat_gt_0)
  show ?thesis
  proof (cases "m < length p")
    case True
    from pf_read_partial [OF st p(3,1) m(2) True] obtain f' where
      "pf_read (of_nat m) f = Some (take m p, f', [])" "pf_pending f' = frame (drop m p) @ rest" by blast
    moreover have "sendable (drop m p)" using p(1) True by (auto simp: sendable_def)
    ultimately show ?thesis
      using p(5) True m(1) by (auto simp: ps_rd_def ps_packets_def packets_frame)
  next
    case False
    then have "of_nat (length p) \<le> (of_nat n :: u32)"
      using sendable_unat [OF p(1)] n(2) by (simp add: word_le_nat_alt)
    from pf_read_packet [OF st p(3,1,4,2) this] obtain f' ev where
      "pf_read (of_nat n) f = Some (p, f', ev)" "pf_pending f' = rest" by blast
    with p(5) False show ?thesis by (auto simp: ps_rd_def ps_packets_def)
  qed
qed

interpretation pms: packet_source ps_rd ps_inv ps_avail pf_is_ready ps_packets
proof
  fix f :: packet_filter and n and p ps
  assume f: "ps_inv f"
  show "ps_avail f = concat (ps_packets f)"
    by (simp add: ps_avail_def ps_packets_def payloads_packets)
  show "[] \<notin> set (ps_packets f)"
    using ps_packets_sendable [OF f] by (auto simp: list_all_iff sendable_def)
  show "pf_is_ready f \<longleftrightarrow> ps_packets f \<noteq> []"
  proof (cases "pf_is_ready f")
    case True
    then show ?thesis by (rule ps_ready_first [OF f]) (simp add: True)
  next
    case False
    then show ?thesis using ps_packets_not_ready [OF f] by simp
  qed
  show "fst (ps_rd n f) = take n p \<and> ps_packets (snd (ps_rd n f)) = (if n < length p then drop n p # ps else ps)"
    if "ps_packets f = p # ps" "0 < n" "n < 2 ^ 32"
  proof -
    have "unat (of_nat n :: u32) = n" using that(3) by (simp only: unat_of_nat) simp
    moreover from this that(2) have "(of_nat n :: u32) \<noteq> 0" by auto
    moreover have "pf_is_ready f" using ps_packets_not_ready [OF f] that(1) by auto
    ultimately show ?thesis using ps_read_first [OF f, of n n] that(1) by auto
  qed
  show "\<exists>k. ps_packets (snd (ps_rd n f)) = drop_bytes k (ps_packets f)"
  proof (cases "(of_nat n :: u32) = 0 \<or> \<not> pf_is_ready f")
    case True
    then have "ps_rd n f = ([], f)" by (auto simp: ps_rd_def pf_read_def)
    then show ?thesis by (metis drop_bytes_0 snd_conv)
  next
    case False
    then obtain p ps where r: "ps_packets f = p # ps"
      "ps_packets (snd (ps_rd n f)) = (if unat (of_nat n :: u32) < length p
         then drop (unat (of_nat n :: u32)) p # ps else ps)"
      using ps_read_first [OF f] by blast
    define m where "m = unat (of_nat n :: u32)"
    have "0 < m" using False by (auto simp: m_def unat_gt_0)
    moreover have "p \<noteq> []" using ps_packets_sendable [OF f] r(1) by (simp add: sendable_def)
    moreover have "ps_packets (snd (ps_rd n f)) = (if m < length p then drop m p # ps else ps)"
      using r(2) unfolding m_def .
    ultimately have "ps_packets (snd (ps_rd n f)) = drop_bytes (if m < length p then m else length p) (p # ps)"
      by (cases "m < length p") simp_all
    with r(1) have "ps_packets (snd (ps_rd n f)) =
        drop_bytes (if m < length p then m else length p) (ps_packets f)" by (simp only:)
    then show ?thesis by blast
  qed
qed

end
