(* ===== verification/Proxy_Input.thy ===== *)
theory Proxy_Input
  imports Proxy_Props Packet_Messages
begin

text \<open>
  What the client's screen sees of the server's input messages: motion is compressed to its last
  position or its sum, input is delivered behind the motion that precedes it, and keys and
  modifiers are translated by the table of the options. The statements are about the messages as
  the server writes them, one packet each, read through the packet filter.
\<close>

section \<open>Messages and calls\<close>

definition written :: "string \<Rightarrow> arg list \<Rightarrow> bytes" where
  "written fmt as = (case writef fmt as of Some w \<Rightarrow> w | None \<Rightarrow> [])"

fun client_calls :: "proxy_effect list \<Rightarrow> client_call list" where
  "client_calls [] = []"
| "client_calls (Client_Call c # es) = c # client_calls es"
| "client_calls (_ # es) = client_calls es"

lemma client_calls_append [simp]: "client_calls (es @ es') = client_calls es @ client_calls es'"
  by (induction es rule: client_calls.induct) simp_all

definition calls :: "'s server_proxy \<Rightarrow> client_call list" where
  "calls p = client_calls (sp_log p)"

lemma calls_simps [simp]:
  "calls (call c p) = calls p @ [c]" "calls (tell (Write fmt as) p) = calls p"
  "calls (p\<lparr>sp_stream := s\<rparr>) = calls p" "calls (p\<lparr>sp_compressMouse := b\<rparr>) = calls p"
  by (simp_all add: calls_def call_def tell_def)

definition move_message :: "u16 \<times> u16 \<Rightarrow> bytes" where
  "move_message m = written kMsgDMouseMove [Int_Arg (ucast (fst m)), Int_Arg (ucast (snd m))]"

definition relative_message :: "u16 \<times> u16 \<Rightarrow> bytes" where
  "relative_message m = written kMsgDMouseRelMove [Int_Arg (ucast (fst m)), Int_Arg (ucast (snd m))]"

definition button_message :: "byte \<Rightarrow> bytes" where
  "button_message b = written kMsgDMouseDown [Int_Arg (ucast b)]"

definition key_message :: "u16 \<Rightarrow> u16 \<Rightarrow> u16 \<Rightarrow> bytes" where
  "key_message k m b = written kMsgDKeyDown [Int_Arg (ucast k), Int_Arg (ucast m), Int_Arg (ucast b)]"

lemma low_bytes:
  fixes v :: u16 and b :: byte
  shows "ucast (ucast v AND 0xff :: u32) = (ucast (v AND 0xff) :: byte)"
    and "ucast (drop_bit 8 (ucast v :: u32) AND 0xff) = (ucast (drop_bit 8 v AND 0xff) :: byte)"
    and "ucast (ucast b AND 0xff :: u32) = b" and "ucast (ucast b :: u32) = b" and "ucast (ucast v :: u32) = v"
  by (rule bit_word_eqI; auto simp: byte_bit_simps)+

lemma message_items:
  "fmt_items kMsgDMouseMove = Some (map (\<lambda>c. Lit (of_char c)) ''DMMV'' @ [Spec 2 CHR ''i'', Spec 2 CHR ''i''])"
  "fmt_items (drop 4 kMsgDMouseMove) = Some [Spec 2 CHR ''i'', Spec 2 CHR ''i'']"
  "fmt_items kMsgDMouseRelMove = Some (map (\<lambda>c. Lit (of_char c)) ''DMRM'' @ [Spec 2 CHR ''i'', Spec 2 CHR ''i''])"
  "fmt_items (drop 4 kMsgDMouseRelMove) = Some [Spec 2 CHR ''i'', Spec 2 CHR ''i'']"
  "fmt_items kMsgDMouseDown = Some (map (\<lambda>c. Lit (of_char c)) ''DMDN'' @ [Spec 1 CHR ''i''])"
  "fmt_items (drop 4 kMsgDMouseDown) = Some [Spec 1 CHR ''i'']"
  "fmt_items kMsgDKeyDown = Some (map (\<lambda>c. Lit (of_char c)) ''DKDN'' @ [Spec 2 CHR ''i'', Spec 2 CHR ''i'', Spec 2 CHR ''i''])"
  "fmt_items (drop 4 kMsgDKeyDown) = Some [Spec 2 CHR ''i'', Spec 2 CHR ''i'', Spec 2 CHR ''i'']"
  by (simp_all add: message_formats digit_of_def)

lemma message_bytes:
  "move_message m = map of_char ''DMMV'' @ be16 (fst m) @ be16 (snd m)"
  "relative_message m = map of_char ''DMRM'' @ be16 (fst m) @ be16 (snd m)"
  "button_message b = map of_char ''DMDN'' @ [b]"
  "key_message k n c = map of_char ''DKDN'' @ be16 k @ be16 n @ be16 c"
  by (simp_all add: move_message_def relative_message_def button_message_def key_message_def written_def
      writef_def message_items vwritef_def writeInt_def low_bytes be16_def)

section \<open>One message\<close>

definition pending :: "'s server_proxy \<Rightarrow> client_call list" where
  "pending p =
     (if sp_compressMouse p then [Mouse_Move (sp_xMouse p) (sp_yMouse p)] else []) @
     (if sp_compressMouseRelative p then [Mouse_Relative_Move (sp_dxMouse p) (sp_dyMouse p)] else [])"

definition noop :: "'s server_proxy \<Rightarrow> 's server_proxy" where
  "noop p = tell (Write kMsgCNoop []) p"

lemma calls_flush [simp]: "calls (flushCompressedMouse p) = calls p @ pending p"
  by (simp add: flushCompressedMouse_def pending_def calls_def call_def tell_def Let_def)

lemma flush_fields [simp]:
  "sp_parser (flushCompressedMouse p) = sp_parser p"
  "sp_modifierTranslationTable (flushCompressedMouse p) = sp_modifierTranslationTable p"
  "\<not> sp_compressMouse (flushCompressedMouse p)" "\<not> sp_compressMouseRelative (flushCompressedMouse p)"
  by (simp_all add: flushCompressedMouse_def call_def tell_def Let_def)

lemma flush_commutes: "flushCompressedMouse (p\<lparr>sp_stream := s\<rparr>) = (flushCompressedMouse p)\<lparr>sp_stream := s\<rparr>"
  by (simp add: flushCompressedMouse_def call_def tell_def Let_def)

lemma tell_fields [simp]:
  "sp_stream (tell e p) = sp_stream p" "sp_parser (tell e p) = sp_parser p"
  "sp_compressMouse (tell e p) = sp_compressMouse p"
  "sp_compressMouseRelative (tell e p) = sp_compressMouseRelative p"
  "sp_ignoreMouse (tell e p) = sp_ignoreMouse p" "sp_xMouse (tell e p) = sp_xMouse p"
  "sp_yMouse (tell e p) = sp_yMouse p" "sp_dxMouse (tell e p) = sp_dxMouse p"
  "sp_dyMouse (tell e p) = sp_dyMouse p"
  by (simp_all add: tell_def)

definition idle :: "'s server_proxy \<Rightarrow> bool" where
  "idle p \<longleftrightarrow> \<not> sp_compressMouse p \<and> \<not> sp_compressMouseRelative p \<and> sp_dxMouse p = 0 \<and> sp_dyMouse p = 0"

text \<open>Mouse motion is not ignored, and no relative motion is held back.\<close>

definition steady :: "'s server_proxy \<Rightarrow> bool" where
  "steady p \<longleftrightarrow> \<not> sp_ignoreMouse p \<and> \<not> sp_compressMouseRelative p \<and> sp_dxMouse p = 0 \<and> sp_dyMouse p = 0"

lemma steady_fields [simp]:
  "steady (tell e p) = steady p" "steady (p\<lparr>sp_stream := s\<rparr>) = steady p" "steady (call c p) = steady p"
  by (simp_all add: steady_def tell_def call_def)

lemma steady_flush: "steady p \<Longrightarrow> steady (flushCompressedMouse p) \<and> idle (flushCompressedMouse p)"
  by (simp add: steady_def idle_def flushCompressedMouse_def call_def tell_def Let_def)

text \<open>The call that moves leave behind.\<close>

definition landed :: "(u16 \<times> u16) list \<Rightarrow> client_call list" where
  "landed ms = (if ms = [] then [] else [Mouse_Move (scast (fst (last ms))) (scast (snd (last ms)))])"

fun position :: "i32 \<times> i32 \<Rightarrow> (u16 \<times> u16) list \<Rightarrow> i32 \<times> i32" where
  "position xy [] = xy"
| "position xy (m # ms) = position (scast (fst m), scast (snd m)) ms"

lemma position_last: "ms \<noteq> [] \<Longrightarrow> position xy ms = (scast (fst (last ms)), scast (snd (last ms)))"
  by (induction xy ms rule: position.induct) (auto split: if_splits)

lemma keyDown_plain:
  "keyDown k m b [] p =
    call (Key_Down (translateKey (sp_modifierTranslationTable p) (ucast k))
      (translateModifierMask (sp_modifierTranslationTable p) (ucast m)) b []) (flushCompressedMouse p)"
  by (simp add: keyDown_def setActiveServerLanguage_def Let_def)

lemmas dispatch =
  parse_message_def parseMessage_def is_msg_def message_formats replied_def a_then_def
  a_bind_def a_readf_def a_do_def a_ret_def noop_def

context packet_source
begin

definition awaiting :: "'s proxy_env \<Rightarrow> bytes list \<Rightarrow> 's server_proxy \<Rightarrow> bool" where
  "awaiting env ps p \<longleftrightarrow> e_read env = rd \<and> e_isReady env = ready \<and> sp_parser p = Messages \<and>
     ok (sp_stream p) \<and> packets_of (sp_stream p) = ps"

lemma handleData_end: "awaiting env [] p \<Longrightarrow> \<exists>s. handleData env p = Some (None, flushCompressedMouse (p\<lparr>sp_stream := s\<rparr>))"
proof -
  assume a: "awaiting env [] p"
  obtain code s where rd: "rd 4 (sp_stream p) = (code, s)" by fastforce
  moreover have "code = []"
    using a rd rd_avail [of "sp_stream p" 4] packets_avail [of "sp_stream p"] by (auto simp: awaiting_def)
  ultimately show ?thesis using a handleData_round [of env p code s] by (auto simp: awaiting_def)
qed

text \<open>A round of the loop on a whole message, for either parser.\<close>

lemma any_round:
  assumes "e_read env = rd" and "ok (sp_stream p)" and "packets_of (sp_stream p) = (code @ w) # ps" and "length code = 4"
    and "fmt_items fmt = Some fs" and "delivered fs as = Some vs" and "writef_items fs as = Some w"
    and parse: "\<And>s s'. readf_got rd fmt s = (vs, None, s') \<Longrightarrow>
      parse_message env code (p\<lparr>sp_stream := s\<rparr>) = (Inr Okay, f (p\<lparr>sp_stream := s'\<rparr>))"
  shows "\<exists>s. handleData env p = handleData env (f (p\<lparr>sp_stream := s\<rparr>)) \<and> ok s \<and> packets_of s = ps"
proof -
  from read_code [of "sp_stream p" code w ps] assms(2-4) obtain s where
    s: "rd 4 (sp_stream p) = (code, s)" "ok s" "packets_of s = (if w = [] then ps else w # ps)"
    by auto
  from readf_packet [OF assms(5-7) s(2,3)] obtain s' where
    s': "readf_got rd fmt s = (vs, None, s')" "ok s'" "packets_of s' = ps" by blast
  have "code \<noteq> []" using assms(4) by auto
  then show ?thesis
    using s' parse [OF s'(1)] handleData_round [of env p code s] assms(1,4) s(1)
    by (intro exI [of _ s']) (simp add: react_def)
qed

lemma message_round:
  assumes "awaiting env ((code @ w) # ps) p" and "length code = 4"
    and "fmt_items fmt = Some fs" and "delivered fs as = Some vs" and "writef_items fs as = Some w"
    and "\<And>s s'. readf_got rd fmt s = (vs, None, s') \<Longrightarrow>
      parse_message env code (p\<lparr>sp_stream := s\<rparr>) = (Inr Okay, f (p\<lparr>sp_stream := s'\<rparr>))"
  shows "\<exists>s. handleData env p = handleData env (f (p\<lparr>sp_stream := s\<rparr>)) \<and> ok s \<and> packets_of s = ps"
  by (rule any_round [where f = f and fmt = fmt and w = w, OF _ _ _ assms(2-5)])
    (use assms(1,6) in \<open>simp_all add: awaiting_def\<close>)

lemma read_ints:
  "delivered [Spec 2 CHR ''i'', Spec 2 CHR ''i''] [Int_Arg (ucast x), Int_Arg (ucast y)] = Some [Val2 x, Val2 y]"
  "writef_items [Spec 2 CHR ''i'', Spec 2 CHR ''i''] [Int_Arg (ucast x), Int_Arg (ucast y)] = Some (be16 x @ be16 y)"
  "delivered [Spec 1 CHR ''i''] [Int_Arg (ucast b)] = Some [Val1 b]"
  "writef_items [Spec 1 CHR ''i''] [Int_Arg (ucast b)] = Some [b]"
  "delivered [Spec 2 CHR ''i'', Spec 2 CHR ''i'', Spec 2 CHR ''i''] [Int_Arg (ucast x), Int_Arg (ucast y), Int_Arg (ucast z)] =
    Some [Val2 x, Val2 y, Val2 z]"
  "writef_items [Spec 2 CHR ''i'', Spec 2 CHR ''i'', Spec 2 CHR ''i''] [Int_Arg (ucast x), Int_Arg (ucast y), Int_Arg (ucast z)] =
    Some (be16 x @ be16 y @ be16 z)"
  by (simp_all add: be16_def low_bytes writeInt_def)

lemma move_round:
  assumes "awaiting env (move_message m # ps) p"
  shows "\<exists>s. handleData env p =
    handleData env (noop (mouse_moved env (scast (fst m)) (scast (snd m)) (p\<lparr>sp_stream := s\<rparr>))) \<and> ok s \<and> packets_of s = ps"
  by (rule message_round [OF assms [unfolded message_bytes] _ message_items(2) read_ints(1,2)])
    (use assms in \<open>simp_all add: dispatch awaiting_def mouseMove_def\<close>)

lemma relative_round:
  assumes "awaiting env (relative_message m # ps) p"
  shows "\<exists>s. handleData env p =
    handleData env (noop (mouse_moved_relative env (scast (fst m)) (scast (snd m)) (p\<lparr>sp_stream := s\<rparr>))) \<and>
    ok s \<and> packets_of s = ps"
  by (rule message_round [OF assms [unfolded message_bytes] _ message_items(4) read_ints(1,2)])
    (use assms in \<open>simp_all add: dispatch awaiting_def mouseRelativeMove_def\<close>)

lemma button_round:
  assumes "awaiting env (button_message b # ps) p"
  shows "\<exists>s. handleData env p =
    handleData env (noop (call (Mouse_Down b) ((flushCompressedMouse p)\<lparr>sp_stream := s\<rparr>))) \<and> ok s \<and> packets_of s = ps"
  unfolding flush_commutes [symmetric]
  by (rule message_round [OF assms [unfolded message_bytes] _ message_items(6) read_ints(3,4)])
    (use assms in \<open>simp_all add: dispatch awaiting_def mouseDown_def flush_commutes\<close>)

lemma key_round:
  assumes "awaiting env (key_message k m b # ps) p"
  shows "\<exists>s. handleData env p =
    handleData env (noop (keyDown k m b [] (p\<lparr>sp_stream := s\<rparr>))) \<and> ok s \<and> packets_of s = ps"
  by (rule message_round [OF assms [unfolded message_bytes] _ message_items(8) read_ints(5,6)])
    (use assms in \<open>simp_all add: dispatch awaiting_def recvKeyDown_def val2_def\<close>)

text \<open>Runs of motion messages.\<close>

lemma moves_run:
  "\<lbrakk>awaiting env (map move_message ms @ ps) p; sp_compressMouse p; steady p\<rbrakk> \<Longrightarrow>
    \<exists>q. handleData env p = handleData env q \<and> awaiting env ps q \<and> calls q = calls p \<and> steady q \<and>
      pending q = [Mouse_Move (fst (position (sp_xMouse p, sp_yMouse p) ms)) (snd (position (sp_xMouse p, sp_yMouse p) ms))]"
proof (induction ms arbitrary: p)
  case Nil
  then show ?case by (intro exI [of _ p]) (simp add: pending_def steady_def)
next
  case (Cons m ms)
  from move_round [of env m "map move_message ms @ ps" p] Cons.prems(1) obtain s where
    s: "handleData env p = handleData env (noop (mouse_moved env (scast (fst m)) (scast (snd m)) (p\<lparr>sp_stream := s\<rparr>)))"
    "ok s" "packets_of s = map move_message ms @ ps" by auto
  let ?q = "noop (mouse_moved env (scast (fst m)) (scast (snd m)) (p\<lparr>sp_stream := s\<rparr>))"
  have "awaiting env (map move_message ms @ ps) ?q" "sp_compressMouse ?q" "steady ?q"
    "calls ?q = calls p" "sp_xMouse ?q = scast (fst m)" "sp_yMouse ?q = scast (snd m)"
    using Cons.prems s(2,3) by (simp_all add: awaiting_def noop_def mouse_moved_def calls_def tell_def steady_def)
  with Cons.IH [of ?q] s(1) show ?case by simp
qed

lemma relative_run:
  "\<lbrakk>awaiting env (map relative_message ms @ ps) p; sp_compressMouseRelative p; \<not> sp_compressMouse p\<rbrakk> \<Longrightarrow>
    \<exists>q. handleData env p = handleData env q \<and> awaiting env ps q \<and> calls q = calls p \<and>
      pending q = [Mouse_Relative_Move (sp_dxMouse p + (\<Sum>m\<leftarrow>ms. scast (fst m))) (sp_dyMouse p + (\<Sum>m\<leftarrow>ms. scast (snd m)))]"
proof (induction ms arbitrary: p)
  case Nil
  then show ?case by (intro exI [of _ p]) (simp add: pending_def)
next
  case (Cons m ms)
  from relative_round [of env m "map relative_message ms @ ps" p] Cons.prems(1) obtain s where
    s: "handleData env p = handleData env (noop (mouse_moved_relative env (scast (fst m)) (scast (snd m)) (p\<lparr>sp_stream := s\<rparr>)))"
    "ok s" "packets_of s = map relative_message ms @ ps" by auto
  let ?q = "noop (mouse_moved_relative env (scast (fst m)) (scast (snd m)) (p\<lparr>sp_stream := s\<rparr>))"
  have "awaiting env (map relative_message ms @ ps) ?q" "sp_compressMouseRelative ?q" "\<not> sp_compressMouse ?q"
    "calls ?q = calls p" "sp_dxMouse ?q = sp_dxMouse p + scast (fst m)" "sp_dyMouse ?q = sp_dyMouse p + scast (snd m)"
    using Cons.prems s(2,3) by (simp_all add: awaiting_def noop_def mouse_moved_relative_def calls_def tell_def Let_def)
  with Cons.IH [of ?q] s(1) show ?case by (simp add: add.assoc)
qed

text \<open>Motion out of the idle state, with more packets behind it or as the last.\<close>

lemma moves_from_idle:
  assumes "awaiting env (map move_message ms @ ps) p" and "idle p" and "\<not> sp_ignoreMouse p" and "ms \<noteq> []"
  shows "\<exists>q. handleData env p = handleData env q \<and> awaiting env ps q \<and> steady q \<and>
    calls q @ pending q = calls p @ [Mouse_Move (scast (fst (last ms))) (scast (snd (last ms)))]"
proof -
  obtain m ms' where ms: "ms = m # ms'" using assms(4) by (cases ms) auto
  from move_round [of env m "map move_message ms' @ ps" p] assms(1) ms obtain s where
    s: "handleData env p = handleData env (noop (mouse_moved env (scast (fst m)) (scast (snd m)) (p\<lparr>sp_stream := s\<rparr>)))"
    "ok s" "packets_of s = map move_message ms' @ ps" by auto
  let ?q = "noop (mouse_moved env (scast (fst m)) (scast (snd m)) (p\<lparr>sp_stream := s\<rparr>))"
  have q: "awaiting env (map move_message ms' @ ps) ?q"
    using assms(1) s(2,3) by (simp add: awaiting_def noop_def mouse_moved_def call_def Let_def)
  show ?thesis
  proof (cases "map move_message ms' @ ps = []")
    case True
    then have "calls ?q @ pending ?q = calls p @ [Mouse_Move (scast (fst m)) (scast (snd m))]"
      using assms(1-3) s(2,3) ready_packets [OF s(2)]
      by (simp add: awaiting_def noop_def mouse_moved_def idle_def pending_def call_def [symmetric] Let_def)
        (simp add: calls_def call_def tell_def)
    moreover have "steady ?q"
      using assms(1-3) s(2,3) True ready_packets [OF s(2)]
      by (simp add: awaiting_def noop_def mouse_moved_def idle_def steady_def call_def tell_def Let_def)
    ultimately show ?thesis using s(1) q True ms by (intro exI [of _ ?q]) auto
  next
    case False
    then have "ready s" using ready_packets [OF s(2)] s(3) by simp
    then have "sp_compressMouse ?q" "steady ?q" "calls ?q = calls p"
      "sp_xMouse ?q = scast (fst m)" "sp_yMouse ?q = scast (snd m)"
      using assms(1-3) by (simp_all add: awaiting_def noop_def mouse_moved_def calls_def tell_def steady_def idle_def)
    with moves_run [OF q] s(1) ms show ?thesis
      by (auto simp: position_last split: if_splits)
  qed
qed

lemma relatives_from_idle:
  assumes "awaiting env (map relative_message ms) p" and "idle p" and "\<not> sp_ignoreMouse p" and "ms \<noteq> []"
  shows "\<exists>q. handleData env p = handleData env q \<and> awaiting env [] q \<and>
    calls q @ pending q = calls p @ [Mouse_Relative_Move (\<Sum>m\<leftarrow>ms. scast (fst m)) (\<Sum>m\<leftarrow>ms. scast (snd m))]"
proof -
  obtain m ms' where ms: "ms = m # ms'" using assms(4) by (cases ms) auto
  from relative_round [of env m "map relative_message ms'" p] assms(1) ms obtain s where
    s: "handleData env p = handleData env (noop (mouse_moved_relative env (scast (fst m)) (scast (snd m)) (p\<lparr>sp_stream := s\<rparr>)))"
    "ok s" "packets_of s = map relative_message ms'" by auto
  let ?q = "noop (mouse_moved_relative env (scast (fst m)) (scast (snd m)) (p\<lparr>sp_stream := s\<rparr>))"
  have q: "awaiting env (map relative_message ms') ?q"
    using assms(1) s(2,3) by (simp add: awaiting_def noop_def mouse_moved_relative_def call_def Let_def)
  show ?thesis
  proof (cases "ms' = []")
    case True
    then have "calls ?q @ pending ?q = calls p @ [Mouse_Relative_Move (scast (fst m)) (scast (snd m))]"
      using assms(1-3) s(2,3) ready_packets [OF s(2)]
      by (simp add: awaiting_def noop_def mouse_moved_relative_def idle_def pending_def call_def [symmetric] Let_def)
        (simp add: calls_def call_def tell_def)
    then show ?thesis using s(1) q True ms by (intro exI [of _ ?q]) auto
  next
    case False
    then have "ready s" using ready_packets [OF s(2)] s(3) by simp
    then have "sp_compressMouseRelative ?q" "\<not> sp_compressMouse ?q" "calls ?q = calls p"
      "sp_dxMouse ?q = scast (fst m)" "sp_dyMouse ?q = scast (snd m)"
      using assms(1-3) by (simp_all add: awaiting_def noop_def mouse_moved_relative_def calls_def tell_def idle_def Let_def)
    with relative_run [of env ms' "[]" ?q] q s(1) ms show ?thesis by auto
  qed
qed

lemma end_calls:
  assumes "awaiting env [] q"
  shows "\<exists>p'. handleData env q = Some (None, p') \<and> calls p' = calls q @ pending q"
  using handleData_end [OF assms] by (auto simp: flush_commutes)

text \<open>One arrival: moves, or moves and a button behind them.\<close>

definition at_rest :: "'s proxy_env \<Rightarrow> 's server_proxy \<Rightarrow> bool" where
  "at_rest env p \<longleftrightarrow> e_read env = rd \<and> e_isReady env = ready \<and> sp_parser p = Messages \<and> idle p \<and> \<not> sp_ignoreMouse p"

lemma moved:
  assumes "awaiting env (map move_message ms @ ps) p" and "idle p" and "\<not> sp_ignoreMouse p"
  shows "\<exists>q. handleData env p = handleData env q \<and> awaiting env ps q \<and> steady q \<and> calls q @ pending q = calls p @ landed ms"
proof (cases "ms = []")
  case True
  then show ?thesis
    using assms by (intro exI [of _ p]) (simp add: landed_def pending_def idle_def steady_def)
next
  case False
  with moves_from_idle [OF assms] show ?thesis by (simp add: landed_def)
qed

lemma rest_after:
  assumes "awaiting env [] q" and "steady q"
  shows "\<exists>p'. handleData env q = Some (None, p') \<and> calls p' = calls q @ pending q \<and> at_rest env p'"
proof -
  obtain s where "handleData env q = Some (None, flushCompressedMouse (q\<lparr>sp_stream := s\<rparr>))"
    using handleData_end [OF assms(1)] by blast
  moreover have "at_rest env (flushCompressedMouse (q\<lparr>sp_stream := s\<rparr>))"
    using assms steady_flush [of "q\<lparr>sp_stream := s\<rparr>"] by (simp add: at_rest_def awaiting_def) (simp add: steady_def)
  ultimately show ?thesis by (simp add: flush_commutes)
qed

lemma moves_arrive:
  assumes "at_rest env p" and "ok s" and "packets_of s = map move_message ms"
  shows "\<exists>p'. handleData env (p\<lparr>sp_stream := s\<rparr>) = Some (None, p') \<and> calls p' = calls p @ landed ms \<and> at_rest env p'"
proof -
  let ?p = "p\<lparr>sp_stream := s\<rparr>"
  have a: "awaiting env (map move_message ms @ []) ?p" "idle ?p" "\<not> sp_ignoreMouse ?p"
    using assms by (simp_all add: at_rest_def awaiting_def idle_def)
  from moved [OF this] obtain q where
    q: "handleData env ?p = handleData env q" "awaiting env [] q" "steady q" "calls q @ pending q = calls ?p @ landed ms" by blast
  from rest_after [OF q(2,3)] q(1,4) show ?thesis by simp
qed

lemma click_arrives:
  assumes "at_rest env p" and "ok s" and "packets_of s = map move_message ms @ [button_message b]"
  shows "\<exists>p'. handleData env (p\<lparr>sp_stream := s\<rparr>) = Some (None, p') \<and>
    calls p' = calls p @ landed ms @ [Mouse_Down b] \<and> at_rest env p'"
proof -
  let ?p = "p\<lparr>sp_stream := s\<rparr>"
  have a: "awaiting env (map move_message ms @ [button_message b]) ?p" "idle ?p" "\<not> sp_ignoreMouse ?p"
    using assms by (simp_all add: at_rest_def awaiting_def idle_def)
  from moved [OF this] obtain q where
    q: "handleData env ?p = handleData env q" "awaiting env [button_message b] q" "steady q"
      "calls q @ pending q = calls ?p @ landed ms" by blast
  from button_round [OF q(2)] obtain t where
    t: "handleData env q = handleData env (noop (call (Mouse_Down b) ((flushCompressedMouse q)\<lparr>sp_stream := t\<rparr>)))"
      "ok t" "packets_of t = []" by blast
  let ?q = "noop (call (Mouse_Down b) ((flushCompressedMouse q)\<lparr>sp_stream := t\<rparr>))"
  have "awaiting env [] ?q" using q(2) t(2,3) by (simp add: awaiting_def noop_def call_def)
  moreover have "steady ?q" using steady_flush [OF q(3)] by (simp add: noop_def)
  ultimately obtain p' where p': "handleData env ?q = Some (None, p')" "calls p' = calls ?q @ pending ?q" "at_rest env p'"
    using rest_after by blast
  have "calls ?q = (calls q @ pending q) @ [Mouse_Down b]" "pending ?q = []"
    by (simp add: noop_def) (simp add: noop_def pending_def call_def)
  then have "calls p' = calls p @ landed ms @ [Mouse_Down b]" using p'(2) q(4) by simp
  then show ?thesis using p'(1,3) q(1) t(1) by simp
qed

lemma ignored_run:
  "\<lbrakk>awaiting env (map move_message ms) p; sp_ignoreMouse p; \<not> sp_compressMouse p; \<not> sp_compressMouseRelative p\<rbrakk> \<Longrightarrow>
    \<exists>p'. handleData env p = Some (None, p') \<and> calls p' = calls p"
proof (induction ms arbitrary: p)
  case Nil
  then show ?case using end_calls [of env p] by (simp add: pending_def)
next
  case (Cons m ms)
  from move_round [of env m "map move_message ms" p] Cons.prems(1) obtain s where
    s: "handleData env p = handleData env (noop (mouse_moved env (scast (fst m)) (scast (snd m)) (p\<lparr>sp_stream := s\<rparr>)))"
    "ok s" "packets_of s = map move_message ms" by auto
  let ?q = "noop (mouse_moved env (scast (fst m)) (scast (snd m)) (p\<lparr>sp_stream := s\<rparr>))"
  have "awaiting env (map move_message ms) ?q" "sp_ignoreMouse ?q" "\<not> sp_compressMouse ?q"
    "\<not> sp_compressMouseRelative ?q" "calls ?q = calls p"
    using Cons.prems s(2,3) by (simp_all add: awaiting_def noop_def mouse_moved_def calls_def tell_def)
  with Cons.IH [of ?q] s(1) show ?case by simp
qed

end

section \<open>Properties\<close>

text \<open>The packets that have arrived completely, on the packet filter, after the handshake.\<close>

definition receives :: "packet_filter proxy_env \<Rightarrow> bytes list \<Rightarrow> packet_filter server_proxy \<Rightarrow> bool" where
  "receives env ps p \<longleftrightarrow> e_read env = ps_rd \<and> e_isReady env = pf_is_ready \<and> sp_parser p = Messages \<and>
     ps_inv (sp_stream p) \<and> ps_packets (sp_stream p) = ps"

lemma receives_awaiting: "receives env ps p \<longleftrightarrow> pms.awaiting env ps p"
  by (simp add: receives_def pms.awaiting_def)

text \<open>The message loop runs whenever messages have arrived, each time on what the stream then holds.\<close>

fun handle_arrivals :: "'s proxy_env \<Rightarrow> 's list \<Rightarrow> 's server_proxy \<Rightarrow> 's server_proxy option" where
  "handle_arrivals env [] p = Some p"
| "handle_arrivals env (s # ss) p =
     (case handleData env (p\<lparr>sp_stream := s\<rparr>) of
        Some (None, p') \<Rightarrow> handle_arrivals env ss p'
      | _ \<Rightarrow> None)"

definition holds :: "packet_filter \<Rightarrow> bytes list \<Rightarrow> bool" where
  "holds f ps \<longleftrightarrow> ps_inv f \<and> ps_packets f = ps"

lemma moves_arrivals:
  assumes "list_all2 holds fs (map (map move_message) mss)" and "pms.at_rest env p"
  shows "\<exists>p'. handle_arrivals env (fs @ gs) p = handle_arrivals env gs p' \<and>
    calls p' = calls p @ concat (map landed mss) \<and> pms.at_rest env p'"
  using assms
proof (induction mss arbitrary: fs p)
  case Nil
  then show ?case by auto
next
  case (Cons ms mss)
  then obtain f fs' where fs: "fs = f # fs'" "holds f (map move_message ms)" "list_all2 holds fs' (map (map move_message) mss)"
    by (auto simp: list_all2_Cons2)
  from pms.moves_arrive [OF Cons.prems(2), of f ms] fs(2) obtain p1 where
    p1: "handleData env (p\<lparr>sp_stream := f\<rparr>) = Some (None, p1)" "calls p1 = calls p @ landed ms" "pms.at_rest env p1"
    by (auto simp: holds_def)
  from Cons.IH [OF fs(3) p1(3)] p1 fs(1) show ?case by auto
qed

text \<open>
  C16. A click lands where the pointer was moved to. The client is past the handshake, it awaits no
  acknowledgement of a new shape (until which moves are ignored, \<open>motion_ignored\<close>), and it holds no
  motion back. Then, however the server's mouse-move messages and the button message behind them
  are divided into arrivals, each of which the message loop handles when it comes, the screen
  gets one move for every arrival that has any, to the last position in it, and the button
  directly behind the move to the last position of all.
\<close>

theorem click_after_motion:
  assumes "e_read env = ps_rd" and "e_isReady env = pf_is_ready" and "sp_parser p = Messages"
    and "idle p" and "\<not> sp_ignoreMouse p"
    and "list_all2 holds fs (map (map move_message) mss @ [map move_message ms @ [button_message b]])"
  shows "\<exists>p'. handle_arrivals env fs p = Some p' \<and>
    calls p' = calls p @ concat (map landed mss) @ landed ms @ [Mouse_Down b]"
proof -
  obtain gs f where fs: "fs = gs @ [f]" "list_all2 holds gs (map (map move_message) mss)"
    "holds f (map move_message ms @ [button_message b])"
    using assms(6) by (auto simp: list_all2_append2 list_all2_Cons2)
  have rest: "pms.at_rest env p" using assms(1-5) by (simp add: pms.at_rest_def)
  from moves_arrivals [OF fs(2) rest, of "[f]"] obtain q where
    q: "handle_arrivals env fs p = handle_arrivals env [f] q" "calls q = calls p @ concat (map landed mss)" "pms.at_rest env q"
    using fs(1) by blast
  from pms.click_arrives [OF q(3), of f ms b] fs(3) obtain p' where
    "handleData env (q\<lparr>sp_stream := f\<rparr>) = Some (None, p')" "calls p' = calls q @ landed ms @ [Mouse_Down b]"
    by (auto simp: holds_def)
  then show ?thesis using q by simp
qed

text \<open>
  Relative motion adds up: any number of relative mouse-move messages become exactly one call,
  with the sums of their distances (in 32 bits).
\<close>

theorem relative_motion_summed:
  assumes "receives env (map relative_message ms) p"
    and "idle p" and "\<not> sp_ignoreMouse p" and "ms \<noteq> []"
  shows "\<exists>p'. handleData env p = Some (None, p') \<and>
    calls p' = calls p @ [Mouse_Relative_Move (\<Sum>m\<leftarrow>ms. scast (fst m)) (\<Sum>m\<leftarrow>ms. scast (snd m))]"
  using pms.relatives_from_idle [OF assms(1) [unfolded receives_awaiting] assms(2-4)] pms.end_calls
  by metis

text \<open>
  After the client has announced a new shape, mouse-move messages are ignored until the server
  acknowledges it: any number of them causes no call.
\<close>

theorem motion_ignored:
  assumes "receives env (map move_message ms) (onInfoChanged env p)"
    and "idle p"
  shows "\<exists>p'. handleData env (onInfoChanged env p) = Some (None, p') \<and> calls p' = calls p"
proof -
  have "sp_ignoreMouse (onInfoChanged env p)" "\<not> sp_compressMouse (onInfoChanged env p)"
    "\<not> sp_compressMouseRelative (onInfoChanged env p)" "calls (onInfoChanged env p) = calls p"
    using assms(2) by (simp_all add: onInfoChanged_def queryInfo_def sendInfo_def idle_def calls_def tell_def split: prod.split)
  with pms.ignored_run [OF assms(1) [unfolded receives_awaiting]] show ?thesis by simp
qed

text \<open>
  C27. A key is delivered behind the motion that came before it, with the key and the modifier mask
  translated by the modifier table.
\<close>

theorem key_delivered:
  assumes "receives env [key_message k m b] p"
  shows "\<exists>p'. handleData env p = Some (None, p') \<and> calls p' = calls p @ pending p @
    [Key_Down (translateKey (sp_modifierTranslationTable p) (ucast k))
       (translateModifierMask (sp_modifierTranslationTable p) (ucast m)) b []]"
proof -
  from pms.key_round [OF assms [unfolded receives_awaiting]] obtain s where
    s: "handleData env p = handleData env (noop (keyDown k m b [] (p\<lparr>sp_stream := s\<rparr>)))"
      "ps_inv s" "ps_packets s = []" by blast
  let ?q = "noop (keyDown k m b [] (p\<lparr>sp_stream := s\<rparr>))"
  have "pms.awaiting env [] ?q" "pending ?q = []"
    using assms s(2,3) by (simp_all add: receives_def pms.awaiting_def noop_def keyDown_plain pending_def call_def)
  moreover have "calls ?q = calls p @ pending p @
      [Key_Down (translateKey (sp_modifierTranslationTable p) (ucast k))
       (translateModifierMask (sp_modifierTranslationTable p) (ucast m)) b []]"
    by (simp add: noop_def keyDown_plain) (simp add: pending_def)
  ultimately show ?thesis using pms.end_calls [of env ?q] s(1) by simp
qed

section \<open>Instances\<close>

lemma filter_with_packets:
  assumes "list_all sendable ps"
  obtains f where "ps_inv f" and "ps_packets f = ps"
proof -
  let ?cs = "if ps = [] then [] else [concat (map frame ps)]"
  have "[] \<notin> set ?cs" by (cases ps) (auto simp: frame_eq)
  moreover have "concat ?cs = concat (map frame ps)" by simp
  ultimately obtain f where f: "pf_settled f" "pf_pending f = concat (map frame ps)"
    using pf_read_loop_frames [OF assms] by metis
  have "packets (concat (map frame ps)) = ps"
    using assms by (induction ps) (simp_all add: packets_frame)
  moreover have "ps_inv f" unfolding ps_inv_def using f assms by (intro conjI exI [of _ ps]) simp_all
  ultimately show thesis using that [of f] f(2) by (simp add: ps_packets_def)
qed

definition demo_proxy :: "packet_filter \<Rightarrow> packet_filter server_proxy" where
  "demo_proxy f = (proxy_new [] f)\<lparr>sp_parser := Messages\<rparr>"

lemma demo_receives: "\<lbrakk>ps_inv f; ps_packets f = ps\<rbrakk> \<Longrightarrow> receives demo_env ps (demo_proxy f)"
  by (simp add: receives_def demo_env_def demo_proxy_def proxy_new_def setKeepAliveRate_def
      resetKeepAliveAlarm_def Let_def kKeepAliveRate_def kKeepAlivesUntilDeath_def tell_def)

lemma demo_proxy_fields:
  "idle (demo_proxy f)" "\<not> sp_ignoreMouse (demo_proxy f)" "calls (demo_proxy f) = []" "pending (demo_proxy f) = []"
  "sp_modifierTranslationTable (demo_proxy f) = identity_table"
  by (simp_all add: demo_proxy_def proxy_new_def setKeepAliveRate_def resetKeepAliveAlarm_def Let_def idle_def
      kKeepAliveRate_def kKeepAlivesUntilDeath_def tell_def calls_def pending_def)

lemma demo_sendable:
  "sendable (move_message m)" "sendable (relative_message m)" "sendable (button_message b)"
  "sendable (key_message k n c)"
  by (simp_all add: message_bytes sendable_def)

lemma click_after_motion_witness:
  "\<exists>f g p p'. handle_arrivals demo_env [f, g] p = Some p' \<and> calls p' = [Mouse_Move 1 2, Mouse_Move 5 7, Mouse_Down 1]"
proof -
  obtain f where f: "ps_inv f" "ps_packets f = map move_message [(1, 2)]"
    by (rule filter_with_packets [of "map move_message [(1, 2)]"]) (simp_all add: demo_sendable)
  obtain g where g: "ps_inv g" "ps_packets g = map move_message [(3, 4), (5, 7)] @ [button_message 1]"
    by (rule filter_with_packets [of "map move_message [(3, 4), (5, 7)] @ [button_message 1]"])
      (simp_all add: demo_sendable)
  have "\<exists>p'. handle_arrivals demo_env [f, g] (demo_proxy f) = Some p' \<and>
      calls p' = calls (demo_proxy f) @ concat (map landed [[(1, 2)]]) @ landed [(3, 4), (5, 7)] @ [Mouse_Down 1]"
    by (rule click_after_motion)
      (use f g demo_receives [OF f] in \<open>simp_all add: demo_proxy_fields holds_def receives_def\<close>)
  then show ?thesis by (auto simp: demo_proxy_fields landed_def)
qed

lemma relative_motion_summed_witness:
  "\<exists>p p'. handleData demo_env p = Some (None, p') \<and> calls p' = [Mouse_Relative_Move 6 1]"
proof -
  obtain f where f: "ps_inv f" "ps_packets f = map relative_message [(1, 2), (5, 0xFFFF)]"
    by (rule filter_with_packets [of "map relative_message [(1, 2), (5, 0xFFFF)]"]) (simp_all add: demo_sendable)
  from relative_motion_summed [OF demo_receives [OF f]] show ?thesis
    by (auto simp: demo_proxy_fields)
qed

lemma motion_ignored_witness:
  "\<exists>p p'. handleData demo_env (onInfoChanged demo_env p) = Some (None, p') \<and> calls p' = []"
proof -
  obtain f where f: "ps_inv f" "ps_packets f = map move_message [(1, 2), (5, 7)]"
    by (rule filter_with_packets [of "map move_message [(1, 2), (5, 7)]"]) (simp_all add: demo_sendable)
  have "receives demo_env (map move_message [(1, 2), (5, 7)]) (onInfoChanged demo_env (demo_proxy f))"
    using demo_receives [OF f] by (simp add: receives_def onInfoChanged_def queryInfo_def sendInfo_def demo_env_def)
  from motion_ignored [OF this] show ?thesis by (auto simp: demo_proxy_fields)
qed

lemma key_delivered_witness:
  "\<exists>p p'. handleData demo_env p = Some (None, p') \<and> calls p' = [Key_Down 97 0 30 []]"
proof -
  obtain f where f: "ps_inv f" "ps_packets f = [key_message 97 0 30]"
    by (rule filter_with_packets [of "[key_message 97 0 30]"]) (simp_all add: demo_sendable)
  have "translateKey t 97 = 97" "translateModifierMask t 0 = 0" for t
    by (simp_all add: translateKey_def key_side_def modifier_keys modifier_ids translateModifierMask_def translated_bit_def)
  with key_delivered [OF demo_receives [OF f]] show ?thesis by (auto simp: demo_proxy_fields)
qed

end
