(* ===== verification/Proxy_Errors.thy ===== *)
theory Proxy_Errors
  imports Proxy_Input
begin

text \<open>
  The translation of keys and modifiers by the table of the options, and what the proxy does with
  malformed messages: the ones it answers, and the ones it mishandles.
\<close>

section \<open>Translation\<close>

lemma identity_nth: "i < kKeyModifierIDLast \<Longrightarrow> identity_table ! unat i = i"
  by (simp add: identity_table_def kKeyModifierIDLast_def word_less_nat_alt)

lemma identity_key: "translateKey identity_table k = k"
  unfolding translateKey_def key_side_def identity_table_eq key_table_def
  by (simp add: modifier_keys modifier_ids)

lemma identity_mask: "translateModifierMask identity_table m = m"
proof -
  have masks: "s_masks ! unat (identity_table ! unat kKeyModifierIDShift) = KeyModifierShift"
    "s_masks ! unat (identity_table ! unat kKeyModifierIDControl) = KeyModifierControl"
    "s_masks ! unat (identity_table ! unat kKeyModifierIDAlt) = KeyModifierAlt"
    "s_masks ! unat (identity_table ! unat kKeyModifierIDMeta) = KeyModifierMeta"
    "s_masks ! unat (identity_table ! unat kKeyModifierIDSuper) = KeyModifierSuper"
    "s_masks ! unat (identity_table ! unat kKeyModifierIDAltGr) = KeyModifierAltGr"
    by (simp_all add: identity_table_eq modifier_ids s_masks_def)
  have one: "(if m AND 2 ^ i \<noteq> 0 then 2 ^ i else 0) = m AND (2 ^ i :: u32)" for i
    unfolding and_exp_eq_0_iff_not_bit
    by (rule bit_word_eqI) (auto simp: bit_and_iff bit_exp_iff)
  have powers: "KeyModifierShift = 2 ^ 0" "KeyModifierControl = 2 ^ 1" "KeyModifierAlt = 2 ^ 2"
    "KeyModifierMeta = 2 ^ 3" "KeyModifierSuper = 2 ^ 4" "KeyModifierAltGr = 2 ^ 5"
    by (simp_all add: modifier_masks)
  have parts: "m AND NOT (a OR b OR c OR d OR e OR f) OR (m AND a) OR (m AND b) OR (m AND c) OR (m AND f) OR
      (m AND d) OR (m AND e) = m" for a b c d e f :: u32
    by (rule bit_word_eqI) (auto simp: bit_and_iff bit_or_iff bit_not_iff)
  have "translated_bit identity_table m KeyModifierShift kKeyModifierIDShift = m AND KeyModifierShift"
    "translated_bit identity_table m KeyModifierControl kKeyModifierIDControl = m AND KeyModifierControl"
    "translated_bit identity_table m KeyModifierAlt kKeyModifierIDAlt = m AND KeyModifierAlt"
    "translated_bit identity_table m KeyModifierMeta kKeyModifierIDMeta = m AND KeyModifierMeta"
    "translated_bit identity_table m KeyModifierSuper kKeyModifierIDSuper = m AND KeyModifierSuper"
    "translated_bit identity_table m KeyModifierAltGr kKeyModifierIDAltGr = m AND KeyModifierAltGr"
    by (simp_all only: translated_bit_def masks powers one)
  then show ?thesis unfolding translateModifierMask_def by (simp only: parts)
qed

text \<open>The modifiers other than the null one.\<close>

definition modifiers :: "u32 list" where
  "modifiers = [kKeyModifierIDShift, kKeyModifierIDControl, kKeyModifierIDAlt, kKeyModifierIDMeta,
     kKeyModifierIDSuper, kKeyModifierIDAltGr]"

lemma single_mask:
  assumes "i \<in> set modifiers"
  shows "translateModifierMask t (s_masks ! unat i) = s_masks ! unat (t ! unat i)"
proof -
  have nth: "s_masks ! Suc 0 = 1" "s_masks ! 2 = 2" "s_masks ! 3 = 4" "s_masks ! 4 = 8" "s_masks ! 5 = 16"
    "s_masks ! 6 = 32" by (simp_all add: s_masks_def modifier_masks)
  from assms consider "i = 1" | "i = 2" | "i = 3" | "i = 4" | "i = 5" | "i = 6"
    by (auto simp: modifiers_def modifier_ids)
  then show ?thesis
    unfolding translateModifierMask_def translated_bit_def modifier_masks modifier_ids
    by cases (simp_all add: nth)
qed

lemma modifier_cases:
  assumes "j < kKeyModifierIDLast" and "j \<noteq> kKeyModifierIDNull"
  shows "j \<in> set modifiers"
proof -
  have "unat j < 7" "unat j \<noteq> 0"
    using assms by (simp_all add: modifier_ids word_less_nat_alt unat_eq_zero)
  then have "unat j = 1 \<or> unat j = 2 \<or> unat j = 3 \<or> unat j = 4 \<or> unat j = 5 \<or> unat j = 6" by auto
  moreover have "j = of_nat (unat j)" by simp
  ultimately have "j = of_nat 1 \<or> j = of_nat 2 \<or> j = of_nat 3 \<or> j = of_nat 4 \<or> j = of_nat 5 \<or> j = of_nat 6"
    by metis
  then show ?thesis by (auto simp: modifiers_def modifier_ids)
qed

lemma key_side_modifier: "fst (key_side k) \<noteq> kKeyModifierIDNull \<Longrightarrow> fst (key_side k) \<in> set modifiers"
  by (auto simp: key_side_def modifiers_def split: if_splits)

lemma table_key_side:
  assumes "j \<in> set modifiers"
  shows "fst (key_side (fst (key_table ! unat j))) = j" and "fst (key_side (snd (key_table ! unat j))) = j"
  using assms by (auto simp: modifiers_def modifier_ids key_table_def key_side_def modifier_keys)

text \<open>
  With the initial modifier table keys and modifier masks are delivered as they were sent.
\<close>

theorem identity_translation: "translateKey identity_table k = k \<and> translateModifierMask identity_table m = m"
  by (simp add: identity_key identity_mask)

text \<open>
  C28. Keys and masks are translated alike, whatever the server's options say: if the table sends a
  modifier to another one, then each key of the modifier becomes a key of the other, and the bit
  of the modifier becomes the bit of the other.
\<close>

theorem translation_agrees:
  assumes "proxy_reachable env p" and "fst (key_side k) = i" and "i \<noteq> kKeyModifierIDNull"
    and "sp_modifierTranslationTable p ! unat i = j" and "j \<noteq> kKeyModifierIDNull"
  shows "fst (key_side (translateKey (sp_modifierTranslationTable p) k)) = j \<and>
    translateModifierMask (sp_modifierTranslationTable p) (s_masks ! unat i) = s_masks ! unat j"
proof -
  let ?t = "sp_modifierTranslationTable p"
  have inv: "proxy_inv env p"
    using assms(1) by (rule proxy_invariant_rule) (auto intro: new_inv steps_inv flush_inv)
  have i: "i \<in> set modifiers" using key_side_modifier [of k] assms(2,3) by simp
  then have "unat i < 7" by (auto simp: modifiers_def modifier_ids)
  then have "j < kKeyModifierIDLast"
    using inv assms(4) by (auto simp: proxy_inv_def list_all_length)
  then have j: "j \<in> set modifiers" using assms(5) by (rule modifier_cases)
  have "translateKey ?t k = fst (key_table ! unat j) \<or> translateKey ?t k = snd (key_table ! unat j)"
    using assms(2-4) by (auto simp: translateKey_def Let_def split: prod.split)
  then have "fst (key_side (translateKey ?t k)) = j" using table_key_side [OF j] by auto
  with single_mask [OF i, of ?t] assms(4) show ?thesis by simp
qed

lemma translation_agrees_witness:
  "fst (key_side (translateKey (sp_modifierTranslationTable
     (onInfoChanged demo_env (proxy_new [] pf_init))) kKeyAlt_R)) = kKeyModifierIDAlt \<and>
   translateModifierMask (sp_modifierTranslationTable (onInfoChanged demo_env (proxy_new [] pf_init)))
     (s_masks ! unat kKeyModifierIDAlt) = s_masks ! unat kKeyModifierIDAlt"
proof (rule translation_agrees [OF reachable_example])
  have "sp_modifierTranslationTable (onInfoChanged demo_env (proxy_new [] pf_init)) = identity_table"
    by (simp add: onInfoChanged_def queryInfo_def sendInfo_def demo_env_def proxy_new_def tell_def
        setKeepAliveRate_def resetKeepAliveAlarm_def Let_def)
  then show "sp_modifierTranslationTable (onInfoChanged demo_env (proxy_new [] pf_init)) ! unat kKeyModifierIDAlt =
      kKeyModifierIDAlt"
    using identity_nth [of kKeyModifierIDAlt] by (simp add: modifier_ids)
qed (simp_all add: key_side_def modifier_keys modifier_ids)

section \<open>Malformed messages\<close>

context packet_source
begin

lemma code_round:
  assumes "awaiting env ((code @ w) # ps) p" and "length code = 4"
  obtains s where "handleData env p = react env (parse_message env code (p\<lparr>sp_stream := s\<rparr>))"
    and "ok s" and "packets_of s = (if w = [] then ps else w # ps)"
proof -
  from read_code [of "sp_stream p" code w ps] assms obtain s where
    s: "rd 4 (sp_stream p) = (code, s)" "ok s" "packets_of s = (if w = [] then ps else w # ps)"
    by (auto simp: awaiting_def)
  have "code \<noteq> []" using assms(2) by auto
  with that [of s] s handleData_round [of env p code s] assms show thesis by (simp add: awaiting_def)
qed

lemma too_many_options:
  assumes "ok s" and "avail s = be32 n @ r" and "protocol_max_list_length < n"
  shows "\<exists>s'. readf_got rd (drop 4 kMsgDSetOptions) s = ([Vec4 []], Some Bad_Client, s')"
proof -
  from parses_whole [OF parses_read4 assms(1,2)] obtain s' where "read4BytesInt rd s = (Inr n, s')" by blast
  then have "readVectorSize rd s = (Inl Bad_Client, s')"
    using assms(3) by (simp add: readVectorSize_def rbind_def rfail_def)
  then show ?thesis
    by (simp add: readf_got_def kMsgDSetOptions_def digit_of_def got_vector_def)
qed

lemma no_argument:
  assumes "ok s" and "packets_of s = []"
  shows "\<exists>s'. readf_got rd (drop 4 kMsgDMouseDown) s = ([], Some End_Of_Stream, s')"
proof -
  have "avail s = []" using packets_avail [OF assms(1)] assms(2) by simp
  then have "strict_prefix (avail s) [0]" by (simp add: strict_prefix_def)
  from parses_cut [OF parses_read1 assms(1) this] show ?thesis
    by (auto simp: readf_got_def message_items got_one_def)
qed

end

text \<open>
  A message with too many elements is a protocol error: a list of options longer than the
  limit is answered with the message EBAD, and the connection is closed; nothing else happens.
\<close>

theorem oversized_options_rejected:
  assumes "receives env ((map of_char ''DSOP'' @ be32 n @ r) # ps) p" and "protocol_max_list_length < n"
  shows "\<exists>p'. handleData env p = Some (None, p') \<and>
    sp_log p' = sp_log p @ [Write kMsgEBad [], Request_Disconnect (Some ''invalid message from server'')]"
proof -
  obtain s where s: "handleData env p = react env (parse_message env (map of_char ''DSOP'') (p\<lparr>sp_stream := s\<rparr>))"
    "ps_inv s" "ps_packets s = (be32 n @ r) # ps"
    by (rule pms.code_round [OF assms(1) [unfolded receives_awaiting]]) auto
  then obtain s' where "readf_got ps_rd (drop 4 kMsgDSetOptions) s = ([Vec4 []], Some Bad_Client, s')"
    using pms.too_many_options [of s n "r @ concat ps"] pms.packets_avail [OF s(2)] assms(2) by auto
  then have "parse_message env (map of_char ''DSOP'') (p\<lparr>sp_stream := s\<rparr>) =
      (Inl (Thrown Bad_Client), p\<lparr>sp_stream := s'\<rparr>)"
    using assms(1) by (simp add: receives_def dispatch setOptions_def)
  with s(1) show ?thesis
    by (simp add: react_def protocol_error_def requestDisconnect_def tell_def)
qed

lemma oversized_options_rejected_witness:
  "\<exists>p p'. handleData demo_env p = Some (None, p') \<and>
    sp_log p' = sp_log p @ [Write kMsgEBad [], Request_Disconnect (Some ''invalid message from server'')]"
proof -
  obtain f where f: "ps_inv f" "ps_packets f = [map of_char ''DSOP'' @ be32 2000000 @ []]"
    by (rule filter_with_packets [of "[map of_char ''DSOP'' @ be32 2000000 @ []]"]) (simp_all add: sendable_def)
  from oversized_options_rejected [OF demo_receives [OF f]] show ?thesis
    by (auto simp: protocol_max_list_length_def)
qed

text \<open>
  A message cut short is not detected: after the code of a mouse-button message without its
  argument the handler uses a variable that nothing has assigned.
\<close>

theorem button_without_argument:
  assumes "receives env [map of_char ''DMDN''] p"
  shows "\<exists>p'. handleData env p = Some (Some Indeterminate, p')"
proof -
  obtain s where s: "handleData env p = react env (parse_message env (map of_char ''DMDN'') (p\<lparr>sp_stream := s\<rparr>))"
    "ps_inv s" "ps_packets s = []"
    by (rule pms.code_round [of env "map of_char ''DMDN''" "[]" "[]" p]) (use assms in \<open>auto simp: receives_awaiting\<close>)
  from pms.no_argument [OF s(2,3)] obtain s' where
    "readf_got ps_rd (drop 4 kMsgDMouseDown) s = ([], Some End_Of_Stream, s')" by blast
  then have "fst (parse_message env (map of_char ''DMDN'') (p\<lparr>sp_stream := s\<rparr>)) = Inl Indeterminate"
    using assms by (simp add: receives_def dispatch mouseDown_def a_stop_def flush_commutes)
  with s(1) show ?thesis by (cases "parse_message env (map of_char ''DMDN'') (p\<lparr>sp_stream := s\<rparr>)") (auto simp: react_def)
qed

lemma button_without_argument_witness: "\<exists>p p'. handleData demo_env p = Some (Some Indeterminate, p')"
proof -
  obtain f where f: "ps_inv f" "ps_packets f = [map of_char ''DMDN'']"
    by (rule filter_with_packets [of "[map of_char ''DMDN'']"]) (simp_all add: sendable_def)
  from button_without_argument [OF demo_receives [OF f]] show ?thesis by blast
qed

text \<open>
  The server can end the client: during the handshake a list of layouts of one byte makes an
  exception escape from \<^verbatim>\<open>handleData\<close>, which catches only the one for a bad client.
\<close>

theorem short_layouts_escape:
  assumes "e_read env = ps_rd" and "sp_parser p = Handshake" and "ps_inv (sp_stream p)"
    and "ps_packets (sp_stream p) = (map of_char ''LSYN'' @ be32 1 @ [b]) # ps"
  shows "\<exists>p'. handleData env p = Some (Some Out_Of_Range, p')"
proof -
  have fmt: "fmt_items (drop 4 kMsgDLanguageSynchronisation) = Some [Spec 0 CHR ''s'']"
    by (simp add: kMsgDLanguageSynchronisation_def digit_of_def)
  have "writeString [b] = Some (be32 1 @ [b])"
    using writeString_Some [of "[b]"] by auto
  then have w: "writef_items [Spec 0 CHR ''s''] [Str_Arg [b]] = Some (be32 1 @ [b])" by simp
  from pms.read_code [OF assms(3,4)] obtain s where
    s: "ps_rd 4 (sp_stream p) = (map of_char ''LSYN'', s)" "ps_inv s" "ps_packets s = (be32 1 @ [b]) # ps" by auto
  obtain s' where "readf_got ps_rd (drop 4 kMsgDLanguageSynchronisation) s = ([Str [b]], None, s')"
    using pms.readf_packet [OF fmt _ w s(2), of "[Str [b]]" ps] s(3) by auto
  then have "fst (parse_message env (map of_char ''LSYN'') (p\<lparr>sp_stream := s\<rparr>)) = Inl Out_Of_Range"
    using assms(1,2) by (simp add: dispatch parseHandshakeMessage_def okay_def setServerLanguages_def str_def one_byte_layout_throws)
  then show ?thesis
    using handleData_round [of env p "map of_char ''LSYN''" s] s(1) assms(1)
    by (cases "parse_message env (map of_char ''LSYN'') (p\<lparr>sp_stream := s\<rparr>)") (auto simp: react_def)
qed

lemma short_layouts_escape_witness: "\<exists>f p'. handleData demo_env (proxy_new [] f) = Some (Some Out_Of_Range, p')"
proof -
  obtain f where f: "ps_inv f" "ps_packets f = [map of_char ''LSYN'' @ be32 1 @ [101]]"
    by (rule filter_with_packets [of "[map of_char ''LSYN'' @ be32 1 @ [101]]"]) (simp_all add: sendable_def)
  have "\<exists>p'. handleData demo_env (proxy_new [] f) = Some (Some Out_Of_Range, p')"
    by (rule short_layouts_escape)
      (simp_all add: demo_env_def f proxy_new_def setKeepAliveRate_def resetKeepAliveAlarm_def Let_def tell_def)
  then show ?thesis by blast
qed

end
