(* ===== verification/Client_Proxy.thy ===== *)
theory Client_Proxy
  imports Server_Proxy
begin

text \<open>
  The server's end of a connection, \<^verbatim>\<open>server/ClientProxy1_0.cpp\<close> to \<^verbatim>\<open>ClientProxy1_8.cpp\<close>. Each class
  extends the one before it; the record \<open>client_proxy\<close> holds the members of all of them with the
  number of the class, and an operation that later classes override asks for that number. What
  the proxy does to the outside (messages, timers, events) is appended to \<open>cp_log\<close>. Log output is
  left out; times are rational numbers of seconds. The reply to a capture request, which
  \<^verbatim>\<open>FileClipboardTransfer\<close> and Qt's JSON compute from its text, is a parameter.
\<close>

section \<open>State\<close>

datatype cp_effect =
    Sent string "arg list"
  | Sent_Chunk clipboard_chunk
  | Queued_Chunks "clipboard_chunk list"
  | Stream_Close
  | Stream_Flush
  | Heartbeat_Timer rat
  | Delete_Heartbeat_Timer
  | Keep_Alive_Timer rat
  | Delete_Keep_Alive_Timer
  | Ev_Ready
  | Ev_Disconnected
  | Ev_Shape_Changed
  | Ev_Clipboard_Grabbed byte u32
  | Ev_Clipboard_Changed byte u32

record client_info =
  ci_x :: i32
  ci_y :: i32
  ci_w :: i32
  ci_h :: i32
  ci_mx :: i32
  ci_my :: i32

record client_clipboard =
  cc_clipboard :: clipboard
  cc_sequenceNumber :: u32
  cc_dirty :: bool

record 's client_proxy =
  cp_version :: nat
  cp_name :: bytes
  cp_stream :: 's
  cp_parser :: message_parser
  cp_info :: client_info
  cp_clipboard :: "client_clipboard list"
  cp_heartbeatAlarm :: rat
  cp_heartbeatTimer :: "rat option"
  cp_keepAliveRate :: rat
  cp_keepAliveTimer :: "rat option"
  cp_handlers :: bool
  cp_assembly :: "bytes \<times> assembly_state"
  cp_log :: "cp_effect list"

record 's cp_env =
  p_read :: "nat \<Rightarrow> 's \<Rightarrow> bytes \<times> 's"
  p_parse :: "bytes \<Rightarrow> 64 word option"
  p_number :: "nat \<Rightarrow> bytes"
  p_maximumClipboardSize :: nat
  p_capture :: "bytes \<Rightarrow> bytes"

definition cp_tell :: "cp_effect \<Rightarrow> 's client_proxy \<Rightarrow> 's client_proxy" where
  "cp_tell e p = p\<lparr>cp_log := cp_log p @ [e]\<rparr>"

definition send :: "string \<Rightarrow> arg list \<Rightarrow> 's client_proxy \<Rightarrow> 's client_proxy" where
  "send fmt as = cp_tell (Sent fmt as)"

definition kMsgDKeyDown1_0 :: string where "kMsgDKeyDown1_0 = ''DKDN%2i%2i''"
definition kMsgDKeyRepeat1_0 :: string where "kMsgDKeyRepeat1_0 = ''DKRP%2i%2i%2i''"
definition kMsgDKeyUp1_0 :: string where "kMsgDKeyUp1_0 = ''DKUP%2i%2i''"
definition kMsgDMouseWheel1_0 :: string where "kMsgDMouseWheel1_0 = ''DMWM%2i''"
definition kMsgDFileTransfer :: string where "kMsgDFileTransfer = ''DFTR%1i%s''"
definition kMsgDDragInfo :: string where "kMsgDDragInfo = ''DDRG%2i%s''"

lemmas old_formats = kMsgDKeyDown1_0_def kMsgDKeyRepeat1_0_def kMsgDKeyUp1_0_def kMsgDMouseWheel1_0_def
  kMsgDFileTransfer_def kMsgDDragInfo_def

section \<open>Heartbeat\<close>

definition kHeartRate :: rat where "kHeartRate = -1"
definition kHeartBeatsUntilDeath :: rat where "kHeartBeatsUntilDeath = 3"

text \<open>\<^verbatim>\<open>ClientProxy1_0::addHeartbeatTimer\<close> and \<^verbatim>\<open>removeHeartbeatTimer\<close>, then the versions of \<^verbatim>\<open>ClientProxy1_3\<close>.\<close>

definition add_alarm :: "'s client_proxy \<Rightarrow> 's client_proxy" where
  "add_alarm p =
     (if cp_heartbeatAlarm p > 0
      then (cp_tell (Heartbeat_Timer (cp_heartbeatAlarm p)) p)\<lparr>cp_heartbeatTimer := Some (cp_heartbeatAlarm p)\<rparr>
      else p)"

definition remove_alarm :: "'s client_proxy \<Rightarrow> 's client_proxy" where
  "remove_alarm p =
     (if cp_heartbeatTimer p \<noteq> None
      then (cp_tell Delete_Heartbeat_Timer p)\<lparr>cp_heartbeatTimer := None\<rparr> else p)"

definition addHeartbeatTimer :: "'s client_proxy \<Rightarrow> 's client_proxy" where
  "addHeartbeatTimer p =
     add_alarm
       (if cp_version p \<ge> 3 \<and> cp_keepAliveRate p > 0
        then (cp_tell (Keep_Alive_Timer (cp_keepAliveRate p)) p)\<lparr>cp_keepAliveTimer := Some (cp_keepAliveRate p)\<rparr>
        else p)"

definition removeHeartbeatTimer :: "'s client_proxy \<Rightarrow> 's client_proxy" where
  "removeHeartbeatTimer p =
     remove_alarm
       (if cp_version p \<ge> 3 \<and> cp_keepAliveTimer p \<noteq> None
        then (cp_tell Delete_Keep_Alive_Timer p)\<lparr>cp_keepAliveTimer := None\<rparr> else p)"

definition resetHeartbeatTimer :: "'s client_proxy \<Rightarrow> 's client_proxy" where
  "resetHeartbeatTimer p =
     (if cp_version p \<ge> 3 then add_alarm (remove_alarm p) else addHeartbeatTimer (removeHeartbeatTimer p))"

definition setHeartbeatRate :: "rat \<Rightarrow> rat \<Rightarrow> 's client_proxy \<Rightarrow> 's client_proxy" where
  "setHeartbeatRate rate alarm p =
     (if cp_version p \<ge> 3
      then p\<lparr>cp_keepAliveRate := rate, cp_heartbeatAlarm := rate * kKeepAlivesUntilDeath\<rparr>
      else p\<lparr>cp_heartbeatAlarm := alarm\<rparr>)"

definition resetHeartbeatRate :: "'s client_proxy \<Rightarrow> 's client_proxy" where
  "resetHeartbeatRate p =
     (if cp_version p \<ge> 3 then setHeartbeatRate kKeepAliveRate (kKeepAliveRate * kKeepAlivesUntilDeath) p
      else setHeartbeatRate kHeartRate (kHeartRate * kHeartBeatsUntilDeath) p)"

definition cp_keepAlive :: "'s client_proxy \<Rightarrow> 's client_proxy" where
  "cp_keepAlive = send kMsgCKeepAlive []"

section \<open>Construction and the end of the connection\<close>

definition synchronizeLanguages :: "bytes list \<Rightarrow> 's client_proxy \<Rightarrow> 's client_proxy" where
  "synchronizeLanguages layouts p =
     (let localLayouts = getSerializedLocalLayouts \<lparr>m_localLayouts = layouts, m_remoteLayouts = []\<rparr> in
      if localLayouts \<noteq> [] then send kMsgDLanguageSynchronisation [Str_Arg localLayouts] p else p)"

definition cp_new :: "nat \<Rightarrow> bytes \<Rightarrow> bytes list \<Rightarrow> 's \<Rightarrow> 's client_proxy" where
  "cp_new version name layouts stream =
     (let clean = \<lparr>cc_clipboard = cb_init, cc_sequenceNumber = 0, cc_dirty = True\<rparr>;
          p = \<lparr>cp_version = version, cp_name = name, cp_stream = stream, cp_parser = Handshake,
               cp_info = \<lparr>ci_x = 0, ci_y = 0, ci_w = 0, ci_h = 0, ci_mx = 0, ci_my = 0\<rparr>,
               cp_clipboard = replicate 2 clean, cp_heartbeatAlarm = kHeartRate * kHeartBeatsUntilDeath,
               cp_heartbeatTimer = None, cp_keepAliveRate = 0, cp_keepAliveTimer = None, cp_handlers = True,
               cp_assembly = ([], assembly_init), cp_log = []\<rparr>;
          p = send kMsgQInfo [] p;
          p = (if version \<ge> 3 then setHeartbeatRate kKeepAliveRate (kKeepAliveRate * kKeepAlivesUntilDeath) p else p)
      in if version \<ge> 8 then synchronizeLanguages layouts p else p)"

definition cp_removeHandlers :: "'s client_proxy \<Rightarrow> 's client_proxy" where
  "cp_removeHandlers p = removeHeartbeatTimer (p\<lparr>cp_handlers := False\<rparr>)"

definition cp_disconnect :: "'s client_proxy \<Rightarrow> 's client_proxy" where
  "cp_disconnect p = cp_tell Ev_Disconnected (cp_tell Stream_Close (cp_removeHandlers p))"

definition cp_handleDisconnect :: "'s client_proxy \<Rightarrow> 's client_proxy" where
  "cp_handleDisconnect = cp_disconnect"

definition handleWriteError :: "'s client_proxy \<Rightarrow> 's client_proxy" where
  "handleWriteError = cp_disconnect"

definition handleFlatline :: "'s client_proxy \<Rightarrow> 's client_proxy" where
  "handleFlatline = cp_disconnect"

definition cp_close :: "string \<Rightarrow> 's client_proxy \<Rightarrow> 's client_proxy" where
  "cp_close msg p = cp_tell Stream_Flush (send msg [] p)"

section \<open>Calls from the server\<close>

definition getShape :: "'s client_proxy \<Rightarrow> i32 \<times> i32 \<times> i32 \<times> i32" where
  "getShape p = (let i = cp_info p in (ci_x i, ci_y i, ci_w i, ci_h i))"

definition getCursorPos :: "'s client_proxy \<Rightarrow> i32 \<times> i32" where
  "getCursorPos p = (ci_mx (cp_info p), ci_my (cp_info p))"

definition cp_getClipboard :: "byte \<Rightarrow> clipboard \<Rightarrow> 's client_proxy \<Rightarrow> clipboard option" where
  "cp_getClipboard cid dst p =
     map_option (\<lambda>(_, d, _). d) (copy memory_clipboard memory_clipboard dst (cc_clipboard (cp_clipboard p ! unat cid)))"

definition upd_clipboard :: "byte \<Rightarrow> (client_clipboard \<Rightarrow> client_clipboard) \<Rightarrow> 's client_proxy \<Rightarrow> 's client_proxy" where
  "upd_clipboard cid f p = p\<lparr>cp_clipboard := (cp_clipboard p)[unat cid := f (cp_clipboard p ! unat cid)]\<rparr>"

definition cp_setClipboardDirty :: "byte \<Rightarrow> bool \<Rightarrow> 's client_proxy \<Rightarrow> 's client_proxy" where
  "cp_setClipboardDirty cid dirty = upd_clipboard cid (\<lambda>c. c\<lparr>cc_dirty := dirty\<rparr>)"

definition cp_enter :: "i32 \<Rightarrow> i32 \<Rightarrow> u32 \<Rightarrow> u32 \<Rightarrow> 's client_proxy \<Rightarrow> 's client_proxy" where
  "cp_enter xAbs yAbs seqNum m = send kMsgCEnter (map Int_Arg [xAbs, yAbs, seqNum, m])"

definition cp_leave :: "'s client_proxy \<Rightarrow> 's client_proxy" where
  "cp_leave = send kMsgCLeave []"

text \<open>
  \<^verbatim>\<open>setClipboard\<close> does nothing before version 1.6. \<^const>\<open>None\<close>: copying fails an assertion or
  \<^verbatim>\<open>sendClipboard\<close> throws.
\<close>

definition cp_setClipboard :: "'s cp_env \<Rightarrow> byte \<Rightarrow> clipboard \<Rightarrow> 's client_proxy \<Rightarrow> 's client_proxy option" where
  "cp_setClipboard env cid c p =
     (let own = cp_clipboard p ! unat cid in
      if cp_version p \<ge> 6 \<and> cc_dirty own then
        (case copy memory_clipboard memory_clipboard (cc_clipboard own) c of
           None \<Rightarrow> None
         | Some (_, d, _) \<Rightarrow>
             (case cb_marshall d of (data, d) \<Rightarrow>
                let p = upd_clipboard cid (\<lambda>own. own\<lparr>cc_dirty := False, cc_clipboard := d\<rparr>) p in
                map_option (\<lambda>cs. cp_tell (Queued_Chunks cs) p)
                  (sendClipboard (p_number env) data (length data) cid 0)))
      else Some p)"

text \<open>The handler of \<^verbatim>\<open>ClipboardSending\<close>.\<close>

definition cp_sendChunk :: "clipboard_chunk \<Rightarrow> 's client_proxy \<Rightarrow> 's client_proxy" where
  "cp_sendChunk c = cp_tell (Sent_Chunk c)"

definition cp_grabClipboard :: "byte \<Rightarrow> 's client_proxy \<Rightarrow> 's client_proxy" where
  "cp_grabClipboard cid p =
     upd_clipboard cid (\<lambda>c. c\<lparr>cc_dirty := True\<rparr>) (send kMsgCClipboard [Int_Arg (ucast cid), Int_Arg 0] p)"

definition cp_keyDown :: "u32 \<Rightarrow> u32 \<Rightarrow> u16 \<Rightarrow> bytes \<Rightarrow> 's client_proxy \<Rightarrow> 's client_proxy" where
  "cp_keyDown key m button lang p =
     (if cp_version p \<ge> 8 then send kMsgDKeyDownLang [Int_Arg key, Int_Arg m, Int_Arg (ucast button), Str_Arg lang] p
      else if cp_version p \<ge> 1 then send kMsgDKeyDown [Int_Arg key, Int_Arg m, Int_Arg (ucast button)] p
      else send kMsgDKeyDown1_0 [Int_Arg key, Int_Arg m] p)"

definition cp_keyRepeat :: "u32 \<Rightarrow> u32 \<Rightarrow> i32 \<Rightarrow> u16 \<Rightarrow> bytes \<Rightarrow> 's client_proxy \<Rightarrow> 's client_proxy" where
  "cp_keyRepeat key m count button lang p =
     (if cp_version p \<ge> 1
      then send kMsgDKeyRepeat [Int_Arg key, Int_Arg m, Int_Arg count, Int_Arg (ucast button), Str_Arg lang] p
      else send kMsgDKeyRepeat1_0 [Int_Arg key, Int_Arg m, Int_Arg count] p)"

definition cp_keyUp :: "u32 \<Rightarrow> u32 \<Rightarrow> u16 \<Rightarrow> 's client_proxy \<Rightarrow> 's client_proxy" where
  "cp_keyUp key m button p =
     (if cp_version p \<ge> 1 then send kMsgDKeyUp [Int_Arg key, Int_Arg m, Int_Arg (ucast button)] p
      else send kMsgDKeyUp1_0 [Int_Arg key, Int_Arg m] p)"

definition cp_mouseDown :: "byte \<Rightarrow> 's client_proxy \<Rightarrow> 's client_proxy" where
  "cp_mouseDown b = send kMsgDMouseDown [Int_Arg (ucast b)]"

definition cp_mouseUp :: "byte \<Rightarrow> 's client_proxy \<Rightarrow> 's client_proxy" where
  "cp_mouseUp b = send kMsgDMouseUp [Int_Arg (ucast b)]"

definition cp_mouseMove :: "i32 \<Rightarrow> i32 \<Rightarrow> 's client_proxy \<Rightarrow> 's client_proxy" where
  "cp_mouseMove xAbs yAbs = send kMsgDMouseMove [Int_Arg xAbs, Int_Arg yAbs]"

definition cp_mouseRelativeMove :: "i32 \<Rightarrow> i32 \<Rightarrow> 's client_proxy \<Rightarrow> 's client_proxy" where
  "cp_mouseRelativeMove xRel yRel p =
     (if cp_version p \<ge> 2 then send kMsgDMouseRelMove [Int_Arg xRel, Int_Arg yRel] p else p)"

definition cp_mouseWheel :: "i32 \<Rightarrow> i32 \<Rightarrow> 's client_proxy \<Rightarrow> 's client_proxy" where
  "cp_mouseWheel xDelta yDelta p =
     (if cp_version p \<ge> 3 then send kMsgDMouseWheel [Int_Arg xDelta, Int_Arg yDelta] p
      else send kMsgDMouseWheel1_0 [Int_Arg yDelta] p)"

definition cp_screensaver :: "bool \<Rightarrow> 's client_proxy \<Rightarrow> 's client_proxy" where
  "cp_screensaver on = send kMsgCScreenSaver [Int_Arg (if on then 1 else 0)]"

definition cp_secureInput :: "bytes \<Rightarrow> 's client_proxy \<Rightarrow> 's client_proxy" where
  "cp_secureInput app p = (if cp_version p \<ge> 7 then send kMsgDSecureInputNotification [Str_Arg app] p else p)"

definition cp_resetOptions :: "'s client_proxy \<Rightarrow> 's client_proxy" where
  "cp_resetOptions p = addHeartbeatTimer (removeHeartbeatTimer (resetHeartbeatRate (send kMsgCResetOptions [] p)))"

definition heartbeat_option :: "u32 \<Rightarrow> 's client_proxy \<Rightarrow> 's client_proxy" where
  "heartbeat_option v p =
     (let rate = of_nat (unat v) / 1000; rate = (if rate \<le> 0 then -1 else rate)
      in addHeartbeatTimer (removeHeartbeatTimer (setHeartbeatRate rate (rate * kHeartBeatsUntilDeath) p)))"

fun cp_check_options :: "u32 list \<Rightarrow> 's client_proxy \<Rightarrow> 's client_proxy" where
  "cp_check_options (k # v # os) p = cp_check_options os (if k = kOptionHeartbeat then heartbeat_option v p else p)"
| "cp_check_options _ p = p"

definition cp_setOptions :: "u32 list \<Rightarrow> 's client_proxy \<Rightarrow> 's client_proxy" where
  "cp_setOptions os p =
     (if length os mod 2 \<noteq> 0 then p else cp_check_options os (send kMsgDSetOptions [Vec4_Arg os] p))"

section \<open>Messages from the client\<close>

type_synonym ('s, 'a) cp_action = "'s client_proxy \<Rightarrow> (stop + 'a) \<times> 's client_proxy"

text \<open>
  \<^verbatim>\<open>recvInfo\<close>: the shape is checked with integers; the position that replaces a cursor outside of
  the shape is cut to 16 bits.
\<close>

definition recvInfo :: "'s cp_env \<Rightarrow> ('s, bool) cp_action" where
  "recvInfo env p =
     (case readf (p_read env) (drop 4 kMsgDInfo) (cp_stream p) of
        (Inl e, s) \<Rightarrow> (Inl (Thrown e), p\<lparr>cp_stream := s\<rparr>)
      | (Inr (Some [Val2 x, Val2 y, Val2 w, Val2 h, _, Val2 mx, Val2 my]), s) \<Rightarrow>
          let p = p\<lparr>cp_stream := s\<rparr> in
          if sint w \<le> 0 \<or> sint h \<le> 0 then (Inr False, p)
          else
            let outside = sint mx < sint x \<or> sint mx \<ge> sint x + sint w \<or> sint my < sint y \<or> sint my \<ge> sint y + sint h;
                mx = (if outside then word_of_int (sint x + sint w div 2) else mx);
                my = (if outside then word_of_int (sint y + sint h div 2) else my) in
            (Inr True, send kMsgCInfoAck []
               (p\<lparr>cp_info := \<lparr>ci_x = scast x, ci_y = scast y, ci_w = scast w, ci_h = scast h,
                              ci_mx = scast mx, ci_my = scast my\<rparr>\<rparr>))
      | (Inr _, s) \<Rightarrow> (Inr False, p\<lparr>cp_stream := s\<rparr>))"

definition recvClipboard :: "'s cp_env \<Rightarrow> ('s, bool) cp_action" where
  "recvClipboard env p =
     (if cp_version p < 6 then (Inr False, p)
      else case assemble (p_read env) (p_parse env) (p_maximumClipboardSize env) (cp_stream p) (cp_assembly p) of
        (r, s, cl) \<Rightarrow>
          let p = p\<lparr>cp_stream := s, cp_assembly := cl\<rparr> in
          (case r of
             Inl e \<Rightarrow> (Inl (Thrown e), p)
           | Inr (Finished, Some (cid, seqNum)) \<Rightarrow>
               (case cb_unmarshall (fst cl) 0 (cc_clipboard (cp_clipboard p ! unat cid)) of
                  None \<Rightarrow> (Inl Bad_Access, p)
                | Some c \<Rightarrow>
                    (Inr True, cp_tell (Ev_Clipboard_Changed cid seqNum)
                       ((upd_clipboard cid (\<lambda>own. own\<lparr>cc_clipboard := c, cc_sequenceNumber := seqNum\<rparr>) p)
                          \<lparr>cp_assembly := ([], snd cl)\<rparr>)))
           | Inr (Finished, None) \<Rightarrow> (Inl Indeterminate, p)
           | Inr (Error, _) \<Rightarrow> (Inr False, p)
           | Inr _ \<Rightarrow> (Inr True, p)))"

definition recvGrabClipboard :: "'s cp_env \<Rightarrow> ('s, bool) cp_action" where
  "recvGrabClipboard env p =
     (case readf (p_read env) (drop 4 kMsgCClipboard) (cp_stream p) of
        (Inl e, s) \<Rightarrow> (Inl (Thrown e), p\<lparr>cp_stream := s\<rparr>)
      | (Inr (Some [Val1 cid, Val4 seqNum]), s) \<Rightarrow>
          let p = p\<lparr>cp_stream := s\<rparr> in
          if cid \<ge> kClipboardEnd then (Inr False, p) else (Inr True, cp_tell (Ev_Clipboard_Grabbed cid seqNum) p)
      | (Inr _, s) \<Rightarrow> (Inr False, p\<lparr>cp_stream := s\<rparr>))"

text \<open>\<^verbatim>\<open>ZCAP\<close>; the result of \<^verbatim>\<open>readf\<close> is ignored, a request cut short is the empty string.\<close>

definition recvCaptureRequest :: "'s cp_env \<Rightarrow> ('s, bool) cp_action" where
  "recvCaptureRequest env p =
     (case readf_got (p_read env) ''%s'' (cp_stream p) of
        (vs, e, s) \<Rightarrow>
          let p = p\<lparr>cp_stream := s\<rparr> in
          if e \<noteq> None \<and> e \<noteq> Some End_Of_Stream \<and> e \<noteq> Some Read_Mismatch then (Inl (Thrown (the e)), p)
          else if length (str vs 0) > 16384 then (Inr False, p)
          else (Inr True, send ''ZCAR%s'' [Str_Arg (p_capture env (str vs 0))] p))"

definition cp_parseHandshakeMessage :: "'s cp_env \<Rightarrow> bytes \<Rightarrow> ('s, bool) cp_action" where
  "cp_parseHandshakeMessage env code p =
     (if is_msg code kMsgCNoop then (Inr True, p)
      else if is_msg code kMsgDInfo then
        (case recvInfo env (p\<lparr>cp_parser := Messages\<rparr>) of
           (Inr True, p) \<Rightarrow> (Inr True, addHeartbeatTimer (cp_tell Ev_Ready p))
         | r \<Rightarrow> r)
      else (Inr False, p))"

definition parseMessage1_0 :: "'s cp_env \<Rightarrow> bytes \<Rightarrow> ('s, bool) cp_action" where
  "parseMessage1_0 env code p =
     (if is_msg code ''ZCAP'' then recvCaptureRequest env p
      else if is_msg code kMsgDInfo then
        (case recvInfo env p of (Inr True, p) \<Rightarrow> (Inr True, cp_tell Ev_Shape_Changed p) | r \<Rightarrow> r)
      else if is_msg code kMsgCNoop then (Inr True, p)
      else if is_msg code kMsgCClipboard then recvGrabClipboard env p
      else if is_msg code kMsgDClipboard then recvClipboard env p
      else (Inr False, p))"

text \<open>Version 1.3 adds the keep-alive, version 1.5 messages that it takes and ignores.\<close>

definition cp_parseMessage :: "'s cp_env \<Rightarrow> bytes \<Rightarrow> ('s, bool) cp_action" where
  "cp_parseMessage env code p =
     (if cp_version p \<ge> 5 \<and> (is_msg code kMsgDFileTransfer \<or> is_msg code kMsgDDragInfo) then (Inr True, p)
      else if cp_version p \<ge> 3 \<and> is_msg code kMsgCKeepAlive then (Inr True, resetHeartbeatTimer p)
      else parseMessage1_0 env code p)"

definition cp_parse :: "'s cp_env \<Rightarrow> bytes \<Rightarrow> ('s, bool) cp_action" where
  "cp_parse env code p =
     (case cp_parser p of
        Handshake \<Rightarrow> cp_parseHandshakeMessage env code p
      | Messages \<Rightarrow> cp_parseMessage env code p)"

text \<open>
  \<^verbatim>\<open>handleData\<close>, \<^const>\<open>None\<close> if it does not return; an exception other than that for a bad client
  leaves the handler.
\<close>

partial_function (option) cp_handleData :: "'s cp_env \<Rightarrow> 's client_proxy \<Rightarrow> (stop option \<times> 's client_proxy) option" where
  "cp_handleData env p =
     (case p_read env 4 (cp_stream p) of
        (code, s) \<Rightarrow>
          let p = p\<lparr>cp_stream := s\<rparr> in
          if code = [] then Some (None, resetHeartbeatTimer p)
          else if length code \<noteq> 4 then Some (None, cp_disconnect p)
          else
            (case cp_parse env code p of
               (Inr parsed, p) \<Rightarrow>
                 if parsed then cp_handleData env p
                 else (case discard (p_read env) (cp_stream p) of
                         None \<Rightarrow> None
                       | Some s \<Rightarrow> cp_handleData env (p\<lparr>cp_stream := s\<rparr>))
             | (Inl e, p) \<Rightarrow>
                 if e = Thrown Bad_Client then Some (None, cp_disconnect p) else Some (Some e, p)))"

end
