(* ===== verification/Client_Proxy_Props.thy ===== *)
theory Client_Proxy_Props
  imports Client_Proxy Proxy_Props
begin

text \<open>
  Properties of the server's proxies: the loop over a client's messages returns, the shape a
  client announces, the handshake, and the timers of the heartbeat.
\<close>

section \<open>The loop ends\<close>

lemma timers_stream [simp]:
  "cp_stream (add_alarm p) = cp_stream p" "cp_stream (remove_alarm p) = cp_stream p"
  "cp_stream (addHeartbeatTimer p) = cp_stream p" "cp_stream (removeHeartbeatTimer p) = cp_stream p"
  "cp_stream (resetHeartbeatTimer p) = cp_stream p" "cp_stream (cp_tell e p) = cp_stream p"
  "cp_stream (send fmt as p) = cp_stream p" "cp_stream (upd_clipboard cid f p) = cp_stream p"
  "cp_stream (cp_disconnect p) = cp_stream p"
  by (simp_all add: add_alarm_def remove_alarm_def addHeartbeatTimer_def removeHeartbeatTimer_def
      resetHeartbeatTimer_def cp_tell_def send_def upd_clipboard_def cp_disconnect_def cp_removeHandlers_def)

definition cp_react ::
    "'s cp_env \<Rightarrow> (stop + bool) \<times> 's client_proxy \<Rightarrow> (stop option \<times> 's client_proxy) option" where
  "cp_react env x =
     (case x of
        (Inr parsed, p) \<Rightarrow>
          if parsed then cp_handleData env p
          else (case discard (p_read env) (cp_stream p) of
                  None \<Rightarrow> None | Some s \<Rightarrow> cp_handleData env (p\<lparr>cp_stream := s\<rparr>))
      | (Inl e, p) \<Rightarrow> if e = Thrown Bad_Client then Some (None, cp_disconnect p) else Some (Some e, p))"

lemma cp_handleData_round:
  assumes "p_read env 4 (cp_stream p) = (code, s)"
  shows "cp_handleData env p =
    (if code = [] then Some (None, resetHeartbeatTimer (p\<lparr>cp_stream := s\<rparr>))
     else if length code \<noteq> 4 then Some (None, cp_disconnect (p\<lparr>cp_stream := s\<rparr>))
     else cp_react env (cp_parse env code (p\<lparr>cp_stream := s\<rparr>)))"
  using assms by (subst cp_handleData.simps) (simp add: Let_def cp_react_def)

lemma snd_readf: "snd (readf rd fmt s) = snd (snd (readf_got rd fmt s))"
  by (simp add: readf_def readf_got_def got_vreadf [symmetric] as_reader_def split: option.split prod.split sum.split)

lemma fst_snd_assemble: "fst (snd (assemble rd parse n s cl)) = snd (readf rd (drop 4 kMsgDClipboard) s)"
  by (auto simp: assemble_def split: prod.split sum.split option.split list.split val.split)

lemma recvInfo_stream: "cp_stream (snd (recvInfo env p)) = snd (readf (p_read env) (drop 4 kMsgDInfo) (cp_stream p))"
  by (auto simp: recvInfo_def Let_def split: prod.split sum.split option.split list.split val.split)

lemma recvGrabClipboard_stream:
  "cp_stream (snd (recvGrabClipboard env p)) = snd (readf (p_read env) (drop 4 kMsgCClipboard) (cp_stream p))"
  by (auto simp: recvGrabClipboard_def Let_def split: prod.split sum.split option.split list.split val.split)

lemma recvCaptureRequest_stream:
  "cp_stream (snd (recvCaptureRequest env p)) = snd (snd (readf_got (p_read env) ''%s'' (cp_stream p)))"
  by (auto simp: recvCaptureRequest_def Let_def split: prod.split)

lemma recvClipboard_stream:
  "cp_stream (snd (recvClipboard env p)) =
    (if cp_version p < 6 then cp_stream p else snd (readf (p_read env) (drop 4 kMsgDClipboard) (cp_stream p)))"
  using fst_snd_assemble [of "p_read env" "p_parse env" "p_maximumClipboardSize env" "cp_stream p" "cp_assembly p"]
  by (auto simp: recvClipboard_def Let_def split: prod.split sum.split option.split transfer_state.split)

context byte_source
begin

lemma readf_behind: "ok s \<Longrightarrow> behind s (snd (readf rd fmt s))"
  using readf_got_consumes [of s] by (simp add: behind_def snd_readf)

lemma cp_parse_behind:
  assumes "p_read env = rd" and "ok (cp_stream p)"
  shows "behind (cp_stream p) (cp_stream (snd (cp_parse env code p)))"
proof -
  note streams = recvInfo_stream recvGrabClipboard_stream recvCaptureRequest_stream recvClipboard_stream
  have r: "behind (cp_stream p) (cp_stream (snd (recvInfo env p)))"
    "behind (cp_stream p) (cp_stream (snd (recvGrabClipboard env p)))"
    "behind (cp_stream p) (cp_stream (snd (recvCaptureRequest env p)))"
    "behind (cp_stream p) (cp_stream (snd (recvClipboard env p)))"
    "behind (cp_stream p) (cp_stream (snd (recvInfo env (p\<lparr>cp_parser := Messages\<rparr>))))"
    using readf_behind assms readf_got_consumes [of "cp_stream p"] behind_refl [OF assms(2)]
    by (simp_all add: streams) (simp_all add: behind_def)
  have 1: "behind (cp_stream p) (cp_stream (snd (parseMessage1_0 env code p)))"
    using r behind_refl [OF assms(2)]
    by (auto simp: parseMessage1_0_def split: prod.splits sum.splits bool.splits)
  then have "behind (cp_stream p) (cp_stream (snd (cp_parseMessage env code p)))"
    using behind_refl [OF assms(2)] by (simp add: cp_parseMessage_def)
  moreover have "behind (cp_stream p) (cp_stream (snd (cp_parseHandshakeMessage env code p)))"
    using r(5) behind_refl [OF assms(2)]
    by (auto simp: cp_parseHandshakeMessage_def split: prod.splits sum.splits bool.splits)
  ultimately show ?thesis by (simp add: cp_parse_def split: message_parser.split)
qed

lemma cp_loop_returns:
  assumes "p_read env = rd"
  shows "ok (cp_stream p) \<Longrightarrow> \<exists>r p'. cp_handleData env p = Some (r, p') \<and> behind (cp_stream p) (cp_stream p') \<and>
    (r = None \<longrightarrow> avail (cp_stream p') = [] \<or> Ev_Disconnected \<in> set (cp_log p'))"
proof (induction "length (avail (cp_stream p))" arbitrary: p rule: less_induct)
  case less
  obtain code s where rd: "rd 4 (cp_stream p) = (code, s)" by fastforce
  let ?p = "p\<lparr>cp_stream := s\<rparr>"
  note round = cp_handleData_round [of env p code s, unfolded assms cp_react_def, OF rd]
  have gone: "Ev_Disconnected \<in> set (cp_log (cp_disconnect q))" for q :: "'s client_proxy" by (simp add: cp_disconnect_def cp_tell_def)
  from rd less.prems have s: "behind (cp_stream p) s" "avail (cp_stream p) = code @ avail s"
    using behind_rd [of "cp_stream p" 4] rd_avail [of "cp_stream p" 4] by auto
  consider "code = []" | "code \<noteq> []" "length code \<noteq> 4" | "length code = 4" by auto
  then show ?case
  proof cases
    case 1
    then have "avail (cp_stream p) = []" using rd rd_progress [OF less.prems, of 4] by auto
    then show ?thesis using 1 s by (simp add: round)
  next
    case 2
    then show ?thesis using s(1) gone by (simp add: round)
  next
    case 3
    obtain r q where pm: "cp_parse env code ?p = (r, q)" by fastforce
    have sq: "behind s (cp_stream q)"
      using cp_parse_behind [OF assms, of ?p code] pm s(1) by (simp add: behind_def)
    have onward: "\<exists>r p'. cp_handleData env q' = Some (r, p') \<and> behind (cp_stream p) (cp_stream p') \<and>
        (r = None \<longrightarrow> avail (cp_stream p') = [] \<or> Ev_Disconnected \<in> set (cp_log p'))" if "behind s (cp_stream q')" for q'
      using less.hyps [of q'] that s 3 behind_trans by (fastforce simp: behind_def dest: suffix_length_le)
    obtain s' where s': "discard rd (cp_stream q) = Some s'" "behind s s'"
      using discard_returns [of "cp_stream q"] sq behind_trans [OF sq] by (auto simp: behind_def)
    show ?thesis
    proof (cases r)
      case (Inl e)
      then show ?thesis using 3 pm behind_trans [OF s(1) sq] gone by (auto simp: round)
    next
      case (Inr parsed)
      then show ?thesis
        using 3 pm s'(1) onward [OF sq] onward [of "q\<lparr>cp_stream := s'\<rparr>"] s'(2) by (auto simp: round)
    qed
  qed
qed

end

text \<open>
  C18. The loop over a client's messages returns whatever bytes the client sends: on the packet
  filter it ends having taken every complete packet, or with the client disconnected, unless an
  exception leaves it.
\<close>

theorem cp_handleData_returns:
  assumes "p_read env = ps_rd" and "ps_inv (cp_stream p)"
  shows "\<exists>r p'. cp_handleData env p = Some (r, p') \<and> ps_inv (cp_stream p') \<and>
    ((\<exists>e. r = Some e) \<or> ps_avail (cp_stream p') = [] \<or> Ev_Disconnected \<in> set (cp_log p'))"
  using pfs.cp_loop_returns [OF assms] by (auto simp: pfs.behind_def)

section \<open>Steps\<close>

text \<open>What the server calls on its proxy, by the names of the client's calls; \<^const>\<open>None\<close> as in the operations.\<close>

fun cp_do :: "'s cp_env \<Rightarrow> client_call \<Rightarrow> 's client_proxy \<Rightarrow> 's client_proxy option" where
  "cp_do env Handshake_Complete p = Some p"
| "cp_do env (Enter x y seqNum m) p = Some (cp_enter x y seqNum m p)"
| "cp_do env Leave p = Some (cp_leave p)"
| "cp_do env (Set_Clipboard cid c) p = cp_setClipboard env cid c p"
| "cp_do env (Grab_Clipboard cid) p = Some (cp_grabClipboard cid p)"
| "cp_do env (Key_Down k m b lang) p = Some (cp_keyDown k m b lang p)"
| "cp_do env (Key_Repeat k m n b lang) p = Some (cp_keyRepeat k m n b lang p)"
| "cp_do env (Key_Up k m b) p = Some (cp_keyUp k m b p)"
| "cp_do env (Mouse_Down b) p = Some (cp_mouseDown b p)"
| "cp_do env (Mouse_Up b) p = Some (cp_mouseUp b p)"
| "cp_do env (Mouse_Move x y) p = Some (cp_mouseMove x y p)"
| "cp_do env (Mouse_Relative_Move x y) p = Some (cp_mouseRelativeMove x y p)"
| "cp_do env (Mouse_Wheel x y) p = Some (cp_mouseWheel x y p)"
| "cp_do env (Screensaver on) p = Some (cp_screensaver on p)"
| "cp_do env Reset_Options p = Some (cp_resetOptions p)"
| "cp_do env (Set_Options os) p = Some (cp_setOptions os p)"

text \<open>
  Any event may come next while its handler is installed; the timers may fire at any time, since
  a timer that the handshake overwrites keeps running.
\<close>

inductive cp_step :: "'s cp_env \<Rightarrow> 's client_proxy \<Rightarrow> 's client_proxy \<Rightarrow> bool" for env where
  data: "\<lbrakk>cp_handlers p; cp_handleData env p = Some (r, p')\<rbrakk> \<Longrightarrow> cp_step env p p'"
| flatline: "cp_handlers p \<Longrightarrow> cp_step env p (handleFlatline p)"
| write_error: "cp_handlers p \<Longrightarrow> cp_step env p (handleWriteError p)"
| hung_up: "cp_handlers p \<Longrightarrow> cp_step env p (cp_handleDisconnect p)"
| keep_alive: "cp_step env p (cp_keepAlive p)"
| sending: "cp_step env p (cp_sendChunk c p)"
| called: "cp_do env k p = Some p' \<Longrightarrow> cp_step env p p'"
| dirty: "cp_step env p (cp_setClipboardDirty cid b p)"
| secure: "cp_step env p (cp_secureInput app p)"
| closed: "cp_step env p (cp_close msg p)"
| arrived: "cp_step env p (p\<lparr>cp_stream := s\<rparr>)"

inductive cp_reachable :: "'s cp_env \<Rightarrow> 's client_proxy \<Rightarrow> bool" for env where
  init: "cp_reachable env (cp_new version name layouts s)"
| step: "\<lbrakk>cp_reachable env p; cp_step env p p'\<rbrakk> \<Longrightarrow> cp_reachable env p'"

section \<open>Watching the client\<close>

definition readies :: "'s client_proxy \<Rightarrow> nat" where
  "readies p = length (filter ((=) Ev_Ready) (cp_log p))"

definition watched :: "'s client_proxy \<Rightarrow> bool" where
  "watched p \<longleftrightarrow> (cp_heartbeatAlarm p > 0 \<longrightarrow> cp_heartbeatTimer p = Some (cp_heartbeatAlarm p)) \<and>
     (cp_version p \<ge> 3 \<and> cp_keepAliveRate p > 0 \<longrightarrow> cp_keepAliveTimer p = Some (cp_keepAliveRate p))"

definition cp_inv :: "'s client_proxy \<Rightarrow> bool" where
  "cp_inv p \<longleftrightarrow>
     (cp_version p \<ge> 3 \<longrightarrow> cp_heartbeatAlarm p = cp_keepAliveRate p * kKeepAlivesUntilDeath) \<and>
     readies p \<le> (if cp_parser p = Messages then 1 else 0) \<and>
     (readies p > 0 \<and> cp_handlers p \<longrightarrow> watched p)"

text \<open>Operations that touch neither the timers nor the handshake.\<close>

definition cp_same :: "'s client_proxy \<Rightarrow> 's client_proxy \<Rightarrow> bool" where
  "cp_same p p' \<longleftrightarrow> cp_version p' = cp_version p \<and> cp_parser p' = cp_parser p \<and> cp_handlers p' = cp_handlers p \<and>
     cp_heartbeatAlarm p' = cp_heartbeatAlarm p \<and> cp_heartbeatTimer p' = cp_heartbeatTimer p \<and>
     cp_keepAliveRate p' = cp_keepAliveRate p \<and> cp_keepAliveTimer p' = cp_keepAliveTimer p \<and> readies p' = readies p"

lemma cp_same_inv: "\<lbrakk>cp_same p p'; cp_inv p\<rbrakk> \<Longrightarrow> cp_inv p'"
  by (simp add: cp_same_def cp_inv_def watched_def)

lemma cp_same_refl [simp]: "cp_same p p"
  by (simp add: cp_same_def)

lemma cp_same_trans: "\<lbrakk>cp_same p p'; cp_same p' p''\<rbrakk> \<Longrightarrow> cp_same p p''"
  by (simp add: cp_same_def)

lemma cp_same_simps [simp]:
  "e \<noteq> Ev_Ready \<Longrightarrow> cp_same p (cp_tell e p') = cp_same p p'" "cp_same p (send fmt as p') = cp_same p p'"
  "cp_same p (p'\<lparr>cp_stream := s\<rparr>) = cp_same p p'" "cp_same p (upd_clipboard cid f p') = cp_same p p'"
  "cp_same p (p'\<lparr>cp_info := i\<rparr>) = cp_same p p'" "cp_same p (p'\<lparr>cp_assembly := a\<rparr>) = cp_same p p'"
  by (simp_all add: cp_same_def cp_tell_def send_def readies_def upd_clipboard_def)

lemma same_recv:
  "cp_same p (snd (recvInfo env p))" "cp_same p (snd (recvGrabClipboard env p))"
  "cp_same p (snd (recvCaptureRequest env p))" "cp_same p (snd (recvClipboard env p))"
  by (auto simp: recvInfo_def Let_def split: prod.split sum.split option.split list.split val.split)
    (auto simp: recvGrabClipboard_def recvCaptureRequest_def recvClipboard_def Let_def
      split: prod.split sum.split option.split list.split val.split transfer_state.split)

lemma same_parse1_0: "cp_same p (snd (parseMessage1_0 env code p))"
  using same_recv [of p env] by (auto simp: parseMessage1_0_def split: prod.splits sum.splits bool.splits)

lemmas timer_defs = add_alarm_def remove_alarm_def addHeartbeatTimer_def removeHeartbeatTimer_def
  resetHeartbeatTimer_def cp_tell_def

lemma watched_add: "watched (addHeartbeatTimer p)"
  by (auto simp: watched_def timer_defs)

lemma watched_reset: "watched p \<Longrightarrow> watched (resetHeartbeatTimer p)"
  by (auto simp: watched_def timer_defs)

lemma timers_keep [simp]:
  "cp_version (addHeartbeatTimer p) = cp_version p" "cp_version (removeHeartbeatTimer p) = cp_version p"
  "cp_parser (addHeartbeatTimer p) = cp_parser p" "cp_parser (removeHeartbeatTimer p) = cp_parser p"
  "cp_handlers (addHeartbeatTimer p) = cp_handlers p" "cp_handlers (removeHeartbeatTimer p) = cp_handlers p"
  "cp_heartbeatAlarm (addHeartbeatTimer p) = cp_heartbeatAlarm p" "cp_heartbeatAlarm (removeHeartbeatTimer p) = cp_heartbeatAlarm p"
  "cp_keepAliveRate (addHeartbeatTimer p) = cp_keepAliveRate p" "cp_keepAliveRate (removeHeartbeatTimer p) = cp_keepAliveRate p"
  "readies (addHeartbeatTimer p) = readies p" "readies (removeHeartbeatTimer p) = readies p"
  by (simp_all add: timer_defs readies_def)

lemma reset_keep [simp]:
  "cp_version (resetHeartbeatTimer p) = cp_version p" "cp_parser (resetHeartbeatTimer p) = cp_parser p"
  "cp_handlers (resetHeartbeatTimer p) = cp_handlers p" "cp_heartbeatAlarm (resetHeartbeatTimer p) = cp_heartbeatAlarm p"
  "cp_keepAliveRate (resetHeartbeatTimer p) = cp_keepAliveRate p" "readies (resetHeartbeatTimer p) = readies p"
  by (simp_all add: timer_defs readies_def)

lemma tell_keep [simp]:
  "cp_version (cp_tell e p) = cp_version p" "cp_parser (cp_tell e p) = cp_parser p"
  "cp_handlers (cp_tell e p) = cp_handlers p" "cp_heartbeatAlarm (cp_tell e p) = cp_heartbeatAlarm p"
  "cp_keepAliveRate (cp_tell e p) = cp_keepAliveRate p"
  "readies (cp_tell e p) = readies p + (if e = Ev_Ready then 1 else 0)"
  by (simp_all add: cp_tell_def readies_def)

lemma inv_reset: "cp_inv p \<Longrightarrow> cp_inv (resetHeartbeatTimer p)"
  using watched_reset by (auto simp: cp_inv_def)

lemma inv_restart: "cp_inv p \<Longrightarrow> cp_inv (addHeartbeatTimer (removeHeartbeatTimer p))"
  using watched_add by (auto simp: cp_inv_def)

lemma inv_rate:
  assumes "cp_inv p"
  shows "cp_inv (addHeartbeatTimer (removeHeartbeatTimer (setHeartbeatRate rate alarm p)))"
  using assms watched_add by (auto simp: cp_inv_def setHeartbeatRate_def readies_def [of "p\<lparr>cp_keepAliveRate := a, cp_heartbeatAlarm := b\<rparr>" for a b]
      readies_def [of "p\<lparr>cp_heartbeatAlarm := b\<rparr>" for b] readies_def [of p])

lemma inv_disconnect: "cp_inv p \<Longrightarrow> cp_inv (cp_disconnect p)"
  by (auto simp: cp_inv_def cp_disconnect_def cp_removeHandlers_def timer_defs readies_def)

lemma inv_parse:
  assumes "cp_inv p"
  shows "cp_inv (snd (cp_parse env code p))"
proof (cases "cp_parser p")
  case Messages
  then show ?thesis
    using assms inv_reset [OF assms] cp_same_inv [OF same_parse1_0 assms] by (auto simp: cp_parse_def cp_parseMessage_def)
next
  case Handshake
  let ?p = "p\<lparr>cp_parser := Messages\<rparr>"
  have z: "readies p = 0" using assms Handshake by (simp add: cp_inv_def)
  then have "cp_inv ?p" using assms by (simp add: cp_inv_def readies_def)
  then have r: "cp_inv (snd (recvInfo env ?p))" by (rule cp_same_inv [OF same_recv(1)])
  have "cp_same ?p (snd (recvInfo env ?p))" by (rule same_recv)
  then have rd: "readies (snd (recvInfo env ?p)) = 0" "cp_parser (snd (recvInfo env ?p)) = Messages"
    using z by (simp_all add: cp_same_def readies_def)
  have "cp_inv (addHeartbeatTimer (cp_tell Ev_Ready (snd (recvInfo env ?p))))"
    using r rd watched_add [of "cp_tell Ev_Ready (snd (recvInfo env ?p))"]
    by (simp add: cp_inv_def)
  with r assms Handshake show ?thesis
    by (auto simp: cp_parse_def cp_parseHandshakeMessage_def split: prod.splits sum.splits bool.splits)
qed

text \<open>What every round of the loop keeps holds at its end, up to the disconnection.\<close>

lemma cp_handleData_keeps:
  assumes run: "cp_handleData env p = Some rp" and start: "P p"
    and stream: "\<And>p s. P p \<Longrightarrow> P (p\<lparr>cp_stream := s\<rparr>)" and parse: "\<And>p code. P p \<Longrightarrow> P (snd (cp_parse env code p))"
    and ends: "\<And>p. P p \<Longrightarrow> Q p" "\<And>p. P p \<Longrightarrow> Q (resetHeartbeatTimer p)" "\<And>p. P p \<Longrightarrow> Q (cp_disconnect p)"
  shows "Q (snd rp)"
proof -
  let ?R = "\<lambda>e p rp. e = env \<longrightarrow> P p \<longrightarrow> Q (snd rp)"
  have "?R env p rp"
  proof (rule cp_handleData.raw_induct [of ?R, OF _ run])
    fix f and e :: "'a cp_env" and p rp
    assume IH: "\<And>e p rp. f e p = Some rp \<Longrightarrow> ?R e p rp"
      and body: "(case p_read e 4 (cp_stream p) of
        (code, s) \<Rightarrow>
          let p = p\<lparr>cp_stream := s\<rparr> in
          if code = [] then Some (None, resetHeartbeatTimer p)
          else if length code \<noteq> 4 then Some (None, cp_disconnect p)
          else
            (case cp_parse e code p of
               (Inl x, p) \<Rightarrow>
                 if x = Thrown Bad_Client then Some (None, cp_disconnect p) else Some (Some x, p)
             | (Inr parsed, p) \<Rightarrow>
                 if parsed then f e p
                 else (case discard (p_read e) (cp_stream p) of
                         None \<Rightarrow> None
                       | Some s \<Rightarrow> f e (p\<lparr>cp_stream := s\<rparr>)))) = Some rp"
    obtain code s where rd: "p_read e 4 (cp_stream p) = (code, s)" by fastforce
    let ?p = "p\<lparr>cp_stream := s\<rparr>"
    obtain r q where pm: "cp_parse e code ?p = (r, q)" by fastforce
    show "?R e p rp"
    proof (intro impI)
      assume e: "e = env" and "P p"
      then have p: "P ?p" using stream by blast
      then have q: "P q" using parse [of ?p code] pm e by simp
      then have q': "P (q\<lparr>cp_stream := t\<rparr>)" for t by (rule stream)
      show "Q (snd rp)"
        using body IH [of e q rp] IH [of e "q\<lparr>cp_stream := t\<rparr>" rp for t] p q q' ends e
        by (auto simp: rd [unfolded e] pm [unfolded e] Let_def split: if_splits sum.splits option.splits)
    qed
  qed
  with start show ?thesis by simp
qed

lemma inv_handleData: "\<lbrakk>cp_handleData env p = Some rp; cp_inv p\<rbrakk> \<Longrightarrow> cp_inv (snd rp)"
  by (erule cp_handleData_keeps [where P = cp_inv and Q = cp_inv])
    (simp_all add: inv_parse inv_reset inv_disconnect cp_same_inv [rotated])

lemma inv_check_options: "cp_inv p \<Longrightarrow> cp_inv (cp_check_options os p)"
  by (induction os p rule: cp_check_options.induct) (simp_all add: heartbeat_option_def Let_def inv_rate)

lemma inv_same [intro]: "cp_inv p \<Longrightarrow> cp_same p p' \<Longrightarrow> cp_inv p'"
  by (rule cp_same_inv)

lemma inv_do:
  assumes "cp_do env k p = Some p'" and "cp_inv p"
  shows "cp_inv p'"
proof (cases k)
  case (Set_Clipboard cid c)
  then have "cp_same p p'"
    using assms(1) by (auto simp: cp_setClipboard_def Let_def split: if_splits option.splits prod.splits)
  then show ?thesis using assms(2) by (rule cp_same_inv)
next
  case Reset_Options
  have "cp_inv (send kMsgCResetOptions [] p)" by (rule inv_same [OF assms(2)]) simp
  then show ?thesis using Reset_Options assms(1) by (auto simp: cp_resetOptions_def resetHeartbeatRate_def intro: inv_rate)
next
  case (Set_Options os)
  have "cp_inv (send kMsgDSetOptions [Vec4_Arg os] p)" by (rule inv_same [OF assms(2)]) simp
  then show ?thesis using Set_Options assms by (auto simp: cp_setOptions_def inv_check_options split: if_splits)
qed (use assms in \<open>auto simp: cp_enter_def cp_leave_def cp_grabClipboard_def cp_keyDown_def cp_keyRepeat_def cp_keyUp_def
    cp_mouseDown_def cp_mouseUp_def cp_mouseMove_def cp_mouseRelativeMove_def cp_mouseWheel_def cp_screensaver_def\<close>)

lemma inv_step: "\<lbrakk>cp_step env p p'; cp_inv p\<rbrakk> \<Longrightarrow> cp_inv p'"
proof (induction rule: cp_step.induct)
  case (data p r p')
  then show ?case using inv_handleData [of env p "(r, p')"] by simp
qed (auto simp: handleFlatline_def handleWriteError_def cp_handleDisconnect_def inv_disconnect cp_keepAlive_def
    cp_sendChunk_def inv_do cp_setClipboardDirty_def cp_secureInput_def cp_close_def)

lemma inv_new: "cp_inv (cp_new version name layouts s)"
  by (auto simp: cp_inv_def cp_new_def synchronizeLanguages_def setHeartbeatRate_def send_def cp_tell_def readies_def Let_def)

lemma reachable_inv: "cp_reachable env p \<Longrightarrow> cp_inv p"
  by (induction rule: cp_reachable.induct) (auto simp: inv_new intro: inv_step)

text \<open>
  C17. A client is ready at most once, and from then on it is watched until the connection is
  closed: while the proxy has its handlers, the timer that declares the client dead runs with
  the current alarm, and from version 1.3 on the timer of the keep-alives runs with a third of
  it, in every order of messages, options, timers and calls.
\<close>

theorem ready_client_watched:
  assumes "cp_reachable env p" and "Ev_Ready \<in> set (cp_log p)"
  shows "length (filter ((=) Ev_Ready) (cp_log p)) = 1 \<and> cp_parser p = Messages \<and>
    (\<not> cp_handlers p \<or>
     (cp_heartbeatAlarm p \<le> 0 \<or> cp_heartbeatTimer p = Some (cp_heartbeatAlarm p)) \<and>
     (cp_version p < 3 \<or> cp_keepAliveRate p \<le> 0 \<or> cp_keepAliveTimer p = Some (cp_keepAliveRate p)) \<and>
     (cp_version p < 3 \<or> cp_heartbeatAlarm p = 3 * cp_keepAliveRate p))"
proof -
  have inv: "cp_inv p" by (rule reachable_inv [OF assms(1)])
  have "0 < readies p"
    using assms(2) by (auto simp: readies_def filter_empty_conv)
  with inv have "readies p = 1" "cp_parser p = Messages" "cp_handlers p \<longrightarrow> watched p"
    by (auto simp: cp_inv_def split: if_splits)
  with inv show ?thesis by (auto simp: readies_def watched_def cp_inv_def kKeepAlivesUntilDeath_def)
qed

section \<open>The announced shape\<close>

lemma sint_widened [simp]: "sint (scast (x :: u16) :: i32) = sint x"
  by transfer (simp add: signed_take_bit_signed_take_bit)

lemma sint_16:
  assumes "- (2 ^ 15) \<le> k" and "k < 2 ^ 15"
  shows "sint (word_of_int k :: u16) = k"
  using assms signed_take_bit_int_eq_self [of 15 k] by (simp add: sint_sbintrunc')

lemma sint_16_range: "- (2 ^ 15) \<le> sint (x :: u16)" "sint (x :: u16) < 2 ^ 15"
  using sint_greater_eq [of x] sint_less [of x] by simp_all

text \<open>The middle of a side.\<close>

lemma middle:
  fixes x w :: u16
  assumes "0 < sint w" and "sint x + sint w \<le> 2 ^ 15"
  shows "sint x \<le> sint (word_of_int (sint x + sint w div 2) :: u16) \<and>
    sint (word_of_int (sint x + sint w div 2) :: u16) < sint x + sint w"
proof -
  have "sint w div 2 < sint w" "0 \<le> sint w div 2" using assms(1) by auto
  then have "- (2 ^ 15) \<le> sint x + sint w div 2" "sint x + sint w div 2 < 2 ^ 15"
    using sint_16_range [of x] assms(2) by linarith+
  from sint_16 [OF this] show ?thesis using \<open>sint w div 2 < sint w\<close> \<open>0 \<le> sint w div 2\<close> by simp
qed

text \<open>
  A shape is taken only if it has a positive size, it is then acknowledged, and the cursor the
  proxy remembers lies within the shape, whatever position the client claimed, as long as the
  shape ends within 16 bits.
\<close>

theorem announced_shape_valid:
  assumes "recvInfo env p = (Inr True, p')"
    and "sint (ci_x (cp_info p')) + sint (ci_w (cp_info p')) \<le> 2 ^ 15"
    and "sint (ci_y (cp_info p')) + sint (ci_h (cp_info p')) \<le> 2 ^ 15"
  shows "0 < sint (ci_w (cp_info p')) \<and> 0 < sint (ci_h (cp_info p')) \<and>
    cp_log p' = cp_log p @ [Sent kMsgCInfoAck []] \<and>
    sint (ci_x (cp_info p')) \<le> sint (ci_mx (cp_info p')) \<and>
    sint (ci_mx (cp_info p')) < sint (ci_x (cp_info p')) + sint (ci_w (cp_info p')) \<and>
    sint (ci_y (cp_info p')) \<le> sint (ci_my (cp_info p')) \<and>
    sint (ci_my (cp_info p')) < sint (ci_y (cp_info p')) + sint (ci_h (cp_info p'))"
proof -
  obtain r s where rd: "readf (p_read env) (drop 4 kMsgDInfo) (cp_stream p) = (r, s)" by fastforce
  obtain x y w h d mx my where r: "r = Inr (Some [Val2 x, Val2 y, Val2 w, Val2 h, d, Val2 mx, Val2 my])"
    using assms(1) by (auto simp: recvInfo_def rd split: sum.splits option.splits list.splits val.splits)
  have pos: "\<not> (sint w \<le> 0 \<or> sint h \<le> 0)"
    using assms(1) by (auto simp: recvInfo_def rd r Let_def split: if_splits)
  let ?out = "sint mx < sint x \<or> sint mx \<ge> sint x + sint w \<or> sint my < sint y \<or> sint my \<ge> sint y + sint h"
  have p': "p' = send kMsgCInfoAck [] (p\<lparr>cp_stream := s, cp_info :=
      \<lparr>ci_x = scast x, ci_y = scast y, ci_w = scast w, ci_h = scast h,
       ci_mx = scast (if ?out then word_of_int (sint x + sint w div 2) else mx),
       ci_my = scast (if ?out then word_of_int (sint y + sint h div 2) else my)\<rparr>\<rparr>)"
    using assms(1) pos by (simp add: recvInfo_def rd r Let_def)
  have i: "ci_x (cp_info p') = scast x" "ci_y (cp_info p') = scast y" "ci_w (cp_info p') = scast w" "ci_h (cp_info p') = scast h"
    "ci_mx (cp_info p') = scast (if ?out then word_of_int (sint x + sint w div 2) else mx)"
    "ci_my (cp_info p') = scast (if ?out then word_of_int (sint y + sint h div 2) else my)"
    "cp_log p' = cp_log p @ [Sent kMsgCInfoAck []]"
    by (simp_all add: p' send_def cp_tell_def)
  have "sint x + sint w \<le> 2 ^ 15" "sint y + sint h \<le> 2 ^ 15" using assms(2,3) by (simp_all add: i)
  then show ?thesis
    using middle [of w x] middle [of h y] pos by (cases ?out) (simp_all add: i)
qed

section \<open>Examples\<close>

definition demo_cp_env :: "packet_filter cp_env" where
  "demo_cp_env = \<lparr>p_read = ps_rd, p_parse = (\<lambda>_. None), p_number = (\<lambda>_. [48]), p_maximumClipboardSize = 1024,
     p_capture = (\<lambda>_. [])\<rparr>"

lemma cp_new_stream [simp]: "cp_stream (cp_new version name layouts s) = s"
  by (simp add: cp_new_def synchronizeLanguages_def setHeartbeatRate_def send_def cp_tell_def Let_def)

lemma cp_handleData_returns_witness:
  "\<exists>r p'. cp_handleData demo_cp_env (cp_new 8 [] [] pf_init) = Some (r, p') \<and> ps_inv (cp_stream p') \<and>
    ((\<exists>e. r = Some e) \<or> ps_avail (cp_stream p') = [] \<or> Ev_Disconnected \<in> set (cp_log p'))"
  by (rule cp_handleData_returns) (simp_all add: demo_cp_env_def ps_inv_init)

end
