(* ===== verification/Session.thy ===== *)
theory Session
  imports Client_Proxy_Props Proxy_Input Proxy_Errors
begin

text \<open>
  Both ends of a connection together: what the server calls on its proxy for a client arrives at
  the client as the same call, and what the client reports arrives at the server. Each message is
  one packet; it is written by one side and read through the packet filter by the other.
\<close>

section \<open>Messages on the wire\<close>

text \<open>The messages among the effects of a proxy.\<close>

fun messages :: "cp_effect list \<Rightarrow> bytes list" where
  "messages [] = []"
| "messages (Sent fmt as # es) = written fmt as # messages es"
| "messages (_ # es) = messages es"

lemma messages_append [simp]: "messages (es @ es') = messages es @ messages es'"
  by (induction es rule: messages.induct) simp_all

lemma fmt_items_literals:
  "CHR ''%'' \<notin> set code \<Longrightarrow> fmt_items (code @ fmt) = map_option ((@) (map (\<lambda>c. Lit (of_char c)) code)) (fmt_items fmt)"
proof (induction code)
  case (Cons a code)
  then have "fmt_items (code @ fmt) = map_option ((@) (map (\<lambda>c. Lit (of_char c)) code)) (fmt_items fmt)" by simp
  with Cons.prems show ?case by (cases "fmt_items fmt") auto
qed (cases "fmt_items fmt", simp_all)

lemma getLength_literals:
  "getLength (map Lit bs @ fs) as = map_option ((+) (of_nat (length bs))) (getLength fs as)"
  by (induction bs) (auto simp: option.map_comp option.map_ident o_def add.commute add.left_commute)

lemma writef_items_literals:
  "writef_items (map Lit bs @ fs) as = map_option ((@) bs) (writef_items fs as)"
  by (induction bs) (auto simp: option.map_comp option.map_ident o_def)

lemma written_message:
  assumes "CHR ''%'' \<notin> set code" and "fmt_items fmt = Some fs" and "getLength fs as = Some n"
    and "writef_items fs as = Some w" and "length code + length w < 2 ^ 32"
  shows "written (code @ fmt) as = map of_char code @ w"
proof -
  let ?fs = "map Lit (map of_char code) @ fs"
  have items: "fmt_items (code @ fmt) = Some ?fs"
    using fmt_items_literals [OF assms(1), of fmt] assms(2) by (simp add: o_def)
  have len: "getLength ?fs as = Some (of_nat (length code) + n)"
    using assms(3) by (simp only: getLength_literals length_map option.map)
  have out: "writef_items ?fs as = Some (map of_char code @ w)"
    using assms(4) by (simp only: writef_items_literals option.map)
  obtain buf where "writef_items ?fs as = Some buf"
    "length buf < 2 ^ 32 \<longrightarrow> vwritef ?fs (of_nat (length code) + n) as = Some buf"
    using writef_length [OF len] by blast
  then have "vwritef ?fs (of_nat (length code) + n) as = Some (map of_char code @ w)"
    using out assms(5) by simp
  then show ?thesis by (simp only: written_def writef_def items len option.simps)
qed

section \<open>From the server to the client\<close>

definition low16 :: "u32 \<Rightarrow> u16" where
  "low16 v = ucast v"

text \<open>A coordinate or a key as the 16 bits of a message carry it.\<close>

definition as_coordinate :: "i32 \<Rightarrow> i32" where
  "as_coordinate v = scast (low16 v)"

definition as_key :: "u32 \<Rightarrow> u32" where
  "as_key v = ucast (low16 v)"

text \<open>One message is taken from the packet filter and handled, on either side.\<close>

lemma written_packet:
  assumes "4 \<le> length msg" "CHR ''%'' \<notin> set (take 4 msg)" and "fmt_items (drop 4 msg) = Some fs"
    and "getLength fs as = Some n" and "writef_items fs as = Some w" "length w < 2 ^ 31"
  shows "written msg as = map of_char (take 4 msg) @ w"
  using written_message [OF assms(2-5)] assms(1,6) by simp

lemma client_round:
  assumes "e_read env = ps_rd" and "ps_inv (sp_stream p)" and "ps_packets (sp_stream p) = written msg as # ps"
    and len: "4 \<le> length msg" "CHR ''%'' \<notin> set (take 4 msg)"
    and fs: "fmt_items (drop 4 msg) = Some fs" and n: "getLength fs as = Some n" and vs: "delivered fs as = Some vs"
    and w: "writef_items fs as = Some w" "length w < 2 ^ 31"
    and parse: "\<And>s s'. readf_got ps_rd (drop 4 msg) s = (vs, None, s') \<Longrightarrow>
      parse_message env (map of_char (take 4 msg)) (p\<lparr>sp_stream := s\<rparr>) = (Inr Okay, f (p\<lparr>sp_stream := s'\<rparr>))"
  shows "\<exists>s. handleData env p = handleData env (f (p\<lparr>sp_stream := s\<rparr>)) \<and> ps_inv s \<and> ps_packets s = ps"
  by (rule pms.any_round [where f = f, OF assms(1,2) _ _ fs vs w(1) parse])
    (use assms(3) len(1) written_packet [OF len fs n w] in simp_all)

lemma deliver:
  assumes r: "receives env [written msg as] p" and len: "4 \<le> length msg" "CHR ''%'' \<notin> set (take 4 msg)"
    and fs: "fmt_items (drop 4 msg) = Some fs" and n: "getLength fs as = Some n" and vs: "delivered fs as = Some vs"
    and w: "writef_items fs as = Some w" "length w < 2 ^ 31"
    and parse: "\<And>s s'. readf_got ps_rd (drop 4 msg) s = (vs, None, s') \<Longrightarrow>
      parse_message env (map of_char (take 4 msg)) (p\<lparr>sp_stream := s\<rparr>) = (Inr Okay, f (p\<lparr>sp_stream := s'\<rparr>))"
    and stream: "\<And>s. sp_stream (f (p\<lparr>sp_stream := s\<rparr>)) = s" and parser: "\<And>s. sp_parser (f (p\<lparr>sp_stream := s\<rparr>)) = Messages"
    and told: "\<And>s. calls (f (p\<lparr>sp_stream := s\<rparr>)) @ pending (f (p\<lparr>sp_stream := s\<rparr>)) = calls p @ cs"
  shows "\<exists>p'. handleData env p = Some (None, p') \<and> calls p' = calls p @ cs"
proof -
  have env: "e_read env = ps_rd" "e_isReady env = pf_is_ready" "ps_inv (sp_stream p)"
    "ps_packets (sp_stream p) = [written msg as]" using r by (simp_all add: receives_def)
  from client_round [where f = f, OF env(1,3,4) len fs n vs w parse] obtain s where
    s: "handleData env p = handleData env (f (p\<lparr>sp_stream := s\<rparr>))" "ps_inv s" "ps_packets s = []" by blast
  have "pms.awaiting env [] (f (p\<lparr>sp_stream := s\<rparr>))"
    using env s(2,3) stream parser by (simp add: pms.awaiting_def)
  from pms.end_calls [OF this] s(1) told show ?thesis by simp
qed

text \<open>What a call on the proxy is for the client, whose modifier table is given.\<close>

fun arrives :: "u32 list \<Rightarrow> client_call \<Rightarrow> client_call list" where
  "arrives table (Enter x y seqNum m) = [Enter (as_coordinate x) (as_coordinate y) seqNum (as_key m)]"
| "arrives table Leave = [Leave]"
| "arrives table (Grab_Clipboard cid) = [Grab_Clipboard cid]"
| "arrives table (Key_Down k m b lang) = [Key_Down (translateKey table (as_key k)) (translateModifierMask table (as_key m)) b lang]"
| "arrives table (Key_Repeat k m n b lang) =
     [Key_Repeat (translateKey table (as_key k)) (translateModifierMask table (as_key m)) (as_key n) b lang]"
| "arrives table (Key_Up k m b) = [Key_Up (translateKey table (as_key k)) (translateModifierMask table (as_key m)) b]"
| "arrives table (Mouse_Down b) = [Mouse_Down b]"
| "arrives table (Mouse_Up b) = [Mouse_Up b]"
| "arrives table (Mouse_Move x y) = [Mouse_Move (as_coordinate x) (as_coordinate y)]"
| "arrives table (Mouse_Relative_Move x y) = [Mouse_Relative_Move (as_coordinate x) (as_coordinate y)]"
| "arrives table (Mouse_Wheel x y) = [Mouse_Wheel (as_coordinate x) (as_coordinate y)]"
| "arrives table (Screensaver on) = [Screensaver on]"
| "arrives table Reset_Options = [Reset_Options]"
| "arrives table (Set_Options os) = [Set_Options os]"
| "arrives table _ = []"

text \<open>What a message can carry, and the two calls that are no single message.\<close>

fun carried :: "client_call \<Rightarrow> bool" where
  "carried Handshake_Complete = False"
| "carried (Set_Clipboard cid c) = False"
| "carried (Grab_Clipboard cid) = (cid < kClipboardEnd)"
| "carried (Key_Down k m b lang) = (length lang < 2 ^ 30)"
| "carried (Key_Repeat k m n b lang) = (length lang < 2 ^ 30)"
| "carried (Set_Options os) = (even (length os) \<and> length os \<le> unat protocol_max_list_length)"
| "carried _ = True"

lemma low_bytes32:
  fixes v :: u32
  shows "[ucast (drop_bit 8 v AND 0xff), ucast (v AND 0xff)] = be16 (low16 v)" and "(ucast (low16 (v)) :: u32) = as_key v"
    and "(scast (low16 v) :: u32) = as_coordinate v" and "(ucast v :: u16) = low16 v"
  using be16_ucast [of v "[]"] by (simp_all add: low16_def as_key_def as_coordinate_def byte_ucast)

text \<open>The arguments of the formats.\<close>

lemma wire_two:
  "getLength [Spec 2 CHR ''i'', Spec 2 CHR ''i''] [Int_Arg x, Int_Arg y] = Some 4"
  "delivered [Spec 2 CHR ''i'', Spec 2 CHR ''i''] [Int_Arg x, Int_Arg y] = Some [Val2 (low16 x), Val2 (low16 y)]"
  "\<exists>w. writef_items [Spec 2 CHR ''i'', Spec 2 CHR ''i''] [Int_Arg x, Int_Arg y] = Some w \<and> length w < 2 ^ 31"
  by (simp_all add: low16_def)

lemma wire_one:
  "getLength [Spec 1 CHR ''i''] [Int_Arg x] = Some 1" "delivered [Spec 1 CHR ''i''] [Int_Arg x] = Some [Val1 (ucast x)]"
  "\<exists>w. writef_items [Spec 1 CHR ''i''] [Int_Arg x] = Some w \<and> length w < 2 ^ 31"
  by simp_all

lemmas effects = dispatch receives_def low_bytes32 mouse_moved_def mouse_moved_relative_def calls_def pending_def
  idle_def call_def tell_def Let_def flushCompressedMouse_def

lemma motion_arrives:
  assumes "idle p" and "\<not> sp_ignoreMouse p"
  shows "receives env [written kMsgDMouseMove [Int_Arg x, Int_Arg y]] p \<Longrightarrow>
      \<exists>p'. handleData env p = Some (None, p') \<and> calls p' = calls p @ arrives table (Mouse_Move x y)"
    and "receives env [written kMsgDMouseRelMove [Int_Arg x, Int_Arg y]] p \<Longrightarrow>
      \<exists>p'. handleData env p = Some (None, p') \<and> calls p' = calls p @ arrives table (Mouse_Relative_Move x y)"
    and "receives env [written kMsgDMouseWheel [Int_Arg x, Int_Arg y]] p \<Longrightarrow>
      \<exists>p'. handleData env p = Some (None, p') \<and> calls p' = calls p @ arrives table (Mouse_Wheel x y)"
proof -
  obtain w where w: "writef_items [Spec 2 CHR ''i'', Spec 2 CHR ''i''] [Int_Arg x, Int_Arg y] = Some w" "length w < 2 ^ 31"
    using wire_two(3) by blast
  show "\<exists>p'. handleData env p = Some (None, p') \<and> calls p' = calls p @ arrives table (Mouse_Move x y)"
    if r: "receives env [written kMsgDMouseMove [Int_Arg x, Int_Arg y]] p"
    by (rule deliver [OF r _ _ message_items(2) wire_two(1,2) w, where f = "\<lambda>p. noop (mouse_moved env (as_coordinate x) (as_coordinate y) p)"])
      (use r assms in \<open>simp_all add: kMsgDMouseMove_def mouseMove_def effects\<close>)
  show "\<exists>p'. handleData env p = Some (None, p') \<and> calls p' = calls p @ arrives table (Mouse_Relative_Move x y)"
    if r: "receives env [written kMsgDMouseRelMove [Int_Arg x, Int_Arg y]] p"
    by (rule deliver [OF r _ _ message_items(4) wire_two(1,2) w, where f = "\<lambda>p. noop (mouse_moved_relative env (as_coordinate x) (as_coordinate y) p)"])
      (use r assms in \<open>simp_all add: kMsgDMouseRelMove_def mouseRelativeMove_def effects\<close>)
  have i: "fmt_items (drop 4 kMsgDMouseWheel) = Some [Spec 2 CHR ''i'', Spec 2 CHR ''i'']"
    by (simp add: kMsgDMouseWheel_def digit_of_def)
  show "\<exists>p'. handleData env p = Some (None, p') \<and> calls p' = calls p @ arrives table (Mouse_Wheel x y)"
    if r: "receives env [written kMsgDMouseWheel [Int_Arg x, Int_Arg y]] p"
    by (rule deliver [OF r _ _ i wire_two(1,2) w, where f = "\<lambda>p. noop (call (Mouse_Wheel (as_coordinate x) (as_coordinate y)) p)"])
      (use r assms in \<open>simp_all add: kMsgDMouseWheel_def mouseWheel_def effects\<close>)
qed

lemma flush_idle: "idle p \<Longrightarrow> flushCompressedMouse p = p"
  by (simp add: idle_def flushCompressedMouse_def)

lemma idle_stream [simp]: "idle (p\<lparr>sp_stream := s\<rparr>) = idle p"
  by (simp add: idle_def)

lemma byte_arrives:
  assumes "idle p"
  shows "receives env [written kMsgDMouseDown [Int_Arg (ucast b)]] p \<Longrightarrow>
      \<exists>p'. handleData env p = Some (None, p') \<and> calls p' = calls p @ arrives table (Mouse_Down b)"
    and "receives env [written kMsgDMouseUp [Int_Arg (ucast b)]] p \<Longrightarrow>
      \<exists>p'. handleData env p = Some (None, p') \<and> calls p' = calls p @ arrives table (Mouse_Up b)"
    and "receives env [written kMsgCScreenSaver [Int_Arg (if on then 1 else 0)]] p \<Longrightarrow>
      \<exists>p'. handleData env p = Some (None, p') \<and> calls p' = calls p @ arrives table (Screensaver on)"
proof -
  have w: "writef_items [Spec 1 CHR ''i''] [Int_Arg x] = Some [ucast (x AND 0xff)]" "length [ucast (x AND 0xff) :: byte] < 2 ^ 31"
    for x by simp_all
  have i: "fmt_items (drop 4 kMsgDMouseUp) = Some [Spec 1 CHR ''i'']" "fmt_items (drop 4 kMsgCScreenSaver) = Some [Spec 1 CHR ''i'']"
    by (simp_all add: kMsgDMouseUp_def kMsgCScreenSaver_def digit_of_def)
  show "\<exists>p'. handleData env p = Some (None, p') \<and> calls p' = calls p @ arrives table (Mouse_Down b)"
    if r: "receives env [written kMsgDMouseDown [Int_Arg (ucast b)]] p"
    by (rule deliver [OF r _ _ message_items(6) wire_one(1,2) w, where f = "\<lambda>p. noop (call (Mouse_Down b) p)"])
      (use r assms in \<open>simp_all add: kMsgDMouseDown_def mouseDown_def flush_idle effects low_bytes\<close>)
  show "\<exists>p'. handleData env p = Some (None, p') \<and> calls p' = calls p @ arrives table (Mouse_Up b)"
    if r: "receives env [written kMsgDMouseUp [Int_Arg (ucast b)]] p"
    by (rule deliver [OF r _ _ i(1) wire_one(1,2) w, where f = "\<lambda>p. noop (call (Mouse_Up b) p)"])
      (use r assms in \<open>simp_all add: kMsgDMouseUp_def mouseUp_def flush_idle effects low_bytes\<close>)
  show "\<exists>p'. handleData env p = Some (None, p') \<and> calls p' = calls p @ arrives table (Screensaver on)"
    if r: "receives env [written kMsgCScreenSaver [Int_Arg (if on then 1 else 0)]] p"
    by (rule deliver [OF r _ _ i(2) wire_one(1,2) w, where f = "\<lambda>p. noop (call (Screensaver on) p)"])
      (use r assms in \<open>simp_all add: kMsgCScreenSaver_def screensaver_def effects low_bytes\<close>)
qed

lemma plain_arrives:
  assumes "idle p"
  shows "receives env [written kMsgCLeave []] p \<Longrightarrow>
      \<exists>p'. handleData env p = Some (None, p') \<and> calls p' = calls p @ arrives table Leave"
    and "receives env [written kMsgCResetOptions []] p \<Longrightarrow>
      \<exists>p'. handleData env p = Some (None, p') \<and> calls p' = calls p @ arrives table Reset_Options"
proof -
  have i: "fmt_items (drop 4 kMsgCLeave) = Some []" "fmt_items (drop 4 kMsgCResetOptions) = Some []"
    by (simp_all add: kMsgCLeave_def kMsgCResetOptions_def)
  have g: "readf_got ps_rd [] s = ([], None, s)" for s by (simp add: readf_got_def)
  have n: "getLength [] [] = Some 0" "delivered [] [] = Some []" "writef_items [] [] = Some []" "length [] < (2 :: nat) ^ 31"
    by simp_all
  show "\<exists>p'. handleData env p = Some (None, p') \<and> calls p' = calls p @ arrives table Leave"
    if r: "receives env [written kMsgCLeave []] p"
    by (rule deliver [OF r _ _ i(1) n, where f = "\<lambda>p. noop (leave p)"])
      (use r assms in \<open>simp_all add: kMsgCLeave_def leave_def g effects\<close>)
  show "\<exists>p'. handleData env p = Some (None, p') \<and> calls p' = calls p @ arrives table Reset_Options"
    if r: "receives env [written kMsgCResetOptions []] p"
    by (rule deliver [OF r _ _ i(2) n, where f = "\<lambda>p. noop (resetOptions p)"])
      (use r assms in \<open>simp_all add: kMsgCResetOptions_def resetOptions_def setKeepAliveRate_def resetKeepAliveAlarm_def g effects\<close>)
qed

lemma be16_two: "[ucast (drop_bit 8 (v :: u32) AND 0xff), ucast (v AND 0xff)] = be16 (low16 v)"
  by (rule low_bytes32(1))

lemma enter_arrives:
  assumes "idle p" and r: "receives env [written kMsgCEnter (map Int_Arg [x, y, sq, m])] p"
  shows "\<exists>p'. handleData env p = Some (None, p') \<and> calls p' = calls p @ arrives table (Enter x y sq m)"
proof -
  let ?fs = "[Spec 2 CHR ''i'', Spec 2 CHR ''i'', Spec 4 CHR ''i'', Spec 2 CHR ''i'']"
  have i: "fmt_items (drop 4 kMsgCEnter) = Some ?fs" by (simp add: kMsgCEnter_def digit_of_def)
  have n: "getLength ?fs (map Int_Arg [x, y, sq, m]) = Some 10"
    "delivered ?fs (map Int_Arg [x, y, sq, m]) = Some [Val2 (low16 x), Val2 (low16 y), Val4 sq, Val2 (low16 m)]"
    by (simp_all add: low16_def)
  obtain w where w: "writef_items ?fs (map Int_Arg [x, y, sq, m]) = Some w" "length w < 2 ^ 31" by simp
  show ?thesis
    by (rule deliver [OF r _ _ i n w, where f = "\<lambda>p. noop (call (Enter (as_coordinate x) (as_coordinate y) sq (as_key m))
          (p\<lparr>sp_compressMouse := False, sp_compressMouseRelative := False, sp_dxMouse := 0, sp_dyMouse := 0,
            sp_seqNum := sq, sp_serverLayout := [], sp_isUserNotifiedAboutLayoutSyncError := False\<rparr>))"])
      (use r assms(1) in \<open>simp_all add: kMsgCEnter_def enter_def effects\<close>)
qed

lemma grab_arrives:
  assumes "idle p" and "cid < kClipboardEnd" and r: "receives env [written kMsgCClipboard [Int_Arg (ucast cid), Int_Arg sq]] p"
  shows "\<exists>p'. handleData env p = Some (None, p') \<and> calls p' = calls p @ arrives table (Grab_Clipboard cid)"
proof -
  let ?fs = "[Spec 1 CHR ''i'', Spec 4 CHR ''i'']"
  have i: "fmt_items (drop 4 kMsgCClipboard) = Some ?fs" by (simp add: kMsgCClipboard_def digit_of_def)
  have n: "getLength ?fs [Int_Arg (ucast cid), Int_Arg sq] = Some 5"
    "delivered ?fs [Int_Arg (ucast cid), Int_Arg sq] = Some [Val1 cid, Val4 sq]" by (simp_all add: low_bytes)
  obtain w where w: "writef_items ?fs [Int_Arg (ucast cid), Int_Arg sq] = Some w" "length w < 2 ^ 31" by simp
  show ?thesis
    by (rule deliver [OF r _ _ i n w, where f = "\<lambda>p. noop (call (Grab_Clipboard cid) p)"])
      (use r assms(1,2) in \<open>simp_all add: kMsgCClipboard_def grabClipboard_def effects not_le [symmetric]\<close>)
qed

lemma language_fields [simp]:
  "sp_stream (setActiveServerLanguage lang p) = sp_stream p" "sp_parser (setActiveServerLanguage lang p) = sp_parser p"
  "sp_modifierTranslationTable (setActiveServerLanguage lang p) = sp_modifierTranslationTable p"
  "sp_log (setActiveServerLanguage lang p) = sp_log p"
  "sp_compressMouse (setActiveServerLanguage lang p) = sp_compressMouse p"
  "sp_compressMouseRelative (setActiveServerLanguage lang p) = sp_compressMouseRelative p" "idle (setActiveServerLanguage lang p) = idle p"
  "pending (setActiveServerLanguage lang p) = pending p"
  by (simp_all add: setActiveServerLanguage_def Let_def idle_def pending_def)

lemma key_arrives:
  assumes "idle p" and t: "sp_modifierTranslationTable p = table"
  shows "length lang < 2 ^ 30 \<Longrightarrow> receives env [written kMsgDKeyDownLang [Int_Arg k, Int_Arg m, Int_Arg (ucast b), Str_Arg lang]] p \<Longrightarrow>
      \<exists>p'. handleData env p = Some (None, p') \<and> calls p' = calls p @ arrives table (Key_Down k m b lang)"
    and "length lang < 2 ^ 30 \<Longrightarrow>
      receives env [written kMsgDKeyRepeat [Int_Arg k, Int_Arg m, Int_Arg n, Int_Arg (ucast b), Str_Arg lang]] p \<Longrightarrow>
      \<exists>p'. handleData env p = Some (None, p') \<and> calls p' = calls p @ arrives table (Key_Repeat k m n b lang)"
    and "receives env [written kMsgDKeyUp [Int_Arg k, Int_Arg m, Int_Arg (ucast b)]] p \<Longrightarrow>
      \<exists>p'. handleData env p = Some (None, p') \<and> calls p' = calls p @ arrives table (Key_Up k m b)"
proof -
  let ?down = "[Spec 2 CHR ''i'', Spec 2 CHR ''i'', Spec 2 CHR ''i'', Spec 0 CHR ''s'']"
  let ?repeat = "[Spec 2 CHR ''i'', Spec 2 CHR ''i'', Spec 2 CHR ''i'', Spec 2 CHR ''i'', Spec 0 CHR ''s'']"
  let ?up = "[Spec 2 CHR ''i'', Spec 2 CHR ''i'', Spec 2 CHR ''i'']"
  have i: "fmt_items (drop 4 kMsgDKeyDownLang) = Some ?down" "fmt_items (drop 4 kMsgDKeyRepeat) = Some ?repeat"
    "fmt_items (drop 4 kMsgDKeyUp) = Some ?up"
    by (simp_all add: kMsgDKeyDownLang_def kMsgDKeyRepeat_def kMsgDKeyUp_def digit_of_def)
  let ?key = "translateKey table (as_key k)" and ?mask = "translateModifierMask table (as_key m)"
  have str: "writeString lang = Some (be32 (of_nat (length lang)) @ lang)" if "length lang < 2 ^ 30"
    using writeString_Some [of lang] that by auto
  show "\<exists>p'. handleData env p = Some (None, p') \<and> calls p' = calls p @ arrives table (Key_Down k m b lang)"
    if l: "length lang < 2 ^ 30" and r: "receives env [written kMsgDKeyDownLang [Int_Arg k, Int_Arg m, Int_Arg (ucast b), Str_Arg lang]] p"
  proof -
    let ?as = "[Int_Arg k, Int_Arg m, Int_Arg (ucast b), Str_Arg lang]"
    obtain n where n: "getLength ?down ?as = Some n" by simp
    have v: "delivered ?down ?as = Some [Val2 (low16 k), Val2 (low16 m), Val2 b, Str lang]"
      using l by (simp add: low16_def low_bytes)
    obtain w where w: "writef_items ?down ?as = Some w" "length w < 2 ^ 31" using l by (simp add: str)
    show ?thesis
      by (rule deliver [OF r _ _ i(1) n v w, where f = "\<lambda>p. noop (keyDown (low16 k) (low16 m) b lang p)"])
        (use r assms l in \<open>simp_all add: kMsgDKeyDownLang_def recvKeyDownLang_def keyDown_def val2_def str_def flush_idle effects\<close>)
  qed
  show "\<exists>p'. handleData env p = Some (None, p') \<and> calls p' = calls p @ arrives table (Key_Repeat k m n b lang)"
    if l: "length lang < 2 ^ 30" and r: "receives env [written kMsgDKeyRepeat [Int_Arg k, Int_Arg m, Int_Arg n, Int_Arg (ucast b), Str_Arg lang]] p"
  proof -
    let ?as = "[Int_Arg k, Int_Arg m, Int_Arg n, Int_Arg (ucast b), Str_Arg lang]"
    obtain sz where n: "getLength ?repeat ?as = Some sz" by simp
    have v: "delivered ?repeat ?as = Some [Val2 (low16 k), Val2 (low16 m), Val2 (low16 n), Val2 b, Str lang]"
      using l by (simp add: low16_def low_bytes)
    obtain w where w: "writef_items ?repeat ?as = Some w" "length w < 2 ^ 31" using l by (simp add: str)
    show ?thesis
      by (rule deliver [OF r _ _ i(2) n v w, where f = "\<lambda>p. noop (call (Key_Repeat ?key ?mask (as_key n) b lang) p)"])
        (use r assms l in \<open>simp_all add: kMsgDKeyRepeat_def keyRepeat_def str_def flush_idle effects\<close>)
  qed
  show "\<exists>p'. handleData env p = Some (None, p') \<and> calls p' = calls p @ arrives table (Key_Up k m b)"
    if r: "receives env [written kMsgDKeyUp [Int_Arg k, Int_Arg m, Int_Arg (ucast b)]] p"
  proof -
    let ?as = "[Int_Arg k, Int_Arg m, Int_Arg (ucast b)]"
    have n: "getLength ?up ?as = Some 6" "delivered ?up ?as = Some [Val2 (low16 k), Val2 (low16 m), Val2 b]"
      by (simp_all add: low16_def low_bytes)
    obtain w where w: "writef_items ?up ?as = Some w" "length w < 2 ^ 31" by simp
    show ?thesis
      by (rule deliver [OF r _ _ i(3) n w, where f = "\<lambda>p. noop (call (Key_Up ?key ?mask b) p)"])
        (use r assms in \<open>simp_all add: kMsgDKeyUp_def keyUp_def flush_idle effects\<close>)
  qed
qed

lemma set_options_keeps:
  "sp_stream (set_options os p) = sp_stream p \<and> sp_parser (set_options os p) = sp_parser p \<and>
    calls (set_options os p) = calls p \<and> sp_compressMouse (set_options os p) = sp_compressMouse p \<and>
    sp_compressMouseRelative (set_options os p) = sp_compressMouseRelative p"
proof (induction os p rule: set_options.induct)
  case (1 k v os p)
  have "sp_stream (set_option k v p) = sp_stream p \<and> sp_parser (set_option k v p) = sp_parser p \<and>
    calls (set_option k v p) = calls p \<and> sp_compressMouse (set_option k v p) = sp_compressMouse p \<and>
    sp_compressMouseRelative (set_option k v p) = sp_compressMouseRelative p"
    by (simp add: set_option_def setKeepAliveRate_def resetKeepAliveAlarm_def tell_def calls_def Let_def)
  with 1 show ?case by simp
qed simp_all

lemma options_arrive:
  assumes "idle p" and l: "even (length os)" "length os \<le> unat protocol_max_list_length"
    and r: "receives env [written kMsgDSetOptions [Vec4_Arg os]] p"
  shows "\<exists>p'. handleData env p = Some (None, p') \<and> calls p' = calls p @ arrives table (Set_Options os)"
proof -
  let ?fs = "[Spec 4 CHR ''I'']"
  have i: "fmt_items (drop 4 kMsgDSetOptions) = Some ?fs" by (simp add: kMsgDSetOptions_def digit_of_def)
  obtain n where n: "getLength ?fs [Vec4_Arg os] = Some n" by simp
  have v: "delivered ?fs [Vec4_Arg os] = Some [Vec4 os]" using l(2) by simp
  obtain w where w: "writef_items ?fs [Vec4_Arg os] = Some w" "length w < 2 ^ 31"
    using l(2) by (simp add: writeVectorInt_Some length_concat_const)

  show ?thesis
    by (rule deliver [OF r _ _ i n v w, where f = "\<lambda>p. noop (set_options os (call (Set_Options os) p))"])
      (use r assms(1) l in \<open>simp_all add: kMsgDSetOptions_def dispatch receives_def setOptions_def
        even_iff_mod_2_eq_zero set_options_keeps pending_def idle_def\<close>,
       simp_all add: call_def)
qed

section \<open>Every call\<close>

text \<open>The messages an operation of the proxy writes.\<close>

definition sends_to :: "'s client_proxy \<Rightarrow> 's client_proxy \<Rightarrow> bytes list" where
  "sends_to cp cp' = messages (drop (length (cp_log cp)) (cp_log cp'))"

definition silent :: "'s client_proxy \<Rightarrow> 's client_proxy \<Rightarrow> bool" where
  "silent p p' \<longleftrightarrow> cp_version p' = cp_version p \<and> (\<exists>es. cp_log p' = cp_log p @ es \<and> messages es = [])"

lemma silent_refl: "silent p p"
  by (simp add: silent_def)

lemma silent_trans: "\<lbrakk>silent p p'; silent p' p''\<rbrakk> \<Longrightarrow> silent p p''"
  by (auto simp: silent_def)

lemma silent_timers: "silent p (addHeartbeatTimer p)" "silent p (removeHeartbeatTimer p)" "silent p (setHeartbeatRate r a p)"
  "silent p (resetHeartbeatRate p)"
  by (auto simp: silent_def timer_defs setHeartbeatRate_def resetHeartbeatRate_def)

lemma silent_heartbeat: "silent p (heartbeat_option v p)"
  unfolding heartbeat_option_def Let_def by (blast intro: silent_trans silent_timers)

lemma silent_check: "silent p (cp_check_options os p)"
proof (induction os p rule: cp_check_options.induct)
  case (1 k v os p)
  then show ?case using silent_heartbeat silent_trans silent_refl by (fastforce simp: )
qed (simp_all add: silent_refl)

lemma sends_to_silent: "silent (send fmt as p) p' \<Longrightarrow> sends_to p p' = [written fmt as]"
  by (auto simp: silent_def sends_to_def send_def cp_tell_def)

lemma sends_to_send: "sends_to p (send fmt as p) = [written fmt as]"
  by (simp add: sends_to_def send_def cp_tell_def)

lemma call_sends:
  assumes "8 \<le> cp_version cp" and "cp_do cenv c cp = Some cp'"
  shows
    "c = Enter x y sq m \<Longrightarrow> sends_to cp cp' = [written kMsgCEnter (map Int_Arg [x, y, sq, m])]"
    "c = Leave \<Longrightarrow> sends_to cp cp' = [written kMsgCLeave []]"
    "c = Grab_Clipboard cid \<Longrightarrow> sends_to cp cp' = [written kMsgCClipboard [Int_Arg (ucast cid), Int_Arg 0]]"
    "c = Key_Down k m b lang \<Longrightarrow>
      sends_to cp cp' = [written kMsgDKeyDownLang [Int_Arg k, Int_Arg m, Int_Arg (ucast b), Str_Arg lang]]"
    "c = Key_Repeat k m n b lang \<Longrightarrow>
      sends_to cp cp' = [written kMsgDKeyRepeat [Int_Arg k, Int_Arg m, Int_Arg n, Int_Arg (ucast b), Str_Arg lang]]"
    "c = Key_Up k m b \<Longrightarrow> sends_to cp cp' = [written kMsgDKeyUp [Int_Arg k, Int_Arg m, Int_Arg (ucast b)]]"
    "c = Mouse_Down b1 \<Longrightarrow> sends_to cp cp' = [written kMsgDMouseDown [Int_Arg (ucast b1)]]"
    "c = Mouse_Up b1 \<Longrightarrow> sends_to cp cp' = [written kMsgDMouseUp [Int_Arg (ucast b1)]]"
    "c = Mouse_Move x y \<Longrightarrow> sends_to cp cp' = [written kMsgDMouseMove [Int_Arg x, Int_Arg y]]"
    "c = Mouse_Relative_Move x y \<Longrightarrow> sends_to cp cp' = [written kMsgDMouseRelMove [Int_Arg x, Int_Arg y]]"
    "c = Mouse_Wheel x y \<Longrightarrow> sends_to cp cp' = [written kMsgDMouseWheel [Int_Arg x, Int_Arg y]]"
    "c = Screensaver on \<Longrightarrow> sends_to cp cp' = [written kMsgCScreenSaver [Int_Arg (if on then 1 else 0)]]"
    "c = Reset_Options \<Longrightarrow> sends_to cp cp' = [written kMsgCResetOptions []]"
    "c = Set_Options os \<Longrightarrow> even (length os) \<Longrightarrow> sends_to cp cp' = [written kMsgDSetOptions [Vec4_Arg os]]"
proof -
  have grab: "sends_to cp (upd_clipboard cid f (send fmt as cp)) = [written fmt as]" for cid f fmt as
    by (simp add: sends_to_def upd_clipboard_def send_def cp_tell_def)
  have reset: "silent p (addHeartbeatTimer (removeHeartbeatTimer (resetHeartbeatRate p)))" for p :: "'a client_proxy"
    by (blast intro: silent_trans silent_timers)
  show "c = Reset_Options \<Longrightarrow> sends_to cp cp' = [written kMsgCResetOptions []]"
    using assms(2) sends_to_silent [OF reset, where fmt = kMsgCResetOptions and as = "[]" and p = cp] by (auto simp: cp_resetOptions_def)
  show "c = Set_Options os \<Longrightarrow> even (length os) \<Longrightarrow> sends_to cp cp' = [written kMsgDSetOptions [Vec4_Arg os]]"
    using assms(2) sends_to_silent [OF silent_check, where fmt = kMsgDSetOptions and as = "[Vec4_Arg os]" and p = cp]
    by (auto simp: cp_setOptions_def even_iff_mod_2_eq_zero)
qed (use assms in \<open>auto simp: cp_enter_def cp_leave_def cp_grabClipboard_def cp_keyDown_def cp_keyRepeat_def cp_keyUp_def
    cp_mouseDown_def cp_mouseUp_def cp_mouseMove_def cp_mouseRelativeMove_def cp_mouseWheel_def cp_screensaver_def
    sends_to_send sends_to_def upd_clipboard_def send_def cp_tell_def\<close>)

text \<open>
  C3. Every call the server makes on a client arrives. When a client of version 1.8 whose proxy is
  idle (it holds no motion back) and awaits no acknowledgement of a new shape receives, as packets, the
  messages that the server's proxy writes for a call that messages can carry, the client's proxy makes
  exactly that one call on the client: coordinates are cut to
  their low 16 bits and extended again, keys and modifiers are cut to 16 bits and translated by
  the client's modifier table, and everything else is unchanged.
\<close>

theorem call_arrives:
  assumes "8 \<le> cp_version cp" and "cp_do cenv c cp = Some cp'" and "carried c"
    and "receives env (sends_to cp cp') p" and "idle p" and "\<not> sp_ignoreMouse p"
  shows "\<exists>p'. handleData env p = Some (None, p') \<and>
    calls p' = calls p @ arrives (sp_modifierTranslationTable p) c"
proof (cases c)
  case (Key_Down k m b lang)
  with assms call_sends(4) [OF assms(1,2)] key_arrives(1) [OF assms(5) HOL.refl, of lang env k m b] show ?thesis by simp
next
  case (Key_Repeat k m n b lang)
  with assms call_sends(5) [OF assms(1,2)] key_arrives(2) [OF assms(5) HOL.refl, of lang env k m n b] show ?thesis by simp
next
  case (Key_Up k m b)
  with assms call_sends(6) [OF assms(1,2)] key_arrives(3) [OF assms(5) HOL.refl, of env k m b] show ?thesis by simp
next
  case (Set_Options os)
  with assms call_sends(14) [OF assms(1,2)] options_arrive [OF assms(5), of os env] show ?thesis by simp
next
  case (Grab_Clipboard cid)
  with assms call_sends(3) [OF assms(1,2)] grab_arrives [OF assms(5), of cid env 0] show ?thesis by simp
next
  case (Enter x y sq m)
  with assms call_sends(1) [OF assms(1,2)] enter_arrives [OF assms(5)] show ?thesis by simp
next
  case (Screensaver on)
  with assms call_sends(12) [OF assms(1,2)] byte_arrives(3) [OF assms(5), of env on] show ?thesis by simp
next
  case (Mouse_Down b)
  with assms call_sends(7) [OF assms(1,2)] byte_arrives(1) [OF assms(5), of env b] show ?thesis by simp
next
  case (Mouse_Up b)
  with assms call_sends(8) [OF assms(1,2)] byte_arrives(2) [OF assms(5), of env b] show ?thesis by simp
next
  case (Mouse_Move x y)
  with assms call_sends(9) [OF assms(1,2)] motion_arrives(1) [OF assms(5,6), of env x y] show ?thesis by simp
next
  case (Mouse_Relative_Move x y)
  with assms call_sends(10) [OF assms(1,2)] motion_arrives(2) [OF assms(5,6), of env x y] show ?thesis by simp
next
  case (Mouse_Wheel x y)
  with assms call_sends(11) [OF assms(1,2)] motion_arrives(3) [OF assms(5,6), of env x y] show ?thesis by simp
next
  case Leave
  with assms call_sends(2) [OF assms(1,2)] plain_arrives(1) [OF assms(5), of env] show ?thesis by simp
next
  case Reset_Options
  with assms call_sends(13) [OF assms(1,2)] plain_arrives(2) [OF assms(5), of env] show ?thesis by simp
qed (use assms(3) in simp_all)

text \<open>What fits into 16 bits arrives unchanged as long as no modifier is mapped to another.\<close>

fun fits :: "client_call \<Rightarrow> bool" where
  "fits (Enter x y sq m) = (as_coordinate x = x \<and> as_coordinate y = y \<and> as_key m = m)"
| "fits (Key_Down k m b lang) = (as_key k = k \<and> as_key m = m)"
| "fits (Key_Repeat k m n b lang) = (as_key k = k \<and> as_key m = m \<and> as_key n = n)"
| "fits (Key_Up k m b) = (as_key k = k \<and> as_key m = m)"
| "fits (Mouse_Move x y) = (as_coordinate x = x \<and> as_coordinate y = y)"
| "fits (Mouse_Relative_Move x y) = (as_coordinate x = x \<and> as_coordinate y = y)"
| "fits (Mouse_Wheel x y) = (as_coordinate x = x \<and> as_coordinate y = y)"
| "fits _ = True"

lemma arrives_unchanged: "\<lbrakk>carried c; fits c\<rbrakk> \<Longrightarrow> arrives identity_table c = [c]"
  by (cases c) (simp_all add: identity_key identity_mask)

lemma call_arrives_witness:
  "\<exists>f p'. receives demo_env (sends_to (cp_new 8 [] [] pf_init) (cp_mouseMove 70000 (-5) (cp_new 8 [] [] pf_init))) (demo_proxy f) \<and>
    handleData demo_env (demo_proxy f) = Some (None, p') \<and> calls p' = [Mouse_Move 4464 (-5)]"
proof -
  let ?cp = "cp_new 8 [] [] pf_init"
  have v: "8 \<le> cp_version ?cp"
    by (simp add: cp_new_def synchronizeLanguages_def setHeartbeatRate_def send_def cp_tell_def Let_def)
  have d: "cp_do demo_cp_env (Mouse_Move 70000 (-5)) ?cp = Some (cp_mouseMove 70000 (-5) ?cp)" by simp
  have m: "sends_to ?cp (cp_mouseMove 70000 (-5) ?cp) = [move_message (4464, -5)]"
    by (simp add: cp_mouseMove_def sends_to_send move_message_def written_def writef_def message_items vwritef_def writeInt_def)
  obtain f where f: "ps_inv f" "ps_packets f = [move_message (4464, -5)]"
    by (rule filter_with_packets [of "[move_message (4464, -5)]"]) (simp_all add: demo_sendable)
  have r: "receives demo_env (sends_to ?cp (cp_mouseMove 70000 (-5) ?cp)) (demo_proxy f)"
    using demo_receives [OF f] by (simp only: m)
  from call_arrives [OF v d _ r] show ?thesis
    using r by (auto simp: demo_proxy_fields as_coordinate_def low16_def)
qed

end
