(* ===== verification/Handshake.thy ===== *)
theory Handshake
  imports Session
begin

text \<open>
  The two proxies shaking hands: the server's proxy asks for the screen, the client answers, the
  server takes the answer and sends its options, and both sides are ready. The streams between
  them are packet filters that hold what the other side has written.
\<close>

section \<open>Taking messages\<close>

text \<open>
  Total correctness: on every packet filter that holds the messages, the loop returns normally
  and its result is as stated.
\<close>

definition client_takes ::
    "packet_filter proxy_env \<Rightarrow> bytes list \<Rightarrow> packet_filter server_proxy \<Rightarrow> (packet_filter server_proxy \<Rightarrow> bool) \<Rightarrow> bool" where
  "client_takes env ps p Q \<longleftrightarrow>
     (\<forall>s. ps_inv s \<and> ps_packets s = ps \<longrightarrow> (\<exists>p'. handleData env (p\<lparr>sp_stream := s\<rparr>) = Some (None, p') \<and> Q p'))"

definition server_takes ::
    "packet_filter cp_env \<Rightarrow> bytes list \<Rightarrow> packet_filter client_proxy \<Rightarrow> (packet_filter client_proxy \<Rightarrow> bool) \<Rightarrow> bool" where
  "server_takes env ps p Q \<longleftrightarrow>
     (\<forall>s. ps_inv s \<and> ps_packets s = ps \<longrightarrow> (\<exists>p'. cp_handleData env (p\<lparr>cp_stream := s\<rparr>) = Some (None, p') \<and> Q p'))"

text \<open>What the client's proxy writes.\<close>

fun outgoing :: "proxy_effect list \<Rightarrow> bytes list" where
  "outgoing [] = []"
| "outgoing (Write fmt as # es) = written fmt as # outgoing es"
| "outgoing (_ # es) = outgoing es"

lemma outgoing_append [simp]: "outgoing (es @ es') = outgoing es @ outgoing es'"
  by (induction es rule: outgoing.induct) simp_all

definition wrote :: "'s server_proxy \<Rightarrow> 's server_proxy \<Rightarrow> bytes list" where
  "wrote p p' = outgoing (drop (length (sp_log p)) (sp_log p'))"

lemma readf_got_readf: "readf_got rd fmt s = (vs, None, s') \<Longrightarrow> readf rd fmt s = (Inr (Some vs), s')"
  by (auto simp: readf_got_def readf_def got_vreadf [symmetric] split: option.splits)

lemma no_more: "\<lbrakk>ps_inv s; ps_packets s = []\<rbrakk> \<Longrightarrow> \<exists>s'. ps_rd 4 s = ([], s') \<and> ps_inv s' \<and> ps_packets s' = []"
  using pfs.rd_avail [of s 4] pms.packets_avail [of s] pfs.rd_inv [of s 4] pms.packets_avail [of "snd (ps_rd 4 s)"]
    pms.packets_nonempty [of "snd (ps_rd 4 s)"]
  by (cases "ps_rd 4 s"; cases "ps_packets (snd (ps_rd 4 s))") auto

lemma server_round:
  assumes env: "p_read env = ps_rd" and s: "ps_inv (cp_stream p)" "ps_packets (cp_stream p) = [written msg as]"
    and len: "4 \<le> length msg" "CHR ''%'' \<notin> set (take 4 msg)"
    and fs: "fmt_items (drop 4 msg) = Some fs" and n: "getLength fs as = Some n" and vs: "delivered fs as = Some vs"
    and w: "writef_items fs as = Some w" "length w < 2 ^ 31"
    and parse: "\<And>s s'. readf_got ps_rd (drop 4 msg) s = (vs, None, s') \<Longrightarrow>
      cp_parse env (map of_char (take 4 msg)) (p\<lparr>cp_stream := s\<rparr>) = (Inr True, f (p\<lparr>cp_stream := s'\<rparr>))"
    and stream: "\<And>s. cp_stream (f (p\<lparr>cp_stream := s\<rparr>)) = s"
  shows "\<exists>s s'. cp_handleData env p = Some (None, resetHeartbeatTimer ((f (p\<lparr>cp_stream := s\<rparr>))\<lparr>cp_stream := s'\<rparr>)) \<and>
    ps_inv s' \<and> ps_packets s' = []"
proof -
  let ?code = "map of_char (take 4 msg) :: bytes"
  have code: "length ?code = 4" using len(1) by simp
  have p: "ps_packets (cp_stream p) = [?code @ w]" using s(2) written_packet [OF len fs n w] by simp
  from pms.read_code [OF s(1) p code] obtain s1 where
    s1: "ps_rd 4 (cp_stream p) = (?code, s1)" "ps_inv s1" "ps_packets s1 = (if w = [] then [] else [w])" by auto
  from pms.readf_packet [OF fs vs w(1) s1(2,3)] obtain s2 where
    s2: "readf_got ps_rd (drop 4 msg) s1 = (vs, None, s2)" "ps_inv s2" "ps_packets s2 = []" by blast
  from no_more [OF s2(2,3)] obtain s3 where s3: "ps_rd 4 s2 = ([], s3)" "ps_inv s3" "ps_packets s3 = []" by blast
  let ?q = "f (p\<lparr>cp_stream := s2\<rparr>)"
  have "?code \<noteq> []" using code by auto
  then have "cp_handleData env p = cp_handleData env ?q"
    using cp_handleData_round [of env p ?code s1] parse [OF s2(1)] env s1(1) code by (simp add: cp_react_def)
  also have "\<dots> = Some (None, resetHeartbeatTimer (?q\<lparr>cp_stream := s3\<rparr>))"
    using cp_handleData_round [of env ?q "[]" s3] env s3(1) stream by simp
  finally show ?thesis using s3(2,3) by blast
qed

section \<open>The client's answer\<close>

definition waiting :: "packet_filter proxy_env \<Rightarrow> bytes list \<Rightarrow> packet_filter server_proxy \<Rightarrow> bool" where
  "waiting env ps p \<longleftrightarrow> e_read env = ps_rd \<and> sp_parser p = Handshake \<and> idle p \<and> ps_inv (sp_stream p) \<and>
     ps_packets (sp_stream p) = ps"

lemma waiting_client_round:
  assumes "waiting env (written msg as # ps) p"
    and "4 \<le> length msg" "CHR ''%'' \<notin> set (take 4 msg)"
    and "fmt_items (drop 4 msg) = Some fs" and "getLength fs as = Some n" and "delivered fs as = Some vs"
    and "writef_items fs as = Some w" "length w < 2 ^ 31"
    and "\<And>s s'. readf_got ps_rd (drop 4 msg) s = (vs, None, s') \<Longrightarrow>
      parse_message env (map of_char (take 4 msg)) (p\<lparr>sp_stream := s\<rparr>) = (Inr Okay, f (p\<lparr>sp_stream := s'\<rparr>))"
  shows "\<exists>s. handleData env p = handleData env (f (p\<lparr>sp_stream := s\<rparr>)) \<and> ps_inv s \<and> ps_packets s = ps"
  by (rule client_round [where f = f, OF _ _ _ assms(2-9)]) (use assms(1) in \<open>simp_all add: waiting_def\<close>)

lemma waiting_end:
  assumes "e_read env = ps_rd" and "idle p" and "ps_inv (sp_stream p)" and "ps_packets (sp_stream p) = []"
  shows "\<exists>s. handleData env p = Some (None, p\<lparr>sp_stream := s\<rparr>)"
proof -
  from no_more [OF assms(3,4)] obtain s where "ps_rd 4 (sp_stream p) = ([], s)" by blast
  then have "handleData env p = Some (None, flushCompressedMouse (p\<lparr>sp_stream := s\<rparr>))"
    using handleData_round [of env p "[]" s] assms(1) by simp
  then show ?thesis using flush_idle [of "p\<lparr>sp_stream := s\<rparr>"] assms(2) by auto
qed

lemmas handshake_dispatch =
  parse_message_def parseHandshakeMessage_def is_msg_def okay_def a_then_def a_bind_def a_readf_def a_do_def a_ret_def

lemma no_arguments:
  "fmt_items [] = Some []" "getLength [] [] = Some 0" "delivered [] [] = Some []" "writef_items [] [] = Some []"
  "length ([] :: bytes) < 2 ^ 31" "readf_got rd [] s = ([], None, s)"
  by (simp_all add: readf_got_def)

lemma query_round:
  assumes "waiting env (written kMsgQInfo [] # ps) p"
  shows "\<exists>s. handleData env p = handleData env (queryInfo env (p\<lparr>sp_stream := s\<rparr>)) \<and> waiting env ps (queryInfo env (p\<lparr>sp_stream := s\<rparr>))"
proof -
  have "\<exists>s. handleData env p = handleData env (queryInfo env (p\<lparr>sp_stream := s\<rparr>)) \<and> ps_inv s \<and> ps_packets s = ps"
    by (rule waiting_client_round [OF assms, where f = "queryInfo env" and vs = "[]" and fs = "[]" and w = "[]"])
      (use assms in \<open>simp_all add: handshake_dispatch message_formats no_arguments waiting_def\<close>)
  then show ?thesis
    using assms by (auto simp: waiting_def queryInfo_def sendInfo_def idle_def tell_def split: prod.splits)
qed

lemma acknowledged_round:
  assumes "waiting env (written kMsgCInfoAck [] # ps) p"
  shows "\<exists>s. handleData env p = handleData env (infoAcknowledgment (p\<lparr>sp_stream := s\<rparr>)) \<and>
    waiting env ps (infoAcknowledgment (p\<lparr>sp_stream := s\<rparr>))"
proof -
  have "\<exists>s. handleData env p = handleData env (infoAcknowledgment (p\<lparr>sp_stream := s\<rparr>)) \<and> ps_inv s \<and> ps_packets s = ps"
    by (rule waiting_client_round [OF assms, where f = infoAcknowledgment and vs = "[]" and fs = "[]" and w = "[]"])
      (use assms in \<open>simp_all add: handshake_dispatch message_formats no_arguments waiting_def\<close>)
  then show ?thesis using assms by (auto simp: waiting_def infoAcknowledgment_def idle_def)
qed

lemma reset_round:
  assumes "waiting env (written kMsgCResetOptions [] # ps) p"
  shows "\<exists>s. handleData env p = handleData env (resetOptions (p\<lparr>sp_stream := s\<rparr>)) \<and> waiting env ps (resetOptions (p\<lparr>sp_stream := s\<rparr>))"
proof -
  have "\<exists>s. handleData env p = handleData env (resetOptions (p\<lparr>sp_stream := s\<rparr>)) \<and> ps_inv s \<and> ps_packets s = ps"
    by (rule waiting_client_round [OF assms, where f = resetOptions and vs = "[]" and fs = "[]" and w = "[]"])
      (use assms in \<open>simp_all add: handshake_dispatch message_formats no_arguments waiting_def\<close>)
  then show ?thesis
    using assms by (auto simp: waiting_def resetOptions_def setKeepAliveRate_def resetKeepAliveAlarm_def call_def
        tell_def idle_def Let_def)
qed

lemma options_round:
  assumes "waiting env (written kMsgDSetOptions [Vec4_Arg os] # ps) p"
    and l: "even (length os)" "length os \<le> unat protocol_max_list_length"
  shows "\<exists>s. handleData env p = handleData env (completeHandshake (set_options os (call (Set_Options os) (p\<lparr>sp_stream := s\<rparr>)))) \<and>
    ps_inv s \<and> ps_packets s = ps"
proof -
  let ?fs = "[Spec 4 CHR ''I'']"
  have i: "fmt_items (drop 4 kMsgDSetOptions) = Some ?fs" by (simp add: kMsgDSetOptions_def digit_of_def)
  obtain n where n: "getLength ?fs [Vec4_Arg os] = Some n" by simp
  have v: "delivered ?fs [Vec4_Arg os] = Some [Vec4 os]" using l(2) by simp
  obtain w where w: "writef_items ?fs [Vec4_Arg os] = Some w" "length w < 2 ^ 31"
    using l(2) by (simp add: writeVectorInt_Some length_concat_const)
  show ?thesis
    by (rule waiting_client_round [OF assms(1) _ _ i n v w,
          where f = "\<lambda>p. completeHandshake (set_options os (call (Set_Options os) p))"])
      (use assms(1) l in \<open>simp_all add: handshake_dispatch message_formats setOptions_def even_iff_mod_2_eq_zero waiting_def\<close>)
qed

lemma language_round:
  assumes "waiting env (written kMsgDLanguageSynchronisation [Str_Arg (concat ls)] # ps) p"
    and ls: "\<forall>l \<in> set ls. length l = 2" "length ls < 2 ^ 28" "ls \<noteq> []"
  shows "\<exists>s m. handleData env p = handleData env (p\<lparr>sp_stream := s, sp_layoutManager := m\<rparr>) \<and>
    waiting env ps (p\<lparr>sp_stream := s, sp_layoutManager := m\<rparr>) \<and>
    m = (sp_layoutManager p)\<lparr>m_remoteLayouts := ls\<rparr>"
proof -
  let ?fs = "[Spec 0 CHR ''s'']" and ?as = "[Str_Arg (concat ls)]"
  let ?m = "(sp_layoutManager p)\<lparr>m_remoteLayouts := ls\<rparr>"
  have "length (concat ls) = 2 * length ls" using ls(1) by (induction ls) auto
  with ls(2) have len: "length (concat ls) < 2 ^ 30" by simp
  have i: "fmt_items (drop 4 kMsgDLanguageSynchronisation) = Some ?fs"
    by (simp add: kMsgDLanguageSynchronisation_def digit_of_def)
  obtain n where n: "getLength ?fs ?as = Some n" by simp
  have v: "delivered ?fs ?as = Some [Str (concat ls)]" using len by simp
  have "writeString (concat ls) = Some (be32 (of_nat (length (concat ls))) @ concat ls)"
    using writeString_Some [of "concat ls"] len by auto
  then obtain w where w: "writef_items ?fs ?as = Some w" "length w < 2 ^ 31" using len by simp
  have m: "setRemoteLayouts (concat ls) (sp_layoutManager p) = Some ?m"
    using layouts_roundtrip [of "\<lparr>m_localLayouts = ls, m_remoteLayouts = []\<rparr>" "sp_layoutManager p"] ls(1,2)
    by (simp add: serialized_concat)
  have "\<exists>s. handleData env p = handleData env (p\<lparr>sp_stream := s, sp_layoutManager := ?m\<rparr>) \<and> ps_inv s \<and> ps_packets s = ps"
    using waiting_client_round [OF assms(1) _ _ i n v w, where f = "\<lambda>p. p\<lparr>sp_layoutManager := ?m\<rparr>"] assms(1) m
    by (simp add: handshake_dispatch message_formats setServerLanguages_def str_def waiting_def)
  then show ?thesis using assms(1) by (auto simp: waiting_def idle_def)
qed

section \<open>The server's side\<close>

text \<open>An answer the server can take: 16-bit coordinates, a positive size, the cursor on the screen.\<close>

definition valid_answer :: "i32 \<times> i32 \<times> i32 \<times> i32 \<Rightarrow> i32 \<times> i32 \<Rightarrow> bool" where
  "valid_answer shape cursor =
     (case shape of (x, y, w, h) \<Rightarrow> case cursor of (mx, my) \<Rightarrow>
        list_all (\<lambda>v. as_coordinate v = v) [x, y, w, h, mx, my] \<and> 0 < sint w \<and> 0 < sint h \<and>
        sint x \<le> sint mx \<and> sint mx < sint x + sint w \<and> sint y \<le> sint my \<and> sint my < sint y + sint h)"

lemma sint_low16: "as_coordinate v = v \<Longrightarrow> sint (low16 v) = sint v"
  using sint_widened [of "low16 v"] by (simp add: as_coordinate_def)

lemma recvInfo_taken:
  assumes "valid_answer (x, y, w, h) (mx, my)" and "p_read env = ps_rd"
    and "readf_got ps_rd (drop 4 kMsgDInfo) s =
      ([Val2 (low16 x), Val2 (low16 y), Val2 (low16 w), Val2 (low16 h), d, Val2 (low16 mx), Val2 (low16 my)], None, s')"
  shows "recvInfo env (p\<lparr>cp_stream := s\<rparr>) = (Inr True, send kMsgCInfoAck []
    (p\<lparr>cp_stream := s', cp_info := \<lparr>ci_x = x, ci_y = y, ci_w = w, ci_h = h, ci_mx = mx, ci_my = my\<rparr>\<rparr>))"
proof -
  have c: "as_coordinate x = x" "as_coordinate y = y" "as_coordinate w = w" "as_coordinate h = h"
    "as_coordinate mx = mx" "as_coordinate my = my"
    using assms(1) by (simp_all add: valid_answer_def)
  then have v: "(scast (low16 x) :: i32) = x" "(scast (low16 y) :: i32) = y" "(scast (low16 w) :: i32) = w"
    "(scast (low16 h) :: i32) = h" "(scast (low16 mx) :: i32) = mx" "(scast (low16 my) :: i32) = my"
    by (simp_all add: as_coordinate_def)
  note r = readf_got_readf [OF assms(3)]
  note sint = c [THEN sint_low16]
  show ?thesis
    using assms(1) by (simp add: recvInfo_def assms(2) r Let_def sint valid_answer_def v)
qed

lemma answer_round:
  assumes env: "p_read env = ps_rd" and p: "cp_parser p = Handshake" "ps_inv (cp_stream p)"
      "ps_packets (cp_stream p) = [written kMsgDInfo (map Int_Arg [x, y, w, h, 0, mx, my])]"
    and v: "valid_answer (x, y, w, h) (mx, my)"
  shows "\<exists>s s'. cp_handleData env p = Some (None, resetHeartbeatTimer ((addHeartbeatTimer (cp_tell Ev_Ready
    (send kMsgCInfoAck [] (p\<lparr>cp_stream := s, cp_parser := Messages,
      cp_info := \<lparr>ci_x = x, ci_y = y, ci_w = w, ci_h = h, ci_mx = mx, ci_my = my\<rparr>\<rparr>))))\<lparr>cp_stream := s'\<rparr>))"
proof -
  let ?fs = "replicate 7 (Spec 2 CHR ''i'')" and ?as = "map Int_Arg [x, y, w, h, 0, mx, my]"
  let ?i = "\<lparr>ci_x = x, ci_y = y, ci_w = w, ci_h = h, ci_mx = mx, ci_my = my\<rparr>"
  have seven: "?fs = [Spec 2 CHR ''i'', Spec 2 CHR ''i'', Spec 2 CHR ''i'', Spec 2 CHR ''i'', Spec 2 CHR ''i'',
    Spec 2 CHR ''i'', Spec 2 CHR ''i'']" by (simp add: numeral_eq_Suc)
  have i: "fmt_items (drop 4 kMsgDInfo) = Some ?fs" unfolding seven by (simp add: kMsgDInfo_def digit_of_def)
  have n: "getLength ?fs ?as = Some 14" unfolding seven by simp
  have d: "delivered ?fs ?as = Some [Val2 (low16 x), Val2 (low16 y), Val2 (low16 w), Val2 (low16 h), Val2 0,
    Val2 (low16 mx), Val2 (low16 my)]" unfolding seven by (simp add: low16_def)
  obtain b where b: "writef_items ?fs ?as = Some b" "length b < 2 ^ 31" unfolding seven by simp
  let ?f = "\<lambda>p. addHeartbeatTimer (cp_tell Ev_Ready (send kMsgCInfoAck [] (p\<lparr>cp_parser := Messages, cp_info := ?i\<rparr>)))"
  have "\<exists>s s'. cp_handleData env p = Some (None, resetHeartbeatTimer ((?f (p\<lparr>cp_stream := s\<rparr>))\<lparr>cp_stream := s'\<rparr>)) \<and>
    ps_inv s' \<and> ps_packets s' = []"
  proof (rule server_round [OF env p(2,3) _ _ i n d b, where f = ?f])
    fix s s'
    assume g: "readf_got ps_rd (drop 4 kMsgDInfo) s = ([Val2 (low16 x), Val2 (low16 y), Val2 (low16 w), Val2 (low16 h), Val2 0,
      Val2 (low16 mx), Val2 (low16 my)], None, s')"
    have swap: "p\<lparr>cp_stream := t, cp_parser := Messages\<rparr> = p\<lparr>cp_parser := Messages, cp_stream := t\<rparr>" for t by simp
    show "cp_parse env (map of_char (take 4 kMsgDInfo)) (p\<lparr>cp_stream := s\<rparr>) = (Inr True, ?f (p\<lparr>cp_stream := s'\<rparr>))"
      using recvInfo_taken [OF v env g, of "p\<lparr>cp_parser := Messages\<rparr>"] p(1)
      by (simp add: cp_parse_def cp_parseHandshakeMessage_def is_msg_def message_formats swap)
  qed (simp_all add: kMsgDInfo_def)
  then show ?thesis by auto
qed

section \<open>The handshake\<close>

lemma client_takesI:
  assumes "\<And>s. \<lbrakk>ps_inv s; ps_packets s = ps\<rbrakk> \<Longrightarrow> \<exists>p'. handleData env (p\<lparr>sp_stream := s\<rparr>) = Some (None, p') \<and> Q p'"
  shows "client_takes env ps p Q"
  using assms by (simp add: client_takes_def)

lemma server_takesI:
  assumes "\<And>s. \<lbrakk>ps_inv s; ps_packets s = ps\<rbrakk> \<Longrightarrow> \<exists>p'. cp_handleData env (p\<lparr>cp_stream := s\<rparr>) = Some (None, p') \<and> Q p'"
  shows "server_takes env ps p Q"
  using assms by (simp add: server_takes_def)

text \<open>What the server's new proxy has sent.\<close>

lemma new_messages:
  "messages (cp_log (cp_new version name ls s)) =
    written kMsgQInfo [] # (if 8 \<le> version \<and> concat ls \<noteq> [] then [written kMsgDLanguageSynchronisation [Str_Arg (concat ls)]] else [])"
  by (simp add: cp_new_def synchronizeLanguages_def serialized_concat send_def cp_tell_def setHeartbeatRate_def Let_def)

lemma new_parser: "cp_parser (cp_new version name ls s) = Handshake"
  by (simp add: cp_new_def synchronizeLanguages_def send_def cp_tell_def setHeartbeatRate_def Let_def)

lemma first_round:
  assumes "e_read env = ps_rd" and "sp_parser p = Handshake" and "idle p" and "\<forall>l \<in> set ls. length l = 2" and "length ls < 2 ^ 28"
    and "\<And>log. e_shape env log = (x, y, w, h)" and "\<And>log. e_cursor env log = (mx, my)"
  shows "client_takes env (messages (cp_log (cp_new version name ls s))) p (\<lambda>p'.
    sp_parser p' = Handshake \<and> idle p' \<and> calls p' = calls p \<and>
    wrote p p' = [written kMsgDInfo (map Int_Arg [x, y, w, h, 0, mx, my])] \<and>
    m_remoteLayouts (sp_layoutManager p') = (if 8 \<le> version \<and> ls \<noteq> [] then ls else m_remoteLayouts (sp_layoutManager p)))"
proof (rule client_takesI)
  fix s' assume s': "ps_inv s'" "ps_packets s' = messages (cp_log (cp_new version name ls s))"
  let ?lang = "if 8 \<le> version \<and> concat ls \<noteq> [] then [written kMsgDLanguageSynchronisation [Str_Arg (concat ls)]] else []"
  let ?Q = "\<lambda>p'. sp_parser p' = Handshake \<and> idle p' \<and> calls p' = calls p \<and>
    wrote p p' = [written kMsgDInfo (map Int_Arg [x, y, w, h, 0, mx, my])] \<and>
    m_remoteLayouts (sp_layoutManager p') = (if 8 \<le> version \<and> ls \<noteq> [] then ls else m_remoteLayouts (sp_layoutManager p))"
  have ls: "concat ls \<noteq> [] \<longleftrightarrow> ls \<noteq> []" using assms(4) by (cases ls) auto
  have "waiting env (written kMsgQInfo [] # ?lang) (p\<lparr>sp_stream := s'\<rparr>)"
    using assms(1-3) s' by (simp add: waiting_def new_messages)
  from query_round [OF this] obtain s1 where
    q: "handleData env (p\<lparr>sp_stream := s'\<rparr>) = handleData env (queryInfo env (p\<lparr>sp_stream := s1\<rparr>))"
    "waiting env ?lang (queryInfo env (p\<lparr>sp_stream := s1\<rparr>))" by auto
  let ?q = "queryInfo env (p\<lparr>sp_stream := s1\<rparr>)"
  have told: "sp_log ?q = sp_log p @ [Write kMsgDInfo (map Int_Arg [x, y, w, h, 0, mx, my])]"
    "sp_layoutManager ?q = sp_layoutManager p"
    by (simp_all add: queryInfo_def sendInfo_def assms(6,7) tell_def)
  show "\<exists>p'. handleData env (p\<lparr>sp_stream := s'\<rparr>) = Some (None, p') \<and> ?Q p'"
  proof (cases "8 \<le> version \<and> ls \<noteq> []")
    case True
    then have "waiting env [written kMsgDLanguageSynchronisation [Str_Arg (concat ls)]] ?q" using q(2) ls by simp
    from language_round [OF this assms(4,5)] True obtain s2 where
      l: "handleData env ?q = handleData env (?q\<lparr>sp_stream := s2, sp_layoutManager := (sp_layoutManager ?q)\<lparr>m_remoteLayouts := ls\<rparr>\<rparr>)"
      "waiting env [] (?q\<lparr>sp_stream := s2, sp_layoutManager := (sp_layoutManager ?q)\<lparr>m_remoteLayouts := ls\<rparr>\<rparr>)" by blast
    let ?r = "?q\<lparr>sp_stream := s2, sp_layoutManager := (sp_layoutManager ?q)\<lparr>m_remoteLayouts := ls\<rparr>\<rparr>"
    from waiting_end [of env ?r] l(2) obtain s3 where "handleData env ?r = Some (None, ?r\<lparr>sp_stream := s3\<rparr>)"
      by (auto simp: waiting_def)
    moreover have "?Q (?r\<lparr>sp_stream := s3\<rparr>)"
      using l(2) told True by (simp add: waiting_def calls_def wrote_def idle_def)
    ultimately show ?thesis using q(1) l(1) by auto
  next
    case False
    then have w: "waiting env [] ?q" using q(2) ls by auto
    from waiting_end [of env ?q] w obtain s3 where "handleData env ?q = Some (None, ?q\<lparr>sp_stream := s3\<rparr>)"
      by (auto simp: waiting_def)
    moreover have "?Q (?q\<lparr>sp_stream := s3\<rparr>)"
      using w told False by (auto simp: waiting_def calls_def wrote_def idle_def)
    ultimately show ?thesis using q(1) by auto
  qed
qed

lemma second_round:
  assumes "p_read cenv = ps_rd" and "cp_parser cp = Handshake" and "valid_answer (x, y, w, h) (mx, my)"
  shows "server_takes cenv [written kMsgDInfo (map Int_Arg [x, y, w, h, 0, mx, my])] cp (\<lambda>cp'.
    Ev_Ready \<in> set (cp_log cp') \<and> cp_parser cp' = Messages \<and> getShape cp' = (x, y, w, h) \<and> getCursorPos cp' = (mx, my) \<and>
    (\<exists>es. cp_log cp' = cp_log cp @ es \<and> messages es = [written kMsgCInfoAck []]))"
proof (rule server_takesI)
  fix s' assume s': "ps_inv s'" "ps_packets s' = [written kMsgDInfo (map Int_Arg [x, y, w, h, 0, mx, my])]"
  let ?Q = "\<lambda>cp'. Ev_Ready \<in> set (cp_log cp') \<and> cp_parser cp' = Messages \<and> getShape cp' = (x, y, w, h) \<and>
    getCursorPos cp' = (mx, my) \<and> (\<exists>es. cp_log cp' = cp_log cp @ es \<and> messages es = [written kMsgCInfoAck []])"
  let ?a = "\<lambda>s1 s2. resetHeartbeatTimer ((addHeartbeatTimer (cp_tell Ev_Ready
    (send kMsgCInfoAck [] (cp\<lparr>cp_stream := s1, cp_parser := Messages,
      cp_info := \<lparr>ci_x = x, ci_y = y, ci_w = w, ci_h = h, ci_mx = mx, ci_my = my\<rparr>\<rparr>))))\<lparr>cp_stream := s2\<rparr>)"
  have "\<exists>s1 s2. cp_handleData cenv (cp\<lparr>cp_stream := s'\<rparr>) = Some (None, ?a s1 s2)"
    using answer_round [OF assms(1), of "cp\<lparr>cp_stream := s'\<rparr>" x y w h mx my] assms(2,3) s' by simp
  moreover have "?Q (?a s1 s2)" for s1 s2
    by (auto simp: timer_defs send_def getShape_def getCursorPos_def)
  ultimately show "\<exists>p'. cp_handleData cenv (cp\<lparr>cp_stream := s'\<rparr>) = Some (None, p') \<and> ?Q p'" by blast
qed

lemma set_options_keep_mouse:
  "sp_ignoreMouse (set_options os p) = sp_ignoreMouse p \<and> idle (set_options os p) = idle p"
proof (induction os p rule: set_options.induct)
  case (1 k v os p)
  have "sp_ignoreMouse (set_option k v p) = sp_ignoreMouse p \<and> idle (set_option k v p) = idle p"
    by (simp add: set_option_def setKeepAliveRate_def resetKeepAliveAlarm_def tell_def idle_def Let_def)
  with 1 show ?case by simp
qed simp_all

lemma completed:
  "sp_parser (completeHandshake p) = Messages" "calls (completeHandshake p) = calls p @ [Handshake_Complete]"
  "sp_ignoreMouse (completeHandshake p) = sp_ignoreMouse p" "idle (completeHandshake p) = idle p"
  "sp_stream (completeHandshake p) = sp_stream p"
  by (simp_all add: completeHandshake_def call_def tell_def calls_def idle_def Let_def)

lemma third_round:
  assumes "e_read env = ps_rd" and "sp_parser p = Handshake" and "idle p"
    and l: "even (length os)" "length os \<le> unat protocol_max_list_length"
  shows "client_takes env [written kMsgCInfoAck [], written kMsgCResetOptions [], written kMsgDSetOptions [Vec4_Arg os]] p (\<lambda>p'.
    sp_parser p' = Messages \<and> idle p' \<and> \<not> sp_ignoreMouse p' \<and>
    calls p' = calls p @ [Reset_Options, Set_Options os, Handshake_Complete])"
proof (rule client_takesI)
  fix s' assume s': "ps_inv s'"
    "ps_packets s' = [written kMsgCInfoAck [], written kMsgCResetOptions [], written kMsgDSetOptions [Vec4_Arg os]]"
  let ?p = "p\<lparr>sp_stream := s'\<rparr>"
  have "waiting env [written kMsgCInfoAck [], written kMsgCResetOptions [], written kMsgDSetOptions [Vec4_Arg os]] ?p"
    using assms(1-3) s' by (simp add: waiting_def)
  from acknowledged_round [OF this] obtain s1 where
    a: "handleData env ?p = handleData env (infoAcknowledgment (?p\<lparr>sp_stream := s1\<rparr>))"
    "waiting env [written kMsgCResetOptions [], written kMsgDSetOptions [Vec4_Arg os]] (infoAcknowledgment (?p\<lparr>sp_stream := s1\<rparr>))"
    by blast
  let ?a = "infoAcknowledgment (?p\<lparr>sp_stream := s1\<rparr>)"
  from reset_round [OF a(2)] obtain s2 where
    b: "handleData env ?a = handleData env (resetOptions (?a\<lparr>sp_stream := s2\<rparr>))"
    "waiting env [written kMsgDSetOptions [Vec4_Arg os]] (resetOptions (?a\<lparr>sp_stream := s2\<rparr>))" by blast
  let ?b = "resetOptions (?a\<lparr>sp_stream := s2\<rparr>)"
  have B: "calls ?b = calls p @ [Reset_Options]" "\<not> sp_ignoreMouse ?b"
    by (simp_all add: resetOptions_def setKeepAliveRate_def resetKeepAliveAlarm_def infoAcknowledgment_def
        call_def tell_def calls_def Let_def)
  from options_round [OF b(2) l] obtain s3 where
    c: "handleData env ?b = handleData env (completeHandshake (set_options os (call (Set_Options os) (?b\<lparr>sp_stream := s3\<rparr>))))"
    "ps_inv s3" "ps_packets s3 = []" by blast
  let ?c = "completeHandshake (set_options os (call (Set_Options os) (?b\<lparr>sp_stream := s3\<rparr>)))"
  have ib: "idle ?b" using b(2) by (simp add: waiting_def)
  then have C: "sp_parser ?c = Messages" "idle ?c" "\<not> sp_ignoreMouse ?c" "sp_stream ?c = s3"
    "calls ?c = calls p @ [Reset_Options, Set_Options os, Handshake_Complete]"
    using B by (simp_all add: completed set_options_keeps set_options_keep_mouse)
      (simp_all add: call_def tell_def idle_def)
  obtain s4 where "handleData env ?c = Some (None, ?c\<lparr>sp_stream := s4\<rparr>)"
    using waiting_end [OF assms(1) C(2)] c(2,3) C(4) by auto
  then show "\<exists>p'. handleData env ?p = Some (None, p') \<and> sp_parser p' = Messages \<and> idle p' \<and> \<not> sp_ignoreMouse p' \<and>
      calls p' = calls p @ [Reset_Options, Set_Options os, Handshake_Complete]"
    using a(1) b(1) c(1) C by (intro exI [of _ "?c\<lparr>sp_stream := s4\<rparr>"]) simp
qed

lemma client_takes_mono: "\<lbrakk>client_takes env ps p Q; \<And>p'. Q p' \<Longrightarrow> R p'\<rbrakk> \<Longrightarrow> client_takes env ps p R"
  by (fastforce simp: client_takes_def)

lemma server_takes_mono: "\<lbrakk>server_takes env ps p Q; \<And>p'. Q p' \<Longrightarrow> R p'\<rbrakk> \<Longrightarrow> server_takes env ps p R"
  by (fastforce simp: server_takes_def)

lemma options_sent:
  assumes "cp_log cp1 = cp_log cp @ es" and "messages es = [written kMsgCInfoAck []]" and "even (length os)"
  shows "sends_to cp (cp_setOptions os (cp_resetOptions cp1)) =
    [written kMsgCInfoAck [], written kMsgCResetOptions [], written kMsgDSetOptions [Vec4_Arg os]]"
proof -
  have "silent (send kMsgCResetOptions [] cp1) (cp_resetOptions cp1)"
    unfolding cp_resetOptions_def by (blast intro: silent_trans silent_timers)
  then obtain es' where r: "cp_log (cp_resetOptions cp1) = cp_log cp1 @ Sent kMsgCResetOptions [] # es'" "messages es' = []"
    by (auto simp: silent_def send_def cp_tell_def)
  have "silent (send kMsgDSetOptions [Vec4_Arg os] (cp_resetOptions cp1)) (cp_setOptions os (cp_resetOptions cp1))"
    using silent_check assms(3) by (simp add: cp_setOptions_def)
  then obtain es'' where "cp_log (cp_setOptions os (cp_resetOptions cp1)) =
      cp_log (cp_resetOptions cp1) @ Sent kMsgDSetOptions [Vec4_Arg os] # es''" "messages es'' = []"
    by (auto simp: silent_def send_def cp_tell_def)
  with r assms show ?thesis by (simp add: sends_to_def)
qed

text \<open>
  C4. The handshake completes. The server's new proxy and a client's waiting proxy exchange what
  they write: the client answers with the shape of its screen; the server takes a valid answer,
  is ready and knows exactly that shape and cursor; the acknowledgement and the options it then
  sends reset and set the client's options and complete the client's handshake, after which the
  client's proxy reads messages, has no motion pending and does not ignore the mouse. From
  version 1.8 on the client knows the server's keyboard layouts. Every loop returns, on every
  state of the packet filters that holds these messages.
\<close>

theorem handshake_completes:
  assumes "e_read env = ps_rd" and "p_read cenv = ps_rd" and "sp_parser p = Handshake" and "idle p"
    and "\<And>log. e_shape env log = (x, y, w, h)" and "\<And>log. e_cursor env log = (mx, my)" and "valid_answer (x, y, w, h) (mx, my)"
    and "\<forall>l \<in> set layouts. length l = 2" and "length layouts < 2 ^ 28"
    and "even (length os)" and "length os \<le> unat protocol_max_list_length"
    and cp: "cp = cp_new version name layouts s0"
  shows "client_takes env (messages (cp_log cp)) p (\<lambda>p1. calls p1 = calls p \<and>
    m_remoteLayouts (sp_layoutManager p1) = (if 8 \<le> version \<and> layouts \<noteq> [] then layouts else m_remoteLayouts (sp_layoutManager p)) \<and>
    wrote p p1 = [written kMsgDInfo (map Int_Arg [x, y, w, h, 0, mx, my])] \<and>
    server_takes cenv (wrote p p1) cp (\<lambda>cp1. Ev_Ready \<in> set (cp_log cp1) \<and> cp_parser cp1 = Messages \<and>
      getShape cp1 = (x, y, w, h) \<and> getCursorPos cp1 = (mx, my) \<and>
      sends_to cp (cp_setOptions os (cp_resetOptions cp1)) =
        [written kMsgCInfoAck [], written kMsgCResetOptions [], written kMsgDSetOptions [Vec4_Arg os]] \<and>
      client_takes env (sends_to cp (cp_setOptions os (cp_resetOptions cp1))) p1 (\<lambda>p2.
        sp_parser p2 = Messages \<and> idle p2 \<and> \<not> sp_ignoreMouse p2 \<and>
        calls p2 = calls p @ [Reset_Options, Set_Options os, Handshake_Complete])))"
proof -
  have third: "sends_to cp (cp_setOptions os (cp_resetOptions cp1)) =
        [written kMsgCInfoAck [], written kMsgCResetOptions [], written kMsgDSetOptions [Vec4_Arg os]] \<and>
      client_takes env (sends_to cp (cp_setOptions os (cp_resetOptions cp1))) p1 (\<lambda>p2.
      sp_parser p2 = Messages \<and> idle p2 \<and> \<not> sp_ignoreMouse p2 \<and>
      calls p2 = calls p @ [Reset_Options, Set_Options os, Handshake_Complete])"
    if "sp_parser p1 = Handshake" "idle p1" "calls p1 = calls p"
      "\<exists>es. cp_log cp1 = cp_log cp @ es \<and> messages es = [written kMsgCInfoAck []]" for p1 cp1
    using third_round [OF assms(1) that(1,2) assms(10,11)] options_sent [of cp1 cp _ os] that(3,4) assms(10) by auto
  have second: "server_takes cenv [written kMsgDInfo (map Int_Arg [x, y, w, h, 0, mx, my])] cp (\<lambda>cp1.
      Ev_Ready \<in> set (cp_log cp1) \<and> cp_parser cp1 = Messages \<and> getShape cp1 = (x, y, w, h) \<and> getCursorPos cp1 = (mx, my) \<and>
      (\<exists>es. cp_log cp1 = cp_log cp @ es \<and> messages es = [written kMsgCInfoAck []]))"
    by (rule second_round [OF assms(2) _ assms(7)]) (simp add: cp new_parser)
  show ?thesis
    unfolding cp
    by (rule client_takes_mono [OF first_round [OF assms(1,3,4,8,9,5,6)]])
      (use second third in \<open>auto simp: cp elim!: server_takes_mono\<close>)
qed

lemma demo_messages:
  "length (written kMsgQInfo []) = 4" "length (written kMsgCInfoAck []) = 4" "length (written kMsgCResetOptions []) = 4"
  "length (written kMsgDLanguageSynchronisation [Str_Arg [101, 110]]) = 10"
  "length (written kMsgDSetOptions [Vec4_Arg []]) = 8"
  "length (written kMsgDInfo [Int_Arg 0, Int_Arg 0, Int_Arg 800, Int_Arg 600, Int_Arg 0, Int_Arg 400, Int_Arg 300]) = 18"
  by (simp_all add: message_formats written_def writef_def vwritef_def writeString_def writeInt_def digit_of_def
      writeVectorInt.simps)

lemma demo_answer: "valid_answer (0, 0, 800, 600) (400, 300)"
  by (simp add: valid_answer_def as_coordinate_def low16_def)

lemma sendable_small: "\<lbrakk>0 < length w; length w \<le> 100\<rbrakk> \<Longrightarrow> sendable w"
  by (auto simp: sendable_def)

lemma client_took:
  assumes "client_takes env ps p Q" and "list_all sendable ps"
  obtains p' where "Q p'"
proof -
  obtain s where "ps_inv s" "ps_packets s = ps" by (rule filter_with_packets [OF assms(2)])
  with assms(1) that show thesis by (auto simp: client_takes_def)
qed

lemma server_took:
  assumes "server_takes env ps p Q" and "list_all sendable ps"
  obtains s p' where "cp_handleData env (p\<lparr>cp_stream := s\<rparr>) = Some (None, p')" and "Q p'"
proof -
  obtain s where "ps_inv s" "ps_packets s = ps" by (rule filter_with_packets [OF assms(2)])
  with assms(1) that show thesis by (auto simp: server_takes_def)
qed

lemma handshake_completes_witness:
  "\<exists>(p1 :: packet_filter server_proxy) (p2 :: packet_filter server_proxy) (cp1 :: packet_filter client_proxy).
    m_remoteLayouts (sp_layoutManager p1) = [[101, 110]] \<and> getShape cp1 = (0, 0, 800, 600) \<and>
    Ev_Ready \<in> set (cp_log cp1) \<and> calls p2 = calls p1 @ [Reset_Options, Set_Options [], Handshake_Complete]"
proof -
  let ?p = "proxy_new [] pf_init :: packet_filter server_proxy" and ?cp = "cp_new 8 [] [[101, 110]] pf_init"
  have p: "sp_parser ?p = Handshake" "idle ?p"
    by (simp_all add: proxy_new_def setKeepAliveRate_def resetKeepAliveAlarm_def tell_def idle_def Let_def)
  have env: "e_read demo_env = ps_rd" "p_read demo_cp_env = ps_rd" "\<And>log. e_shape demo_env log = (0, 0, 800, 600)"
    "\<And>log. e_cursor demo_env log = (400, 300)" by (simp_all add: demo_env_def demo_cp_env_def)
  note all = handshake_completes [OF env(1,2) p env(3,4) demo_answer, where layouts = "[[101, 110]]" and os = "[]" and
      cp = ?cp, OF _ _ _ _ HOL.refl]
  obtain p1 where p1: "calls p1 = calls ?p" "m_remoteLayouts (sp_layoutManager p1) = [[101, 110]]"
    "wrote ?p p1 = [written kMsgDInfo (map Int_Arg [0, 0, 800, 600, 0, 400, 300])]"
    "server_takes demo_cp_env (wrote ?p p1) ?cp (\<lambda>cp1. Ev_Ready \<in> set (cp_log cp1) \<and> cp_parser cp1 = Messages \<and>
      getShape cp1 = (0, 0, 800, 600) \<and> getCursorPos cp1 = (400, 300) \<and>
      sends_to ?cp (cp_setOptions [] (cp_resetOptions cp1)) =
        [written kMsgCInfoAck [], written kMsgCResetOptions [], written kMsgDSetOptions [Vec4_Arg []]] \<and>
      client_takes demo_env (sends_to ?cp (cp_setOptions [] (cp_resetOptions cp1))) p1 (\<lambda>p2.
        sp_parser p2 = Messages \<and> idle p2 \<and> \<not> sp_ignoreMouse p2 \<and>
        calls p2 = calls ?p @ [Reset_Options, Set_Options [], Handshake_Complete]))"
    by (rule client_took [OF all]) (auto simp: new_messages sendable_small demo_messages)
  obtain cp1 where cp1: "Ev_Ready \<in> set (cp_log cp1)" "getShape cp1 = (0, 0, 800, 600)"
    "sends_to ?cp (cp_setOptions [] (cp_resetOptions cp1)) =
      [written kMsgCInfoAck [], written kMsgCResetOptions [], written kMsgDSetOptions [Vec4_Arg []]]"
    "client_takes demo_env (sends_to ?cp (cp_setOptions [] (cp_resetOptions cp1))) p1 (\<lambda>p2.
        sp_parser p2 = Messages \<and> idle p2 \<and> \<not> sp_ignoreMouse p2 \<and>
        calls p2 = calls ?p @ [Reset_Options, Set_Options [], Handshake_Complete])"
    by (rule server_took [OF p1(4)]) (auto simp: p1(3) sendable_small demo_messages)
  obtain p2 :: "packet_filter server_proxy" where "calls p2 = calls ?p @ [Reset_Options, Set_Options [], Handshake_Complete]"
    by (rule client_took [OF cp1(4)]) (auto simp: cp1(3) sendable_small demo_messages)
  with p1 cp1 show ?thesis by metis
qed


text \<open>The examples for the properties of the server's proxy.\<close>

lemma demo_ready:
  obtains cp1 where "cp_reachable demo_cp_env cp1" and "Ev_Ready \<in> set (cp_log cp1)"
proof -
  let ?cp = "cp_new 8 [] [] pf_init"
  have "server_takes demo_cp_env [written kMsgDInfo (map Int_Arg [0, 0, 800, 600, 0, 400, 300])] ?cp (\<lambda>cp1.
      Ev_Ready \<in> set (cp_log cp1) \<and> cp_parser cp1 = Messages \<and> getShape cp1 = (0, 0, 800, 600) \<and> getCursorPos cp1 = (400, 300) \<and>
      (\<exists>es. cp_log cp1 = cp_log ?cp @ es \<and> messages es = [written kMsgCInfoAck []]))"
    by (rule second_round [OF _ _ demo_answer]) (simp_all add: demo_cp_env_def new_parser)
  then obtain s cp1 where h: "cp_handleData demo_cp_env (?cp\<lparr>cp_stream := s\<rparr>) = Some (None, cp1)" "Ev_Ready \<in> set (cp_log cp1)"
    by (rule server_took) (auto simp: sendable_small demo_messages)
  have "cp_reachable demo_cp_env (?cp\<lparr>cp_stream := s\<rparr>)"
    by (rule cp_reachable.step [OF cp_reachable.init cp_step.arrived])
  moreover have "cp_handlers (?cp\<lparr>cp_stream := s\<rparr>)"
    by (simp add: cp_new_def synchronizeLanguages_def setHeartbeatRate_def send_def cp_tell_def Let_def)
  ultimately have "cp_reachable demo_cp_env cp1" by (rule cp_reachable.step [OF _ cp_step.data [OF _ h(1)]])
  with h(2) that show thesis by blast
qed

lemma ready_client_watched_witness:
  "\<exists>p :: packet_filter client_proxy. length (filter ((=) Ev_Ready) (cp_log p)) = 1 \<and> cp_parser p = Messages \<and>
    (\<not> cp_handlers p \<or> cp_version p < 3 \<or> cp_heartbeatAlarm p = 3 * cp_keepAliveRate p)"
proof -
  obtain p where "cp_reachable demo_cp_env p" "Ev_Ready \<in> set (cp_log p)" by (rule demo_ready)
  from ready_client_watched [OF this] show ?thesis by blast
qed

lemma announced_shape_valid_witness:
  "\<exists>p' :: packet_filter client_proxy. sint (ci_w (cp_info p')) = 800 \<and> 0 < sint (ci_w (cp_info p')) \<and>
    sint (ci_mx (cp_info p')) < sint (ci_x (cp_info p')) + sint (ci_w (cp_info p'))"
proof -
  let ?i = "\<lparr>ci_x = 0, ci_y = 0, ci_w = 800, ci_h = 600, ci_mx = 400, ci_my = 300\<rparr>"
  let ?fs = "[Spec 2 CHR ''i'', Spec 2 CHR ''i'', Spec 2 CHR ''i'', Spec 2 CHR ''i'', Spec 2 CHR ''i'', Spec 2 CHR ''i'', Spec 2 CHR ''i'']"
  let ?as = "map Int_Arg [0, 0, 800, 600, 0, 400, 300]"
  obtain b where b: "writef_items ?fs ?as = Some b" "b \<noteq> []" "length b \<le> 100" by simp
  obtain s where s: "ps_inv s" "ps_packets s = [b]"
    by (rule filter_with_packets [of "[b]"]) (use b in \<open>simp_all add: sendable_small\<close>)
  have "\<exists>s'. readf_got ps_rd (drop 4 kMsgDInfo) s = ([Val2 (low16 0), Val2 (low16 0), Val2 (low16 800), Val2 (low16 600), Val2 0,
      Val2 (low16 400), Val2 (low16 300)], None, s') \<and> ps_inv s' \<and> ps_packets s' = []"
    by (rule pms.readf_packet [of _ ?fs ?as _ b]) (use b s in \<open>simp_all add: kMsgDInfo_def digit_of_def low16_def\<close>)
  then obtain s' where s': "readf_got ps_rd (drop 4 kMsgDInfo) s = ([Val2 (low16 0), Val2 (low16 0), Val2 (low16 800), Val2 (low16 600), Val2 0,
      Val2 (low16 400), Val2 (low16 300)], None, s')" by blast
  let ?p = "(cp_new 8 [] [] pf_init)\<lparr>cp_stream := s\<rparr>" and ?q = "send kMsgCInfoAck [] ((cp_new 8 [] [] pf_init)\<lparr>cp_stream := s', cp_info := ?i\<rparr>)"
  have r: "recvInfo demo_cp_env ?p = (Inr True, ?q)"
    by (rule recvInfo_taken [OF demo_answer _ s']) (simp add: demo_cp_env_def)
  have i: "cp_info ?q = ?i" by (simp add: send_def cp_tell_def)
  from announced_shape_valid [OF r] show ?thesis by (intro exI [of _ ?q]) (simp add: i)
qed

end
