(* ===== verification/Client.thy ===== *)
theory Client
  imports Server_Proxy
begin

text \<open>
  The client, \<^verbatim>\<open>client/Client.cpp\<close>: its connection to the server (connecting, hello, handshake,
  suspend and resume, every way to end), the clipboards it owns and sends, and the calls it
  forwards to its screen. The pointers \<^verbatim>\<open>m_stream\<close>, \<^verbatim>\<open>m_timer\<close> and \<^verbatim>\<open>m_server\<close> are the fields
  that say whether they are null; the event handlers the client has installed are fields too,
  because an event without a handler does nothing. Calls on the screen, events, the timer, the
  messages and the calls on the server proxy are appended to \<open>cl_log\<close>. Name resolution, sockets
  and the screen's answers are parameters. Log output and the capture of files are left out.
\<close>

section \<open>State\<close>

datatype screen_call =
    S_enable | S_disable | S_releaseMouseButtons
  | S_enter u32 | S_leave
  | S_mouseMove i32 i32 | S_mouseRelativeMove i32 i32 | S_mouseWheel i32 i32
  | S_mouseDown byte | S_mouseUp byte
  | S_keyDown u32 u32 u16 bytes | S_keyRepeat u32 u32 i32 u16 bytes | S_keyUp u32 u32 u16
  | S_screensaver bool | S_resetOptions | S_setOptions "u32 list"
  | S_setClipboard byte clipboard | S_grabClipboard byte

datatype client_effect =
    Screen_Call screen_call
  | Ipc_Connecting
  | Ipc_Refused refusal
  | Connect_Socket
  | Start_Timer | Stop_Timer
  | Hello_Back bytes "arg list"
  | Proxy_Info_Changed
  | Proxy_Grab_Clipboard byte
  | Proxy_Clipboard_Changed byte clipboard
  | Client_Connected
  | Client_Disconnected
  | Client_Connection_Failed string
  | Client_Connection_Refused string
  | Input_Ready
  | Set_Capture_Sender bool

datatype input_handler = No_Handler | Hello_Handler | Proxy_Handler

record 's client =
  cl_name :: bytes
  cl_stream :: "'s option"
  cl_timer :: bool
  cl_server :: bool
  cl_ready :: bool
  cl_active :: bool
  cl_suspended :: bool
  cl_connectOnResume :: bool
  cl_ownClipboard :: "bool list"
  cl_sentClipboard :: "bool list"
  cl_timeClipboard :: "u32 list"
  cl_dataClipboard :: "bytes list"
  cl_enableClipboard :: bool
  cl_relativeMouseMoves :: bool
  cl_hasRelativeRestorePosition :: bool
  cl_relativeRestoreX :: i32
  cl_relativeRestoreY :: i32
  cl_maximumClipboardSize :: nat
  cl_resolvedAddressesCount :: nat
  cl_connecting_handlers :: bool
  cl_connection_handlers :: bool
  cl_input_handler :: input_handler
  cl_screen_handlers :: bool
  cl_log :: "client_effect list"

text \<open>
  The surroundings: the outcome of resolving the address and of creating and connecting the
  socket (\<^const>\<open>Inl\<close>: the text of the exception), the stream's operations, whether a name is that
  of a known protocol, and the screen's answers.
\<close>

record 's client_env =
  c_resolve :: "nat \<Rightarrow> string + nat \<times> bool"
  c_create :: "string + 's"
  c_connect :: "string option"
  c_read :: "nat \<Rightarrow> 's \<Rightarrow> bytes \<times> 's"
  c_isReady :: "'s \<Rightarrow> bool"
  c_known_protocol :: "bytes \<Rightarrow> bool"
  c_incompatible :: "u16 \<Rightarrow> u16 \<Rightarrow> string"
  c_cursor :: "client_effect list \<Rightarrow> i32 \<times> i32"
  c_getClipboard :: "client_effect list \<Rightarrow> byte \<Rightarrow> clipboard \<Rightarrow> clipboard"

definition INT_MAX :: nat where "INT_MAX = 2 ^ 31 - 1"

definition note_effect :: "client_effect \<Rightarrow> 's client \<Rightarrow> 's client" where
  "note_effect e c = c\<lparr>cl_log := cl_log c @ [e]\<rparr>"

definition on_screen :: "screen_call \<Rightarrow> 's client \<Rightarrow> 's client" where
  "on_screen s = note_effect (Screen_Call s)"

section \<open>Cleaning up\<close>

definition cleanupTimer :: "'s client \<Rightarrow> 's client" where
  "cleanupTimer c = (if cl_timer c then (note_effect Stop_Timer c)\<lparr>cl_timer := False\<rparr> else c)"

definition cleanupStream :: "'s client \<Rightarrow> 's client" where
  "cleanupStream c = c\<lparr>cl_stream := None\<rparr>"

definition cleanupConnecting :: "'s client \<Rightarrow> 's client" where
  "cleanupConnecting c = (if cl_stream c \<noteq> None then c\<lparr>cl_connecting_handlers := False\<rparr> else c)"

definition cleanupConnection :: "'s client \<Rightarrow> 's client" where
  "cleanupConnection c =
     (if cl_stream c \<noteq> None
      then cleanupStream (c\<lparr>cl_connection_handlers := False, cl_input_handler := No_Handler\<rparr>)
      else c)"

text \<open>Deleting the server proxy removes its handler of the stream's input.\<close>

definition cleanupScreen :: "'s client \<Rightarrow> 's client" where
  "cleanupScreen c =
     (let c = note_effect (Set_Capture_Sender False) c in
      if cl_server c then
        let c = (if cl_ready c
                 then (on_screen S_disable (on_screen S_releaseMouseButtons c))\<lparr>cl_ready := False\<rparr> else c)
        in c\<lparr>cl_screen_handlers := False, cl_input_handler := No_Handler, cl_server := False\<rparr>
      else c)"

definition cleanup :: "'s client \<Rightarrow> 's client" where
  "cleanup c =
     cleanupConnection (cleanupConnecting (cleanupScreen (cleanupTimer (c\<lparr>cl_connectOnResume := False\<rparr>))))"

definition sendEvent :: "client_effect \<Rightarrow> 's client \<Rightarrow> 's client" where
  "sendEvent = note_effect"

definition sendConnectionFailedEvent :: "string \<Rightarrow> 's client \<Rightarrow> 's client" where
  "sendConnectionFailedEvent msg = note_effect (Client_Connection_Failed msg)"

section \<open>Setting up\<close>

definition setupConnecting :: "'s client \<Rightarrow> 's client option" where
  "setupConnecting c = (if cl_stream c = None then None else Some (c\<lparr>cl_connecting_handlers := True\<rparr>))"

definition setupConnection :: "'s client \<Rightarrow> 's client option" where
  "setupConnection c =
     (if cl_stream c = None then None
      else Some (c\<lparr>cl_connection_handlers := True, cl_input_handler := Hello_Handler\<rparr>))"

text \<open>The constructor of the server proxy takes over the stream's input.\<close>

definition setupScreen :: "'s client \<Rightarrow> 's client option" where
  "setupScreen c =
     (if cl_server c \<or> cl_stream c = None then None
      else Some (c\<lparr>cl_ready := False, cl_server := True, cl_input_handler := Proxy_Handler, cl_screen_handlers := True\<rparr>))"

definition setupTimer :: "'s client \<Rightarrow> 's client option" where
  "setupTimer c = (if cl_timer c then None else Some ((note_effect Start_Timer c)\<lparr>cl_timer := True\<rparr>))"

text \<open>
  \<^verbatim>\<open>connect\<close>; \<^const>\<open>None\<close> is a failed assertion, here and below. The exceptions of the network code
  end the attempt.
\<close>

definition connect_failed :: "string \<Rightarrow> 's client \<Rightarrow> 's client" where
  "connect_failed what c =
     sendConnectionFailedEvent what (cleanupStream (cleanupConnecting (cleanupTimer c)))"

definition connect_client :: "'s client_env \<Rightarrow> nat \<Rightarrow> 's client \<Rightarrow> 's client option" where
  "connect_client env addressIndex c =
     (if cl_stream c \<noteq> None then Some c
      else if cl_suspended c then Some (c\<lparr>cl_connectOnResume := True\<rparr>)
      else case c_resolve env addressIndex of
        Inl what \<Rightarrow> Some (connect_failed what c)
      | Inr (count, resolved) \<Rightarrow>
          let c = c\<lparr>cl_resolvedAddressesCount := count\<rparr>;
              c = (if resolved then note_effect Ipc_Connecting c else c) in
          (case c_create env of
             Inl what \<Rightarrow> Some (connect_failed what c)
           | Inr s \<Rightarrow>
               (case Option.bind (setupConnecting (c\<lparr>cl_stream := Some s\<rparr>)) setupTimer of
                  None \<Rightarrow> None
                | Some c \<Rightarrow>
                    (case c_connect env of
                       Some what \<Rightarrow> Some (connect_failed what c)
                     | None \<Rightarrow> Some (note_effect Connect_Socket c)))))"

definition disconnect_client :: "string option \<Rightarrow> 's client \<Rightarrow> 's client" where
  "disconnect_client msg c =
     (case msg of
        Some text \<Rightarrow> sendConnectionFailedEvent text (cleanup c)
      | None \<Rightarrow> sendEvent Client_Disconnected (cleanup c))"

definition refuseConnection :: "refusal \<Rightarrow> string option \<Rightarrow> 's client \<Rightarrow> 's client" where
  "refuseConnection reason msg c =
     (let c = cleanup (note_effect (Ipc_Refused reason) c) in
      case msg of Some text \<Rightarrow> note_effect (Client_Connection_Refused text) c | None \<Rightarrow> c)"

section \<open>Calls from the server\<close>

definition saveRelativeRestorePosition :: "'s client_env \<Rightarrow> 's client \<Rightarrow> 's client" where
  "saveRelativeRestorePosition env c =
     (case c_cursor env (cl_log c) of (x, y) \<Rightarrow>
        c\<lparr>cl_relativeRestoreX := x, cl_relativeRestoreY := y, cl_hasRelativeRestorePosition := True\<rparr>)"

definition handshakeComplete :: "'s client_env \<Rightarrow> 's client \<Rightarrow> 's client" where
  "handshakeComplete env c =
     (let c = on_screen S_enable (c\<lparr>cl_ready := True\<rparr>);
          c = (if cl_relativeMouseMoves c \<and> \<not> cl_hasRelativeRestorePosition c
               then saveRelativeRestorePosition env c else c)
      in sendEvent Client_Connected c)"

definition client_enter :: "i32 \<Rightarrow> i32 \<Rightarrow> u32 \<Rightarrow> 's client \<Rightarrow> 's client" where
  "client_enter x y m c =
     (let c = c\<lparr>cl_active := True\<rparr>;
          (x, y) = (if cl_relativeMouseMoves c \<and> cl_hasRelativeRestorePosition c
                    then (cl_relativeRestoreX c, cl_relativeRestoreY c) else (x, y))
      in on_screen (S_enter m) (on_screen (S_mouseMove x y) c))"

text \<open>
  \<^verbatim>\<open>sendClipboard\<close>: the time of the last clipboard is put into the clipboard that the screen
  fills, so that it can tell whether anything changed.
\<close>

definition sendClipboardData :: "'s client_env \<Rightarrow> byte \<Rightarrow> 's client \<Rightarrow> 's client option" where
  "sendClipboardData env cid c =
     (if \<not> cl_server c then None
      else
        let k = unat cid;
            cb = cb_do_close (snd (cb_do_open (cl_timeClipboard c ! k) cb_init));
            cb = c_getClipboard env (cl_log c) cid cb;
            time = cb_time_owned cb
        in Some (
          if cl_timeClipboard c ! k = 0 \<or> time \<noteq> cl_timeClipboard c ! k then
            let data = fst (cb_marshall cb) in
            if length data > cl_maximumClipboardSize c then c
            else
              let c = c\<lparr>cl_timeClipboard := (cl_timeClipboard c)[k := time]\<rparr> in
              if \<not> cl_sentClipboard c ! k \<or> data \<noteq> cl_dataClipboard c ! k then
                note_effect (Proxy_Clipboard_Changed cid cb)
                  (c\<lparr>cl_sentClipboard := (cl_sentClipboard c)[k := True],
                     cl_dataClipboard := (cl_dataClipboard c)[k := data]\<rparr>)
              else c
          else c))"

fun send_owned :: "'s client_env \<Rightarrow> byte list \<Rightarrow> 's client \<Rightarrow> 's client option" where
  "send_owned env [] c = Some c"
| "send_owned env (cid # cids) c =
     (if cl_ownClipboard c ! unat cid
      then Option.bind (sendClipboardData env cid c) (send_owned env cids) else send_owned env cids c)"

definition client_leave :: "'s client_env \<Rightarrow> 's client \<Rightarrow> 's client option" where
  "client_leave env c =
     (let c = (if cl_relativeMouseMoves c then saveRelativeRestorePosition env c else c);
          c = on_screen S_leave (c\<lparr>cl_active := False\<rparr>)
      in if cl_enableClipboard c then send_owned env [0, 1] c else Some c)"

definition disown :: "byte \<Rightarrow> 's client \<Rightarrow> 's client" where
  "disown cid c = c\<lparr>cl_ownClipboard := (cl_ownClipboard c)[unat cid := False],
                    cl_sentClipboard := (cl_sentClipboard c)[unat cid := False]\<rparr>"

definition client_setClipboard :: "byte \<Rightarrow> clipboard \<Rightarrow> 's client \<Rightarrow> 's client" where
  "client_setClipboard cid cb c = disown cid (on_screen (S_setClipboard cid cb) c)"

definition client_grabClipboard :: "byte \<Rightarrow> 's client \<Rightarrow> 's client" where
  "client_grabClipboard cid c = disown cid (on_screen (S_grabClipboard cid) c)"

definition client_resetOptions :: "'s client \<Rightarrow> 's client" where
  "client_resetOptions c =
     on_screen S_resetOptions
       ((note_effect (Set_Capture_Sender False) c)
          \<lparr>cl_relativeMouseMoves := False, cl_hasRelativeRestorePosition := False\<rparr>)"

text \<open>
  The loop over the options steps over an option it does not know by one element. \<^const>\<open>None\<close>: an
  option without a value at the end, behind which the iterator runs past the end of the list.
\<close>

fun client_options :: "'s client_env \<Rightarrow> u32 list \<Rightarrow> 's client \<Rightarrow> 's client option" where
  "client_options env [] c = Some c"
| "client_options env [k] c =
     (if k = kOptionClipboardSharing \<or> k = kOptionClipboardSharingSize \<or> k = kOptionRelativeMouseMoves
      then None else Some c)"
| "client_options env (k # v # os) c =
     (if k = kOptionCaptureTransfer then
        client_options env os (if v = 1 then note_effect (Set_Capture_Sender True) c else c)
      else if k = kOptionClipboardSharing then client_options env os (c\<lparr>cl_enableClipboard := (v \<noteq> 0)\<rparr>)
      else if k = kOptionClipboardSharingSize then
        client_options env os (c\<lparr>cl_maximumClipboardSize := unat v\<rparr>)
      else if k = kOptionRelativeMouseMoves then
        (let c = c\<lparr>cl_relativeMouseMoves := (v \<noteq> 0)\<rparr>
         in client_options env os
              (if cl_relativeMouseMoves c \<and> cl_ready c \<and> \<not> cl_hasRelativeRestorePosition c
               then saveRelativeRestorePosition env c else c))
      else client_options env (v # os) c)"

definition client_setOptions :: "'s client_env \<Rightarrow> u32 list \<Rightarrow> 's client \<Rightarrow> 's client option" where
  "client_setOptions env os c =
     (if length os mod 2 \<noteq> 0 then Some c
      else map_option (\<lambda>c.
          let c = (if cl_enableClipboard c \<and> cl_maximumClipboardSize c = 0
                   then c\<lparr>cl_enableClipboard := False\<rparr> else c)
          in on_screen (S_setOptions os) c)
        (client_options env os c))"

text \<open>The calls of the server proxy, \<^const>\<open>None\<close> as above.\<close>

fun client_do :: "'s client_env \<Rightarrow> client_call \<Rightarrow> 's client \<Rightarrow> 's client option" where
  "client_do env Handshake_Complete c = Some (handshakeComplete env c)"
| "client_do env (Enter x y seqNum m) c = Some (client_enter x y m c)"
| "client_do env Leave c = client_leave env c"
| "client_do env (Set_Clipboard cid cb) c = Some (client_setClipboard cid cb c)"
| "client_do env (Grab_Clipboard cid) c = Some (client_grabClipboard cid c)"
| "client_do env (Key_Down k m b lang) c = Some (on_screen (S_keyDown k m b lang) c)"
| "client_do env (Key_Repeat k m n b lang) c = Some (on_screen (S_keyRepeat k m n b lang) c)"
| "client_do env (Key_Up k m b) c = Some (on_screen (S_keyUp k m b) c)"
| "client_do env (Mouse_Down b) c = Some (on_screen (S_mouseDown b) c)"
| "client_do env (Mouse_Up b) c = Some (on_screen (S_mouseUp b) c)"
| "client_do env (Mouse_Move x y) c = Some (on_screen (S_mouseMove x y) c)"
| "client_do env (Mouse_Relative_Move x y) c = Some (on_screen (S_mouseRelativeMove x y) c)"
| "client_do env (Mouse_Wheel x y) c = Some (on_screen (S_mouseWheel x y) c)"
| "client_do env (Screensaver on) c = Some (on_screen (S_screensaver on) c)"
| "client_do env Reset_Options c = Some (client_resetOptions c)"
| "client_do env (Set_Options os) c = client_setOptions env os c"

section \<open>Events\<close>

definition handleConnected :: "'s client \<Rightarrow> 's client option" where
  "handleConnected c =
     map_option (\<lambda>c. c\<lparr>cl_ownClipboard := replicate 2 False, cl_sentClipboard := replicate 2 False,
                       cl_timeClipboard := replicate 2 0\<rparr>)
       (setupConnection (cleanupConnecting c))"

definition handleConnectionFailed :: "string \<Rightarrow> 's client \<Rightarrow> 's client" where
  "handleConnectionFailed what c = connect_failed what c"

definition handleConnectTimeout :: "'s client \<Rightarrow> 's client" where
  "handleConnectTimeout c =
     sendConnectionFailedEvent ''Timed out''
       (cleanupStream (cleanupConnection (cleanupConnecting (cleanupTimer c))))"

definition handleOutputError :: "'s client \<Rightarrow> 's client" where
  "handleOutputError c = sendEvent Client_Disconnected (cleanupConnection (cleanupScreen (cleanupTimer c)))"

definition handleDisconnected :: "'s client \<Rightarrow> 's client" where
  "handleDisconnected c = sendEvent Client_Disconnected (cleanupConnection (cleanupScreen (cleanupTimer c)))"

datatype disconnect_request = Ask_Disconnect string | Ask_Refuse refusal string

definition request_text :: "string \<Rightarrow> string option" where
  "request_text msg = (if msg = [] then None else Some msg)"

definition handleDisconnectRequested :: "disconnect_request option \<Rightarrow> 's client \<Rightarrow> 's client" where
  "handleDisconnectRequested request c =
     (case request of
        None \<Rightarrow> disconnect_client None c
      | Some (Ask_Refuse reason msg) \<Rightarrow> refuseConnection reason (request_text msg) c
      | Some (Ask_Disconnect msg) \<Rightarrow> disconnect_client (request_text msg) c)"

text \<open>A null server proxy would be dereferenced: \<^const>\<open>None\<close>.\<close>

definition handleShapeChanged :: "'s client \<Rightarrow> 's client option" where
  "handleShapeChanged c = (if cl_server c then Some (note_effect Proxy_Info_Changed c) else None)"

definition handleClipboardGrabbed :: "'s client_env \<Rightarrow> byte \<Rightarrow> 's client \<Rightarrow> 's client option" where
  "handleClipboardGrabbed env cid c =
     (if \<not> cl_enableClipboard c \<or> cl_maximumClipboardSize c = 0 then Some c
      else if \<not> cl_server c then None
      else
        let k = unat cid;
            c = note_effect (Proxy_Grab_Clipboard cid) c;
            c = c\<lparr>cl_ownClipboard := (cl_ownClipboard c)[k := True], cl_sentClipboard := (cl_sentClipboard c)[k := False],
                  cl_timeClipboard := (cl_timeClipboard c)[k := 0]\<rparr>
        in if \<not> cl_active c then sendClipboardData env cid c else Some c)"

definition kProtocolMajorVersion :: u16 where "kProtocolMajorVersion = 1"
definition kProtocolMinorVersion :: u16 where "kProtocolMinorVersion = 8"
definition kMsgHello :: string where "kMsgHello = ''%7s%2i%2i''"

text \<open>
  \<^verbatim>\<open>handleHello\<close>; the stop \<^const>\<open>Indeterminate\<close> is the use of a version that the message did not
  bring. The hello back is the name of the protocol with \<^verbatim>\<open>kMsgHelloBackArgs\<close> behind it.
\<close>

definition hello_failed :: "string \<Rightarrow> 's client \<Rightarrow> 's client" where
  "hello_failed what c = cleanupConnection (cleanupTimer (sendConnectionFailedEvent what c))"

definition handleHello :: "'s client_env \<Rightarrow> 's client \<Rightarrow> (stop + 's client) option" where
  "handleHello env c =
     (case cl_stream c of
        None \<Rightarrow> None
      | Some s \<Rightarrow>
          (case readf_got (c_read env) kMsgHello s of (vs, e, s') \<Rightarrow>
             let c = c\<lparr>cl_stream := Some s'\<rparr>; name = str vs 0 in
             if e \<noteq> None \<and> e \<noteq> Some End_Of_Stream \<and> e \<noteq> Some Read_Mismatch then Some (Inl (Thrown (the e)))
             else if \<not> c_known_protocol env name then
               Some (Inr (hello_failed ''got invalid hello message from server'' c))
             else if length vs < 3 then Some (Inl Indeterminate)
             else
               let major = val2 vs 1; minor = val2 vs 2 in
               if major \<noteq> kProtocolMajorVersion then
                 Some (Inr (hello_failed (c_incompatible env major minor) c))
               else
                 let back = (if sint minor < sint kProtocolMinorVersion then minor else kProtocolMinorVersion);
                     c = note_effect (Hello_Back name
                           [Int_Arg (scast kProtocolMajorVersion), Int_Arg (scast back), Str_Arg (cl_name c)]) c in
                 map_option (\<lambda>c.
                     let c = cleanupTimer c
                     in Inr (if c_isReady env s' then note_effect Input_Ready c else c))
                   (setupScreen c)))"

definition handleSuspend :: "'s client \<Rightarrow> 's client" where
  "handleSuspend c =
     (if \<not> cl_suspended c then
        let c = c\<lparr>cl_suspended := True\<rparr>; wasConnected = cl_server c; c = disconnect_client None c
        in c\<lparr>cl_connectOnResume := wasConnected\<rparr>
      else c)"

definition handleResume :: "'s client_env \<Rightarrow> 's client \<Rightarrow> 's client option" where
  "handleResume env c =
     (if cl_suspended c then
        let c = c\<lparr>cl_suspended := False\<rparr> in
        if cl_connectOnResume c then connect_client env 0 (c\<lparr>cl_connectOnResume := False\<rparr>) else Some c
      else Some c)"

end
