(* ===== verification/Client_Listener.thy ===== *)
theory Client_Listener
  imports Client_Proxy Client Packet_Filter
begin

text \<open>
  How the server takes a connection: \<^verbatim>\<open>server/ClientListener.cpp\<close> and \<^verbatim>\<open>ClientProxyUnknown.cpp\<close>.
  Connections are numbered; the number stands for the socket, the packet filter on it, the
  unknown client and its proxy, so that the reuse of an address is not modelled. The state holds
  the objects of the listener, the handlers that name them, and the events they have queued,
  which are dispatched in order. The sockets and the packet filters live in a store: making one
  adds it, deleting one removes it, and every call on one that is not there sets a fault, which
  is all that the model knows about the use of a deleted object. A failed assertion is
  \<^const>\<open>None\<close>. Log output is left out.
\<close>

section \<open>State\<close>

definition kMsgHelloArgs :: string where "kMsgHelloArgs = ''%2i%2i''"
definition kMsgHelloBack :: string where "kMsgHelloBack = ''%7s%2i%2i%s''"
definition kMsgHelloBackArgs :: string where "kMsgHelloBackArgs = ''%2i%2i%s''"
definition kMaxHelloLength :: u32 where "kMaxHelloLength = 1024"

datatype listen_event =
    Proxy_Ready nat
  | Proxy_Disconnected nat
  | Unknown_Success nat
  | Unknown_Failure nat
  | Listener_Accepted
  | Socket_Accepted nat

datatype listen_effect =
    Written nat string "arg list"
  | Stream_Closed nat
  | Proxy_Deleted nat
  | Socket_Deleted nat

text \<open>What a pointer to a stream can point to. The packet filter of a connection is the stream of its clients.\<close>

datatype stream_object = Socket_Obj nat | Filter_Obj nat

record 's unknown_client =
  un_stream :: "'s option"
  un_timer :: bool
  un_proxy :: "'s client_proxy option"
  un_ready :: bool
  un_handlers :: bool

text \<open>
  The members of the listener, then the handlers: \<open>li_proxy_handlers\<close> those that unknown clients
  have on their proxies, \<open>li_watching\<close> the listener's on waiting proxies, \<open>li_accepting\<close> those on
  sockets. The handlers on unknown clients are installed and removed with \<open>li_new\<close>.
  \<open>li_adopted\<close> are the proxies that the server has taken, \<open>li_live\<close> the sockets and packet filters
  that have been made and not deleted.
\<close>

record 's listener =
  li_new :: "nat \<Rightarrow> 's unknown_client option"
  li_waiting :: "(nat \<times> 's client_proxy) list"
  li_sockets :: "nat list"
  li_proxy_handlers :: "nat list"
  li_watching :: "nat list"
  li_accepting :: "nat list"
  li_adopted :: "(nat \<times> 's client_proxy) list"
  li_queue :: "listen_event list"
  li_live :: "stream_object set"
  li_fault :: bool
  li_log :: "listen_effect list"

record 's listen_env =
  l_proxy :: "'s cp_env"
  l_getSize :: "'s \<Rightarrow> u32"
  l_protocol :: string
  l_layouts :: "bytes list"
  l_plain :: bool

definition add_event :: "listen_event \<Rightarrow> 's listener \<Rightarrow> 's listener" where
  "add_event e l = l\<lparr>li_queue := li_queue l @ [e]\<rparr>"

definition li_note :: "listen_effect \<Rightarrow> 's listener \<Rightarrow> 's listener" where
  "li_note e l = l\<lparr>li_log := li_log l @ [e]\<rparr>"

definition set_unknown :: "nat \<Rightarrow> 's unknown_client \<Rightarrow> 's listener \<Rightarrow> 's listener" where
  "set_unknown n u l = l\<lparr>li_new := (li_new l)(n \<mapsto> u)\<rparr>"

section \<open>The objects\<close>

text \<open>A call on an object, the messages written to a stream, and its end, which reach the socket below.\<close>

definition use_object :: "stream_object \<Rightarrow> 's listener \<Rightarrow> 's listener" where
  "use_object ob l = l\<lparr>li_fault := li_fault l \<or> ob \<notin> li_live l\<rparr>"

definition write_stream :: "nat \<Rightarrow> string \<Rightarrow> arg list \<Rightarrow> 's listener \<Rightarrow> 's listener" where
  "write_stream n fmt as l = li_note (Written n fmt as) (use_object (Socket_Obj n) (use_object (Filter_Obj n) l))"

definition close_stream :: "nat \<Rightarrow> 's listener \<Rightarrow> 's listener" where
  "close_stream n l = li_note (Stream_Closed n) (use_object (Socket_Obj n) (use_object (Filter_Obj n) l))"

text \<open>
  The filters of the listener do not own their sockets: the destructor only takes the handler off
  the socket, and the constructor replaces all handlers of the socket by its own.
\<close>

fun delete_object :: "stream_object \<Rightarrow> 's listener \<Rightarrow> 's listener" where
  "delete_object (Socket_Obj n) l =
     (let l = use_object (Socket_Obj n) l in li_note (Socket_Deleted n) (l\<lparr>li_live := li_live l - {Socket_Obj n}\<rparr>))"
| "delete_object (Filter_Obj n) l =
     (let l = use_object (Socket_Obj n) (use_object (Filter_Obj n) l) in l\<lparr>li_live := li_live l - {Filter_Obj n}\<rparr>)"

definition new_filter :: "nat \<Rightarrow> 's listener \<Rightarrow> 's listener" where
  "new_filter n l =
     (let l = use_object (Socket_Obj n) l
      in l\<lparr>li_accepting := removeAll n (li_accepting l), li_live := insert (Filter_Obj n) (li_live l)\<rparr>)"

text \<open>The destructor of a proxy takes its handlers off the stream and deletes the stream, which it owns.\<close>

definition delete_proxy :: "nat \<Rightarrow> 's listener \<Rightarrow> 's listener" where
  "delete_proxy n l = li_note (Proxy_Deleted n) (delete_object (Filter_Obj n) (use_object (Filter_Obj n) l))"

text \<open>\<^verbatim>\<open>PacketStreamFilter::getSize\<close>, the size of the packet that can be read.\<close>

definition pf_getSize :: "packet_filter \<Rightarrow> u32" where
  "pf_getSize f = (if pf_is_ready f then pf_size f else 0)"

section \<open>The unknown client\<close>

definition un_removeHandlers :: "nat \<Rightarrow> 's unknown_client \<Rightarrow> 's listener \<Rightarrow> 's unknown_client \<times> 's listener" where
  "un_removeHandlers n u l =
     (if un_stream u \<noteq> None then u\<lparr>un_handlers := False\<rparr> else u,
      let l = (if un_stream u \<noteq> None then use_object (Filter_Obj n) l else l)
      in if un_proxy u \<noteq> None then l\<lparr>li_proxy_handlers := removeAll n (li_proxy_handlers l)\<rparr> else l)"

definition sendSuccess :: "nat \<Rightarrow> 's unknown_client \<Rightarrow> 's listener \<Rightarrow> 's listener" where
  "sendSuccess n u l = add_event (Unknown_Success n) (set_unknown n (u\<lparr>un_ready := True, un_timer := False\<rparr>) l)"

text \<open>The proxy is forgotten before \<^verbatim>\<open>removeHandlers\<close>, whose test for it then fails.\<close>

definition sendFailure :: "nat \<Rightarrow> 's unknown_client \<Rightarrow> 's listener \<Rightarrow> 's listener" where
  "sendFailure n u l =
     (let l = (if un_proxy u \<noteq> None then delete_proxy n l else l);
          (u, l) = un_removeHandlers n (u\<lparr>un_proxy := None, un_ready := False\<rparr>) l
      in add_event (Unknown_Failure n) (set_unknown n (u\<lparr>un_timer := False\<rparr>) l))"

text \<open>
  The hello of the client: the versions 1.0 to 1.8 get their proxy, which owns the stream from
  then on.
\<close>

datatype hello_reply = Reply_Good bytes nat | Reply_Incompatible | Reply_Bad

definition initProxy :: "u16 \<Rightarrow> u16 \<Rightarrow> nat option" where
  "initProxy major minor =
     (if sint major = 1 \<and> 0 \<le> sint minor \<and> sint minor \<le> 8 then Some (nat (sint minor)) else None)"

definition parse_hello :: "'s listen_env \<Rightarrow> 's \<Rightarrow> (stop + hello_reply) \<times> 's" where
  "parse_hello env s =
     (if l_getSize env s > kMaxHelloLength then (Inr Reply_Bad, s)
      else case readf (p_read (l_proxy env)) kMsgHelloBack s of
        (Inl e, s) \<Rightarrow> (if e = Bad_Client then Inr Reply_Bad else Inl (Thrown e), s)
      | (Inr (Some [_, Val2 major, Val2 minor, Str name]), s) \<Rightarrow>
          (Inr (if sint major \<le> 0 \<or> sint minor < 0 then Reply_Incompatible
                else case initProxy major minor of None \<Rightarrow> Reply_Incompatible | Some v \<Rightarrow> Reply_Good name v), s)
      | (Inr _, s) \<Rightarrow> (Inr Reply_Bad, s))"

definition un_handleData :: "'s listen_env \<Rightarrow> nat \<Rightarrow> 's unknown_client \<Rightarrow> 's listener \<Rightarrow> 's listener option" where
  "un_handleData env n u l =
     (case un_stream u of
        None \<Rightarrow> None
      | Some s \<Rightarrow>
          let l = use_object (Filter_Obj n) l
          in (case parse_hello env s of
             (Inr (Reply_Good name version), s) \<Rightarrow>
               (case un_removeHandlers n u l of (u, l) \<Rightarrow>
                  Some (set_unknown n (u\<lparr>un_stream := None, un_proxy := Some (cp_new version name (l_layouts env) s)\<rparr>)
                    (l\<lparr>li_proxy_handlers := n # li_proxy_handlers l\<rparr>)))
           | (Inr Reply_Incompatible, s) \<Rightarrow>
               Some (sendFailure n (u\<lparr>un_stream := Some s\<rparr>)
                 (write_stream n kMsgEIncompatible [Int_Arg (scast kProtocolMajorVersion), Int_Arg (scast kProtocolMinorVersion)] l))
           | (Inr Reply_Bad, s) \<Rightarrow>
               Some (sendFailure n (u\<lparr>un_stream := Some s\<rparr>) (write_stream n kMsgEBad [] l))
           | (Inl _, s) \<Rightarrow> Some (sendFailure n (u\<lparr>un_stream := Some s\<rparr>) l)))"

definition un_handleWriteError :: "nat \<Rightarrow> 's unknown_client \<Rightarrow> 's listener \<Rightarrow> 's listener" where
  "un_handleWriteError = sendFailure"

definition un_handleTimeout :: "nat \<Rightarrow> 's unknown_client \<Rightarrow> 's listener \<Rightarrow> 's listener" where
  "un_handleTimeout = sendFailure"

definition un_handleDisconnect :: "nat \<Rightarrow> 's unknown_client \<Rightarrow> 's listener \<Rightarrow> 's listener" where
  "un_handleDisconnect = sendFailure"

text \<open>The proxy, if the handshake is done, and the unknown client without it.\<close>

definition orphanClientProxy ::
    "nat \<Rightarrow> 's unknown_client \<Rightarrow> 's listener \<Rightarrow> 's client_proxy option \<times> 's unknown_client \<times> 's listener" where
  "orphanClientProxy n u l =
     (if un_ready u then (case un_removeHandlers n u l of (u', l') \<Rightarrow> (un_proxy u, u'\<lparr>un_proxy := None\<rparr>, l'))
      else (None, u, l))"

definition un_delete :: "nat \<Rightarrow> 's unknown_client \<Rightarrow> 's listener \<Rightarrow> 's listener" where
  "un_delete n u l =
     (case un_removeHandlers n u l of (u, l) \<Rightarrow>
        let l = (if un_stream u \<noteq> None then delete_object (Filter_Obj n) l else l)
        in if un_proxy u \<noteq> None then delete_proxy n l else l)"

section \<open>The listener\<close>

definition li_init :: "'s listener" where
  "li_init = \<lparr>li_new = Map.empty, li_waiting = [], li_sockets = [], li_proxy_handlers = [], li_watching = [],
     li_accepting = [], li_adopted = [], li_queue = [], li_live = {}, li_fault = False, li_log = []\<rparr>"

definition getNextClient :: "'s listener \<Rightarrow> (nat \<times> 's client_proxy) option \<times> 's listener" where
  "getNextClient l =
     (case li_waiting l of
        [] \<Rightarrow> (None, l)
      | c # cs \<Rightarrow> (Some c, l\<lparr>li_waiting := cs, li_watching := removeAll (fst c) (li_watching l)\<rparr>))"

definition removeUnknownClient :: "nat \<Rightarrow> 's listener \<Rightarrow> 's listener" where
  "removeUnknownClient n l =
     (case li_new l n of
        None \<Rightarrow> l
      | Some u \<Rightarrow> (let l = un_delete n u l in l\<lparr>li_new := (li_new l)(n := None)\<rparr>))"

text \<open>
  \<^verbatim>\<open>removeClientSocket\<close> gets a pointer: it is erased from the sockets, asked for its event target, the
  handlers on that are removed, and it is deleted.
\<close>

fun erase_socket :: "stream_object \<Rightarrow> 's listener \<Rightarrow> 's listener" where
  "erase_socket (Socket_Obj n) l = l\<lparr>li_sockets := removeAll n (li_sockets l)\<rparr>"
| "erase_socket (Filter_Obj n) l = l"

fun remove_handlers_on :: "stream_object \<Rightarrow> 's listener \<Rightarrow> 's listener" where
  "remove_handlers_on (Socket_Obj n) l = l\<lparr>li_accepting := removeAll n (li_accepting l)\<rparr>"
| "remove_handlers_on (Filter_Obj n) l =
     l\<lparr>li_new := (li_new l)(n := map_option (\<lambda>u. u\<lparr>un_handlers := False\<rparr>) (li_new l n))\<rparr>"

definition removeClientSocket :: "stream_object \<Rightarrow> 's listener \<Rightarrow> 's listener" where
  "removeClientSocket socket l =
     delete_object socket (remove_handlers_on socket (use_object socket (erase_socket socket l)))"

definition handleClientConnecting :: "'s listen_env \<Rightarrow> nat option \<Rightarrow> 's listener \<Rightarrow> 's listener" where
  "handleClientConnecting env socket l =
     (case socket of
        None \<Rightarrow> l
      | Some n \<Rightarrow>
          let l = l\<lparr>li_sockets := n # li_sockets l, li_accepting := n # li_accepting l, li_live := insert (Socket_Obj n) (li_live l)\<rparr>
          in if l_plain env then add_event (Socket_Accepted n) l else l)"

text \<open>The new packet filter is \<open>s\<close>; the hello is written by the constructor of the unknown client.\<close>

definition handleClientAccepted :: "'s listen_env \<Rightarrow> nat \<Rightarrow> 's \<Rightarrow> 's listener \<Rightarrow> 's listener" where
  "handleClientAccepted env n s l =
     set_unknown n \<lparr>un_stream = Some s, un_timer = True, un_proxy = None, un_ready = False, un_handlers = True\<rparr>
       (write_stream n (l_protocol env @ kMsgHelloArgs)
          [Int_Arg (scast kProtocolMajorVersion), Int_Arg (scast kProtocolMinorVersion)] (new_filter n l))"

definition handleUnknownClient :: "nat \<Rightarrow> 's listener \<Rightarrow> 's listener option" where
  "handleUnknownClient n l =
     (case li_new l n of
        None \<Rightarrow> None
      | Some u \<Rightarrow>
          (case orphanClientProxy n u l of
             (Some p, u, l) \<Rightarrow>
               Some (removeUnknownClient n
                 (set_unknown n u
                   (add_event Listener_Accepted
                     (l\<lparr>li_waiting := li_waiting l @ [(n, p)], li_watching := n # li_watching l\<rparr>))))
           | (None, u, l) \<Rightarrow>
               Some (removeUnknownClient n
                 (set_unknown n u (if un_stream u \<noteq> None then close_stream n l else l)))))"

text \<open>The socket below the stream is deleted too, if the unknown client still has the stream.\<close>

definition handleUnknownFailure :: "nat \<Rightarrow> 's listener \<Rightarrow> 's listener option" where
  "handleUnknownFailure n l =
     (case li_new l n of
        None \<Rightarrow> None
      | Some u \<Rightarrow>
          let l = (if un_stream u \<noteq> None then use_object (Filter_Obj n) l else l);
              l = removeUnknownClient n l
          in Some (if un_stream u \<noteq> None then removeClientSocket (Socket_Obj n) l else l))"

text \<open>
  A waiting client has gone. The stream of a proxy is the packet filter that
  \<^verbatim>\<open>handleClientAccepted\<close> has made, whatever the cast says.
\<close>

definition getStream :: "nat \<times> 's client_proxy \<Rightarrow> stream_object" where
  "getStream c = Filter_Obj (fst c)"

fun erase_client :: "nat \<Rightarrow> (nat \<times> 's client_proxy) list \<Rightarrow> (nat \<times> 's client_proxy) list" where
  "erase_client n [] = []"
| "erase_client n (c # cs) = (if fst c = n then cs else c # erase_client n cs)"

definition handleClientDisconnected :: "nat \<Rightarrow> 's listener \<Rightarrow> 's listener" where
  "handleClientDisconnected n l =
     (case find (\<lambda>c. fst c = n) (li_waiting l) of
        None \<Rightarrow> l
      | Some client \<Rightarrow>
          let l = l\<lparr>li_waiting := erase_client n (li_waiting l), li_watching := removeAll n (li_watching l)\<rparr>;
              socket = getStream client;
              l = delete_proxy n l
          in removeClientSocket socket l)"

text \<open>\<^verbatim>\<open>ServerApp::handleClientConnected\<close>.\<close>

definition handleClientConnected :: "'s listener \<Rightarrow> 's listener" where
  "handleClientConnected l =
     (case getNextClient l of
        (None, l) \<Rightarrow> l
      | (Some c, l) \<Rightarrow> l\<lparr>li_adopted := li_adopted l @ [c]\<rparr>)"

text \<open>
  The end of the listener: \<open>order\<close> is the order of the addresses of the new clients. The handlers
  on the sockets stay installed.
\<close>

fun stop_waiting :: "(nat \<times> 's client_proxy) list \<Rightarrow> 's listener \<Rightarrow> 's listener" where
  "stop_waiting [] l = l"
| "stop_waiting (c # cs) l = stop_waiting cs (delete_proxy (fst c) (snd (getNextClient l)))"

definition li_stop :: "nat list \<Rightarrow> 's listener \<Rightarrow> 's listener" where
  "li_stop order l =
     (let l = fold removeUnknownClient order l;
          l = stop_waiting (li_waiting l) l
      in (fold (\<lambda>n. delete_object (Socket_Obj n)) (li_sockets l) l)\<lparr>li_sockets := []\<rparr>)"

section \<open>Dispatch\<close>

text \<open>
  The handler of an event, if there is one; \<open>accept\<close> is the packet filter made on a socket. The
  handlers of adopted proxies belong to the server.
\<close>

definition with_unknown :: "nat \<Rightarrow> (nat \<Rightarrow> 's unknown_client \<Rightarrow> 's listener \<Rightarrow> 's listener) \<Rightarrow> 's listener \<Rightarrow> 's listener option" where
  "with_unknown n f l = map_option (\<lambda>u. f n u l) (li_new l n)"

fun dispatch_event :: "'s listen_env \<Rightarrow> (nat \<Rightarrow> 's) \<Rightarrow> listen_event \<Rightarrow> 's listener \<Rightarrow> 's listener option" where
  "dispatch_event env accept (Proxy_Ready n) l =
     (if n \<in> set (li_proxy_handlers l) then with_unknown n sendSuccess l else Some l)"
| "dispatch_event env accept (Proxy_Disconnected n) l =
     (if n \<in> set (li_watching l) then Some (handleClientDisconnected n l)
      else if n \<in> set (li_proxy_handlers l) then with_unknown n un_handleDisconnect l
      else Some l)"
| "dispatch_event env accept (Unknown_Success n) l = (if li_new l n = None then Some l else handleUnknownClient n l)"
| "dispatch_event env accept (Unknown_Failure n) l = (if li_new l n = None then Some l else handleUnknownFailure n l)"
| "dispatch_event env accept Listener_Accepted l = Some (handleClientConnected l)"
| "dispatch_event env accept (Socket_Accepted n) l =
     (if n \<in> set (li_accepting l) then Some (handleClientAccepted env n (accept n) l) else Some l)"

definition dispatch_next :: "'s listen_env \<Rightarrow> (nat \<Rightarrow> 's) \<Rightarrow> 's listener \<Rightarrow> 's listener option" where
  "dispatch_next env accept l =
     (case li_queue l of [] \<Rightarrow> Some l | e # es \<Rightarrow> dispatch_event env accept e (l\<lparr>li_queue := es\<rparr>))"

text \<open>An input that uses a deleted object has no result.\<close>

definition unless_fault :: "'s listener \<Rightarrow> 's listener option" where
  "unless_fault l = (if li_fault l then None else Some l)"

end
