(* ===== verification/Listener_Props.thy ===== *)
theory Listener_Props
  imports Client_Listener Client_Proxy_Props
begin

text \<open>
  The listener, its unknown clients and their proxies as one system that dispatches the queued
  events in order: no handler meets an object that has been deleted, with one exception, and
  the server only gets proxies that are ready.
\<close>

section \<open>What a proxy does\<close>

definition gone :: "'s client_proxy \<Rightarrow> nat" where
  "gone p = length (filter ((=) Ev_Disconnected) (cp_log p))"

definition grows :: "'s client_proxy \<Rightarrow> 's client_proxy \<Rightarrow> bool" where
  "grows p p' \<longleftrightarrow> cp_version p' = cp_version p \<and> (\<exists>es. cp_log p' = cp_log p @ es)"

definition calm :: "'s client_proxy \<Rightarrow> 's client_proxy \<Rightarrow> bool" where
  "calm p p' \<longleftrightarrow> grows p p' \<and> cp_handlers p' = cp_handlers p \<and> gone p' = gone p"

lemma calm_refl [simp]: "calm p p"
  by (simp add: calm_def grows_def)

lemma calm_trans: "\<lbrakk>calm p p'; calm p' p''\<rbrakk> \<Longrightarrow> calm p p''"
  by (auto simp: calm_def grows_def)

lemma calm_simps [simp]:
  "e \<noteq> Ev_Disconnected \<Longrightarrow> calm p (cp_tell e p)" "calm p (send fmt as p)" "calm p (p\<lparr>cp_stream := s\<rparr>)"
  "calm p (upd_clipboard cid f p)" "calm p (p\<lparr>cp_info := i\<rparr>)" "calm p (p\<lparr>cp_assembly := a\<rparr>)" "calm p (p\<lparr>cp_parser := m\<rparr>)"
  "calm p (addHeartbeatTimer p)" "calm p (removeHeartbeatTimer p)" "calm p (resetHeartbeatTimer p)"
  "calm p (setHeartbeatRate r al p)" "calm p (resetHeartbeatRate p)"
  by (auto simp: calm_def grows_def gone_def timer_defs send_def upd_clipboard_def setHeartbeatRate_def resetHeartbeatRate_def)

lemma calm_steps [simp]:
  "calm p q \<Longrightarrow> e \<noteq> Ev_Disconnected \<Longrightarrow> calm p (cp_tell e q)" "calm p q \<Longrightarrow> calm p (send fmt as q)"
  "calm p q \<Longrightarrow> calm p (q\<lparr>cp_stream := s\<rparr>)" "calm p q \<Longrightarrow> calm p (q\<lparr>cp_info := i\<rparr>)"
  "calm p q \<Longrightarrow> calm p (q\<lparr>cp_assembly := a\<rparr>)" "calm p q \<Longrightarrow> calm p (upd_clipboard cid f q)"
  "calm p q \<Longrightarrow> calm p (addHeartbeatTimer q)" "calm p q \<Longrightarrow> calm p (removeHeartbeatTimer q)"
  "calm p q \<Longrightarrow> calm p (resetHeartbeatTimer q)" "calm p q \<Longrightarrow> calm p (setHeartbeatRate r al q)" "calm p q \<Longrightarrow> calm p (resetHeartbeatRate q)"
  by (erule calm_trans, simp)+

lemma calm_recv:
  "calm p (snd (recvInfo env p))" "calm p (snd (recvGrabClipboard env p))"
  "calm p (snd (recvCaptureRequest env p))" "calm p (snd (recvClipboard env p))"
  by (auto simp: recvInfo_def Let_def split: prod.split sum.split option.split list.split val.split)
    (auto simp: recvGrabClipboard_def recvCaptureRequest_def recvClipboard_def Let_def
      split: prod.split sum.split option.split list.split val.split transfer_state.split)

lemma calm_parse: "calm p (snd (cp_parse env code p))"
proof -
  have 1: "calm p (snd (parseMessage1_0 env code p))"
    using calm_recv [of p env] by (auto simp: parseMessage1_0_def split: prod.splits sum.splits bool.splits)
  have "calm (p\<lparr>cp_parser := Messages\<rparr>) (snd (recvInfo env (p\<lparr>cp_parser := Messages\<rparr>)))" by (rule calm_recv)
  then have "calm p (snd (recvInfo env (p\<lparr>cp_parser := Messages\<rparr>)))" by (rule calm_trans [rotated]) simp
  then have "calm p (snd (cp_parseHandshakeMessage env code p))"
    by (auto simp: cp_parseHandshakeMessage_def split: prod.splits sum.splits bool.splits)
  with 1 show ?thesis by (simp add: cp_parse_def cp_parseMessage_def split: message_parser.split)
qed

definition parted :: "'s client_proxy \<Rightarrow> 's client_proxy \<Rightarrow> bool" where
  "parted p p' \<longleftrightarrow> grows p p' \<and> cp_handlers p \<and> \<not> cp_handlers p' \<and> gone p' = Suc (gone p)"

lemma parted_disconnect: "\<lbrakk>calm p q; cp_handlers p\<rbrakk> \<Longrightarrow> parted p (cp_disconnect q)"
  by (auto simp: calm_def parted_def grows_def gone_def cp_disconnect_def cp_removeHandlers_def timer_defs)

lemma handleData_acts:
  assumes "cp_handlers p" and "cp_handleData env p = Some (r, p')"
  shows "calm p p' \<or> parted p p'"
proof -
  have "calm p (snd (r, p')) \<or> parted p (snd (r, p'))"
    by (rule cp_handleData_keeps [OF assms(2), where P = "calm p"])
      (simp_all add: calm_trans [OF _ calm_parse] parted_disconnect [OF _ assms(1)])
  then show ?thesis by simp
qed

lemma calm_options: "calm p (cp_check_options os p)"
proof (induction os p rule: cp_check_options.induct)
  case (1 k v os p)
  have "calm p (heartbeat_option v p)" by (auto simp: heartbeat_option_def Let_def)
  with 1 show ?case by (auto intro: calm_trans)
qed simp_all

lemma calm_do: "cp_do env k p = Some p' \<Longrightarrow> calm p p'"
  using calm_trans [OF _ calm_options, of p "send kMsgDSetOptions [Vec4_Arg os] p" os for os]
  by (cases k) (auto simp: cp_enter_def cp_leave_def cp_grabClipboard_def cp_keyDown_def cp_keyRepeat_def cp_keyUp_def
    cp_mouseDown_def cp_mouseUp_def cp_mouseMove_def cp_mouseRelativeMove_def cp_mouseWheel_def cp_screensaver_def
    cp_resetOptions_def cp_setOptions_def cp_setClipboard_def Let_def intro: calm_trans
    split: if_splits option.splits prod.splits)

lemma step_acts: "cp_step env p p' \<Longrightarrow> calm p p' \<or> parted p p'"
proof (induction rule: cp_step.induct)
  case (data p r p')
  then show ?case by (rule handleData_acts)
qed (auto simp: handleFlatline_def handleWriteError_def cp_handleDisconnect_def parted_disconnect cp_keepAlive_def
    cp_sendChunk_def calm_do cp_setClipboardDirty_def cp_secureInput_def cp_close_def)

section \<open>Inputs\<close>

text \<open>
  What comes from outside: connections and the end of their secure accept, what the streams and
  timers of the unknown clients report, the proxies acting on their own, and the dispatch of the
  next queued event.
\<close>

datatype 's listen_input =
    Connecting "nat option"
  | Secured nat 's
  | Turned_Down nat
  | Data nat 's
  | Write_Error nat
  | Hang_Up nat
  | Timeout nat
  | Proxy_Acts nat "'s client_proxy"
  | Next

fun proxy_events :: "nat \<Rightarrow> cp_effect list \<Rightarrow> listen_event list" where
  "proxy_events n [] = []"
| "proxy_events n (Ev_Ready # es) = Proxy_Ready n # proxy_events n es"
| "proxy_events n (Ev_Disconnected # es) = Proxy_Disconnected n # proxy_events n es"
| "proxy_events n (_ # es) = proxy_events n es"

definition proxy_acts :: "nat \<Rightarrow> 's client_proxy \<Rightarrow> 's listener \<Rightarrow> 's listener option" where
  "proxy_acts n p' l =
     (case li_new l n of
        Some u \<Rightarrow>
          map_option (\<lambda>p. set_unknown n (u\<lparr>un_proxy := Some p'\<rparr>)
              ((use_object (Filter_Obj n) l)\<lparr>li_queue := li_queue l @ proxy_events n (drop (length (cp_log p)) (cp_log p'))\<rparr>))
            (un_proxy u)
      | None \<Rightarrow>
          map_option (\<lambda>p. (use_object (Filter_Obj n) l)\<lparr>li_waiting := map (\<lambda>(m, q). (m, if m = n then p' else q)) (li_waiting l),
              li_queue := li_queue l @ proxy_events n (drop (length (cp_log p)) (cp_log p'))\<rparr>)
            (map_of (li_waiting l) n))"

fun take_input :: "'s listen_env \<Rightarrow> (nat \<Rightarrow> 's) \<Rightarrow> 's listen_input \<Rightarrow> 's listener \<Rightarrow> 's listener option" where
  "take_input env accept (Connecting socket) l = Some (handleClientConnecting env socket l)"
| "take_input env accept (Secured n s) l = Some (handleClientAccepted env n s l)"
| "take_input env accept (Turned_Down n) l = Some (removeClientSocket (Socket_Obj n) l)"
| "take_input env accept (Data n s) l =
     Option.bind (li_new l n) (\<lambda>u. un_handleData env n (u\<lparr>un_stream := map_option (\<lambda>_. s) (un_stream u)\<rparr>) l)"
| "take_input env accept (Write_Error n) l = with_unknown n un_handleWriteError l"
| "take_input env accept (Hang_Up n) l = with_unknown n un_handleDisconnect l"
| "take_input env accept (Timeout n) l = with_unknown n un_handleTimeout l"
| "take_input env accept (Proxy_Acts n p) l = proxy_acts n p l"
| "take_input env accept Next l = dispatch_next env accept l"

definition handle_input :: "'s listen_env \<Rightarrow> (nat \<Rightarrow> 's) \<Rightarrow> 's listen_input \<Rightarrow> 's listener \<Rightarrow> 's listener option" where
  "handle_input env accept i l = Option.bind (take_input env accept i l) unless_fault"

text \<open>The unknown client has said its hello.\<close>

definition greeted :: "nat \<Rightarrow> 's listener \<Rightarrow> bool" where
  "greeted n l \<longleftrightarrow> (\<exists>fmt as. Written n fmt as \<in> set (li_log l))"

text \<open>
  Which inputs can come: a new connection has a new number, the secure accept ends once, streams
  and timers report while their handlers are installed, and a proxy takes a step of its own.
\<close>

fun enabled :: "'s listen_env \<Rightarrow> 's listen_input \<Rightarrow> 's listener \<Rightarrow> bool" where
  "enabled env (Connecting socket) l =
     (case socket of None \<Rightarrow> True | Some n \<Rightarrow> n \<notin> set (li_sockets l) \<and> Socket_Deleted n \<notin> set (li_log l))"
| "enabled env (Secured n s) l = (n \<in> set (li_accepting l) \<and> \<not> greeted n l \<and> Socket_Accepted n \<notin> set (li_queue l))"
| "enabled env (Turned_Down n) l = (n \<in> set (li_accepting l) \<and> \<not> greeted n l \<and> Socket_Accepted n \<notin> set (li_queue l))"
| "enabled env (Data n s) l = (\<exists>u. li_new l n = Some u \<and> un_handlers u)"
| "enabled env (Write_Error n) l = (\<exists>u. li_new l n = Some u \<and> un_handlers u)"
| "enabled env (Hang_Up n) l = (\<exists>u. li_new l n = Some u \<and> un_handlers u)"
| "enabled env (Timeout n) l = (\<exists>u. li_new l n = Some u \<and> un_timer u)"
| "enabled env (Proxy_Acts n p') l =
     ((\<exists>u p. li_new l n = Some u \<and> un_proxy u = Some p \<and> cp_step (l_proxy env) p p') \<or>
      (\<exists>p. (n, p) \<in> set (li_waiting l) \<and> cp_step (l_proxy env) p p'))"
| "enabled env Next l = True"

inductive listening :: "'s listen_env \<Rightarrow> (nat \<Rightarrow> 's) \<Rightarrow> 's listener \<Rightarrow> bool" for env accept where
  start: "listening env accept li_init"
| input: "\<lbrakk>listening env accept l; enabled env i l; handle_input env accept i l = Some l'\<rbrakk> \<Longrightarrow> listening env accept l'"

section \<open>The invariant\<close>

fun about :: "nat \<Rightarrow> listen_event \<Rightarrow> bool" where
  "about n (Proxy_Ready m) = (m = n)"
| "about n (Proxy_Disconnected m) = (m = n)"
| "about n (Unknown_Success m) = (m = n)"
| "about n (Unknown_Failure m) = (m = n)"
| "about n _ = False"

definition events_of :: "nat \<Rightarrow> 's listener \<Rightarrow> listen_event list" where
  "events_of n l = filter (about n) (li_queue l)"

definition of_proxy :: "nat \<Rightarrow> listen_event \<Rightarrow> bool" where
  "of_proxy n e \<longleftrightarrow> e = Proxy_Ready n \<or> e = Proxy_Disconnected n"

text \<open>The unknown client has failed: the events of its proxy come before the failure.\<close>

definition failing :: "nat \<Rightarrow> listen_event list \<Rightarrow> bool" where
  "failing n q \<longleftrightarrow> (\<exists>es rest. q = es @ Unknown_Failure n # rest \<and> (\<forall>e \<in> set rest. \<not> of_proxy n e) \<and>
     ((\<forall>e \<in> set es. of_proxy n e) \<or> es = [Unknown_Success n]))"

text \<open>It has a proxy, whose events in the queue are those of its log that have not been handled.\<close>

definition shaking :: "nat \<Rightarrow> bool \<Rightarrow> 's client_proxy \<Rightarrow> listen_event list \<Rightarrow> bool" where
  "shaking n ready p q \<longleftrightarrow> cp_inv p \<and> cp_version p \<le> 8 \<and> gone p \<le> 1 \<and> (cp_handlers p \<longleftrightarrow> gone p = 0) \<and>
     count_list q (Proxy_Disconnected n) = gone p \<and>
     (if ready then readies p = 1 \<and> q \<in> {[Unknown_Success n], [Unknown_Success n, Proxy_Disconnected n],
        [Proxy_Disconnected n, Unknown_Success n]}
      else count_list q (Proxy_Ready n) = readies p \<and> (\<forall>e \<in> set q. of_proxy n e))"

text \<open>The state of one connection: its unknown client, its events, and whether it has handlers on its proxy.\<close>

definition client_ok :: "nat \<Rightarrow> 's unknown_client option \<Rightarrow> listen_event list \<Rightarrow> bool \<Rightarrow> bool" where
  "client_ok n u q h \<longleftrightarrow>
     (case u of
        None \<Rightarrow> h \<longrightarrow> (\<forall>e \<in> set q. \<not> of_proxy n e)
      | Some u \<Rightarrow>
          if un_handlers u then un_stream u \<noteq> None \<and> un_proxy u = None \<and> \<not> un_ready u \<and> q = [] \<and> \<not> h
          else (case un_proxy u of
                  Some p \<Rightarrow> un_stream u = None \<and> h \<and> (un_ready u \<longrightarrow> \<not> un_timer u) \<and> shaking n (un_ready u) p q
                | None \<Rightarrow> \<not> un_timer u \<and> failing n q))"

definition known :: "nat \<Rightarrow> 's listener \<Rightarrow> bool" where
  "known n l \<longleftrightarrow> li_new l n \<noteq> None \<or> events_of n l \<noteq> [] \<or> n \<in> set (li_proxy_handlers l) \<or>
     n \<in> fst ` set (li_waiting l) \<or> n \<in> fst ` set (li_adopted l)"

fun is_accept :: "listen_event \<Rightarrow> bool" where
  "is_accept (Socket_Accepted n) = True"
| "is_accept _ = False"

definition li_inv :: "'s listener \<Rightarrow> bool" where
  "li_inv l \<longleftrightarrow>
     (\<forall>n. client_ok n (li_new l n) (events_of n l) (n \<in> set (li_proxy_handlers l))) \<and>
     (\<forall>n. known n l \<longrightarrow> greeted n l) \<and>
     (\<forall>n. n \<in> fst ` set (li_waiting l) \<or> n \<in> fst ` set (li_adopted l) \<longrightarrow> li_new l n = None \<and> n \<notin> set (li_proxy_handlers l)) \<and>
     distinct (map fst (li_adopted l @ li_waiting l)) \<and>
     set (li_watching l) = fst ` set (li_waiting l) \<and>
     (\<forall>n p. (n, p) \<in> set (li_adopted l @ li_waiting l) \<longrightarrow> Ev_Ready \<in> set (cp_log p) \<and> cp_version p \<le> 8) \<and>
     (\<forall>n. Socket_Accepted n \<in> set (li_queue l) \<longrightarrow> \<not> greeted n l) \<and>
     distinct (filter is_accept (li_queue l)) \<and>
     (\<forall>n. greeted n l \<or> Socket_Accepted n \<in> set (li_queue l) \<or> n \<in> set (li_accepting l) \<longrightarrow>
        n \<in> set (li_sockets l) \<or> Socket_Deleted n \<in> set (li_log l))"


text \<open>The parts of the invariant.\<close>

lemmas li_invD =
  li_inv_def [THEN iffD1, THEN conjunct1, rule_format]
  li_inv_def [THEN iffD1, THEN conjunct2, THEN conjunct1, rule_format]
  li_inv_def [THEN iffD1, THEN conjunct2, THEN conjunct2, THEN conjunct1, rule_format]
  li_inv_def [THEN iffD1, THEN conjunct2, THEN conjunct2, THEN conjunct2, THEN conjunct1, rule_format]
  li_inv_def [THEN iffD1, THEN conjunct2, THEN conjunct2, THEN conjunct2, THEN conjunct2, THEN conjunct1, rule_format]
  li_inv_def [THEN iffD1, THEN conjunct2, THEN conjunct2, THEN conjunct2, THEN conjunct2, THEN conjunct2, THEN conjunct1, rule_format]
  li_inv_def [THEN iffD1, THEN conjunct2, THEN conjunct2, THEN conjunct2, THEN conjunct2, THEN conjunct2, THEN conjunct2, THEN conjunct1, rule_format]
  li_inv_def [THEN iffD1, THEN conjunct2, THEN conjunct2, THEN conjunct2, THEN conjunct2, THEN conjunct2, THEN conjunct2, THEN conjunct2, THEN conjunct1, rule_format]
  li_inv_def [THEN iffD1, THEN conjunct2, THEN conjunct2, THEN conjunct2, THEN conjunct2, THEN conjunct2, THEN conjunct2, THEN conjunct2, THEN conjunct2, rule_format]

section \<open>The invariant is kept\<close>

lemma listener_simps [simp]:
  "li_new (add_event e l) = li_new l" "li_new (li_note f l) = li_new l"
  "li_new (set_unknown n u l) = (li_new l)(n \<mapsto> u)"
  "li_queue (add_event e l) = li_queue l @ [e]" "li_queue (li_note f l) = li_queue l" "li_queue (set_unknown n u l) = li_queue l"
  "li_proxy_handlers (add_event e l) = li_proxy_handlers l" "li_proxy_handlers (li_note f l) = li_proxy_handlers l"
  "li_proxy_handlers (set_unknown n u l) = li_proxy_handlers l"
  "li_waiting (add_event e l) = li_waiting l" "li_waiting (li_note f l) = li_waiting l" "li_waiting (set_unknown n u l) = li_waiting l"
  "li_watching (add_event e l) = li_watching l" "li_watching (li_note f l) = li_watching l"
  "li_watching (set_unknown n u l) = li_watching l"
  "li_adopted (add_event e l) = li_adopted l" "li_adopted (li_note f l) = li_adopted l" "li_adopted (set_unknown n u l) = li_adopted l"
  "li_sockets (add_event e l) = li_sockets l" "li_sockets (li_note f l) = li_sockets l" "li_sockets (set_unknown n u l) = li_sockets l"
  "li_accepting (add_event e l) = li_accepting l" "li_accepting (li_note f l) = li_accepting l"
  "li_accepting (set_unknown n u l) = li_accepting l"
  "li_log (add_event e l) = li_log l" "li_log (li_note f l) = li_log l @ [f]" "li_log (set_unknown n u l) = li_log l"
  by (simp_all add: add_event_def li_note_def set_unknown_def)

lemma store_simps [simp]:
  "li_new (use_object ob l) = li_new l" "li_new (delete_object ob l) = li_new l"
  "li_queue (use_object ob l) = li_queue l" "li_queue (delete_object ob l) = li_queue l"
  "li_proxy_handlers (use_object ob l) = li_proxy_handlers l" "li_proxy_handlers (delete_object ob l) = li_proxy_handlers l"
  "li_waiting (use_object ob l) = li_waiting l" "li_waiting (delete_object ob l) = li_waiting l"
  "li_watching (use_object ob l) = li_watching l" "li_watching (delete_object ob l) = li_watching l"
  "li_adopted (use_object ob l) = li_adopted l" "li_adopted (delete_object ob l) = li_adopted l"
  "li_sockets (use_object ob l) = li_sockets l" "li_sockets (delete_object ob l) = li_sockets l"
  "li_accepting (use_object ob l) = li_accepting l" "li_accepting (delete_object ob l) = li_accepting l"
  "li_log (use_object ob l) = li_log l"
  "li_live (use_object ob l) = li_live l" "li_live (delete_object ob l) = li_live l - {ob}"
  "li_fault (use_object ob l) \<longleftrightarrow> li_fault l \<or> ob \<notin> li_live l"
  "li_fault (delete_object ob l) \<longleftrightarrow> li_fault l \<or> ob \<notin> li_live l \<or> (\<exists>n. ob = Filter_Obj n \<and> Socket_Obj n \<notin> li_live l)"
  "li_live (add_event e l) = li_live l" "li_live (li_note f l) = li_live l" "li_live (set_unknown n u l) = li_live l"
  "li_fault (add_event e l) = li_fault l" "li_fault (li_note f l) = li_fault l" "li_fault (set_unknown n u l) = li_fault l"
  by (cases ob; auto simp: use_object_def add_event_def li_note_def set_unknown_def Let_def)+

lemma store_log [simp]:
  "li_log (delete_object (Filter_Obj n) l) = li_log l" "li_log (delete_object (Socket_Obj n) l) = li_log l @ [Socket_Deleted n]"
  by (simp_all add: Let_def)

lemmas stream_defs = delete_proxy_def write_stream_def close_stream_def new_filter_def Let_def

declare delete_object.simps [simp del]

text \<open>An operation on one connection.\<close>

definition only_touches :: "nat \<Rightarrow> 's listener \<Rightarrow> 's listener \<Rightarrow> bool" where
  "only_touches n l l' \<longleftrightarrow>
     (\<forall>m. m \<noteq> n \<longrightarrow> li_new l' m = li_new l m \<and> events_of m l' = events_of m l \<and>
        (m \<in> set (li_proxy_handlers l') \<longleftrightarrow> m \<in> set (li_proxy_handlers l))) \<and>
     filter is_accept (li_queue l') = filter is_accept (li_queue l) \<and>
     (\<forall>m. m \<noteq> n \<longrightarrow> greeted m l' = greeted m l) \<and> (greeted n l \<longrightarrow> greeted n l') \<and>
     (\<forall>m. m \<in> set (li_sockets l) \<or> Socket_Deleted m \<in> set (li_log l) \<longrightarrow>
        m \<in> set (li_sockets l') \<or> Socket_Deleted m \<in> set (li_log l')) \<and>
     set (li_accepting l') \<subseteq> set (li_accepting l)"

definition same_clients :: "'s listener \<Rightarrow> 's listener \<Rightarrow> bool" where
  "same_clients l l' \<longleftrightarrow> li_waiting l' = li_waiting l \<and> li_watching l' = li_watching l \<and> li_adopted l' = li_adopted l"

lemma accepts_same: "filter is_accept q' = filter is_accept q \<Longrightarrow> Socket_Accepted n \<in> set q' \<longleftrightarrow> Socket_Accepted n \<in> set q"
proof -
  have "Socket_Accepted n \<in> set q \<longleftrightarrow> Socket_Accepted n \<in> set (filter is_accept q)" for q by simp
  then show "Socket_Accepted n \<in> set q' \<longleftrightarrow> Socket_Accepted n \<in> set q" if "filter is_accept q' = filter is_accept q"
    using that by metis
qed

lemma inv_change:
  assumes inv: "li_inv l" and touch: "only_touches n l l'" and same: "same_clients l l'" and n: "li_new l n \<noteq> None"
    and ok: "client_ok n (li_new l' n) (events_of n l') (n \<in> set (li_proxy_handlers l'))"
  shows "li_inv l'"
proof -
  note I = li_invD [OF inv]
  note T = touch [unfolded only_touches_def] and S = same [unfolded same_clients_def]
  have g: "greeted n l" using I(2) [of n] n by (simp add: known_def)
  have greeted: "greeted m l' = greeted m l" for m using T g by (cases "m = n") auto
  have "\<not> (n \<in> fst ` set (li_waiting l) \<or> n \<in> fst ` set (li_adopted l))"
  proof
    assume "n \<in> fst ` set (li_waiting l) \<or> n \<in> fst ` set (li_adopted l)"
    from I(3) [OF this] n show False by simp
  qed
  then have out: "n \<notin> fst ` set (li_waiting l)" "n \<notin> fst ` set (li_adopted l)" by simp_all
  have sock: "Socket_Accepted m \<in> set (li_queue l') \<longleftrightarrow> Socket_Accepted m \<in> set (li_queue l)" for m
    using T by (intro accepts_same) blast
  show ?thesis
    unfolding li_inv_def
  proof (intro conjI allI impI)
    fix m
    show "client_ok m (li_new l' m) (events_of m l') (m \<in> set (li_proxy_handlers l'))"
      using I(1) [of m] T ok by (cases "m = n") simp_all
    show "greeted m l'" if "known m l'"
    proof -
      show ?thesis
      proof (cases "m = n")
        case False
        then have "known m l" using that T S by (simp add: known_def)
        then show ?thesis using I(2) greeted by simp
      qed (use g greeted in simp)
    qed
    show "li_new l' m = None" "m \<notin> set (li_proxy_handlers l')"
      if "m \<in> fst ` set (li_waiting l') \<or> m \<in> fst ` set (li_adopted l')"
      using that I(3) [of m] T S out by (cases "m = n", simp_all)+
    show "Ev_Ready \<in> set (cp_log p)" "cp_version p \<le> 8" if "(m, p) \<in> set (li_adopted l' @ li_waiting l')" for p
      using that I(6) [of m p] S by simp_all
    show "\<not> greeted m l'" if "Socket_Accepted m \<in> set (li_queue l')" using that I(7) greeted sock by blast
    show "m \<in> set (li_sockets l') \<or> Socket_Deleted m \<in> set (li_log l')"
      if "greeted m l' \<or> Socket_Accepted m \<in> set (li_queue l') \<or> m \<in> set (li_accepting l')"
      using that I(9) T greeted sock by blast
  next
    show "distinct (map fst (li_adopted l' @ li_waiting l'))" "set (li_watching l') = fst ` set (li_waiting l')"
      using I(4,5) S by simp_all
    show "distinct (filter is_accept (li_queue l'))" using I(8) T by simp
  qed
qed

lemma events_simps [simp]:
  "events_of n (add_event e l) = events_of n l @ (if about n e then [e] else [])"
  "events_of n (li_note f l) = events_of n l" "events_of n (set_unknown m u l) = events_of n l"
  "events_of n (l\<lparr>li_proxy_handlers := hs\<rparr>) = events_of n l" "events_of n (l\<lparr>li_new := us\<rparr>) = events_of n l"
  "events_of n (l\<lparr>li_sockets := ss\<rparr>) = events_of n l" "events_of n (l\<lparr>li_accepting := ss\<rparr>) = events_of n l"
  "events_of n (l\<lparr>li_waiting := ws\<rparr>) = events_of n l" "events_of n (l\<lparr>li_watching := ss\<rparr>) = events_of n l"
  "events_of n (l\<lparr>li_adopted := ws\<rparr>) = events_of n l" "events_of n (l\<lparr>li_live := os\<rparr>) = events_of n l"
  "events_of n (use_object ob l) = events_of n l" "events_of n (delete_object ob l) = events_of n l"
  by (simp_all add: events_of_def)

lemma about_other: "about n e \<Longrightarrow> about m e \<Longrightarrow> m = n" and about_accept: "about n e \<Longrightarrow> \<not> is_accept e"
  by (cases e; simp)+

lemma touches_refl [simp]: "only_touches n l l"
  by (simp add: only_touches_def)

lemma touches_trans: "\<lbrakk>only_touches n l l'; only_touches n l' l''\<rbrakk> \<Longrightarrow> only_touches n l l''"
  unfolding only_touches_def by auto

lemma touch_unknown: "only_touches n l (set_unknown n u l)"
  by (simp add: only_touches_def greeted_def)

lemma touch_remove: "only_touches n l (l\<lparr>li_new := (li_new l)(n := None)\<rparr>)"
  by (simp add: only_touches_def greeted_def)

lemma touch_event: "about n e \<Longrightarrow> only_touches n l (add_event e l)"
  by (auto simp: only_touches_def greeted_def about_accept dest: about_other)

lemma touch_note: "(\<And>m fmt as. f = Written m fmt as \<Longrightarrow> m = n) \<Longrightarrow> only_touches n l (li_note f l)"
  by (auto simp: only_touches_def greeted_def)

lemma touch_handlers:
  "(\<And>m. m \<noteq> n \<Longrightarrow> m \<in> set hs \<longleftrightarrow> m \<in> set (li_proxy_handlers l)) \<Longrightarrow> only_touches n l (l\<lparr>li_proxy_handlers := hs\<rparr>)"
  by (simp add: only_touches_def greeted_def)

lemma touch_use: "only_touches n l (use_object ob l)"
  by (simp add: only_touches_def greeted_def)

lemma touch_delete_object: "only_touches n l (delete_object ob l)"
  by (cases ob) (auto simp: only_touches_def greeted_def)

lemma touch_filter: "only_touches n l (new_filter n l)"
  by (auto simp: only_touches_def greeted_def new_filter_def Let_def)

lemma touch_socket: "only_touches n l (removeClientSocket (Socket_Obj n) l)"
  by (auto simp: only_touches_def greeted_def removeClientSocket_def)

lemma touch_pop: "\<lbrakk>li_queue l = e # es; about n e\<rbrakk> \<Longrightarrow> only_touches n l (l\<lparr>li_queue := es\<rparr>)"
  by (auto simp: only_touches_def greeted_def events_of_def about_accept dest: about_other)

lemmas touching = touches_trans [OF _ touch_unknown] touches_trans [OF _ touch_remove] touches_trans [OF _ touch_event]
  touches_trans [OF _ touch_note] touches_trans [OF _ touch_handlers]
  touches_trans [OF _ touch_socket] touches_trans [OF _ touch_use] touches_trans [OF _ touch_delete_object] touches_trans [OF _ touch_filter]

lemma touch_proxy: "only_touches n l (delete_proxy n l)" and touch_write: "only_touches n l (write_stream n fmt as l)"
  and touch_close: "only_touches n l (close_stream n l)"
  unfolding delete_proxy_def write_stream_def close_stream_def by (intro touching touches_refl; simp)+

lemmas touching_more = touching touches_trans [OF _ touch_proxy] touches_trans [OF _ touch_write] touches_trans [OF _ touch_close]

lemma same_clients_refl [simp]: "same_clients l l"
  by (simp add: same_clients_def)

lemma touches_success: "only_touches n l l0 \<Longrightarrow> only_touches n l (sendSuccess n u l0)"
  unfolding sendSuccess_def by (intro touching) simp_all

lemma touches_failure: "only_touches n l l0 \<Longrightarrow> only_touches n l (sendFailure n u l0)"
  by (auto simp: sendFailure_def un_removeHandlers_def Let_def intro!: touching_more)

lemma touches_delete: "only_touches n l l0 \<Longrightarrow> only_touches n l (un_delete n u l0)"
  by (auto simp: un_delete_def un_removeHandlers_def Let_def intro!: touching_more)

lemma touches_removed: "only_touches n l l0 \<Longrightarrow> only_touches n l (removeUnknownClient n l0)"
  by (simp add: removeUnknownClient_def Let_def touching touches_delete split: option.split)

lemma same_success: "same_clients l l0 \<Longrightarrow> same_clients l (sendSuccess n u l0)"
  by (simp add: same_clients_def sendSuccess_def)

lemma same_failure: "same_clients l l0 \<Longrightarrow> same_clients l (sendFailure n u l0)"
  by (simp add: same_clients_def sendFailure_def un_removeHandlers_def stream_defs)

lemma same_removed: "same_clients l l0 \<Longrightarrow> same_clients l (removeUnknownClient n l0)"
  by (simp add: same_clients_def removeUnknownClient_def un_delete_def un_removeHandlers_def stream_defs split: option.split)

text \<open>What a failure and a success leave of the connection.\<close>

lemma after_failure:
  "li_new (sendFailure n u l) n = Some (u\<lparr>un_proxy := None, un_ready := False, un_timer := False,
     un_handlers := un_handlers u \<and> un_stream u = None\<rparr>)"
  "events_of n (sendFailure n u l) = events_of n l @ [Unknown_Failure n]"
  "li_proxy_handlers (sendFailure n u l) = li_proxy_handlers l"
  by (simp_all add: sendFailure_def un_removeHandlers_def stream_defs)

lemma after_success:
  "li_new (sendSuccess n u l) n = Some (u\<lparr>un_ready := True, un_timer := False\<rparr>)"
  "events_of n (sendSuccess n u l) = events_of n l @ [Unknown_Success n]"
  "li_proxy_handlers (sendSuccess n u l) = li_proxy_handlers l"
  by (simp_all add: sendSuccess_def)

lemma failingI:
  "\<lbrakk>q = es @ Unknown_Failure n # rest; \<forall>e \<in> set rest. \<not> of_proxy n e; (\<forall>e \<in> set es. of_proxy n e) \<or> es = [Unknown_Success n]\<rbrakk> \<Longrightarrow>
    failing n q"
  unfolding failing_def by blast

lemma failingE:
  assumes "failing n q"
  obtains es rest where "q = es @ Unknown_Failure n # rest" "\<forall>e \<in> set rest. \<not> of_proxy n e"
    "(\<forall>e \<in> set es. of_proxy n e) \<or> es = [Unknown_Success n]"
  using assms unfolding failing_def by blast

lemma failing_later: "\<lbrakk>failing n q; \<not> of_proxy n e\<rbrakk> \<Longrightarrow> failing n (q @ [e])"
proof (elim failingE)
  fix es rest
  assume "\<not> of_proxy n e" "q = es @ Unknown_Failure n # rest" "\<forall>e \<in> set rest. \<not> of_proxy n e"
    "(\<forall>e \<in> set es. of_proxy n e) \<or> es = [Unknown_Success n]"
  then show ?thesis by (intro failingI [of _ es n "rest @ [e]"]) auto
qed

lemma failing_next: "\<lbrakk>failing n (e # q); of_proxy n e\<rbrakk> \<Longrightarrow> failing n q"
proof (elim failingE)
  fix es rest
  assume e: "of_proxy n e" "e # q = es @ Unknown_Failure n # rest" and r: "\<forall>e \<in> set rest. \<not> of_proxy n e"
    and es: "(\<forall>e \<in> set es. of_proxy n e) \<or> es = [Unknown_Success n]"
  then obtain es' where "es = e # es'" by (cases es) (auto simp: of_proxy_def)
  with e r es show ?thesis by (intro failingI [of _ es' n rest]) (auto simp: of_proxy_def)
qed

lemma failing_now: "\<forall>e \<in> set q. of_proxy n e \<Longrightarrow> failing n (q @ [Unknown_Failure n])" "failing n [Unknown_Success n, Unknown_Failure n]"
  using failingI [of "q @ [Unknown_Failure n]" q n "[]"]
    failingI [of "[Unknown_Success n, Unknown_Failure n]" "[Unknown_Success n]" n "[]"] by simp_all

lemma failing_end: "\<lbrakk>failing n (e # q); \<not> of_proxy n e\<rbrakk> \<Longrightarrow> \<forall>e \<in> set q. \<not> of_proxy n e"
proof (elim failingE)
  fix es rest
  assume e: "\<not> of_proxy n e" "e # q = es @ Unknown_Failure n # rest" and r: "\<forall>e \<in> set rest. \<not> of_proxy n e"
    and es: "(\<forall>e \<in> set es. of_proxy n e) \<or> es = [Unknown_Success n]"
  then have "q = rest \<or> q = Unknown_Failure n # rest" by (cases es) auto
  then show ?thesis using r by (auto simp: of_proxy_def)
qed

text \<open>The three transitions of an unknown client.\<close>

abbreviation failed :: "'s unknown_client \<Rightarrow> 's unknown_client" where
  "failed u \<equiv> u\<lparr>un_proxy := None, un_ready := False, un_timer := False, un_handlers := un_handlers u \<and> un_stream u = None\<rparr>"

lemma fail_ok:
  assumes "client_ok n (Some u) q h" and "un_handlers u \<or> un_timer u"
  shows "client_ok n (Some (failed u)) (q @ [Unknown_Failure n]) h"
  using assms failing_now(1) [of q n] by (auto simp: client_ok_def shaking_def split: if_splits option.splits)

lemma gone_ok:
  assumes "client_ok n (Some u) (Proxy_Disconnected n # q) h"
  shows "client_ok n (Some (failed u)) (q @ [Unknown_Failure n]) h"
proof (cases "un_proxy u")
  case None
  with assms have "failing n (Proxy_Disconnected n # q)" "\<not> un_handlers u"
    by (auto simp: client_ok_def split: if_splits)
  then show ?thesis
    using failing_next failing_later [of n q "Unknown_Failure n"] by (auto simp: client_ok_def of_proxy_def)
next
  case (Some p)
  with assms have u: "\<not> un_handlers u" and s: "shaking n (un_ready u) p (Proxy_Disconnected n # q)"
    by (auto simp: client_ok_def split: if_splits)
  have "failing n (q @ [Unknown_Failure n])"
  proof (cases "un_ready u")
    case True
    with s have "q = [Unknown_Success n]" by (auto simp: shaking_def)
    then show ?thesis using failing_now(2) by simp
  next
    case False
    then show ?thesis using s failing_now(1) [of q n] by (simp add: shaking_def)
  qed
  then show ?thesis using u by (simp add: client_ok_def)
qed

lemma proxy_queue:
  assumes "\<forall>e \<in> set q. of_proxy n e" and "count_list q (Proxy_Ready n) = 0" and "count_list q (Proxy_Disconnected n) \<le> 1"
  shows "q = [] \<or> q = [Proxy_Disconnected n]"
proof (cases q)
  case (Cons e es)
  with assms have e: "e = Proxy_Disconnected n" by (auto simp: of_proxy_def)
  with Cons assms have "count_list es (Proxy_Disconnected n) = 0" "count_list es (Proxy_Ready n) = 0" by simp_all
  then have "Proxy_Disconnected n \<notin> set es" "Proxy_Ready n \<notin> set es" by (simp_all add: count_list_0_iff)
  then have "es = []" using Cons assms(1) by (cases es) (auto simp: of_proxy_def)
  then show ?thesis using Cons e by simp
qed simp

lemma ready_ok:
  assumes "client_ok n (Some u) (Proxy_Ready n # q) h"
  shows "client_ok n (Some (u\<lparr>un_ready := True, un_timer := False\<rparr>)) (q @ [Unknown_Success n]) h"
proof (cases "un_proxy u")
  case None
  with assms have "failing n (Proxy_Ready n # q)" "\<not> un_handlers u"
    by (auto simp: client_ok_def split: if_splits)
  then show ?thesis
    using None failing_next failing_later [of n q "Unknown_Success n"] by (auto simp: client_ok_def of_proxy_def)
next
  case (Some p)
  with assms have u: "\<not> un_handlers u" "un_stream u = None" "h" and s: "shaking n (un_ready u) p (Proxy_Ready n # q)"
    by (auto simp: client_ok_def split: if_splits)
  then have r: "\<not> un_ready u" by (auto simp: shaking_def)
  have one: "readies p \<le> 1" using s by (auto simp: shaking_def cp_inv_def split: if_splits)
  with s r have q: "\<forall>e \<in> set q. of_proxy n e" "count_list q (Proxy_Ready n) = 0" "readies p = 1" "gone p \<le> 1"
    "count_list q (Proxy_Disconnected n) = gone p" by (auto simp: shaking_def)
  then have "q = [] \<or> q = [Proxy_Disconnected n]" by (intro proxy_queue) simp_all
  then show ?thesis using Some u s q by (auto simp: client_ok_def shaking_def)
qed

lemma hello_version: "parse_hello env s = (Inr (Reply_Good name v), s') \<Longrightarrow> v \<le> 8"
  by (auto simp: parse_hello_def initProxy_def split: if_splits prod.splits sum.splits option.splits list.splits val.splits)

lemma new_shaking: "v \<le> 8 \<Longrightarrow> shaking n False (cp_new v name ls s) []"
  using inv_new [of v name ls s]
  by (auto simp: shaking_def gone_def readies_def cp_new_def synchronizeLanguages_def send_def cp_tell_def setHeartbeatRate_def Let_def)

lemma events_counts:
  "count_list (proxy_events n es) (Proxy_Ready n) = length (filter ((=) Ev_Ready) es)"
  "count_list (proxy_events n es) (Proxy_Disconnected n) = length (filter ((=) Ev_Disconnected) es)"
  "\<forall>e \<in> set (proxy_events n es). of_proxy n e"
  by (induction n es rule: proxy_events.induct) (auto simp: of_proxy_def)

lemma filter_proxy_events [simp]:
  "filter (about m) (proxy_events n es) = (if m = n then proxy_events n es else [])" "filter is_accept (proxy_events n es) = []"
  by (induction n es rule: proxy_events.induct) auto

lemma shaking_acts:
  assumes s: "shaking n r p q" and step: "cp_step env p p'"
  shows "shaking n r p' (q @ proxy_events n (drop (length (cp_log p)) (cp_log p')))"
proof -
  have acts: "calm p p' \<or> parted p p'" by (rule step_acts [OF step])
  then obtain es where es: "cp_log p' = cp_log p @ es" and v: "cp_version p' = cp_version p"
    by (auto simp: calm_def parted_def grows_def)
  have inv: "cp_inv p'" using inv_step [OF step] s by (simp add: shaking_def)
  then have one: "readies p' \<le> 1" by (auto simp: cp_inv_def split: if_splits)
  let ?es = "proxy_events n es"
  have counts: "readies p' = readies p + count_list ?es (Proxy_Ready n)" "gone p' = gone p + count_list ?es (Proxy_Disconnected n)"
    by (simp_all add: readies_def gone_def es events_counts)
  have g: "gone p' \<le> 1" "cp_handlers p' \<longleftrightarrow> gone p' = 0"
    using acts s by (auto simp: shaking_def calm_def parted_def)
  show ?thesis
  proof (cases r)
    case True
    with s counts one have ready: "count_list ?es (Proxy_Ready n) = 0" "readies p' = 1" by (auto simp: shaking_def)
    have "?es = [] \<or> ?es = [Proxy_Disconnected n]"
      using ready(1) counts(2) g(1) events_counts(3) by (intro proxy_queue) auto
    then show ?thesis
      using True s inv v g ready counts by (auto simp: shaking_def es)
  next
    case False
    with s inv v g counts show ?thesis
      using events_counts(3) [of n es] by (auto simp: shaking_def es)
  qed
qed

lemma kept_failure:
  assumes inv: "li_inv l" and n: "li_new l n = Some u" and o: "un_handlers u \<or> un_timer u" and l0: "only_touches n l l0" "same_clients l l0"
    and q: "events_of n l0 = events_of n l" and h: "li_proxy_handlers l0 = li_proxy_handlers l"
    and u': "u' = u \<or> un_stream u \<noteq> None \<and> (\<exists>s. u' = u\<lparr>un_stream := Some s\<rparr>)"
  shows "li_inv (sendFailure n u' l0)"
proof (rule inv_change [OF inv touches_failure [OF l0(1)] same_failure [OF l0(2)]])
  have "client_ok n (Some u) (events_of n l) (n \<in> set (li_proxy_handlers l))" using li_invD(1) [OF inv, of n] n by simp
  then have "client_ok n (Some u') (events_of n l) (n \<in> set (li_proxy_handlers l))"
    using u' by (auto simp: client_ok_def split: if_splits option.splits)
  moreover have "un_handlers u' \<or> un_timer u'" using o u' by auto
  ultimately have "client_ok n (Some (failed u')) (events_of n l @ [Unknown_Failure n]) (n \<in> set (li_proxy_handlers l))"
    by (rule fail_ok)
  then show "client_ok n (li_new (sendFailure n u' l0) n) (events_of n (sendFailure n u' l0))
      (n \<in> set (li_proxy_handlers (sendFailure n u' l0)))"
    by (simp only: after_failure q h)
qed (use n in simp)

lemma open_stream: "\<lbrakk>li_inv l; li_new l n = Some u; un_handlers u\<rbrakk> \<Longrightarrow>
    un_stream u \<noteq> None \<and> un_proxy u = None \<and> \<not> un_ready u \<and> events_of n l = [] \<and> n \<notin> set (li_proxy_handlers l)"
  using li_invD(1) [of l n] by (simp add: client_ok_def)

lemma kept_data:
  assumes inv: "li_inv l" and n: "li_new l n = Some u" and o: "un_handlers u"
  shows "\<exists>l'. un_handleData env n (u\<lparr>un_stream := Some s\<rparr>) l = Some l' \<and> li_inv l'"
proof -
  note st = open_stream [OF inv n o]
  obtain r s' where hello: "parse_hello env s = (r, s')" by fastforce
  let ?use = "use_object (Filter_Obj n)"
  have g: "greeted n l" using li_invD(2) [OF inv, of n] n by (simp add: known_def)
  have fail: "li_inv (sendFailure n (u\<lparr>un_stream := Some s'\<rparr>) l0)"
    if "l0 = ?use l \<or> (\<exists>fmt as. l0 = write_stream n fmt as (?use l))" for l0
  proof (rule kept_failure [OF inv n])
    show "only_touches n l l0" using that touch_use touches_trans [OF touch_use touch_write] by auto
    show "same_clients l l0" "events_of n l0 = events_of n l" "li_proxy_handlers l0 = li_proxy_handlers l"
      using that by (auto simp: same_clients_def stream_defs)
  qed (use o st in auto)
  show ?thesis
  proof (cases "\<exists>name v. r = Inr (Reply_Good name v)")
    case True
    then obtain name v where r: "r = Inr (Reply_Good name v)" by blast
    let ?u = "u\<lparr>un_handlers := False, un_stream := None, un_proxy := Some (cp_new v name (l_layouts env) s')\<rparr>"
    let ?l = "set_unknown n ?u ((?use (?use l))\<lparr>li_proxy_handlers := n # li_proxy_handlers l\<rparr>)"
    have "un_handleData env n (u\<lparr>un_stream := Some s\<rparr>) l = Some ?l"
      using hello r st by (simp add: un_handleData_def un_removeHandlers_def)
    moreover have "li_inv ?l"
    proof (rule inv_change [OF inv])
      show "only_touches n l ?l" by (intro touching touches_refl) auto
      show "same_clients l ?l" by (simp add: same_clients_def)
      show "client_ok n (li_new ?l n) (events_of n ?l) (n \<in> set (li_proxy_handlers ?l))"
        using st new_shaking [OF hello_version, of env s name v s'] hello r by (simp add: client_ok_def)
    qed (use n in simp)
    ultimately show ?thesis by blast
  next
    case False
    then consider "r = Inr Reply_Incompatible" | "r = Inr Reply_Bad" | e where "r = Inl e"
      by (cases r; metis hello_reply.exhaust)
    then have "\<exists>l0. un_handleData env n (u\<lparr>un_stream := Some s\<rparr>) l = Some (sendFailure n (u\<lparr>un_stream := Some s'\<rparr>) l0) \<and>
        (l0 = ?use l \<or> (\<exists>fmt as. l0 = write_stream n fmt as (?use l)))"
      by cases (simp_all add: un_handleData_def hello, blast+)
    then show ?thesis using fail by auto
  qed
qed

text \<open>The dispatch of the next event.\<close>

lemma kept_pop:
  assumes inv: "li_inv l" and q: "li_queue l = e # es"
    and ok: "\<And>n. about n e \<Longrightarrow> client_ok n (li_new l n) (events_of n (l\<lparr>li_queue := es\<rparr>)) (n \<in> set (li_proxy_handlers l))"
  shows "li_inv (l\<lparr>li_queue := es\<rparr>)"
proof -
  note I = li_invD [OF inv]
  have ev: "events_of n l = (if about n e then [e] else []) @ events_of n (l\<lparr>li_queue := es\<rparr>)" for n
    by (simp add: events_of_def q)
  have gr: "greeted n (l\<lparr>li_queue := es\<rparr>) = greeted n l" for n by (simp add: greeted_def)
  show ?thesis
    unfolding li_inv_def gr
  proof (intro conjI allI impI)
    fix n
    show "client_ok n (li_new (l\<lparr>li_queue := es\<rparr>) n) (events_of n (l\<lparr>li_queue := es\<rparr>))
        (n \<in> set (li_proxy_handlers (l\<lparr>li_queue := es\<rparr>)))"
      using I(1) [of n] ok [of n] ev [of n] by (cases "about n e") simp_all
    show "greeted n l" if "known n (l\<lparr>li_queue := es\<rparr>)"
      using that I(2) [of n] ev [of n] by (auto simp: known_def)
    show "\<not> greeted n l" if "Socket_Accepted n \<in> set (li_queue (l\<lparr>li_queue := es\<rparr>))"
      using that I(7) [of n] q by simp
    show "n \<in> set (li_sockets (l\<lparr>li_queue := es\<rparr>)) \<or> Socket_Deleted n \<in> set (li_log (l\<lparr>li_queue := es\<rparr>))"
      if "greeted n l \<or> Socket_Accepted n \<in> set (li_queue (l\<lparr>li_queue := es\<rparr>)) \<or> n \<in> set (li_accepting (l\<lparr>li_queue := es\<rparr>))"
      using that I(9) [of n] q by auto
  qed (use I(3-6,8) q in \<open>simp_all split: if_splits\<close>)
qed

lemma popped:
  assumes "li_queue l = e # es" and "about n e"
  shows "events_of n l = e # events_of n (l\<lparr>li_queue := es\<rparr>)"
  using assms by (simp add: events_of_def)

lemma kept_proxy_event:
  assumes inv: "li_inv l" and q: "li_queue l = e # es" and e: "of_proxy n e" and w: "e = Proxy_Disconnected n \<Longrightarrow> n \<notin> set (li_watching l)"
  shows "\<exists>l'. dispatch_next env accept l = Some l' \<and> li_inv l'"
proof -
  let ?l = "l\<lparr>li_queue := es\<rparr>"
  have ab: "about n e" using e by (auto simp: of_proxy_def)
  note ok = li_invD(1) [OF inv, of n, unfolded popped [OF q ab]]
  have touch: "only_touches n l ?l" "same_clients l ?l" using touch_pop [OF q ab] by (simp_all add: same_clients_def)
  show ?thesis
  proof (cases "n \<in> set (li_proxy_handlers l)")
    case True
    then have "li_new l n \<noteq> None" using ok e by (cases "li_new l n") (auto simp: client_ok_def)
    then obtain u where u: "li_new l n = Some u" by auto
    let ?l' = "if e = Proxy_Ready n then sendSuccess n u ?l else sendFailure n u ?l"
    have "dispatch_next env accept l = Some ?l'"
      using q e True w u by (auto simp: dispatch_next_def of_proxy_def with_unknown_def un_handleDisconnect_def)
    moreover have "li_inv ?l'"
    proof (rule inv_change [OF inv])
      show "only_touches n l ?l'" "same_clients l ?l'"
        using touch by (simp_all add: touches_success touches_failure same_success same_failure)
      show "client_ok n (li_new ?l' n) (events_of n ?l') (n \<in> set (li_proxy_handlers ?l'))"
        using ok e u ready_ok gone_ok by (auto simp: of_proxy_def after_success after_failure simp del: events_simps)
    qed (use u in simp)
    ultimately show ?thesis by blast
  next
    case False
    then have "client_ok n (li_new l n) (events_of n ?l) False"
      using ok e failing_next [of n e "events_of n ?l"] by (auto simp: client_ok_def split: option.splits if_splits)
    then have "li_inv ?l"
      using False ab about_other by (intro kept_pop [OF inv q]) (metis (mono_tags, lifting))
    moreover have "dispatch_next env accept l = Some ?l"
      using q e False w by (auto simp: dispatch_next_def of_proxy_def)
    ultimately show ?thesis by blast
  qed
qed

lemma readies_ready: "readies p = 1 \<Longrightarrow> Ev_Ready \<in> set (cp_log p)"
  by (metis (mono_tags, lifting) filter_False list.size(3) readies_def zero_neq_one)

lemma removed_view:
  assumes "li_new l n = Some u" and "un_proxy u = None"
  shows "li_new (removeUnknownClient n l) = (li_new l)(n := None)" "events_of m (removeUnknownClient n l) = events_of m l"
    "li_proxy_handlers (removeUnknownClient n l) = li_proxy_handlers l" "li_queue (removeUnknownClient n l) = li_queue l"
    "li_waiting (removeUnknownClient n l) = li_waiting l" "li_adopted (removeUnknownClient n l) = li_adopted l"
    "li_watching (removeUnknownClient n l) = li_watching l" "li_sockets (removeUnknownClient n l) = li_sockets l"
    "li_accepting (removeUnknownClient n l) = li_accepting l" "li_log (removeUnknownClient n l) = li_log l"
    "li_live (removeUnknownClient n l) = (if un_stream u = None then li_live l else li_live l - {Filter_Obj n})"
    "li_fault (removeUnknownClient n l) \<longleftrightarrow>
       li_fault l \<or> un_stream u \<noteq> None \<and> (Filter_Obj n \<notin> li_live l \<or> Socket_Obj n \<notin> li_live l)"
  using assms by (auto simp add: removeUnknownClient_def un_delete_def un_removeHandlers_def Let_def)

lemma kept_failed:
  assumes inv: "li_inv l" and q: "li_queue l = Unknown_Failure n # es" and u: "li_new l n = Some u"
  shows "\<exists>l'. dispatch_next env accept l = Some l' \<and> li_inv l'"
proof -
  let ?l = "l\<lparr>li_queue := es\<rparr>"
  note ok = li_invD(1) [OF inv, of n, unfolded popped [OF q about.simps(4) [THEN iffD2, OF HOL.refl]] u]
  have p: "un_proxy u = None" and f: "failing n (Unknown_Failure n # events_of n ?l)"
    using ok by (auto simp: client_ok_def shaking_def of_proxy_def split: if_splits option.splits)
  let ?m = "if un_stream u \<noteq> None then use_object (Filter_Obj n) ?l else ?l"
  let ?r = "removeUnknownClient n ?m"
  let ?l' = "if un_stream u \<noteq> None then removeClientSocket (Socket_Obj n) ?r else ?r"
  have "dispatch_next env accept l = Some ?l'"
    using q u by (simp add: dispatch_next_def handleUnknownFailure_def Let_def)
  moreover have "li_inv ?l'"
  proof (rule inv_change [OF inv])
    have "only_touches n l ?m" using touch_pop [OF q] by (auto intro: touches_trans [OF _ touch_use])
    then have "only_touches n l ?r" by (rule touches_removed)
    then show "only_touches n l ?l'" by (cases "un_stream u") (simp_all add: touches_trans [OF _ touch_socket])
    have "same_clients l ?r" by (rule same_removed) (simp add: same_clients_def)
    then show "same_clients l ?l'" by (cases "un_stream u") (simp_all add: same_clients_def removeClientSocket_def)
    have new: "li_new ?m n = Some u" using u by simp
    show "client_ok n (li_new ?l' n) (events_of n ?l') (n \<in> set (li_proxy_handlers ?l'))"
      using failing_end [OF f] removed_view(1-3) [OF new p]
      by (cases "un_stream u") (simp_all add: client_ok_def removeClientSocket_def of_proxy_def)
  qed (use u in simp)
  ultimately show ?thesis by blast
qed

text \<open>The proxy of a client that has succeeded is put in the queue.\<close>

lemma orphaned_step:
  assumes "li_new l n = Some u" and "un_ready u" and "un_proxy u = Some p" and "un_stream u = None"
  shows "handleUnknownClient n l = Some (l\<lparr>li_new := (li_new l)(n := None), li_queue := li_queue l @ [Listener_Accepted],
    li_proxy_handlers := removeAll n (li_proxy_handlers l), li_waiting := li_waiting l @ [(n, p)], li_watching := n # li_watching l\<rparr>)"
  using assms
  by (simp add: handleUnknownClient_def orphanClientProxy_def un_removeHandlers_def removeUnknownClient_def
      un_delete_def set_unknown_def add_event_def Let_def)

lemma kept_orphaned:
  assumes inv: "li_inv l" and q: "li_queue l = Unknown_Success n # es" and u: "li_new l n = Some u"
    and p: "un_ready u" "un_proxy u = Some p"
  shows "\<exists>l'. dispatch_next env accept l = Some l' \<and> li_inv l'"
proof -
  note I = li_invD [OF inv]
  let ?l = "l\<lparr>li_queue := es\<rparr>"
  have ab: "about n (Unknown_Success n)" by simp
  note ok = I(1) [of n, unfolded popped [OF q ab] u]
  have s: "shaking n True p (Unknown_Success n # events_of n ?l)" and st: "un_stream u = None"
    using ok p by (auto simp: client_ok_def split: if_splits)
  then have r: "Ev_Ready \<in> set (cp_log p)" "cp_version p \<le> 8"
    using readies_ready [of p] by (simp_all add: shaking_def)
  let ?l' = "?l\<lparr>li_new := (li_new l)(n := None), li_queue := es @ [Listener_Accepted],
    li_proxy_handlers := removeAll n (li_proxy_handlers l), li_waiting := li_waiting l @ [(n, p)], li_watching := n # li_watching l\<rparr>"
  have "dispatch_next env accept l = Some ?l'"
    using q u p st by (simp add: dispatch_next_def orphaned_step)
  moreover have "li_inv ?l'"
  proof -
    have ev: "events_of m ?l' = events_of m ?l" for m by (simp add: events_of_def)
    have evl: "events_of m l = (if m = n then [Unknown_Success n] else []) @ events_of m ?l" for m
      by (auto simp: events_of_def q)
    have gr: "greeted m ?l' = greeted m l" for m by (simp add: greeted_def)
    have g: "greeted n l" using I(2) [of n] u by (simp add: known_def)
    have out: "n \<notin> fst ` set (li_waiting l)" "n \<notin> fst ` set (li_adopted l)" using I(3) [of n] u by auto
    show ?thesis
      unfolding li_inv_def gr ev
    proof (intro conjI allI impI)
      fix m
      show "client_ok m (li_new ?l' m) (events_of m ?l) (m \<in> set (li_proxy_handlers ?l'))"
        using I(1) [of m] evl [of m] by (cases "m = n") (simp_all add: client_ok_def)
      show "greeted m l" if "known m ?l'"
        using that I(2) [of m] g evl [of m] unfolding known_def ev by (cases "m = n") simp_all
      show "li_new ?l' m = None" "m \<notin> set (li_proxy_handlers ?l')"
        if "m \<in> fst ` set (li_waiting ?l') \<or> m \<in> fst ` set (li_adopted ?l')"
        using that I(3) [of m] by (cases "m = n"; simp)+
      show "Ev_Ready \<in> set (cp_log p')" "cp_version p' \<le> 8" if "(m, p') \<in> set (li_adopted ?l' @ li_waiting ?l')" for p'
        using that I(6) [of m p'] r by auto
      show "\<not> greeted m l" if "Socket_Accepted m \<in> set (li_queue ?l')" using that I(7) [of m] q by simp
      show "m \<in> set (li_sockets ?l') \<or> Socket_Deleted m \<in> set (li_log ?l')"
        if "greeted m l \<or> Socket_Accepted m \<in> set (li_queue ?l') \<or> m \<in> set (li_accepting ?l')"
        using that I(9) [of m] q by simp
    qed (use I(4,5,8) q out in \<open>simp_all\<close>)
  qed
  ultimately show ?thesis by blast
qed

lemma kept_succeeded:
  assumes inv: "li_inv l" and q: "li_queue l = Unknown_Success n # es" and u: "li_new l n = Some u"
  shows "\<exists>l'. dispatch_next env accept l = Some l' \<and> li_inv l'"
proof (cases "un_ready u \<and> un_proxy u \<noteq> None")
  case True
  then show ?thesis using kept_orphaned [OF inv q u] by blast
next
  case False
  let ?l = "l\<lparr>li_queue := es\<rparr>"
  have ab: "about n (Unknown_Success n)" by simp
  note ok = li_invD(1) [OF inv, of n, unfolded popped [OF q ab] u]
  have p: "un_proxy u = None" and f: "failing n (Unknown_Success n # events_of n ?l)"
    using ok False by (auto simp: client_ok_def shaking_def of_proxy_def split: if_splits option.splits)
  let ?o = "orphanClientProxy n u ?l"
  define u' where "u' = (if un_ready u then (if un_stream u \<noteq> None then u\<lparr>un_handlers := False\<rparr> else u)\<lparr>un_proxy := None\<rparr> else u)"
  let ?k = "if un_ready u \<and> un_stream u \<noteq> None then use_object (Filter_Obj n) ?l else ?l"
  have o: "?o = (None, u', ?k)" "un_proxy u' = None"
    using p by (simp_all add: u'_def orphanClientProxy_def un_removeHandlers_def)
  let ?m = "set_unknown n u' (if un_stream u' \<noteq> None then close_stream n ?k else ?k)"
  let ?l' = "removeUnknownClient n ?m"
  have "dispatch_next env accept l = Some ?l'"
    using q u o by (simp add: dispatch_next_def handleUnknownClient_def)
  moreover have "li_inv ?l'"
  proof (rule inv_change [OF inv])
    show "only_touches n l ?l'"
      using touch_pop [OF q ab] by (intro touches_removed) (auto intro!: touching_more)
    show "same_clients l ?l'" by (intro same_removed) (simp add: same_clients_def close_stream_def)
    have new: "li_new ?m n = Some u'" by simp
    show "client_ok n (li_new ?l' n) (events_of n ?l') (n \<in> set (li_proxy_handlers ?l'))"
      using failing_end [OF f] unfolding removed_view [OF new o(2)] by (simp add: client_ok_def of_proxy_def close_stream_def)
  qed (use u in simp)
  ultimately show ?thesis by blast
qed

lemma kept_handed_over:
  assumes inv: "li_inv l" and q: "li_queue l = Listener_Accepted # es"
  shows "\<exists>l'. dispatch_next env accept l = Some l' \<and> li_inv l'"
proof -
  let ?l = "l\<lparr>li_queue := es\<rparr>"
  have l: "li_inv ?l" by (rule kept_pop [OF inv q]) simp
  have d: "dispatch_next env accept l = Some (handleClientConnected ?l)" using q by (simp add: dispatch_next_def)
  show ?thesis
  proof (cases "li_waiting l")
    case Nil
    then show ?thesis using d l by (simp add: handleClientConnected_def getNextClient_def)
  next
    case (Cons c cs)
    let ?l' = "?l\<lparr>li_waiting := cs, li_watching := removeAll (fst c) (li_watching l), li_adopted := li_adopted l @ [c]\<rparr>"
    note I = li_invD [OF l]
    have k: "known m ?l' = known m ?l" for m using Cons by (auto simp: known_def)
    have g: "greeted m ?l' = greeted m ?l" for m by (simp add: greeted_def)
    have w: "li_waiting ?l = c # cs" "li_adopted ?l = li_adopted l" using Cons by simp_all
    have "li_inv ?l'"
      unfolding li_inv_def k g
    proof (intro conjI allI impI)
      fix m
      show "li_new ?l' m = None" "m \<notin> set (li_proxy_handlers ?l')"
        if "m \<in> fst ` set (li_waiting ?l') \<or> m \<in> fst ` set (li_adopted ?l')"
        using that I(3) [of m] w by auto
      show "Ev_Ready \<in> set (cp_log p)" "cp_version p \<le> 8" if "(m, p) \<in> set (li_adopted ?l' @ li_waiting ?l')" for p
        using that I(6) [of m p] w by auto
    next
      show "set (li_watching ?l') = fst ` set (li_waiting ?l')" using I(4,5) w by auto
    qed (use I(1,2,4,7,8,9) w in simp_all)
    then show ?thesis using d Cons by (simp add: handleClientConnected_def getNextClient_def)
  qed
qed

lemmas accepted_defs = handleClientAccepted_def stream_defs

lemma kept_greeting:
  assumes inv: "li_inv l" and n: "n \<in> set (li_accepting l)" "\<not> greeted n l" "Socket_Accepted n \<notin> set (li_queue l)"
  shows "li_inv (handleClientAccepted env n s l)"
proof -
  note I = li_invD [OF inv]
  let ?l' = "handleClientAccepted env n s l"
  have new: "\<not> known n l" using I(2) n(2) by blast
  have g: "greeted m ?l' \<longleftrightarrow> m = n \<or> greeted m l" for m by (auto simp: accepted_defs greeted_def)
  have k: "known m ?l' \<Longrightarrow> m = n \<or> known m l" for m by (auto simp: accepted_defs known_def split: if_splits)
  have ev: "events_of m ?l' = events_of m l" for m by (simp add: accepted_defs)
  show ?thesis
    unfolding li_inv_def g ev
  proof (intro conjI allI impI)
    fix m
    show "client_ok m (li_new ?l' m) (events_of m l) (m \<in> set (li_proxy_handlers ?l'))"
      using I(1) [of m] new by (cases "m = n") (simp_all add: accepted_defs client_ok_def known_def)
    show "m = n \<or> greeted m l" if "known m ?l'" using k [OF that] I(2) by blast
    show "li_new ?l' m = None" "m \<notin> set (li_proxy_handlers ?l')"
      if "m \<in> fst ` set (li_waiting ?l') \<or> m \<in> fst ` set (li_adopted ?l')"
      using that I(3) [of m] new by (cases "m = n"; simp add: accepted_defs known_def)+
    show "Ev_Ready \<in> set (cp_log p)" "cp_version p \<le> 8" if "(m, p) \<in> set (li_adopted ?l' @ li_waiting ?l')" for p
      using that I(6) [of m p] by (simp_all add: accepted_defs)
    show "\<not> (m = n \<or> greeted m l)" if "Socket_Accepted m \<in> set (li_queue ?l')"
      using that I(7) [of m] n(3) by (auto simp: accepted_defs)
    show "m \<in> set (li_sockets ?l') \<or> Socket_Deleted m \<in> set (li_log ?l')"
      if "(m = n \<or> greeted m l) \<or> Socket_Accepted m \<in> set (li_queue ?l') \<or> m \<in> set (li_accepting ?l')"
      using that I(9) [of m] n(1) by (auto simp: accepted_defs)
  qed (use I(4,5,8) in \<open>simp_all add: accepted_defs\<close>)
qed

lemma kept_connecting:
  assumes inv: "li_inv l" and n: "n \<notin> set (li_sockets l)" "Socket_Deleted n \<notin> set (li_log l)"
  shows "li_inv (handleClientConnecting env (Some n) l)"
proof -
  note I = li_invD [OF inv]
  let ?l' = "handleClientConnecting env (Some n) l"
  have new: "\<not> greeted n l" "Socket_Accepted n \<notin> set (li_queue l)" "n \<notin> set (li_accepting l)" using I(9) n by blast+
  have g: "greeted m ?l' = greeted m l" and ev: "events_of m ?l' = events_of m l" and k: "known m ?l' = known m l" for m
    by (auto simp: handleClientConnecting_def greeted_def events_of_def known_def Let_def)
  have v: "li_new ?l' = li_new l" "li_proxy_handlers ?l' = li_proxy_handlers l" "li_waiting ?l' = li_waiting l"
    "li_adopted ?l' = li_adopted l" "li_watching ?l' = li_watching l" "li_sockets ?l' = n # li_sockets l"
    "li_accepting ?l' = n # li_accepting l" "li_log ?l' = li_log l"
    "li_queue ?l' = li_queue l @ (if l_plain env then [Socket_Accepted n] else [])"
    by (simp_all add: handleClientConnecting_def Let_def)
  show ?thesis
    unfolding li_inv_def g ev k v
  proof (intro conjI allI impI)
    show "\<not> greeted m l" if "Socket_Accepted m \<in> set (li_queue l @ (if l_plain env then [Socket_Accepted n] else []))" for m
      using that I(7) [of m] new by (auto split: if_splits)
    show "m \<in> set (n # li_sockets l) \<or> Socket_Deleted m \<in> set (li_log l)"
      if "greeted m l \<or> Socket_Accepted m \<in> set (li_queue l @ (if l_plain env then [Socket_Accepted n] else [])) \<or>
        m \<in> set (n # li_accepting l)" for m
      using that I(9) [of m] by (auto split: if_splits)
    show "distinct (filter is_accept (li_queue l @ (if l_plain env then [Socket_Accepted n] else [])))"
      using I(8) new by simp
  qed (use I in simp_all)
qed

lemma kept_turned_down:
  assumes inv: "li_inv l"
  shows "li_inv (removeClientSocket (Socket_Obj n) l)"
proof -
  note I = li_invD [OF inv]
  let ?l' = "removeClientSocket (Socket_Obj n) l"
  have g: "greeted m ?l' = greeted m l" and ev: "events_of m ?l' = events_of m l" and k: "known m ?l' = known m l" for m
    by (auto simp: removeClientSocket_def greeted_def events_of_def known_def)
  show ?thesis
    unfolding li_inv_def g ev k
  proof (intro conjI allI impI)
    show "m \<in> set (li_sockets ?l') \<or> Socket_Deleted m \<in> set (li_log ?l')"
      if "greeted m l \<or> Socket_Accepted m \<in> set (li_queue ?l') \<or> m \<in> set (li_accepting ?l')" for m
      using that I(9) [of m] by (auto simp: removeClientSocket_def)
    show "Ev_Ready \<in> set (cp_log p)" "cp_version p \<le> 8" if "(m, p) \<in> set (li_adopted ?l' @ li_waiting ?l')" for m p
      using that I(6) [of m p] by (simp_all add: removeClientSocket_def)
  qed (use I(1-5,7,8) in \<open>simp_all add: removeClientSocket_def\<close>)
qed

lemma kept_acts_unknown:
  assumes inv: "li_inv l" and u: "li_new l n = Some u" "un_proxy u = Some p" and step: "cp_step env p p'"
  shows "\<exists>l'. proxy_acts n p' l = Some l' \<and> li_inv l'"
proof -
  let ?es = "proxy_events n (drop (length (cp_log p)) (cp_log p'))"
  let ?l' = "set_unknown n (u\<lparr>un_proxy := Some p'\<rparr>) ((use_object (Filter_Obj n) l)\<lparr>li_queue := li_queue l @ ?es\<rparr>)"
  have ev: "events_of m ((use_object (Filter_Obj n) l)\<lparr>li_queue := li_queue l @ ?es\<rparr>) = events_of m l @ (if m = n then ?es else [])" for m
    by (simp add: events_of_def)
  have "li_inv ?l'"
  proof (rule inv_change [OF inv])
    show "only_touches n l ?l'"
      by (auto simp: only_touches_def ev greeted_def)
    show "same_clients l ?l'" by (simp add: same_clients_def)
    show "client_ok n (li_new ?l' n) (events_of n ?l') (n \<in> set (li_proxy_handlers ?l'))"
      using li_invD(1) [OF inv, of n] u shaking_acts [OF _ step] by (auto simp: client_ok_def ev split: if_splits)
  qed (use u in simp)
  then show ?thesis using u by (simp add: proxy_acts_def)
qed

lemma acts_ready: "\<lbrakk>cp_step env p p'; Ev_Ready \<in> set (cp_log p); cp_version p \<le> 8\<rbrakk> \<Longrightarrow> Ev_Ready \<in> set (cp_log p') \<and> cp_version p' \<le> 8"
  using step_acts [of env p p'] by (auto simp: calm_def parted_def grows_def)

lemma kept_acts_waiting:
  assumes inv: "li_inv l" and w: "(n, p) \<in> set (li_waiting l)" and step: "cp_step env p p'"
  shows "\<exists>l'. proxy_acts n p' l = Some l' \<and> li_inv l'"
proof -
  note I = li_invD [OF inv]
  let ?es = "proxy_events n (drop (length (cp_log p)) (cp_log p'))"
  let ?ws = "map (\<lambda>(m, q). (m, if m = n then p' else q)) (li_waiting l)"
  let ?l' = "(use_object (Filter_Obj n) l)\<lparr>li_waiting := ?ws, li_queue := li_queue l @ ?es\<rparr>"
  have n: "li_new l n = None" "n \<notin> set (li_proxy_handlers l)" using I(3) [of n] w by force+
  have "map_of (li_waiting l) n = Some p" using I(4) w by simp
  then have d: "proxy_acts n p' l = Some ?l'" using n by (simp add: proxy_acts_def)
  have ev: "events_of m ?l' = events_of m l @ (if m = n then ?es else [])" for m by (simp add: events_of_def)
  have g: "greeted m ?l' = greeted m l" for m by (simp add: greeted_def)
  have fs: "map fst ?ws = map fst (li_waiting l)" by (simp add: case_prod_beta)
  then have fst: "fst ` set ?ws = fst ` set (li_waiting l)" by (metis list.set_map)
  have "n \<in> fst ` set (li_waiting l)" using w by force
  then have k: "known m ?l' = known m l" for m unfolding known_def ev using fst by (cases "m = n") simp_all
  have p: "Ev_Ready \<in> set (cp_log p')" "cp_version p' \<le> 8" using acts_ready [OF step] I(6) [of n p] w by simp_all
  have v: "li_new ?l' = li_new l" "li_proxy_handlers ?l' = li_proxy_handlers l" "li_adopted ?l' = li_adopted l"
    "li_waiting ?l' = ?ws" "li_watching ?l' = li_watching l" "li_queue ?l' = li_queue l @ ?es"
    "li_sockets ?l' = li_sockets l" "li_accepting ?l' = li_accepting l" "li_log ?l' = li_log l" by simp_all
  have acc: "Socket_Accepted m \<in> set (li_queue l @ ?es) \<longleftrightarrow> Socket_Accepted m \<in> set (li_queue l)" for m
    by (rule accepts_same) simp
  have "li_inv ?l'"
    unfolding li_inv_def g k v fst acc
  proof (intro conjI allI impI)
    fix m
    show "client_ok m (li_new l m) (events_of m ?l') (m \<in> set (li_proxy_handlers l))"
      using I(1) [of m] n by (cases "m = n") (simp_all add: ev client_ok_def)
    show "Ev_Ready \<in> set (cp_log q)" "cp_version q \<le> 8" if "(m, q) \<in> set (li_adopted l @ ?ws)" for q
      using that p I(6) [of m] by (auto split: if_splits)
  next
    show "distinct (map fst (li_adopted l @ ?ws))" using I(4) unfolding map_append fs .
  qed (use I in simp_all)
  with d show ?thesis by blast
qed

text \<open>The only event whose handler goes wrong: the disconnection of a waiting proxy.\<close>

definition lost_waiting :: "'s listener \<Rightarrow> bool" where
  "lost_waiting l \<longleftrightarrow> (\<exists>n es. li_queue l = Proxy_Disconnected n # es \<and> n \<in> fst ` set (li_waiting l))"

lemma kept_next:
  assumes inv: "li_inv l" and "\<not> lost_waiting l"
  shows "\<exists>l'. dispatch_next env accept l = Some l' \<and> li_inv l'"
proof (cases "li_queue l")
  case Nil
  then show ?thesis using inv by (simp add: dispatch_next_def)
next
  case (Cons e es)
  let ?l = "l\<lparr>li_queue := es\<rparr>"
  note I = li_invD [OF inv]
  have ignored: "\<exists>l'. dispatch_next env accept l = Some l' \<and> li_inv l'"
    if e: "e = Unknown_Success n \<or> e = Unknown_Failure n" and new: "li_new l n = None" for n
  proof -
    have ab: "about n e" using e by auto
    have "li_inv ?l"
    proof (rule kept_pop [OF inv Cons])
      fix m assume "about m e"
      then have m: "m = n" using about_other ab by blast
      show "client_ok m (li_new l m) (events_of m ?l) (m \<in> set (li_proxy_handlers l))"
        using I(1) [of n] new popped [OF Cons ab] by (simp add: m client_ok_def)
    qed
    then show ?thesis using Cons e new by (auto simp: dispatch_next_def)
  qed
  show ?thesis
  proof (cases e)
    case (Proxy_Ready n)
    then show ?thesis using kept_proxy_event [OF inv Cons, of n] by (simp add: of_proxy_def)
  next
    case (Proxy_Disconnected n)
    then have "n \<notin> set (li_watching l)" using assms(2) Cons I(5) by (auto simp: lost_waiting_def)
    then show ?thesis using kept_proxy_event [OF inv Cons, of n] Proxy_Disconnected by (simp add: of_proxy_def)
  next
    case (Unknown_Success n)
    then show ?thesis using ignored [of n] kept_succeeded [OF inv, of n es] Cons by (cases "li_new l n") auto
  next
    case (Unknown_Failure n)
    then show ?thesis using ignored [of n] kept_failed [OF inv, of n es] Cons by (cases "li_new l n") auto
  next
    case Listener_Accepted
    then show ?thesis using kept_handed_over [OF inv] Cons by blast
  next
    case (Socket_Accepted n)
    have l: "li_inv ?l" by (rule kept_pop [OF inv Cons]) (simp add: Socket_Accepted)
    have "Socket_Accepted n \<notin> set es" using I(8) Cons Socket_Accepted by simp
    moreover have "\<not> greeted n ?l" using I(7) [of n] Cons Socket_Accepted by (simp add: greeted_def)
    ultimately show ?thesis
      using kept_greeting [OF l] l Cons Socket_Accepted by (simp add: dispatch_next_def)
  qed
qed

lemma kept_input:
  assumes inv: "li_inv l" and en: "enabled env i l" and "i \<noteq> Next \<or> \<not> lost_waiting l"
  shows "\<exists>l'. take_input env accept i l = Some l' \<and> li_inv l'"
proof (cases i)
  case (Connecting so)
  then show ?thesis
    using inv en kept_connecting [OF inv] by (cases so) (auto simp: handleClientConnecting_def)
next
  case (Secured n s)
  then show ?thesis using en kept_greeting [OF inv] by auto
next
  case (Turned_Down n)
  then show ?thesis using kept_turned_down [OF inv] by auto
next
  case (Data n s)
  then obtain u where u: "li_new l n = Some u" "un_handlers u" using en by auto
  then obtain t where "un_stream u = Some t" using open_stream [OF inv] by blast
  then show ?thesis using Data u kept_data [OF inv u] by simp
next
  case (Proxy_Acts n p')
  then show ?thesis using en kept_acts_unknown [OF inv] kept_acts_waiting [OF inv] by auto
next
  case Next
  then show ?thesis using assms kept_next [OF inv] by simp
qed (use en kept_failure [OF inv] in \<open>auto simp: with_unknown_def un_handleWriteError_def un_handleDisconnect_def un_handleTimeout_def\<close>)

section \<open>The objects in use are alive\<close>

definition owns :: "nat \<Rightarrow> 's listener \<Rightarrow> bool" where
  "owns n l \<longleftrightarrow> (\<exists>u. li_new l n = Some u \<and> (un_stream u \<noteq> None \<or> un_proxy u \<noteq> None)) \<or>
     n \<in> fst ` set (li_waiting l) \<or> n \<in> fst ` set (li_adopted l)"

definition live_at :: "nat \<Rightarrow> 's listener \<Rightarrow> bool" where
  "live_at n l \<longleftrightarrow> (owns n l \<longrightarrow> Filter_Obj n \<in> li_live l) \<and>
     (Filter_Obj n \<in> li_live l \<longrightarrow> Socket_Obj n \<in> li_live l \<and> greeted n l) \<and>
     (n \<in> set (li_sockets l) \<or> n \<in> set (li_accepting l) \<longrightarrow> Socket_Obj n \<in> li_live l)"

definition live_ok :: "'s listener \<Rightarrow> bool" where
  "live_ok l \<longleftrightarrow> \<not> li_fault l \<and> (\<forall>n. live_at n l)"

lemmas live_defs = live_at_def owns_def greeted_def

lemma greeted_simps:
  "greeted m (use_object ob l) = greeted m l" "greeted m (delete_object ob l) = greeted m l"
  "greeted m (li_note f l) \<longleftrightarrow> greeted m l \<or> (\<exists>fmt as. f = Written m fmt as)"
  by (cases ob; auto simp: greeted_def)+

lemma live_okD: "live_ok l \<Longrightarrow> \<not> li_fault l" "live_ok l \<Longrightarrow> live_at n l"
  by (simp_all add: live_ok_def)

lemma live_pop: "live_ok l \<Longrightarrow> live_ok (l\<lparr>li_queue := es\<rparr>)"
  by (simp add: live_ok_def live_defs)

lemma live_owner: "\<lbrakk>live_ok l; owns n l\<rbrakk> \<Longrightarrow> Filter_Obj n \<in> li_live l \<and> Socket_Obj n \<in> li_live l"
  by (simp add: live_ok_def live_at_def)

text \<open>An unknown client has a stream or a proxy, not both.\<close>

lemma one_owner: "\<lbrakk>li_inv l; li_new l n = Some u\<rbrakk> \<Longrightarrow> un_stream u = None \<or> un_proxy u = None"
  using li_invD(1) [of l n] by (auto simp: client_ok_def split: if_splits option.splits)

lemma live_elsewhere:
  assumes "live_at m l" and "m \<noteq> n" and "only_touches n l l'" and "same_clients l l'"
    and "li_live l - {Filter_Obj n, Socket_Obj n} = li_live l' - {Filter_Obj n, Socket_Obj n}"
    and "set (li_sockets l') \<subseteq> set (li_sockets l)"
  shows "live_at m l'"
proof -
  have "ob \<in> li_live l \<longleftrightarrow> ob \<in> li_live l'" if "ob \<noteq> Filter_Obj n" "ob \<noteq> Socket_Obj n" for ob
    using assms(5) that by blast
  then have "Filter_Obj m \<in> li_live l \<longleftrightarrow> Filter_Obj m \<in> li_live l'" "Socket_Obj m \<in> li_live l \<longleftrightarrow> Socket_Obj m \<in> li_live l'"
    using assms(2) by simp_all
  moreover have "owns m l' = owns m l" "greeted m l' = greeted m l" "set (li_accepting l') \<subseteq> set (li_accepting l)"
    using assms(2-4) by (auto simp: owns_def only_touches_def same_clients_def)
  ultimately show ?thesis using assms(1,6) by (auto simp: live_at_def)
qed

lemma live_change:
  assumes "live_ok l" and "only_touches n l l'" and "same_clients l l'" and "\<not> li_fault l'" and "live_at n l'"
    and "li_live l - {Filter_Obj n, Socket_Obj n} = li_live l' - {Filter_Obj n, Socket_Obj n}"
    and "set (li_sockets l') \<subseteq> set (li_sockets l)"
  shows "live_ok l'"
proof -
  have "live_at m l'" for m
    using assms(5) live_elsewhere [OF live_okD(2) [OF assms(1)] _ assms(2,3,6,7)] by (cases "m = n") simp_all
  then show ?thesis using assms(4) by (simp add: live_ok_def)
qed

lemma failure_store:
  "li_live (sendFailure n u l) = (if un_proxy u = None then li_live l else li_live l - {Filter_Obj n})"
  "li_fault (sendFailure n u l) \<longleftrightarrow> li_fault l \<or>
     un_proxy u \<noteq> None \<and> (Filter_Obj n \<notin> li_live l \<or> Socket_Obj n \<notin> li_live l) \<or>
     un_stream u \<noteq> None \<and> (un_proxy u \<noteq> None \<or> Filter_Obj n \<notin> li_live l)"
  "li_sockets (sendFailure n u l) = li_sockets l" "li_accepting (sendFailure n u l) = li_accepting l"
  by (auto simp: sendFailure_def un_removeHandlers_def stream_defs)

lemma live_failure:
  assumes live: "live_ok l" and u: "li_new l n = Some u" and one: "un_stream u' = None \<or> un_proxy u' = None"
    and out: "n \<notin> fst ` set (li_waiting l)" "n \<notin> fst ` set (li_adopted l)"
    and u': "un_stream u' = None \<longleftrightarrow> un_stream u = None" "un_proxy u' = un_proxy u"
  shows "live_ok (sendFailure n u' l)"
proof (rule live_change [OF live, of n])
  note at = live_okD(2) [OF live, of n]
  have o: "un_stream u' \<noteq> None \<or> un_proxy u' \<noteq> None \<Longrightarrow> Filter_Obj n \<in> li_live l \<and> Socket_Obj n \<in> li_live l"
    using live_owner [OF live] u u' by (auto simp: owns_def)
  show touch: "only_touches n l (sendFailure n u' l)" and same: "same_clients l (sendFailure n u' l)"
    by (simp_all add: touches_failure same_failure)
  show "\<not> li_fault (sendFailure n u' l)"
    using live_okD(1) [OF live] o one by (auto simp: failure_store)
  have g: "greeted n l \<Longrightarrow> greeted n (sendFailure n u' l)" using touch by (simp add: only_touches_def)
  have "owns n (sendFailure n u' l) \<longleftrightarrow> un_stream u' \<noteq> None"
    using out same by (simp add: owns_def after_failure same_clients_def)
  then show "live_at n (sendFailure n u' l)"
    using at o one g by (auto simp: live_at_def failure_store)
qed (auto simp: failure_store)

lemma not_handed_over: "\<lbrakk>li_inv l; li_new l n = Some u\<rbrakk> \<Longrightarrow> n \<notin> fst ` set (li_waiting l) \<and> n \<notin> fst ` set (li_adopted l)"
  using li_invD(3) [of l n] by auto

lemma live_use: "\<lbrakk>live_ok l; ob \<in> li_live l\<rbrakk> \<Longrightarrow> live_ok (use_object ob l)"
  by (simp add: live_ok_def live_defs)

lemma live_write: "\<lbrakk>live_ok l; Filter_Obj n \<in> li_live l\<rbrakk> \<Longrightarrow> live_ok (write_stream n fmt as l)"
  by (auto simp: live_ok_def live_at_def owns_def write_stream_def greeted_simps)

lemma live_close: "\<lbrakk>live_ok l; Filter_Obj n \<in> li_live l\<rbrakk> \<Longrightarrow> live_ok (close_stream n l)"
  by (auto simp: live_ok_def live_at_def owns_def close_stream_def greeted_simps)

lemma live_set_unknown:
  "\<lbrakk>live_ok l; un_stream u \<noteq> None \<or> un_proxy u \<noteq> None \<Longrightarrow> Filter_Obj n \<in> li_live l\<rbrakk> \<Longrightarrow> live_ok (set_unknown n u l)"
  by (auto simp: live_ok_def live_defs)

lemma write_view:
  "li_new (write_stream n fmt as l) = li_new l" "li_waiting (write_stream n fmt as l) = li_waiting l"
  "li_adopted (write_stream n fmt as l) = li_adopted l"
  by (simp_all add: write_stream_def)

lemma live_data:
  assumes inv: "li_inv l" and live: "live_ok l" and n: "li_new l n = Some u" and o: "un_handlers u"
    and h: "un_handleData env n (u\<lparr>un_stream := Some s\<rparr>) l = Some l'"
  shows "live_ok l'"
proof -
  note st = open_stream [OF inv n o]
  have f: "Filter_Obj n \<in> li_live l" "Socket_Obj n \<in> li_live l" using live_owner [OF live, of n] n st by (auto simp: owns_def)
  let ?use = "use_object (Filter_Obj n)"
  have u: "live_ok (?use l)" using live_use [OF live f(1)] .
  have fail: "live_ok (sendFailure n (u\<lparr>un_stream := Some s'\<rparr>) l0)"
    if "live_ok l0" "li_new l0 = li_new l" "li_waiting l0 = li_waiting l" "li_adopted l0 = li_adopted l" for l0 s'
    by (rule live_failure [OF that(1)]) (use that n st not_handed_over [OF inv n] in auto)
  obtain r s' where hello: "parse_hello env s = (r, s')" by fastforce
  have w: "live_ok (write_stream n fmt as (?use l))" for fmt as using live_write [OF u] f by simp
  show ?thesis
  proof (cases "\<exists>name v. r = Inr (Reply_Good name v)")
    case True
    then obtain name v where r: "r = Inr (Reply_Good name v)" by blast
    let ?u = "u\<lparr>un_handlers := False, un_stream := None, un_proxy := Some (cp_new v name (l_layouts env) s')\<rparr>"
    have l': "l' = set_unknown n ?u ((?use (?use l))\<lparr>li_proxy_handlers := n # li_proxy_handlers l\<rparr>)"
      using h hello r st by (simp add: un_handleData_def un_removeHandlers_def)
    show ?thesis
      using live f n by (auto simp: l' live_ok_def live_defs)
  next
    case False
    then consider "r = Inr Reply_Incompatible" | "r = Inr Reply_Bad" | e where "r = Inl e"
      by (cases r; metis hello_reply.exhaust)
    then show ?thesis
      using h hello by cases (auto simp: un_handleData_def write_view intro!: fail w u)
  qed
qed

lemma live_connecting: "live_ok l \<Longrightarrow> live_ok (handleClientConnecting env socket l)"
  by (auto simp: handleClientConnecting_def Let_def live_ok_def live_defs split: option.split)

lemma live_greeting: "\<lbrakk>live_ok l; n \<in> set (li_accepting l)\<rbrakk> \<Longrightarrow> live_ok (handleClientAccepted env n s l)"
  using live_okD(2) [of l n] unfolding live_ok_def by (auto simp: live_defs accepted_defs)

lemma live_turned_down:
  assumes "live_ok l" and "n \<in> set (li_accepting l)" and "\<not> greeted n l"
  shows "live_ok (removeClientSocket (Socket_Obj n) l)"
  using assms live_okD(2) [of l n] unfolding live_ok_def by (auto simp: live_defs removeClientSocket_def)

lemma live_acts:
  assumes inv: "li_inv l" and live: "live_ok l" and en: "enabled env (Proxy_Acts n p') l" and a: "proxy_acts n p' l = Some l'"
  shows "live_ok l'"
proof -
  note at = live_okD(2) [OF live]
  have o: "owns n l" using en by (force simp: owns_def)
  then have f: "Filter_Obj n \<in> li_live l" using live_owner [OF live] by blast
  have v: "li_live l' = li_live l" "li_fault l' = li_fault l" "li_sockets l' = li_sockets l" "li_accepting l' = li_accepting l"
    "li_log l' = li_log l" "li_adopted l' = li_adopted l" "map fst (li_waiting l') = map fst (li_waiting l)"
    using a f by (auto simp: proxy_acts_def case_prod_beta split: option.splits)
  then have w: "fst ` set (li_waiting l') = fst ` set (li_waiting l)" by (metis list.set_map)
  have "owns m l' \<Longrightarrow> owns m l" for m
    using a o v(6) w by (auto simp: proxy_acts_def owns_def split: option.splits if_splits)
  then show ?thesis
    using live_okD(1) [OF live] at unfolding live_ok_def live_at_def greeted_def v by blast
qed

text \<open>What the removal of an unknown client does to the store, in every case.\<close>

lemma live_removed:
  assumes live: "live_ok l" and u: "li_new l n = Some u" "un_proxy u = None"
    and out: "n \<notin> fst ` set (li_waiting l)" "n \<notin> fst ` set (li_adopted l)"
  shows "live_ok (removeUnknownClient n l)" "un_stream u \<noteq> None \<Longrightarrow> Filter_Obj n \<notin> li_live (removeUnknownClient n l)"
proof -
  let ?r = "removeUnknownClient n l"
  note at = live_okD(2) [OF live, of n]
  have o: "un_stream u \<noteq> None \<Longrightarrow> Filter_Obj n \<in> li_live l \<and> Socket_Obj n \<in> li_live l"
    using live_owner [OF live] u by (auto simp: owns_def)
  note V = removed_view [OF u]
  show "live_ok ?r"
  proof (rule live_change [OF live, of n])
    show "only_touches n l ?r" "same_clients l ?r" by (simp_all add: touches_removed same_removed)
    show "\<not> li_fault ?r" using live_okD(1) [OF live] o by (auto simp: V)
    have "\<not> owns n ?r" using out by (simp add: owns_def V)
    moreover have "greeted n ?r = greeted n l" by (simp add: greeted_def V)
    ultimately show "live_at n ?r" using at by (auto simp: live_at_def V)
  qed (auto simp: V)
  show "un_stream u \<noteq> None \<Longrightarrow> Filter_Obj n \<notin> li_live ?r" by (auto simp: V)
qed

lemma live_socket_removed:
  assumes live: "live_ok l" and n: "Filter_Obj n \<notin> li_live l" "Socket_Obj n \<in> li_live l"
  shows "live_ok (removeClientSocket (Socket_Obj n) l)"
  using assms unfolding live_ok_def 
  by (auto simp: live_at_def owns_def greeted_simps removeClientSocket_def) (simp add: greeted_def)

lemma live_proxy_event:
  assumes inv: "li_inv l" and live: "live_ok l" and u: "li_new l n = Some u"
  shows "live_ok (sendSuccess n u (l\<lparr>li_queue := es\<rparr>))" "live_ok (sendFailure n u (l\<lparr>li_queue := es\<rparr>))"
proof -
  let ?l = "l\<lparr>li_queue := es\<rparr>"
  have l: "live_ok ?l" by (rule live_pop [OF live])
  show "live_ok (sendFailure n u ?l)"
    by (rule live_failure [OF l]) (use u one_owner [OF inv u] not_handed_over [OF inv u] in auto)
  show "live_ok (sendSuccess n u ?l)"
  proof (rule live_change [OF l, of n])
    show "only_touches n ?l (sendSuccess n u ?l)" "same_clients ?l (sendSuccess n u ?l)" by (simp_all add: touches_success same_success)
    show "\<not> li_fault (sendSuccess n u ?l)" using live_okD(1) [OF live] by (simp add: sendSuccess_def)
    show "live_at n (sendSuccess n u ?l)"
      using live_okD(2) [OF live, of n] u by (simp add: live_defs sendSuccess_def)
  qed (simp_all add: sendSuccess_def)
qed

lemma live_failed:
  assumes live: "live_ok l" and u: "li_new l n = Some u" "un_proxy u = None"
    and out: "n \<notin> fst ` set (li_waiting l) \<and> n \<notin> fst ` set (li_adopted l)"
    and h: "handleUnknownFailure n l = Some l'"
  shows "live_ok l'"
proof -
  let ?m = "if un_stream u \<noteq> None then use_object (Filter_Obj n) l else l"
  let ?r = "removeUnknownClient n ?m"
  have o: "un_stream u \<noteq> None \<Longrightarrow> Filter_Obj n \<in> li_live l \<and> Socket_Obj n \<in> li_live l"
    using live_owner [OF live, of n] u by (auto simp: owns_def)
  have m: "live_ok ?m" using live live_use [OF live] o by simp
  have mu: "li_new ?m n = Some u" using u by simp
  have out: "n \<notin> fst ` set (li_waiting ?m)" "n \<notin> fst ` set (li_adopted ?m)" using out by simp_all
  have r: "live_ok ?r" "un_stream u \<noteq> None \<Longrightarrow> Filter_Obj n \<notin> li_live ?r" using live_removed [OF m mu u(2) out] .
  have "un_stream u \<noteq> None \<Longrightarrow> Socket_Obj n \<in> li_live ?r" using o removed_view(11) [OF mu u(2)] by auto
  then have "live_ok (if un_stream u \<noteq> None then removeClientSocket (Socket_Obj n) ?r else ?r)"
    using r live_socket_removed [OF r(1)] by (cases "un_stream u") simp_all
  moreover have "l' = (if un_stream u \<noteq> None then removeClientSocket (Socket_Obj n) ?r else ?r)"
    using h u by (cases "un_stream u") (simp_all add: handleUnknownFailure_def)
  ultimately show ?thesis by simp
qed

lemma live_succeeded:
  assumes live: "live_ok l" and u: "li_new l n = Some u" and ok: "un_proxy u \<noteq> None \<Longrightarrow> un_ready u"
    and one: "un_stream u = None \<or> un_proxy u = None" and out: "n \<notin> fst ` set (li_waiting l) \<and> n \<notin> fst ` set (li_adopted l)"
    and h: "handleUnknownClient n l = Some l'"
  shows "live_ok l'"
proof (cases "un_proxy u")
  case (Some p)
  then have st: "un_stream u = None" and r: "un_ready u" using one ok by auto
  let ?l = "l\<lparr>li_new := (li_new l)(n := None), li_queue := li_queue l @ [Listener_Accepted],
    li_proxy_handlers := removeAll n (li_proxy_handlers l), li_waiting := li_waiting l @ [(n, p)], li_watching := n # li_watching l\<rparr>"
  have "handleUnknownClient n l = Some ?l"
    by (rule orphaned_step [OF u r Some st])
  with h have "l' = ?l" by simp
  moreover have "Filter_Obj n \<in> li_live l" using live_owner [OF live, of n] u Some by (auto simp: owns_def)
  ultimately show ?thesis using live by (auto simp: live_ok_def live_defs)
next
  case None
  define u' where "u' = (if un_ready u then (if un_stream u \<noteq> None then u\<lparr>un_handlers := False\<rparr> else u)\<lparr>un_proxy := None\<rparr> else u)"
  let ?k = "if un_ready u \<and> un_stream u \<noteq> None then use_object (Filter_Obj n) l else l"
  let ?c = "if un_stream u' \<noteq> None then close_stream n ?k else ?k"
  have l': "l' = removeUnknownClient n (set_unknown n u' ?c)"
    using h u None
    by (cases "un_stream u"; cases "un_ready u") (simp_all add: handleUnknownClient_def orphanClientProxy_def un_removeHandlers_def u'_def)
  have s: "un_stream u' = un_stream u" "un_proxy u' = None" using None by (simp_all add: u'_def)
  have o: "un_stream u \<noteq> None \<Longrightarrow> Filter_Obj n \<in> li_live l \<and> Socket_Obj n \<in> li_live l"
    using live_owner [OF live, of n] u by (auto simp: owns_def)
  have "live_ok ?k" using live live_use [OF live] o by simp
  moreover have "li_live ?k = li_live l" by simp
  ultimately have "live_ok ?c" using o s live_close [of ?k n] by (cases "un_stream u") simp_all
  moreover have "li_live ?c = li_live l" by (simp add: close_stream_def)
  ultimately have "live_ok (set_unknown n u' ?c)" using s o by (intro live_set_unknown) simp_all
  then show ?thesis
    unfolding l' using out s by (intro live_removed(1)) (simp_all add: close_stream_def)
qed

lemma live_next:
  assumes inv: "li_inv l" and live: "live_ok l" and ok: "\<not> lost_waiting l" and d: "dispatch_next env accept l = Some l'"
  shows "live_ok l'"
proof (cases "li_queue l")
  case Nil
  then show ?thesis using d live by (simp add: dispatch_next_def)
next
  case (Cons e es)
  let ?l = "l\<lparr>li_queue := es\<rparr>"
  note I = li_invD [OF inv]
  have l: "live_ok ?l" by (rule live_pop [OF live])
  note d = d [unfolded dispatch_next_def Cons list.case]
  show ?thesis
  proof (cases e)
    case (Proxy_Ready n)
    then show ?thesis
      using d l live_proxy_event(1) [OF inv live, of n] by (auto simp: with_unknown_def split: if_splits)
  next
    case (Proxy_Disconnected n)
    moreover have "n \<notin> set (li_watching l)" using ok Cons I(5) Proxy_Disconnected by (auto simp: lost_waiting_def)
    ultimately show ?thesis
      using d l live_proxy_event(2) [OF inv live, of n]
      by (auto simp: with_unknown_def un_handleDisconnect_def split: if_splits)
  next
    case (Unknown_Success n)
    show ?thesis
    proof (cases "li_new l n")
      case (Some u)
      have ab: "about n e" using Unknown_Success by simp
      have "un_proxy u \<noteq> None \<Longrightarrow> un_ready u"
        using I(1) [of n, unfolded popped [OF Cons ab] Some] Unknown_Success
        by (auto simp: client_ok_def shaking_def of_proxy_def split: if_splits)
      moreover have "handleUnknownClient n ?l = Some l'" using d Unknown_Success Some by simp
      ultimately show ?thesis
        using live_succeeded [OF l, of n u l'] Some one_owner [OF inv Some] not_handed_over [OF inv Some] by simp
    qed (use d l Unknown_Success in simp)
  next
    case (Unknown_Failure n)
    show ?thesis
    proof (cases "li_new l n")
      case (Some u)
      have ab: "about n e" using Unknown_Failure by simp
      have "un_proxy u = None"
        using I(1) [of n, unfolded popped [OF Cons ab] Some] Unknown_Failure
        by (auto simp: client_ok_def shaking_def of_proxy_def split: if_splits option.splits)
      moreover have "handleUnknownFailure n ?l = Some l'" using d Unknown_Failure Some by simp
      ultimately show ?thesis
        using live_failed [OF l, of n u l'] Some not_handed_over [OF inv Some] by simp
    qed (use d l Unknown_Failure in simp)
  next
    case Listener_Accepted
    have "live_ok (handleClientConnected ?l)"
      using l by (cases "li_waiting l") (auto simp: handleClientConnected_def getNextClient_def live_ok_def live_defs)
    then show ?thesis using d Listener_Accepted by simp
  next
    case (Socket_Accepted n)
    then show ?thesis using d l live_greeting [OF l] by (auto split: if_splits)
  qed
qed

lemma live_input:
  assumes inv: "li_inv l" and live: "live_ok l" and en: "enabled env i l" and ok: "i \<noteq> Next \<or> \<not> lost_waiting l"
    and h: "take_input env accept i l = Some l'"
  shows "live_ok l'"
proof (cases i)
  case (Connecting so)
  then show ?thesis using h live_connecting [OF live] by auto
next
  case (Secured n s)
  then show ?thesis using h en live_greeting [OF live] by auto
next
  case (Turned_Down n)
  then show ?thesis using h en live_turned_down [OF live] by auto
next
  case (Data n s)
  then obtain u where u: "li_new l n = Some u" "un_handlers u" using en by auto
  then obtain t where "un_stream u = Some t" using open_stream [OF inv] by blast
  then show ?thesis using Data h u live_data [OF inv live u] by simp
next
  case (Proxy_Acts n p')
  then show ?thesis using h en live_acts [OF inv live, of env n p' l'] by simp
next
  case Next
  then show ?thesis using h ok live_next [OF inv live] by simp
qed (use h en live_proxy_event(2) [OF inv live, of _ _ "li_queue l"] in
  \<open>auto simp: with_unknown_def un_handleWriteError_def un_handleDisconnect_def un_handleTimeout_def\<close>)

lemma handled:
  assumes "li_inv l" and "live_ok l" and "enabled env i l" and "i \<noteq> Next \<or> \<not> lost_waiting l"
  shows "\<exists>l'. handle_input env accept i l = Some l' \<and> li_inv l' \<and> live_ok l'"
proof -
  obtain l' where l': "take_input env accept i l = Some l'" "li_inv l'" using kept_input [OF assms(1,3,4)] by blast
  then have "live_ok l'" using live_input [OF assms] by simp
  with l' show ?thesis by (simp add: handle_input_def unless_fault_def live_okD(1))
qed

text \<open>
  The disconnection of a waiting proxy: its filter is deleted with it, and the pointer that is then
  given to \<^const>\<open>removeClientSocket\<close> is that of the filter.
\<close>

lemma waiting_gone:
  assumes "n \<in> fst ` set (li_waiting l)"
  shows "li_fault (handleClientDisconnected n l)"
    and "Socket_Obj n \<in> li_live l \<Longrightarrow> Filter_Obj n \<notin> li_live (handleClientDisconnected n l) \<and>
      Socket_Obj n \<in> li_live (handleClientDisconnected n l)"
proof -
  obtain c where "find (\<lambda>c. fst c = n) (li_waiting l) = Some c" "fst c = n"
    using assms by (cases "find (\<lambda>c. fst c = n) (li_waiting l)") (auto simp: find_None_iff find_Some_iff)
  then show "li_fault (handleClientDisconnected n l)"
    and "Socket_Obj n \<in> li_live l \<Longrightarrow> Filter_Obj n \<notin> li_live (handleClientDisconnected n l) \<and>
      Socket_Obj n \<in> li_live (handleClientDisconnected n l)"
    by (simp_all add: handleClientDisconnected_def getStream_def removeClientSocket_def delete_proxy_def Let_def)
qed

lemma listening_inv: "listening env accept l \<Longrightarrow> li_inv l \<and> live_ok l"
proof (induction rule: listening.induct)
  case start
  then show ?case by (simp add: li_inv_def li_init_def known_def events_of_def client_ok_def greeted_def live_ok_def live_defs)
next
  case (input l i l')
  show ?case
  proof (cases "i \<noteq> Next \<or> \<not> lost_waiting l")
    case True
    then show ?thesis using handled [of l env i accept] input by auto
  next
    case False
    then obtain n es where n: "i = Next" "li_queue l = Proxy_Disconnected n # es" "n \<in> fst ` set (li_waiting l)"
      by (auto simp: lost_waiting_def)
    then have "n \<in> set (li_watching l)" using li_invD(5) [of l] input.IH by simp
    then have "handle_input env accept i l = None"
      using n waiting_gone(1) [of n "l\<lparr>li_queue := es\<rparr>"] by (simp add: handle_input_def dispatch_next_def unless_fault_def)
    with input.hyps(3) show ?thesis by simp
  qed
qed

section \<open>The listener is safe\<close>

text \<open>
  C5. The listener never touches what it has deleted, in any order of connections, messages,
  errors, time limits and steps of the proxies: every input that can come is handled without a
  failed assertion or the use of a deleted object, except the disconnection of a proxy that
  waits for the server. And the server is given every connection at most once, and only proxies
  that have said they are ready, speak a version from 1.0 to 1.8, and still have their stream.
\<close>

theorem listener_safe:
  assumes "listening env accept l" and "enabled env i l"
  shows "(handle_input env accept i l \<noteq> None \<or> i = Next \<and> lost_waiting l) \<and>
    distinct (map fst (li_adopted l)) \<and>
    list_all (\<lambda>(n, p). li_new l n = None \<and> Ev_Ready \<in> set (cp_log p) \<and> cp_version p \<le> 8 \<and>
      Filter_Obj n \<in> li_live l) (li_adopted l)"
proof -
  have inv: "li_inv l" and live: "live_ok l" using listening_inv [OF assms(1)] by simp_all
  note I = li_invD [OF inv]
  have "handle_input env accept i l \<noteq> None \<or> i = Next \<and> lost_waiting l"
    using handled [OF inv live assms(2), of accept] by fastforce
  moreover have "list_all (\<lambda>(n, p). li_new l n = None \<and> Ev_Ready \<in> set (cp_log p) \<and> cp_version p \<le> 8 \<and>
      Filter_Obj n \<in> li_live l) (li_adopted l)"
  proof (clarsimp simp: list_all_iff)
    fix n p assume "(n, p) \<in> set (li_adopted l)"
    then show "li_new l n = None \<and> Ev_Ready \<in> set (cp_log p) \<and> cp_version p \<le> 8 \<and> Filter_Obj n \<in> li_live l"
      using I(3) [of n] I(6) [of n p] live_owner [OF live, of n] by (force simp: owns_def)
  qed
  ultimately show ?thesis using I(4) by simp
qed

text \<open>
  C15. A client that disconnects right after the handshake makes the listener use the packet filter
  it has just deleted: when the success of the unknown client is dispatched, its proxy waits for
  the server with its filter; the disconnection of the proxy, which comes next, deletes the filter
  with the proxy and then asks the filter for its event target and deletes it again. The socket,
  which was to be removed, is left.
\<close>

theorem waiting_gone_fails:
  assumes "listening env accept l" and "li_queue l = Unknown_Success n # Proxy_Disconnected n # es" and "li_new l n = Some u"
    and "un_ready u" and "un_proxy u = Some p"
  shows "\<exists>l' l''. handle_input env accept Next l = Some l' \<and> Filter_Obj n \<in> li_live l' \<and>
    handle_input env accept Next l' = None \<and>
    take_input env accept Next l' = Some l'' \<and> li_fault l'' \<and> Filter_Obj n \<notin> li_live l'' \<and> Socket_Obj n \<in> li_live l''"
proof -
  have inv: "li_inv l" and live: "live_ok l" using listening_inv [OF assms(1)] by simp_all
  have st: "un_stream u = None" using one_owner [OF inv assms(3)] assms(5) by simp
  have o: "Filter_Obj n \<in> li_live l" "Socket_Obj n \<in> li_live l"
    using live_owner [OF live, of n] assms(3,5) by (auto simp: owns_def)
  let ?l = "l\<lparr>li_new := (li_new l)(n := None), li_queue := Proxy_Disconnected n # es @ [Listener_Accepted],
    li_proxy_handlers := removeAll n (li_proxy_handlers l), li_waiting := li_waiting l @ [(n, p)], li_watching := n # li_watching l\<rparr>"
  let ?m = "handleClientDisconnected n (?l\<lparr>li_queue := es @ [Listener_Accepted]\<rparr>)"
  have "handle_input env accept Next l = Some ?l"
    using assms st live_okD(1) [OF live] by (simp add: handle_input_def dispatch_next_def orphaned_step unless_fault_def)
  moreover have "li_fault ?m" by (rule waiting_gone(1)) simp
  moreover have "take_input env accept Next ?l = Some ?m" by (simp add: dispatch_next_def)
  moreover have "Filter_Obj n \<notin> li_live ?m \<and> Socket_Obj n \<in> li_live ?m"
    using o by (intro waiting_gone(2)) simp_all
  ultimately show ?thesis using o by (intro exI [of _ ?l] exI [of _ ?m]) (simp add: handle_input_def unless_fault_def)
qed

end
