(* ===== verification/Client_Props.thy ===== *)
theory Client_Props
  imports Client
begin

text \<open>
  The client as a transition system: an event is possible when its handler is installed, and the
  server proxy calls the client while it exists. The invariant of the reachable states gives
  that no assertion of the client fails and that a connection is always either established or
  timed.
\<close>

section \<open>Steps\<close>

definition valid_call :: "client_call \<Rightarrow> 's client \<Rightarrow> bool" where
  "valid_call k c \<longleftrightarrow> (case k of
     Set_Clipboard cid cb \<Rightarrow> cid < kClipboardEnd
   | Grab_Clipboard cid \<Rightarrow> cid < kClipboardEnd
   | Handshake_Complete \<Rightarrow> \<not> cl_ready c
   | _ \<Rightarrow> True)"

inductive client_step :: "'s client_env \<Rightarrow> 's client \<Rightarrow> 's client \<Rightarrow> bool" for env where
  connects: "connect_client env i c = Some c' \<Longrightarrow> client_step env c c'"
| disconnects: "client_step env c (disconnect_client msg c)"
| connected: "\<lbrakk>cl_connecting_handlers c; handleConnected c = Some c'\<rbrakk> \<Longrightarrow> client_step env c c'"
| failed: "cl_connecting_handlers c \<Longrightarrow> client_step env c (handleConnectionFailed what c)"
| timeout: "cl_timer c \<Longrightarrow> client_step env c (handleConnectTimeout c)"
| output_error: "cl_connection_handlers c \<Longrightarrow> client_step env c (handleOutputError c)"
| disconnected: "cl_connection_handlers c \<Longrightarrow> client_step env c (handleDisconnected c)"
| requested: "cl_connection_handlers c \<Longrightarrow> client_step env c (handleDisconnectRequested r c)"
| hello: "\<lbrakk>cl_input_handler c = Hello_Handler; handleHello env c = Some (Inr c')\<rbrakk> \<Longrightarrow> client_step env c c'"
| shape: "\<lbrakk>cl_screen_handlers c; handleShapeChanged c = Some c'\<rbrakk> \<Longrightarrow> client_step env c c'"
| grabbed: "\<lbrakk>cl_screen_handlers c; cid < kClipboardEnd; handleClipboardGrabbed env cid c = Some c'\<rbrakk> \<Longrightarrow>
    client_step env c c'"
| suspend: "client_step env c (handleSuspend c)"
| resume: "handleResume env c = Some c' \<Longrightarrow> client_step env c c'"
| called: "\<lbrakk>cl_input_handler c = Proxy_Handler; valid_call k c; client_do env k c = Some c'\<rbrakk> \<Longrightarrow> client_step env c c'"
| stream: "cl_stream c \<noteq> None \<Longrightarrow> client_step env c (c\<lparr>cl_stream := Some s\<rparr>)"

definition client_new :: "bytes \<Rightarrow> 's client" where
  "client_new name =
     \<lparr>cl_name = name, cl_stream = None, cl_timer = False, cl_server = False, cl_ready = False,
      cl_active = False, cl_suspended = False, cl_connectOnResume = False,
      cl_ownClipboard = replicate 2 False, cl_sentClipboard = replicate 2 False,
      cl_timeClipboard = replicate 2 0, cl_dataClipboard = replicate 2 [],
      cl_enableClipboard = True, cl_relativeMouseMoves = False, cl_hasRelativeRestorePosition = False,
      cl_relativeRestoreX = 0, cl_relativeRestoreY = 0, cl_maximumClipboardSize = INT_MAX,
      cl_resolvedAddressesCount = 0, cl_connecting_handlers = False, cl_connection_handlers = False,
      cl_input_handler = No_Handler, cl_screen_handlers = False, cl_log = []\<rparr>"

inductive client_reachable :: "'s client_env \<Rightarrow> 's client \<Rightarrow> bool" for env where
  init: "client_reachable env (client_new name)"
| step: "\<lbrakk>client_reachable env c; client_step env c c'\<rbrakk> \<Longrightarrow> client_reachable env c'"

section \<open>The invariant\<close>

text \<open>The links between the pointers and the handlers.\<close>

definition client_inv :: "'s client \<Rightarrow> bool" where
  "client_inv c \<longleftrightarrow>
     (cl_stream c = None \<longrightarrow> \<not> cl_timer c \<and> \<not> cl_server c \<and> \<not> cl_connecting_handlers c \<and> \<not> cl_connection_handlers c) \<and>
     (cl_stream c \<noteq> None \<longrightarrow> cl_timer c \<noteq> cl_server c \<and> cl_connecting_handlers c \<noteq> cl_connection_handlers c) \<and>
     (cl_server c \<longrightarrow> cl_connection_handlers c) \<and> (cl_ready c \<longrightarrow> cl_server c) \<and>
     cl_screen_handlers c = cl_server c \<and>
     cl_input_handler c = (if cl_server c then Proxy_Handler
       else if cl_connection_handlers c then Hello_Handler else No_Handler) \<and>
     (cl_suspended c \<longrightarrow> cl_stream c = None) \<and> (cl_connectOnResume c \<longrightarrow> cl_suspended c) \<and>
     length (cl_ownClipboard c) = 2 \<and> length (cl_sentClipboard c) = 2 \<and>
     length (cl_timeClipboard c) = 2 \<and> length (cl_dataClipboard c) = 2"

text \<open>What the invariant speaks of; every forwarded call leaves it alone.\<close>

definition same_links :: "'s client \<Rightarrow> 's client \<Rightarrow> bool" where
  "same_links c c' \<longleftrightarrow>
     cl_stream c' = cl_stream c \<and> cl_timer c' = cl_timer c \<and> cl_server c' = cl_server c \<and>
     cl_connecting_handlers c' = cl_connecting_handlers c \<and> cl_connection_handlers c' = cl_connection_handlers c \<and>
     cl_screen_handlers c' = cl_screen_handlers c \<and> cl_input_handler c' = cl_input_handler c \<and>
     cl_suspended c' = cl_suspended c \<and> cl_connectOnResume c' = cl_connectOnResume c \<and>
     length (cl_ownClipboard c') = length (cl_ownClipboard c) \<and>
     length (cl_sentClipboard c') = length (cl_sentClipboard c) \<and>
     length (cl_timeClipboard c') = length (cl_timeClipboard c) \<and>
     length (cl_dataClipboard c') = length (cl_dataClipboard c)"

lemma same_links_refl [simp]: "same_links c c"
  by (simp add: same_links_def)

lemma same_links_trans: "\<lbrakk>same_links c c'; same_links c' c''\<rbrakk> \<Longrightarrow> same_links c c''"
  by (simp add: same_links_def)

lemma same_links_inv: "\<lbrakk>same_links c c'; client_inv c; cl_ready c' \<longrightarrow> cl_ready c \<or> cl_server c\<rbrakk> \<Longrightarrow> client_inv c'"
  by (auto simp: same_links_def client_inv_def)

lemma links_effects [simp]:
  "same_links c (note_effect e c') = same_links c c'" "same_links c (on_screen s c') = same_links c c'"
  "cl_ready (note_effect e c) = cl_ready c" "cl_ready (on_screen s c) = cl_ready c"
  by (simp_all add: same_links_def note_effect_def on_screen_def)

lemma links_restore [simp]:
  "same_links c (saveRelativeRestorePosition env c') = same_links c c'"
  "cl_ready (saveRelativeRestorePosition env c) = cl_ready c"
  by (simp_all add: same_links_def saveRelativeRestorePosition_def split: prod.split)

lemma links_send:
  "sendClipboardData env cid c = Some c' \<Longrightarrow> same_links c c' \<and> cl_ready c' = cl_ready c \<and>
    cl_active c' = cl_active c \<and> cl_ownClipboard c' = cl_ownClipboard c"
  by (auto simp: sendClipboardData_def Let_def same_links_def note_effect_def split: if_splits)

lemma links_send_owned:
  "send_owned env cids c = Some c' \<Longrightarrow> same_links c c' \<and> cl_ready c' = cl_ready c \<and> cl_active c' = cl_active c"
proof (induction env cids c rule: send_owned.induct)
  case (2 env cid cids c)
  then show ?case
    by (auto split: if_splits bind_splits dest!: links_send intro: same_links_trans)
qed simp

lemma links_options:
  "client_options env os c = Some c' \<Longrightarrow> same_links c c' \<and> cl_ready c' = cl_ready c \<and> cl_active c' = cl_active c"
proof (induction env os c rule: client_options.induct)
  case (3 env k v os c)
  then show ?case
    by (auto simp: Let_def split: if_splits)
      (auto simp: same_links_def note_effect_def saveRelativeRestorePosition_def split: prod.splits)
qed (auto split: if_splits)

declare send_owned.simps [simp del]

lemma links_leave:
  assumes "client_leave env c = Some c'"
  shows "same_links c c' \<and> cl_ready c' = cl_ready c"
proof -
  define c1 where "c1 = on_screen S_leave ((if cl_relativeMouseMoves c then saveRelativeRestorePosition env c else c)\<lparr>cl_active := False\<rparr>)"
  have "same_links c c1 \<and> cl_ready c1 = cl_ready c"
    by (simp add: c1_def same_links_def on_screen_def note_effect_def saveRelativeRestorePosition_def split: prod.split)
  moreover have "c' = c1 \<or> send_owned env [0, 1] c1 = Some c'"
    using assms by (auto simp: client_leave_def Let_def c1_def split: if_splits)
  ultimately show ?thesis using links_send_owned same_links_trans by metis
qed

lemma links_setOptions:
  assumes "client_setOptions env os c = Some c'"
  shows "same_links c c' \<and> cl_ready c' = cl_ready c \<and> cl_active c' = cl_active c"
proof -
  have upd: "same_links c (on_screen (S_setOptions os) (if b then c1\<lparr>cl_enableClipboard := e\<rparr> else c1)) = same_links c c1"
    "cl_ready (on_screen (S_setOptions os) (if b then c1\<lparr>cl_enableClipboard := e\<rparr> else c1)) = cl_ready c1"
    "cl_active (on_screen (S_setOptions os) (if b then c1\<lparr>cl_enableClipboard := e\<rparr> else c1)) = cl_active c1" for b c1 e
    by (simp_all add: same_links_def on_screen_def note_effect_def)
  show ?thesis
  proof (cases "length os mod 2 \<noteq> 0")
    case True
    then show ?thesis using assms by (simp add: client_setOptions_def)
  next
    case False
    with assms obtain c1 where "client_options env os c = Some c1"
      "c' = on_screen (S_setOptions os) (if cl_enableClipboard c1 \<and> cl_maximumClipboardSize c1 = 0
        then c1\<lparr>cl_enableClipboard := False\<rparr> else c1)"
      unfolding client_setOptions_def Let_def
      by (cases "client_options env os c") (simp_all only: if_False option.map option.simps)
    with links_options show ?thesis by (simp only: upd)
  qed
qed

lemma links_updates [simp]:
  "same_links c (c'\<lparr>cl_ready := b\<rparr>) = same_links c c'" "same_links c (c'\<lparr>cl_active := b\<rparr>) = same_links c c'"
  "same_links c (c'\<lparr>cl_relativeMouseMoves := b, cl_hasRelativeRestorePosition := b\<rparr>) = same_links c c'"
  "same_links c (disown cid c') = same_links c c'" "cl_ready (disown cid c) = cl_ready c"
  by (simp_all add: same_links_def disown_def)

lemma links_do:
  assumes "client_do env k c = Some c'"
  shows "same_links c c' \<and> (cl_ready c' = cl_ready c \<or> k = Handshake_Complete)"
proof (cases k)
  case Leave
  then show ?thesis using assms links_leave by auto
next
  case (Set_Options os)
  then show ?thesis using assms links_setOptions by auto
next
  case Handshake_Complete
  then show ?thesis using assms by (auto simp: handshakeComplete_def sendEvent_def Let_def)
next
  case (Enter x y n m)
  then show ?thesis using assms by (auto simp: client_enter_def Let_def split: prod.splits)
qed (use assms in \<open>auto simp: client_setClipboard_def client_grabClipboard_def client_resetOptions_def\<close>)

section \<open>The steps keep the invariant\<close>

lemma note_inv [simp]: "client_inv (note_effect e c) = client_inv c"
  by (simp add: client_inv_def note_effect_def)

text \<open>Every cleaning up ends without a stream, and then nothing else is left.\<close>

definition unconnected :: "'s client \<Rightarrow> bool" where
  "unconnected c \<longleftrightarrow> cl_stream c = None \<and> \<not> cl_timer c \<and> \<not> cl_server c \<and> \<not> cl_ready c \<and>
     \<not> cl_connecting_handlers c \<and> \<not> cl_connection_handlers c \<and> \<not> cl_screen_handlers c \<and>
     cl_input_handler c = No_Handler \<and> (cl_connectOnResume c \<longrightarrow> cl_suspended c) \<and>
     length (cl_ownClipboard c) = 2 \<and> length (cl_sentClipboard c) = 2 \<and>
     length (cl_timeClipboard c) = 2 \<and> length (cl_dataClipboard c) = 2"

lemma unconnected_inv: "unconnected c \<Longrightarrow> client_inv c"
  by (auto simp: unconnected_def client_inv_def)

lemma unconnected_note [simp]: "unconnected (note_effect e c) = unconnected c"
  by (simp add: unconnected_def note_effect_def)

lemmas cleaning = cleanup_def cleanupTimer_def cleanupStream_def cleanupConnecting_def cleanupConnection_def
  cleanupScreen_def note_effect_def on_screen_def Let_def

lemma cleanup_unconnected:
  assumes "client_inv c"
  shows "unconnected (cleanup c)" and "cl_suspended (cleanup c) = cl_suspended c"
  using assms by (auto simp: cleaning client_inv_def unconnected_def)

lemma lost_unconnected:
  assumes "client_inv c" and "cl_connection_handlers c"
  shows "unconnected (cleanupConnection (cleanupScreen (cleanupTimer c)))"
  using assms by (auto simp: cleaning client_inv_def unconnected_def)

lemma timeout_unconnected:
  assumes "client_inv c" and "cl_timer c"
  shows "unconnected (cleanupStream (cleanupConnection (cleanupConnecting (cleanupTimer c))))"
  using assms by (auto simp: cleaning client_inv_def unconnected_def)

lemma failed_unconnected:
  assumes "client_inv c" and "cl_connecting_handlers c"
  shows "unconnected (connect_failed what c)"
  using assms by (auto simp: connect_failed_def sendConnectionFailedEvent_def cleaning client_inv_def unconnected_def)

lemma hello_failed_unconnected:
  assumes "client_inv c" and "cl_input_handler c = Hello_Handler"
  shows "unconnected (hello_failed what c)"
  using assms
  by (auto simp: hello_failed_def sendConnectionFailedEvent_def cleaning client_inv_def unconnected_def split: if_splits)

lemma inv_unconnected: "\<lbrakk>client_inv c; cl_stream c = None\<rbrakk> \<Longrightarrow> unconnected c"
  by (auto simp: client_inv_def unconnected_def)

text \<open>An attempt to connect: afterwards it runs, with its timer, or it has been given up.\<close>

lemma connect_client_inv:
  assumes "client_inv c"
  shows "\<exists>c'. connect_client env i c = Some c' \<and> client_inv c'"
proof (cases "cl_stream c \<noteq> None \<or> cl_suspended c")
  case True
  then have "connect_client env i c = Some (if cl_stream c \<noteq> None then c else c\<lparr>cl_connectOnResume := True\<rparr>)"
    by (cases "cl_stream c") (simp_all add: connect_client_def)
  moreover have "client_inv (c\<lparr>cl_connectOnResume := True\<rparr>)" if "cl_suspended c"
    using assms that by (auto simp: client_inv_def)
  ultimately show ?thesis using assms True by (cases "cl_stream c = None") auto
next
  case False
  then have u: "unconnected c" using inv_unconnected [OF assms] by simp
  define tried where "tried s c = (note_effect Start_Timer (c\<lparr>cl_stream := Some s, cl_connecting_handlers := True\<rparr>))
    \<lparr>cl_timer := True\<rparr>" for s and c :: "'a client"
  have failed: "unconnected (connect_failed what c)" if "unconnected c" for what and c :: "'a client"
    using that by (auto simp: connect_failed_def sendConnectionFailedEvent_def cleaning unconnected_def)
  have running: "client_inv (tried s c)" if "unconnected c" "\<not> cl_suspended c" for s and c :: "'a client"
    using that by (auto simp: tried_def note_effect_def unconnected_def client_inv_def)
  have begun: "Option.bind (setupConnecting (c\<lparr>cl_stream := Some s\<rparr>)) setupTimer = Some (tried s c)"
    if "unconnected c" for s and c :: "'a client"
    using that by (simp add: setupConnecting_def setupTimer_def tried_def note_effect_def unconnected_def)
  have that_tried: "cl_connecting_handlers (tried s c)" for s and c :: "'a client"
    by (simp add: tried_def note_effect_def)
  define started where "started n r = (if r then note_effect Ipc_Connecting (c\<lparr>cl_resolvedAddressesCount := n\<rparr>)
    else c\<lparr>cl_resolvedAddressesCount := n\<rparr>)" for n r
  have st: "unconnected (started n r)" "\<not> cl_suspended (started n r)" for n r
    using u False by (auto simp: started_def unconnected_def note_effect_def)
  have tr: "unconnected (connect_failed what (tried s (started n r)))" for what s n r
    using failed_unconnected [OF running [OF st]] that_tried [of s "started n r"] by blast
  show ?thesis
  proof (cases "c_resolve env i")
    case (Inl what)
    then show ?thesis using False failed [OF u] unconnected_inv by (auto simp: connect_client_def)
  next
    case (Inr x)
    obtain n r where x: "x = (n, r)" by fastforce
    have "connect_client env i c = (case c_create env of
        Inl what \<Rightarrow> Some (connect_failed what (started n r))
      | Inr s \<Rightarrow> (case c_connect env of
          Some what \<Rightarrow> Some (connect_failed what (tried s (started n r)))
        | None \<Rightarrow> Some (note_effect Connect_Socket (tried s (started n r)))))"
      using False Inr x begun [OF st(1) [of n r]]
      by (cases r) (simp_all add: connect_client_def started_def split: sum.split option.split)
    then show ?thesis
      using unconnected_inv [OF failed [OF st(1)]] unconnected_inv [OF tr] running [OF st]
      by (auto split: sum.split option.split)
  qed
qed

lemma connected_inv:
  assumes "client_inv c" and "cl_connecting_handlers c"
  shows "\<exists>c'. handleConnected c = Some c' \<and> client_inv c'"
  using assms by (auto simp: handleConnected_def cleanupConnecting_def setupConnection_def client_inv_def)

lemma hello_inv:
  assumes c: "client_inv c" and h: "cl_input_handler c = Hello_Handler"
  shows "handleHello env c \<noteq> None" and "handleHello env c = Some (Inr c') \<Longrightarrow> client_inv c'"
proof -
  obtain s where s: "cl_stream c = Some s" using c h by (auto simp: client_inv_def split: if_splits)
  obtain vs e s' where got: "readf_got (c_read env) kMsgHello s = (vs, e, s')" by (rule prod_cases3)
  let ?c = "c\<lparr>cl_stream := Some s'\<rparr>"
  have inv: "client_inv ?c" and hc: "cl_input_handler ?c = Hello_Handler"
    using c h s by (auto simp: client_inv_def)
  have failed: "client_inv (hello_failed what ?c)" for what
    by (rule unconnected_inv [OF hello_failed_unconnected [OF inv hc]])
  define up where "up x = (note_effect x ?c)
    \<lparr>cl_ready := False, cl_server := True, cl_input_handler := Proxy_Handler, cl_screen_handlers := True\<rparr>" for x
  have up: "setupScreen (note_effect x ?c) = Some (up x)" for x
    using inv hc by (simp add: setupScreen_def up_def note_effect_def client_inv_def split: if_splits)
  have over: "client_inv (cleanupTimer (up x))" for x
    using inv hc by (auto simp: up_def cleanupTimer_def note_effect_def client_inv_def split: if_splits)
  show "handleHello env c \<noteq> None" by (simp add: handleHello_def s got Let_def up)
  show "handleHello env c = Some (Inr c') \<Longrightarrow> client_inv c'"
    by (auto simp: handleHello_def s got Let_def up failed over split: if_splits)
qed

lemma send_some: "cl_server c \<Longrightarrow> sendClipboardData env cid c \<noteq> None"
  by (simp add: sendClipboardData_def Let_def)

lemma send_owned_some: "cl_server c \<Longrightarrow> send_owned env cids c \<noteq> None"
proof (induction cids arbitrary: c)
  case (Cons cid cids)
  show ?case
  proof (cases "cl_ownClipboard c ! unat cid")
    case True
    obtain c1 where c1: "sendClipboardData env cid c = Some c1" using send_some [OF Cons.prems] by blast
    then have "cl_server c1" using links_send [OF c1] Cons.prems by (simp add: same_links_def)
    with Cons.IH c1 True show ?thesis by (simp add: send_owned.simps)
  qed (use Cons in \<open>simp add: send_owned.simps\<close>)
qed (simp add: send_owned.simps)

definition grab :: "byte \<Rightarrow> 's client \<Rightarrow> 's client" where
  "grab cid c = (note_effect (Proxy_Grab_Clipboard cid) c)
     \<lparr>cl_ownClipboard := (cl_ownClipboard c)[unat cid := True], cl_sentClipboard := (cl_sentClipboard c)[unat cid := False],
      cl_timeClipboard := (cl_timeClipboard c)[unat cid := 0]\<rparr>"

lemma grabbed_eq:
  assumes "cl_server c" and "cl_enableClipboard c" and "cl_maximumClipboardSize c \<noteq> 0"
  shows "handleClipboardGrabbed env cid c =
    (if cl_active c then Some (grab cid c) else sendClipboardData env cid (grab cid c))"
  using assms by (simp add: handleClipboardGrabbed_def Let_def grab_def note_effect_def)

lemma grab_links: "same_links c (grab cid c)" "cl_ready (grab cid c) = cl_ready c" "cl_active (grab cid c) = cl_active c"
  by (simp_all add: grab_def same_links_def note_effect_def)

lemma grabbed_inv:
  assumes "client_inv c" and "cl_screen_handlers c"
  shows "\<exists>c'. handleClipboardGrabbed env cid c = Some c' \<and> client_inv c'"
proof (cases "\<not> cl_enableClipboard c \<or> cl_maximumClipboardSize c = 0")
  case True
  then show ?thesis using assms by (simp add: handleClipboardGrabbed_def)
next
  case False
  have server: "cl_server c" using assms by (simp add: client_inv_def)
  have g: "client_inv (grab cid c)" using same_links_inv [OF grab_links(1) assms(1)] grab_links(2) [of cid c] by simp
  have "cl_server (grab cid c)" using server grab_links(1) [of c cid] by (simp add: same_links_def)
  have sent: "client_inv c'" if "sendClipboardData env cid (grab cid c) = Some c'" for c'
    using links_send [OF that] same_links_inv [of "grab cid c" c'] g by blast
  obtain c1 where c1: "sendClipboardData env cid (grab cid c) = Some c1"
    using send_some [of "grab cid c" env cid] \<open>cl_server (grab cid c)\<close> by blast
  show ?thesis
    using False grabbed_eq [OF server, of env cid] c1 sent [OF c1] g by (cases "cl_active c") simp_all
qed

lemma ended_unconnected:
  assumes "client_inv c"
  shows "unconnected (disconnect_client msg c)" and "unconnected (refuseConnection reason msg c)"
    and "unconnected (handleDisconnectRequested r c)"
proof -
  show d: "unconnected (disconnect_client msg c)" for msg
    using cleanup_unconnected(1) [OF assms]
    by (simp add: disconnect_client_def sendConnectionFailedEvent_def sendEvent_def split: option.split)
  show r: "unconnected (refuseConnection reason msg c)" for reason msg
    using cleanup_unconnected(1) [of "note_effect (Ipc_Refused reason) c"] assms
    by (simp add: refuseConnection_def Let_def split: option.split)
  show "unconnected (handleDisconnectRequested r c)"
    by (simp add: handleDisconnectRequested_def d r split: option.split disconnect_request.split)
qed

lemma suspend_inv:
  assumes "client_inv c"
  shows "client_inv (handleSuspend c)"
proof (cases "cl_suspended c")
  case False
  have "unconnected (disconnect_client None (c\<lparr>cl_suspended := True\<rparr>))"
    "cl_suspended (disconnect_client None (c\<lparr>cl_suspended := True\<rparr>))"
    using assms by (auto simp: disconnect_client_def sendEvent_def cleaning client_inv_def unconnected_def)
  then have "unconnected ((disconnect_client None (c\<lparr>cl_suspended := True\<rparr>))\<lparr>cl_connectOnResume := b\<rparr>)" for b
    by (simp add: unconnected_def)
  with False show ?thesis by (simp add: handleSuspend_def Let_def unconnected_inv)
qed (simp add: handleSuspend_def assms)

lemma resume_inv:
  assumes "client_inv c"
  shows "\<exists>c'. handleResume env c = Some c' \<and> client_inv c'"
proof -
  have "client_inv (c\<lparr>cl_suspended := False, cl_connectOnResume := False\<rparr>)"
    and "\<not> cl_connectOnResume c \<Longrightarrow> client_inv (c\<lparr>cl_suspended := False\<rparr>)"
    using assms by (auto simp: client_inv_def)
  with connect_client_inv show ?thesis using assms by (auto simp: handleResume_def Let_def)
qed

lemma step_client_inv: "\<lbrakk>client_step env c c'; client_inv c\<rbrakk> \<Longrightarrow> client_inv c'"
proof (induction rule: client_step.induct)
  case (connects i c c')
  then show ?case using connect_client_inv by (metis option.inject)
next
  case (connected c c')
  then show ?case using connected_inv by (metis option.inject)
next
  case (grabbed c cid c')
  then show ?case using grabbed_inv by (metis option.inject)
next
  case (hello c c')
  then show ?case using hello_inv(2) by blast
next
  case (resume c c')
  then show ?case using resume_inv by (metis option.inject)
next
  case (called c k c')
  then have "cl_server c" by (auto simp: client_inv_def split: if_splits)
  with called show ?case using links_do [of env k c c'] same_links_inv [of c c'] by blast
next
  case (stream c s)
  then show ?case by (auto simp: client_inv_def)
next
  case (shape c c')
  then show ?case by (auto simp: handleShapeChanged_def split: if_splits)
next
  case (timeout c)
  then show ?case
    using timeout_unconnected [of c] by (simp add: unconnected_inv handleConnectTimeout_def sendConnectionFailedEvent_def)
next
  case (output_error c)
  then show ?case using lost_unconnected [of c] by (simp add: unconnected_inv handleOutputError_def sendEvent_def)
next
  case (disconnected c)
  then show ?case using lost_unconnected [of c] by (simp add: unconnected_inv handleDisconnected_def sendEvent_def)
qed (simp_all add: unconnected_inv ended_unconnected failed_unconnected handleConnectionFailed_def suspend_inv)

lemma reachable_client_inv: "client_reachable env c \<Longrightarrow> client_inv c"
proof (induction rule: client_reachable.induct)
  case (init name)
  show ?case by (simp add: client_new_def client_inv_def)
qed (rule step_client_inv)

section \<open>No assertion fails\<close>

lemma client_inv_leave:
  assumes "client_reachable env c" and "cl_input_handler c = Proxy_Handler"
  shows "client_leave env c \<noteq> None"
proof -
  have "cl_server c" using reachable_client_inv [OF assms(1)] assms(2) by (auto simp: client_inv_def split: if_splits)
  then show ?thesis
    by (simp add: client_leave_def Let_def send_owned_some [unfolded not_None_eq] on_screen_def note_effect_def
        saveRelativeRestorePosition_def split: prod.split)
qed

text \<open>
  C6. No handler of the client ever meets a null pointer or a failed assertion: in every
  reachable state an attempt to connect, the events whose handlers are installed and a resume
  have a result, and the invariant holds: a stream is either timed or has a server proxy, the
  proxy's handler and the screen's handlers are installed exactly while there is a proxy, and a
  suspended client has no connection.
\<close>

theorem client_never_stuck:
  assumes "client_reachable env c"
  shows "client_inv c \<and> connect_client env i c \<noteq> None \<and> handleResume env c \<noteq> None \<and>
    (\<not> cl_connecting_handlers c \<or> handleConnected c \<noteq> None) \<and>
    (cl_input_handler c \<noteq> Hello_Handler \<or> handleHello env c \<noteq> None) \<and>
    (\<not> cl_screen_handlers c \<or> handleShapeChanged c \<noteq> None \<and> handleClipboardGrabbed env cid c \<noteq> None) \<and>
    (cl_input_handler c \<noteq> Proxy_Handler \<or> client_leave env c \<noteq> None)"
proof -
  have inv: "client_inv c" by (rule reachable_client_inv [OF assms])
  have "cl_input_handler c = Proxy_Handler \<longrightarrow> client_leave env c \<noteq> None" using client_inv_leave [OF assms] by blast
  moreover have "cl_screen_handlers c \<longrightarrow> handleShapeChanged c \<noteq> None"
    using inv by (simp add: client_inv_def handleShapeChanged_def)
  moreover have "cl_screen_handlers c \<longrightarrow> handleClipboardGrabbed env cid c \<noteq> None"
    using grabbed_inv [OF inv, of env cid] by auto
  moreover have "connect_client env i c \<noteq> None" using connect_client_inv [OF inv, of env i] by auto
  moreover have "handleResume env c \<noteq> None" using resume_inv [OF inv, of env] by auto
  moreover have "cl_connecting_handlers c \<longrightarrow> handleConnected c \<noteq> None" using connected_inv [OF inv] by auto
  ultimately show ?thesis using inv hello_inv(1) [OF inv] by blast
qed

section \<open>Enabling the screen\<close>

text \<open>The screen is enabled and disabled in turn; \<^const>\<open>None\<close> is an enabling of an enabled screen or the reverse.\<close>

fun enablings :: "bool \<Rightarrow> client_effect list \<Rightarrow> bool option" where
  "enablings on [] = Some on"
| "enablings on (Screen_Call S_enable # es) = (if on then None else enablings True es)"
| "enablings on (Screen_Call S_disable # es) = (if on then enablings False es else None)"
| "enablings on (e # es) = enablings on es"

lemma enablings_append: "enablings on (es @ fs) = Option.bind (enablings on es) (\<lambda>on. enablings on fs)"
  by (induction on es rule: enablings.induct) simp_all

definition screen_ok :: "'s client \<Rightarrow> bool" where
  "screen_ok c \<longleftrightarrow> enablings False (cl_log c) = Some (cl_ready c)"

lemma enablings_other:
  assumes "e \<notin> {Screen_Call S_enable, Screen_Call S_disable}"
  shows "enablings on [e] = Some on"
proof (cases e)
  case (Screen_Call x)
  then show ?thesis using assms by (cases x) simp_all
qed simp_all

lemma screen_ok_note:
  assumes "e \<notin> {Screen_Call S_enable, Screen_Call S_disable}"
  shows "screen_ok (note_effect e c) = screen_ok c"
  using enablings_other [OF assms] by (simp add: screen_ok_def note_effect_def enablings_append)

lemma screen_ok_cong: "\<lbrakk>cl_log c' = cl_log c; cl_ready c' = cl_ready c\<rbrakk> \<Longrightarrow> screen_ok c' = screen_ok c"
  by (simp add: screen_ok_def)

text \<open>Effects that neither enable nor disable the screen.\<close>

definition quiet :: "'s client \<Rightarrow> 's client \<Rightarrow> bool" where
  "quiet c c' \<longleftrightarrow> cl_ready c' = cl_ready c \<and>
     (\<exists>es. cl_log c' = cl_log c @ es \<and> (\<forall>on. enablings on es = Some on))"

lemma quiet_refl: "\<lbrakk>cl_log c' = cl_log c; cl_ready c' = cl_ready c\<rbrakk> \<Longrightarrow> quiet c c'"
  by (simp add: quiet_def)

lemma quiet_trans: "\<lbrakk>quiet c c'; quiet c' c''\<rbrakk> \<Longrightarrow> quiet c c''"
  by (auto simp: quiet_def enablings_append)

lemma quiet_ok: "\<lbrakk>quiet c c'; screen_ok c\<rbrakk> \<Longrightarrow> screen_ok c'"
  by (auto simp: quiet_def screen_ok_def enablings_append)

lemma quiet_note:
  assumes "e \<notin> {Screen_Call S_enable, Screen_Call S_disable}" and "quiet c c'"
  shows "quiet c (note_effect e c')"
  using assms(2) enablings_other [OF assms(1)] by (auto simp: quiet_def note_effect_def enablings_append)

lemma quiet_logs:
  assumes "cl_log c' = cl_log c @ es" and "cl_ready c' = cl_ready c"
    and "\<And>on. enablings on es = Some on"
  shows "quiet c c'"
  using assms by (auto simp: quiet_def)

lemma quiet_cleaning:
  "quiet c (cleanupTimer c)" "quiet c (cleanupStream c)" "quiet c (cleanupConnecting c)" "quiet c (cleanupConnection c)"
  by (auto simp: quiet_def cleaning)

lemma quiet_cleanups:
  assumes "quiet c c'"
  shows "quiet c (cleanupTimer c')" "quiet c (cleanupStream c')" "quiet c (cleanupConnecting c')"
    "quiet c (cleanupConnection c')"
  by (rule quiet_trans [OF assms quiet_cleaning(1)] quiet_trans [OF assms quiet_cleaning(2)]
      quiet_trans [OF assms quiet_cleaning(3)] quiet_trans [OF assms quiet_cleaning(4)])+

lemma quiet_send: "sendClipboardData env cid c = Some c' \<Longrightarrow> quiet c c'"
  by (auto simp: sendClipboardData_def Let_def note_effect_def quiet_def split: if_splits)

lemma quiet_send_owned: "send_owned env cids c = Some c' \<Longrightarrow> quiet c c'"
proof (induction cids arbitrary: c)
  case Nil
  then show ?case by (simp add: send_owned.simps quiet_def)
next
  case (Cons cid cids)
  then show ?case
    by (auto simp: send_owned.simps split: if_splits bind_splits dest: quiet_send intro: quiet_trans)
qed

lemma quiet_restore: "quiet c c' \<Longrightarrow> quiet c (saveRelativeRestorePosition env c')"
  by (auto simp: quiet_def saveRelativeRestorePosition_def split: prod.split)

lemma quiet_leave:
  assumes "client_leave env c = Some c'"
  shows "quiet c c'"
proof -
  define c1 where "c1 = on_screen S_leave ((if cl_relativeMouseMoves c then saveRelativeRestorePosition env c else c)\<lparr>cl_active := False\<rparr>)"
  have "quiet c c1"
    by (auto simp: c1_def quiet_def on_screen_def note_effect_def saveRelativeRestorePosition_def split: prod.split)
  moreover have "c' = c1 \<or> send_owned env [0, 1] c1 = Some c'"
    using assms by (auto simp: client_leave_def Let_def c1_def split: if_splits)
  ultimately show ?thesis using quiet_send_owned quiet_trans by blast
qed

lemma quiet_options: "client_options env os c = Some c' \<Longrightarrow> quiet c c'"
proof (induction env os c rule: client_options.induct)
  case (3 env k v os c)
  have upd: "quiet (c\<lparr>cl_enableClipboard := b\<rparr>) c' = quiet c c'"
    "quiet (c\<lparr>cl_maximumClipboardSize := n\<rparr>) c' = quiet c c'" "quiet (c\<lparr>cl_relativeMouseMoves := b\<rparr>) c' = quiet c c'"
    "quiet (saveRelativeRestorePosition env (c\<lparr>cl_relativeMouseMoves := b\<rparr>)) c' = quiet c c'"
    "quiet (note_effect (Set_Capture_Sender b) c) c' \<Longrightarrow> quiet c c'" for b n
    by (auto simp: quiet_def note_effect_def saveRelativeRestorePosition_def split: prod.splits)
  show ?case
    using 3 by (auto simp: Let_def upd split: if_splits intro: upd(5))
qed (auto simp: quiet_def split: if_splits)

lemma quiet_setOptions:
  assumes "client_setOptions env os c = Some c'"
  shows "quiet c c'"
proof (cases "length os mod 2 \<noteq> 0")
  case True
  then show ?thesis using assms by (simp add: client_setOptions_def quiet_refl)
next
  case False
  then obtain c1 where c1: "client_options env os c = Some c1"
    and c': "c' = on_screen (S_setOptions os) (if cl_enableClipboard c1 \<and> cl_maximumClipboardSize c1 = 0
      then c1\<lparr>cl_enableClipboard := False\<rparr> else c1)"
    using assms unfolding client_setOptions_def Let_def
    by (cases "client_options env os c") (simp_all only: if_False option.map option.simps)
  have "quiet c1 c'" by (simp add: c' quiet_def on_screen_def note_effect_def)
  with quiet_options [OF c1] show ?thesis by (rule quiet_trans)
qed

lemma quiet_do:
  assumes "client_do env k c = Some c'"
  shows "k = Handshake_Complete \<or> quiet c c'"
proof (cases k)
  case Leave
  then show ?thesis using assms quiet_leave by auto
next
  case (Set_Options os)
  then show ?thesis using assms quiet_setOptions by auto
next
  case (Enter x y n m)
  then show ?thesis
    using assms by (auto simp: client_enter_def Let_def quiet_def on_screen_def note_effect_def split: prod.splits)
qed (use assms in \<open>auto simp: client_setClipboard_def client_grabClipboard_def client_resetOptions_def disown_def
    on_screen_def note_effect_def quiet_def\<close>)

lemma handshake_screen_ok: "\<lbrakk>screen_ok c; \<not> cl_ready c\<rbrakk> \<Longrightarrow> screen_ok (handshakeComplete env c)"
  by (auto simp: screen_ok_def handshakeComplete_def sendEvent_def saveRelativeRestorePosition_def on_screen_def
      note_effect_def Let_def enablings_append split: prod.split)

lemma screen_ok_cleanup: "\<lbrakk>screen_ok c; client_inv c\<rbrakk> \<Longrightarrow> screen_ok (cleanup c)"
  by (auto simp: screen_ok_def cleaning enablings_append client_inv_def)

lemma screen_ok_event [simp]:
  "screen_ok (note_effect (Client_Connection_Failed what) c) = screen_ok c"
  "screen_ok (note_effect Client_Disconnected c) = screen_ok c"
  "screen_ok (note_effect (Ipc_Refused r) c) = screen_ok c"
  "screen_ok (note_effect (Client_Connection_Refused what) c) = screen_ok c"
  "screen_ok (note_effect Ipc_Connecting c) = screen_ok c"
  "screen_ok (note_effect Connect_Socket c) = screen_ok c"
  "screen_ok (note_effect Input_Ready c) = screen_ok c"
  "screen_ok (note_effect Proxy_Info_Changed c) = screen_ok c"
  by (simp_all add: screen_ok_note)

lemma quiet_connect:
  assumes "connect_client env i c = Some c'"
  shows "quiet c c'"
proof -
  have failed: "quiet c (connect_failed what c')" if "quiet c c'" for what c'
    using that by (auto simp: connect_failed_def sendConnectionFailedEvent_def intro: quiet_note quiet_trans quiet_cleaning)
  have begun: "quiet c c1" if "Option.bind (setupConnecting (c'\<lparr>cl_stream := Some s\<rparr>)) setupTimer = Some c1" "quiet c c'" for s c1 c'
    using that by (auto simp: setupConnecting_def setupTimer_def quiet_def note_effect_def enablings_append split: if_splits)
  have started: "quiet c (note_effect Ipc_Connecting (c\<lparr>cl_resolvedAddressesCount := n\<rparr>))"
    "quiet c (c\<lparr>cl_resolvedAddressesCount := n\<rparr>)" for n
    by (simp_all add: quiet_def note_effect_def)
  show ?thesis
    using assms
    by (auto simp: connect_client_def Let_def started quiet_refl split: if_splits sum.splits option.splits
        intro!: failed quiet_note dest!: begun)
qed

lemma ended_screen_ok:
  assumes "screen_ok c" and "client_inv c"
  shows "screen_ok (disconnect_client msg c)" and "screen_ok (refuseConnection reason msg c)"
    and "screen_ok (handleDisconnectRequested r c)"
proof -
  show d: "screen_ok (disconnect_client msg c)" for msg
    using screen_ok_cleanup [OF assms]
    by (simp add: disconnect_client_def sendConnectionFailedEvent_def sendEvent_def split: option.split)
  show r: "screen_ok (refuseConnection reason msg c)" for reason msg
    using screen_ok_cleanup [of "note_effect (Ipc_Refused reason) c"] assms
    by (simp add: refuseConnection_def Let_def split: option.split)
  show "screen_ok (handleDisconnectRequested r c)"
    by (simp add: handleDisconnectRequested_def d r split: option.split disconnect_request.split)
qed

lemma lost_screen_ok:
  assumes "screen_ok c" and "client_inv c"
  shows "screen_ok (cleanupConnection (cleanupScreen (cleanupTimer c)))"
  using assms by (auto simp: screen_ok_def cleaning enablings_append client_inv_def)

lemma hello_quiet:
  assumes "handleHello env c = Some (Inr c')" and "client_inv c" and "cl_input_handler c = Hello_Handler"
  shows "quiet c c'"
proof -
  have "\<not> cl_server c" using assms(2,3) by (auto simp: client_inv_def split: if_splits)
  with assms(2) have idle: "\<not> cl_ready c" by (auto simp: client_inv_def)
  have up: "quiet c c2" if "setupScreen c1 = Some c2" "quiet c c1" for c1 c2
    using that idle by (auto simp: setupScreen_def quiet_def split: if_splits)
  have upd: "quiet c (c1\<lparr>cl_stream := Some s\<rparr>) = quiet c c1" for c1 s
    by (simp add: quiet_def)
  have f: "quiet c (hello_failed what c1)" if "quiet c c1" for what c1
    using that unfolding hello_failed_def sendConnectionFailedEvent_def by (auto intro!: quiet_note quiet_cleanups)
  show ?thesis
    using assms(1)
    by (auto simp: handleHello_def Let_def upd quiet_refl split: option.splits prod.splits if_splits
        intro!: f quiet_cleanups quiet_note dest!: up)
qed

lemma quiet_suspended: "quiet (c\<lparr>cl_suspended := b\<rparr>) c' = quiet c c'"
  "quiet (c\<lparr>cl_suspended := b, cl_connectOnResume := b'\<rparr>) c' = quiet c c'"
  by (simp_all add: quiet_def)

lemma suspend_screen_ok:
  assumes "screen_ok c" and "client_inv c"
  shows "screen_ok (handleSuspend c)"
  using assms
  by (auto simp: handleSuspend_def disconnect_client_def sendEvent_def Let_def screen_ok_def cleaning enablings_append client_inv_def)

lemma step_screen_ok: "\<lbrakk>client_step env c c'; client_inv c; screen_ok c\<rbrakk> \<Longrightarrow> screen_ok c'"
proof (induction rule: client_step.induct)
  case (connects i c c')
  then show ?case using quiet_connect quiet_ok by blast
next
  case (connected c c')
  then show ?case
    by (auto simp: handleConnected_def cleanupConnecting_def setupConnection_def screen_ok_def split: if_splits)
next
  case (failed c what)
  have "quiet c (handleConnectionFailed what c)"
    unfolding handleConnectionFailed_def connect_failed_def sendConnectionFailedEvent_def
    by (auto intro: quiet_note quiet_trans quiet_cleaning)
  with failed show ?case using quiet_ok by blast
next
  case (timeout c)
  have "quiet c (handleConnectTimeout c)"
    unfolding handleConnectTimeout_def sendConnectionFailedEvent_def
    by (auto intro: quiet_note quiet_trans quiet_cleaning)
  with timeout show ?case using quiet_ok by blast
next
  case (grabbed c cid c')
  have "quiet c (grab cid c)" by (simp add: grab_def quiet_def note_effect_def)
  moreover have "cl_server c" using grabbed by (simp add: client_inv_def)
  ultimately have "quiet c c'"
    using grabbed grabbed_eq [of c env cid] quiet_trans [OF _ quiet_send, of c "grab cid c" env cid c']
    by (cases "cl_enableClipboard c"; cases "cl_maximumClipboardSize c = 0")
      (auto simp: handleClipboardGrabbed_def quiet_refl simp del: Let_def split: if_splits)
  with grabbed show ?case using quiet_ok by blast
next
  case (hello c c')
  then show ?case using hello_quiet quiet_ok by blast
next
  case (resume c c')
  then have "quiet c c'"
    by (auto simp: handleResume_def Let_def quiet_suspended quiet_refl split: if_splits dest!: quiet_connect)
  with resume show ?case using quiet_ok by blast
next
  case (called c k c')
  then show ?case
    using quiet_do [of env k c c'] quiet_ok [of c c'] handshake_screen_ok [of c env] by (auto simp: valid_call_def)
next
  case (shape c c')
  then show ?case by (auto simp: handleShapeChanged_def split: if_splits)
next
  case (stream c s)
  then show ?case by (simp add: screen_ok_def)
qed (simp_all add: ended_screen_ok lost_screen_ok suspend_screen_ok handleOutputError_def handleDisconnected_def sendEvent_def)

text \<open>
  C19. The screen is enabled exactly while the handshake is complete: in every state reached by
  connecting, events and the calls that the client's proxy can make at that moment
  (\<^const>\<open>valid_call\<close>), the enablings and disablings the client has sent to its screen alternate,
  beginning with an enabling, and the last one is an enabling exactly when the client is ready.
  However a connection ends, the screen has been disabled, and it is never disabled twice.
\<close>

theorem screen_enabled_while_ready:
  assumes "client_reachable env c"
  shows "enablings False (cl_log c) = Some (cl_ready c) \<and> (\<not> cl_ready c \<or> cl_stream c \<noteq> None \<and> cl_server c)"
proof -
  have "client_inv c \<and> screen_ok c"
    using assms
  proof (induction rule: client_reachable.induct)
    case (init name)
    show ?case by (simp add: client_new_def client_inv_def screen_ok_def)
  qed (use step_client_inv step_screen_ok in blast)
  then show ?thesis by (auto simp: screen_ok_def client_inv_def)
qed

section \<open>A whole connection\<close>

text \<open>A server whose address resolves and whose hello announces version 1.7; the stream is the rest of its bytes.\<close>

definition demo_server :: "bytes client_env" where
  "demo_server =
     \<lparr>c_resolve = \<lambda>_. Inr (1, True), c_create = Inr ([66, 97, 114, 114, 105, 101, 114, 0, 1, 0, 7] :: bytes), c_connect = None,
      c_read = \<lambda>n s. (take n s, drop n s), c_isReady = \<lambda>s. s \<noteq> [], c_known_protocol = \<lambda>name. length name = 7,
      c_incompatible = \<lambda>_ _. ''incompatible'', c_cursor = \<lambda>_. (5, 6), c_getClipboard = \<lambda>_ _ cb. cb\<rparr>"

definition demo_timed :: "bytes client" where
  "demo_timed = the (connect_client demo_server 0 (client_new [112]))"

definition demo_opened :: "bytes client" where "demo_opened = the (handleConnected demo_timed)"

definition demo_greeted :: "bytes client" where
  "demo_greeted = (case handleHello demo_server demo_opened of Some (Inr c) \<Rightarrow> c | _ \<Rightarrow> demo_opened)"

definition demo_client :: "bytes client" where
  "demo_client = client_enter 3 4 0 (handshakeComplete demo_server demo_greeted)"

lemma demo_server_sel:
  "c_resolve demo_server i = Inr (1, True)" "c_create demo_server = Inr [66, 97, 114, 114, 105, 101, 114, 0, 1, 0, 7]"
  "c_connect demo_server = None" "c_read demo_server = (\<lambda>n s. (take n s, drop n s))"
  "c_isReady demo_server s = (s \<noteq> [])" "c_known_protocol demo_server name = (length name = 7)"
  by (simp_all add: demo_server_def)

lemma demo_timed_eq: "connect_client demo_server 0 (client_new [112]) = Some demo_timed"
  by (simp add: demo_timed_def connect_client_def demo_server_sel client_new_def setupConnecting_def setupTimer_def
      note_effect_def)

lemma demo_timed_sel:
  "cl_stream demo_timed = Some [66, 97, 114, 114, 105, 101, 114, 0, 1, 0, 7]"
  "cl_timer demo_timed" "\<not> cl_server demo_timed" "cl_connecting_handlers demo_timed"
  by (simp_all add: demo_timed_def connect_client_def demo_server_sel client_new_def setupConnecting_def setupTimer_def
      note_effect_def)

lemma demo_opened_eq: "handleConnected demo_timed = Some demo_opened"
  by (simp add: demo_opened_def demo_timed_sel handleConnected_def setupConnection_def cleanupConnecting_def)

lemma demo_opened_sel:
  "cl_stream demo_opened = Some [66, 97, 114, 114, 105, 101, 114, 0, 1, 0, 7]"
  "cl_timer demo_opened" "\<not> cl_server demo_opened" "cl_input_handler demo_opened = Hello_Handler"
  by (simp_all add: demo_opened_def demo_timed_sel handleConnected_def setupConnection_def cleanupConnecting_def)

lemma hello_items: "fmt_items kMsgHello = Some [Spec 7 CHR ''s'', Spec 2 CHR ''i'', Spec 2 CHR ''i'']"
  by (simp add: kMsgHello_def digit_of_def)

lemma demo_hello:
  "readf_got (\<lambda>n s. (take n s, drop n s)) kMsgHello [66, 97, 114, 114, 105, 101, 114, 0, 1, 0, 7] =
    ([Str [66, 97, 114, 114, 105, 101, 114], Val2 1, Val2 7], None, [])"
  by (simp add: readf_got_def hello_items got_one_def readBytes_def read2BytesInt_def rbind_def rret_def pu_read.simps
      protocol_max_string_length_def un_be16_def)

lemma hello_accepted:
  assumes "cl_stream c = Some s" and "\<not> cl_server c"
    and "readf_got (c_read env) kMsgHello s = ([Str name, Val2 1, Val2 minor], None, s')" and "c_known_protocol env name"
  shows "\<exists>c'. handleHello env c = Some (Inr c') \<and> cl_stream c' = Some s' \<and> cl_server c' \<and> \<not> cl_timer c' \<and>
    \<not> cl_ready c' \<and> cl_input_handler c' = Proxy_Handler \<and>
    (\<exists>es. cl_log c' = cl_log c @ Hello_Back name [Int_Arg 1,
       Int_Arg (scast (if sint minor < 8 then minor else 8)), Str_Arg (cl_name c)] # es)"
  using assms
  by (simp add: handleHello_def Let_def str_def val2_def kProtocolMajorVersion_def kProtocolMinorVersion_def
      setupScreen_def cleanupTimer_def note_effect_def)

lemma demo_greeted_eq: "handleHello demo_server demo_opened = Some (Inr demo_greeted)"
  using hello_accepted [of demo_opened _ demo_server "[66, 97, 114, 114, 105, 101, 114]" 7 "[]"]
  by (auto simp: demo_greeted_def demo_opened_sel demo_server_sel demo_hello)

lemma demo_greeted_sel:
  "cl_server demo_greeted" "\<not> cl_ready demo_greeted" "cl_input_handler demo_greeted = Proxy_Handler"
  using hello_accepted [of demo_opened _ demo_server "[66, 97, 114, 114, 105, 101, 114]" 7 "[]"] demo_greeted_eq
  by (auto simp: demo_opened_sel demo_server_sel demo_hello)

text \<open>The first connection, then the handshake, then the server moves onto the screen.\<close>

lemma demo_client_reachable: "client_reachable demo_server demo_client"
proof -
  have "client_reachable demo_server demo_timed"
    by (rule client_reachable.step [OF client_reachable.init connects [OF demo_timed_eq]])
  from client_reachable.step [OF this connected [OF _ demo_opened_eq]]
  have "client_reachable demo_server demo_opened" by (simp add: demo_timed_sel)
  from client_reachable.step [OF this hello [OF _ demo_greeted_eq]]
  have g: "client_reachable demo_server demo_greeted" by (simp add: demo_opened_sel)
  have h: "client_reachable demo_server (handshakeComplete demo_server demo_greeted)"
    by (rule client_reachable.step [OF g called [of _ Handshake_Complete]]) (simp_all add: demo_greeted_sel valid_call_def)
  have "cl_input_handler (handshakeComplete demo_server demo_greeted) = Proxy_Handler"
    using demo_greeted_sel by (simp add: handshakeComplete_def Let_def sendEvent_def on_screen_def note_effect_def
        saveRelativeRestorePosition_def split: prod.split)
  then show ?thesis
    unfolding demo_client_def
    by (intro client_reachable.step [OF h called [of _ "Enter 3 4 0 0"]]) (simp_all add: valid_call_def)
qed

lemma demo_client_sel: "cl_ready demo_client" "cl_active demo_client" "cl_server demo_client"
  using demo_greeted_sel
  by (simp_all add: demo_client_def client_enter_def handshakeComplete_def Let_def sendEvent_def on_screen_def note_effect_def
      saveRelativeRestorePosition_def split: prod.split)

lemma client_never_stuck_witness: "client_inv demo_client \<and> client_leave demo_server demo_client \<noteq> None"
proof -
  have "cl_input_handler demo_client = Proxy_Handler"
    using reachable_client_inv [OF demo_client_reachable] demo_client_sel by (simp add: client_inv_def)
  then show ?thesis using client_never_stuck [OF demo_client_reachable, of 0 0] by simp
qed

lemma screen_enabled_while_ready_witness: "enablings False (cl_log demo_client) = Some True"
  using screen_enabled_while_ready [OF demo_client_reachable] demo_client_sel by simp

section \<open>Who is active\<close>

lemma active_effects [simp]: "cl_active (note_effect e c) = cl_active c" "cl_active (on_screen x c) = cl_active c"
  "cl_active (saveRelativeRestorePosition env c) = cl_active c"
  by (simp_all add: note_effect_def on_screen_def saveRelativeRestorePosition_def split: prod.split)

lemma active_cleaning [simp]:
  "cl_active (cleanupTimer c) = cl_active c" "cl_active (cleanupStream c) = cl_active c"
  "cl_active (cleanupConnecting c) = cl_active c" "cl_active (cleanupConnection c) = cl_active c"
  "cl_active (cleanupScreen c) = cl_active c" "cl_active (cleanup c) = cl_active c"
  "cl_active (connect_failed what c) = cl_active c" "cl_active (hello_failed what c) = cl_active c"
  by (simp_all add: cleaning cleanup_def connect_failed_def sendConnectionFailedEvent_def hello_failed_def)

lemma active_ended [simp]:
  "cl_active (disconnect_client msg c) = cl_active c" "cl_active (refuseConnection r msg c) = cl_active c"
  "cl_active (handleDisconnectRequested q c) = cl_active c" "cl_active (handleSuspend c) = cl_active c"
  by (auto simp: disconnect_client_def refuseConnection_def handleDisconnectRequested_def handleSuspend_def sendEvent_def
      sendConnectionFailedEvent_def Let_def split: option.split disconnect_request.split)

lemma active_setups:
  "setupConnecting c = Some c' \<Longrightarrow> cl_active c' = cl_active c" "setupTimer c = Some c' \<Longrightarrow> cl_active c' = cl_active c"
  "setupConnection c = Some c' \<Longrightarrow> cl_active c' = cl_active c" "setupScreen c = Some c' \<Longrightarrow> cl_active c' = cl_active c"
  by (auto simp: setupConnecting_def setupTimer_def setupConnection_def setupScreen_def split: if_splits)

lemma active_connect: "connect_client env i c = Some c' \<Longrightarrow> cl_active c' = cl_active c"
  by (auto simp: connect_client_def Let_def split: if_splits sum.splits option.splits bind_splits dest!: active_setups)

lemma active_hello: "handleHello env c = Some (Inr c') \<Longrightarrow> cl_active c' = cl_active c"
  by (auto simp: handleHello_def Let_def split: option.splits prod.splits if_splits dest!: active_setups)

lemma active_grabbed: "handleClipboardGrabbed env cid c = Some c' \<Longrightarrow> cl_active c' = cl_active c"
  by (auto simp: handleClipboardGrabbed_def Let_def split: if_splits dest!: links_send)

lemma active_do:
  assumes "client_do env k c = Some c'"
  shows "cl_active c' = cl_active c \<or> client_leave env c = Some c' \<or> (\<exists>x y m. c' = client_enter x y m c)"
proof (cases k)
  case (Set_Options os)
  then show ?thesis using assms links_setOptions by auto
next
  case Handshake_Complete
  then show ?thesis
    using assms by (auto simp: handshakeComplete_def sendEvent_def Let_def split: if_splits)
qed (use assms in \<open>auto simp: client_setClipboard_def client_grabClipboard_def client_resetOptions_def disown_def\<close>)

text \<open>
  C29. Only the server's calls of enter and leave change whether the client believes to be the
  active screen: no other step touches the flag. In particular it survives the loss of the
  connection and the next handshake, so that a client that was active when the connection broke
  only announces a clipboard grabbed after it has reconnected and does not send it, although the
  server has not entered it.
\<close>

theorem active_only_by_server:
  assumes "client_step env c c'"
  shows "(cl_active c' = cl_active c \<or>
      cl_input_handler c = Proxy_Handler \<and> (client_leave env c = Some c' \<or> (\<exists>x y m. c' = client_enter x y m c))) \<and>
    (\<not> cl_active c' \<or> \<not> cl_server c' \<or> cl_maximumClipboardSize c' = 0 \<or> \<not> cl_enableClipboard c' \<or>
      handleClipboardGrabbed env cid c' = Some (grab cid c'))"
proof
  show "cl_active c' = cl_active c \<or>
    cl_input_handler c = Proxy_Handler \<and> (client_leave env c = Some c' \<or> (\<exists>x y m. c' = client_enter x y m c))"
    using assms
  proof (induction rule: client_step.induct)
    case (called c k c')
    then show ?case using active_do by blast
  next
    case (resume c c')
    then show ?case by (auto simp: handleResume_def Let_def split: if_splits dest!: active_connect)
  next
    case (connected c c')
    then show ?case by (auto simp: handleConnected_def dest!: active_setups)
  next
    case (shape c c')
    then show ?case by (auto simp: handleShapeChanged_def split: if_splits)
  next
    case (connects i c c')
    then show ?case using active_connect by blast
  next
    case (hello c c')
    then show ?case using active_hello by blast
  next
    case (grabbed c cid c')
    then show ?case using active_grabbed by blast
  qed (simp_all add: handleConnectionFailed_def handleConnectTimeout_def handleOutputError_def handleDisconnected_def
      sendEvent_def sendConnectionFailedEvent_def)
next
  show "\<not> cl_active c' \<or> \<not> cl_server c' \<or> cl_maximumClipboardSize c' = 0 \<or> \<not> cl_enableClipboard c' \<or>
      handleClipboardGrabbed env cid c' = Some (grab cid c')"
    using grabbed_eq [of c' env cid] by (cases "cl_maximumClipboardSize c' = 0") simp_all
qed

lemma active_only_by_server_witness:
  "cl_active (handleDisconnected demo_client) \<and> \<not> cl_server (handleDisconnected demo_client)"
proof -
  have inv: "client_inv demo_client" by (rule reachable_client_inv [OF demo_client_reachable])
  then have h: "cl_connection_handlers demo_client" using demo_client_sel by (simp add: client_inv_def)
  have "unconnected (handleDisconnected demo_client)"
    using lost_unconnected [OF inv h] by (simp add: handleDisconnected_def sendEvent_def)
  then have "\<not> cl_server (handleDisconnected demo_client)" by (simp add: unconnected_def)
  moreover have "cl_active (handleDisconnected demo_client)"
    using active_only_by_server [OF disconnected [OF h], of demo_server 0] demo_client_sel
    by (auto simp: handleDisconnected_def sendEvent_def)
  ultimately show ?thesis by simp
qed

section \<open>Clipboards\<close>

definition sends :: "byte \<Rightarrow> client_effect list \<Rightarrow> bool" where
  "sends cid es \<longleftrightarrow> (\<exists>cb. Proxy_Clipboard_Changed cid cb \<in> set es)"

lemma send_log:
  assumes "sendClipboardData env cid c = Some c'"
  shows "\<exists>es. cl_log c' = cl_log c @ es \<and> (\<forall>i. sends i es \<longrightarrow> i = cid)"
  using assms by (auto simp: sendClipboardData_def Let_def note_effect_def sends_def split: if_splits)

lemma send_owned_log:
  assumes "send_owned env cids c = Some c'"
  shows "\<exists>es. cl_log c' = cl_log c @ es \<and> (\<forall>i. sends i es \<longrightarrow> cl_ownClipboard c ! unat i)"
  using assms
proof (induction cids arbitrary: c)
  case Nil
  then show ?case by (simp add: send_owned.simps sends_def)
next
  case (Cons cid cids)
  show ?case
  proof (cases "cl_ownClipboard c ! unat cid")
    case True
    then obtain c1 where c1: "sendClipboardData env cid c = Some c1" "send_owned env cids c1 = Some c'"
      using Cons.prems by (auto simp: send_owned.simps split: bind_splits)
    obtain es where es: "cl_log c1 = cl_log c @ es" "\<forall>i. sends i es \<longrightarrow> i = cid"
      using send_log [OF c1(1)] by blast
    obtain fs where fs: "cl_log c' = cl_log c1 @ fs" "\<forall>i. sends i fs \<longrightarrow> cl_ownClipboard c1 ! unat i"
      using Cons.IH [OF c1(2)] by blast
    have "cl_ownClipboard c1 = cl_ownClipboard c" using links_send [OF c1(1)] by simp
    then have "sends i (es @ fs) \<longrightarrow> cl_ownClipboard c ! unat i" for i
      using es(2) fs(2) True by (auto simp: sends_def)
    then show ?thesis using es(1) fs(1) by auto
  next
    case False
    then show ?thesis using Cons by (simp add: send_owned.simps)
  qed
qed

text \<open>
  C30. A clipboard that came from the server is not sent back: when the server sets (or another
  screen grabs) a clipboard of the client and then leaves the screen, the client sends no
  contents for that clipboard, whatever the screen reports.
\<close>

theorem received_not_returned:
  assumes "cid < kClipboardEnd" and "length (cl_ownClipboard c) = 2"
    and "c1 = client_setClipboard cid cb c \<or> c1 = client_grabClipboard cid c" and "client_leave env c1 = Some c2"
  shows "\<exists>es. cl_log c2 = cl_log c1 @ es \<and> \<not> sends cid es"
proof -
  let ?c = "on_screen S_leave ((if cl_relativeMouseMoves c1 then saveRelativeRestorePosition env c1 else c1)\<lparr>cl_active := False\<rparr>)"
  have log: "cl_log ?c = cl_log c1 @ [Screen_Call S_leave]" and own: "cl_ownClipboard ?c = cl_ownClipboard c1"
    by (auto simp: on_screen_def note_effect_def saveRelativeRestorePosition_def split: prod.split)
  have "unat cid < 2" using assms(1) by (simp add: kClipboardEnd_def word_less_nat_alt)
  then have "\<not> cl_ownClipboard c1 ! unat cid"
    using assms(2,3) by (auto simp: client_setClipboard_def client_grabClipboard_def disown_def on_screen_def note_effect_def)
  moreover have "c2 = ?c \<or> send_owned env [0, 1] ?c = Some c2"
    using assms(4) by (auto simp: client_leave_def Let_def split: if_splits)
  ultimately obtain es where "cl_log c2 = cl_log ?c @ es" "\<not> sends cid es"
    using send_owned_log [of env "[0, 1]" ?c c2] own by (fastforce simp: sends_def)
  then show ?thesis using log by (auto simp: sends_def)
qed

lemma received_not_returned_witness:
  "\<exists>c2 es. client_leave demo_server (client_setClipboard 0 cb_init demo_client) = Some c2 \<and>
    cl_log c2 = cl_log (client_setClipboard 0 cb_init demo_client) @ es \<and> \<not> sends 0 es"
proof -
  have inv: "client_inv demo_client" by (rule reachable_client_inv [OF demo_client_reachable])
  let ?c = "client_setClipboard 0 cb_init demo_client"
  have "client_step demo_server demo_client ?c"
    by (rule called [of _ "Set_Clipboard 0 cb_init"])
      (use inv demo_client_sel in \<open>simp_all add: client_inv_def valid_call_def kClipboardEnd_def\<close>)
  then have r: "client_reachable demo_server ?c" by (rule client_reachable.step [OF demo_client_reachable])
  have "cl_input_handler ?c = Proxy_Handler"
    using inv demo_client_sel
    by (simp add: client_inv_def client_setClipboard_def disown_def on_screen_def note_effect_def)
  then obtain c2 where c2: "client_leave demo_server ?c = Some c2" using client_inv_leave [OF r] by blast
  have "(0 :: byte) < kClipboardEnd" by (simp add: kClipboardEnd_def)
  moreover have "length (cl_ownClipboard demo_client) = 2" using inv by (simp add: client_inv_def)
  ultimately show ?thesis using c2 received_not_returned [OF _ _ disjI1 [OF refl] c2] by blast
qed

section \<open>Options\<close>

definition known_option :: "u32 \<Rightarrow> bool" where
  "known_option k \<longleftrightarrow> k \<in> {kOptionCaptureTransfer, kOptionClipboardSharing, kOptionClipboardSharingSize,
     kOptionRelativeMouseMoves}"

text \<open>One option with its value.\<close>

definition apply_option :: "'s client_env \<Rightarrow> u32 \<times> u32 \<Rightarrow> 's client \<Rightarrow> 's client" where
  "apply_option env kv c = (case kv of (k, v) \<Rightarrow>
     if k = kOptionCaptureTransfer then (if v = 1 then note_effect (Set_Capture_Sender True) c else c)
     else if k = kOptionClipboardSharing then c\<lparr>cl_enableClipboard := (v \<noteq> 0)\<rparr>
     else if k = kOptionClipboardSharingSize then c\<lparr>cl_maximumClipboardSize := unat v\<rparr>
     else if k = kOptionRelativeMouseMoves then
       (let c = c\<lparr>cl_relativeMouseMoves := (v \<noteq> 0)\<rparr>
        in if cl_relativeMouseMoves c \<and> cl_ready c \<and> \<not> cl_hasRelativeRestorePosition c
           then saveRelativeRestorePosition env c else c)
     else c)"

definition option_list :: "(u32 \<times> u32) list \<Rightarrow> u32 list" where
  "option_list ps = concat (map (\<lambda>(k, v). [k, v]) ps)"

lemma option_list_simps [simp]: "option_list [] = []" "option_list ((k, v) # ps) = k # v # option_list ps"
  by (simp_all add: option_list_def)

lemma unknown_value: "\<not> known_option v \<Longrightarrow> client_options env (v # os) c = client_options env os c"
  by (cases os) (auto simp: known_option_def)

lemma options_pair:
  assumes "known_option k \<or> \<not> known_option v"
  shows "client_options env (k # v # os) c = client_options env os (apply_option env (k, v) c)"
proof (cases "known_option k")
  case True
  then show ?thesis by (auto simp: known_option_def apply_option_def Let_def)
next
  case False
  then show ?thesis using assms unknown_value [of v env os c] by (simp add: known_option_def apply_option_def)
qed

text \<open>
  The loop over the server's options agrees with applying one option after the other, as
  long as no unknown option has a value that is itself the identifier of an option the client
  knows.
\<close>

theorem options_in_order:
  assumes "list_all (\<lambda>(k, v). known_option k \<or> \<not> known_option v) ps"
  shows "client_options env (option_list ps) c = Some (fold (apply_option env) ps c)"
  using assms by (induction ps arbitrary: c) (auto simp: options_pair simp del: client_options.simps(3))

lemma options_in_order_witness:
  "client_options demo_server (option_list [(kOptionHeartbeat, 5000), (kOptionClipboardSharing, 0)]) demo_client =
    Some (demo_client\<lparr>cl_enableClipboard := False\<rparr>)"
  using options_in_order [of "[(kOptionHeartbeat, 5000), (kOptionClipboardSharing, 0)]" demo_server demo_client]
  by (simp add: known_option_def apply_option_def kOptionHeartbeat_def kOptionClipboardSharing_def
      kOptionCaptureTransfer_def kOptionClipboardSharingSize_def kOptionRelativeMouseMoves_def)

text \<open>
  An unknown option is stepped over without its value: when the value of the last option is
  the identifier of an option with a value of its own, the loop steps over the end of the list
  and its test for the end never holds again; and otherwise such a value takes the next
  option's identifier for its value.
\<close>

theorem options_past_end:
  assumes "\<not> known_option k" and "v \<in> {kOptionClipboardSharing, kOptionClipboardSharingSize, kOptionRelativeMouseMoves}"
    and "list_all (\<lambda>(k, v). known_option k \<or> \<not> known_option v) ps"
  shows "client_setOptions env (option_list ps @ [k, v]) c = None"
proof -
  have "client_options env (option_list ps @ [k, v]) c = None"
    using assms(3)
  proof (induction ps arbitrary: c)
    case Nil
    then show ?case using assms(1,2) by (auto simp: known_option_def)
  next
    case (Cons p ps)
    then show ?case by (cases p) (simp add: options_pair del: client_options.simps(3))
  qed
  moreover have "even (length (option_list ps))" by (induction ps) auto
  ultimately show ?thesis by (simp add: client_setOptions_def even_iff_mod_2_eq_zero [symmetric])
qed

lemma options_past_end_witness:
  "client_setOptions demo_server ([kOptionClipboardSharing, 1] @ [kOptionHeartbeat, kOptionClipboardSharing]) demo_client = None"
  using options_past_end [of kOptionHeartbeat kOptionClipboardSharing "[(kOptionClipboardSharing, 1)]" demo_server demo_client]
  by (simp add: known_option_def kOptionHeartbeat_def kOptionClipboardSharing_def
      kOptionCaptureTransfer_def kOptionClipboardSharingSize_def kOptionRelativeMouseMoves_def)

end
