(* ===== verification/Hello.thy ===== *)
theory Hello
  imports Handshake Listener_Props Client_Props
begin

text \<open>
  The first exchange on a connection: the listener's hello, the client's answer, and the proxy
  the server makes for it.
\<close>

section \<open>Names of fixed length\<close>

context byte_source
begin

lemma parses_name: "length name = 7 \<Longrightarrow> parses ok avail (readBytes rd 7) name name"
  using parses_read [of name 7] by (simp add: readBytes_def rbind_def rret_def)

lemma parses_hello:
  assumes "length name = 7" and "delivered fs as = Some vs" and "writef_items fs as = Some w"
  shows "parses ok avail (vreadf rd (Spec 7 CHR ''s'' # fs)) (name @ w) (Str name # vs)"
  using parses_continue [OF parses_name [OF assms(1)] parses_vreadf [OF assms(2,3)], where g = Str]
  by (simp add: protocol_max_string_length_def)

end

lemma hello_packet:
  assumes "fmt_items fmt = Some (Spec 7 CHR ''s'' # fs)" and "length name = 7" and "delivered fs as = Some vs"
    and "writef_items fs as = Some w" and "ps_inv s" and "ps_packets s = [name @ w]"
  shows "\<exists>s'. readf_got ps_rd fmt s = (Str name # vs, None, s') \<and> ps_inv s' \<and> ps_packets s' = []"
  by (rule pms.readf_packet_parses [OF assms(1) byte_source.parses_hello [OF _ assms(2-4)] assms(5)])
    (use assms(2,6) in auto)

text \<open>The size of the packet that is read next.\<close>

lemma front_size:
  assumes "ps_inv f" and "ps_packets f = p # ps"
  shows "unat (pf_getSize f) = length p"
proof -
  have ready: "pf_is_ready f" using pms.ready_packets [OF assms(1)] assms(2) by simp
  then have size: "pf_size f \<noteq> 0" "unat (pf_size f) \<le> length (sb_content (pf_buffer f))"
    using assms(1) by (auto simp: pf_is_ready_def ps_inv_def pf_settled_def sbq.count_content word_le_nat_alt)
  have "packets (be32 (pf_size f) @ sb_content (pf_buffer f)) = p # ps"
    using assms(2) size(1) by (simp add: ps_packets_def pf_pending_def)
  then have "p = take (unat (pf_size f)) (sb_content (pf_buffer f))"
    using un_be32_nth [of "pf_size f" "sb_content (pf_buffer f)"] size(2) by (subst (asm) packets.simps) (simp add: Let_def)
  then show ?thesis using size(2) ready by (simp add: pf_getSize_def)
qed

section \<open>The exchange\<close>

definition version_args :: "arg list" where
  "version_args = [Int_Arg (scast kProtocolMajorVersion), Int_Arg (scast kProtocolMinorVersion)]"

lemma greeting_items:
  "fmt_items kMsgHelloArgs = Some [Spec 2 CHR ''i'', Spec 2 CHR ''i'']"
  "fmt_items kMsgHelloBackArgs = Some [Spec 2 CHR ''i'', Spec 2 CHR ''i'', Spec 0 CHR ''s'']"
  "fmt_items kMsgHello = Some [Spec 7 CHR ''s'', Spec 2 CHR ''i'', Spec 2 CHR ''i'']"
  "fmt_items kMsgHelloBack = Some [Spec 7 CHR ''s'', Spec 2 CHR ''i'', Spec 2 CHR ''i'', Spec 0 CHR ''s'']"
  by (simp_all add: kMsgHelloArgs_def kMsgHelloBackArgs_def kMsgHello_def kMsgHelloBack_def digit_of_def)

lemma hello_wire:
  "getLength [Spec 2 CHR ''i'', Spec 2 CHR ''i''] version_args = Some 4"
  "delivered [Spec 2 CHR ''i'', Spec 2 CHR ''i''] version_args = Some [Val2 1, Val2 8]"
  "\<exists>w. writef_items [Spec 2 CHR ''i'', Spec 2 CHR ''i''] version_args = Some w \<and> length w = 4"
  by (simp_all add: version_args_def kProtocolMajorVersion_def kProtocolMinorVersion_def)

lemma answer_wire:
  assumes "length name < 2 ^ 20"
  shows "\<exists>n. getLength [Spec 2 CHR ''i'', Spec 2 CHR ''i'', Spec 0 CHR ''s''] (version_args @ [Str_Arg name]) = Some n"
    "delivered [Spec 2 CHR ''i'', Spec 2 CHR ''i'', Spec 0 CHR ''s''] (version_args @ [Str_Arg name]) = Some [Val2 1, Val2 8, Str name]"
    "\<exists>w. writef_items [Spec 2 CHR ''i'', Spec 2 CHR ''i'', Spec 0 CHR ''s''] (version_args @ [Str_Arg name]) = Some w \<and>
      length w = 8 + length name"
  using assms writeString_Some [of name]
  by (auto simp: version_args_def kProtocolMajorVersion_def kProtocolMinorVersion_def)

text \<open>The client's side.\<close>

lemma client_answers:
  assumes "length protocol = 7" and "CHR ''%'' \<notin> set protocol" and "c_known_protocol env (map of_char protocol)"
    and "c_read env = ps_rd" and c: "cl_stream c = Some s" "\<not> cl_server c"
    and s: "ps_inv s" "ps_packets s = [written (protocol @ kMsgHelloArgs) version_args]"
  shows "\<exists>c'. handleHello env c = Some (Inr c') \<and> cl_server c' \<and>
    Hello_Back (map of_char protocol) (version_args @ [Str_Arg (cl_name c)]) \<in> set (cl_log c')"
proof -
  obtain w where w: "writef_items [Spec 2 CHR ''i'', Spec 2 CHR ''i''] version_args = Some w" "length w = 4"
    using hello_wire(3) by blast
  have "written (protocol @ kMsgHelloArgs) version_args = map of_char protocol @ w"
    by (rule written_message [OF assms(2) greeting_items(1) hello_wire(1) w(1)]) (use assms(1) w(2) in simp)
  with s hello_packet [OF greeting_items(3) _ hello_wire(2) w(1), of "map of_char protocol" s] assms(1) obtain s' where
    r: "readf_got ps_rd kMsgHello s = ([Str (map of_char protocol), Val2 1, Val2 8], None, s')" by auto
  show ?thesis
    using assms(3,4) c
    by (auto simp: handleHello_def r str_def val2_def kProtocolMajorVersion_def kProtocolMinorVersion_def Let_def
        setupScreen_def cleanupTimer_def note_effect_def version_args_def)
qed

text \<open>The server's side.\<close>

lemma hello_parsed:
  assumes "length protocol = 7" and "CHR ''%'' \<notin> set protocol" and "p_read (l_proxy env) = ps_rd" and "l_getSize env = pf_getSize"
    and "length name \<le> 1000" and t: "ps_inv t" "ps_packets t = [written (protocol @ kMsgHelloBackArgs) (version_args @ [Str_Arg name])]"
  shows "\<exists>t'. parse_hello env t = (Inr (Reply_Good name 8), t') \<and> ps_inv t' \<and> ps_packets t' = []"
proof -
  have len: "length name < 2 ^ 20" using assms(5) by simp
  obtain k where k: "getLength [Spec 2 CHR ''i'', Spec 2 CHR ''i'', Spec 0 CHR ''s''] (version_args @ [Str_Arg name]) = Some k"
    using answer_wire(1) [OF len] by blast
  obtain w where w: "writef_items [Spec 2 CHR ''i'', Spec 2 CHR ''i'', Spec 0 CHR ''s''] (version_args @ [Str_Arg name]) = Some w"
    "length w = 8 + length name" using answer_wire(3) [OF len] by blast
  have m: "written (protocol @ kMsgHelloBackArgs) (version_args @ [Str_Arg name]) = map of_char protocol @ w"
    by (rule written_message [OF assms(2) greeting_items(2) k w(1)]) (use assms(1,5) w(2) in simp)
  with t hello_packet [OF greeting_items(4) _ answer_wire(2) [OF len] w(1), of "map of_char protocol" t] assms(1) obtain t' where
    r: "readf_got ps_rd kMsgHelloBack t = ([Str (map of_char protocol), Val2 1, Val2 8, Str name], None, t')"
    "ps_inv t'" "ps_packets t' = []" by auto
  have "unat (pf_getSize t) \<le> 1015" using front_size [OF t] m assms(1,5) w(2) by simp
  then have "\<not> kMaxHelloLength < pf_getSize t" by (simp add: kMaxHelloLength_def word_less_nat_alt)
  then have "parse_hello env t = (Inr (Reply_Good name 8), t')"
    by (simp add: parse_hello_def initProxy_def assms(3,4) readf_got_readf [OF r(1)])
  then show ?thesis using r(2,3) by simp
qed

lemma server_takes_hello:
  assumes "parse_hello env t = (Inr (Reply_Good name v), t')" and "un_stream u = Some t"
  shows "\<exists>l' u'. un_handleData env n u l = Some l' \<and> li_new l' n = Some u' \<and> un_proxy u' = Some (cp_new v name (l_layouts env) t')"
  using assms by (auto simp: un_handleData_def un_removeHandlers_def Let_def)

text \<open>
  C14. Server and client agree on the protocol. A client that knows the server's protocol answers
  the hello that the listener writes for a new connection, and has a proxy for the server from
  then on; on its answer the listener makes a proxy of version 1.8 that has the client's name
  and the rest of the stream.
\<close>

theorem hello_agrees:
  assumes "l_protocol env = protocol" and "length protocol = 7" and "CHR ''%'' \<notin> set protocol"
    and "p_read (l_proxy env) = ps_rd" and "l_getSize env = pf_getSize"
    and "c_known_protocol cenv (map of_char protocol)" and "c_read cenv = ps_rd"
    and "cl_stream c = Some s" and "\<not> cl_server c" and "length (cl_name c) \<le> 1000"
    and "ps_inv s" and "ps_packets s = [written fmt as]" and "li_log l0 = []"
    and "Written n fmt as \<in> set (li_log (handleClientAccepted env n t0 l0))"
  shows "\<exists>c' answer. handleHello cenv c = Some (Inr c') \<and> cl_server c' \<and>
    Hello_Back (map of_char protocol) answer \<in> set (cl_log c') \<and>
    (\<forall>u l t. ps_inv t \<and> ps_packets t = [written (protocol @ kMsgHelloBackArgs) answer] \<and> un_stream u = Some t \<longrightarrow>
      (\<exists>l' u' t'. un_handleData env n u l = Some l' \<and> li_new l' n = Some u' \<and>
        un_proxy u' = Some (cp_new 8 (cl_name c) (l_layouts env) t') \<and> ps_packets t' = []))"
proof -
  have hello: "fmt = protocol @ kMsgHelloArgs" "as = version_args"
    using assms(1,13,14) by (simp_all add: accepted_defs version_args_def)
  from client_answers [OF assms(2,3,6,7,8,9,11) assms(12) [unfolded hello]] obtain c' where
    c': "handleHello cenv c = Some (Inr c')" "cl_server c'"
    "Hello_Back (map of_char protocol) (version_args @ [Str_Arg (cl_name c)]) \<in> set (cl_log c')" by blast
  have "\<exists>l' u' t'. un_handleData env n u l = Some l' \<and> li_new l' n = Some u' \<and>
      un_proxy u' = Some (cp_new 8 (cl_name c) (l_layouts env) t') \<and> ps_packets t' = []"
    if t: "ps_inv t" "ps_packets t = [written (protocol @ kMsgHelloBackArgs) (version_args @ [Str_Arg (cl_name c)])]" "un_stream u = Some t"
    for u l t
  proof -
    obtain t' where t': "parse_hello env t = (Inr (Reply_Good (cl_name c) 8), t')" "ps_packets t' = []"
      using hello_parsed [OF assms(2-5,10) t(1,2)] by blast
    from server_takes_hello [OF t'(1) t(3), of n l] t'(2) show ?thesis by blast
  qed
  with c' show ?thesis by (intro exI [of _ c'] exI [of _ "version_args @ [Str_Arg (cl_name c)]"]) blast
qed

section \<open>Examples\<close>

definition demo_listen :: "packet_filter listen_env" where
  "demo_listen = \<lparr>l_proxy = demo_cp_env, l_getSize = pf_getSize, l_protocol = ''Barrier'', l_layouts = [], l_plain = True\<rparr>"

text \<open>A connection up to the point where its proxy has said that it is ready.\<close>

lemma proxy_events_append [simp]: "proxy_events n (es @ es') = proxy_events n es @ proxy_events n es'"
  by (induction n es rule: proxy_events.induct) simp_all

lemma timers_log:
  "\<exists>es. cp_log (addHeartbeatTimer p) = cp_log p @ es \<and> proxy_events n es = []"
  "\<exists>es. cp_log (resetHeartbeatTimer p) = cp_log p @ es \<and> proxy_events n es = []"
  by (auto simp: timer_defs)

lemma ready_effects:
  fixes p :: "'s client_proxy" and s :: 's
  defines "r \<equiv> resetHeartbeatTimer ((addHeartbeatTimer (cp_tell Ev_Ready (send kMsgCInfoAck [] p)))\<lparr>cp_stream := s\<rparr>)"
  shows "proxy_events n (drop (length (cp_log p)) (cp_log r)) = [Proxy_Ready n]" and "cp_handlers r = cp_handlers p"
proof -
  let ?a = "cp_tell Ev_Ready (send kMsgCInfoAck [] p)"
  obtain es where "cp_log (addHeartbeatTimer ?a) = cp_log ?a @ es" "proxy_events n es = []" using timers_log(1) by blast
  moreover obtain es' where "cp_log r = cp_log ((addHeartbeatTimer ?a)\<lparr>cp_stream := s\<rparr>) @ es'" "proxy_events n es' = []"
    unfolding r_def using timers_log(2) by blast
  ultimately show "proxy_events n (drop (length (cp_log p)) (cp_log r)) = [Proxy_Ready n]"
    by (simp add: send_def cp_tell_def)
  show "cp_handlers r = cp_handlers p" by (simp add: r_def timer_defs send_def)
qed

lemma demo_success:
  obtains l u p where "listening demo_listen (\<lambda>_. pf_init) l" and "li_queue l = [Unknown_Success 0]" and "li_new l 0 = Some u"
    and "un_ready u" and "un_proxy u = Some p" and "cp_handlers p" and "li_waiting l = []" and "li_adopted l = []"
proof -
  let ?L = "listening demo_listen (\<lambda>_. pf_init)"
  let ?m = "written (''Barrier'' @ kMsgHelloBackArgs) (version_args @ [Str_Arg []])"
  have env: "p_read (l_proxy demo_listen) = ps_rd" "l_getSize demo_listen = pf_getSize" "l_layouts demo_listen = []"
    "l_proxy demo_listen = demo_cp_env" "l_plain demo_listen"
    by (simp_all add: demo_listen_def demo_cp_env_def)
  have go: "?L l'" if "?L l" "enabled demo_listen i l" "handle_input demo_listen (\<lambda>_. pf_init) i l = Some l'" for i l l'
    using that by (rule listening.input)
  let ?u = "\<lparr>un_stream = Some pf_init, un_timer = True, un_proxy = None, un_ready = False, un_handlers = True\<rparr>"
  let ?l1 = "handleClientConnecting demo_listen (Some 0) li_init" and ?l2 = "handleClientAccepted demo_listen 0 pf_init
    (li_init\<lparr>li_sockets := [0], li_accepting := [0], li_live := {Socket_Obj 0}\<rparr>)"
  have 1: "?L ?l1" by (rule go [OF listening.start, of "Connecting (Some 0)"]) (simp_all add: li_init_def handle_input_def unless_fault_def handleClientConnecting_def env)
  have 2: "?L ?l2"
    by (rule go [OF 1, of Next])
      (simp_all add: handleClientConnecting_def env add_event_def li_init_def dispatch_next_def handle_input_def unless_fault_def accepted_defs)
  obtain k w where w: "getLength [Spec 2 CHR ''i'', Spec 2 CHR ''i'', Spec 0 CHR ''s''] (version_args @ [Str_Arg []]) = Some k"
    "writef_items [Spec 2 CHR ''i'', Spec 2 CHR ''i'', Spec 0 CHR ''s''] (version_args @ [Str_Arg []]) = Some w" "length w = 8"
    using answer_wire(1,3) [of "[]"] by auto
  have "?m = map of_char ''Barrier'' @ w"
    by (rule written_message [OF _ greeting_items(2) w(1,2)]) (simp_all add: w(3))
  then have "list_all sendable [?m]" by (simp add: sendable_small w(3))
  then obtain t where t: "ps_inv t" "ps_packets t = [?m]" by (rule filter_with_packets)
  obtain t' where t': "parse_hello demo_listen t = (Inr (Reply_Good [] 8), t')"
    using hello_parsed [OF _ _ env(1,2) _ t] by auto
  let ?p = "cp_new 8 [] [] t'"
  let ?u3 = "?u\<lparr>un_handlers := False, un_stream := None, un_proxy := Some ?p\<rparr>"
  let ?use = "use_object (Filter_Obj 0)"
  let ?l3 = "set_unknown 0 ?u3 ((?use (?use ?l2))\<lparr>li_proxy_handlers := [0]\<rparr>)"
  have 3: "?L ?l3"
    by (rule go [OF 2, of "Data 0 t"])
      (simp_all add: accepted_defs li_init_def un_handleData_def t' un_removeHandlers_def env handle_input_def unless_fault_def)
  have "length (written kMsgDInfo [Int_Arg 0, Int_Arg 0, Int_Arg 800, Int_Arg 600, Int_Arg 0, Int_Arg 400, Int_Arg 300]) = 18"
    by (rule demo_messages)
  then have "list_all sendable [written kMsgDInfo (map Int_Arg [0, 0, 800, 600, 0, 400, 300])]" by (simp add: sendable_small)
  then obtain s where s: "ps_inv s" "ps_packets s = [written kMsgDInfo (map Int_Arg [0, 0, 800, 600, 0, 400, 300])]"
    by (rule filter_with_packets)
  let ?q = "?p\<lparr>cp_stream := s\<rparr>"
  let ?l4 = "set_unknown 0 (?u3\<lparr>un_proxy := Some ?q\<rparr>) (?use ?l3)"
  have 4: "?L ?l4"
    by (rule go [OF 3, of "Proxy_Acts 0 ?q"])
      (simp_all add: cp_step.arrived proxy_acts_def accepted_defs li_init_def handle_input_def unless_fault_def)
  have hq: "cp_parser ?q = Handshake" "cp_handlers ?q"
    by (simp_all add: cp_new_def synchronizeLanguages_def setHeartbeatRate_def send_def cp_tell_def Let_def)
  obtain s1 s2 where r: "cp_handleData demo_cp_env ?q = Some (None, resetHeartbeatTimer ((addHeartbeatTimer (cp_tell Ev_Ready
    (send kMsgCInfoAck [] (?q\<lparr>cp_stream := s1, cp_parser := Messages,
      cp_info := \<lparr>ci_x = 0, ci_y = 0, ci_w = 800, ci_h = 600, ci_mx = 400, ci_my = 300\<rparr>\<rparr>))))\<lparr>cp_stream := s2\<rparr>))"
    using answer_round [OF _ hq(1) _ _ demo_answer, of demo_cp_env] s by (auto simp: demo_cp_env_def)
  let ?i = "\<lparr>ci_x = 0, ci_y = 0, ci_w = 800, ci_h = 600, ci_mx = 400, ci_my = 300\<rparr>"
  define p0 where "p0 = ?q\<lparr>cp_stream := s1, cp_parser := Messages, cp_info := ?i\<rparr>"
  define p1 where "p1 = resetHeartbeatTimer ((addHeartbeatTimer (cp_tell Ev_Ready (send kMsgCInfoAck [] p0)))\<lparr>cp_stream := s2\<rparr>)"
  have p0: "cp_log p0 = cp_log ?q" "cp_handlers p0" using hq(2) by (simp_all add: p0_def)
  have acts: "proxy_events 0 (drop (length (cp_log ?q)) (cp_log p1)) = [Proxy_Ready 0]" and h: "cp_handlers p1"
    using ready_effects(1) [where n = 0 and p = p0 and s = s2] ready_effects(2) [where p = p0 and s = s2] p0 by (simp_all add: p1_def)
  let ?l5 = "(set_unknown 0 (?u3\<lparr>un_proxy := Some p1\<rparr>) (?use ?l4))\<lparr>li_queue := [Proxy_Ready 0]\<rparr>"
  have 5: "?L ?l5"
  proof (rule go [OF 4, of "Proxy_Acts 0 p1"])
    show "enabled demo_listen (Proxy_Acts 0 p1) ?l4"
      using cp_step.data [OF hq(2) r] by (simp add: env p1_def p0_def)
    show "handle_input demo_listen (\<lambda>_. pf_init) (Proxy_Acts 0 p1) ?l4 = Some ?l5"
      using acts by (simp add: proxy_acts_def accepted_defs li_init_def set_unknown_def handle_input_def unless_fault_def)
  qed
  let ?u6 = "?u3\<lparr>un_proxy := Some p1, un_ready := True, un_timer := False\<rparr>"
  let ?l6 = "(set_unknown 0 ?u6 ?l5)\<lparr>li_queue := [Unknown_Success 0]\<rparr>"
  have 6: "?L ?l6"
    by (rule go [OF 5, of Next])
      (simp_all add: dispatch_next_def with_unknown_def sendSuccess_def set_unknown_def add_event_def handle_input_def unless_fault_def accepted_defs li_init_def)
  show thesis
    by (rule that [OF 6, of ?u6 p1]) (simp_all add: h accepted_defs li_init_def)
qed

lemma waiting_gone_fails_witness:
  "\<exists>l l'. listening demo_listen (\<lambda>_. pf_init) l \<and> handle_input demo_listen (\<lambda>_. pf_init) Next l = Some l' \<and>
    handle_input demo_listen (\<lambda>_. pf_init) Next l' = None"
proof -
  obtain l u p where l: "listening demo_listen (\<lambda>_. pf_init) l" "li_queue l = [Unknown_Success 0]" "li_new l 0 = Some u"
    "un_ready u" "un_proxy u = Some p" "cp_handlers p" by (rule demo_success)
  let ?p = "cp_disconnect p"
  let ?l = "set_unknown 0 (u\<lparr>un_proxy := Some ?p\<rparr>)
    ((use_object (Filter_Obj 0) l)\<lparr>li_queue := [Unknown_Success 0, Proxy_Disconnected 0]\<rparr>)"
  have ok: "\<not> li_fault l" "Filter_Obj 0 \<in> li_live l"
    using listening_inv [OF l(1)] l(3,5) by (auto simp: live_ok_def live_defs)
  have "proxy_events 0 (drop (length (cp_log p)) (cp_log ?p)) = [Proxy_Disconnected 0]"
    by (auto simp: cp_disconnect_def cp_removeHandlers_def timer_defs)
  then have "handle_input demo_listen (\<lambda>_. pf_init) (Proxy_Acts 0 ?p) l = Some ?l"
    using l ok by (simp add: proxy_acts_def handle_input_def unless_fault_def)
  moreover have "cp_step (l_proxy demo_listen) p ?p"
    using cp_step.hung_up [OF l(6)] by (simp add: cp_handleDisconnect_def)
  ultimately have r: "listening demo_listen (\<lambda>_. pf_init) ?l"
    using listening.input [OF l(1), of "Proxy_Acts 0 ?p"] l by auto
  then have "\<exists>l'. handle_input demo_listen (\<lambda>_. pf_init) Next ?l = Some l' \<and> handle_input demo_listen (\<lambda>_. pf_init) Next l' = None"
    using waiting_gone_fails [where n = 0 and es = "[]" and u = "u\<lparr>un_proxy := Some ?p\<rparr>" and p = ?p, OF r] l(4) by fastforce
  with r show ?thesis by blast
qed

lemma listener_safe_witness:
  "\<exists>(l :: packet_filter listener) p. li_adopted l = [(0, p)] \<and> Ev_Ready \<in> set (cp_log p) \<and> cp_version p \<le> 8"
proof -
  let ?in = "handle_input demo_listen (\<lambda>_. pf_init) Next"
  obtain l u p where l: "listening demo_listen (\<lambda>_. pf_init) l" "li_queue l = [Unknown_Success 0]" "li_new l 0 = Some u"
    "un_ready u" "un_proxy u = Some p" "li_waiting l = []" "li_adopted l = []" by (rule demo_success)
  have inv: "li_inv l" "live_ok l" using listening_inv [OF l(1)] by simp_all
  have st: "un_stream u = None" using one_owner [OF inv(1) l(3)] l(5) by simp
  obtain l1 where l1: "?in l = Some l1" "li_queue l1 = [Listener_Accepted]" "li_waiting l1 = [(0, p)]" "li_adopted l1 = []" "\<not> li_fault l1"
    using l st live_okD(1) [OF inv(2)] by (simp add: handle_input_def dispatch_next_def orphaned_step unless_fault_def)
  obtain l2 where l2: "?in l1 = Some l2" "li_adopted l2 = [(0, p)]"
    using l1 by (simp add: handle_input_def dispatch_next_def handleClientConnected_def getNextClient_def unless_fault_def)
  have "listening demo_listen (\<lambda>_. pf_init) l2"
    using listening.input [OF listening.input [OF l(1) _ l1(1)] _ l2(1)] by simp
  from listener_safe [OF this, of Next] l2(2) show ?thesis by auto
qed

lemma hello_agrees_witness:
  "\<exists>cenv (c :: packet_filter client) c'. handleHello cenv c = Some (Inr c') \<and> cl_server c'"
proof -
  let ?cenv = "\<lparr>c_resolve = \<lambda>_. Inr (1, True), c_create = Inr pf_init, c_connect = None, c_read = ps_rd, c_isReady = pf_is_ready,
    c_known_protocol = \<lambda>name. length name = 7, c_incompatible = \<lambda>_ _. ''incompatible'', c_cursor = \<lambda>_. (5, 6),
    c_getClipboard = \<lambda>_ _ cb. cb\<rparr>"
  let ?m = "written (''Barrier'' @ kMsgHelloArgs) version_args"
  obtain w where w: "writef_items [Spec 2 CHR ''i'', Spec 2 CHR ''i''] version_args = Some w" "length w = 4"
    using hello_wire(3) by blast
  have "?m = map of_char ''Barrier'' @ w"
    by (rule written_message [OF _ greeting_items(1) hello_wire(1) w(1)]) (simp_all add: w(2))
  then have "list_all sendable [?m]" by (simp add: sendable_small w(2))
  then obtain s where s: "ps_inv s" "ps_packets s = [?m]" by (rule filter_with_packets)
  let ?c = "(client_new [112])\<lparr>cl_stream := Some s\<rparr>"
  have c: "cl_stream ?c = Some s" "\<not> cl_server ?c" "length (cl_name ?c) \<le> 1000" by (simp_all add: client_new_def)
  have "Written 0 (''Barrier'' @ kMsgHelloArgs) version_args \<in> set (li_log (handleClientAccepted demo_listen 0 pf_init li_init))"
    by (simp add: accepted_defs demo_listen_def li_init_def version_args_def)
  from hello_agrees [OF _ _ _ _ _ _ _ c s _ this, of "''Barrier''" ?cenv]
  show ?thesis by (auto simp: demo_listen_def demo_cp_env_def li_init_def)
qed

end
