(* ===== verification/C_Text.thy ===== *)
theory C_Text
  imports Strings Floats
begin

text \<open>
  The text functions the configuration format rests on: positional and \<^verbatim>\<open>printf\<close>-style formatting of
  \<^verbatim>\<open>src/lib/base/String.cpp\<close>, and what the program uses of the C library: \<^verbatim>\<open>strtol\<close>, \<^verbatim>\<open>strtod\<close> and the
  character classes, in the C locale. A C string is the list of its characters before the
  terminating NUL. A position in a \<^verbatim>\<open>std::string\<close> is the suffix that begins there, so that
  \<^verbatim>\<open>find_first_of\<close> and \<^verbatim>\<open>find_first_not_of\<close> are \<open>dropWhile\<close> and \<^verbatim>\<open>npos\<close> is the empty suffix.
\<close>

section \<open>Characters\<close>

definition c_str :: "string \<Rightarrow> string" where
  "c_str s = takeWhile (\<lambda>c. c \<noteq> CHR 0x00) s"

definition char_code :: "char \<Rightarrow> nat" where
  "char_code c = of_char c"

definition is_space :: "char \<Rightarrow> bool" where
  "is_space c \<longleftrightarrow> char_code c = 32 \<or> 9 \<le> char_code c \<and> char_code c \<le> 13"

definition is_graph :: "char \<Rightarrow> bool" where
  "is_graph c \<longleftrightarrow> 33 \<le> char_code c \<and> char_code c \<le> 126"

text \<open>A blank is what the configuration format skips.\<close>

definition is_blank :: "char \<Rightarrow> bool" where
  "is_blank c \<longleftrightarrow> c = CHR '' '' \<or> c = CHR 0x09"

abbreviation skip_blanks :: "string \<Rightarrow> string" where
  "skip_blanks \<equiv> dropWhile is_blank"

text \<open>The last position whose character is no blank: the text up to it.\<close>

definition strip_end :: "(char \<Rightarrow> bool) \<Rightarrow> string \<Rightarrow> string" where
  "strip_end P s = rev (dropWhile P (rev s))"

section \<open>Numbers\<close>

definition digit_value :: "char \<Rightarrow> nat" where
  "digit_value c =
     (let n = char_code c in
      if 48 \<le> n \<and> n \<le> 57 then n - 48
      else if 65 \<le> n \<and> n \<le> 90 then n - 55
      else if 97 \<le> n \<and> n \<le> 122 then n - 87
      else 36)"

fun read_digits :: "nat \<Rightarrow> nat \<Rightarrow> string \<Rightarrow> nat \<times> string" where
  "read_digits b n [] = (n, [])"
| "read_digits b n (c # cs) =
     (if digit_value c < b then read_digits b (n * b + digit_value c) cs else (n, c # cs))"

fun read_sign :: "string \<Rightarrow> bool \<times> string" where
  "read_sign (c # cs) = (if c = CHR ''-'' then (True, cs) else if c = CHR ''+'' then (False, cs) else (False, c # cs))"
| "read_sign [] = (False, [])"

text \<open>\<open>0x\<close> before a hexadecimal digit.\<close>

fun hex_prefix :: "string \<Rightarrow> bool" where
  "hex_prefix (a # b # c # cs) =
     (a = CHR ''0'' \<and> (b = CHR ''x'' \<or> b = CHR ''X'') \<and> digit_value c < 16)"
| "hex_prefix _ = False"

text \<open>
  \<^verbatim>\<open>strtol\<close> with a \<^verbatim>\<open>long\<close> of 64 bits: the value, whether it was out of range (\<^verbatim>\<open>ERANGE\<close>, the value
  is then the nearest), and the text after the number, all of it when there is none.
\<close>

definition long_max :: int where "long_max = 2 ^ 63 - 1"
definition long_min :: int where "long_min = - (2 ^ 63)"

definition clamp_long :: "int \<Rightarrow> int" where
  "clamp_long v = (if v < long_min then long_min else if long_max < v then long_max else v)"

definition strtol :: "nat \<Rightarrow> string \<Rightarrow> int \<times> bool \<times> string" where
  "strtol b s =
     (let (neg, t) = read_sign (dropWhile is_space s);
          u = (if b = 16 \<and> hex_prefix t then drop 2 t else t) in
      if u = [] \<or> b \<le> digit_value (hd u) then (0, False, s)
      else (let (n, r) = read_digits b 0 u; v = (if neg then - int n else int n) in
            (clamp_long v, clamp_long v \<noteq> v, r)))"

text \<open>
  \<^verbatim>\<open>strtod\<close>: decimal and hexadecimal numbers, infinities and NaN. The value is rounded to
  binary64; a number too large is infinite.
\<close>

datatype dbl = Fin rat | PInf | MInf | NaN

definition dbl_less :: "dbl \<Rightarrow> dbl \<Rightarrow> bool" where
  "dbl_less a b =
     (case (a, b) of
        (Fin x, Fin y) \<Rightarrow> x < y
      | (Fin x, PInf) \<Rightarrow> True
      | (MInf, Fin y) \<Rightarrow> True
      | (MInf, PInf) \<Rightarrow> True
      | _ \<Rightarrow> False)"

definition dbl_le :: "dbl \<Rightarrow> dbl \<Rightarrow> bool" where
  "dbl_le a b \<longleftrightarrow> a \<noteq> NaN \<and> b \<noteq> NaN \<and> (a = b \<or> dbl_less a b)"

definition to_dbl :: "bool \<Rightarrow> rat \<Rightarrow> dbl" where
  "to_dbl neg x =
     (let y = f64 x in
      if 2 ^ 1024 \<le> y then (if neg then MInf else PInf) else Fin (if neg then - y else y))"

text \<open>The digits after a point with their number; the point counts only beside a digit.\<close>

definition read_mantissa :: "nat \<Rightarrow> string \<Rightarrow> (nat \<times> nat \<times> string) option" where
  "read_mantissa b s =
     (let (n, r) = read_digits b 0 s; k = length s - length r in
      if r \<noteq> [] \<and> hd r = CHR ''.''
      then (let (n', r') = read_digits b n (tl r); k' = length (tl r) - length r' in
            if k = 0 \<and> k' = 0 then None else Some (n', k', r'))
      else if k = 0 then None else Some (n, 0, r))"

text \<open>The exponent, if the marker is followed by one.\<close>

definition read_exponent :: "char list \<Rightarrow> string \<Rightarrow> int \<times> string" where
  "read_exponent marks s =
     (if s \<noteq> [] \<and> hd s \<in> set marks
      then (let (neg, t) = read_sign (tl s) in
            if t \<noteq> [] \<and> digit_value (hd t) < 10
            then (let (n, r) = read_digits 10 0 t in (if neg then - int n else int n, r))
            else (0, s))
      else (0, s))"

definition power_int_rat :: "rat \<Rightarrow> int \<Rightarrow> rat" where
  "power_int_rat x k = (if 0 \<le> k then x ^ nat k else 1 / x ^ nat (- k))"

definition word_prefix :: "string \<Rightarrow> string \<Rightarrow> bool" where
  "word_prefix w s \<longleftrightarrow> caseless_equal w (take (length w) s)"

definition strtod :: "string \<Rightarrow> dbl \<times> string" where
  "strtod s =
     (let (neg, t) = read_sign (dropWhile is_space s) in
      if word_prefix ''infinity'' t then (if neg then MInf else PInf, drop 8 t)
      else if word_prefix ''inf'' t then (if neg then MInf else PInf, drop 3 t)
      else if word_prefix ''nan'' t then
        (let u = drop 3 t; v = dropWhile (\<lambda>c. digit_value c < 36 \<or> c = CHR ''_'') (tl u) in
         (NaN, if u \<noteq> [] \<and> hd u = CHR ''('' \<and> v \<noteq> [] \<and> hd v = CHR '')'' then tl v else u))
      else if word_prefix ''0x'' t \<and> read_mantissa 16 (drop 2 t) \<noteq> None then
        (case read_mantissa 16 (drop 2 t) of
           Some (n, k, r) \<Rightarrow>
             (let (e, r') = read_exponent ''pP'' r in
              (to_dbl neg (of_nat n * power_int_rat 2 (e - 4 * int k)), r'))
         | None \<Rightarrow> (Fin 0, s))
      else
        (case read_mantissa 10 t of
           Some (n, k, r) \<Rightarrow>
             (let (e, r') = read_exponent ''eE'' r in
              (to_dbl neg (of_nat n * power_int_rat 10 (e - int k)), r'))
         | None \<Rightarrow> (Fin 0, s)))"

section \<open>Printing\<close>

text \<open>The digits of a number, most significant first: \<^verbatim>\<open>%d\<close> and \<^verbatim>\<open>%04x\<close>.\<close>

definition digit_char :: "nat \<Rightarrow> char" where
  "digit_char d = (if d < 10 then char_of (d + 48) else char_of (d + 87))"

fun print_nat :: "nat \<Rightarrow> nat \<Rightarrow> string" where
  "print_nat b n =
     (if n < b \<or> b < 2 then [digit_char n] else print_nat b (n div b) @ [digit_char (n mod b)])"

declare print_nat.simps [simp del]

definition print_int :: "int \<Rightarrow> string" where
  "print_int i = (if i < 0 then ''-'' @ print_nat 10 (nat (- i)) else print_nat 10 (nat i))"

definition print_hex4 :: "nat \<Rightarrow> string" where
  "print_hex4 n = (let s = print_nat 16 n in replicate (4 - length s) CHR ''0'' @ s)"

text \<open>
  \<^verbatim>\<open>deskflow::string::sprintf\<close>: \<open>t\<close> is what \<^verbatim>\<open>vsnprintf\<close> would print with enough room. It returns the
  length of \<open>t\<close> and stores as much of it as fits beside the terminating NUL; the buffer grows
  while that length is more than its size.
\<close>

function sprintf_loop :: "nat \<Rightarrow> string \<Rightarrow> string" where
  "sprintf_loop len t =
     (if len < length t \<and> 0 < len then sprintf_loop (2 * len) t else take (len - 1) t)"
  by pat_completeness auto
termination by (relation "measure (\<lambda>(len, t). length t - len)") auto

declare sprintf_loop.simps [simp del]

definition c_sprintf :: "string \<Rightarrow> string" where
  "c_sprintf t = sprintf_loop 1024 t"

text \<open>
  \<^verbatim>\<open>deskflow::string::vformat\<close>. The first loop collects the substitutions (the index of the
  argument, the position and the width of the directive) and counts its own turns; \<open>n\<close> is the
  position of the text left.
\<close>

lemma read_digits_length: "read_digits b n s = (m, r) \<Longrightarrow> length r \<le> length s"
  by (induction b n s rule: read_digits.induct) (auto split: if_splits)

lemma read_sign_length: "read_sign s = (neg, r) \<Longrightarrow> length r \<le> length s"
  by (cases s) (auto split: if_splits)

lemma strtol_length: "strtol b s = (v, e, r) \<Longrightarrow> length r \<le> length s"
proof -
  assume st: "strtol b s = (v, e, r)"
  obtain neg t where t: "read_sign (dropWhile is_space s) = (neg, t)" by force
  let ?u = "if b = 16 \<and> hex_prefix t then drop 2 t else t"
  obtain n q where q: "read_digits b 0 ?u = (n, q)" by force
  have "length t \<le> length s"
    using read_sign_length [OF t] length_dropWhile_le [of is_space s] by linarith
  moreover have "length ?u \<le> length t" by simp
  ultimately have "length q \<le> length s" using read_digits_length [OF q] by linarith
  then show ?thesis using st t q by (auto simp: strtol_def Let_def split: if_splits)
qed

type_synonym subst = "nat \<times> nat \<times> nat"

fun turn :: "subst list \<Rightarrow> subst list \<times> nat \<Rightarrow> subst list \<times> nat" where
  "turn new (subs, l) = (new @ subs, Suc l)"

function scan_format :: "string \<Rightarrow> nat \<Rightarrow> subst list \<times> nat" where
  "scan_format [] n = ([], 0)"
| "scan_format [c] n = (if c = CHR ''%'' then ([], 0) else turn [] (scan_format [] (n + 1)))"
| "scan_format (c # d # ds) n =
     (if c \<noteq> CHR ''%'' then turn [] (scan_format (d # ds) (n + 1))
      else if d = CHR ''%'' then turn [(0, n, 2)] (scan_format ds (n + 2))
      else if d = CHR ''{'' then
        (case strtol 10 ds of (i, out, r) \<Rightarrow>
          (let k = length ds - length r in
           if out \<or> i < 0 \<or> r = [] \<or> hd r \<noteq> CHR ''}'' then turn [] (scan_format r (n + 2 + k))
           else turn [(nat i, n, k + 3)] (scan_format (tl r) (n + 3 + k))))
      else turn [] (scan_format ds (n + 2)))"
  by pat_completeness auto
termination
  by (relation "measure (\<lambda>(s, n). length s)") (auto dest!: sym [of "(_, _, _)"] strtol_length)

text \<open>
  The arguments the directives name must exist. The length computed for \<^verbatim>\<open>reserve\<close> is an unsigned
  number: below zero it wraps, and \<^verbatim>\<open>reserve\<close> throws.
\<close>

fun substitute :: "string \<Rightarrow> string list \<Rightarrow> nat \<Rightarrow> subst list \<Rightarrow> string" where
  "substitute fmt value src [] = drop src fmt"
| "substitute fmt value src ((i, p, w) # subs) =
     take (p - src) (drop src fmt) @ value ! i @ substitute fmt value (p + w) subs"

definition format_length :: "string list \<Rightarrow> subst list \<Rightarrow> nat \<Rightarrow> int" where
  "format_length value subs l =
     int l - sum_list (map (\<lambda>(i, p, w). int w) subs) + sum_list (map (\<lambda>(i, p, w). int (length (value ! i))) subs)"

definition vformat :: "string \<Rightarrow> string list \<Rightarrow> string option" where
  "vformat fmt args =
     (let (subs, l) = scan_format fmt 0; value = ''%'' # map c_str args in
      if \<exists>(i, p, w)\<in>set subs. length args < i then None
      else if format_length value subs l < 0 then None
      else Some (substitute fmt value 0 subs))"

section \<open>Laws\<close>

lemma c_str_id: "CHR 0x00 \<notin> set s \<Longrightarrow> c_str s = s"
  by (auto simp: c_str_def takeWhile_eq_all_conv)

lemma c_sprintf_short: "length t < 1024 \<Longrightarrow> c_sprintf t = t"
  by (simp add: c_sprintf_def sprintf_loop.simps [of 1024 t])

text \<open>A text as long as the buffer loses its last character: the test should be \<open>n >= len\<close>.\<close>

lemma c_sprintf_full: "length t = 1024 \<Longrightarrow> c_sprintf t = butlast t"
  by (simp add: c_sprintf_def sprintf_loop.simps [of 1024 t] butlast_conv_take)

lemma skip_blanks_id: "s = [] \<or> \<not> is_blank (hd s) \<Longrightarrow> skip_blanks s = s"
  by (cases s) auto

lemma takeWhile_before: "(\<forall>c\<in>set s. P c) \<Longrightarrow> r = [] \<or> \<not> P (hd r) \<Longrightarrow> takeWhile P (s @ r) = s"
  and dropWhile_before: "(\<forall>c\<in>set s. P c) \<Longrightarrow> r = [] \<or> \<not> P (hd r) \<Longrightarrow> dropWhile P (s @ r) = r"
  by (cases r; simp add: takeWhile_append2 dropWhile_append2)+

subsection \<open>Numbers read back\<close>

lemma digit_char_value: "d < 16 \<Longrightarrow> digit_value (digit_char d) = d"
  by (auto simp: digit_value_def digit_char_def char_code_def Let_def)

lemma read_digits_foldl:
  assumes "\<forall>c\<in>set s. digit_value c < b" and "r = [] \<or> b \<le> digit_value (hd r)"
  shows "read_digits b n (s @ r) = (foldl (\<lambda>a c. a * b + digit_value c) n s, r)"
  using assms by (induction s arbitrary: n) (cases r; simp)+

lemma print_nat_digits:
  assumes "2 \<le> b" and "b \<le> 16" and "c \<in> set (print_nat b n)"
  shows "digit_value c < b \<and> (\<exists>d<b. c = digit_char d)"
  using assms
proof (induction b n rule: print_nat.induct)
  case (1 b n)
  show ?case
  proof (cases "n < b")
    case True
    with 1 show ?thesis by (auto simp: print_nat.simps [of b n] digit_char_value)
  next
    case False
    then have "c \<in> set (print_nat b (n div b)) \<or> c = digit_char (n mod b)"
      using 1(2-4) by (auto simp: print_nat.simps [of b n])
    then show ?thesis
    proof
      assume "c \<in> set (print_nat b (n div b))"
      then show ?thesis using 1(1) [OF _ 1(2,3)] 1(2) False by auto
    next
      assume c: "c = digit_char (n mod b)"
      have "n mod b < b" using 1(2) by simp
      moreover from this 1(3) have "n mod b < 16" by linarith
      ultimately show ?thesis using c digit_char_value [of "n mod b"] by (metis (full_types))
    qed
  qed
qed

lemma print_nat_foldl:
  assumes "2 \<le> b" and "b \<le> 16"
  shows "foldl (\<lambda>a c. a * b + digit_value c) a (print_nat b n) = a * b ^ length (print_nat b n) + n"
  using assms
proof (induction b n arbitrary: a rule: print_nat.induct)
  case (1 b n)
  show ?case
  proof (cases "n < b")
    case True
    with 1 show ?thesis by (simp add: print_nat.simps [of b n] digit_char_value)
  next
    case False
    have "n mod b < 16" using 1(2,3) by (meson mod_less_divisor less_le_trans pos2 less_le_trans)
    with False 1 show ?thesis
      by (simp add: print_nat.simps [of b n] digit_char_value algebra_simps)
  qed
qed

lemma print_nat_length: "2 \<le> b \<Longrightarrow> n < b ^ Suc k \<Longrightarrow> length (print_nat b n) \<le> Suc k"
proof (induction k arbitrary: n)
  case 0
  then show ?case by (simp add: print_nat.simps [of b n])
next
  case (Suc k)
  then have "n div b < b ^ Suc k" by (simp add: less_mult_imp_div_less mult.commute)
  with Suc show ?case by (simp add: print_nat.simps [of b n])
qed

lemma print_nat_bound: "2 \<le> b \<Longrightarrow> n < b ^ length (print_nat b n)"
proof (induction b n rule: print_nat.induct)
  case (1 b n)
  show ?case
  proof (cases "n < b")
    case True
    then show ?thesis by (simp add: print_nat.simps [of b n])
  next
    case False
    let ?p = "b ^ length (print_nat b (n div b))"
    have "n div b < ?p" using 1 False by simp
    then have "n < ?p * b" using 1(2) by (simp add: div_less_iff_less_mult)
    then show ?thesis using False 1(2) by (simp add: print_nat.simps [of b n] mult.commute)
  qed
qed

lemma print_nat_nonempty [simp]: "print_nat b n \<noteq> []"
  by (simp add: print_nat.simps [of b n])

lemma hex_prefix_digits: "\<forall>c\<in>set t. digit_value c < 16 \<Longrightarrow> \<not> hex_prefix t"
  by (cases t rule: hex_prefix.cases) (auto simp: digit_value_def char_code_def Let_def)

lemma digit_no_sign: "digit_value c < 36 \<Longrightarrow> \<not> is_space c \<and> c \<noteq> CHR ''-'' \<and> c \<noteq> CHR ''+'' \<and> c \<noteq> CHR 0x00"
  by (auto simp: digit_value_def is_space_def char_code_def Let_def split: if_splits)

lemma strtol_digits:
  assumes "t \<noteq> []" and "\<forall>c\<in>set t. digit_value c < b" and "b \<le> 16"
    and "r = [] \<or> b \<le> digit_value (hd r)" and "b = 16 \<Longrightarrow> r = []"
    and "foldl (\<lambda>a c. a * b + digit_value c) 0 t = n" and "int n \<le> long_max"
  shows "strtol b (t @ r) = (int n, False, r)"
proof -
  have hd: "digit_value (hd t) < b" using assms(1,2) by simp
  then have "digit_value (hd t) < 36" using assms(3) by linarith
  note d = digit_no_sign [OF this]
  have "dropWhile is_space (t @ r) = t @ r" using d assms(1) by (cases t) auto
  moreover have "read_sign (t @ r) = (False, t @ r)" using d assms(1) by (cases t) auto
  moreover have "\<not> (b = 16 \<and> hex_prefix (t @ r))" using hex_prefix_digits [of t] assms(2,5) by auto
  moreover have "long_min \<le> int n" by (simp add: long_min_def)
  ultimately show ?thesis
    using hd assms(1,6,7) read_digits_foldl [OF assms(2,4), of 0]
    by (auto simp: strtol_def Let_def clamp_long_def)
qed

lemma strtol_print_nat:
  assumes "2 \<le> b" and "b \<le> 16" and "r = [] \<or> b \<le> digit_value (hd r)" and "b = 16 \<Longrightarrow> r = []"
    and "int n \<le> long_max"
  shows "strtol b (print_nat b n @ r) = (int n, False, r)"
  using print_nat_digits [OF assms(1,2)] print_nat_foldl [OF assms(1,2), of 0 n] assms
  by (intro strtol_digits) auto

lemma strtol_print_int:
  assumes "r = [] \<or> 10 \<le> digit_value (hd r)" and "long_min \<le> i" and "i \<le> long_max"
  shows "strtol 10 (print_int i @ r) = (i, False, r)"
proof (cases "i < 0")
  case True
  let ?t = "print_nat 10 (nat (- i))"
  have digits: "\<forall>c\<in>set ?t. digit_value c < 10" using print_nat_digits [of 10] by auto
  moreover have "hd ?t \<in> set ?t" by simp
  ultimately have "digit_value (hd ?t) < 10" by blast
  moreover have "hd (?t @ r) = hd ?t" by simp
  ultimately show ?thesis
    using True assms read_digits_foldl [OF digits assms(1), of 0] print_nat_foldl [of 10 0 "nat (- i)"]
    by (simp add: strtol_def print_int_def is_space_def char_code_def clamp_long_def)
next
  case False
  then show ?thesis using assms strtol_print_nat [of 10 r "nat i"] by (simp add: print_int_def)
qed

end
