(* ===== verification/Key_Names.thy ===== *)
theory Key_Names
  imports C_Text Key_Ids
begin

text \<open>
  The names of keys and modifiers in the configuration: the tables of \<^verbatim>\<open>src/lib/deskflow/KeyTypes.cpp\<close>
  and \<^verbatim>\<open>KeyMap::formatKey\<close>, \<^verbatim>\<open>parseKey\<close> and \<^verbatim>\<open>parseModifiers\<close>. The maps made from the tables are
  searched without regard to case; of two entries with one key the later one counts.
\<close>

section \<open>Tables\<close>

definition kKeyNameMap :: "(string \<times> u32) list" where
  "kKeyNameMap = [
    (''AltGr'', 0xef7e), (''Alt_L'', 0xefe9), (''Alt_R'', 0xefea), (''AppMail'', 0xe0b4),
    (''AppMedia'', 0xe0b5), (''AppUser1'', 0xe0b6), (''AppUser2'', 0xe0b7),
    (''AudioDown'', 0xe0ae), (''AudioMute'', 0xe0ad), (''AudioNext'', 0xe0b0),
    (''AudioPlay'', 0xe0b3), (''AudioPrev'', 0xe0b1), (''AudioStop'', 0xe0b2),
    (''AudioUp'', 0xe0af), (''BackSpace'', 0xef08), (''Begin'', 0xef58), (''Break'', 0xef6b),
    (''Cancel'', 0xef69), (''CapsLock'', 0xefe5), (''Clear'', 0xef0b), (''Control_L'', 0xefe3),
    (''Control_R'', 0xefe4), (''Delete'', 0xefff), (''Down'', 0xef54), (''Eject'', 0xe001),
    (''End'', 0xef57), (''Escape'', 0xef1b), (''Execute'', 0xef62), (''F1'', 0xefbe),
    (''F2'', 0xefbf), (''F3'', 0xefc0), (''F4'', 0xefc1), (''F5'', 0xefc2), (''F6'', 0xefc3),
    (''F7'', 0xefc4), (''F8'', 0xefc5), (''F9'', 0xefc6), (''F10'', 0xefc7), (''F11'', 0xefc8),
    (''F12'', 0xefc9), (''F13'', 0xefca), (''F14'', 0xefcb), (''F15'', 0xefcc),
    (''F16'', 0xefcd), (''F17'', 0xefce), (''F18'', 0xefcf), (''F19'', 0xefd0),
    (''F20'', 0xefd1), (''F21'', 0xefd2), (''F22'', 0xefd3), (''F23'', 0xefd4),
    (''F24'', 0xefd5), (''F25'', 0xefd6), (''F26'', 0xefd7), (''F27'', 0xefd8),
    (''F28'', 0xefd9), (''F29'', 0xefda), (''F30'', 0xefdb), (''F31'', 0xefdc),
    (''F32'', 0xefdd), (''F33'', 0xefde), (''F34'', 0xefdf), (''F35'', 0xefe0),
    (''Find'', 0xef68), (''Help'', 0xef6a), (''Henkan'', 0xef23), (''Home'', 0xef50),
    (''Hyper_L'', 0xefed), (''Hyper_R'', 0xefee), (''Insert'', 0xef63), (''KP_0'', 0xefb0),
    (''KP_1'', 0xefb1), (''KP_2'', 0xefb2), (''KP_3'', 0xefb3), (''KP_4'', 0xefb4),
    (''KP_5'', 0xefb5), (''KP_6'', 0xefb6), (''KP_7'', 0xefb7), (''KP_8'', 0xefb8),
    (''KP_9'', 0xefb9), (''KP_Add'', 0xefab), (''KP_Begin'', 0xef9d), (''KP_Decimal'', 0xefae),
    (''KP_Delete'', 0xef9f), (''KP_Divide'', 0xefaf), (''KP_Down'', 0xef99),
    (''KP_End'', 0xef9c), (''KP_Enter'', 0xef8d), (''KP_Equal'', 0xefbd), (''KP_F1'', 0xef91),
    (''KP_F2'', 0xef92), (''KP_F3'', 0xef93), (''KP_F4'', 0xef94), (''KP_Home'', 0xef95),
    (''KP_Insert'', 0xef9e), (''KP_Left'', 0xef96), (''KP_Multiply'', 0xefaa),
    (''KP_PageDown'', 0xef9b), (''KP_PageUp'', 0xef9a), (''KP_Right'', 0xef98),
    (''KP_Separator'', 0xefac), (''KP_Space'', 0xef80), (''KP_Subtract'', 0xefad),
    (''KP_Tab'', 0xef89), (''KP_Up'', 0xef97), (''Left'', 0xef51), (''LeftTab'', 0xee20),
    (''Linefeed'', 0xef0a), (''Menu'', 0xef67), (''Meta_L'', 0xefe7), (''Meta_R'', 0xefe8),
    (''NumLock'', 0xef7f), (''PageDown'', 0xef56), (''PageUp'', 0xef55), (''Pause'', 0xef13),
    (''Print'', 0xef61), (''Redo'', 0xef66), (''Return'', 0xef0d), (''Right'', 0xef53),
    (''ScrollLock'', 0xef14), (''Select'', 0xef60), (''ShiftLock'', 0xefe6),
    (''Shift_L'', 0xefe1), (''Shift_R'', 0xefe2), (''Sleep'', 0xe05f), (''Super_L'', 0xefeb),
    (''Super_R'', 0xefec), (''SysReq'', 0xef15), (''Tab'', 0xef09), (''Undo'', 0xef65),
    (''Up'', 0xef52), (''WWWBack'', 0xe0a6), (''WWWFavorites'', 0xe0ab),
    (''WWWForward'', 0xe0a7), (''WWWHome'', 0xe0ac), (''WWWRefresh'', 0xe0a8),
    (''WWWSearch'', 0xe0aa), (''WWWStop'', 0xe0a9), (''Zenkaku'', 0xef2a), (''Space'', 0x0020),
    (''Exclaim'', 0x0021), (''DoubleQuote'', 0x0022), (''Number'', 0x0023), (''Dollar'', 0x0024),
    (''Percent'', 0x0025), (''Ampersand'', 0x0026), (''Apostrophe'', 0x0027),
    (''ParenthesisL'', 0x0028), (''ParenthesisR'', 0x0029), (''Asterisk'', 0x002a),
    (''Plus'', 0x002b), (''Comma'', 0x002c), (''Minus'', 0x002d), (''Period'', 0x002e),
    (''Slash'', 0x002f), (''Colon'', 0x003a), (''Semicolon'', 0x003b), (''Less'', 0x003c),
    (''Equal'', 0x003d), (''Greater'', 0x003e), (''Question'', 0x003f), (''At'', 0x0040),
    (''BracketL'', 0x005b), (''Backslash'', 0x005c), (''BracketR'', 0x005d),
    (''Circumflex'', 0x005e), (''Underscore'', 0x005f), (''Grave'', 0x0060),
    (''BraceL'', 0x007b), (''Bar'', 0x007c), (''BraceR'', 0x007d), (''Tilde'', 0x007e)]"

definition kModifierNameMap :: "(string \<times> u32) list" where
  "kModifierNameMap = [
    (''Alt'', 0x0004), (''AltGr'', 0x0020), (''Control'', 0x0002), (''Meta'', 0x0008),
    (''Shift'', 0x0001), (''Super'', 0x0010)]"

text \<open>The four maps: by name, and by number.\<close>

definition by_name :: "(string \<times> u32) list \<Rightarrow> string \<Rightarrow> u32 option" where
  "by_name t x = map_option snd (find (\<lambda>(n, v). caseless_equal n x) (rev t))"

definition by_number :: "(string \<times> u32) list \<Rightarrow> u32 \<Rightarrow> string option" where
  "by_number t k = map_option fst (find (\<lambda>(n, v). v = k) (rev t))"

section \<open>Operations\<close>

definition isDeadKey :: "u32 \<Rightarrow> bool" where
  "isDeadKey key \<longleftrightarrow> key = 0xef20 \<or> 0x0300 \<le> key \<and> key \<le> 0x036f"

definition getDeadKey :: "u32 \<Rightarrow> u32" where
  "getDeadKey key =
     (if isDeadKey key then key
      else if key = 0x60 then 0x0300
      else if key = 0x27 \<or> key = 0xb4 then 0x0301
      else if key = 0x5e \<or> key = 0x2c6 then 0x0302
      else if key = 0x7e \<or> key = 0x2dc then 0x0303
      else if key = 0xaf then 0x0304
      else if key = 0x2d8 then 0x0306
      else if key = 0x2d9 then 0x0307
      else if key = 0xa8 then 0x0308
      else if key = 0xb0 \<or> key = 0x2da then 0x030a
      else if key = 0x22 \<or> key = 0x2dd then 0x030b
      else if key = 0x2c7 then 0x030c
      else if key = 0xb8 then 0x0327
      else if key = 0x2db then 0x0328
      else kKeyNone)"

text \<open>The names of the modifiers, each with a plus, in the order of their bits.\<close>

definition format_modifiers :: "u32 \<Rightarrow> string" where
  "format_modifiers m =
     concat (map (\<lambda>i. case by_number kModifierNameMap (push_bit i 1) of
                     None \<Rightarrow> []
                   | Some n \<Rightarrow> if bit m i then n @ ''+'' else [])
       [0..<16])"

definition format_key_name :: "u32 \<Rightarrow> string" where
  "format_key_name key =
     (case by_number kKeyNameMap key of
        Some n \<Rightarrow> n
      | None \<Rightarrow> if 33 \<le> key \<and> key < 127 then [char_of (unat key)]
                else c_sprintf (CHR 0x5C # ''u'' @ print_hex4 (unat key)))"

definition formatKey :: "u32 \<Rightarrow> u32 \<Rightarrow> string" where
  "formatKey key m =
     (let x = format_modifiers m in
      if key \<noteq> kKeyNone then x @ format_key_name key
      else if x \<noteq> [] then butlast x else x)"

definition parseKey :: "string \<Rightarrow> u32 option" where
  "parseKey x =
     (case by_name kKeyNameMap x of
        Some k \<Rightarrow> Some k
      | None \<Rightarrow>
          if length x = 1 then (if is_graph (hd x) then Some (word_of_int (char_value (hd x))) else None)
          else if length x = 6 \<and> x ! 0 = CHR 0x5C \<and> x ! 1 = CHR ''u''
          then (case strtol 16 (c_str (drop 2 x)) of (v, out, r) \<Rightarrow> if r = [] then Some (word_of_int v) else None)
          else if x = [] then Some kKeyNone
          else None)"

text \<open>The text left after the modifiers, and their mask; \<^const>\<open>None\<close> is the result \<^verbatim>\<open>false\<close>.\<close>

definition ends_component :: "char \<Rightarrow> bool" where
  "ends_component c \<longleftrightarrow> is_blank c \<or> c = CHR ''+'' \<or> c = CHR '')''"

function parse_modifiers_loop :: "string \<Rightarrow> u32 \<Rightarrow> (string \<times> u32) option" where
  "parse_modifiers_loop x m =
     (if x = [] then Some ([], m)
      else
        let c = takeWhile (\<lambda>a. \<not> ends_component a) x; r = dropWhile (\<lambda>a. \<not> ends_component a) x in
        if c = [] then (if hd x = CHR ''+'' then Some (x, m) else None)
        else
          case by_name kModifierNameMap c of
            None \<Rightarrow> Some (strip_end is_blank (skip_blanks x), m)
          | Some b \<Rightarrow>
              if m AND b \<noteq> 0 then None
              else
                let t = skip_blanks r in
                if t = [] then Some ([], m OR b)
                else if hd t \<noteq> CHR ''+'' then None
                else parse_modifiers_loop (skip_blanks (tl t)) (m OR b))"
  by pat_completeness auto
termination
proof (relation "measure (\<lambda>(x, m). length x)")
  fix x m c r b t
  assume "x \<noteq> []" "r = dropWhile (\<lambda>a. \<not> ends_component a) x" "t = skip_blanks r" "t \<noteq> []"
  then have "length t \<le> length r" "length r \<le> length x" "0 < length t"
    by (simp_all only: length_dropWhile_le length_greater_0_conv not_False_eq_True)
  moreover have "length (skip_blanks (tl t)) \<le> length t - 1"
    using length_dropWhile_le [of is_blank "tl t"] by simp
  ultimately have "length (skip_blanks (tl t)) < length x" by linarith
  then show "((skip_blanks (tl t), m OR b), x, m) \<in> measure (\<lambda>(x, m). length x)" by simp
qed simp

declare parse_modifiers_loop.simps [simp del]

definition parseModifiers :: "string \<Rightarrow> (string \<times> u32) option" where
  "parseModifiers x = parse_modifiers_loop (skip_blanks x) 0"

end
