(* ===== verification/Key_Names_Props.thy ===== *)
theory Key_Names_Props
  imports Key_Names
begin

text \<open>
  Names of keys are read back as they are written. The tables are compared through numbers made of
  the lower-case letters of each name.
\<close>

section \<open>The tables\<close>

definition name_code :: "string \<Rightarrow> int" where
  "name_code n = foldl (\<lambda>a c. a * 256 + to_lower c) 0 n"

lemma name_code_caseless: "caseless_equal a b \<Longrightarrow> name_code a = name_code b"
proof -
  have code: "name_code n = foldl (\<lambda>a v. a * 256 + v) 0 (map to_lower n)" for n
    by (simp add: name_code_def foldl_map)
  assume "caseless_equal a b"
  then show ?thesis by (simp add: code caseless_equal_iff)
qed

lemma key_codes: "map (name_code \<circ> fst) kKeyNameMap = [
    418431395698, 418431393644, 418431393650, 27426700914682220, 7021235434225428833,
    7021235468820116017, 7021235468820116018, 1797793177077082453870, 1797793177077233841253,
    1797793177077249570932, 1797793177077283578233, 1797793177077283972470,
    1797793177077334437744, 27432146867025264, 1814798490011460264805, 422608071022, 422826041707,
    109270114985324, 7161128523538588523, 427020345714, 1834257146517738250092,
    1834257146517738250098, 110386773062757, 1685026670, 435576726388, 6647396, 111546262974565,
    28561349503448165, 26161, 26162, 26163, 26164, 26165, 26166, 26167, 26168, 26169, 6697264,
    6697265, 6697266, 6697267, 6697268, 6697269, 6697270, 6697271, 6697272, 6697273, 6697520,
    6697521, 6697522, 6697523, 6697524, 6697525, 6697526, 6697527, 6697528, 6697529, 6697776,
    6697777, 6697778, 6697779, 6697780, 6697781, 1718185572, 1751477360, 114784853516654,
    1752132965, 29406921223200620, 29406921223200626, 115923103347316, 1802526512, 1802526513,
    1802526514, 1802526515, 1802526516, 1802526517, 1802526518, 1802526519, 1802526520,
    1802526521, 118130380727396, 7741792635662592366, 507366122733716426809708,
    1981898916928730526821, 1981898916946078426213, 30241377517270894, 118130380992100,
    7741792648699340146, 7741792648749736300, 461446800945, 461446800946, 461446800947,
    461446800948, 30241377584377189, 1981898922465060811380, 30241377650828916,
    129885728072863294015171705, 129885728283401014528145262, 1981898930105606305136,
    7741792704449177716, 33250746496181651253123903346, 7741792708861191013,
    129885728505197863276471156, 118130381971810, 461446804848, 1818584692, 30510788199604578,
    7811896410439509348, 1835363957, 120282511662956, 120282511662962, 31091360269296491,
    8097867290163246958, 123563648841072, 482671424357, 482955849332, 1919247471, 125780071117422,
    491394656372, 544906619121962115359595, 126879447475060, 2128899225779319038827,
    32484424221482860, 32484424221482866, 495739823472, 32498747920506732, 32498747920506738,
    126965465113969, 7627106, 1970168943, 30064, 33626876863931243, 36973142191476484262310733171,
    564165377692934774813284, 33626876965514597, 564165381059587755832168, 2203771020863442412392,
    33626877150392176, 34451472081054581, 495806669669, 28561341063194989,
    121418930002273123284513893, 121450625394034, 110429723189618, 31636739359862388,
    1797220089639588687460, 460143615065206431967333, 34780127125352566537748837228,
    34780127125352566537748837234, 7022084223060767595, 1886156147, 427071204705, 469920281971,
    123581013520228, 495739564904, 427071139694, 2128684182122682675054, 1818588019, 435695214956,
    29117702353479026, 8175552245109714798, 24948, 7093839442693420140, 1814798490011393160040,
    7093839442693420146, 469459432492690127480184, 554553254658072896303717, 444300621413,
    108243399697772, 6447474, 108243399697778, 499984917605]"
  unfolding kKeyNameMap_def list.map comp_def fst_conv name_code_def foldl.simps to_lower_def
    char_value_def Let_def
  by simp

lemma modifier_codes: "map (name_code \<circ> fst) kModifierNameMap = [6384756, 418431395698, 27988542885097324, 1835365473, 495672977012, 495891539314]"
  unfolding kModifierNameMap_def list.map comp_def fst_conv name_code_def foldl.simps to_lower_def
    char_value_def Let_def
  by simp

lemma key_codes_distinct: "distinct (map (name_code \<circ> fst) kKeyNameMap)"
  unfolding key_codes by simp

lemma modifier_codes_distinct: "distinct (map (name_code \<circ> fst) kModifierNameMap)"
  unfolding modifier_codes by simp

text \<open>One name stands for a key and for a modifier.\<close>

lemma common_codes:
  "list_all (\<lambda>c. c \<noteq> 6384756 \<and> c \<noteq> 27988542885097324 \<and> c \<noteq> 1835365473 \<and> c \<noteq> 495672977012 \<and> c \<noteq> 495891539314)
    (map (name_code \<circ> fst) kKeyNameMap)"
  unfolding key_codes by simp

lemma find_SomeD: "find P xs = Some x \<Longrightarrow> x \<in> set xs \<and> P x"
  by (induction xs) (auto split: if_splits)

lemma find_unique:
  assumes "x \<in> set xs" and "P x" and "\<And>y. y \<in> set xs \<Longrightarrow> P y \<Longrightarrow> y = x"
  shows "find P xs = Some x"
proof (cases "find P xs")
  case None
  then show ?thesis using assms(1,2) by (simp add: find_None_iff)
next
  case (Some y)
  then show ?thesis using find_SomeD [OF Some] assms(3) by simp
qed

lemma by_name_entry:
  assumes "distinct (map (name_code \<circ> fst) t)" and "(n, v) \<in> set t"
  shows "by_name t n = Some v"
proof -
  have "find (\<lambda>(m, w). caseless_equal m n) (rev t) = Some (n, v)"
  proof (rule find_unique)
    fix e
    assume e: "e \<in> set (rev t)" and eq: "case e of (m, w) \<Rightarrow> caseless_equal m n"
    obtain m w where mw: "e = (m, w)" by force
    with eq have "name_code m = name_code n" by (simp add: name_code_caseless)
    then have "(name_code \<circ> fst) e = (name_code \<circ> fst) (n, v)" using mw by simp
    then show "e = (n, v)"
      using assms e by (simp add: distinct_map inj_on_def)
  qed (use assms in auto)
  then show ?thesis by (simp add: by_name_def)
qed

lemma by_name_None:
  assumes "name_code n \<notin> set (map (name_code \<circ> fst) t)"
  shows "by_name t n = None"
proof -
  have "find (\<lambda>(m, w). caseless_equal m n) (rev t) = None"
    using assms by (fastforce simp: find_None_iff image_iff dest: name_code_caseless)
  then show ?thesis by (simp add: by_name_def)
qed

lemma by_number_entry: "by_number t k = Some n \<Longrightarrow> (n, k) \<in> set t"
  by (auto simp: by_number_def dest!: find_SomeD)

lemma key_not_modifier:
  assumes "(n, k) \<in> set kKeyNameMap" and "k \<noteq> 0xef7e"
  shows "by_name kModifierNameMap n = None"
proof (rule by_name_None, rule notI)
  let ?code = "name_code \<circ> fst"
  assume "name_code n \<in> set (map ?code kModifierNameMap)"
  moreover have "?code (n, k) \<in> set (map ?code kKeyNameMap)" using assms(1) by (simp only: set_map imageI)
  ultimately have "name_code n = 418431395698"
    using common_codes unfolding modifier_codes list_all_iff by auto
  then have "?code (n, k) = ?code (''AltGr'', 0xef7e)"
    by (simp add: name_code_def to_lower_def char_value_def)
  moreover have "(''AltGr'', 0xef7e) \<in> set kKeyNameMap" by (simp add: kKeyNameMap_def)
  ultimately have "(n, k) = (''AltGr'', 0xef7e)"
    using assms(1) key_codes_distinct by (meson distinct_map inj_onD)
  with assms(2) show False by simp
qed

lemma by_number_None: "by_number t k = None \<Longrightarrow> (n, k) \<notin> set t"
  by (auto simp: by_number_def find_None_iff)

section \<open>Texts of keys\<close>

text \<open>The characters that mean something in the configuration do not occur in the text of a key.\<close>

definition key_char :: "char \<Rightarrow> bool" where
  "key_char c \<longleftrightarrow> is_graph c \<and> char_code c \<notin> {0x2b, 0x23, 0x28, 0x29, 0x2c, 0x3a, 0x3b, 0x3d}"

lemma key_charD: "key_char c \<Longrightarrow> is_graph c \<and> c \<notin> set ''+#(),:;=''"
  by (auto simp: key_char_def char_code_def)

definition word_char :: "char \<Rightarrow> bool" where
  "word_char c \<longleftrightarrow> char_code c = 95 \<or> 48 \<le> char_code c \<and> char_code c \<le> 57 \<or>
     65 \<le> char_code c \<and> char_code c \<le> 90 \<or> 97 \<le> char_code c \<and> char_code c \<le> 122"

lemma word_key_char: "word_char c \<Longrightarrow> key_char c"
  by (auto simp: word_char_def key_char_def is_graph_def char_code_def)

lemma key_name_words:
  "list_all (\<lambda>n. 2 \<le> length n \<and> length n \<le> 12 \<and> list_all word_char n) (map fst kKeyNameMap)"
  unfolding kKeyNameMap_def list.map fst_conv word_char_def char_code_def by simp

lemma key_name_word: "(n, k) \<in> set kKeyNameMap \<Longrightarrow> 2 \<le> length n \<and> length n \<le> 12 \<and> (\<forall>c\<in>set n. word_char c)"
  using key_name_words by (fastforce simp: list_all_iff)

definition key_text_ok :: "u32 \<Rightarrow> string \<Rightarrow> bool" where
  "key_text_ok k t \<longleftrightarrow> t \<noteq> [] \<and> length t \<le> 12 \<and> (\<forall>c\<in>set t. key_char c) \<and> parseKey t = Some k \<and>
     by_name kModifierNameMap t = None"

lemma caseless_length: "caseless_equal a b \<Longrightarrow> length a = length b"
  by (auto simp: caseless_equal_iff dest: map_eq_imp_length_eq)

lemma by_name_length:
  assumes "length ` fst ` set t \<subseteq> A" and "length n \<notin> A"
  shows "by_name t n = None"
proof -
  have "length n \<notin> length ` fst ` set t" using assms by blast
  then show ?thesis by (force simp: by_name_def find_None_iff image_iff dest: caseless_length)
qed

lemma key_name_lengths: "length ` fst ` set kKeyNameMap \<subseteq> {2..12}"
  using key_name_word by fastforce

lemma modifier_name_lengths: "length ` fst ` set kModifierNameMap \<subseteq> {3, 4, 5, 7}"
  by (auto simp: kModifierNameMap_def)

lemma named_key_text: "by_number kKeyNameMap k = Some n \<Longrightarrow> k \<noteq> 0xef7e \<Longrightarrow> key_text_ok k n"
  using key_name_word [OF by_number_entry] key_not_modifier [OF by_number_entry]
    by_name_entry [OF key_codes_distinct by_number_entry]
  by (fastforce simp: key_text_ok_def parseKey_def word_key_char)

lemma unat_numeralD: "unat (k :: u32) = numeral n \<Longrightarrow> k = numeral n"
  by (drule arg_cong [of _ _ "of_nat :: nat \<Rightarrow> u32"]) simp

lemma special_keys_named:
  "{0x2b, 0x23, 0x28, 0x29, 0x2c, 0x3a, 0x3b, 0x3d} \<subseteq> set (map snd kKeyNameMap)"
  unfolding kKeyNameMap_def list.map snd_conv by simp

lemma char_key_text:
  assumes "by_number kKeyNameMap k = None" and "33 \<le> k" and "k < 127"
  shows "key_text_ok k [char_of (unat k)]"
proof -
  let ?c = "char_of (unat k) :: char"
  have n: "33 \<le> unat k" "unat k < 127" using assms(2,3) by (simp_all add: word_le_nat_alt word_less_nat_alt)
  then have code: "of_char ?c = unat k" by simp
  have "k \<notin> {0x2b, 0x23, 0x28, 0x29, 0x2c, 0x3a, 0x3b, 0x3d}"
  proof
    assume "k \<in> {0x2b, 0x23, 0x28, 0x29, 0x2c, 0x3a, 0x3b, 0x3d}"
    then have "k \<in> set (map snd kKeyNameMap)" using special_keys_named by auto
    then have "\<exists>n. (n, k) \<in> set kKeyNameMap" by auto
    with by_number_None [OF assms(1)] show False by blast
  qed
  then have "unat k \<notin> {0x2b, 0x23, 0x28, 0x29, 0x2c, 0x3a, 0x3b, 0x3d}"
    by (auto dest: unat_numeralD)
  then have "key_char ?c"
    using n code by (auto simp: key_char_def is_graph_def char_code_def)
  moreover have "by_name kKeyNameMap [?c] = None"
    by (rule by_name_length [OF key_name_lengths]) simp
  moreover have "by_name kModifierNameMap [?c] = None"
    by (rule by_name_length [OF modifier_name_lengths]) simp
  moreover have "(of_char ?c :: int) = int (unat k)" by (metis code of_nat_of_char)
  then have "word_of_int (char_value ?c) = k"
    using assms(3) by (simp add: char_value_def Let_def word_less_def)
  ultimately show ?thesis
    by (simp add: key_text_ok_def parseKey_def key_char_def)
qed

lemma digit_word_char: "d < 16 \<Longrightarrow> word_char (digit_char d)"
  by (simp add: digit_char_def word_char_def char_code_def)

lemma int_char_code: "(of_char c :: int) = int (char_code c)"
  by (metis char_code_def of_nat_of_char)

lemma backslash_unnamed: "by_name kKeyNameMap (CHR 0x5C # s) = None"
proof -
  have "\<not> caseless_equal n (CHR 0x5C # s)" if "(n, k) \<in> set kKeyNameMap" for n k
  proof
    assume "caseless_equal n (CHR 0x5C # s)"
    then have n: "n \<noteq> [] \<and> to_lower (hd n) = 92"
      by (cases n) (auto simp: caseless_equal_iff to_lower_def char_value_def)
    then have "word_char (hd n)" using key_name_word [OF that] by auto
    with n show False
      by (auto simp: to_lower_def char_value_def word_char_def int_char_code Let_def split: if_splits)
  qed
  then show ?thesis by (auto simp: by_name_def find_None_iff)
qed

lemma hex_key_text:
  assumes "k < 0x10000"
  shows "key_text_ok k (c_sprintf (CHR 0x5C # ''u'' @ print_hex4 (unat k)))"
proof -
  let ?h = "print_hex4 (unat k)" and ?x = "CHR 0x5C # ''u'' @ print_hex4 (unat k)"
  have n: "unat k < 16 ^ Suc 3" using assms by (simp add: word_less_nat_alt)
  have len: "length ?h = 4" using print_nat_length [OF _ n] by (simp add: print_hex4_def Let_def)
  have "\<exists>d<16. CHR ''0'' = digit_char d" by (rule exI [of _ 0]) code_simp
  then have digit: "\<forall>c\<in>set ?h. \<exists>d<16. c = digit_char d"
    using print_nat_digits [of 16 _ "unat k"] by (auto simp: print_hex4_def Let_def)
  then have vals: "\<forall>c\<in>set ?h. digit_value c < 16" by (auto simp: digit_char_value)
  have "\<forall>c\<in>set ?h. word_char c"
    using digit by (auto intro: digit_word_char)
  then have chars: "\<forall>c\<in>set ?x. key_char c"
    by (auto simp: word_key_char) (simp_all add: key_char_def is_graph_def char_code_def)
  have zeros: "foldl (\<lambda>a c. a * 16 + digit_value c) 0 (replicate j CHR ''0'') = 0" for j
    by (induction j) (simp_all add: digit_value_def char_code_def)
  have "foldl (\<lambda>a c. a * 16 + digit_value c) 0 ?h = unat k"
    using print_nat_foldl [of 16 0 "unat k"] zeros by (simp add: print_hex4_def Let_def)
  then have "strtol 16 (?h @ []) = (int (unat k), False, [])"
    using vals len n assms by (intro strtol_digits) (auto simp: long_max_def word_less_def)
  moreover have "c_str ?h = ?h" using vals by (intro c_str_id) (auto simp: digit_value_def char_code_def dest!: bspec)
  moreover have "by_name kModifierNameMap ?x = None"
    by (rule by_name_length [OF modifier_name_lengths]) (simp add: len)
  moreover have "by_name kKeyNameMap ?x = None" by (rule backslash_unnamed)
  ultimately show ?thesis
    using len chars by (simp add: key_text_ok_def c_sprintf_short parseKey_def)
qed

lemma format_key_text: "k \<noteq> 0xef7e \<Longrightarrow> k < 0x10000 \<Longrightarrow> key_text_ok k (format_key_name k)"
  using named_key_text char_key_text hex_key_text
  by (auto simp: format_key_name_def split: option.split)

section \<open>Modifiers\<close>

text \<open>The modifiers with a name, in the order of their bits.\<close>

definition named_modifiers :: "(string \<times> nat) list" where
  "named_modifiers = [(''Shift'', 0), (''Control'', 1), (''Alt'', 2), (''Meta'', 3), (''Super'', 4), (''AltGr'', 5)]"

fun modifier_text :: "(string \<times> nat) list \<Rightarrow> u32 \<Rightarrow> string" where
  "modifier_text [] m = []"
| "modifier_text ((n, i) # bs) m = (if bit m i then n @ ''+'' else []) @ modifier_text bs m"

fun modifier_mask :: "(string \<times> nat) list \<Rightarrow> u32 \<Rightarrow> u32 \<Rightarrow> u32" where
  "modifier_mask [] m a = a"
| "modifier_mask ((n, i) # bs) m a = modifier_mask bs m (if bit m i then a OR push_bit i 1 else a)"

lemma upt_16: "[0..<16] = [0, 1, 2, 3, 4, 5, 6, 7, 8, 9, 10, 11, 12, 13, 14, 15]"
  by code_simp

lemma modifier_names:
  "map (\<lambda>i. by_number kModifierNameMap (push_bit i 1)) [0..<16] =
    [Some ''Shift'', Some ''Control'', Some ''Alt'', Some ''Meta'', Some ''Super'', Some ''AltGr'',
     None, None, None, None, None, None, None, None, None, None]"
  by (simp add: by_number_def kModifierNameMap_def upt_rec)

lemma format_modifiers_text: "format_modifiers m = modifier_text named_modifiers m"
proof -
  have "format_modifiers m = concat (map2 (\<lambda>x i. case x of None \<Rightarrow> [] | Some n \<Rightarrow> if bit m i then n @ ''+'' else [])
      (map (\<lambda>i. by_number kModifierNameMap (push_bit i 1)) [0..<16]) [0..<16])"
    by (simp add: format_modifiers_def map2_map_map [symmetric] comp_def zip_map1 zip_same_conv_map)
  also have "\<dots> = modifier_text named_modifiers m"
    unfolding modifier_names unfolding upt_16 by (simp add: named_modifiers_def)
  finally show ?thesis .
qed

definition modifier_name :: "string \<Rightarrow> nat \<Rightarrow> bool" where
  "modifier_name n i \<longleftrightarrow> by_name kModifierNameMap n = Some (push_bit i 1) \<and> n \<noteq> [] \<and> length n \<le> 7 \<and>
     (\<forall>c\<in>set n. key_char c)"

lemma modifiers_listed:
  "list_all (\<lambda>(n, i). (n, push_bit i 1) \<in> set kModifierNameMap \<and> n \<noteq> [] \<and> length n \<le> 7 \<and> list_all word_char n) named_modifiers"
  unfolding named_modifiers_def word_char_def char_code_def by (simp add: kModifierNameMap_def)

lemma modifiers_named: "(n, i) \<in> set named_modifiers \<Longrightarrow> modifier_name n i"
  using modifiers_listed by_name_entry [OF modifier_codes_distinct, of n "push_bit i 1"]
  by (auto simp: modifier_name_def word_key_char list_all_iff)

section \<open>Reading back\<close>

lemma takeWhile_all: "\<forall>c\<in>set s. P c \<Longrightarrow> takeWhile P s = s"
  and dropWhile_all: "\<forall>c\<in>set s. P c \<Longrightarrow> dropWhile P s = []"
  by simp_all

lemma key_char_parts: "key_char c \<Longrightarrow> \<not> ends_component c \<and> \<not> is_blank c"
  by (auto simp: key_char_def ends_component_def is_blank_def is_graph_def char_code_def)

lemma key_text_skip:
  assumes "s \<noteq> []" and "\<forall>c\<in>set s. key_char c"
  shows "skip_blanks (s @ r) = s @ r"
  using assms key_char_parts by (cases s) auto

lemma parse_modifier_step:
  assumes n: "modifier_name n i" and new: "\<not> bit a i" and i: "i < 32"
  shows "parse_modifiers_loop (n @ CHR ''+'' # r) a = parse_modifiers_loop (skip_blanks r) (a OR push_bit i 1)"
    and "parse_modifiers_loop n a = Some ([], a OR push_bit i 1)"
proof -
  have stop: "\<forall>c\<in>set n. \<not> ends_component c" using n key_char_parts by (auto simp: modifier_name_def)
  have plus: "ends_component CHR ''+''" by (simp add: ends_component_def)
  have and0: "a AND push_bit i 1 = 0" using new by (simp add: and_exp_eq_0_iff_not_bit push_bit_of_1)
  have skip: "skip_blanks (CHR ''+'' # r) = CHR ''+'' # r" by (simp add: is_blank_def)
  show "parse_modifiers_loop (n @ CHR ''+'' # r) a = parse_modifiers_loop (skip_blanks r) (a OR push_bit i 1)"
    using n and0 skip takeWhile_before [OF stop, of "CHR ''+'' # r"] dropWhile_before [OF stop, of "CHR ''+'' # r"] plus
    by (simp add: parse_modifiers_loop.simps [of "n @ CHR ''+'' # r"] modifier_name_def Let_def)
  show "parse_modifiers_loop n a = Some ([], a OR push_bit i 1)"
    using n and0 stop
    by (simp add: parse_modifiers_loop.simps [of n] modifier_name_def Let_def takeWhile_all dropWhile_all)
qed

text \<open>A text that is no modifier ends the list of modifiers.\<close>

lemma parse_modifier_stop:
  assumes "s \<noteq> []" and "\<forall>c\<in>set s. key_char c" and "by_name kModifierNameMap s = None"
  shows "parse_modifiers_loop s a = Some (s, a)"
proof -
  have stop: "\<forall>c\<in>set s. \<not> ends_component c" "\<forall>c\<in>set s. \<not> is_blank c"
    using assms(2) key_char_parts by auto
  then have "skip_blanks s = s" "strip_end is_blank s = s"
    by (simp_all add: skip_blanks_id strip_end_def dropWhile_eq_self_iff assms(1) hd_rev)
  then show ?thesis
    using assms(1,3) stop(1)
    by (simp add: parse_modifiers_loop.simps [of s] Let_def takeWhile_all)
qed

definition fresh_bits :: "(string \<times> nat) list \<Rightarrow> u32 \<Rightarrow> bool" where
  "fresh_bits bs a \<longleftrightarrow> distinct (map snd bs) \<and> (\<forall>(n, i)\<in>set bs. modifier_name n i \<and> i < 32 \<and> \<not> bit a i)"

lemma fresh_bits_Cons:
  assumes "fresh_bits ((n, i) # bs) a"
  shows "modifier_name n i" and "i < 32" and "\<not> bit a i" and "fresh_bits bs a"
    and "fresh_bits bs (a OR push_bit i 1)"
  using assms by (auto simp: fresh_bits_def bit_or_iff bit_exp_iff image_iff)

lemma modifier_text_start: "fresh_bits bs a \<Longrightarrow> s = [] \<or> \<not> is_blank (hd s) \<Longrightarrow>
    skip_blanks (modifier_text bs m @ s) = modifier_text bs m @ s"
proof (induction bs m rule: modifier_text.induct)
  case (1 m)
  then show ?case by (simp add: skip_blanks_id)
next
  case (2 n i bs m)
  note f = fresh_bits_Cons [OF 2(2)]
  then have "n \<noteq> []" "\<forall>c\<in>set n. key_char c" by (auto simp: modifier_name_def)
  from key_text_skip [OF this, of "CHR ''+'' # modifier_text bs m @ s"] show ?case
    using 2 f(4) by simp
qed

lemma parse_modifier_text:
  assumes "fresh_bits bs a" and "s = [] \<or> \<not> is_blank (hd s)"
  shows "parse_modifiers_loop (modifier_text bs m @ s) a = parse_modifiers_loop s (modifier_mask bs m a)"
  using assms
proof (induction bs m a rule: modifier_mask.induct)
  case (2 n i bs m a)
  note f = fresh_bits_Cons [OF 2(2)]
  show ?case
  proof (cases "bit m i")
    case True
    then show ?thesis
      using 2(1) [OF _ 2(3)] f(5) parse_modifier_step(1) [OF f(1,3,2), of "modifier_text bs m @ s"]
        modifier_text_start [OF f(5) 2(3)] by simp
  next
    case False
    then show ?thesis using 2(1) [OF _ 2(3)] f(4) by simp
  qed
qed simp

lemma parse_modifier_only:
  assumes "fresh_bits bs a" and "modifier_text bs m \<noteq> []"
  shows "parse_modifiers_loop (butlast (modifier_text bs m)) a = Some ([], modifier_mask bs m a)"
  using assms
proof (induction bs m a rule: modifier_mask.induct)
  case (2 n i bs m a)
  note f = fresh_bits_Cons [OF 2(2)]
  let ?t = "modifier_text bs m"
  have zero: "modifier_mask bs m b = b" if "modifier_text bs m = []" for b
    using that by (induction bs m b rule: modifier_mask.induct) (auto split: if_splits)
  show ?case
  proof (cases "bit m i \<and> ?t \<noteq> []")
    case False
    then show ?thesis
      using 2 f zero parse_modifier_step(2) [OF f(1,3,2)] by (auto simp: butlast_append split: if_splits)
  next
    case True
    have "skip_blanks (butlast ?t) = butlast ?t"
    proof (cases "butlast ?t = []")
      case False
      then have "hd (butlast ?t) = hd ?t" by (cases ?t) (auto split: if_splits)
      moreover have "\<not> is_blank (hd ?t)"
        using modifier_text_start [OF f(4), of "[]" m] True hd_dropWhile [of is_blank ?t] by fastforce
      ultimately show ?thesis using False by (simp add: skip_blanks_id)
    qed simp
    then show ?thesis
      using True 2(1) f(5) parse_modifier_step(1) [OF f(1,3,2), of "butlast ?t"] by (simp add: butlast_append)
  qed
qed simp

lemma fresh_modifiers: "fresh_bits named_modifiers 0"
proof -
  have "\<forall>(n, i)\<in>set named_modifiers. i < 32" "distinct (map snd named_modifiers)" by (simp_all add: named_modifiers_def)
  then show ?thesis using modifiers_named by (auto simp: fresh_bits_def)
qed

lemma modifier_mask_bits:
  "bit (modifier_mask bs m a) n \<longleftrightarrow> bit a n \<or> (bit m n \<and> n \<in> set (map snd bs))"
proof (induction bs m a rule: modifier_mask.induct)
  case (2 x i bs m a)
  have "bit (push_bit i (1 :: u32)) n \<longleftrightarrow> i = n" if "bit m n"
    using bit_imp_possible_bit [OF that] by (auto simp: bit_exp_iff)
  moreover have "bit (push_bit i (1 :: u32)) n \<Longrightarrow> i = n" by (simp add: bit_exp_iff)
  ultimately show ?case unfolding modifier_mask.simps 2 by (auto simp: bit_or_iff simp del: push_bit_of_1)
qed simp

lemma modifiers_mask:
  assumes "m AND NOT 0x3f = 0"
  shows "modifier_mask named_modifiers m 0 = m"
proof (rule bit_word_eqI)
  fix n
  have "(0x3f :: u32) = mask 6" by (simp add: mask_eq_exp_minus_1)
  then have "bit (0x3f :: u32) n \<longleftrightarrow> n < 6" by (simp only: bit_mask_iff) (auto simp: possible_bit_word)
  moreover have "\<not> bit (m AND NOT 0x3f) n" unfolding assms by simp
  ultimately have "bit m n \<Longrightarrow> n < 6"
    unfolding bit_and_iff bit_not_iff by (meson bit_imp_possible_bit)
  moreover have "bit (modifier_mask named_modifiers m 0) n \<longleftrightarrow> bit m n \<and> n \<in> {0, 1, 2, 3, 4, 5}"
    unfolding modifier_mask_bits by (simp add: named_modifiers_def)
  ultimately show "bit (modifier_mask named_modifiers m 0) n \<longleftrightarrow> bit m n" by auto
qed

section \<open>Properties\<close>

text \<open>
  C34. Names of keys. What \<^verbatim>\<open>formatKey\<close> writes for a key of at most four hexadecimal digits and a mask of
  the six named modifiers, \<^verbatim>\<open>parseModifiers\<close> and \<^verbatim>\<open>parseKey\<close> read back as the same key and mask. The
  key \<^verbatim>\<open>AltGr\<close> is excepted: its name is also the name of a modifier, which \<open>altgr_key_lost\<close> shows.
\<close>

theorem keystroke_names_roundtrip:
  assumes "k \<noteq> 0xef7e" and "k < 0x10000" and "m AND NOT 0x3f = 0"
  shows "\<exists>r. parseModifiers (formatKey k m) = Some (r, m) \<and> parseKey r = Some k"
proof (cases "k = kKeyNone")
  case True
  show ?thesis
  proof (cases "modifier_text named_modifiers m = []")
    case empty: True
    have "modifier_mask bs m a = a" if "modifier_text bs m = []" for bs a
      using that by (induction bs m a rule: modifier_mask.induct) (auto split: if_splits)
    then have "m = 0" using modifiers_mask [OF assms(3)] empty by simp
    then show ?thesis
      using True empty by_name_length [OF key_name_lengths, of "[]"]
      by (simp add: formatKey_def format_modifiers_text parseModifiers_def parse_modifiers_loop.simps [of "[]"]
          parseKey_def)
  next
    case False
    let ?x = "butlast (modifier_text named_modifiers m)"
    have "parse_modifiers_loop ?x 0 = Some ([], m)"
      using parse_modifier_only [OF fresh_modifiers False] modifiers_mask [OF assms(3)] by simp
    moreover have "skip_blanks ?x = ?x"
    proof (cases "?x = []")
      case x: False
      then have "hd ?x = hd (modifier_text named_modifiers m)" by (cases "modifier_text named_modifiers m") (auto split: if_splits)
      moreover have "\<not> is_blank (hd (modifier_text named_modifiers m))"
        using modifier_text_start [OF fresh_modifiers, of "[]" m] False
          hd_dropWhile [of is_blank "modifier_text named_modifiers m"] by fastforce
      ultimately show ?thesis using x by (simp add: skip_blanks_id)
    qed simp
    moreover have "parseKey [] = Some kKeyNone"
      using by_name_length [OF key_name_lengths, of "[]"] by (simp add: parseKey_def)
    ultimately show ?thesis
      using True False by (simp add: formatKey_def format_modifiers_text parseModifiers_def)
  qed
next
  case False
  let ?t = "format_key_name k"
  have t: "key_text_ok k ?t" using format_key_text assms by blast
  then have "\<not> is_blank (hd ?t)" using key_char_parts by (simp add: key_text_ok_def)
  then have "skip_blanks (modifier_text named_modifiers m @ ?t) = modifier_text named_modifiers m @ ?t"
    "parse_modifiers_loop (modifier_text named_modifiers m @ ?t) 0 = parse_modifiers_loop ?t m"
    using modifier_text_start [OF fresh_modifiers] parse_modifier_text [OF fresh_modifiers]
      modifiers_mask [OF assms(3)] by simp_all
  moreover have "parse_modifiers_loop ?t m = Some (?t, m)"
    using t parse_modifier_stop by (simp add: key_text_ok_def)
  ultimately show ?thesis
    using t False by (simp add: formatKey_def format_modifiers_text parseModifiers_def key_text_ok_def)
qed

lemma keystroke_names_roundtrip_witness:
  "\<exists>r. parseModifiers (formatKey 0xef1b 5) = Some (r, 5) \<and> parseKey r = Some 0xef1b"
  by (rule keystroke_names_roundtrip) simp_all

text \<open>Where the names do not come back.\<close>

lemma altgr_key_lost: "parseModifiers (formatKey 0xef7e 0) = Some ([], 0x20)"
proof -
  have "by_number kKeyNameMap 0xef7e = Some ''AltGr''"
    by (simp add: by_number_def kKeyNameMap_def)
  moreover have "format_modifiers 0 = []"
    unfolding format_modifiers_text by (simp add: named_modifiers_def)
  moreover have "parse_modifiers_loop ''AltGr'' 0 = Some ([], 0 OR push_bit 5 1)"
    by (rule parse_modifier_step(2)) (simp_all add: modifiers_named named_modifiers_def)
  ultimately show ?thesis
    by (simp add: formatKey_def format_key_name_def kKeyNone_def parseModifiers_def is_blank_def)
qed

lemma long_key_lost:
  assumes "0x10000 \<le> k" and "by_number kKeyNameMap k = None"
  shows "parseKey (format_key_name k) = None"
proof -
  let ?h = "print_nat 16 (unat k)"
  have len: "4 < length ?h"
  proof (rule ccontr)
    assume "\<not> 4 < length ?h"
    have "unat k < 16 ^ length ?h"
      using print_nat_bound [of 16 "unat k"] by simp
    also have "\<dots> \<le> 16 ^ 4" using \<open>\<not> 4 < length ?h\<close> by (intro power_increasing) simp_all
    finally show False using assms(1) by (simp add: word_le_nat_alt)
  qed
  have "unat k < 2 ^ 32" using unsigned_less [of k] by simp
  then have "length ?h \<le> Suc 7" using print_nat_length [of 16 "unat k" 7] by simp
  moreover have "\<not> (33 \<le> k \<and> k < 127)" using assms(1) by (auto simp: word_le_nat_alt word_less_nat_alt)
  ultimately have name: "format_key_name k = CHR 0x5C # ''u'' @ ?h"
    using assms(2) len by (simp add: format_key_name_def c_sprintf_short print_hex4_def Let_def)
  have "by_name kKeyNameMap (CHR 0x5C # ''u'' @ ?h) = None"
    by (rule backslash_unnamed)
  then show ?thesis using len by (simp add: name parseKey_def)
qed

end
