(* ===== verification/Input_Filter.thy ===== *)
theory Input_Filter
  imports Server_Handlers Key_Names
begin

text \<open>
  The hot keys of the server: \<^verbatim>\<open>src/lib/server/InputFilter.cpp\<close>. A rule is a condition with the actions
  of its activation and deactivation. The first rule that matches an event consumes it; an event
  no rule matches is passed on. Rules, conditions and actions are values, copied where the code
  clones them. What the filter does to its surroundings is the list \<open>if_calls\<close>: events added to
  the queue (their target is the filter itself), handlers on the primary client, and hot keys.
  The identifier that registering a hot key returns depends on the calls so far and is an
  argument of the operations.
\<close>

section \<open>Events\<close>

datatype filter_payload =
    Ev_Hotkey_Down u32 | Ev_Hotkey_Up u32
  | Ev_Button_Down byte u32 | Ev_Button_Up byte u32
  | Ev_Connected string
  | Ev_Key_Down key_info | Ev_Key_Up key_info | Ev_Key_Repeat key_info
  | Ev_Lock_Cursor toggle | Ev_Switch_To string | Ev_Switch_In direction | Ev_Toggle_Screen
  | Ev_Broadcast toggle string
  | Ev_Fake_Begin | Ev_Fake_End

datatype watched_event =
    KeyStateKeyDown | KeyStateKeyUp | KeyStateKeyRepeat | PrimaryScreenButtonDown
  | PrimaryScreenButtonUp | PrimaryScreenHotkeyDown | PrimaryScreenHotkeyUp | ServerConnected

text \<open>The flag of \<open>Add_Event\<close> is \<^verbatim>\<open>DontFreeData\<close>; all are delivered immediately.\<close>

datatype filter_call =
    Add_Event filter_payload bool
  | Exit_Process
  | Register_Hot_Key u32 u32 u32
  | Unregister_Hot_Key u32
  | Add_Handler watched_event nat
  | Remove_Handler watched_event nat

section \<open>Conditions\<close>

datatype filter_status = No_Match | Activate | Deactivate

datatype condition =
    Keystroke_Condition u32 u32 u32
  | Mouse_Button_Condition byte u32
  | Screen_Connected_Condition string

text \<open>\<^verbatim>\<open>clone\<close> makes a keystroke condition anew, without its identifier.\<close>

fun condition_clone :: "condition \<Rightarrow> condition" where
  "condition_clone (Keystroke_Condition i key m) = Keystroke_Condition 0 key m"
| "condition_clone (Mouse_Button_Condition b m) = Mouse_Button_Condition b m"
| "condition_clone (Screen_Connected_Condition s) = Screen_Connected_Condition s"

definition print_byte :: "byte \<Rightarrow> string" where
  "print_byte b = print_nat 10 (unat b)"

definition keystroke_condition_format :: "u32 \<Rightarrow> u32 \<Rightarrow> string" where
  "keystroke_condition_format key m = c_sprintf (''keystroke('' @ formatKey key m @ '')'')"

definition button_condition_format :: "byte \<Rightarrow> u32 \<Rightarrow> string" where
  "button_condition_format b m =
     (let key = formatKey kKeyNone m in
      c_sprintf (''mousebutton('' @ (if key = [] then [] else key @ ''+'') @ print_byte b @ '')''))"

definition connected_condition_format :: "string \<Rightarrow> string" where
  "connected_condition_format s = c_sprintf (''connect('' @ c_str s @ '')'')"

fun condition_format :: "condition \<Rightarrow> string" where
  "condition_format (Keystroke_Condition i key m) = keystroke_condition_format key m"
| "condition_format (Mouse_Button_Condition b m) = button_condition_format b m"
| "condition_format (Screen_Connected_Condition s) = connected_condition_format s"

definition keystroke_match :: "u32 \<Rightarrow> filter_payload \<Rightarrow> filter_status" where
  "keystroke_match i e =
     (case e of
        Ev_Hotkey_Down j \<Rightarrow> if j \<noteq> i then No_Match else Activate
      | Ev_Hotkey_Up j \<Rightarrow> if j \<noteq> i then No_Match else Deactivate
      | _ \<Rightarrow> No_Match)"

text \<open>The modifiers that cannot be combined with a button: AltGr and the three locks.\<close>

definition s_ignoreMask :: u32 where
  "s_ignoreMask = KeyModifierAltGr OR 0x1000 OR 0x2000 OR 0x4000"

definition button_match :: "byte \<Rightarrow> u32 \<Rightarrow> filter_payload \<Rightarrow> filter_status" where
  "button_match b m e =
     (case e of
        Ev_Button_Down c k \<Rightarrow> if c \<noteq> b \<or> k AND NOT s_ignoreMask \<noteq> m then No_Match else Activate
      | Ev_Button_Up c k \<Rightarrow> if c \<noteq> b \<or> k AND NOT s_ignoreMask \<noteq> m then No_Match else Deactivate
      | _ \<Rightarrow> No_Match)"

definition connected_match :: "string \<Rightarrow> filter_payload \<Rightarrow> filter_status" where
  "connected_match s e =
     (case e of Ev_Connected n \<Rightarrow> if s = n \<or> s = [] then Activate else No_Match | _ \<Rightarrow> No_Match)"

fun condition_match :: "filter_payload \<Rightarrow> condition \<Rightarrow> filter_status" where
  "condition_match e (Keystroke_Condition i key m) = keystroke_match i e"
| "condition_match e (Mouse_Button_Condition b m) = button_match b m e"
| "condition_match e (Screen_Connected_Condition s) = connected_match s e"

section \<open>Actions\<close>

datatype filter_action =
    Lock_Cursor_Action toggle
  | Restart_Server
  | Switch_To_Screen_Action string
  | Switch_In_Direction_Action direction
  | Switch_To_Next_Screen_Action
  | Keyboard_Broadcast_Action toggle string
  | Keystroke_Action key_info bool
  | Mouse_Button_Action byte u32 bool

text \<open>The constructor of \<^verbatim>\<open>KeyboardBroadcastAction\<close> joins the names of the screens.\<close>

definition keyboard_broadcast_action :: "toggle \<Rightarrow> string list \<Rightarrow> filter_action" where
  "keyboard_broadcast_action mode dst = Keyboard_Broadcast_Action mode (ki_join dst)"

fun toggle_name :: "toggle \<Rightarrow> string" where
  "toggle_name Toggle_Off = ''off''"
| "toggle_name Toggle_On = ''on''"
| "toggle_name Toggle_Flip = ''toggle''"

fun direction_name :: "direction \<Rightarrow> string" where
  "direction_name NoDirection = ''''"
| "direction_name Left = ''left''"
| "direction_name Right = ''right''"
| "direction_name Top = ''up''"
| "direction_name Bottom = ''down''"

text \<open>The names in a destination string without its first and last colon.\<close>

definition inner_screens :: "string \<Rightarrow> string" where
  "inner_screens s = c_str (take (if 2 \<le> length s then length s - 2 else 0) (tl s))"

definition lock_cursor_format :: "toggle \<Rightarrow> string" where
  "lock_cursor_format t = c_sprintf (''lockCursorToScreen('' @ toggle_name t @ '')'')"

definition restart_format :: string where
  "restart_format = c_sprintf ''restartServer(restart)''"

definition switch_to_format :: "string \<Rightarrow> string" where
  "switch_to_format s = c_sprintf (''switchToScreen('' @ c_str s @ '')'')"

definition switch_in_format :: "direction \<Rightarrow> string" where
  "switch_in_format d = c_sprintf (''switchInDirection('' @ direction_name d @ '')'')"

definition switch_next_format :: string where
  "switch_next_format = ''switchToNextScreen()''"

definition broadcast_format :: "toggle \<Rightarrow> string \<Rightarrow> string" where
  "broadcast_format t s =
     (if s = [] \<or> hd s = CHR ''*'' then c_sprintf (''keyboardBroadcast('' @ toggle_name t @ '')'')
      else c_sprintf (''keyboardBroadcast('' @ toggle_name t @ '','' @ inner_screens s @ '')''))"

definition key_format_name :: "bool \<Rightarrow> string" where
  "key_format_name press = (if press then ''keyDown'' else ''keyUp'')"

definition keystroke_format :: "key_info \<Rightarrow> bool \<Rightarrow> string" where
  "keystroke_format i press =
     (let name = key_format_name press; key = formatKey (ki_key i) (ki_mask i) in
      if c_str (ki_screens i) = [] then c_sprintf (name @ ''('' @ key @ '')'')
      else if hd (ki_screens i) = CHR ''*'' then c_sprintf (name @ ''('' @ key @ '',*)'')
      else c_sprintf (name @ ''('' @ key @ '','' @ c_str (ki_screens i) @ '')''))"

definition button_format_name :: "bool \<Rightarrow> string" where
  "button_format_name press = (if press then ''mouseDown'' else ''mouseUp'')"

definition button_format :: "byte \<Rightarrow> u32 \<Rightarrow> bool \<Rightarrow> string" where
  "button_format b m press =
     (let key = formatKey kKeyNone m in
      c_sprintf (button_format_name press @ ''('' @ key @ (if key = [] then [] else ''+'') @ print_byte b @ '')''))"

fun action_format :: "filter_action \<Rightarrow> string" where
  "action_format (Lock_Cursor_Action t) = lock_cursor_format t"
| "action_format Restart_Server = restart_format"
| "action_format (Switch_To_Screen_Action s) = switch_to_format s"
| "action_format (Switch_In_Direction_Action d) = switch_in_format d"
| "action_format Switch_To_Next_Screen_Action = switch_next_format"
| "action_format (Keyboard_Broadcast_Action t s) = broadcast_format t s"
| "action_format (Keystroke_Action i press) = keystroke_format i press"
| "action_format (Mouse_Button_Action b m press) = button_format b m press"

text \<open>What an action does when it is performed for an event.\<close>

definition lock_cursor_perform :: "toggle \<Rightarrow> filter_call list" where
  "lock_cursor_perform t = [Add_Event (Ev_Lock_Cursor t) False]"

definition restart_perform :: "filter_call list" where
  "restart_perform = [Exit_Process]"

definition switch_to_perform :: "filter_payload \<Rightarrow> string \<Rightarrow> filter_call list" where
  "switch_to_perform e s =
     [Add_Event (Ev_Switch_To
        (if s = [] then (case e of Ev_Connected n \<Rightarrow> n | _ \<Rightarrow> s) else s)) False]"

definition switch_in_perform :: "direction \<Rightarrow> filter_call list" where
  "switch_in_perform d = [Add_Event (Ev_Switch_In d) False]"

definition switch_next_perform :: "filter_call list" where
  "switch_next_perform = [Add_Event Ev_Toggle_Screen False]"

definition broadcast_perform :: "toggle \<Rightarrow> string \<Rightarrow> filter_call list" where
  "broadcast_perform t s = [Add_Event (Ev_Broadcast t s) False]"

definition keystroke_perform :: "key_info \<Rightarrow> bool \<Rightarrow> filter_call list" where
  "keystroke_perform i press =
     [Add_Event Ev_Fake_Begin False,
      Add_Event (if press then Ev_Key_Down i else Ev_Key_Up i) True,
      Add_Event Ev_Fake_End False]"

definition button_perform :: "byte \<Rightarrow> u32 \<Rightarrow> bool \<Rightarrow> filter_call list" where
  "button_perform b m press =
     (if m \<noteq> 0
      then [Add_Event (Ev_Key_Down
              (ki_alloc (if press then kKeySetModifiers else kKeyClearModifiers) m 0 1 [])) False]
      else []) @
     [Add_Event (if press then Ev_Button_Down b m else Ev_Button_Up b m) True]"

lemmas perform_defs =
  lock_cursor_perform_def restart_perform_def switch_to_perform_def switch_in_perform_def
  switch_next_perform_def broadcast_perform_def keystroke_perform_def button_perform_def

fun action_perform :: "filter_payload \<Rightarrow> filter_action \<Rightarrow> filter_call list" where
  "action_perform e (Lock_Cursor_Action t) = lock_cursor_perform t"
| "action_perform e Restart_Server = restart_perform"
| "action_perform e (Switch_To_Screen_Action s) = switch_to_perform e s"
| "action_perform e (Switch_In_Direction_Action d) = switch_in_perform d"
| "action_perform e Switch_To_Next_Screen_Action = switch_next_perform"
| "action_perform e (Keyboard_Broadcast_Action t s) = broadcast_perform t s"
| "action_perform e (Keystroke_Action i press) = keystroke_perform i press"
| "action_perform e (Mouse_Button_Action b m press) = button_perform b m press"

section \<open>Rules\<close>

record rule =
  ru_condition :: "condition option"
  ru_activate :: "filter_action list"
  ru_deactivate :: "filter_action list"

definition rule_new :: "condition \<Rightarrow> rule" where
  "rule_new c = \<lparr>ru_condition = Some c, ru_activate = [], ru_deactivate = []\<rparr>"

definition rule_copy :: "rule \<Rightarrow> rule" where
  "rule_copy r = r\<lparr>ru_condition := map_option condition_clone (ru_condition r)\<rparr>"

definition rule_clear :: "rule \<Rightarrow> rule" where
  "rule_clear _ = \<lparr>ru_condition = None, ru_activate = [], ru_deactivate = []\<rparr>"

definition setCondition :: "condition option \<Rightarrow> rule \<Rightarrow> rule" where
  "setCondition c r = r\<lparr>ru_condition := c\<rparr>"

definition actions_of :: "bool \<Rightarrow> rule \<Rightarrow> filter_action list" where
  "actions_of onActivation r = (if onActivation then ru_activate r else ru_deactivate r)"

definition set_actions :: "bool \<Rightarrow> filter_action list \<Rightarrow> rule \<Rightarrow> rule" where
  "set_actions onActivation as r =
     (if onActivation then r\<lparr>ru_activate := as\<rparr> else r\<lparr>ru_deactivate := as\<rparr>)"

definition adoptAction :: "filter_action option \<Rightarrow> bool \<Rightarrow> rule \<Rightarrow> rule" where
  "adoptAction a onActivation r =
     (case a of None \<Rightarrow> r
      | Some a \<Rightarrow> set_actions onActivation (actions_of onActivation r @ [a]) r)"

text \<open>An index out of range is undefined behaviour: \<^const>\<open>None\<close>.\<close>

definition removeAction :: "bool \<Rightarrow> nat \<Rightarrow> rule \<Rightarrow> rule option" where
  "removeAction onActivation index r =
     (let as = actions_of onActivation r in
      if index < length as then Some (set_actions onActivation (take index as @ drop (Suc index) as) r)
      else None)"

definition replaceAction :: "filter_action option \<Rightarrow> bool \<Rightarrow> nat \<Rightarrow> rule \<Rightarrow> rule option" where
  "replaceAction a onActivation index r =
     (case a of None \<Rightarrow> removeAction onActivation index r
      | Some a \<Rightarrow>
          if index < length (actions_of onActivation r)
          then Some (set_actions onActivation ((actions_of onActivation r)[index := a]) r)
          else None)"

definition getNumActions :: "bool \<Rightarrow> rule \<Rightarrow> nat" where
  "getNumActions onActivation r = length (actions_of onActivation r)"

definition getAction :: "bool \<Rightarrow> nat \<Rightarrow> rule \<Rightarrow> filter_action option" where
  "getAction onActivation index r =
     (if index < length (actions_of onActivation r) then Some (actions_of onActivation r ! index) else None)"

fun joined :: "string list \<Rightarrow> string" where
  "joined [] = []"
| "joined [s] = s"
| "joined (s # ss) = s @ '', '' @ joined ss"

definition rule_format :: "rule \<Rightarrow> string" where
  "rule_format r =
     (case ru_condition r of None \<Rightarrow> []
      | Some c \<Rightarrow> condition_format c @ '' = '' @ joined (map action_format (ru_activate r)) @
          (if ru_deactivate r = [] then [] else ''; '' @ joined (map action_format (ru_deactivate r))))"

text \<open>Actions are performed in order; leaving the process is the last thing that happens.\<close>

fun perform_all :: "filter_payload \<Rightarrow> filter_action list \<Rightarrow> filter_call list" where
  "perform_all e [] = []"
| "perform_all e (a # as) =
     (if Exit_Process \<in> set (action_perform e a) then action_perform e a
      else action_perform e a @ perform_all e as)"

definition rule_handleEvent :: "filter_payload \<Rightarrow> rule \<Rightarrow> filter_call list option" where
  "rule_handleEvent e r =
     (case ru_condition r of None \<Rightarrow> None
      | Some c \<Rightarrow>
          (case condition_match e c of
             No_Match \<Rightarrow> None
           | Activate \<Rightarrow> Some (perform_all e (ru_activate r))
           | Deactivate \<Rightarrow> Some (perform_all e (ru_deactivate r))))"

section \<open>The filter\<close>

record input_filter =
  if_rules :: "rule list"
  if_primary :: "nat option"
  if_calls :: "filter_call list"

type_synonym hot_keys = "filter_call list \<Rightarrow> u32"

definition filter_new :: input_filter where
  "filter_new = \<lparr>if_rules = [], if_primary = None, if_calls = []\<rparr>"

definition call_out :: "filter_call list \<Rightarrow> input_filter \<Rightarrow> input_filter" where
  "call_out cs f = f\<lparr>if_calls := if_calls f @ cs\<rparr>"

text \<open>\<^verbatim>\<open>enablePrimary\<close> and \<^verbatim>\<open>disablePrimary\<close> with the calls made so far.\<close>

fun condition_enable :: "hot_keys \<Rightarrow> filter_call list \<Rightarrow> condition \<Rightarrow> condition \<times> filter_call list" where
  "condition_enable reg made (Keystroke_Condition i key m) =
     (Keystroke_Condition (reg made) key m, made @ [Register_Hot_Key key m (reg made)])"
| "condition_enable reg made c = (c, made)"

fun condition_disable :: "filter_call list \<Rightarrow> condition \<Rightarrow> condition \<times> filter_call list" where
  "condition_disable made (Keystroke_Condition i key m) =
     (Keystroke_Condition 0 key m, made @ [Unregister_Hot_Key i])"
| "condition_disable made c = (c, made)"

definition rule_enable :: "hot_keys \<Rightarrow> filter_call list \<Rightarrow> rule \<Rightarrow> rule \<times> filter_call list" where
  "rule_enable reg made r =
     (case ru_condition r of None \<Rightarrow> (r, made)
      | Some c \<Rightarrow> (case condition_enable reg made c of (c', made') \<Rightarrow> (r\<lparr>ru_condition := Some c'\<rparr>, made')))"

definition rule_disable :: "filter_call list \<Rightarrow> rule \<Rightarrow> rule \<times> filter_call list" where
  "rule_disable made r =
     (case ru_condition r of None \<Rightarrow> (r, made)
      | Some c \<Rightarrow> (case condition_disable made c of (c', made') \<Rightarrow> (r\<lparr>ru_condition := Some c'\<rparr>, made')))"

text \<open>A loop over the rules.\<close>

fun each_rule ::
    "(filter_call list \<Rightarrow> rule \<Rightarrow> rule \<times> filter_call list) \<Rightarrow> filter_call list \<Rightarrow> rule list \<Rightarrow>
     rule list \<times> filter_call list" where
  "each_rule op made [] = ([], made)"
| "each_rule op made (r # rs) =
     (case op made r of (r', made') \<Rightarrow> (case each_rule op made' rs of (rs', made'') \<Rightarrow> (r' # rs', made'')))"

definition for_rules ::
    "(filter_call list \<Rightarrow> rule \<Rightarrow> rule \<times> filter_call list) \<Rightarrow> input_filter \<Rightarrow> input_filter" where
  "for_rules op f =
     (case each_rule op (if_calls f) (if_rules f) of (rs, made) \<Rightarrow> f\<lparr>if_rules := rs, if_calls := made\<rparr>)"

definition watched_events :: "watched_event list" where
  "watched_events = [KeyStateKeyDown, KeyStateKeyUp, KeyStateKeyRepeat, PrimaryScreenButtonDown,
     PrimaryScreenButtonUp, PrimaryScreenHotkeyDown, PrimaryScreenHotkeyUp, ServerConnected]"

definition setPrimaryClient :: "hot_keys \<Rightarrow> nat option \<Rightarrow> input_filter \<Rightarrow> input_filter" where
  "setPrimaryClient reg client f =
     (if if_primary f = client then f
      else
        let f1 = (case if_primary f of None \<Rightarrow> f
                  | Some p \<Rightarrow> call_out (map (\<lambda>w. Remove_Handler w p) watched_events) (for_rules rule_disable f));
            f2 = f1\<lparr>if_primary := client\<rparr>
        in case client of None \<Rightarrow> f2
           | Some p \<Rightarrow> for_rules (rule_enable reg) (call_out (map (\<lambda>w. Add_Handler w p) watched_events) f2))"

text \<open>
  \<open>moved\<close>: the vector of rules has no room left, and \<^verbatim>\<open>push_back\<close> copies the rules to a new place. The
  class has a copy constructor and no move constructor, so that every rule is copied.
\<close>

definition addFilterRule :: "hot_keys \<Rightarrow> bool \<Rightarrow> rule \<Rightarrow> input_filter \<Rightarrow> input_filter" where
  "addFilterRule reg moved r f =
     (let old = (if moved then map rule_copy (if_rules f) else if_rules f);
          new = rule_copy r
      in if if_primary f \<noteq> None
         then (case rule_enable reg (if_calls f) new of
                 (new', made) \<Rightarrow> f\<lparr>if_rules := old @ [new'], if_calls := made\<rparr>)
         else f\<lparr>if_rules := old @ [new]\<rparr>)"

text \<open>\<^verbatim>\<open>erase\<close> assigns to each rule after the erased one a copy of the next.\<close>

definition removeFilterRule :: "nat \<Rightarrow> input_filter \<Rightarrow> input_filter option" where
  "removeFilterRule index f =
     (if index < length (if_rules f)
      then
        let made = (if if_primary f \<noteq> None then snd (rule_disable (if_calls f) (if_rules f ! index)) else if_calls f)
        in Some (f\<lparr>if_rules := take index (if_rules f) @ map rule_copy (drop (Suc index) (if_rules f)),
                   if_calls := made\<rparr>)
      else None)"

text \<open>\<^verbatim>\<open>operator=\<close> keeps the primary client; the copy constructor takes it over.\<close>

definition filter_assign :: "hot_keys \<Rightarrow> input_filter \<Rightarrow> input_filter \<Rightarrow> input_filter" where
  "filter_assign reg x f =
     setPrimaryClient reg (if_primary f)
       ((setPrimaryClient reg None f)\<lparr>if_rules := map rule_copy (if_rules x)\<rparr>)"

definition filter_copy :: "hot_keys \<Rightarrow> input_filter \<Rightarrow> input_filter" where
  "filter_copy reg x =
     setPrimaryClient reg (if_primary x)
       \<lparr>if_rules = map rule_copy (if_rules x), if_primary = None, if_calls = if_calls x\<rparr>"

definition getRule :: "nat \<Rightarrow> input_filter \<Rightarrow> rule option" where
  "getRule index f = (if index < length (if_rules f) then Some (if_rules f ! index) else None)"

definition getNumRules :: "input_filter \<Rightarrow> nat" where
  "getNumRules f = length (if_rules f)"

definition filter_format :: "string \<Rightarrow> input_filter \<Rightarrow> string" where
  "filter_format linePrefix f =
     concat (map (\<lambda>r. linePrefix @ rule_format r @ [CHR 0x0A]) (if_rules f))"

text \<open>Sorting the formatted rules.\<close>

fun sort_in :: "string \<Rightarrow> string list \<Rightarrow> string list" where
  "sort_in x [] = [x]"
| "sort_in x (y # ys) = (if string_less y x then y # sort_in x ys else x # y # ys)"

definition sort_strings :: "string list \<Rightarrow> string list" where
  "sort_strings xs = foldr sort_in xs []"

definition filter_equal :: "input_filter \<Rightarrow> input_filter \<Rightarrow> bool" where
  "filter_equal f x \<longleftrightarrow>
     (if length (if_rules f) \<noteq> length (if_rules x) then False
      else sort_strings (map rule_format (if_rules f)) = sort_strings (map rule_format (if_rules x)))"

text \<open>The first rule that matches handles the event; otherwise it is passed on.\<close>

fun first_match :: "filter_payload \<Rightarrow> rule list \<Rightarrow> filter_call list option" where
  "first_match e [] = None"
| "first_match e (r # rs) =
     (case rule_handleEvent e r of Some cs \<Rightarrow> Some cs | None \<Rightarrow> first_match e rs)"

definition filter_handleEvent :: "filter_payload \<Rightarrow> input_filter \<Rightarrow> input_filter" where
  "filter_handleEvent e f =
     (case first_match e (if_rules f) of
        Some cs \<Rightarrow> call_out cs f
      | None \<Rightarrow> call_out [Add_Event e True] f)"

end
