(* ===== verification/Input_Filter_Props.thy ===== *)
theory Input_Filter_Props
  imports Input_Filter "HOL-Library.Multiset"
begin

text \<open>
  The hot keys and handlers that the input filter holds on the primary client, the rules as the
  first match, and the comparison of filters.
\<close>

section \<open>What is held\<close>

text \<open>The identifiers registered and not yet given back, and the handlers installed.\<close>

fun held_step :: "u32 multiset \<Rightarrow> filter_call \<Rightarrow> u32 multiset" where
  "held_step h (Register_Hot_Key key m i) = add_mset i h"
| "held_step h (Unregister_Hot_Key i) = h - {#i#}"
| "held_step h c = h"

definition held :: "filter_call list \<Rightarrow> u32 multiset" where
  "held made = foldl held_step {#} made"

fun installed_step :: "(watched_event \<times> nat) set \<Rightarrow> filter_call \<Rightarrow> (watched_event \<times> nat) set" where
  "installed_step h (Add_Handler w p) = insert (w, p) h"
| "installed_step h (Remove_Handler w p) = h - {(w, p)}"
| "installed_step h c = h"

definition installed :: "filter_call list \<Rightarrow> (watched_event \<times> nat) set" where
  "installed made = foldl installed_step {} made"

fun hotkey_id :: "rule \<Rightarrow> u32 list" where
  "hotkey_id r = (case ru_condition r of Some (Keystroke_Condition i key m) \<Rightarrow> [i] | _ \<Rightarrow> [])"

definition hotkey_ids :: "rule list \<Rightarrow> u32 list" where
  "hotkey_ids rs = concat (map hotkey_id rs)"

declare hotkey_id.simps [simp del]

text \<open>Every rule with a hot key has the identifier that its key was registered under.\<close>

definition owns_id :: "filter_call list \<Rightarrow> rule \<Rightarrow> bool" where
  "owns_id made r \<longleftrightarrow>
     (case ru_condition r of Some (Keystroke_Condition i key m) \<Rightarrow> Register_Hot_Key key m i \<in> set made | _ \<Rightarrow> True)"

definition filter_inv :: "input_filter \<Rightarrow> bool" where
  "filter_inv f \<longleftrightarrow>
     (case if_primary f of
        None \<Rightarrow> held (if_calls f) = {#} \<and> installed (if_calls f) = {}
      | Some p \<Rightarrow> held (if_calls f) = mset (hotkey_ids (if_rules f)) \<and>
          installed (if_calls f) = set watched_events \<times> {p} \<and>
          (\<forall>r\<in>set (if_rules f). owns_id (if_calls f) r))"

lemma held_append: "held (a @ b) = foldl held_step (held a) b"
  and installed_append: "installed (a @ b) = foldl installed_step (installed a) b"
  by (simp_all add: held_def installed_def)

lemma held_Nil [simp]: "held [] = {#}" and installed_Nil [simp]: "installed [] = {}"
  by (simp_all add: held_def installed_def)

lemma hotkey_ids_simps [simp]:
  "hotkey_ids [] = []" "hotkey_ids (r # rs) = hotkey_id r @ hotkey_ids rs"
  "hotkey_ids (rs @ rs') = hotkey_ids rs @ hotkey_ids rs'"
  by (simp_all add: hotkey_ids_def)

lemma owns_id_more: "owns_id made r \<Longrightarrow> owns_id (made @ cs) r"
  by (auto simp: owns_id_def split: option.splits condition.splits)

text \<open>Adding events changes nothing of it.\<close>

definition only_events :: "filter_call list \<Rightarrow> bool" where
  "only_events cs \<longleftrightarrow> (\<forall>c\<in>set cs. (\<exists>e b. c = Add_Event e b) \<or> c = Exit_Process)"

lemma only_events_held: "only_events cs \<Longrightarrow> held (made @ cs) = held made"
  and only_events_installed: "only_events cs \<Longrightarrow> installed (made @ cs) = installed made"
proof -
  have "only_events cs \<Longrightarrow> foldl held_step h cs = h \<and> foldl installed_step j cs = j" for h j
    by (induction cs) (auto simp: only_events_def)
  then show "only_events cs \<Longrightarrow> held (made @ cs) = held made"
    and "only_events cs \<Longrightarrow> installed (made @ cs) = installed made"
    by (simp_all add: held_append installed_append)
qed

lemma perform_only_events: "only_events (action_perform e a)"
  by (cases a) (auto simp: only_events_def perform_defs)

lemma perform_all_only_events: "only_events (perform_all e as)"
proof (induction as)
  case (Cons a as)
  then show ?case using perform_only_events [of e a] by (auto simp: only_events_def ball_Un)
qed (simp add: only_events_def)

lemma first_match_only_events: "first_match e rs = Some cs \<Longrightarrow> only_events cs"
  by (induction rs) (auto simp: rule_handleEvent_def perform_all_only_events
      split: option.splits filter_status.splits)

section \<open>Enabling and disabling rules\<close>

lemma rule_condition_cases:
  obtains "ru_condition r = None" | i key m where "ru_condition r = Some (Keystroke_Condition i key m)"
  | b m where "ru_condition r = Some (Mouse_Button_Condition b m)"
  | s where "ru_condition r = Some (Screen_Connected_Condition s)"
  by (cases "ru_condition r"; metis condition.exhaust)

lemma rule_disable_held:
  assumes "rule_disable made r = (r', made')"
  shows "held made' = held made - mset (hotkey_id r) \<and> installed made' = installed made"
  using assms
  by (cases r rule: rule_condition_cases)
    (auto simp: rule_disable_def hotkey_id.simps held_append installed_append)

lemma each_disable_held:
  "each_rule rule_disable made rs = (rs', made') \<Longrightarrow>
     held made' = held made - mset (hotkey_ids rs) \<and> installed made' = installed made"
proof (induction rs arbitrary: made rs' made')
  case (Cons r rs)
  obtain r1 m1 where 1: "rule_disable made r = (r1, m1)" by force
  obtain rs2 m2 where 2: "each_rule rule_disable m1 rs = (rs2, m2)" by force
  show ?case
    using Cons.prems 1 2 Cons.IH [OF 2] rule_disable_held [OF 1] by (simp add: diff_diff_add_mset)
qed simp

lemma rule_enable_held:
  assumes "rule_enable reg made r = (r', made')"
  shows "held made' = held made + mset (hotkey_id r') \<and> installed made' = installed made \<and>
    owns_id made' r' \<and> (\<exists>cs. made' = made @ cs)"
  using assms
  by (cases r rule: rule_condition_cases)
    (auto simp: rule_enable_def hotkey_id.simps owns_id_def held_append installed_append)

lemma each_enable_held:
  "each_rule (rule_enable reg) made rs = (rs', made') \<Longrightarrow>
     held made' = held made + mset (hotkey_ids rs') \<and> installed made' = installed made \<and>
     (\<forall>r\<in>set rs'. owns_id made' r) \<and> (\<exists>cs. made' = made @ cs)"
proof (induction rs arbitrary: made rs' made')
  case (Cons r rs)
  obtain r1 m1 where 1: "rule_enable reg made r = (r1, m1)" by force
  obtain rs2 m2 where 2: "each_rule (rule_enable reg) m1 rs = (rs2, m2)" by force
  note e = rule_enable_held [OF 1] and IH = Cons.IH [OF 2]
  then have "owns_id m2 r1" using owns_id_more by auto
  with Cons.prems 1 2 e IH show ?case by (auto simp: add.assoc)
qed simp

lemma handlers_held:
  "held (made @ map (\<lambda>w. Add_Handler w p) ws) = held made"
  "held (made @ map (\<lambda>w. Remove_Handler w p) ws) = held made"
  "installed (made @ map (\<lambda>w. Add_Handler w p) ws) = installed made \<union> set ws \<times> {p}"
  "installed (made @ map (\<lambda>w. Remove_Handler w p) ws) = installed made - set ws \<times> {p}"
proof -
  have "foldl held_step h (map (\<lambda>w. Add_Handler w p) ws) = h \<and>
      foldl held_step h (map (\<lambda>w. Remove_Handler w p) ws) = h \<and>
      foldl installed_step j (map (\<lambda>w. Add_Handler w p) ws) = j \<union> set ws \<times> {p} \<and>
      foldl installed_step j (map (\<lambda>w. Remove_Handler w p) ws) = j - set ws \<times> {p}" for h j
    by (induction ws arbitrary: j) auto
  then show "held (made @ map (\<lambda>w. Add_Handler w p) ws) = held made"
    "held (made @ map (\<lambda>w. Remove_Handler w p) ws) = held made"
    "installed (made @ map (\<lambda>w. Add_Handler w p) ws) = installed made \<union> set ws \<times> {p}"
    "installed (made @ map (\<lambda>w. Remove_Handler w p) ws) = installed made - set ws \<times> {p}"
    by (simp_all add: held_append installed_append)
qed

section \<open>Every operation keeps the invariant\<close>

lemma setPrimaryClient_None:
  assumes "filter_inv f"
  shows "held (if_calls (setPrimaryClient reg None f)) = {#}"
    and "installed (if_calls (setPrimaryClient reg None f)) = {}"
    and "if_primary (setPrimaryClient reg None f) = None"
proof -
  have "held (if_calls (setPrimaryClient reg None f)) = {#} \<and>
      installed (if_calls (setPrimaryClient reg None f)) = {} \<and> if_primary (setPrimaryClient reg None f) = None"
  proof (cases "if_primary f")
    case None
    with assms show ?thesis by (simp add: setPrimaryClient_def filter_inv_def)
  next
    case (Some p)
    obtain rs made where e: "each_rule rule_disable (if_calls f) (if_rules f) = (rs, made)" by force
    with Some assms each_disable_held [OF e] show ?thesis
      by (simp add: setPrimaryClient_def for_rules_def call_out_def handlers_held filter_inv_def)
  qed
  then show "held (if_calls (setPrimaryClient reg None f)) = {#}"
    and "installed (if_calls (setPrimaryClient reg None f)) = {}"
    and "if_primary (setPrimaryClient reg None f) = None" by blast+
qed

lemma setPrimaryClient_from_None:
  assumes "held (if_calls f) = {#}" and "installed (if_calls f) = {}" and "if_primary f = None"
  shows "filter_inv (setPrimaryClient reg client f)"
proof (cases client)
  case None
  with assms show ?thesis by (simp add: setPrimaryClient_def filter_inv_def)
next
  case (Some p)
  let ?made = "if_calls f @ map (\<lambda>w. Add_Handler w p) watched_events"
  obtain rs made where e: "each_rule (rule_enable reg) ?made (if_rules f) = (rs, made)" by force
  with Some assms each_enable_held [OF e] show ?thesis
    by (simp add: setPrimaryClient_def for_rules_def call_out_def handlers_held filter_inv_def)
qed

lemma setPrimaryClient_twice:
  "if_primary f \<noteq> client \<Longrightarrow> setPrimaryClient reg client f = setPrimaryClient reg client (setPrimaryClient reg None f)"
  by (cases client; cases "if_primary f")
    (simp_all add: setPrimaryClient_def for_rules_def call_out_def split: prod.splits)

lemma setPrimaryClient_inv: "filter_inv f \<Longrightarrow> filter_inv (setPrimaryClient reg client f)"
proof (cases "if_primary f = client")
  case True
  then show "filter_inv f \<Longrightarrow> filter_inv (setPrimaryClient reg client f)"
    by (simp add: setPrimaryClient_def)
next
  case False
  then show "filter_inv f \<Longrightarrow> filter_inv (setPrimaryClient reg client f)"
    using setPrimaryClient_twice [of f client reg] setPrimaryClient_None [of f reg]
      setPrimaryClient_from_None by simp
qed

lemma filter_assign_inv: "filter_inv f \<Longrightarrow> filter_inv (filter_assign reg x f)"
  using setPrimaryClient_None [of f reg] unfolding filter_assign_def
  by (intro setPrimaryClient_from_None) simp_all

lemma addFilterRule_inv:
  assumes "filter_inv f" and "if_primary f = None \<or> \<not> moved"
  shows "filter_inv (addFilterRule reg moved r f)"
proof (cases "if_primary f")
  case None
  with assms show ?thesis by (simp add: addFilterRule_def filter_inv_def)
next
  case (Some p)
  obtain r' made where e: "rule_enable reg (if_calls f) (rule_copy r) = (r', made)" by force
  obtain cs where "made = if_calls f @ cs" using rule_enable_held [OF e] by blast
  with Some assms e rule_enable_held [OF e] show ?thesis
    by (auto simp: addFilterRule_def filter_inv_def owns_id_more)
qed

lemma removeFilterRule_inv:
  assumes "filter_inv f" and "removeFilterRule k f = Some f'" and "if_primary f = None \<or> Suc k = length (if_rules f)"
  shows "filter_inv f'"
proof (cases "if_primary f")
  case None
  with assms show ?thesis by (auto simp: removeFilterRule_def filter_inv_def split: if_splits)
next
  case (Some p)
  let ?r = "if_rules f ! k"
  obtain r' made where e: "rule_disable (if_calls f) ?r = (r', made)" by force
  have k: "k < length (if_rules f)" and last: "Suc k = length (if_rules f)"
    using assms(2,3) Some by (auto simp: removeFilterRule_def split: if_splits)
  have split: "if_rules f = take k (if_rules f) @ [?r]"
    using last by (metis append_self_conv drop_all le_refl id_take_nth_drop k)
  have f': "f' = f\<lparr>if_rules := take k (if_rules f), if_calls := made\<rparr>"
    using assms(2) Some e k last by (simp add: removeFilterRule_def)
  obtain cs where cs: "made = if_calls f @ cs"
    using e by (cases ?r rule: rule_condition_cases) (auto simp: rule_disable_def)
  have "held made = held (if_calls f) - mset (hotkey_id ?r)" using rule_disable_held [OF e] by simp
  also have "held (if_calls f) = mset (hotkey_ids (take k (if_rules f) @ [?r]))"
    using assms(1) Some split by (simp add: filter_inv_def)
  finally have "held made = mset (hotkey_ids (take k (if_rules f)))" by simp
  then show ?thesis
    using assms(1) Some f' cs rule_disable_held [OF e] owns_id_more
    by (auto simp: filter_inv_def dest: in_set_takeD)
qed

lemma filter_handleEvent_inv:
  assumes "filter_inv f"
  shows "filter_inv (filter_handleEvent e f)"
proof -
  obtain cs where cs: "filter_handleEvent e f = call_out cs f" "only_events cs"
  proof (cases "first_match e (if_rules f)")
    case None
    then have "filter_handleEvent e f = call_out [Add_Event e True] f" by (simp add: filter_handleEvent_def)
    then show thesis by (rule that) (auto simp: only_events_def)
  next
    case (Some cs)
    then show thesis
      using that [of cs] first_match_only_events [OF Some] by (simp add: filter_handleEvent_def)
  qed
  then show ?thesis
    using assms by (auto simp: filter_inv_def call_out_def only_events_held only_events_installed owns_id_more
        split: option.splits)
qed

text \<open>
  The runs of a filter in which no rule is copied while the filter is enabled: no rule is added
  to a full vector then, and only the last one is removed.
\<close>

inductive filter_run :: "hot_keys \<Rightarrow> input_filter \<Rightarrow> bool" for reg where
  new: "filter_run reg filter_new"
| client: "filter_run reg f \<Longrightarrow> filter_run reg (setPrimaryClient reg c f)"
| add: "filter_run reg f \<Longrightarrow> if_primary f = None \<or> \<not> moved \<Longrightarrow> filter_run reg (addFilterRule reg moved r f)"
| remove: "filter_run reg f \<Longrightarrow> removeFilterRule k f = Some f' \<Longrightarrow>
    if_primary f = None \<or> Suc k = length (if_rules f) \<Longrightarrow> filter_run reg f'"
| assign: "filter_run reg f \<Longrightarrow> filter_run reg (filter_assign reg x f)"
| event: "filter_run reg f \<Longrightarrow> filter_run reg (filter_handleEvent e f)"

lemma filter_run_inv: "filter_run reg f \<Longrightarrow> filter_inv f"
proof (induction rule: filter_run.induct)
  case new
  show ?case by (simp add: filter_inv_def filter_new_def)
qed (simp_all add: setPrimaryClient_inv addFilterRule_inv removeFilterRule_inv filter_assign_inv filter_handleEvent_inv)

section \<open>Which rule a hot key activates\<close>

lemma hotkey_id_member: "i \<in> set (hotkey_id r) \<longleftrightarrow> (\<exists>key m. ru_condition r = Some (Keystroke_Condition i key m))"
  by (cases r rule: rule_condition_cases) (auto simp: hotkey_id.simps)

lemma hotkey_match:
  "rule_handleEvent (Ev_Hotkey_Down i) r =
     (if i \<in> set (hotkey_id r) then Some (perform_all (Ev_Hotkey_Down i) (ru_activate r)) else None)"
  by (cases r rule: rule_condition_cases) (auto simp: rule_handleEvent_def hotkey_id.simps keystroke_match_def button_match_def connected_match_def)

lemma hotkey_unmatched: "i \<notin> set (hotkey_ids rs) \<Longrightarrow> first_match (Ev_Hotkey_Down i) rs = None"
  by (induction rs) (simp_all add: hotkey_match)

lemma hotkey_matched:
  assumes "distinct (hotkey_ids rs)" and "r \<in> set rs" and "i \<in> set (hotkey_id r)"
  shows "first_match (Ev_Hotkey_Down i) rs = Some (perform_all (Ev_Hotkey_Down i) (ru_activate r))"
  using assms
proof (induction rs)
  case (Cons r' rs)
  have "i \<in> set (hotkey_ids rs)" if "r \<in> set rs"
    using that Cons.prems(3) by (auto simp: hotkey_ids_def)
  then show ?case using Cons by (auto simp: hotkey_match)
qed simp

lemma rule_copy_id: "i \<noteq> 0 \<Longrightarrow> i \<notin> set (hotkey_ids (map rule_copy rs))"
proof (induction rs)
  case (Cons r rs)
  then show ?case
    by (cases r rule: rule_condition_cases) (simp_all add: rule_copy_def hotkey_id.simps)
qed simp

section \<open>Comparison\<close>

lemma sort_in_mset: "mset (sort_in x ys) = add_mset x (mset ys)"
  by (induction ys) auto

lemma sort_strings_mset: "mset (sort_strings xs) = mset xs"
  by (induction xs) (simp_all add: sort_strings_def sort_in_mset)

abbreviation string_le :: "string \<Rightarrow> string \<Rightarrow> bool" where
  "string_le a b \<equiv> \<not> string_less b a"

lemma sort_in_sorted: "sorted_wrt string_le ys \<Longrightarrow> sorted_wrt string_le (sort_in x ys)"
proof (induction ys)
  case (Cons y ys)
  have "set (sort_in x ys) = insert x (set ys)"
    using sort_in_mset [of x ys] by (metis set_mset_add_mset_insert set_mset_mset)
  moreover have "string_le x z" if "\<not> string_less y x" "z \<in> set ys" for z
    using that Cons.prems plain.negative_trans [of z y x] by auto
  moreover have "string_le y x" if "string_less y x" using that plain.asym by blast
  ultimately show ?case using Cons by auto
qed simp

lemma sort_strings_sorted: "sorted_wrt string_le (sort_strings xs)"
  by (induction xs) (simp_all add: sort_strings_def sort_in_sorted)

lemma string_le_antisym: "string_le a b \<Longrightarrow> string_le b a \<Longrightarrow> a = b"
  using same_key_plain by (auto simp: same_key_def)

lemma sorted_strings_unique:
  "sorted_wrt string_le xs \<Longrightarrow> sorted_wrt string_le ys \<Longrightarrow> mset xs = mset ys \<Longrightarrow> xs = ys"
proof (induction xs arbitrary: ys)
  case (Cons x xs)
  then obtain y ys' where ys: "ys = y # ys'" by (cases ys) auto
  have "x \<in> set ys" "y \<in> set (x # xs)" using Cons.prems(3) ys by (metis mset_eq_setD list.set_intros(1))+
  then have "x = y" using Cons.prems(1,2) ys string_le_antisym by auto
  with Cons ys show ?case by simp
qed simp

section \<open>Properties\<close>

text \<open>
  C25. Hot keys. In every run in which the rules are not copied while the filter is enabled, the
  hot keys registered on the primary client and the handlers installed are exactly those of the
  rules: none when the filter is disabled. If no two rules share an identifier, the hot key of a
  rule performs the actions of that rule and nothing else.
\<close>

theorem hotkeys_follow_rules:
  assumes "filter_run reg f"
  shows "held (if_calls f) = (if if_primary f = None then {#} else mset (hotkey_ids (if_rules f))) \<and>
    installed (if_calls f) = (case if_primary f of None \<Rightarrow> {} | Some p \<Rightarrow> set watched_events \<times> {p}) \<and>
    (\<forall>r\<in>set (if_rules f). \<forall>i key m. if_primary f \<noteq> None \<longrightarrow> ru_condition r = Some (Keystroke_Condition i key m) \<longrightarrow>
      Register_Hot_Key key m i \<in> set (if_calls f) \<and>
      (distinct (hotkey_ids (if_rules f)) \<longrightarrow>
        filter_handleEvent (Ev_Hotkey_Down i) f = call_out (perform_all (Ev_Hotkey_Down i) (ru_activate r)) f))"
proof -
  have "filter_handleEvent (Ev_Hotkey_Down i) f = call_out (perform_all (Ev_Hotkey_Down i) (ru_activate r)) f"
    if "distinct (hotkey_ids (if_rules f))" "r \<in> set (if_rules f)" "ru_condition r = Some (Keystroke_Condition i key m)"
    for r i key m
    using hotkey_matched [OF that(1,2), of i] that(3) by (simp add: filter_handleEvent_def hotkey_id_member)
  moreover have "Register_Hot_Key key m i \<in> set (if_calls f)"
    if "r \<in> set (if_rules f)" "ru_condition r = Some (Keystroke_Condition i key m)" "if_primary f \<noteq> None"
    for r i key m
    using filter_run_inv [OF assms] that by (fastforce simp: filter_inv_def owns_id_def)
  ultimately show ?thesis
    using filter_run_inv [OF assms] by (auto simp: filter_inv_def split: option.splits)
qed

definition demo_hot_key :: hot_keys where
  "demo_hot_key made = 1 + of_nat (length made)"

definition demo_rule :: rule where
  "demo_rule = \<lparr>ru_condition = Some (Keystroke_Condition 0 0xef1b 5),
     ru_activate = [Switch_To_Next_Screen_Action], ru_deactivate = []\<rparr>"

lemma hotkeys_follow_rules_witness:
  "held (if_calls (addFilterRule demo_hot_key False demo_rule (setPrimaryClient demo_hot_key (Some 7) filter_new))) =
     mset [9]"
proof -
  let ?f = "addFilterRule demo_hot_key False demo_rule (setPrimaryClient demo_hot_key (Some 7) filter_new)"
  have "filter_run demo_hot_key ?f" by (intro filter_run.add filter_run.client filter_run.new) simp
  moreover have "if_primary ?f \<noteq> None" "hotkey_ids (if_rules ?f) = [9]"
    by (simp_all add: addFilterRule_def setPrimaryClient_def filter_new_def for_rules_def call_out_def
        rule_enable_def rule_copy_def demo_rule_def demo_hot_key_def hotkey_id.simps watched_events_def)
  ultimately show ?thesis using hotkeys_follow_rules [of demo_hot_key ?f] by simp
qed

text \<open>
  C35. Hot keys lost. When a rule is added to an enabled filter whose vector of rules is full (the
  server does so for scroll lock whenever the configuration is reloaded), every rule forgets its
  identifier: the hot keys that were registered match nothing, their events are passed on, and
  they stay registered after the filter is disabled.
\<close>

theorem full_vector_loses_hotkeys:
  assumes "if_primary f = Some p" and "i \<in> set (hotkey_ids (if_rules f))" and "i \<noteq> 0"
    and "held (if_calls f) = mset (hotkey_ids (if_rules f))"
    and "reg (if_calls f) \<noteq> i" and "f' = addFilterRule reg True r f"
  shows "filter_handleEvent (Ev_Hotkey_Down i) f' = call_out [Add_Event (Ev_Hotkey_Down i) True] f' \<and>
    i \<in># held (if_calls (setPrimaryClient reg None f'))"
proof -
  obtain r' made where e: "rule_enable reg (if_calls f) (rule_copy r) = (r', made)" by force
  have f': "f' = f\<lparr>if_rules := map rule_copy (if_rules f) @ [r'], if_calls := made\<rparr>"
    using assms(1) e by (simp add: assms(6) addFilterRule_def)
  have "hotkey_id r' \<in> {[], [reg (if_calls f)]}"
    using e by (cases r rule: rule_condition_cases) (auto simp: rule_enable_def rule_copy_def hotkey_id.simps)
  then have free: "i \<notin> set (hotkey_ids (if_rules f'))"
    using assms(5) rule_copy_id [OF assms(3)] f' by auto
  obtain rs made' where d: "each_rule rule_disable made (if_rules f') = (rs, made')" by force
  have "i \<in># held made" using rule_enable_held [OF e] assms(2,4) by simp
  moreover have "count (mset (hotkey_ids (if_rules f'))) i = 0" using free by (simp add: not_in_iff [symmetric])
  ultimately have "i \<in># held made - mset (hotkey_ids (if_rules f'))"
    by (simp only: in_diff_count count_greater_zero_iff)
  then have "i \<in># held made'" using each_disable_held [OF d] by simp
  then show ?thesis
    using free d f' assms(1)
    by (simp add: filter_handleEvent_def hotkey_unmatched setPrimaryClient_def for_rules_def call_out_def handlers_held)
qed

lemma full_vector_loses_hotkeys_witness:
  "\<exists>f f'. f' = addFilterRule demo_hot_key True demo_rule f \<and> filter_run demo_hot_key f \<and>
    9 \<in># held (if_calls (setPrimaryClient demo_hot_key None f'))"
proof -
  let ?f = "addFilterRule demo_hot_key False demo_rule (setPrimaryClient demo_hot_key (Some 7) filter_new)"
  have run: "filter_run demo_hot_key ?f" by (intro filter_run.add filter_run.client filter_run.new) simp
  have f: "if_primary ?f = Some 7" "hotkey_ids (if_rules ?f) = [9]" "demo_hot_key (if_calls ?f) \<noteq> 9"
    by (simp_all add: addFilterRule_def setPrimaryClient_def filter_new_def for_rules_def call_out_def
        rule_enable_def rule_copy_def demo_rule_def demo_hot_key_def hotkey_id.simps watched_events_def)
  have "held (if_calls ?f) = mset (hotkey_ids (if_rules ?f))"
    using filter_run_inv [OF run] f(1) by (simp add: filter_inv_def)
  then show ?thesis
    using full_vector_loses_hotkeys [where f = ?f and p = 7 and i = 9 and reg = demo_hot_key and r = demo_rule
        and f' = "addFilterRule demo_hot_key True demo_rule ?f"] f run by auto
qed

text \<open>
  C36. Comparison. Filters are equal exactly when their rules, as they are written, are the same
  up to order, repetitions counted.
\<close>

theorem filter_equal_iff:
  "filter_equal f x \<longleftrightarrow> mset (map rule_format (if_rules f)) = mset (map rule_format (if_rules x))"
proof -
  have "sort_strings xs = sort_strings ys \<longleftrightarrow> mset xs = mset ys" for xs ys
    using sorted_strings_unique [OF sort_strings_sorted sort_strings_sorted] sort_strings_mset by metis
  moreover have "length (if_rules f) = length (if_rules x)"
    if "mset (map rule_format (if_rules f)) = mset (map rule_format (if_rules x))"
    using mset_eq_length [OF that] by simp
  ultimately show ?thesis by (auto simp: filter_equal_def)
qed

end
