(* ===== verification/Spec2Isabelle.thy ===== *)
theory Spec2Isabelle
  imports Packet_Source Config_Props Clipboards Clipboard_Chunk Unicode_Codec Event_Props Server_Map_Props Server_Props
    Proxy_Errors Hello Key_Names_Props Input_Filter_Props
begin

text \<open>
  A verification development for the core of ZeroFlow, a program that shares one keyboard, mouse
  and clipboard between computers (\<^verbatim>\<open>src/lib\<close>). One computer runs the server: it owns the
  devices, knows the layout of the screens (\<^verbatim>\<open>server/Config\<close>) and decides which screen is active
  (\<^verbatim>\<open>server/Server\<close>). Clients receive input and clipboards over a byte stream that is cut into
  packets (\<^verbatim>\<open>deskflow/PacketStreamFilter\<close>) of formatted messages (\<^verbatim>\<open>deskflow/ProtocolUtil\<close>).

  The theories, bottom up:

  \<^item> \<open>Prelude\<close>: machine words, big-endian numbers, lists and results shared by all.
  \<^item> \<open>Stream_Buffer\<close>: \<^verbatim>\<open>io/StreamBuffer\<close>, the chunked byte queue, refined to a list of bytes and
    offered through the locale \<open>byte_queue\<close>.
  \<^item> \<open>Packet_Filter\<close>: \<^verbatim>\<open>PacketStreamFilter\<close> over that queue. Its state is the record
    \<open>packet_filter\<close>; the network is the list of non-empty chunks its reads return.
  \<^item> \<open>Byte_Source\<close>, \<open>Protocol_Util\<close>, \<open>Packet_Source\<close>: the codec. \<open>writef_items\<close> and \<open>vreadf\<close> follow
    \<^verbatim>\<open>ProtocolUtil::writef\<close> and \<^verbatim>\<open>vreadf\<close>; the reader is generic in its source (locale
    \<open>byte_source\<close>), which the packet filter instantiates, so that the round trip holds through
    packets as well.
  \<^item> \<open>Ordered_Map\<close>, \<open>Strings\<close>, \<open>Floats\<close>: the standard library the code rests on: \<^verbatim>\<open>std::map\<close> with a
    strict weak order (locale \<open>weak_order\<close>, interpreted for the case-insensitive order of
    \<^verbatim>\<open>base/String.cpp\<close>, for plain strings and for linear orders), and rounding to binary32 and
    binary64 (locale \<open>rounding\<close>). \<open>C_Text\<close>: \<^verbatim>\<open>strtol\<close>, \<^verbatim>\<open>strtod\<close> and the formatting functions of
    \<^verbatim>\<open>base/String.cpp\<close>.
  \<^item> \<open>Screen_Link\<close>, \<open>Screen_Config\<close>, \<open>Config_Laws\<close>, \<open>Config_Props\<close>: \<^verbatim>\<open>CellEdge\<close>, \<^verbatim>\<open>Cell\<close> and \<^verbatim>\<open>Config\<close>. The
    invariant \<open>config_inv\<close> is kept by every operation; \<open>built\<close> are the configurations they make.
  \<^item> \<open>Clipboards\<close>: \<^verbatim>\<open>IClipboard\<close> as a record of operations with its laws as locales
    (\<open>clipboard_interface\<close>, \<open>clipboard_copy\<close>), and \<^verbatim>\<open>Clipboard\<close> as their interpretation.
  \<^item> \<open>Clipboard_Chunk\<close>: \<^verbatim>\<open>StreamChunker\<close> and \<^verbatim>\<open>ClipboardChunk\<close>, which carry a marshalled clipboard in
    messages: \<open>sendClipboard\<close> is the list of chunks, \<open>assemble\<close> the receiver's step.
  \<^item> \<open>Unicode\<close>, \<open>Unicode_Codec\<close>: \<^verbatim>\<open>base/Unicode.cpp\<close>; a pointer with its count is the list of bytes
    left, and every call of the decoder consumes one, so that the loops end.
  \<^item> \<open>Priority_Queue\<close>: \<^verbatim>\<open>base/PriorityQueue.h\<close>, a binary heap in a list, offered through the locale
    \<open>min_queue\<close>. \<open>Event_Queue\<close>, \<open>Event_Props\<close>: \<^verbatim>\<open>base/EventQueue\<close> with its buffer, timers, handlers and
    stop watch. Its state is the record \<open>event_queue\<close>, every locked operation is a function of it,
    and \<open>history\<close> relates a queue to the events it accepted, delivered and discarded.
  \<^item> \<open>Key_Info\<close>: \<^verbatim>\<open>IKeyState::KeyInfo\<close> with the string that lists the destinations of a key.
    \<open>Key_Names\<close>, \<open>Key_Names_Props\<close>: the names of keys and modifiers, \<^verbatim>\<open>KeyMap::formatKey\<close> and its
    parsers; a position in a text is the suffix that begins there.
  \<^item> \<open>Server_State\<close>, \<open>Server_Map\<close>, \<open>Server_Switch\<close>, \<open>Server_Clients\<close>, \<open>Server_Handlers\<close>: class \<^verbatim>\<open>Server\<close>. Its
    members are the record \<open>server\<close>, clients are numbers, what clients and clock answer during one
    event is the record \<open>env\<close>, and what the server tells them is the list \<open>out\<close> of effects. A
    handler is a function of the state; \<^const>\<open>None\<close> is a failed assertion, an index out of bounds
    or a loop that does not end. \<open>Server_Demo\<close> is the example the witnesses use.
  \<^item> \<open>Server_Inv\<close>, \<open>Server_Steps\<close>, \<open>Server_Reach\<close>, \<open>Server_Runs\<close>: the invariant of the client tables
    and pending switches, first for the handlers that leave the tables alone, then for
    connecting, disconnecting and reloading; the step relation \<open>server_step\<close> with one rule per
    event, and the states \<open>orderly_reach\<close> of the runs from the constructor \<open>server_init\<close> whose
    steps are \<open>orderly\<close>, which the code does not see to.
  \<^item> \<open>Server_Map_Props\<close>, \<open>Server_Props\<close>: the properties of the server.
  \<^item> \<open>Input_Filter\<close>, \<open>Input_Filter_Props\<close>: \<^verbatim>\<open>server/InputFilter\<close>, the rules for hot keys, buttons and connecting
    screens. The record \<open>input_filter\<close> holds the rules, the primary client and the calls made so far;
    \<open>filter_run\<close> are the runs in which no rule is copied while the filter is enabled.
  \<^item> \<open>Partial_Read\<close>: what \<^verbatim>\<open>readf\<close> leaves in the caller's variables when a message breaks off; many
    handlers ignore its result. \<open>Packet_Messages\<close>: messages as packets, the locale \<open>packet_source\<close>.
  \<^item> \<open>Keyboard_Layouts\<close>: \<^verbatim>\<open>KeyboardLayoutManager\<close>. \<open>Option_Ids\<close>, \<open>Key_Ids\<close>: the
    identifiers of options, modifiers and keys.
  \<^item> \<open>Server_Proxy\<close>: \<^verbatim>\<open>client/ServerProxy\<close>. Its state is the record \<open>server_proxy\<close>; an \<open>action\<close> reads
    the stream, changes the state, and logs the messages it writes and the calls it makes on the
    client; it stops early with the exception thrown. The loop over the messages is a partial function.
    \<open>Proxy_Steps\<close>, \<open>Proxy_Props\<close>: steps, invariant, phases and the end of the loop;
    \<open>Proxy_Input\<close>: what input messages become; \<open>Proxy_Errors\<close>: malformed messages.
  \<^item> \<open>Client\<close>: \<^verbatim>\<open>client/Client\<close>, the record \<open>client\<close>. Null pointers and installed handlers are
    fields, the calls on the screen and the events are the log. \<open>Client_Props\<close>: the step relation
    with one rule per event, its invariant and the properties of connections, clipboards and options.
  \<^item> \<open>Client_Proxy\<close>: the server's proxies \<^verbatim>\<open>server/ClientProxy1_0\<close> to \<^verbatim>\<open>ClientProxy1_8\<close> as the one record
    \<open>client_proxy\<close> with the number of its version. \<open>Client_Proxy_Props\<close>: steps, timers, shapes, and the
    end of the loop over a client's messages.
  \<^item> \<open>Session\<close>, \<open>Handshake\<close>: both ends of a connection together, each reading through its packet
    filter what the other wrote: calls of the server arrive at the client as the same calls, and
    the handshake completes on both sides.
  \<^item> \<open>Client_Listener\<close>: \<^verbatim>\<open>server/ClientListener\<close> and \<^verbatim>\<open>ClientProxyUnknown\<close>, with the handlers they
    install and the events they queue; connections are numbered. Sockets and packet filters
    live in the store \<open>li_live\<close>: a call on one that is not there sets \<open>li_fault\<close>, and an input that does
    so has no result. \<open>Listener_Props\<close>: the inputs as a step relation, its invariant, that every object
    in use is alive, and the safety of the dispatch. \<open>Hello\<close>: the exchange of versions
    and names, and a connection from its socket to a proxy that is ready.

  What the lemmas show. The codec, the packets and the clipboard messages round trip, whatever
  the fragmentation, and cut-off input is refused or yields complete parts only. A link of the
  layout answers for its interval and no other position. A switch lands where it should, a
  locked cursor stays, and no state of an orderly run has a dangling screen: a run is orderly if
  nobody connects or disconnects and nothing is reloaded while the screen saver remembers a screen and
  the active one is neither that nor the primary, and no reload renames a connected screen or
  drops the primary. How the code breaks otherwise is stated too (\<open>saver_leaves_dangling_active\<close>,
  \<open>renamed_client_stays_listed\<close>). Events are delivered in the order they were added, save those
  discarded with a buffer and those added while the pending ones are moved (\<open>pending_overtaken\<close>). The server proxy survives any bytes except
  the malformed messages a property names, and forwards input in order; the client meets no
  null pointer in any order of events, and its screen is enabled exactly while it is ready.

  Loops. The searches across screens (\<open>find_connected\<close>, \<open>walk\<close>) are partial functions: that they
  return is proved when unconnected screens form no cycle, and that they do not return is
  proved on a cycle. The loops over the messages of the server and of a client are partial functions as
  well; that they return on the packet filter is proved for every input. All other loops are structural or have a measure. No fuel is used.

  Simplifications. Screen coordinates of the server are integers (overflow is undefined in C++)
  and times are rationals; positions on edges are rationals rounded to binary32 by every
  operation; each operation is one step, so mutexes are not modelled; logging has no effect.
  The configuration file \<^verbatim>\<open>adoptClient\<close> reads and writes is an argument of \<open>adopt_client\<close>: the
  parsed layout, or that the file cannot be opened or parsed, and whether encoding and saving succeed. The aliases \<^verbatim>\<open>addScreen\<close> takes from the
  settings, the network address and the input filter of a configuration are parameters.

  Not modelled: the reader and writer of configuration files, key maps
  (except the names of keys), and what only calls the operating system, OpenSSL or Qt: the platform
  backends, sockets, threads, the graphical interface and the application shells.
\<close>

end
